(* ===== verification/Prelude.thy ===== *)
theory Prelude
  imports Main "HOL-Library.Word" "HOL-Library.Signed_Division"
begin

unbundle bit_operations_syntax

text \<open>
  Shared vocabulary of the development: the machine types of the C++ sources, the error
  values a run of the simulator can end with, the sequencing of fallible steps, and the
  generic lemmas on words and lists that the component theories use.
\<close>

section \<open>Collections of facts\<close>

named_theorems op_defs \<open>definitions of the operations of one component\<close>
named_theorems word_uint \<open>word operations read as unsigned integers\<close>

section \<open>Machine types\<close>

type_synonym u64 = "64 word"
type_synonym u32 = "32 word"
type_synonym bitset8 = "8 word"

section \<open>Fallible steps\<close>

text \<open>
  The ways a modelled function can fail to return a value: a \<open>DBG_Assert\<close> that does not
  hold (\<open>core/debug/aux_/assert_macros.hpp\<close>), a \<open>boost::get\<close> at the wrong alternative of a
  variant, an access outside a container, and a signed division whose quotient does not fit
  (the host traps). \<open>Thrown\<close> is an exception the code throws, and \<open>Reported\<close> is the value \<open>true\<close> that the network model's functions
  return after printing an error.
\<close>

datatype sim_error = AssertFailed | BadGet | OutOfRange | InvalidIterator | DivTrap | Reported | Thrown

type_synonym 'a result = "sim_error + 'a"

definition rbind :: "'a result \<Rightarrow> ('a \<Rightarrow> 'b result) \<Rightarrow> 'b result" where
  "rbind r f = (case r of Inl e \<Rightarrow> Inl e | Inr x \<Rightarrow> f x)"

definition dbg_assert :: "bool \<Rightarrow> 'a result \<Rightarrow> 'a result" where
  "dbg_assert b k = (if b then k else Inl AssertFailed)"

definition lookup_vec :: "'a list \<Rightarrow> nat \<Rightarrow> 'a result" where
  "lookup_vec xs i = (if i < length xs then Inr (xs ! i) else Inl OutOfRange)"

lemma rbind_Inr [simp]: "rbind (Inr x) f = f x"
  by (simp add: rbind_def)

lemma rbind_Inl [simp]: "rbind (Inl e) f = Inl e"
  by (simp add: rbind_def)

lemma rbind_eq_Inr [simp]: "rbind r f = Inr y \<longleftrightarrow> (\<exists>x. r = Inr x \<and> f x = Inr y)"
  by (cases r) simp_all

lemma rbind_assoc: "rbind (rbind r f) g = rbind r (\<lambda>x. rbind (f x) g)"
  by (cases r) simp_all

lemma dbg_assert_True [simp]: "dbg_assert True k = k"
  by (simp add: dbg_assert_def)

lemma dbg_assert_False [simp]: "dbg_assert False k = Inl AssertFailed"
  by (simp add: dbg_assert_def)

lemma dbg_assert_eq_Inr [simp]: "dbg_assert b k = Inr y \<longleftrightarrow> b \<and> k = Inr y"
  by (simp add: dbg_assert_def)

lemma lookup_vec_Inr [simp]: "lookup_vec xs i = Inr x \<longleftrightarrow> i < length xs \<and> xs ! i = x"
  by (auto simp: lookup_vec_def)

lemma lookup_vec_lt: "i < length xs \<Longrightarrow> lookup_vec xs i = Inr (xs ! i)"
  by (simp add: lookup_vec_def)

section \<open>Words as integers\<close>

lemma two_power_len_split: "(2::int) ^ LENGTH('a::len) = 2 * 2 ^ (LENGTH('a) - Suc 0)"
  by (metis len_gt_0 power_Suc Suc_pred)

lemma sint_eq_uint_msb:
  "sint a = uint a - (if bit a (LENGTH('a) - Suc 0) then 2 ^ LENGTH('a) else 0)"
  for a :: "'a::len word"
proof -
  have L: "Suc (LENGTH('a) - Suc 0) = LENGTH('a)" by simp
  have "sint a = signed_take_bit (LENGTH('a) - Suc 0) (uint a)"
    by (simp add: sint_uint)
  also have "\<dots> = take_bit LENGTH('a) (uint a)
      - 2 ^ LENGTH('a) * of_bool (bit (uint a) (LENGTH('a) - Suc 0))"
    by (simp only: signed_take_bit_eq_take_bit_minus L)
  also have "take_bit LENGTH('a) (uint a) = uint a"
    by (rule take_bit_int_eq_self) simp_all
  finally show ?thesis by (simp add: bit_uint_iff)
qed

lemma bit_msb_iff_uint:
  "bit a (LENGTH('a) - Suc 0) \<longleftrightarrow> 2 ^ (LENGTH('a) - Suc 0) \<le> uint a" for a :: "'a::len word"
proof -
  have s: "sint a = uint a
      - (if bit a (LENGTH('a) - Suc 0) then 2 * 2 ^ (LENGTH('a) - Suc 0) else 0)"
    by (simp add: sint_eq_uint_msb two_power_len_split)
  have "- (2 ^ (LENGTH('a) - Suc 0)) \<le> sint a" "sint a < 2 ^ (LENGTH('a) - Suc 0)"
    using sint_ge [of a] sint_lt [of a] by simp_all
  then show ?thesis using s by (auto split: if_splits)
qed

lemma uint_plus_cases [word_uint]:
  "uint (a + b) = (if 2 ^ LENGTH('a) \<le> uint a + uint b
     then uint a + uint b - 2 ^ LENGTH('a) else uint a + uint b)" for a b :: "'a::len word"
  using uint_lt2p [of a] uint_lt2p [of b] by (auto simp: uint_plus_if_size word_size)

lemma uint_minus_cases [word_uint]:
  "uint (a - b) = (if uint b \<le> uint a
     then uint a - uint b else uint a - uint b + 2 ^ LENGTH('a))" for a b :: "'a::len word"
  by (auto simp: uint_sub_if_size word_size)

text \<open>
  The overflow test of two's complement addition and subtraction, read off the top bits of
  the operands and of the result, says exactly that the signed result is not the true one.
\<close>

lemma add_overflow_iff:
  fixes a b :: "'a::len word"
  defines "m w \<equiv> bit (w :: 'a word) (LENGTH('a) - Suc 0)"
  shows "(m a = m b \<and> m a \<noteq> m (a + b)) \<longleftrightarrow> sint (a + b) \<noteq> sint a + sint b"
  unfolding m_def sint_eq_uint_msb bit_msb_iff_uint uint_plus_cases
  using uint_lt2p [of a] uint_lt2p [of b]
  by (auto simp: two_power_len_split; use uint_ge_0 [of a] uint_ge_0 [of b] in linarith)

lemma sub_overflow_iff:
  fixes a b :: "'a::len word"
  defines "m w \<equiv> bit (w :: 'a word) (LENGTH('a) - Suc 0)"
  shows "(m a \<noteq> m b \<and> m a \<noteq> m (a - b)) \<longleftrightarrow> sint (a - b) \<noteq> sint a - sint b"
  unfolding m_def sint_eq_uint_msb bit_msb_iff_uint uint_minus_cases
  using uint_lt2p [of a] uint_lt2p [of b]
  by (auto simp: two_power_len_split; use uint_ge_0 [of a] uint_ge_0 [of b] in linarith)

text \<open>Counters that do not wrap.\<close>

lemma sint_of_int32:
  assumes "- (2 ^ 31) \<le> i" "i < 2 ^ 31"
  shows "sint (word_of_int i :: 32 word) = i"
proof -
  have "sint (word_of_int i :: 32 word) = signed_take_bit 31 i" by (simp add: sint_sbintrunc')
  also have "\<dots> = i" using assms by (intro signed_take_bit_int_eq_self) simp_all
  finally show ?thesis .
qed

text \<open>A sum of signed 32 bit integers wraps around when it leaves their range.\<close>

definition wrap32 :: "int \<Rightarrow> int" where
  "wrap32 i = sint (word_of_int i :: 32 word)"

lemma wrap32_id: "- (2 ^ 31) \<le> i \<Longrightarrow> i < 2 ^ 31 \<Longrightarrow> wrap32 i = i"
  unfolding wrap32_def by (rule sint_of_int32)

lemma unat_add_small: "unat (a :: u32) + n < 2 ^ 32 \<Longrightarrow> unat (a + of_nat n) = unat a + n"
  by (simp add: unat_word_ariths unat_of_nat)

lemma unat_sub_small: "n \<le> unat (a :: u32) \<Longrightarrow> unat (a - of_nat n) = unat a - n"
proof -
  assume n: "n \<le> unat a"
  have "unat a < 2 ^ 32" using unsigned_less [of a, where ?'a = nat] by simp
  then have "unat (of_nat n :: u32) = n" using n by (simp add: unat_of_nat)
  then show ?thesis using n by (simp add: unat_sub word_le_nat_alt)
qed

end
