(* ===== verification/V9_Conditions.thy ===== *)
theory V9_Conditions
  imports Prelude
begin

text \<open>
  The condition codes of the SPARC v9 model and the tests on them:
  \<open>components/uArch/RegisterType.hpp\<close> (bit positions and floating point codes) and
  \<open>components/v9Decoder/Conditions.cpp\<close>, \<open>Conditions.hpp\<close> (integer, floating point and
  register conditions). The boost lambda functors become HOL functions; a condition code
  register is the 8 bit word that \<open>std::bitset<8>\<close> holds.
\<close>

section \<open>Bit positions and floating point codes\<close>

abbreviation (input) iccC :: nat where "iccC \<equiv> 0"
abbreviation (input) iccV :: nat where "iccV \<equiv> 1"
abbreviation (input) iccZ :: nat where "iccZ \<equiv> 2"
abbreviation (input) iccN :: nat where "iccN \<equiv> 3"
abbreviation (input) xccC :: nat where "xccC \<equiv> 4"
abbreviation (input) xccV :: nat where "xccV \<equiv> 5"
abbreviation (input) xccZ :: nat where "xccZ \<equiv> 6"
abbreviation (input) xccN :: nat where "xccN \<equiv> 7"

datatype fccVals = fccE | fccL | fccG | fccU

primrec fcc_code :: "fccVals \<Rightarrow> u32" where
  "fcc_code fccE = 0"
| "fcc_code fccL = 1"
| "fcc_code fccG = 2"
| "fcc_code fccU = 3"

text \<open>\<open>to_ulong\<close> of a \<open>bitset<8>\<close>, the constructor from an integer, and assignment to one bit.\<close>

definition to_ulong :: "bitset8 \<Rightarrow> u64" where
  "to_ulong cc = ucast cc"

definition bitset_of :: "u64 \<Rightarrow> bitset8" where
  "bitset_of v = ucast v"

definition assign_bit :: "nat \<Rightarrow> bool \<Rightarrow> bitset8 \<Rightarrow> bitset8" where
  "assign_bit i b cc = (if b then Bit_Operations.set_bit i cc else unset_bit i cc)"

section \<open>Integer conditions\<close>

record Condition =
  isNegated :: bool
  isXcc :: bool
  theTest :: "bitset8 \<Rightarrow> nat \<Rightarrow> bool"

definition run_Condition :: "Condition \<Rightarrow> bitset8 \<Rightarrow> bool" where
  "run_Condition c aCC =
     (let cond = theTest c aCC (if isXcc c then 4 else 0) in cond \<noteq> isNegated c)"

definition packCondition :: "bool \<Rightarrow> bool \<Rightarrow> u32 \<Rightarrow> u32" where
  "packCondition aFloating Xcc aCondition =
     (let ret_val = aCondition;
          ret_val = (if Xcc then ret_val OR 0x10 else ret_val);
          ret_val = (if aFloating then ret_val OR 0x20 else ret_val)
      in ret_val)"

definition isFloating :: "u32 \<Rightarrow> bool" where
  "isFloating aPackedCondition = (aPackedCondition AND 0x20 \<noteq> 0)"

definition condition_test :: "u32 \<Rightarrow> (bitset8 \<Rightarrow> nat \<Rightarrow> bool) result" where
  "condition_test aCondition =
     (if aCondition = 0 then Inr (\<lambda>cc off. True)
      else if aCondition = 1 then Inr (\<lambda>cc off. bit cc (iccZ + off))
      else if aCondition = 2 then
        Inr (\<lambda>cc off. bit cc (iccZ + off) \<or> (bit cc (iccN + off) \<noteq> bit cc (iccV + off)))
      else if aCondition = 3 then Inr (\<lambda>cc off. bit cc (iccN + off) \<noteq> bit cc (iccV + off))
      else if aCondition = 4 then Inr (\<lambda>cc off. bit cc (iccC + off) \<or> bit cc (iccZ + off))
      else if aCondition = 5 then Inr (\<lambda>cc off. bit cc (iccC + off))
      else if aCondition = 6 then Inr (\<lambda>cc off. bit cc (iccN + off))
      else if aCondition = 7 then Inr (\<lambda>cc off. bit cc (iccV + off))
      else Inl AssertFailed)"

definition condition3 :: "bool \<Rightarrow> bool \<Rightarrow> u32 \<Rightarrow> Condition result" where
  "condition3 aNegate Xcc aCondition =
     dbg_assert (aCondition \<le> 7)
       (rbind (condition_test aCondition)
         (\<lambda>test. Inr \<lparr>isNegated = aNegate, isXcc = Xcc, theTest = test\<rparr>))"

definition condition :: "u32 \<Rightarrow> Condition result" where
  "condition aCondition =
     condition3 (aCondition AND 0x8 \<noteq> 0) (aCondition AND 0x10 \<noteq> 0) (aCondition AND 0x7)"

section \<open>Floating point conditions\<close>

definition fcc_is :: "fccVals \<Rightarrow> bitset8 \<Rightarrow> bool" where
  "fcc_is f cc = (to_ulong cc = ucast (fcc_code f))"

definition fcondition :: "u32 \<Rightarrow> bitset8 \<Rightarrow> bool" where
  "fcondition aCondition cc =
     (let c = aCondition AND 0xF in
      if c = 0 then False
      else if c = 1 then fcc_is fccL cc \<or> fcc_is fccG cc \<or> fcc_is fccU cc
      else if c = 2 then fcc_is fccL cc \<or> fcc_is fccG cc
      else if c = 3 then fcc_is fccL cc \<or> fcc_is fccU cc
      else if c = 4 then fcc_is fccL cc
      else if c = 5 then fcc_is fccG cc \<or> fcc_is fccU cc
      else if c = 6 then fcc_is fccG cc
      else if c = 7 then fcc_is fccU cc
      else if c = 8 then True
      else if c = 9 then fcc_is fccE cc
      else if c = 10 then fcc_is fccU cc \<or> fcc_is fccE cc
      else if c = 11 then fcc_is fccG cc \<or> fcc_is fccE cc
      else if c = 12 then fcc_is fccG cc \<or> fcc_is fccE cc \<or> fcc_is fccU cc
      else if c = 13 then fcc_is fccL cc \<or> fcc_is fccE cc
      else if c = 14 then fcc_is fccL cc \<or> fcc_is fccE cc \<or> fcc_is fccU cc
      else fcc_is fccG cc \<or> fcc_is fccE cc \<or> fcc_is fccL cc)"

section \<open>Register conditions\<close>

record RCondition =
  r_isNegated :: bool
  r_theTest :: "u64 \<Rightarrow> bool"

definition run_RCondition :: "RCondition \<Rightarrow> u64 \<Rightarrow> bool" where
  "run_RCondition c aVal = (let cond = r_theTest c aVal in cond \<noteq> r_isNegated c)"

definition rcondition :: "u32 \<Rightarrow> RCondition result" where
  "rcondition aCondition =
     (let negate = (aCondition AND 0x4 \<noteq> 0); c = aCondition AND 0x3 in
      if c = 1 then Inr \<lparr>r_isNegated = negate, r_theTest = (\<lambda>v. sint v = 0)\<rparr>
      else if c = 2 then Inr \<lparr>r_isNegated = negate, r_theTest = (\<lambda>v. sint v \<le> 0)\<rparr>
      else if c = 3 then Inr \<lparr>r_isNegated = negate, r_theTest = (\<lambda>v. sint v < 0)\<rparr>
      else Inl AssertFailed)"

definition rconditionValid :: "u32 \<Rightarrow> bool" where
  "rconditionValid aCondition =
     (let c = aCondition AND 0x3 in c = 1 \<or> c = 2 \<or> c = 3)"

end
