(* ===== verification/V9_Alu.thy ===== *)
theory V9_Alu
  imports V9_Conditions
begin

text \<open>
  The integer operations of the SPARC v9 decoder, \<open>components/v9Decoder/Operations.cpp\<close>:
  every \<open>Operation\<close> object is a function from the operand vector to an operand, with
  \<open>evalExtra\<close> (the second result, for the Y register or GSR) as a function of its own, and
  the three dispatch tables \<open>operation\<close>, \<open>ccCalc\<close> and \<open>shift\<close>. The operand variant is
  \<open>Operand\<close> of \<open>OperandMap.hpp\<close>; \<open>boost::get\<close> at the wrong alternative fails.
\<close>

section \<open>Operands\<close>

datatype eRegisterType = rRegisters | fRegisters | ccBits

record reg =
  theType :: eRegisterType
  theIndex :: u32

datatype operand = U64 u64 | CCbits bitset8 | Mapped reg | Unmapped reg

fun get_u64 :: "operand \<Rightarrow> u64 result" where
  "get_u64 (U64 v) = Inr v"
| "get_u64 _ = Inl BadGet"

fun get_cc :: "operand \<Rightarrow> bitset8 result" where
  "get_cc (CCbits c) = Inr c"
| "get_cc _ = Inl BadGet"

definition arg_u64 :: "operand list \<Rightarrow> nat \<Rightarrow> u64 result" where
  "arg_u64 ops i = rbind (lookup_vec ops i) get_u64"

definition arg_cc :: "operand list \<Rightarrow> nat \<Rightarrow> bitset8 result" where
  "arg_cc ops i = rbind (lookup_vec ops i) get_cc"

type_synonym operation_fn = "operand list \<Rightarrow> operand result"

text \<open>Two \<open>uint64_t\<close> operands, after the check on the size of the vector.\<close>

definition binary_u64 :: "(u64 \<Rightarrow> u64 \<Rightarrow> u64) \<Rightarrow> operation_fn" where
  "binary_u64 f ops =
     dbg_assert (length ops = 2)
       (rbind (arg_u64 ops 0) (\<lambda>a. rbind (arg_u64 ops 1) (\<lambda>b. Inr (U64 (f a b)))))"

text \<open>\<open>Operation::evalExtra\<close> when it is not overridden.\<close>

definition evalExtra_default :: operation_fn where
  "evalExtra_default ops = Inr (U64 0)"

section \<open>Arithmetic and logic\<close>

definition Add :: operation_fn where
  "Add = binary_u64 (\<lambda>a b. a + b)"

definition AddTrunc :: operation_fn where
  "AddTrunc = binary_u64 (\<lambda>a b. (a + b) AND 0xFFFFFFFF)"

definition Align :: operation_fn where
  "Align ops = dbg_assert (length ops = 3)
     (rbind (arg_u64 ops 0) (\<lambda>a. rbind (arg_u64 ops 1) (\<lambda>b. Inr (U64 ((a + b) AND NOT 7)))))"

definition Align_evalExtra :: operation_fn where
  "Align_evalExtra ops = dbg_assert (length ops = 3)
     (rbind (arg_u64 ops 0) (\<lambda>a. rbind (arg_u64 ops 1) (\<lambda>b. rbind (arg_u64 ops 2) (\<lambda>c.
        let bits = (a + b) AND 7; gsr = (c AND NOT 7) OR bits in Inr (U64 gsr)))))"

definition AlignLittle :: operation_fn where
  "AlignLittle ops = dbg_assert (length ops = 3)
     (rbind (arg_u64 ops 0) (\<lambda>a. rbind (arg_u64 ops 1) (\<lambda>b. Inr (U64 ((a + b) AND NOT 7)))))"

definition AlignLittle_evalExtra :: operation_fn where
  "AlignLittle_evalExtra ops = dbg_assert (length ops = 3)
     (rbind (arg_u64 ops 0) (\<lambda>a. rbind (arg_u64 ops 1) (\<lambda>b. rbind (arg_u64 ops 2) (\<lambda>c.
        let bits = (a + b) AND 7; bits = (NOT bits + 1) AND 7; gsr = (c AND NOT 7) OR bits
        in Inr (U64 gsr)))))"

definition carry_of :: "bitset8 \<Rightarrow> u64" where
  "carry_of cc = (if bit cc iccC then 1 else 0)"

definition AddC :: operation_fn where
  "AddC ops = dbg_assert (length ops = 3)
     (rbind (arg_cc ops 2) (\<lambda>cc. rbind (arg_u64 ops 0) (\<lambda>a. rbind (arg_u64 ops 1) (\<lambda>b.
        Inr (U64 (a + b + carry_of cc))))))"

definition SubC :: operation_fn where
  "SubC ops = dbg_assert (length ops = 3)
     (rbind (arg_cc ops 2) (\<lambda>cc. rbind (arg_u64 ops 0) (\<lambda>a. rbind (arg_u64 ops 1) (\<lambda>b.
        Inr (U64 (a - b - carry_of cc))))))"

definition And :: operation_fn where
  "And = binary_u64 (\<lambda>a b. a AND b)"

definition Or :: operation_fn where
  "Or = binary_u64 (\<lambda>a b. a OR b)"

definition Xor :: operation_fn where
  "Xor = binary_u64 (\<lambda>a b. a XOR b)"

definition Sub :: operation_fn where
  "Sub = binary_u64 (\<lambda>a b. a - b)"

definition AndN :: operation_fn where
  "AndN = binary_u64 (\<lambda>a b. a AND NOT b)"

definition OrN :: operation_fn where
  "OrN = binary_u64 (\<lambda>a b. a OR NOT b)"

definition Xnor :: operation_fn where
  "Xnor = binary_u64 (\<lambda>a b. a XOR NOT b)"

section \<open>Multiplication and division\<close>

definition lo32 :: "u64 \<Rightarrow> u64" where
  "lo32 v = v AND 0xFFFFFFFF"

text \<open>The sign extension \<open>op | (op & sign ? 0xFFFFFFFF00000000 : 0)\<close> at a given sign mask.\<close>

definition sext32_at :: "u64 \<Rightarrow> u64 \<Rightarrow> u64" where
  "sext32_at sign v = v OR (if v AND sign \<noteq> 0 then 0xFFFFFFFF00000000 else 0)"

definition shr32 :: "operand result \<Rightarrow> operand result" where
  "shr32 r = rbind (rbind r get_u64) (\<lambda>v. Inr (U64 (drop_bit 32 v)))"

definition UMul_calc :: operation_fn where
  "UMul_calc = binary_u64 (\<lambda>a b. lo32 a * lo32 b)"

definition UMul :: operation_fn where
  "UMul ops = UMul_calc ops"

definition UMul_evalExtra :: operation_fn where
  "UMul_evalExtra ops = shr32 (UMul_calc ops)"

definition SMul_calc :: operation_fn where
  "SMul_calc = binary_u64 (\<lambda>a b. sext32_at 0x80000000 (lo32 a) * sext32_at 0x80000000 (lo32 b))"

definition SMul :: operation_fn where
  "SMul ops = SMul_calc ops"

definition SMul_evalExtra :: operation_fn where
  "SMul_evalExtra ops = shr32 (SMul_calc ops)"

text \<open>The three masked operands of the 32 bit divisions: dividend low, divisor, Y.\<close>

definition ternary_lo32 :: "(u64 \<Rightarrow> u64 \<Rightarrow> u64 \<Rightarrow> 'a result) \<Rightarrow> operand list \<Rightarrow> 'a result" where
  "ternary_lo32 f ops =
     rbind (arg_u64 ops 0) (\<lambda>a. rbind (arg_u64 ops 1) (\<lambda>b. rbind (arg_u64 ops 2) (\<lambda>y.
        f (lo32 a) (lo32 b) (lo32 y))))"

definition UDiv_calc :: operation_fn where
  "UDiv_calc ops = dbg_assert (length ops = 3) (ternary_lo32 (\<lambda>op0 op1 y.
     let dividend = op0 OR push_bit 32 y in
     if op1 = 0 then Inr (U64 0)
     else let prod = dividend div op1;
              prod = (if prod > 0xFFFFFFFF then 0xFFFFFFFF else prod)
          in Inr (U64 prod)) ops)"

definition UDiv :: operation_fn where
  "UDiv ops = UDiv_calc ops"

definition UDiv_evalExtra :: operation_fn where
  "UDiv_evalExtra ops = shr32 (UDiv_calc ops)"

text \<open>
  Signed division of \<open>int64_t\<close>: truncating, and a trap of the host when the quotient does not
  fit (\<open>INT64_MIN / -1\<close>).
\<close>

definition div_s64 :: "u64 \<Rightarrow> u64 \<Rightarrow> u64 result" where
  "div_s64 a b =
     (if sint a = - (2 ^ 63) \<and> sint b = -1 then Inl DivTrap
      else Inr (word_of_int (sint a sdiv sint b)))"

definition SDiv_calc :: operation_fn where
  "SDiv_calc ops = dbg_assert (length ops = 3) (ternary_lo32 (\<lambda>op0 op1 y.
     let dividend = op0 OR push_bit 32 y;
         divisor = sext32_at 0x80000000 op1 in
     if divisor = 0 then Inr (U64 0)
     else rbind (div_s64 dividend divisor) (\<lambda>prod.
       Inr (U64 (if sint prod > 0x7FFFFFFF then 0x7FFFFFFF
                 else if sint prod < - 0x7FFFFFFF then 0xFFFFFFFF80000000
                 else prod)))) ops)"

definition SDiv :: operation_fn where
  "SDiv ops = SDiv_calc ops"

definition SDiv_evalExtra :: operation_fn where
  "SDiv_evalExtra ops = shr32 (SDiv_calc ops)"

definition MulX :: operation_fn where
  "MulX = binary_u64 (\<lambda>a b. a * b)"

definition UDivX :: operation_fn where
  "UDivX = binary_u64 (\<lambda>a b. if b \<noteq> 0 then a div b else 0)"

definition SDivX :: operation_fn where
  "SDivX ops = dbg_assert (length ops = 2)
     (rbind (arg_u64 ops 0) (\<lambda>a. rbind (arg_u64 ops 1) (\<lambda>b.
        if b \<noteq> 0 then rbind (div_s64 a b) (\<lambda>q. Inr (U64 q)) else Inr (U64 0))))"


section \<open>Conditional moves, traps and condition code transfers\<close>

definition packed_condition_holds :: "u64 \<Rightarrow> bitset8 \<Rightarrow> bool result" where
  "packed_condition_holds packed cc =
     (if isFloating (ucast packed) then Inr (fcondition (ucast packed) cc)
      else rbind (condition (ucast packed)) (\<lambda>cond. Inr (run_Condition cond cc)))"

definition MovCC :: operation_fn where
  "MovCC ops = dbg_assert (length ops = 4)
     (rbind (arg_u64 ops 0) (\<lambda>false_val. rbind (arg_u64 ops 1) (\<lambda>true_val.
      rbind (arg_cc ops 2) (\<lambda>cc. rbind (arg_u64 ops 3) (\<lambda>packed_condition.
      rbind (packed_condition_holds packed_condition cc) (\<lambda>r.
        if r then Inr (U64 true_val) else Inr (U64 false_val)))))))"

definition MovR :: operation_fn where
  "MovR ops = dbg_assert (length ops = 4)
     (rbind (arg_u64 ops 0) (\<lambda>false_val. rbind (arg_u64 ops 1) (\<lambda>true_val.
      rbind (arg_u64 ops 2) (\<lambda>cond_reg. rbind (arg_u64 ops 3) (\<lambda>condition.
      rbind (rcondition (ucast condition)) (\<lambda>cond.
        if run_RCondition cond cond_reg then Inr (U64 true_val) else Inr (U64 false_val)))))))"

definition TCC :: operation_fn where
  "TCC ops = dbg_assert (length ops = 4)
     (rbind (arg_u64 ops 1) (\<lambda>true_val. rbind (arg_cc ops 2) (\<lambda>cc.
      rbind (arg_u64 ops 3) (\<lambda>packed_condition.
      rbind (packed_condition_holds packed_condition cc) (\<lambda>r.
        if r then Inr (U64 true_val) else Inr (U64 0))))))"

definition ICC2ULONG :: operation_fn where
  "ICC2ULONG ops = dbg_assert (length ops = 1)
     (rbind (arg_cc ops 0) (\<lambda>ccr. Inr (U64 (to_ulong ccr))))"

definition ULONG2ICC :: operation_fn where
  "ULONG2ICC ops = dbg_assert (length ops = 1)
     (rbind (arg_u64 ops 0) (\<lambda>val. Inr (CCbits (bitset_of val))))"

text \<open>
  The dispatch on the op3 field. A code outside the table fails an assertion in the source
  before the default object is returned.
\<close>

definition operation :: "int \<Rightarrow> operation_fn result" where
  "operation anOp3Code =
     (if anOp3Code = 0 then Inr Add
      else if anOp3Code = 1 then Inr And
      else if anOp3Code = 2 then Inr Or
      else if anOp3Code = 3 then Inr Xor
      else if anOp3Code = 4 then Inr Sub
      else if anOp3Code = 5 then Inr AndN
      else if anOp3Code = 6 then Inr OrN
      else if anOp3Code = 7 then Inr Xnor
      else if anOp3Code = 8 then Inr AddC
      else if anOp3Code = 9 then Inr MulX
      else if anOp3Code = 0xC then Inr SubC
      else if anOp3Code = 0xA \<or> anOp3Code = 0x1A then Inr UMul
      else if anOp3Code = 0xB \<or> anOp3Code = 0x1B then Inr SMul
      else if anOp3Code = 0xD then Inr UDivX
      else if anOp3Code = 0xE \<or> anOp3Code = 0x1E then Inr UDiv
      else if anOp3Code = 0xF \<or> anOp3Code = 0x1F then Inr SDiv
      else if anOp3Code = 0x2D then Inr SDivX
      else if anOp3Code = 0x2C then Inr MovCC
      else if anOp3Code = 0x2F then Inr MovR
      else if anOp3Code = 0x3A then Inr TCC
      else if anOp3Code = 0xFB then Inr Align
      else if anOp3Code = 0xFC then Inr AlignLittle
      else if anOp3Code = 0xFD then Inr ULONG2ICC
      else if anOp3Code = 0xFE then Inr ICC2ULONG
      else if anOp3Code = 0xFF then Inr AddTrunc
      else Inl AssertFailed)"

section \<open>Condition code calculation\<close>

text \<open>
  Truth of a masked value, as in \<open>ccbits[xccN] = val & 0x8000000000000000ULL\<close>.
\<close>

definition truth :: "u64 \<Rightarrow> bool" where
  "truth v = (v \<noteq> 0)"

definition ccZN :: "u64 \<Rightarrow> bitset8 \<Rightarrow> bitset8" where
  "ccZN val cc =
     (let cc = assign_bit xccZ (val = 0) cc;
          cc = assign_bit iccZ (val AND 0xFFFFFFFF = 0) cc;
          cc = assign_bit xccN (truth (val AND 0x8000000000000000)) cc;
          cc = assign_bit iccN (truth (val AND 0x80000000)) cc
      in cc)"

definition Add_CC_bits :: "u64 \<Rightarrow> u64 \<Rightarrow> u64 \<Rightarrow> bitset8" where
  "Add_CC_bits op1 op2 val =
     (let ccbits = ccZN val 0;
          op1_63 = truth (op1 AND push_bit 63 1);
          op2_63 = truth (op2 AND push_bit 63 1);
          val_63 = truth (val AND push_bit 63 1);
          op1_31 = truth (op1 AND push_bit 31 1);
          op2_31 = truth (op2 AND push_bit 31 1);
          val_31 = truth (val AND push_bit 31 1);
          ccbits = assign_bit xccV (op1_63 = op2_63 \<and> op1_63 \<noteq> val_63) ccbits;
          ccbits = assign_bit iccV (op1_31 = op2_31 \<and> op1_31 \<noteq> val_31) ccbits;
          xcarry_add = drop_bit 1 op1 + drop_bit 1 op2 + (1 AND op1 AND op2);
          xcarry = truth (xcarry_add AND push_bit 63 1);
          ccbits = assign_bit xccC xcarry ccbits;
          icarry_add = (op1 AND 0xFFFFFFFF) + (op2 AND 0xFFFFFFFF);
          icarry = truth (icarry_add AND push_bit 32 1);
          ccbits = assign_bit iccC icarry ccbits
      in ccbits)"

definition Add_CC :: operation_fn where
  "Add_CC ops = dbg_assert (length ops = 2)
     (rbind (arg_u64 ops 0) (\<lambda>op1. rbind (arg_u64 ops 1) (\<lambda>op2.
      rbind (rbind (Add ops) get_u64) (\<lambda>val. Inr (CCbits (Add_CC_bits op1 op2 val))))))"

definition AddC_CC_bits :: "u64 \<Rightarrow> u64 \<Rightarrow> u64 \<Rightarrow> bitset8" where
  "AddC_CC_bits op1 op2 carry =
     (let val = op1 + op2 + carry;
          ccbits = ccZN val 0;
          op1_63 = truth (op1 AND push_bit 63 1);
          op2_63 = truth (op2 AND push_bit 63 1);
          val_63 = truth (val AND push_bit 63 1);
          op1_31 = truth (op1 AND push_bit 31 1);
          op2_31 = truth (op2 AND push_bit 31 1);
          val_31 = truth (val AND push_bit 31 1);
          op1_0 = op1 AND 1;
          op2_0 = op2 AND 1;
          ccbits = assign_bit xccV (op1_63 = op2_63 \<and> op1_63 \<noteq> val_63) ccbits;
          ccbits = assign_bit iccV (op1_31 = op2_31 \<and> op1_31 \<noteq> val_31) ccbits;
          xcarry_add = drop_bit 1 op1 + drop_bit 1 op2
            + ((op1_0 AND op2_0) OR (op1_0 AND carry) OR (op2_0 AND carry));
          xcarry = truth (xcarry_add AND push_bit 63 1);
          ccbits = assign_bit xccC xcarry ccbits;
          icarry_add = (op1 AND 0xFFFFFFFF) + (op2 AND 0xFFFFFFFF);
          icarry = truth (icarry_add AND push_bit 32 1);
          ccbits = assign_bit iccC icarry ccbits
      in ccbits)"

definition AddC_CC :: operation_fn where
  "AddC_CC ops = dbg_assert (length ops = 3)
     (rbind (arg_u64 ops 0) (\<lambda>op1. rbind (arg_u64 ops 1) (\<lambda>op2. rbind (arg_cc ops 2) (\<lambda>cc.
        Inr (CCbits (AddC_CC_bits op1 op2 (carry_of cc)))))))"

definition Sub_CC_bits :: "u64 \<Rightarrow> u64 \<Rightarrow> u64 \<Rightarrow> bitset8" where
  "Sub_CC_bits op1 op2 val =
     (let ccbits = assign_bit xccZ (val = 0) 0;
          ccbits = assign_bit iccZ (val AND 0xFFFFFFFF = 0) ccbits;
          op1_63 = truth (op1 AND push_bit 63 1);
          op2_63 = truth (op2 AND push_bit 63 1);
          val_63 = truth (val AND push_bit 63 1);
          op1_31 = truth (op1 AND push_bit 31 1);
          op2_31 = truth (op2 AND push_bit 31 1);
          val_31 = truth (val AND push_bit 31 1);
          ccbits = assign_bit xccN val_63 ccbits;
          ccbits = assign_bit iccN val_31 ccbits;
          ccbits = assign_bit xccV (op1_63 \<noteq> op2_63 \<and> op1_63 \<noteq> val_63) ccbits;
          ccbits = assign_bit iccV (op1_31 \<noteq> op2_31 \<and> op1_31 \<noteq> val_31) ccbits;
          xborrow_sub = drop_bit 1 op1 - drop_bit 1 op2 - (op2 AND 1 AND NOT op1);
          xborrow = truth (xborrow_sub AND push_bit 63 1);
          ccbits = assign_bit xccC xborrow ccbits;
          iborrow_sub = (op1 AND 0xFFFFFFFF) - (op2 AND 0xFFFFFFFF);
          iborrow = truth (iborrow_sub AND push_bit 32 1);
          ccbits = assign_bit iccC iborrow ccbits
      in ccbits)"

definition Sub_CC :: operation_fn where
  "Sub_CC ops =
     rbind (arg_u64 ops 0) (\<lambda>op1. rbind (arg_u64 ops 1) (\<lambda>op2.
     rbind (rbind (Sub ops) get_u64) (\<lambda>val. Inr (CCbits (Sub_CC_bits op1 op2 val)))))"

text \<open>
  \<open>SubC_CC\<close> computes its first borrow from \<open>op1 & 0\<close> and \<open>op2 & 0\<close>, as the source has it.
\<close>

definition SubC_CC_bits :: "u64 \<Rightarrow> u64 \<Rightarrow> u64 \<Rightarrow> bitset8" where
  "SubC_CC_bits op1 op2 carry =
     (let val = op1 - op2 - carry;
          ccbits = assign_bit xccZ (val = 0) 0;
          ccbits = assign_bit iccZ (val AND 0xFFFFFFFF = 0) ccbits;
          op1_63 = truth (op1 AND push_bit 63 1);
          op2_63 = truth (op2 AND push_bit 63 1);
          val_63 = truth (val AND push_bit 63 1);
          op1_31 = truth (op1 AND push_bit 31 1);
          op2_31 = truth (op2 AND push_bit 31 1);
          val_31 = truth (val AND push_bit 31 1);
          ccbits = assign_bit xccN val_63 ccbits;
          ccbits = assign_bit iccN val_31 ccbits;
          ccbits = assign_bit xccV (op1_63 \<noteq> op2_63 \<and> op1_63 \<noteq> val_63) ccbits;
          ccbits = assign_bit iccV (op1_31 \<noteq> op2_31 \<and> op1_31 \<noteq> val_31) ccbits;
          borrow0 = (if (\<not> truth (op1 AND 0) \<and> (truth carry \<or> truth (op2 AND 0)))
                        \<or> (truth carry \<and> truth (op2 AND 0)) then 1 else 0);
          xborrow_sub = drop_bit 1 op1 - drop_bit 1 op2 - borrow0;
          xborrow = truth (xborrow_sub AND push_bit 63 1);
          ccbits = assign_bit xccC xborrow ccbits;
          iborrow_sub = (op1 AND 0xFFFFFFFF) - (op2 AND 0xFFFFFFFF) - carry;
          iborrow = truth (iborrow_sub AND push_bit 32 1);
          ccbits = assign_bit iccC iborrow ccbits
      in ccbits)"

definition SubC_CC :: operation_fn where
  "SubC_CC ops =
     rbind (arg_u64 ops 0) (\<lambda>op1. rbind (arg_u64 ops 1) (\<lambda>op2. rbind (arg_cc ops 2) (\<lambda>cc.
       Inr (CCbits (SubC_CC_bits op1 op2 (carry_of cc))))))"

definition Logical_CC :: "operation_fn \<Rightarrow> operation_fn" where
  "Logical_CC Op ops = rbind (rbind (Op ops) get_u64) (\<lambda>val. Inr (CCbits (ccZN val 0)))"

definition And_CC :: operation_fn where "And_CC = Logical_CC And"
definition Or_CC :: operation_fn where "Or_CC = Logical_CC Or"
definition Xor_CC :: operation_fn where "Xor_CC = Logical_CC Xor"
definition AndN_CC :: operation_fn where "AndN_CC = Logical_CC AndN"
definition OrN_CC :: operation_fn where "OrN_CC = Logical_CC OrN"
definition Xnor_CC :: operation_fn where "Xnor_CC = Logical_CC Xnor"
definition UMul_CC :: operation_fn where "UMul_CC = Logical_CC UMul"
definition SMul_CC :: operation_fn where "SMul_CC = Logical_CC SMul"

definition UDiv_CC :: operation_fn where
  "UDiv_CC ops = dbg_assert (length ops = 3) (ternary_lo32 (\<lambda>op0 op1 y.
     let dividend = op0 OR push_bit 32 y in
     if op1 = 0 then Inr (CCbits 0)
     else let prod = dividend div op1 in
       Inr (CCbits (if prod > 0xFFFFFFFF then ccZN 0xFFFFFFFF (assign_bit iccV True 0)
                    else ccZN prod 0))) ops)"

text \<open>\<open>SDiv_CC\<close> tests the divisor's sign with the mask \<open>0x8000000\<close>, as the source has it.\<close>

definition SDiv_CC :: operation_fn where
  "SDiv_CC ops = ternary_lo32 (\<lambda>op0 op1 y.
     let dividend = op0 OR push_bit 32 y;
         divisor = sext32_at 0x8000000 op1 in
     if divisor = 0 then Inr (CCbits 0)
     else rbind (div_s64 dividend divisor) (\<lambda>prod.
       Inr (CCbits
         (if sint prod > 0x7FFFFFFF then ccZN 0x7FFFFFFF (assign_bit iccV True 0)
          else if sint prod < - 0x7FFFFFFF then ccZN 0xFFFFFFFF80000000 (assign_bit iccV True 0)
          else ccZN prod 0)))) ops"

definition ccCalc :: "int \<Rightarrow> operation_fn result" where
  "ccCalc anOp3Code =
     (if anOp3Code = 0 then Inr Add_CC
      else if anOp3Code = 1 then Inr And_CC
      else if anOp3Code = 2 then Inr Or_CC
      else if anOp3Code = 3 then Inr Xor_CC
      else if anOp3Code = 4 then Inr Sub_CC
      else if anOp3Code = 5 then Inr AndN_CC
      else if anOp3Code = 6 then Inr OrN_CC
      else if anOp3Code = 7 then Inr Xnor_CC
      else if anOp3Code = 8 then Inr AddC_CC
      else if anOp3Code = 0xA then Inr UMul_CC
      else if anOp3Code = 0xB then Inr SMul_CC
      else if anOp3Code = 0xC then Inr SubC_CC
      else if anOp3Code = 0xE then Inr UDiv_CC
      else if anOp3Code = 0xF then Inr SDiv_CC
      else Inl AssertFailed)"

section \<open>Shifts\<close>

definition SLL_32 :: operation_fn where
  "SLL_32 = binary_u64 (\<lambda>a b. push_bit (unat (b AND 0x1F)) a)"

definition SLL_64 :: operation_fn where
  "SLL_64 = binary_u64 (\<lambda>a b. push_bit (unat (b AND 0x3F)) a)"

definition SRL_32 :: operation_fn where
  "SRL_32 = binary_u64 (\<lambda>a b. drop_bit (unat (b AND 0x1F)) (a AND 0xFFFFFFFF))"

definition SRL_64 :: operation_fn where
  "SRL_64 = binary_u64 (\<lambda>a b. drop_bit (unat (b AND 0x3F)) a)"

definition SRA_32 :: operation_fn where
  "SRA_32 = binary_u64 (\<lambda>a b.
     let val = a AND 0xFFFFFFFF;
         bt = truth (val AND 0x80000000);
         val = (if bt then val OR 0xFFFFFFFF00000000 else val);
         val = drop_bit (unat (b AND 0x1F)) val;
         val = (if bt then val OR 0xFFFFFFFF00000000 else val)
     in val)"

definition SRA_64 :: operation_fn where
  "SRA_64 = binary_u64 (\<lambda>a b.
     let val = a;
         bt = truth (val AND 0x8000000000000000);
         mask = 0xFFFFFFFFFFFFFFFF;
         shift = unat (b AND 0x3F);
         mask = drop_bit shift mask;
         mask = NOT mask;
         val = drop_bit shift val;
         val = (if bt then val OR mask else val)
     in val)"

definition shift :: "int \<Rightarrow> bool \<Rightarrow> operation_fn result" where
  "shift aShiftCode a64Bit =
     (if aShiftCode = 1 then Inr (if a64Bit then SLL_64 else SLL_32)
      else if aShiftCode = 2 then Inr (if a64Bit then SRL_64 else SRL_32)
      else if aShiftCode = 3 then Inr (if a64Bit then SRA_64 else SRA_32)
      else Inl AssertFailed)"

end
