(* ===== verification/V9_Fpu.thy ===== *)
theory V9_Fpu
  imports V9_Alu
begin

text \<open>
  The floating point operations of \<open>components/v9Decoder/Operations.cpp\<close>, from \<open>FPOP\<close> to
  \<open>fp_op2\<close>. Their bodies are inline assembly for the host's x87 unit, which is not code of
  the repository: the unit is a parameter, the record \<open>x87\<close> with one field per instruction
  used, over a type of register values. What is modelled is the decoder's own part: the
  assembly of the operands from 32 bit halves, the control word, the sequence of
  instructions, and the decoding of the status word.
\<close>

section \<open>The host unit\<close>

type_synonym u16 = "16 word"

text \<open>
  Loads from memory; arithmetic, stores and comparisons under a control word; the result of a
  comparison is the status word that \<open>fstsw\<close> reads after it.
\<close>

record 'f x87 =
  flds :: "u32 \<Rightarrow> 'f"
  fldl :: "u64 \<Rightarrow> 'f"
  fildl :: "u32 \<Rightarrow> 'f"
  fildq :: "u64 \<Rightarrow> 'f"
  fadd :: "u16 \<Rightarrow> 'f \<Rightarrow> 'f \<Rightarrow> 'f"
  fsub :: "u16 \<Rightarrow> 'f \<Rightarrow> 'f \<Rightarrow> 'f"
  fmul :: "u16 \<Rightarrow> 'f \<Rightarrow> 'f \<Rightarrow> 'f"
  fdiv :: "u16 \<Rightarrow> 'f \<Rightarrow> 'f \<Rightarrow> 'f"
  fsqrt :: "u16 \<Rightarrow> 'f \<Rightarrow> 'f"
  fchs :: "'f \<Rightarrow> 'f"
  fabs :: "'f \<Rightarrow> 'f"
  fstps :: "u16 \<Rightarrow> 'f \<Rightarrow> u32"
  fstpl :: "u16 \<Rightarrow> 'f \<Rightarrow> u64"
  fistpl :: "u16 \<Rightarrow> 'f \<Rightarrow> u32"
  fistpq :: "u16 \<Rightarrow> 'f \<Rightarrow> u64"
  fcom :: "u16 \<Rightarrow> 'f \<Rightarrow> 'f \<Rightarrow> u16"

section \<open>Operands and control words\<close>

text \<open>
  \<open>theRoundingMode\<close> of an \<open>FPOP\<close> is an \<open>int32_t\<close> set from the 64 bit context.
\<close>

definition setContext :: "u64 \<Rightarrow> u32" where
  "setContext aContext = ucast aContext"

definition control_word :: "u16 \<Rightarrow> u32 \<Rightarrow> u16" where
  "control_word base rm = base OR ucast (push_bit 10 (rm AND 3))"

definition round_to_zero_word :: u16 where
  "round_to_zero_word = 0x7F OR push_bit 10 3"

text \<open>The two ways the operands are read: one per value, or two halves per value.\<close>

definition arg_u32 :: "operand list \<Rightarrow> nat \<Rightarrow> u32 result" where
  "arg_u32 ops i = rbind (arg_u64 ops i) (\<lambda>v. Inr (ucast v))"

definition arg_pair :: "operand list \<Rightarrow> nat \<Rightarrow> u64 result" where
  "arg_pair ops i =
     rbind (arg_u64 ops i) (\<lambda>hi. rbind (arg_u64 ops (i + 1)) (\<lambda>lo. Inr (push_bit 32 hi OR lo)))"

definition ret32 :: "u32 \<Rightarrow> operand result" where
  "ret32 r = Inr (U64 (ucast r))"

definition ret64 :: "u64 \<Rightarrow> operand result" where
  "ret64 r = Inr (U64 r)"

section \<open>Arithmetic\<close>

definition FADDs :: "'f x87 \<Rightarrow> u32 \<Rightarrow> operation_fn" where
  "FADDs h rm ops = dbg_assert (length ops = 2)
     (rbind (arg_u32 ops 0) (\<lambda>op0. rbind (arg_u32 ops 1) (\<lambda>op1.
      let control = control_word 0x7F rm
      in ret32 (fstps h control (fadd h control (flds h op0) (flds h op1))))))"

definition FADDd :: "'f x87 \<Rightarrow> u32 \<Rightarrow> operation_fn" where
  "FADDd h rm ops = dbg_assert (length ops = 4)
     (rbind (arg_pair ops 0) (\<lambda>op0. rbind (arg_pair ops 2) (\<lambda>op1.
      let control = control_word 0x27F rm
      in ret64 (fstpl h control (fadd h control (fldl h op0) (fldl h op1))))))"

definition FSUBs :: "'f x87 \<Rightarrow> u32 \<Rightarrow> operation_fn" where
  "FSUBs h rm ops = dbg_assert (length ops = 2)
     (rbind (arg_u32 ops 0) (\<lambda>op0. rbind (arg_u32 ops 1) (\<lambda>op1.
      let control = control_word 0x7F rm
      in ret32 (fstps h control (fsub h control (flds h op0) (flds h op1))))))"

definition FSUBd :: "'f x87 \<Rightarrow> u32 \<Rightarrow> operation_fn" where
  "FSUBd h rm ops = dbg_assert (length ops = 4)
     (rbind (arg_pair ops 0) (\<lambda>op0. rbind (arg_pair ops 2) (\<lambda>op1.
      let control = control_word 0x27F rm
      in ret64 (fstpl h control (fsub h control (fldl h op0) (fldl h op1))))))"

definition FMULs :: "'f x87 \<Rightarrow> u32 \<Rightarrow> operation_fn" where
  "FMULs h rm ops = dbg_assert (length ops = 2)
     (rbind (arg_u32 ops 0) (\<lambda>op0. rbind (arg_u32 ops 1) (\<lambda>op1.
      let control = control_word 0x7F rm
      in ret32 (fstps h control (fmul h control (flds h op0) (flds h op1))))))"

definition FMULd :: "'f x87 \<Rightarrow> u32 \<Rightarrow> operation_fn" where
  "FMULd h rm ops = dbg_assert (length ops = 4)
     (rbind (arg_pair ops 0) (\<lambda>op0. rbind (arg_pair ops 2) (\<lambda>op1.
      let control = control_word 0x27F rm
      in ret64 (fstpl h control (fmul h control (fldl h op0) (fldl h op1))))))"

text \<open>\<open>fmulp\<close> multiplies the second stack register, loaded first, by the top.\<close>

definition FsMULd :: "'f x87 \<Rightarrow> u32 \<Rightarrow> operation_fn" where
  "FsMULd h rm ops = dbg_assert (length ops = 2)
     (rbind (arg_u32 ops 0) (\<lambda>op0. rbind (arg_u32 ops 1) (\<lambda>op1.
      let control = control_word 0x27F rm
      in ret64 (fstpl h control (fmul h control (flds h op0) (flds h op1))))))"

definition FDIVs :: "'f x87 \<Rightarrow> u32 \<Rightarrow> operation_fn" where
  "FDIVs h rm ops = dbg_assert (length ops = 2)
     (rbind (arg_u32 ops 0) (\<lambda>op0. rbind (arg_u32 ops 1) (\<lambda>op1.
      let control = control_word 0x7F rm
      in ret32 (fstps h control (fdiv h control (flds h op0) (flds h op1))))))"

definition FDIVd :: "'f x87 \<Rightarrow> u32 \<Rightarrow> operation_fn" where
  "FDIVd h rm ops = dbg_assert (length ops = 4)
     (rbind (arg_pair ops 0) (\<lambda>op0. rbind (arg_pair ops 2) (\<lambda>op1.
      let control = control_word 0x27F rm
      in ret64 (fstpl h control (fdiv h control (fldl h op0) (fldl h op1))))))"

section \<open>Moves, sign operations and square roots\<close>

definition FMOVs :: operation_fn where
  "FMOVs ops = dbg_assert (length ops = 1) (rbind (arg_u32 ops 0) (\<lambda>op0. ret32 op0))"

definition FMOVd :: operation_fn where
  "FMOVd ops = dbg_assert (length ops = 2) (rbind (arg_pair ops 0) (\<lambda>op0. ret64 op0))"

definition FNEGs :: "'f x87 \<Rightarrow> u32 \<Rightarrow> operation_fn" where
  "FNEGs h rm ops = dbg_assert (length ops = 1) (rbind (arg_u32 ops 0) (\<lambda>op0.
     ret32 (fstps h (control_word 0x7F rm) (fchs h (flds h op0)))))"

definition FNEGd :: "'f x87 \<Rightarrow> u32 \<Rightarrow> operation_fn" where
  "FNEGd h rm ops = dbg_assert (length ops = 2) (rbind (arg_pair ops 0) (\<lambda>op0.
     ret64 (fstpl h (control_word 0x27F rm) (fchs h (fldl h op0)))))"

definition FABSs :: "'f x87 \<Rightarrow> u32 \<Rightarrow> operation_fn" where
  "FABSs h rm ops = dbg_assert (length ops = 1) (rbind (arg_u32 ops 0) (\<lambda>op0.
     ret32 (fstps h (control_word 0x7F rm) (fabs h (flds h op0)))))"

definition FABSd :: "'f x87 \<Rightarrow> u32 \<Rightarrow> operation_fn" where
  "FABSd h rm ops = dbg_assert (length ops = 2) (rbind (arg_pair ops 0) (\<lambda>op0.
     ret64 (fstpl h (control_word 0x27F rm) (fabs h (fldl h op0)))))"

definition FSQRTs :: "'f x87 \<Rightarrow> u32 \<Rightarrow> operation_fn" where
  "FSQRTs h rm ops = dbg_assert (length ops = 1) (rbind (arg_u32 ops 0) (\<lambda>op0.
     let control = control_word 0x7F rm
     in ret32 (fstps h control (fsqrt h control (flds h op0)))))"

definition FSQRTd :: "'f x87 \<Rightarrow> u32 \<Rightarrow> operation_fn" where
  "FSQRTd h rm ops = dbg_assert (length ops = 2) (rbind (arg_pair ops 0) (\<lambda>op0.
     let control = control_word 0x27F rm
     in ret64 (fstpl h control (fsqrt h control (fldl h op0)))))"

section \<open>Conversions\<close>

definition FxTOs :: "'f x87 \<Rightarrow> u32 \<Rightarrow> operation_fn" where
  "FxTOs h rm ops = dbg_assert (length ops = 2) (rbind (arg_pair ops 0) (\<lambda>op0.
     ret32 (fstps h (control_word 0x7F rm) (fildq h op0))))"

definition FdTOs :: "'f x87 \<Rightarrow> u32 \<Rightarrow> operation_fn" where
  "FdTOs h rm ops = dbg_assert (length ops = 2) (rbind (arg_pair ops 0) (\<lambda>op0.
     ret32 (fstps h (control_word 0x7F rm) (fldl h op0))))"

definition FdTOi :: "'f x87 \<Rightarrow> u32 \<Rightarrow> operation_fn" where
  "FdTOi h rm ops = dbg_assert (length ops = 2) (rbind (arg_pair ops 0) (\<lambda>op0.
     ret32 (fistpl h round_to_zero_word (fldl h op0))))"

definition FxTOd :: "'f x87 \<Rightarrow> u32 \<Rightarrow> operation_fn" where
  "FxTOd h rm ops = dbg_assert (length ops = 2) (rbind (arg_pair ops 0) (\<lambda>op0.
     ret64 (fstpl h (control_word 0x7F rm) (fildq h op0))))"

definition FdTOx :: "'f x87 \<Rightarrow> u32 \<Rightarrow> operation_fn" where
  "FdTOx h rm ops = dbg_assert (length ops = 2) (rbind (arg_pair ops 0) (\<lambda>op0.
     ret64 (fistpq h round_to_zero_word (fldl h op0))))"

definition FiTOs :: "'f x87 \<Rightarrow> u32 \<Rightarrow> operation_fn" where
  "FiTOs h rm ops = dbg_assert (length ops = 1) (rbind (arg_u32 ops 0) (\<lambda>op0.
     ret32 (fstps h (control_word 0x7F rm) (fildl h op0))))"

definition FsTOi :: "'f x87 \<Rightarrow> u32 \<Rightarrow> operation_fn" where
  "FsTOi h rm ops = dbg_assert (length ops = 1) (rbind (arg_u32 ops 0) (\<lambda>op0.
     ret32 (fistpl h round_to_zero_word (flds h op0))))"

definition FiTOd :: "'f x87 \<Rightarrow> u32 \<Rightarrow> operation_fn" where
  "FiTOd h rm ops = dbg_assert (length ops = 1) (rbind (arg_u32 ops 0) (\<lambda>op0.
     ret64 (fstpl h (control_word 0x7F rm) (fildl h op0))))"

definition FsTOd :: "'f x87 \<Rightarrow> u32 \<Rightarrow> operation_fn" where
  "FsTOd h rm ops = dbg_assert (length ops = 1) (rbind (arg_u32 ops 0) (\<lambda>op0.
     ret64 (fstpl h (control_word 0x7F rm) (flds h op0))))"

definition FsTOx :: "'f x87 \<Rightarrow> u32 \<Rightarrow> operation_fn" where
  "FsTOx h rm ops = dbg_assert (length ops = 1) (rbind (arg_u32 ops 0) (\<lambda>op0.
     ret64 (fistpq h round_to_zero_word (flds h op0))))"

definition fp_op1 :: "'f x87 \<Rightarrow> u32 \<Rightarrow> int \<Rightarrow> operation_fn result" where
  "fp_op1 h rm anOpCode =
     (if anOpCode = 0x41 then Inr (FADDs h rm)
      else if anOpCode = 0x42 then Inr (FADDd h rm)
      else if anOpCode = 0x45 then Inr (FSUBs h rm)
      else if anOpCode = 0x46 then Inr (FSUBd h rm)
      else if anOpCode = 0x49 then Inr (FMULs h rm)
      else if anOpCode = 0x4A then Inr (FMULd h rm)
      else if anOpCode = 0x4D then Inr (FDIVs h rm)
      else if anOpCode = 0x4E then Inr (FDIVd h rm)
      else if anOpCode = 0x01 then Inr FMOVs
      else if anOpCode = 0x02 then Inr FMOVd
      else if anOpCode = 0x05 then Inr (FNEGs h rm)
      else if anOpCode = 0x06 then Inr (FNEGd h rm)
      else if anOpCode = 0x09 then Inr (FABSs h rm)
      else if anOpCode = 0x0A then Inr (FABSd h rm)
      else if anOpCode = 0x29 then Inr (FSQRTs h rm)
      else if anOpCode = 0x2A then Inr (FSQRTd h rm)
      else if anOpCode = 0x69 then Inr (FsMULd h rm)
      else if anOpCode = 0x84 then Inr (FxTOs h rm)
      else if anOpCode = 0xC6 then Inr (FdTOs h rm)
      else if anOpCode = 0xD2 then Inr (FdTOi h rm)
      else if anOpCode = 0x88 then Inr (FxTOd h rm)
      else if anOpCode = 0x82 then Inr (FdTOx h rm)
      else if anOpCode = 0xC4 then Inr (FiTOs h rm)
      else if anOpCode = 0xD1 then Inr (FsTOi h rm)
      else if anOpCode = 0xC8 then Inr (FiTOd h rm)
      else if anOpCode = 0xC9 then Inr (FsTOd h rm)
      else if anOpCode = 0x81 then Inr (FsTOx h rm)
      else Inl AssertFailed)"

section \<open>Comparisons\<close>

text \<open>The status word read as in \<open>FCMPs\<close> and \<open>FCMPd\<close>: bit 14 is C3, bit 8 is C0.\<close>

definition fcc_of_status :: "u16 \<Rightarrow> fccVals" where
  "fcc_of_status status =
     (if status AND 0x4000 \<noteq> 0 then (if status AND 0x100 \<noteq> 0 then fccE else fccE)
      else (if status AND 0x100 \<noteq> 0 then fccL else fccG))"

definition FCMPs :: "'f x87 \<Rightarrow> u32 \<Rightarrow> operation_fn" where
  "FCMPs h rm ops = dbg_assert (length ops = 2)
     (rbind (arg_u32 ops 0) (\<lambda>op0. rbind (arg_u32 ops 1) (\<lambda>op1.
      let status = fcom h (control_word 0x7F rm) (flds h op0) (flds h op1)
      in Inr (CCbits (ucast (fcc_code (fcc_of_status status)))))))"

definition FCMPd :: "'f x87 \<Rightarrow> u32 \<Rightarrow> operation_fn" where
  "FCMPd h rm ops = dbg_assert (length ops = 4)
     (rbind (arg_pair ops 0) (\<lambda>op0. rbind (arg_pair ops 2) (\<lambda>op1.
      let status = fcom h (control_word 0x7F rm) (fldl h op0) (fldl h op1)
      in Inr (CCbits (ucast (fcc_code (fcc_of_status status)))))))"

section \<open>Data alignment\<close>

definition FALIGNDATA :: operation_fn where
  "FALIGNDATA ops = dbg_assert (length ops = 5)
     (rbind (arg_pair ops 0) (\<lambda>op0. rbind (arg_pair ops 2) (\<lambda>op1. rbind (arg_u32 ops 4) (\<lambda>gsr.
      let align = unat (gsr AND 0x7);
          result = push_bit (8 * align) op0;
          intermed = (if align = 0 then 0 else drop_bit (8 * (8 - align)) op1)
      in Inr (U64 (result OR intermed))))))"

definition fp_op2 :: "'f x87 \<Rightarrow> u32 \<Rightarrow> int \<Rightarrow> operation_fn result" where
  "fp_op2 h rm anOpCode =
     (if anOpCode = 0x51 \<or> anOpCode = 0x55 then Inr (FCMPs h rm)
      else if anOpCode = 0x52 \<or> anOpCode = 0x56 then Inr (FCMPd h rm)
      else if anOpCode = 0xFF then Inr FALIGNDATA
      else Inl AssertFailed)"

end
