(* ===== verification/V9_Alu_Correct.thy ===== *)
theory V9_Alu_Correct
  imports V9_Alu
begin

text \<open>
  Correctness of the integer operations of \<open>V9_Alu\<close>: the carry, overflow, zero and negative
  flags against their arithmetic meaning on 64 and on 32 bits, the integer conditions after a
  subtraction against the comparisons they stand for, the shifts, products and quotients
  against the word library's operations, and the contract of the \<open>Operation\<close> objects that
  the logical condition code calculator wraps.
\<close>

section \<open>Bits of condition codes and masked values\<close>

lemma bit_assign_bit [simp]:
  "bit (assign_bit i b cc) j \<longleftrightarrow> (if i = j \<and> j < 8 then b else bit cc j)"
  by (auto simp: assign_bit_def bit_set_bit_iff bit_unset_bit_iff dest: bit_imp_le_length)

lemma truth_and_power [simp]: "truth (v AND push_bit n 1) \<longleftrightarrow> bit v n"
  by (auto simp: truth_def and_exp_eq_0_iff_not_bit push_bit_eq_mult )

lemma and_lo32: "v AND 0xFFFFFFFF = take_bit 32 (v :: u64)"
  by (simp add: take_bit_eq_mask mask_eq_exp_minus_1)

lemma truth_lits [simp]:
  "truth (v AND 0x8000000000000000) \<longleftrightarrow> bit v 63"
  "truth (v AND 0x80000000) \<longleftrightarrow> bit v 31"
  using truth_and_power [of v 63] truth_and_power [of v 31] by (simp_all add: push_bit_eq_mult)

lemma take32_eq0: "take_bit 32 (v::u64) = 0 \<longleftrightarrow> (ucast v :: u32) = 0"
  by (auto simp add: bit_eq_iff bit_take_bit_iff bit_ucast_iff)

lemma uint_take32: "uint (take_bit 32 (v::u64)) = uint (ucast v :: u32)"
  by (simp add: unsigned_ucast_eq unsigned_take_bit_eq)

lemma bit63_iff: "bit (w :: u64) 63 \<longleftrightarrow> 2 ^ 63 \<le> uint w"
  using bit_msb_iff_uint [of w] by simp

lemma bit0_iff: "bit (a :: u64) 0 \<longleftrightarrow> uint a mod 2 = 1"
  by (metis bit_0 bit_uint_iff len_gt_0 odd_iff_mod_2_eq_one)

lemma uint_half: "uint (drop_bit 1 (a :: u64)) = uint a div 2"
  by (simp add: unsigned_drop_bit_eq drop_bit_eq_div uint_div_distrib)

lemma low_bit_and: "(1 AND a AND b :: u64) = (if bit a 0 \<and> bit b 0 then 1 else 0)"
  by (rule bit_word_eqI) (auto simp: bit_and_iff bit_1_iff)

lemma low_bit_andn: "(b AND 1 AND NOT a :: u64) = (if \<not> bit a 0 \<and> bit b 0 then 1 else 0)"
  by (rule bit_word_eqI) (auto simp: bit_and_iff bit_1_iff bit_not_iff intro!: gr0I)

lemma half_sum_arith:
  fixes x y :: int
  assumes "0 \<le> x" "0 \<le> y"
  shows "2 ^ 63 \<le> x div 2 + y div 2 + (if x mod 2 = 1 \<and> y mod 2 = 1 then 1 else 0)
    \<longleftrightarrow> 2 ^ 64 \<le> x + y"
  using assms by simp presburger

lemma carry_out_half:
  fixes a b :: u64
  shows "bit (drop_bit 1 a + drop_bit 1 b + (1 AND a AND b)) 63 \<longleftrightarrow> 2 ^ 64 \<le> uint a + uint b"
proof -
  let ?c = "if uint a mod 2 = 1 \<and> uint b mod 2 = 1 then 1 else 0 :: int"
  have r: "uint a < 2 ^ 64" "uint b < 2 ^ 64" "0 \<le> uint a" "0 \<le> uint b"
    using uint_lt2p [of a]  uint_lt2p [of b] by simp_all
  then have h: "0 \<le> uint a div 2" "uint a div 2 < 2 ^ 63"
    "0 \<le> uint b div 2" "uint b div 2 < 2 ^ 63"
    by simp_all
  have c: "uint (1 AND a AND b) = ?c"
    unfolding low_bit_and bit0_iff by simp
  have "uint (drop_bit 1 a + drop_bit 1 b + (1 AND a AND b)) = uint a div 2 + uint b div 2 + ?c"
    using h unfolding uint_plus_cases c uint_half by (auto; linarith)
  then show ?thesis
    unfolding bit63_iff using half_sum_arith r by simp
qed

lemma half_diff_arith:
  fixes x y :: int
  assumes "0 \<le> x" "0 \<le> y"
  shows "x div 2 - y div 2 - (if \<not> x mod 2 = 1 \<and> y mod 2 = 1 then 1 else 0) < 0 \<longleftrightarrow> x < y"
  using assms by simp presburger

lemma borrow_out_half:
  fixes a b :: u64
  shows "bit (drop_bit 1 a - drop_bit 1 b - (b AND 1 AND NOT a)) 63 \<longleftrightarrow> uint a < uint b"
proof -
  let ?c = "if \<not> uint a mod 2 = 1 \<and> uint b mod 2 = 1 then 1 else 0 :: int"
  let ?d = "uint a div 2 - uint b div 2 - ?c"
  have r: "uint a < 2 ^ 64" "uint b < 2 ^ 64" "0 \<le> uint a" "0 \<le> uint b"
    using uint_lt2p [of a]  uint_lt2p [of b] by simp_all
  then have h: "0 \<le> uint a div 2" "uint a div 2 < 2 ^ 63"
    "0 \<le> uint b div 2" "uint b div 2 < 2 ^ 63"
    by simp_all
  have c: "uint (b AND 1 AND NOT a) = ?c"
    unfolding low_bit_andn bit0_iff by simp
  have "uint (drop_bit 1 a - drop_bit 1 b - (b AND 1 AND NOT a)) =
      (if 0 \<le> ?d then ?d else ?d + 2 ^ 64)"
    using h unfolding uint_minus_cases c uint_half by (auto; linarith)
  then show ?thesis
    unfolding bit63_iff half_diff_arith [OF r(3,4), symmetric] using h by (simp; linarith)
qed

lemma ucast32_add: "(ucast (a + b :: u64) :: u32) = ucast a + ucast b"
  by (simp add: word_uint_eq_iff unsigned_ucast_eq take_bit_eq_mod uint_word_ariths
      mod_mod_cancel mod_add_eq)

lemma ucast32_sub: "(ucast (a - b :: u64) :: u32) = ucast a - ucast b"
  by (simp add: word_uint_eq_iff unsigned_ucast_eq take_bit_eq_mod uint_word_ariths
      mod_mod_cancel mod_diff_eq)

lemma bit31_ucast: "bit (v :: u64) 31 \<longleftrightarrow> bit (ucast v :: u32) 31"
  by (simp add: bit_ucast_iff)

lemma bit32_uint: "bit (w :: u64) 32 \<longleftrightarrow> odd (uint w div 2 ^ 32)"
proof -
  have "bit w 32 = bit (uint w) 32" by (simp add: bit_uint_iff)
  then show ?thesis by (simp only: bit_iff_odd)
qed

lemma odd_div_32_pos:
  "0 \<le> z \<Longrightarrow> z < 2 ^ 33 \<Longrightarrow> odd (z div 2 ^ 32) \<longleftrightarrow> 2 ^ 32 \<le> z" for z :: int
  by (cases "z < 2 ^ 32") (simp_all add: div_pos_geq)

lemma odd_div_32_neg:
  "- (2 ^ 32) \<le> z \<Longrightarrow> z < 0 \<Longrightarrow> odd ((z + 2 ^ 64) div 2 ^ 32)" for z :: int
proof -
  assume "- (2 ^ 32) \<le> z" "z < 0"
  then have "z div 2 ^ 32 = -1" by (simp add: div_pos_neg_trivial)
  moreover have "(z + 2 ^ 64) div 2 ^ 32 = z div 2 ^ 32 + 2 ^ 32" 
    using div_mult_self1 [of "2 ^ 32 :: int" z "2 ^ 32"] by simp
  ultimately show ?thesis by simp
qed

lemma uint32_range: "0 \<le> uint (w :: u32)" "uint (w :: u32) < 2 ^ 32"
  using uint_lt2p [of w] by simp_all

lemma icarry_out:
  "bit (take_bit 32 a + take_bit 32 b :: u64) 32 \<longleftrightarrow>
     2 ^ 32 \<le> uint (ucast a :: u32) + uint (ucast b :: u32)"
proof -
  let ?s = "uint (ucast a :: u32) + uint (ucast b :: u32)"
  have r: "0 \<le> ?s" "?s < 2 ^ 33"
    using uint32_range [of "ucast a"] uint32_range [of "ucast b"] by simp_all
  then have "uint (take_bit 32 a + take_bit 32 b :: u64) = ?s"
    unfolding uint_plus_cases uint_take32 by simp
  with r odd_div_32_pos show ?thesis unfolding bit32_uint by simp
qed

lemma iborrow_out:
  "bit (take_bit 32 a - take_bit 32 b :: u64) 32 \<longleftrightarrow> uint (ucast a :: u32) < uint (ucast b :: u32)"
proof -
  let ?s = "uint (ucast a :: u32) - uint (ucast b :: u32)"
  have r: "- (2 ^ 32) \<le> ?s" "?s < 2 ^ 32"
    using uint32_range [of "ucast a"] uint32_range [of "ucast b"] by linarith+
  have "uint (take_bit 32 a - take_bit 32 b :: u64) = (if 0 \<le> ?s then ?s else ?s + 2 ^ 64)"
    unfolding uint_minus_cases uint_take32 by simp
  with r odd_div_32_pos [of ?s] odd_div_32_neg [of ?s] show ?thesis
    unfolding bit32_uint by (simp split: if_splits)
qed

type_synonym flags = "bool \<times> bool \<times> bool \<times> bool"

definition flags_at :: "bitset8 \<Rightarrow> nat \<Rightarrow> flags" where
  "flags_at cc off =
     (bit cc (iccC + off), bit cc (iccV + off), bit cc (iccZ + off), bit cc (iccN + off))"

definition add_flags :: "'a::len word \<Rightarrow> 'a word \<Rightarrow> flags" where
  "add_flags a b =
     (2 ^ LENGTH('a) \<le> uint a + uint b, sint (a + b) \<noteq> sint a + sint b,
      a + b = 0, sint (a + b) < 0)"

definition sub_flags :: "'a::len word \<Rightarrow> 'a word \<Rightarrow> flags" where
  "sub_flags a b =
     (uint a < uint b, sint (a - b) \<noteq> sint a - sint b, a = b, sint (a - b) < 0)"

lemmas msb64 = bit_last_iff [where 'a = 64, simplified]

lemmas msb32 = bit_last_iff [where 'a = 32, simplified]

lemma xccV_add:
  "(bit a 63 = bit b 63 \<and> bit a 63 \<noteq> bit (a + b) 63)
    \<longleftrightarrow> sint (a + b) \<noteq> sint a + sint b" for a b :: u64
  using add_overflow_iff [of a b] by simp

lemma iccV_add:
  "(bit a 31 = bit b 31 \<and> bit a 31 \<noteq> bit (a + b) 31)
    \<longleftrightarrow> sint (a + b) \<noteq> sint a + sint b" for a b :: u32
  using add_overflow_iff [of a b] by simp

lemma xccV_sub:
  "(bit a 63 \<noteq> bit b 63 \<and> bit a 63 \<noteq> bit (a - b) 63)
    \<longleftrightarrow> sint (a - b) \<noteq> sint a - sint b" for a b :: u64
  using sub_overflow_iff [of a b] by simp

lemma iccV_sub:
  "(bit a 31 \<noteq> bit b 31 \<and> bit a 31 \<noteq> bit (a - b) 31)
    \<longleftrightarrow> sint (a - b) \<noteq> sint a - sint b" for a b :: u32
  using sub_overflow_iff [of a b] by simp

lemmas xccV_add' = xccV_add [unfolded msb64, simplified]

lemmas iccV_add' = iccV_add [unfolded msb32, simplified]

lemmas xccV_sub' = xccV_sub [unfolded msb64, simplified]

lemmas iccV_sub' = iccV_sub [unfolded msb32, simplified]

lemma Add_CC_bits_flags:
  "flags_at (Add_CC_bits a b (a + b)) 4 = add_flags a b"
  "flags_at (Add_CC_bits a b (a + b)) 0 = add_flags (ucast a :: u32) (ucast b :: u32)"
  unfolding Add_CC_bits_def Let_def ccZN_def flags_at_def add_flags_def and_lo32
    truth_and_power truth_lits carry_out_half icarry_out
  by (simp_all add: xccV_add' bit31_ucast ucast32_add iccV_add' msb64 msb32 take32_eq0)

lemma Sub_CC_bits_flags:
  "flags_at (Sub_CC_bits a b (a - b)) 4 = sub_flags a b"
  "flags_at (Sub_CC_bits a b (a - b)) 0 = sub_flags (ucast a :: u32) (ucast b :: u32)"
  unfolding Sub_CC_bits_def Let_def ccZN_def flags_at_def sub_flags_def and_lo32
    truth_and_power truth_lits borrow_out_half iborrow_out
  by (simp_all add: xccV_sub' bit31_ucast ucast32_sub iccV_sub' msb64 msb32 take32_eq0)

lemma arg_u64_simps [simp]:
  "arg_u64 (U64 a # ops) 0 = Inr a" "arg_u64 (x # ops) (Suc n) = arg_u64 ops n"
  "arg_u64 (x # y # ops) 1 = arg_u64 (y # ops) 0"
  by (simp_all add: arg_u64_def lookup_vec_def)

lemma arg_cc_simps [simp]:
  "arg_cc (CCbits a # ops) 0 = Inr a" "arg_cc (x # ops) (Suc n) = arg_cc ops n"
  by (simp_all add: arg_cc_def lookup_vec_def)

lemma arg_numerals [simp]:
  "arg_u64 (x # ops) (numeral n) = arg_u64 ops (pred_numeral n)"
  "arg_cc (x # ops) (numeral n) = arg_cc ops (pred_numeral n)"
  by (simp_all add: arg_u64_def arg_cc_def lookup_vec_def numeral_eq_Suc)

lemma binary_u64_eval [simp]: "binary_u64 f [U64 a, U64 b] = Inr (U64 (f a b))"
  by (simp add: binary_u64_def)

lemma binary_u64_arity: "length ops \<noteq> 2 \<Longrightarrow> binary_u64 f ops = Inl AssertFailed"
  by (simp add: binary_u64_def)

lemma Add_CC_eval: "Add_CC [U64 a, U64 b] = Inr (CCbits (Add_CC_bits a b (a + b)))"
  by (simp add: Add_CC_def Add_def)

lemma Sub_CC_eval: "Sub_CC [U64 a, U64 b] = Inr (CCbits (Sub_CC_bits a b (a - b)))"
  by (simp add: Sub_CC_def Sub_def)

definition compare_spec :: "u32 \<Rightarrow> 'a::len word \<Rightarrow> 'a word \<Rightarrow> bool" where
  "compare_spec c a b =
     (if c = 0 then True
      else if c = 1 then a = b
      else if c = 2 then sint a \<le> sint b
      else if c = 3 then sint a < sint b
      else if c = 4 then uint a \<le> uint b
      else if c = 5 then uint a < uint b
      else if c = 6 then sint (a - b) < 0
      else sint (a - b) \<noteq> sint a - sint b)"

lemma sub_signed_less:
  "((sint (a - b) < 0) \<noteq> (sint (a - b) \<noteq> sint a - sint b)) \<longleftrightarrow> sint a < sint b"
  for a b :: "'a::len word"
  using sub_overflow_iff [of a b] unfolding bit_last_iff by auto

lemma word_le7_cases:
  "(c :: u32) \<le> 7 \<Longrightarrow> c = 0 \<or> c = 1 \<or> c = 2 \<or> c = 3 \<or> c = 4 \<or> c = 5 \<or> c = 6 \<or> c = 7"
  by unat_arith

lemma word_lt16_cases:
  "(c :: u32) < 16 \<Longrightarrow>
     c \<le> 7 \<or> c = 8 \<or> c = 9 \<or> c = 10 \<or> c = 11 \<or> c = 12 \<or> c = 13 \<or> c = 14 \<or> c = 15"
  by unat_arith

lemma sint_le_iff: "sint a \<le> sint b \<longleftrightarrow> a = b \<or> sint a < sint b" for a b :: "'a::len word"
  by (auto simp: le_less dest: signed_word_eqI)

lemma uint_le_iff: "uint a \<le> uint b \<longleftrightarrow> uint a < uint b \<or> a = b" for a b :: "'a::len word"
  by (auto simp: le_less word_uint_eq_iff)

lemma condition_test_sub:
  assumes "flags_at cc off = sub_flags a b" "c \<le> 7"
  shows "\<exists>t. condition_test c = Inr t \<and> t cc off = compare_spec c a b"
proof -
  have f: "bit cc off = (uint a < uint b)" "bit cc (Suc off) = (sint (a - b) \<noteq> sint a - sint b)"
    "bit cc (Suc (Suc off)) = (a = b)" "bit cc (Suc (Suc (Suc off))) = (sint (a - b) < 0)"
    using assms(1) by (simp_all add: flags_at_def sub_flags_def numeral_2_eq_2 numeral_3_eq_3)
  note s = sub_signed_less [of a b]
  have "c = 0 \<or> c = 1 \<or> c = 2 \<or> c = 3 \<or> c = 4 \<or> c = 5 \<or> c = 6 \<or> c = 7"
    using assms(2) by (rule word_le7_cases)
  then show ?thesis
    by (elim disjE; simp add: condition_test_def compare_spec_def f numeral_2_eq_2 numeral_3_eq_3;
        use s sint_le_iff [of a b] uint_le_iff [of a b] in blast)
qed

lemma packCondition_fields:
  assumes "(c :: u32) < 16"
  shows "\<not> isFloating (packCondition False xcc c)"
    "(packCondition False xcc c AND 0x8 = 0) = (\<not> 8 \<le> c)"
    "(packCondition False xcc c AND 0x10 = 0) = (\<not> xcc)"
    "packCondition False xcc c AND 7 = c AND 7"
  using assms
  by (auto dest!: word_lt16_cases word_le7_cases
      simp: packCondition_def isFloating_def word_le_nat_alt)

lemma word_and7_le: "(c :: u32) AND 7 \<le> 7"
  by (rule word_and_le1)

lemma ucast_ucast_32_64: "ucast (ucast (p :: u32) :: u64) = p"
  by (rule bit_word_eqI) (simp add: bit_ucast_iff)

text \<open>
  C12: after a subtraction \<open>a - b\<close> the integer condition with a four bit code decides the
  comparison it is named for, signed or unsigned, on 64 bits (\<open>xcc\<close>) or on the low 32 bits
  (\<open>icc\<close>), and its negation when bit 3 of the code is set; the decoder's packing of the
  condition into an operand keeps it.
\<close>

theorem compare_and_branch:
  assumes "c < 16"
  shows "rbind (rbind (Sub_CC [U64 a, U64 b]) get_cc)
           (packed_condition_holds (ucast (packCondition False xcc c))) =
         Inr ((if xcc then compare_spec (c AND 7) a b
               else compare_spec (c AND 7) (ucast a :: u32) (ucast b :: u32)) \<noteq> (8 \<le> c))"
proof -
  let ?cc = "Sub_CC_bits a b (a - b)"
  note x = condition_test_sub [OF Sub_CC_bits_flags(1) [of a b] word_and7_le [of c]]
  note i = condition_test_sub [OF Sub_CC_bits_flags(2) [of a b] word_and7_le [of c]]
  from x obtain t where t: "condition_test (c AND 7) = Inr t" "t ?cc 4 = compare_spec (c AND 7) a b"
    by blast
  from i t(1) have "t ?cc 0 = compare_spec (c AND 7) (ucast a :: u32) (ucast b :: u32)"
    by auto
  with t show ?thesis
    by (simp add: Sub_CC_eval packed_condition_holds_def packCondition_fields [OF assms]
       condition_def condition3_def word_and7_le run_Condition_def ucast_ucast_32_64)
qed

theorem compare_and_branch_witness:
  "rbind (rbind (Sub_CC [U64 5, U64 7]) get_cc)
     (packed_condition_holds (ucast (packCondition False True 3))) =
   Inr ((if True then compare_spec (3 AND 7) (5 :: u64) 7
         else compare_spec (3 AND 7) (ucast (5 :: u64) :: u32) (ucast (7 :: u64) :: u32))
        \<noteq> (8 \<le> (3 :: u32)))"
  by (rule compare_and_branch) simp

section \<open>Logical operations\<close>

lemma ccZN_flags:
  "flags_at (ccZN v 0) 4 = (False, False, v = 0, sint v < 0)"
  "flags_at (ccZN v 0) 0 = (False, False, (ucast v :: u32) = 0, sint (ucast v :: u32) < 0)"
  unfolding ccZN_def Let_def flags_at_def and_lo32 truth_lits
  by (simp_all add: bit31_ucast msb64 msb32 take32_eq0)

section \<open>Shifts\<close>

lemma mask_lt: "unat (b AND 0x3F :: u64) < 64" "unat (b AND 0x1F :: u64) < 32"
proof -
  have "b AND 0x3F \<le> 0x3F" and "b AND 0x1F \<le> 0x1F" by (rule word_and_le1)+
  then show "unat (b AND 0x3F :: u64) < 64" and "unat (b AND 0x1F :: u64) < 32"
    by (simp_all add: word_le_nat_alt)
qed

lemma SRA_64_eval: "SRA_64 [U64 a, U64 b] = Inr (U64 (signed_drop_bit (unat (b AND 0x3F)) a))"
proof -
  let ?s = "unat (b AND 0x3F)"
  have ones_eq: "(0xFFFFFFFFFFFFFFFF :: u64) = mask 64"
    by (simp add: mask_eq_exp_minus_1)
  have ones: "bit (0xFFFFFFFFFFFFFFFF :: u64) n \<longleftrightarrow> n < 64" for n
    unfolding ones_eq by (simp add: bit_mask_iff del: bit_numeral_word_iff)
  have "(if bit a 63 then drop_bit ?s a OR NOT (drop_bit ?s 0xFFFFFFFFFFFFFFFF)
      else drop_bit ?s a) = signed_drop_bit ?s a"
    using mask_lt(1) [of b]
    by (intro bit_word_eqI)
       (auto simp: bit_signed_drop_bit_iff bit_or_iff bit_not_iff bit_drop_bit_eq ones
        simp del: bit_numeral_word_iff dest: bit_imp_le_length)
  then show ?thesis
    unfolding SRA_64_def Let_def binary_u64_eval truth_lits by simp
qed

lemma bit_hi32: "bit (0xFFFFFFFF00000000 :: u64) n \<longleftrightarrow> 32 \<le> n \<and> n < 64"
proof -
  have hi_eq: "(0xFFFFFFFF00000000 :: u64) = push_bit 32 (mask 32)"
    by (simp add: mask_eq_exp_minus_1 push_bit_eq_mult)
  show ?thesis
    unfolding hi_eq
    by (auto simp: bit_push_bit_iff bit_mask_iff simp del: bit_numeral_word_iff)
qed

lemma SRA_32_eval:
  "SRA_32 [U64 a, U64 b] =
     Inr (U64 (scast (signed_drop_bit (unat (b AND 0x1F)) (ucast a :: u32))))"
proof -
  let ?s = "unat (b AND 0x1F)"
  let ?v = "a AND 0xFFFFFFFF"
  have "(if bit ?v 31 then drop_bit ?s (?v OR 0xFFFFFFFF00000000) OR 0xFFFFFFFF00000000
      else drop_bit ?s ?v) = scast (signed_drop_bit ?s (ucast a :: u32))"
    using mask_lt(2) [of b]
    by (intro bit_word_eqI, cases "?s = 0")
       (auto simp: and_lo32 bit_signed_drop_bit_iff bit_or_iff bit_take_bit_iff bit_ucast_iff
        bit_drop_bit_eq bit_hi32 bit_word_scast_iff simp del: bit_numeral_word_iff)
  then show ?thesis
    unfolding SRA_32_def Let_def binary_u64_eval truth_lits by (simp split: if_splits)
qed

lemma SRL_32_eval:
  "SRL_32 [U64 a, U64 b] = Inr (U64 (ucast (drop_bit (unat (b AND 0x1F)) (ucast a :: u32))))"
proof -
  have "drop_bit s (a AND 0xFFFFFFFF) = ucast (drop_bit s (ucast a :: u32))" for s
    by (intro bit_word_eqI)
       (auto simp: and_lo32 bit_take_bit_iff bit_ucast_iff bit_drop_bit_eq
        dest: bit_imp_le_length)
  then show ?thesis by (simp add: SRL_32_def)
qed

section \<open>Products\<close>

lemma uint_lo32: "uint (lo32 v) = uint (ucast v :: u32)"
  by (simp add: lo32_def and_lo32 uint_take32)

lemma sext_lo32: "sext32_at 0x80000000 (lo32 v) = scast (ucast v :: u32)"
proof -
  have "(lo32 v AND 0x80000000 \<noteq> 0) = bit v 31"
    using truth_lits(2) [of "lo32 v"] by (simp add: truth_def lo32_def and_lo32 bit_take_bit_iff)
  then show ?thesis
    by (intro bit_word_eqI)
       (auto simp: sext32_at_def lo32_def and_lo32 bit_or_iff bit_take_bit_iff bit_hi32
        bit_word_scast_iff bit_ucast_iff simp del: bit_numeral_word_iff)
qed

lemma sint_scast32: "sint (scast (x :: u32) :: u64) = sint x"
  using sint_ge [of x] sint_lt [of x]
  by (simp add: signed_scast_eq signed_take_bit_int_eq_self)

text \<open>
  \<open>UMul\<close> returns the exact product of the low 32 bits as unsigned numbers, and
  \<open>evalExtra\<close> its upper half, for the Y register.
\<close>

theorem UMul_correct:
  "\<exists>p. UMul [U64 a, U64 b] = Inr (U64 p) \<and>
     UMul_evalExtra [U64 a, U64 b] = Inr (U64 (drop_bit 32 p)) \<and>
     uint p = uint (ucast a :: u32) * uint (ucast b :: u32)"
proof -
  have "uint (lo32 a * lo32 b) = uint (ucast a :: u32) * uint (ucast b :: u32)"
  proof -
    have "uint (ucast a :: u32) * uint (ucast b :: u32) < 2 ^ 32 * 2 ^ 32"
      using uint32_range [of "ucast a"] uint32_range [of "ucast b"]
      by (intro mult_strict_mono) simp_all
    then show ?thesis
      by (simp add: uint_word_ariths uint_lo32)
  qed
  then show ?thesis by (simp add: UMul_def UMul_evalExtra_def UMul_calc_def shr32_def)
qed

lemma sint32_range: "- (2 ^ 31) \<le> sint (w :: u32)" "sint (w :: u32) < 2 ^ 31"
  using sint_ge [of w] sint_lt [of w] by simp_all

lemma sint_mult_small:
  fixes x y :: u64
  assumes "- (2 ^ 63) \<le> sint x * sint y" "sint x * sint y < 2 ^ 63"
  shows "sint (x * y) = sint x * sint y"
  using assms by (simp add: sint_word_ariths signed_take_bit_int_eq_self)

text \<open>
  \<open>SMul\<close> returns the exact product of the low 32 bits as signed numbers, and
  \<open>evalExtra\<close> its upper half, for the Y register.
\<close>

theorem SMul_correct:
  "\<exists>p. SMul [U64 a, U64 b] = Inr (U64 p) \<and>
     SMul_evalExtra [U64 a, U64 b] = Inr (U64 (drop_bit 32 p)) \<and>
     sint p = sint (ucast a :: u32) * sint (ucast b :: u32)"
proof -
  let ?x = "sint (ucast a :: u32)" and ?y = "sint (ucast b :: u32)"
  have "\<bar>?x\<bar> * \<bar>?y\<bar> \<le> 2 ^ 31 * 2 ^ 31"
    using sint32_range [of "ucast a"] sint32_range [of "ucast b"]
    by (intro mult_mono) auto
  then have "\<bar>?x * ?y\<bar> \<le> 2 ^ 62" by (simp add: abs_mult)
  then have "sint (scast (ucast a :: u32) * scast (ucast b :: u32) :: u64) = ?x * ?y"
    by (subst sint_mult_small) (auto simp: sint_scast32)
  then show ?thesis
    by (simp add: SMul_def SMul_evalExtra_def SMul_calc_def shr32_def sext_lo32)
qed

section \<open>Quotients\<close>

lemma ternary_lo32_eval [simp]:
  "ternary_lo32 f [U64 a, U64 b, U64 y] = f (lo32 a) (lo32 b) (lo32 y)"
  by (simp add: ternary_lo32_def)

lemma uint_cat:
  "uint (lo32 a OR push_bit 32 (lo32 y)) =
     uint (ucast y :: u32) * 2 ^ 32 + uint (ucast a :: u32)"
proof -
  have d: "lo32 a AND push_bit 32 (lo32 y) = 0"
    by (intro bit_word_eqI)
       (auto simp: lo32_def and_lo32 bit_and_iff bit_take_bit_iff bit_push_bit_iff)
  have p: "uint (push_bit 32 (lo32 y)) = uint (ucast y :: u32) * 2 ^ 32"
    using uint32_range [of "ucast y"]
    by (simp add: uint_word_ariths push_bit_eq_mult uint_lo32)
  have "lo32 a OR push_bit 32 (lo32 y) = lo32 a + push_bit 32 (lo32 y)"
    using d by (simp add: disjunctive_add_eq_or)
  then show ?thesis
    using uint32_range [of "ucast y"] uint32_range [of "ucast a"]
    by (simp add: uint_plus_cases p uint_lo32)
qed

text \<open>
  \<open>UDiv\<close> divides the 64 bit number Y:rs1 by the low 32 bits of rs2 and clamps the
  quotient at 2^32 - 1; division by zero gives 0.
\<close>

theorem UDiv_correct:
  "UDiv [U64 a, U64 b, U64 y] = Inr (U64 (
     if (ucast b :: u32) = 0 then 0
     else word_of_int
       (min ((uint (ucast y :: u32) * 2 ^ 32 + uint (ucast a :: u32)) div uint (ucast b :: u32))
          (2 ^ 32 - 1))))"
proof (cases "(ucast b :: u32) = 0")
  case True
  then have "lo32 b = 0" by (simp add: lo32_def and_lo32 take32_eq0)
  with True show ?thesis by (simp add: UDiv_def UDiv_calc_def)
next
  case False
  let ?q = "(lo32 a OR push_bit 32 (lo32 y)) div lo32 b"
  have nz: "lo32 b \<noteq> 0" using False by (simp add: lo32_def and_lo32 take32_eq0)
  have q: "uint ?q =
      (uint (ucast y :: u32) * 2 ^ 32 + uint (ucast a :: u32)) div uint (ucast b :: u32)"
    by (simp add: uint_div_distrib uint_cat uint_lo32)
  have "(if ?q > 0xFFFFFFFF then 0xFFFFFFFF else ?q) = word_of_int (min (uint ?q) (2 ^ 32 - 1))"
    by (simp add: word_less_def min_def)
  then show ?thesis using False nz q
    by (simp add: UDiv_def UDiv_calc_def Let_def)
qed

lemma sdiv_abs_le: "\<bar>n sdiv d\<bar> \<le> \<bar>n\<bar>" for n d :: int
proof -
  have "\<bar>n\<bar> div \<bar>d\<bar> \<le> \<bar>n\<bar>"
    by (cases "d = 0") (auto simp: zdiv_mono2 [of "\<bar>n\<bar>" 1 "\<bar>d\<bar>", simplified])
  moreover have "0 \<le> \<bar>n\<bar> div \<bar>d\<bar>"
    by (cases "d = 0") (simp_all add: pos_imp_zdiv_nonneg_iff)
  ultimately show ?thesis
    by (simp add: signed_divide_int_def abs_mult abs_sgn_eq)
qed

lemma sdiv_range:
  fixes n d M :: int
  assumes "- M \<le> n" "n < M" "\<not> (n = - M \<and> d = -1)"
  shows "- M \<le> n sdiv d \<and> n sdiv d < M"
proof (cases "n = - M \<and> d < 0")
  case False
  show ?thesis
  proof (cases "n = - M")
    case True
    with False have "0 \<le> d" by simp
    then have "n sdiv d \<le> 0" using True assms(2)
      by (auto simp: signed_divide_int_def sgn_if pos_imp_zdiv_nonneg_iff)
    then show ?thesis using sdiv_abs_le [of n d] True assms(2) by auto
  next
    case False
    then show ?thesis using sdiv_abs_le [of n d] assms(1,2) by auto
  qed
next
  case True
  then have d: "d \<le> -2" using assms(3) by auto
  have M: "0 < M" using True assms(2) by auto
  have "n sdiv d = M div (- d)" using True M d by (simp add: signed_divide_int_def sgn_if)
  moreover have "M div (- d) < M" using M d by (intro int_div_less_self) auto
  moreover have "0 \<le> M div (- d)" using M d by (simp add: pos_imp_zdiv_nonneg_iff)
  ultimately show ?thesis using M by simp
qed

text \<open>
  C39: \<open>SDiv\<close> divides the signed 64 bit number Y:rs1 by the signed low 32 bits of rs2,
  truncating, and clamps the quotient to the signed 32 bit range, unless the divisor is 0 or
  the host division traps.
\<close>

theorem SDiv_correct:
  assumes "(ucast b :: u32) \<noteq> 0"
    and "\<not> (sint (lo32 a OR push_bit 32 (lo32 y)) = - (2 ^ 63) \<and> sint (ucast b :: u32) = -1)"
  shows "SDiv [U64 a, U64 b, U64 y] = Inr (U64 (word_of_int
     (max (- (2 ^ 31)) (min (2 ^ 31 - 1)
        (sint (lo32 a OR push_bit 32 (lo32 y)) sdiv sint (ucast b :: u32))))))"
proof -
  let ?n = "sint (lo32 a OR push_bit 32 (lo32 y))" and ?d = "sint (ucast b :: u32)"
  let ?q = "?n sdiv ?d"
  have nz: "(scast (ucast b :: u32) :: u64) \<noteq> 0"
    using assms(1) by (metis signed_0 sint_scast32 signed_word_eqI)
  have "?d \<noteq> 0" using assms(1) by (metis signed_0 signed_word_eqI)
  have rng: "- (2 ^ 63) \<le> ?q" "?q < 2 ^ 63"
    using sdiv_range [of "2 ^ 63" ?n ?d] assms(2)
      sint_ge [of "lo32 a OR push_bit 32 (lo32 y)"] sint_lt [of "lo32 a OR push_bit 32 (lo32 y)"]
    by simp_all
  have q: "sint (word_of_int ?q :: u64) = ?q"
    using rng by (simp add: signed_of_int signed_take_bit_int_eq_self)
  show ?thesis
    using nz assms(2)
    by (cases "?q = - 2147483648")
       (auto simp: SDiv_def SDiv_calc_def Let_def sext_lo32 div_s64_def sint_scast32 q
        max_def min_def)
qed

theorem SDiv_correct_witness:
  "SDiv [U64 100, U64 7, U64 0] = Inr (U64 (word_of_int
     (max (- (2 ^ 31)) (min (2 ^ 31 - 1)
        (sint (lo32 100 OR push_bit 32 (lo32 0)) sdiv sint (ucast (7 :: u64) :: u32))))))"
  by (rule SDiv_correct) simp_all

section \<open>Addition and subtraction with carry\<close>

text \<open>The carry out of the low bit, as \<open>AddC_CC\<close> computes it.\<close>

abbreviation (input) low_carry :: "u64 \<Rightarrow> u64 \<Rightarrow> u64 \<Rightarrow> u64" where
  "low_carry a b c \<equiv> ((a AND 1) AND (b AND 1)) OR ((a AND 1) AND c) OR ((b AND 1) AND c)"

lemma carry3_low:
  "low_carry a b c =
     (if (bit a 0 \<and> bit b 0) \<or> (bit a 0 \<and> bit c 0) \<or> (bit b 0 \<and> bit c 0) then 1 else 0)"
  by (rule bit_word_eqI) (auto simp: bit_or_iff bit_and_iff bit_1_iff intro: gr0I)

lemma carry_of_uint: "uint (carry_of cc) = of_bool (bit cc 0)"
  by (simp add: carry_of_def)

lemma bit_carry_of: "bit (carry_of cc) 0 = bit cc 0"
  by (simp add: carry_of_def)

lemma half_sum3_arith:
  fixes x y c :: int
  assumes "0 \<le> x" "0 \<le> y" "c = 0 \<or> c = 1"
  shows "2 ^ 63 \<le> x div 2 + y div 2
      + (if (x mod 2 = 1 \<and> y mod 2 = 1) \<or> (x mod 2 = 1 \<and> c = 1) \<or> (y mod 2 = 1 \<and> c = 1)
         then 1 else 0)
     \<longleftrightarrow> 2 ^ 64 \<le> x + y + c"
  using assms by simp presburger

lemma half_bound: "x < 2 ^ 63 \<Longrightarrow> y < 2 ^ 63 \<Longrightarrow> c \<le> 1 \<Longrightarrow> x + y + c < 2 ^ 64" for x y c :: int
  by simp

lemma uint_plus3_small:
  "uint x + uint y + uint z < 2 ^ 64 \<Longrightarrow> uint (x + y + z) = uint x + uint y + uint z"
  for x y z :: u64
  by (auto simp: uint_plus_cases; use uint_ge_0 [of z] in linarith)

lemma carry_out_half3:
  fixes a b :: u64
  shows "bit (drop_bit 1 a + drop_bit 1 b + low_carry a b (carry_of cc)) 63
    \<longleftrightarrow> 2 ^ 64 \<le> uint a + uint b + of_bool (bit cc 0)"
proof -
  let ?k = "of_bool (bit cc 0) :: int"
  let ?c = "if (uint a mod 2 = 1 \<and> uint b mod 2 = 1) \<or> (uint a mod 2 = 1 \<and> ?k = 1)
      \<or> (uint b mod 2 = 1 \<and> ?k = 1) then 1 else 0 :: int"
  have r: "uint a < 2 ^ 64" "uint b < 2 ^ 64" "0 \<le> uint a" "0 \<le> uint b"
    using uint_lt2p [of a]  uint_lt2p [of b] by simp_all
  then have h: "0 \<le> uint a div 2" "uint a div 2 < 2 ^ 63"
    "0 \<le> uint b div 2" "uint b div 2 < 2 ^ 63"
    by simp_all
  have c: "uint (low_carry a b (carry_of cc)) = ?c"
    unfolding carry3_low bit0_iff [of a] bit0_iff [of b] bit_carry_of by simp
  have c01: "?c \<le> 1" by simp
  have "uint a div 2 + uint b div 2 + ?c < 2 ^ 64"
    by (rule half_bound [OF h(2) h(4) c01])
  then have "uint (drop_bit 1 a + drop_bit 1 b + low_carry a b (carry_of cc)) =
      uint a div 2 + uint b div 2 + ?c"
    using uint_plus3_small [of "drop_bit 1 a" "drop_bit 1 b" "low_carry a b (carry_of cc)"]
    unfolding uint_half c by simp
  then show ?thesis
    unfolding bit63_iff using half_sum3_arith [of "uint a" "uint b" ?k] r by simp
qed

lemma AddC_CC_eval:
  "AddC_CC [U64 a, U64 b, CCbits cc] = Inr (CCbits (AddC_CC_bits a b (carry_of cc)))"
  by (simp add: AddC_CC_def)

lemma SubC_CC_eval:
  "SubC_CC [U64 a, U64 b, CCbits cc] = Inr (CCbits (SubC_CC_bits a b (carry_of cc)))"
  by (simp add: SubC_CC_def)

lemma AddC_CC_carries:
  fixes cc a b
  defines "r \<equiv> AddC_CC_bits a b (carry_of cc)"
  shows "bit r xccC \<longleftrightarrow> 2 ^ 64 \<le> uint a + uint b + of_bool (bit cc iccC)"
    and "bit r iccC \<longleftrightarrow> 2 ^ 32 \<le> uint (ucast a :: u32) + uint (ucast b :: u32)"
  unfolding r_def AddC_CC_bits_def Let_def ccZN_def and_lo32 truth_and_power truth_lits
    carry_out_half3 icarry_out
  by simp_all

lemma SubC_CC_carries:
  fixes cc a b
  defines "r \<equiv> SubC_CC_bits a b (carry_of cc)"
  shows "bit r xccC \<longleftrightarrow> uint a div 2 < uint b div 2 + of_bool (bit cc iccC)"
    and "bit r iccC \<longleftrightarrow> uint (ucast a :: u32) < uint (ucast b :: u32) + of_bool (bit cc iccC)"
proof -
  have r: "uint a < 2 ^ 64" "uint b < 2 ^ 64" "0 \<le> uint a" "0 \<le> uint b"
    using uint_lt2p [of a]  uint_lt2p [of b] by simp_all
  then have h: "0 \<le> uint a div 2" "uint a div 2 < 2 ^ 63"
    "0 \<le> uint b div 2" "uint b div 2 < 2 ^ 63"
    by simp_all
  have b0: "(if (\<not> truth (a AND 0) \<and> (truth (carry_of cc) \<or> truth (b AND 0)))
      \<or> (truth (carry_of cc) \<and> truth (b AND 0)) then 1 else 0) = carry_of cc"
    by (simp add: truth_def carry_of_def)
  let ?d = "uint a div 2 - uint b div 2 - of_bool (bit cc 0)"
  have "uint (drop_bit 1 a - drop_bit 1 b - carry_of cc) = (if 0 \<le> ?d then ?d else ?d + 2 ^ 64)"
    unfolding uint_minus_cases uint_half carry_of_uint using h by (auto; linarith)
  then have x: "bit (drop_bit 1 a - drop_bit 1 b - carry_of cc) 63 \<longleftrightarrow> ?d < 0"
    unfolding bit63_iff using h by (simp; linarith)
  let ?s = "uint (ucast a :: u32) - uint (ucast b :: u32) - of_bool (bit cc 0)"
  have k: "0 \<le> (of_bool (bit cc 0) :: int)" "(of_bool (bit cc 0) :: int) \<le> 1"
    by simp_all
  have g: "- (2 ^ 32) \<le> ?s" "?s < 2 ^ 32"
    using uint32_range [of "ucast a"] uint32_range [of "ucast b"] k by linarith+
  have "uint (take_bit 32 a - take_bit 32 b - carry_of cc) = (if 0 \<le> ?s then ?s else ?s + 2 ^ 64)"
    unfolding uint_minus_cases uint_take32 carry_of_uint using g by (auto; linarith)
  then have i: "bit (take_bit 32 a - take_bit 32 b - carry_of cc) 32 \<longleftrightarrow> ?s < 0"
    unfolding bit32_uint using g odd_div_32_pos [of ?s] odd_div_32_neg [of ?s]
    by (auto split: if_splits)
  show "bit r xccC \<longleftrightarrow> uint a div 2 < uint b div 2 + of_bool (bit cc iccC)"
    unfolding r_def SubC_CC_bits_def Let_def ccZN_def and_lo32 truth_and_power truth_lits b0 x
    by auto
  show "bit r iccC \<longleftrightarrow> uint (ucast a :: u32) < uint (ucast b :: u32) + of_bool (bit cc iccC)"
    unfolding r_def SubC_CC_bits_def Let_def ccZN_def and_lo32 truth_and_power truth_lits b0 i
    by auto
qed

section \<open>The contract of a two operand operation\<close>

text \<open>
  What \<open>Logical_CC\<close> relies on of the \<open>Operation\<close> it wraps: on two 64 bit operands it returns
  the 64 bit value \<open>f\<close>, and on a vector of another size it fails its assertion.
\<close>

locale u64_operation =
  fixes Op :: operation_fn and f :: "u64 \<Rightarrow> u64 \<Rightarrow> u64"
  assumes eval: "Op [U64 a, U64 b] = Inr (U64 (f a b))"
    and arity: "length ops \<noteq> 2 \<Longrightarrow> Op ops = Inl AssertFailed"
begin

lemma cc_eval: "Logical_CC Op [U64 a, U64 b] = Inr (CCbits (ccZN (f a b) 0))"
  by (simp add: Logical_CC_def eval)

lemma cc_arity: "length ops \<noteq> 2 \<Longrightarrow> Logical_CC Op ops = Inl AssertFailed"
  by (simp add: Logical_CC_def arity)

lemma cc_agrees:
  "\<exists>v cc. Op [U64 a, U64 b] = Inr (U64 v) \<and> Logical_CC Op [U64 a, U64 b] = Inr (CCbits cc) \<and>
     flags_at cc 4 = (False, False, v = 0, sint v < 0) \<and>
     flags_at cc 0 = (False, False, (ucast v :: u32) = 0, sint (ucast v :: u32) < 0)"
  using eval [of a b] cc_eval [of a b] ccZN_flags [of "f a b"] by blast

end

interpretation and_op: u64_operation And "\<lambda>a b. a AND b"
  by unfold_locales (simp_all add: And_def binary_u64_arity)

interpretation or_op: u64_operation Or "\<lambda>a b. a OR b"
  by unfold_locales (simp_all add: Or_def binary_u64_arity)

interpretation xor_op: u64_operation Xor "\<lambda>a b. a XOR b"
  by unfold_locales (simp_all add: Xor_def binary_u64_arity)

interpretation andn_op: u64_operation AndN "\<lambda>a b. a AND NOT b"
  by unfold_locales (simp_all add: AndN_def binary_u64_arity)

interpretation orn_op: u64_operation OrN "\<lambda>a b. a OR NOT b"
  by unfold_locales (simp_all add: OrN_def binary_u64_arity)

interpretation xnor_op: u64_operation Xnor "\<lambda>a b. a XOR NOT b"
  by unfold_locales (simp_all add: Xnor_def binary_u64_arity)

interpretation umul_op: u64_operation UMul "\<lambda>a b. lo32 a * lo32 b"
  by unfold_locales (simp_all add: UMul_def UMul_calc_def binary_u64_arity)

interpretation smul_op: u64_operation SMul
  "\<lambda>a b. sext32_at 0x80000000 (lo32 a) * sext32_at 0x80000000 (lo32 b)"
  by unfold_locales (simp_all add: SMul_def SMul_calc_def binary_u64_arity)

lemmas logical_cc_defs = And_CC_def Or_CC_def Xor_CC_def AndN_CC_def OrN_CC_def Xnor_CC_def
  UMul_CC_def SMul_CC_def

section \<open>Properties\<close>

text \<open>The word shifts that the shift objects are measured against.\<close>

definition shift_spec :: "int \<Rightarrow> bool \<Rightarrow> u64 \<Rightarrow> nat \<Rightarrow> u64" where
  "shift_spec code x64 a n =
     (if code = 1 then push_bit n a
      else if code = 2 then
        (if x64 then drop_bit n a else ucast (drop_bit n (ucast a :: u32)))
      else
        (if x64 then signed_drop_bit n a else scast (signed_drop_bit n (ucast a :: u32))))"

text \<open>
  \<open>Add_CC\<close> sets the carry, overflow, zero and negative flags of the 64 bit sum
  (\<open>xcc\<close>) and of the 32 bit sum of the low halves (\<open>icc\<close>), for all operands.
\<close>

theorem Add_CC_flags:
  "\<exists>cc. Add_CC [U64 a, U64 b] = Inr (CCbits cc) \<and> flags_at cc 4 = add_flags a b \<and>
     flags_at cc 0 = add_flags (ucast a :: u32) (ucast b :: u32)"
  using Add_CC_eval [of a b] Add_CC_bits_flags [of a b] by blast

text \<open>
  \<open>Sub_CC\<close> sets borrow, overflow, zero and negative of the 64 bit difference (\<open>xcc\<close>)
  and of the 32 bit difference of the low halves (\<open>icc\<close>), for all operands.
\<close>

theorem Sub_CC_flags:
  "\<exists>cc. Sub_CC [U64 a, U64 b] = Inr (CCbits cc) \<and> flags_at cc 4 = sub_flags a b \<and>
     flags_at cc 0 = sub_flags (ucast a :: u32) (ucast b :: u32)"
  using Sub_CC_eval [of a b] Sub_CC_bits_flags [of a b] by blast

text \<open>
  The op3 codes of the logical operations and of the 32 bit multiplications select, in
  \<open>operation\<close> and in \<open>ccCalc\<close>, a value and a condition code calculator that agree: no carry,
  no overflow, and the zero and negative flags of that value at 64 and at 32 bits.
\<close>

theorem logical_cc_agree:
  assumes "op3 \<in> {1, 2, 3, 5, 6, 7, 0xA, 0xB}"
  shows "\<exists>Op Calc v cc. operation op3 = Inr Op \<and> ccCalc op3 = Inr Calc \<and>
     Op [U64 a, U64 b] = Inr (U64 v) \<and> Calc [U64 a, U64 b] = Inr (CCbits cc) \<and>
     flags_at cc 4 = (False, False, v = 0, sint v < 0) \<and>
     flags_at cc 0 = (False, False, (ucast v :: u32) = 0, sint (ucast v :: u32) < 0)"
  using assms and_op.cc_agrees [of a b] or_op.cc_agrees [of a b] xor_op.cc_agrees [of a b]
    andn_op.cc_agrees [of a b] orn_op.cc_agrees [of a b] xnor_op.cc_agrees [of a b]
    umul_op.cc_agrees [of a b] smul_op.cc_agrees [of a b]
  by (auto simp: operation_def ccCalc_def logical_cc_defs)

theorem logical_cc_agree_witness:
  "\<exists>Op Calc v cc. operation 5 = Inr Op \<and> ccCalc 5 = Inr Calc \<and>
     Op [U64 0xF0, U64 0xFF] = Inr (U64 v) \<and> Calc [U64 0xF0, U64 0xFF] = Inr (CCbits cc) \<and>
     flags_at cc 4 = (False, False, v = 0, sint v < 0) \<and>
     flags_at cc 0 = (False, False, (ucast v :: u32) = 0, sint (ucast v :: u32) < 0)"
  by (rule logical_cc_agree) simp

text \<open>
  The six shift objects compute the word shifts: a left shift of the 64 bit value, and
  right shifts, logical and arithmetic, of the 64 bit value or of its low 32 bits (zero or
  sign extended again), by the low 6 or 5 bits of the second operand.
\<close>

theorem shift_correct:
  assumes "code \<in> {1, 2, 3}"
  shows "\<exists>Op. shift code x64 = Inr Op \<and>
     Op [U64 a, U64 b] =
       Inr (U64 (shift_spec code x64 a (unat (b AND (if x64 then 0x3F else 0x1F)))))"
  using assms SRA_64_eval [of a b] SRA_32_eval [of a b] SRL_32_eval [of a b]
  by (auto simp: shift_def shift_spec_def SLL_32_def SLL_64_def SRL_64_def)

theorem shift_correct_witness:
  "\<exists>Op. shift 3 False = Inr Op \<and> Op [U64 0x80000000, U64 33] =
     Inr (U64 (shift_spec 3 False 0x80000000 (unat ((33::u64) AND (if False then 0x3F else 0x1F)))))"
  by (rule shift_correct) simp

text \<open>
  the floating point condition codes 8 apart are complementary on each of the four
  values (E, L, G, U) that a floating point condition code register holds.
\<close>

theorem fcondition_complement:
  assumes "cc < (4 :: bitset8)"
  shows "fcondition (c XOR 8) cc = (\<not> fcondition c cc)"
proof -
  have cc: "cc = 0 \<or> cc = 1 \<or> cc = 2 \<or> cc = 3"
    using assms by unat_arith
  have x: "(c XOR 8) AND 0xF = (c AND 0xF) XOR 8"
    by (simp add: bit.conj_xor_distrib2)
  have "c AND 0xF \<le> 0xF" by (rule word_and_le1)
  then have c: "c AND 0xF \<in> {0, 1, 2, 3, 4, 5, 6, 7, 8, 9, 10, 11, 12, 13, 14, 15}"
    using word_lt16_cases [of "c AND 0xF"] word_le7_cases [of "c AND 0xF"]
    by (auto simp: word_less_nat_alt word_le_nat_alt)
  show ?thesis
    using c cc unfolding fcondition_def x Let_def
    by (elim insertE emptyE disjE; simp add: fcc_is_def to_ulong_def)
qed

theorem fcondition_complement_witness:
  "fcondition (3 XOR 8) 2 = (\<not> fcondition 3 2)"
  by (rule fcondition_complement) simp

text \<open>
  an integer condition with the negation bit 3 flipped holds exactly when the condition
  itself does not, for every condition code register and every packed condition, and both
  are defined.
\<close>

theorem condition_complement:
  "\<exists>p q. condition c = Inr p \<and> condition (c XOR 8) = Inr q \<and>
     run_Condition q cc = (\<not> run_Condition p cc)"
proof -
  have "c AND 8 = 0 \<or> c AND 8 = 8"
  proof -
    have "bit (8 :: u32) n \<longleftrightarrow> n = 3" for n
      using bit_exp_iff [where 'a = "32 word", of 3 n] by auto
    then have "c AND 8 = (if bit c 3 then 8 else 0)"
      by (intro bit_word_eqI) (simp add: bit_and_iff del: bit_numeral_word_iff, blast)
    then show ?thesis by simp
  qed
  then have f: "((c XOR 8) AND 8 \<noteq> 0) = (\<not> c AND 8 \<noteq> 0)" "(c XOR 8) AND 0x10 = c AND 0x10"
    "(c XOR 8) AND 7 = c AND 7"
    by (auto simp: bit.conj_xor_distrib2)
  have "c AND 7 \<in> {0, 1, 2, 3, 4, 5, 6, 7}"
    using word_le7_cases [OF word_and7_le [of c]] by auto
  then have "\<exists>t. condition_test (c AND 7) = Inr t"
    by (auto simp: condition_test_def)
  then show ?thesis
    by (auto simp: condition_def condition3_def f word_and7_le run_Condition_def Let_def
        split del: if_split)
qed

text \<open>
  \<open>AddC_CC\<close> sets \<open>xcc.C\<close> from the 64 bit sum with the incoming carry, and \<open>icc.C\<close>
  from the 32 bit sum without it.
\<close>

theorem AddC_CC_carry_out:
  "\<exists>r. AddC_CC [U64 a, U64 b, CCbits cc] = Inr (CCbits r) \<and>
     (bit r xccC \<longleftrightarrow> 2 ^ 64 \<le> uint a + uint b + of_bool (bit cc iccC)) \<and>
     (bit r iccC \<longleftrightarrow> 2 ^ 32 \<le> uint (ucast a :: u32) + uint (ucast b :: u32))"
  using AddC_CC_eval [of a b cc] AddC_CC_carries [of a b cc] by blast

text \<open>
  \<open>SubC_CC\<close> sets \<open>icc.C\<close> to the borrow of the 32 bit subtraction with carry, and
  \<open>xcc.C\<close> to the borrow of the operands without their lowest bits.
\<close>

theorem SubC_CC_borrow_out:
  "\<exists>r. SubC_CC [U64 a, U64 b, CCbits cc] = Inr (CCbits r) \<and>
     (bit r xccC \<longleftrightarrow> uint a div 2 < uint b div 2 + of_bool (bit cc iccC)) \<and>
     (bit r iccC \<longleftrightarrow> uint (ucast a :: u32) < uint (ucast b :: u32) + of_bool (bit cc iccC))"
  using SubC_CC_eval [of a b cc] SubC_CC_carries [of a b cc] by blast

text \<open>
  The quotient of \<open>SDiv\<close> and the flags of \<open>SDiv_CC\<close> disagree: on 0x10000000 divided by
  0x08000000 the quotient is 2 and the zero flag is set, because \<open>SDiv_CC\<close> takes bit 27 of
  the divisor for its sign.
\<close>

theorem SDiv_CC_disagrees:
  "\<exists>cc. SDiv [U64 0x10000000, U64 0x08000000, U64 0] = Inr (U64 2) \<and>
     SDiv_CC [U64 0x10000000, U64 0x08000000, U64 0] = Inr (CCbits cc) \<and> bit cc iccZ"
  by (simp add: SDiv_def SDiv_calc_def SDiv_CC_def lo32_def sext32_at_def div_s64_def
      signed_divide_int_def ccZN_def Let_def)

end
