(* ===== verification/V9_Fpu_Correct.thy ===== *)
theory V9_Fpu_Correct
  imports V9_Fpu V9_Alu_Correct
begin

text \<open>
  Properties of the floating point operations: the outcome of the comparisons as the branch
  conditions see it, the fields of the control word, and the unaligned load that \<open>Align\<close> and
  \<open>FALIGNDATA\<close> implement together.
\<close>

section \<open>Comparisons and control words\<close>

text \<open>
  What the processor manuals say of the status word after a comparison: C3 and C0 tell less,
  greater, unordered and equal apart.
\<close>

definition fcom_documented ::
    "'f x87 \<Rightarrow> ('f \<Rightarrow> 'f \<Rightarrow> bool) \<Rightarrow> ('f \<Rightarrow> 'f \<Rightarrow> bool) \<Rightarrow> bool" where
  "fcom_documented h lt unord \<longleftrightarrow>
     (\<forall>c x y. fcom h c x y AND 0x4100 =
        (if unord x y then 0x4100 else if lt x y then 0x100 else if lt y x then 0 else 0x4000))"

lemma mask_parts:
  "s AND 0x4000 = (s AND 0x4100) AND 0x4000" "s AND 0x100 = (s AND 0x4100) AND 0x100" for s :: u16
  by (simp_all add: and.assoc)

lemma fcc_of_documented:
  assumes "fcom_documented h lt unord"
  shows "fcc_of_status (fcom h c x y) =
    (if unord x y then fccE else if lt x y then fccL else if lt y x then fccG else fccE)"
proof -
  have "fcom h c x y AND 0x4100 =
      (if unord x y then 0x4100 else if lt x y then 0x100 else if lt y x then 0 else 0x4000)"
    using assms by (simp add: fcom_documented_def)
  then show ?thesis
    unfolding fcc_of_status_def mask_parts [of "fcom h c x y"] by simp
qed

lemma arg_u32_0 [simp]: "arg_u32 (U64 a # ops) 0 = Inr (ucast a)"
  by (simp add: arg_u32_def)

lemma arg_u32_Suc [simp]: "arg_u32 (x # ops) (Suc n) = arg_u32 ops n"
  by (simp add: arg_u32_def)

lemma arg_u32_numeral [simp]: "arg_u32 (x # ops) (numeral n) = arg_u32 ops (pred_numeral n)"
  by (simp add: arg_u32_def)

lemma arg_u32_1 [simp]: "arg_u32 (x # y # ops) 1 = arg_u32 (y # ops) 0"
  by (simp add: arg_u32_def)

lemma arg_pair_0 [simp]: "arg_pair (U64 hi # U64 lo # ops) 0 = Inr (push_bit 32 hi OR lo)"
  by (simp add: arg_pair_def)

lemma arg_pair_2 [simp]: "arg_pair (x # y # ops) 2 = arg_pair ops 0"
  by (simp add: arg_pair_def eval_nat_numeral)

text \<open>
  On a host whose comparison behaves as documented, \<open>FCMPs\<close> lets the branch conditions
  L, G and E decide less, greater, and neither of them, and no branch on U is ever taken: an
  unordered pair is reported as equal.
\<close>

theorem FCMPs_branches:
  assumes "fcom_documented h lt unord"
    and "\<forall>x y. lt x y \<longrightarrow> \<not> lt y x \<and> \<not> unord x y \<and> \<not> unord y x"
  shows "\<exists>cc. FCMPs h rm [U64 a, U64 b] = Inr (CCbits cc) \<and>
     (fcondition 4 cc \<longleftrightarrow> lt (flds h (ucast a)) (flds h (ucast b))) \<and>
     (fcondition 6 cc \<longleftrightarrow> lt (flds h (ucast b)) (flds h (ucast a))) \<and>
     (fcondition 9 cc \<longleftrightarrow> \<not> lt (flds h (ucast a)) (flds h (ucast b)) \<and>
                          \<not> lt (flds h (ucast b)) (flds h (ucast a))) \<and>
     \<not> fcondition 7 cc"
  using assms(2) by (auto simp: FCMPs_def fcc_of_documented [OF assms(1)] fcondition_def
      fcc_is_def to_ulong_def)

text \<open>A host that keeps registers as integers, with the value 0xFFFFFFFF as its only NaN.\<close>

definition int_host :: "u32 x87" where
  "int_host = \<lparr>flds = (\<lambda>v. v), fldl = ucast, fildl = (\<lambda>v. v), fildq = ucast,
     fadd = (\<lambda>c x y. x + y), fsub = (\<lambda>c x y. x - y), fmul = (\<lambda>c x y. x * y),
     fdiv = (\<lambda>c x y. x div y), fsqrt = (\<lambda>c x. x), fchs = uminus, fabs = (\<lambda>x. x),
     fstps = (\<lambda>c x. x), fstpl = (\<lambda>c x. ucast x), fistpl = (\<lambda>c x. x), fistpq = (\<lambda>c x. ucast x),
     fcom = (\<lambda>c x y. if x = 0xFFFFFFFF \<or> y = 0xFFFFFFFF then 0x4100
                    else if x < y then 0x100 else if y < x then 0 else 0x4000)\<rparr>"

theorem FCMPs_branches_witness:
  "\<exists>cc. FCMPs int_host 0 [U64 3, U64 4] = Inr (CCbits cc) \<and>
     (fcondition 4 cc \<longleftrightarrow> (3 :: u32) < 4 \<and> (4 :: u32) \<noteq> 0xFFFFFFFF) \<and> \<not> fcondition 7 cc"
proof -
  let ?u = "\<lambda>x y :: u32. x = 0xFFFFFFFF \<or> y = 0xFFFFFFFF"
  have "fcom_documented int_host (\<lambda>x y. x < y \<and> \<not> ?u x y) ?u"
    by (simp add: fcom_documented_def int_host_def)
  moreover have "\<forall>x y. x < y \<and> \<not> ?u x y \<longrightarrow>
      \<not> (y < x \<and> \<not> ?u y x) \<and> \<not> ?u x y \<and> \<not> ?u y x"
    by auto
  ultimately have "\<exists>cc. FCMPs int_host 0 [U64 3, U64 4] = Inr (CCbits cc) \<and>
      (fcondition 4 cc \<longleftrightarrow> flds int_host (ucast (3 :: u64)) < flds int_host (ucast (4 :: u64)) \<and>
        \<not> ?u (flds int_host (ucast (3 :: u64))) (flds int_host (ucast (4 :: u64)))) \<and>
      \<not> fcondition 7 cc"
    using FCMPs_branches [of int_host "\<lambda>x y. x < y \<and> \<not> ?u x y" ?u 0 3 4] by blast
  then show ?thesis by (simp add: int_host_def)
qed

text \<open>
  the control word of a floating point operation masks all six exceptions, keeps the
  precision field of its base, and holds the low two bits of the rounding mode in its
  rounding field; the conversions to integers use the same word with the field at 3.
\<close>

theorem control_word_fields:
  assumes "base \<in> {0x7F, 0x27F}"
  shows "control_word base (setContext ctx) AND 0x3F = 0x3F \<and>
     control_word base (setContext ctx) AND 0x300 = base AND 0x300 \<and>
     drop_bit 10 (control_word base (setContext ctx)) = ucast (ctx AND 3) \<and>
     round_to_zero_word = control_word 0x7F 3"
proof -
  have "ctx AND 3 \<le> 3" by (rule word_and_le1)
  then have "ctx AND 3 = 0 \<or> ctx AND 3 = 1 \<or> ctx AND 3 = 2 \<or> ctx AND 3 = 3"
    by unat_arith
  moreover have "(ucast ctx :: u32) AND 3 = ucast (ctx AND 3)"
    using take_bit_eq_mask [of 2 ctx] take_bit_eq_mask [of 2 "ucast ctx :: u32"]
    by (simp add: mask_eq_exp_minus_1 unsigned_take_bit_eq flip: unsigned_take_bit_eq)
  ultimately show ?thesis
    using assms by (auto simp: control_word_def setContext_def round_to_zero_word_def)
qed

theorem control_word_fields_witness:
  "control_word 0x27F (setContext 2) AND 0x3F = 0x3F \<and>
     control_word 0x27F (setContext 2) AND 0x300 = 0x27F AND 0x300 \<and>
     drop_bit 10 (control_word 0x27F (setContext 2)) = ucast ((2 :: u64) AND 3) \<and>
     round_to_zero_word = control_word 0x7F 3"
  by (rule control_word_fields) simp

section \<open>Unaligned data\<close>

text \<open>Big endian memory: the eight bytes from an address, the first one on top.\<close>

definition load8 :: "(u64 \<Rightarrow> 8 word) \<Rightarrow> u64 \<Rightarrow> u64" where
  "load8 m A = word_rcat (map (\<lambda>i. m (A + of_nat i)) [0..<8])"

lemma bit_load8:
  assumes "n < 64"
  shows "bit (load8 m A) n = bit (m (A + of_nat (7 - n div 8))) (n mod 8)"
proof -
  have "n div 8 < 8" using assms by auto
  then show ?thesis
    using assms bit_horner_sum_uint_exp_iff [of "rev (map (\<lambda>i. m (A + of_nat i)) [0..<8])" n]
    by (simp add: load8_def word_rcat_def bit_of_int_iff rev_nth del: upt_Suc upt_rec_numeral)
qed

lemma align_bits: "(A AND NOT 7) + (A AND 7) = (A :: u64)"
proof -
  have "(A AND NOT 7) + (A AND 7) = (A AND NOT 7) OR (A AND 7)"
    by (rule disjunctive_add_eq_or, rule bit_word_eqI) (unfold bit_and_iff bit_not_iff, simp)
  also have "\<dots> = A AND (NOT 7 OR 7)"
    by (simp only: bit.conj_disj_distrib)
  finally show ?thesis by simp
qed

lemma faligndata_bits:
  fixes B :: u64
  assumes "k < 8"
  shows "push_bit (8 * k) (load8 m B) OR
     (if k = 0 then 0 else drop_bit (8 * (8 - k)) (load8 m (B + 8))) = load8 m (B + of_nat k)"
    (is "?hi OR ?lo = _")
proof (rule bit_word_eqI)
  fix n assume "n < LENGTH(64)"
  then have n: "n < 64" by simp
  then have n8: "n div 8 < 8" by auto
  show "bit (?hi OR ?lo) n = bit (load8 m (B + of_nat k)) n"
  proof (cases "8 * k \<le> n")
    case True
    then obtain j where j: "n = 8 * k + j" using le_Suc_ex by blast
    then have "n div 8 = k + j div 8" "n mod 8 = j mod 8" by auto
    moreover have "7 - j div 8 = k + (7 - n div 8)"
      using n8 calculation by simp
    ultimately have "B + of_nat (7 - j div 8) = B + of_nat k + of_nat (7 - n div 8)"
      by (metis add.assoc of_nat_add)
    moreover have "j < 64" "n - 8 * k = j" "n mod 8 = j mod 8" using j n by auto
    moreover have "\<not> bit ?lo n"
      using True assms by (auto simp: bit_drop_bit_eq dest!: bit_imp_le_length)
    ultimately show ?thesis
      using True n
      by (simp add: bit_or_iff bit_push_bit_iff bit_load8 add.assoc del: of_nat_diff)
  next
    case False
    let ?i = "n + 8 * (8 - k)"
    have k: "k \<noteq> 0" "?i < 64" using False assms by auto
    have d: "?i div 8 = n div 8 + (8 - k)" "?i mod 8 = n mod 8" by simp_all
    have "n div 8 < k" using False by (simp add: div_less_iff_less_mult mult.commute)
    then have "8 + (7 - ?i div 8) = k + (7 - n div 8)"
      using d assms by simp
    then have "B + 8 + of_nat (7 - ?i div 8) = B + of_nat k + of_nat (7 - n div 8)"
      by (metis (no_types, lifting) add.assoc of_nat_add of_nat_numeral)
    moreover have "bit ?lo n = bit (load8 m (B + 8)) ?i"
      using k by (simp add: bit_drop_bit_eq ac_simps)
    ultimately show ?thesis
      using False n k d
      by (simp add: bit_or_iff bit_push_bit_iff bit_load8 add.assoc del: of_nat_diff)
  qed
qed

lemma seven_mask: "(7 :: 'a::len word) = mask 3"
  by (simp add: mask_eq_exp_minus_1)

lemma aligned_dvd: "8 dvd uint (A AND NOT 7 :: u64)"
proof -
  have "take_bit 3 (A AND NOT 7) = 0"
    unfolding seven_mask
    by (rule bit_word_eqI) (auto simp: bit_take_bit_iff bit_and_iff bit_not_iff bit_mask_iff)
  then have "take_bit 3 (uint (A AND NOT 7)) = 0"
    by (metis unsigned_0 unsigned_take_bit_eq)
  then show ?thesis
    using take_bit_eq_0_iff [of 3 "uint (A AND NOT 7)"] by simp
qed

lemma gsr_align:
  "unat ((ucast ((gsr AND NOT 7) OR (A AND 7) :: u64) :: u32) AND 7) = unat (A AND 7)"
proof -
  have "ucast ((gsr AND NOT 7) OR (A AND 7)) AND 7 = (ucast (A AND 7) :: u32)"
    unfolding seven_mask
    by (rule bit_word_eqI) (auto simp: bit_ucast_iff bit_or_iff bit_and_iff bit_not_iff
        bit_mask_iff)
  moreover have "unat (ucast (A AND 7) :: u32) = unat (A AND 7)"
    using word_and_le1 [of A 7]
    by (simp add: word_le_nat_alt unsigned_ucast_eq take_bit_nat_eq_self)
  ultimately show ?thesis by simp
qed

lemma halves_join: "push_bit 32 (drop_bit 32 w) OR take_bit 32 w = (w :: u64)"
  by (rule bit_word_eqI)
     (auto simp: bit_or_iff bit_push_bit_iff bit_drop_bit_eq bit_take_bit_iff)

text \<open>
  An unaligned eight byte load done the way SPARC code does it, aligning the address with
  \<open>Align\<close> (which leaves the offset in GSR), loading the two aligned double words around it and
  combining them with \<open>FALIGNDATA\<close>, yields the eight bytes at the unaligned address.
\<close>

theorem unaligned_load:
  "\<exists>B gsr'. Align [U64 a, U64 b, U64 gsr] = Inr (U64 B) \<and>
     Align_evalExtra [U64 a, U64 b, U64 gsr] = Inr (U64 gsr') \<and> 8 dvd uint B \<and>
     FALIGNDATA
       [U64 (drop_bit 32 (load8 m B)), U64 (take_bit 32 (load8 m B)),
        U64 (drop_bit 32 (load8 m (B + 8))), U64 (take_bit 32 (load8 m (B + 8))), U64 gsr'] =
       Inr (U64 (load8 m (a + b)))"
proof -
  let ?A = "a + b" and ?B = "(a + b) AND NOT 7"
  let ?k = "unat (?A AND 7)"
  let ?g = "(gsr AND NOT 7) OR (?A AND 7)"
  have g: "unat ((ucast ?g :: u32) AND 7) = ?k"
    by (rule gsr_align)
  have k: "?k < 8"
    using word_and_le1 [of ?A 7] by (simp add: word_le_nat_alt)
  have "?B + of_nat ?k = ?A" using align_bits [of ?A] by simp
  with faligndata_bits [OF k, of m ?B]
  have "push_bit (8 * ?k) (load8 m ?B) OR
     (if ?k = 0 then 0 else drop_bit (8 * (8 - ?k)) (load8 m (?B + 8))) = load8 m ?A"
    by simp
  then show ?thesis using aligned_dvd [of ?A]
    by (cases "?k = 0") (simp_all add: Align_def Align_evalExtra_def FALIGNDATA_def halves_join
        g [simplified] Let_def)
qed

end
