(* ===== verification/Reg_Window.thy ===== *)
theory Reg_Window
  imports V9_Alu
begin

text \<open>
  The register windows: \<open>RegisterWindowMap\<close> of \<open>components/uArch/MapTable.hpp\<close>, which turns a
  register number of an instruction into the number of an architectural register under the
  current window pointer and the alternate global sets. Indices are 32 bit words, as in the
  source; the window pointer is an \<open>int\<close> between 0 and 7.
\<close>

section \<open>Constants of \<open>RegisterType.hpp\<close>\<close>

abbreviation (input) kGlobalRegCount :: u32 where "kGlobalRegCount \<equiv> 8"
abbreviation (input) kGlobalRegSets :: u32 where "kGlobalRegSets \<equiv> 4"
abbreviation (input) kNumWindows :: u32 where "kNumWindows \<equiv> 8"
abbreviation (input) kRegistersPerWindow :: u32 where "kRegistersPerWindow \<equiv> 16"
abbreviation (input) kWindowRegCount :: u32 where "kWindowRegCount \<equiv> 128"
abbreviation (input) kFirstSpecialReg :: u32 where "kFirstSpecialReg \<equiv> 160"
abbreviation (input) kRegASI :: u32 where "kRegASI \<equiv> 161"

section \<open>Operations\<close>

record RegisterWindowMap =
  theCWP :: int
  theAG :: bool
  theIG :: bool
  theMG :: bool

definition rwm_reset :: RegisterWindowMap where
  "rwm_reset = \<lparr>theCWP = 0, theAG = False, theIG = False, theMG = False\<rparr>"

definition rotate_index :: "RegisterWindowMap \<Rightarrow> u32 \<Rightarrow> u32" where
  "rotate_index w i =
     (if i \<ge> kFirstSpecialReg then i
      else if i < kGlobalRegCount then
        (if theAG w then i + kGlobalRegCount
         else if theMG w then i + 2 * kGlobalRegCount
         else if theIG w then i + 3 * kGlobalRegCount
         else i)
      else
        let j = i + (kNumWindows - 1 - word_of_int (theCWP w)) * kRegistersPerWindow
                  + (kGlobalRegSets - 1) * kGlobalRegCount
        in if j \<ge> kFirstSpecialReg then j - kWindowRegCount else j)"

definition rotate :: "RegisterWindowMap \<Rightarrow> reg \<Rightarrow> reg" where
  "rotate w aReg =
     (if theType aReg \<noteq> rRegisters then aReg
      else aReg\<lparr>theIndex := rotate_index w (theIndex aReg)\<rparr>)"

definition setCWP :: "int \<Rightarrow> RegisterWindowMap \<Rightarrow> RegisterWindowMap result" where
  "setCWP aCWP w = dbg_assert (aCWP < 8) (Inr (w\<lparr>theCWP := aCWP\<rparr>))"

definition incrementCWP :: "RegisterWindowMap \<Rightarrow> RegisterWindowMap" where
  "incrementCWP w = (let c = theCWP w + 1 in w\<lparr>theCWP := (if c > 7 then 0 else c)\<rparr>)"

definition decrementCWP :: "RegisterWindowMap \<Rightarrow> RegisterWindowMap" where
  "decrementCWP w = (let c = theCWP w - 1 in w\<lparr>theCWP := (if c < 0 then 7 else c)\<rparr>)"

definition setAG :: "bool \<Rightarrow> RegisterWindowMap \<Rightarrow> RegisterWindowMap" where
  "setAG b w = w\<lparr>theAG := b\<rparr>"

definition setIG :: "bool \<Rightarrow> RegisterWindowMap \<Rightarrow> RegisterWindowMap" where
  "setIG b w = w\<lparr>theIG := b\<rparr>"

definition setMG :: "bool \<Rightarrow> RegisterWindowMap \<Rightarrow> RegisterWindowMap" where
  "setMG b w = w\<lparr>theMG := b\<rparr>"

lemmas [op_defs] = rwm_reset_def incrementCWP_def decrementCWP_def setAG_def setIG_def setMG_def

section \<open>Rotation as arithmetic\<close>

definition rwm_ok :: "RegisterWindowMap \<Rightarrow> bool" where
  "rwm_ok w \<longleftrightarrow> 0 \<le> theCWP w \<and> theCWP w < 8"

text \<open>The selected set of globals, in the order of the tests in \<open>rotate\<close>.\<close>

definition global_set :: "RegisterWindowMap \<Rightarrow> nat" where
  "global_set w = (if theAG w then 1 else if theMG w then 2 else if theIG w then 3 else 0)"

definition rotate_spec :: "RegisterWindowMap \<Rightarrow> nat \<Rightarrow> nat" where
  "rotate_spec w i =
     (if i < 8 then i + 8 * global_set w
      else 32 + (i + 104 - 16 * nat (theCWP w)) mod 128)"

lemma rwm_ok_cases:
  assumes "rwm_ok w"
  shows "theCWP w = 0 \<or> theCWP w = 1 \<or> theCWP w = 2 \<or> theCWP w = 3 \<or>
    theCWP w = 4 \<or> theCWP w = 5 \<or> theCWP w = 6 \<or> theCWP w = 7"
  using assms by (simp add: rwm_ok_def) linarith

lemma rotate_index_unat:
  assumes "rwm_ok w" "unat i < 32"
  shows "unat (rotate_index w i) = rotate_spec w (unat i)"
proof (cases "i < 8")
  case True
  then have "unat i < 8" by (simp add: word_less_nat_alt)
  then show ?thesis
    using True by (auto simp: rotate_index_def rotate_spec_def global_set_def unat_word_ariths
        word_le_nat_alt Let_def)
next
  case False
  then have "8 \<le> unat i" by (simp add: word_less_nat_alt)
  then show ?thesis
    using False assms(2) rwm_ok_cases [OF assms(1)]
    by (elim disjE; auto simp: rotate_index_def rotate_spec_def unat_word_ariths
        word_le_nat_alt Let_def unat_sub_if' mod_if)
qed

lemma rwm_ok_reset [simp]: "rwm_ok rwm_reset"
  by (simp add: rwm_ok_def op_defs)

lemma rwm_ok_increment [simp]: "rwm_ok w \<Longrightarrow> rwm_ok (incrementCWP w)"
  by (simp add: rwm_ok_def op_defs Let_def)

lemma rwm_ok_decrement [simp]: "rwm_ok w \<Longrightarrow> rwm_ok (decrementCWP w)"
  by (simp add: rwm_ok_def op_defs Let_def)

lemma decrement_increment: "rwm_ok w \<Longrightarrow> decrementCWP (incrementCWP w) = w"
  by (simp add: rwm_ok_def op_defs Let_def)

lemma increment_decrement: "rwm_ok w \<Longrightarrow> incrementCWP (decrementCWP w) = w"
  by (simp add: rwm_ok_def op_defs Let_def)

lemma rotate_spec_bound: "i < 32 \<Longrightarrow> rotate_spec w i < 160"
  by (simp add: rotate_spec_def global_set_def)

lemma rotate_spec_alias:
  assumes "rwm_ok w" "rwm_ok v" "8 \<le> i" "i < 32" "8 \<le> j" "j < 32"
  shows "rotate_spec w i = rotate_spec v j \<longleftrightarrow>
    (int i - 16 * theCWP w) mod 128 = (int j - 16 * theCWP v) mod 128"
proof -
  have m: "int ((k + 104 - 16 * nat (theCWP u)) mod 128) = (int k - 16 * theCWP u + 104) mod 128"
    if "rwm_ok u" "8 \<le> k" for u k
  proof -
    have "int (16 * nat (theCWP u)) = 16 * theCWP u" "16 * nat (theCWP u) \<le> k + 104"
      using that by (auto simp: rwm_ok_def)
    then have "int (k + 104 - 16 * nat (theCWP u)) = int k - 16 * theCWP u + 104" by linarith
    then show ?thesis by (simp only: zmod_int of_nat_numeral)
  qed
  have "rotate_spec w i = rotate_spec v j \<longleftrightarrow>
      int ((i + 104 - 16 * nat (theCWP w)) mod 128) = int ((j + 104 - 16 * nat (theCWP v)) mod 128)"
    using assms by (simp add: rotate_spec_def)
  also have "\<dots> \<longleftrightarrow> (int i - 16 * theCWP w + 104) mod 128 = (int j - 16 * theCWP v + 104) mod 128"
    using assms by (simp only: m)
  also have "\<dots> \<longleftrightarrow> (int i - 16 * theCWP w) mod 128 = (int j - 16 * theCWP v) mod 128"
    by (simp add: mod_eq_dvd_iff)
  finally show ?thesis .
qed

lemma rotate_spec_inj: "rwm_ok w \<Longrightarrow> inj_on (rotate_spec w) {..<32}"
proof (rule inj_onI)
  fix i j
  assume ok: "rwm_ok w"
    and r: "i \<in> {..<32}" "j \<in> {..<32}" "rotate_spec w i = rotate_spec w j"
  show "i = j"
  proof (cases "i < 8 \<or> j < 8")
    case True
    then show ?thesis
      using r by (auto simp: rotate_spec_def global_set_def split: if_splits)
  next
    case False
    then have "(int i - 16 * theCWP w) mod 128 = (int j - 16 * theCWP w) mod 128"
      using r ok rotate_spec_alias [OF ok ok, of i j] by simp
    then have "int i mod 128 = int j mod 128"
      by (simp add: mod_eq_dvd_iff)
    then show ?thesis using r by simp
  qed
qed

section \<open>Properties\<close>

text \<open>
  C37: the windows overlap in a ring: two window registers (numbers 8 to 31) seen through the
  window maps \<open>w\<close> and \<open>v\<close> are the same architectural register exactly when their numbers
  less 16 per window agree modulo 128. In particular the outs of a window are the ins of the
  next, around the end too, and the locals of a window are its own.
\<close>

theorem window_alias:
  assumes "rwm_ok w" "rwm_ok v" "8 \<le> i" "i < 32" "8 \<le> j" "j < 32"
  shows "rotate w \<lparr>theType = rRegisters, theIndex = i\<rparr> =
      rotate v \<lparr>theType = rRegisters, theIndex = j\<rparr>
    \<longleftrightarrow> (uint i - 16 * theCWP w) mod 128 = (uint j - 16 * theCWP v) mod 128"
proof -
  have b: "8 \<le> unat i" "unat i < 32" "8 \<le> unat j" "unat j < 32"
    using assms(3-6) by (simp_all add: word_less_nat_alt word_le_nat_alt)
  have "rotate_index w i = rotate_index v j \<longleftrightarrow> rotate_spec w (unat i) = rotate_spec v (unat j)"
    using rotate_index_unat [OF assms(1) b(2)] rotate_index_unat [OF assms(2) b(4)]
    by (simp add: word_unat_eq_iff)
  then show ?thesis
    using rotate_spec_alias [OF assms(1,2) b] by (simp add: rotate_def)
qed

theorem window_alias_witness:
  "rotate rwm_reset \<lparr>theType = rRegisters, theIndex = 8\<rparr> =
     rotate (incrementCWP rwm_reset) \<lparr>theType = rRegisters, theIndex = 24\<rparr>
    \<longleftrightarrow> (uint (8 :: u32) - 16 * theCWP rwm_reset) mod 128 =
        (uint (24 :: u32) - 16 * theCWP (incrementCWP rwm_reset)) mod 128"
  by (rule window_alias) simp_all

text \<open>
  In every window and for every selection of globals, \<open>rotate\<close> maps the 32 register
  numbers of an instruction to 32 different architectural registers below the special ones,
  and leaves the special registers and the registers of the other files alone.
\<close>

theorem rotate_injective:
  assumes "rwm_ok w"
  shows "inj_on (rotate w) {r. theType r = rRegisters \<and> theIndex r < 32} \<and>
    (\<forall>r. theType r = rRegisters \<and> theIndex r < 32 \<longrightarrow> theIndex (rotate w r) < 160) \<and>
    (\<forall>r. theType r \<noteq> rRegisters \<or> 160 \<le> theIndex r \<longrightarrow> rotate w r = r)"
proof (intro conjI allI impI)
  have u:
    "theIndex r < 32 \<Longrightarrow> unat (rotate_index w (theIndex r)) = rotate_spec w (unat (theIndex r))"
    "theIndex r < 32 \<Longrightarrow> unat (theIndex r) < 32" for r :: reg
    using rotate_index_unat [OF assms] by (simp_all add: word_less_nat_alt)
  show "inj_on (rotate w) {r. theType r = rRegisters \<and> theIndex r < 32}"
  proof (rule inj_onI)
    fix r s :: reg
    assume "r \<in> {r. theType r = rRegisters \<and> theIndex r < 32}"
      and "s \<in> {r. theType r = rRegisters \<and> theIndex r < 32}" and "rotate w r = rotate w s"
    then have t: "theType r = theType s" "theIndex r < 32" "theIndex s < 32"
      and "rotate_index w (theIndex r) = rotate_index w (theIndex s)"
      by (auto simp: rotate_def dest: arg_cong [of _ _ theIndex])
    then have "rotate_spec w (unat (theIndex r)) = rotate_spec w (unat (theIndex s))"
      using u(1) by metis
    then have "unat (theIndex r) = unat (theIndex s)"
      using rotate_spec_inj [OF assms] u(2) t by (auto dest: inj_onD)
    then show "r = s" using t(1) by (simp add: word_unat_eq_iff)
  qed
  show "theIndex (rotate w r) < 160" if "theType r = rRegisters \<and> theIndex r < 32" for r
    using that u [of r] rotate_spec_bound [of "unat (theIndex r)" w]
    by (simp add: rotate_def word_less_nat_alt)
  show "rotate w r = r" if "theType r \<noteq> rRegisters \<or> 160 \<le> theIndex r" for r
    using that by (auto simp: rotate_def rotate_index_def)
qed

theorem rotate_injective_witness:
  "rwm_ok (incrementCWP rwm_reset) \<and>
   rotate (incrementCWP rwm_reset) \<lparr>theType = rRegisters, theIndex = 9\<rparr> \<noteq>
     rotate (incrementCWP rwm_reset) \<lparr>theType = rRegisters, theIndex = 25\<rparr> \<and>
   theIndex (rotate (incrementCWP rwm_reset) \<lparr>theType = rRegisters, theIndex = 9\<rparr>) < 160 \<and>
   rotate (incrementCWP rwm_reset) \<lparr>theType = fRegisters, theIndex = 9\<rparr> =
     \<lparr>theType = fRegisters, theIndex = 9\<rparr>"
proof -
  have ok: "rwm_ok (incrementCWP rwm_reset)" by simp
  note r = rotate_injective [OF ok]
  have "rotate (incrementCWP rwm_reset) \<lparr>theType = rRegisters, theIndex = 9\<rparr> \<noteq>
      rotate (incrementCWP rwm_reset) \<lparr>theType = rRegisters, theIndex = 25\<rparr>"
    using inj_onD [OF conjunct1 [OF r], of "\<lparr>theType = rRegisters, theIndex = 9\<rparr>"
        "\<lparr>theType = rRegisters, theIndex = 25\<rparr>"] by auto
  then show ?thesis using ok r by simp
qed

end
