(* ===== verification/Phys_Map.thy ===== *)
theory Phys_Map
  imports Prelude "HOL-Library.Multiset"
begin

text \<open>
  Register renaming: \<open>PhysicalMap\<close> of \<open>components/uArch/MapTable.hpp\<close>, which keeps for every
  architectural name the physical register of its newest value, the list of all registers
  that hold a value of it, oldest first, and the free list. Vectors and lists are HOL lists;
  an access outside of one, undefined in C++, is the error \<open>OutOfRange\<close>.
\<close>

section \<open>State and operations\<close>

type_synonym regName = nat
type_synonym pRegister = nat

record PhysicalMap =
  theNameCount :: nat
  theRegisterCount :: nat
  theMappings :: "pRegister list"
  theFreeList :: "pRegister list"
  theAssignedRegisters :: "pRegister list list"
  theReverseMappings :: "int list"

text \<open>
  The constructor resizes the vectors and calls \<open>reset\<close>, which fills them; with fewer
  registers than names \<open>reset\<close> writes past the reverse mappings.
\<close>

definition pm_reset :: "PhysicalMap \<Rightarrow> PhysicalMap result" where
  "pm_reset pm =
     (let n = theNameCount pm; r = theRegisterCount pm in
      if length (theMappings pm) < n \<or> length (theAssignedRegisters pm) < n \<or>
         length (theReverseMappings pm) < n then Inl OutOfRange
      else Inr (pm\<lparr>
        theReverseMappings := map int [0..<n] @ replicate (length (theReverseMappings pm) - n) (-1),
        theMappings := [0..<n] @ drop n (theMappings pm),
        theAssignedRegisters := map (\<lambda>i. [i]) [0..<n] @ drop n (theAssignedRegisters pm),
        theFreeList := [n..<r]\<rparr>))"

definition pm_new :: "nat \<Rightarrow> nat \<Rightarrow> PhysicalMap result" where
  "pm_new aNameCount aRegisterCount =
     pm_reset \<lparr>theNameCount = aNameCount, theRegisterCount = aRegisterCount,
       theMappings = replicate aNameCount 0, theFreeList = [],
       theAssignedRegisters = replicate aNameCount [],
       theReverseMappings = replicate aRegisterCount 0\<rparr>"

definition pm_map :: "PhysicalMap \<Rightarrow> regName \<Rightarrow> pRegister result" where
  "pm_map pm n = dbg_assert (n < length (theMappings pm)) (Inr (theMappings pm ! n))"

definition mapArchitectural :: "PhysicalMap \<Rightarrow> regName \<Rightarrow> pRegister result" where
  "mapArchitectural pm n = dbg_assert (n < length (theAssignedRegisters pm))
     (case theAssignedRegisters pm ! n of [] \<Rightarrow> Inl OutOfRange | r # rs \<Rightarrow> Inr r)"

definition pm_create :: "PhysicalMap \<Rightarrow> regName \<Rightarrow> (PhysicalMap \<times> pRegister \<times> pRegister) result" where
  "pm_create pm n = dbg_assert (n < length (theMappings pm))
     (let previous_reg = theMappings pm ! n in
      case theFreeList pm of
        [] \<Rightarrow> Inl OutOfRange
      | new_reg # rest \<Rightarrow>
          rbind (lookup_vec (theAssignedRegisters pm) n) (\<lambda>assigned.
          rbind (lookup_vec (theReverseMappings pm) new_reg) (\<lambda>rev_name.
          dbg_assert (rev_name = -1)
            (Inr (pm\<lparr>theFreeList := rest,
                     theMappings := (theMappings pm)[n := new_reg],
                     theAssignedRegisters := (theAssignedRegisters pm)[n := assigned @ [new_reg]],
                     theReverseMappings := (theReverseMappings pm)[new_reg := int n]\<rparr>,
                  new_reg, previous_reg)))))"

text \<open>
  \<open>free\<close> finds the register in the list of its name, but calls \<open>erase\<close> on the list at the
  index of the physical register. Past the end of the vector that list does not exist
  (\<open>OutOfRange\<close>); inside of it, the iterator belongs to another list unless the register has
  the number of its name (\<open>InvalidIterator\<close>). C++ defines neither.
\<close>

definition pm_free :: "PhysicalMap \<Rightarrow> pRegister \<Rightarrow> PhysicalMap result" where
  "pm_free pm r =
     rbind (lookup_vec (theReverseMappings pm) r) (\<lambda>arch_name.
     dbg_assert (0 \<le> arch_name \<and> arch_name < int (length (theAssignedRegisters pm)))
       (dbg_assert (r \<in> set (theAssignedRegisters pm ! nat arch_name))
          (rbind (lookup_vec (theAssignedRegisters pm) r) (\<lambda>assigned.
             if nat arch_name \<noteq> r then Inl InvalidIterator
             else Inr (pm\<lparr>theFreeList := theFreeList pm @ [r],
                     theReverseMappings := (theReverseMappings pm)[r := -1],
                     theAssignedRegisters :=
                       (theAssignedRegisters pm)[r := remove1 r assigned]\<rparr>)))))"

definition pm_restore :: "PhysicalMap \<Rightarrow> regName \<Rightarrow> pRegister \<Rightarrow> PhysicalMap result" where
  "pm_restore pm n r =
     (if n < length (theMappings pm) then Inr (pm\<lparr>theMappings := (theMappings pm)[n := r]\<rparr>)
      else Inl OutOfRange)"

text \<open>\<open>checkInvariants\<close> counts the occurrences of every register in the two tables.\<close>

definition bump :: "nat list result \<Rightarrow> nat \<Rightarrow> nat list result" where
  "bump cs r = rbind cs (\<lambda>cs. rbind (lookup_vec cs r) (\<lambda>c. Inr (cs[r := c + 1])))"

definition checkInvariants :: "PhysicalMap \<Rightarrow> bool result" where
  "checkInvariants pm =
     rbind (foldl bump (foldl bump (Inr (replicate (theRegisterCount pm) 0)) (theMappings pm))
              (theFreeList pm))
       (\<lambda>registers. Inr (\<not> (\<exists>c \<in> set registers. c > 1)))"

lemmas [op_defs] = pm_reset_def pm_new_def pm_map_def mapArchitectural_def pm_create_def
  pm_free_def pm_restore_def

section \<open>Invariant\<close>

text \<open>
  Every physical register is either free or assigned to exactly one name, the reverse
  mappings say which, and the current mapping of a name is one of its registers.
\<close>

definition pm_inv :: "PhysicalMap \<Rightarrow> bool" where
  "pm_inv pm \<longleftrightarrow>
     length (theMappings pm) = theNameCount pm \<and>
     length (theAssignedRegisters pm) = theNameCount pm \<and>
     length (theReverseMappings pm) = theRegisterCount pm \<and>
     mset (theFreeList pm) + mset (concat (theAssignedRegisters pm)) = mset [0..<theRegisterCount pm] \<and>
     (\<forall>r < theRegisterCount pm. \<forall>n < theNameCount pm.
        r \<in> set (theAssignedRegisters pm ! n) \<longleftrightarrow> theReverseMappings pm ! r = int n) \<and>
     (\<forall>r \<in> set (theFreeList pm). theReverseMappings pm ! r = -1) \<and>
     (\<forall>n < theNameCount pm. theMappings pm ! n \<in> set (theAssignedRegisters pm ! n))"

lemma pm_inv_lengths:
  assumes "pm_inv pm"
  shows "length (theMappings pm) = theNameCount pm"
    and "length (theAssignedRegisters pm) = theNameCount pm"
    and "length (theReverseMappings pm) = theRegisterCount pm"
  using assms by (simp_all add: pm_inv_def)

lemma pm_inv_set:
  assumes "pm_inv pm"
  shows "set (theFreeList pm) \<union> \<Union> (set ` set (theAssignedRegisters pm)) = {..<theRegisterCount pm}"
proof -
  have "set_mset (mset (theFreeList pm) + mset (concat (theAssignedRegisters pm))) =
      set_mset (mset [0..<theRegisterCount pm])"
    using assms by (simp add: pm_inv_def)
  then show ?thesis by (simp add: atLeast0LessThan)
qed

lemma pm_inv_distinct:
  assumes "pm_inv pm"
  shows "distinct (theFreeList pm @ concat (theAssignedRegisters pm))"
proof -
  have "mset (theFreeList pm @ concat (theAssignedRegisters pm)) = mset [0..<theRegisterCount pm]"
    using assms by (simp add: pm_inv_def)
  then show ?thesis by (metis distinct_upt mset_eq_imp_distinct_iff)
qed

lemma pm_inv_assigned_lt:
  assumes "pm_inv pm" "n < theNameCount pm" "r \<in> set (theAssignedRegisters pm ! n)"
  shows "r < theRegisterCount pm"
proof -
  have "theAssignedRegisters pm ! n \<in> set (theAssignedRegisters pm)"
    using assms(2) pm_inv_lengths(2) [OF assms(1)] by simp
  then have "r \<in> {..<theRegisterCount pm}"
    unfolding pm_inv_set [OF assms(1), symmetric] using assms(3) by blast
  then show ?thesis by simp
qed

lemma pm_inv_reverse:
  "pm_inv pm \<Longrightarrow> n < theNameCount pm \<Longrightarrow> r \<in> set (theAssignedRegisters pm ! n) \<Longrightarrow>
     theReverseMappings pm ! r = int n"
  using pm_inv_assigned_lt [of pm n r] by (auto simp: pm_inv_def)

lemma pm_inv_assigned_not_free:
  assumes "pm_inv pm" "n < theNameCount pm" "r \<in> set (theAssignedRegisters pm ! n)"
  shows "r \<notin> set (theFreeList pm)"
proof
  assume "r \<in> set (theFreeList pm)"
  then have "theReverseMappings pm ! r = -1" using assms(1) by (simp add: pm_inv_def)
  then show False using pm_inv_reverse [OF assms] by simp
qed

lemma pm_inv_mapping_lt:
  assumes "pm_inv pm" "n < theNameCount pm"
  shows "theMappings pm ! n < theRegisterCount pm"
proof -
  have "theMappings pm ! n \<in> set (theAssignedRegisters pm ! n)" using assms by (simp add: pm_inv_def)
  then show ?thesis by (rule pm_inv_assigned_lt [OF assms])
qed

lemma mset_concat_update:
  assumes "n < length xss"
  shows "mset (concat (xss[n := ys])) + mset (xss ! n) = mset (concat xss) + mset ys"
  using assms
proof (induction xss arbitrary: n)
  case (Cons xs xss)
  then show ?case by (cases n) (auto simp: ac_simps)
qed simp

lemma pm_new_ok:
  assumes "names \<le> regs"
  shows "\<exists>pm. pm_new names regs = Inr pm \<and> pm_inv pm \<and> theNameCount pm = names \<and>
    theRegisterCount pm = regs \<and> theFreeList pm = [names..<regs] \<and>
    (\<forall>n < names. theMappings pm ! n = n \<and> theAssignedRegisters pm ! n = [n])"
proof -
  have c: "concat (map (\<lambda>i. [i]) [0..<names]) = [0..<names]"
    by (induction names) simp_all
  have "mset [names..<regs] + mset [0..<names] = mset [0..<regs]"
    using assms by (metis add.commute le_add_diff_inverse mset_append upt_add_eq_append zero_le)
  then show ?thesis
    using assms by (auto simp: op_defs pm_inv_def Let_def c nth_append)
qed

lemma pm_inv_assigned_distinct:
  assumes "pm_inv pm" "n < theNameCount pm"
  shows "distinct (theAssignedRegisters pm ! n)"
  using pm_inv_distinct [OF assms(1)] assms(2) pm_inv_lengths(2) [OF assms(1)]
  by (simp add: distinct_concat_iff)

lemma mset_move: "X + A = Y + S \<Longrightarrow> A = S + {#r#} \<Longrightarrow> X + {#r#} = (Y :: 'a multiset)"
  by (simp flip: union_assoc add: union_commute [of _ S])

lemma pm_inv_free_lt:
  assumes "pm_inv pm" "r \<in> set (theFreeList pm)"
  shows "r < theRegisterCount pm"
proof -
  have "r \<in> {..<theRegisterCount pm}"
    unfolding pm_inv_set [OF assms(1), symmetric] using assms(2) by blast
  then show ?thesis by simp
qed

lemma pm_create_ok:
  assumes inv: "pm_inv pm" and n: "n < theNameCount pm" and f: "theFreeList pm = f # fs"
  shows "\<exists>pm'. pm_create pm n = Inr (pm', f, theMappings pm ! n) \<and> pm_inv pm' \<and>
    theNameCount pm' = theNameCount pm \<and> theRegisterCount pm' = theRegisterCount pm \<and>
    theFreeList pm' = fs \<and> theMappings pm' = (theMappings pm)[n := f] \<and>
    theAssignedRegisters pm' =
      (theAssignedRegisters pm)[n := theAssignedRegisters pm ! n @ [f]]"
proof -
  note len = pm_inv_lengths [OF inv]
  have f_lt: "f < theRegisterCount pm" using pm_inv_free_lt [OF inv] f by simp
  have f_rev: "theReverseMappings pm ! f = -1" using inv f by (simp add: pm_inv_def)
  have fs: "f \<notin> set fs" using pm_inv_distinct [OF inv] f by simp
  let ?pm = "pm\<lparr>theFreeList := fs, theMappings := (theMappings pm)[n := f],
    theAssignedRegisters := (theAssignedRegisters pm)[n := theAssignedRegisters pm ! n @ [f]],
    theReverseMappings := (theReverseMappings pm)[f := int n]\<rparr>"
  have "pm_create pm n = Inr (?pm, f, theMappings pm ! n)"
    using n f f_lt f_rev len by (simp add: pm_create_def lookup_vec_def)
  moreover have "pm_inv ?pm"
    unfolding pm_inv_def
  proof (intro conjI)
    have "mset (concat (theAssignedRegisters ?pm)) + mset (theAssignedRegisters pm ! n) =
        mset (concat (theAssignedRegisters pm)) + mset (theAssignedRegisters pm ! n @ [f])"
      using mset_concat_update [of n "theAssignedRegisters pm"] n len by simp
    then have "mset (concat (theAssignedRegisters ?pm)) =
        mset (concat (theAssignedRegisters pm)) + {#f#}"
      by simp
    then show "mset (theFreeList ?pm) + mset (concat (theAssignedRegisters ?pm)) =
        mset [0..<theRegisterCount ?pm]"
      using inv f by (simp add: pm_inv_def)
    show "\<forall>r < theRegisterCount ?pm. \<forall>m < theNameCount ?pm.
        r \<in> set (theAssignedRegisters ?pm ! m) \<longleftrightarrow> theReverseMappings ?pm ! r = int m"
    proof (intro allI impI)
      fix r m assume "r < theRegisterCount ?pm" "m < theNameCount ?pm"
      then have "r \<in> set (theAssignedRegisters pm ! m) \<longleftrightarrow> theReverseMappings pm ! r = int m"
        using inv by (simp add: pm_inv_def)
      then show "r \<in> set (theAssignedRegisters ?pm ! m) \<longleftrightarrow> theReverseMappings ?pm ! r = int m"
        using f_rev n f_lt len by (auto simp: nth_list_update)
    qed
  qed (use inv n f f_lt fs in \<open>auto simp: pm_inv_def nth_list_update\<close>)
  ultimately show ?thesis by auto
qed

lemma pm_restore_ok:
  assumes "pm_inv pm" "n < theNameCount pm" "r \<in> set (theAssignedRegisters pm ! n)"
  shows "\<exists>pm'. pm_restore pm n r = Inr pm' \<and> pm_inv pm' \<and>
    theNameCount pm' = theNameCount pm \<and> theRegisterCount pm' = theRegisterCount pm \<and>
    theFreeList pm' = theFreeList pm \<and> theMappings pm' = (theMappings pm)[n := r] \<and>
    theAssignedRegisters pm' = theAssignedRegisters pm"
  using assms by (auto simp: pm_restore_def pm_inv_def nth_list_update)

lemma pm_free_stuck:
  assumes inv: "pm_inv pm" and n: "n < theNameCount pm"
    and r: "r \<in> set (theAssignedRegisters pm ! n)" "r \<noteq> n"
  shows "pm_free pm r = Inl (if r < theNameCount pm then InvalidIterator else OutOfRange)"
proof -
  have "r < theRegisterCount pm" "theReverseMappings pm ! r = int n"
    using pm_inv_assigned_lt [OF inv n r(1)] pm_inv_reverse [OF inv n r(1)] by simp_all
  then show ?thesis
    using n r pm_inv_lengths [OF inv] by (simp add: pm_free_def lookup_vec_def)
qed

lemma pm_free_ok:
  assumes inv: "pm_inv pm" and n: "n < theNameCount pm"
    and r: "r \<in> set (theAssignedRegisters pm ! n)" "theMappings pm ! n \<noteq> r" and own: "r = n"
  shows "\<exists>pm'. pm_free pm r = Inr pm' \<and> pm_inv pm' \<and>
    theNameCount pm' = theNameCount pm \<and> theRegisterCount pm' = theRegisterCount pm \<and>
    theFreeList pm' = theFreeList pm @ [r] \<and> theMappings pm' = theMappings pm \<and>
    theAssignedRegisters pm' =
      (theAssignedRegisters pm)[n := remove1 r (theAssignedRegisters pm ! n)]"
proof -
  note len = pm_inv_lengths [OF inv]
  have r_lt: "r < theRegisterCount pm" by (rule pm_inv_assigned_lt [OF inv n r(1)])
  have r_rev: "theReverseMappings pm ! r = int n" by (rule pm_inv_reverse [OF inv n r(1)])
  have r_free: "r \<notin> set (theFreeList pm)" by (rule pm_inv_assigned_not_free [OF inv n r(1)])
  note dist = pm_inv_assigned_distinct [OF inv n]
  let ?pm = "pm\<lparr>theFreeList := theFreeList pm @ [r],
    theReverseMappings := (theReverseMappings pm)[r := -1],
    theAssignedRegisters :=
      (theAssignedRegisters pm)[n := remove1 r (theAssignedRegisters pm ! n)]\<rparr>"
  have "pm_free pm r = Inr ?pm"
    using n r r_lt r_rev len own by (simp add: pm_free_def lookup_vec_def)
  moreover have "pm_inv ?pm"
    unfolding pm_inv_def
  proof (intro conjI)
    have "mset (concat (theAssignedRegisters ?pm)) + mset (theAssignedRegisters pm ! n) =
        mset (concat (theAssignedRegisters pm)) + mset (remove1 r (theAssignedRegisters pm ! n))"
      using mset_concat_update [of n "theAssignedRegisters pm"] n len by simp
    moreover have "mset (theAssignedRegisters pm ! n) =
        mset (remove1 r (theAssignedRegisters pm ! n)) + {#r#}"
      using r(1) by simp
    ultimately have E: "mset (concat (theAssignedRegisters ?pm)) + {#r#} =
        mset (concat (theAssignedRegisters pm))"
      by (rule mset_move)
    have "mset (theFreeList pm) + mset (concat (theAssignedRegisters pm)) =
        mset [0..<theRegisterCount pm]"
      using inv by (simp add: pm_inv_def)
    then show "mset (theFreeList ?pm) + mset (concat (theAssignedRegisters ?pm)) =
        mset [0..<theRegisterCount ?pm]"
      unfolding E [symmetric] by simp
    show "\<forall>q < theRegisterCount ?pm. \<forall>m < theNameCount ?pm.
        q \<in> set (theAssignedRegisters ?pm ! m) \<longleftrightarrow> theReverseMappings ?pm ! q = int m"
    proof (intro allI impI)
      fix q m assume "q < theRegisterCount ?pm" "m < theNameCount ?pm"
      then have "q \<in> set (theAssignedRegisters pm ! m) \<longleftrightarrow> theReverseMappings pm ! q = int m"
        using inv by (simp add: pm_inv_def)
      then show "q \<in> set (theAssignedRegisters ?pm ! m) \<longleftrightarrow> theReverseMappings ?pm ! q = int m"
        using r_rev n r_lt len dist by (auto simp: nth_list_update)
    qed
    show "\<forall>m < theNameCount ?pm. theMappings ?pm ! m \<in> set (theAssignedRegisters ?pm ! m)"
      using inv r(2) n len dist by (auto simp: pm_inv_def nth_list_update)
    show "\<forall>q \<in> set (theFreeList ?pm). theReverseMappings ?pm ! q = -1"
      using inv r_lt r_free len by (auto simp: pm_inv_def nth_list_update)
  qed (use len in simp_all)
  ultimately show ?thesis by auto
qed

section \<open>The renaming protocol\<close>

text \<open>
  How the decoder uses the map (\<open>components/v9Decoder/Effects.cpp\<close>): \<open>MapDestinationEffect\<close>
  creates a mapping at dispatch and remembers the new and the previous register; at retirement
  \<open>FreeMappingEffect\<close> frees the previous register; a squashed instruction restores the
  previous mapping and frees the new register. Instructions retire oldest first and are
  squashed youngest first; the instructions in flight are listed oldest first.
\<close>

record mapping_effect =
  me_name :: regName
  me_new :: pRegister
  me_prev :: pRegister

type_synonym rename_state = "PhysicalMap \<times> mapping_effect list"

definition MapDestination :: "regName \<Rightarrow> rename_state \<Rightarrow> rename_state result" where
  "MapDestination n = (\<lambda>(pm, fl). rbind (pm_create pm n) (\<lambda>(pm', new, prev).
     Inr (pm', fl @ [\<lparr>me_name = n, me_new = new, me_prev = prev\<rparr>])))"

definition retire_mapping :: "rename_state \<Rightarrow> rename_state result" where
  "retire_mapping = (\<lambda>(pm, fl). case fl of [] \<Rightarrow> Inl OutOfRange
     | e # es \<Rightarrow> rbind (pm_free pm (me_prev e)) (\<lambda>pm'. Inr (pm', es)))"

definition squash_mapping :: "rename_state \<Rightarrow> rename_state result" where
  "squash_mapping = (\<lambda>(pm, fl). if fl = [] then Inl OutOfRange
     else let e = last fl in
       rbind (pm_restore pm (me_name e) (me_prev e)) (\<lambda>pm1.
       rbind (pm_free pm1 (me_new e)) (\<lambda>pm2. Inr (pm2, butlast fl))))"

inductive rename_step :: "rename_state \<Rightarrow> rename_state \<Rightarrow> bool" where
  dispatch: "MapDestination n s = Inr s' \<Longrightarrow> rename_step s s'"
| retire: "retire_mapping s = Inr s' \<Longrightarrow> rename_step s s'"
| squash: "squash_mapping s = Inr s' \<Longrightarrow> rename_step s s'"

inductive rename_reachable :: "nat \<Rightarrow> nat \<Rightarrow> rename_state \<Rightarrow> bool" for names regs where
  init: "pm_new names regs = Inr pm \<Longrightarrow> rename_reachable names regs (pm, [])"
| step: "rename_reachable names regs s \<Longrightarrow> rename_step s s' \<Longrightarrow> rename_reachable names regs s'"

definition of_name :: "regName \<Rightarrow> mapping_effect list \<Rightarrow> mapping_effect list" where
  "of_name n fl = filter (\<lambda>e. me_name e = n) fl"

text \<open>
  The registers of a name are its retired one followed by the new registers of the
  instructions in flight that write it, each of which remembers the one before it.
\<close>

definition name_inv :: "pRegister list \<Rightarrow> pRegister \<Rightarrow> mapping_effect list \<Rightarrow> bool" where
  "name_inv rs m es \<longleftrightarrow> rs = map me_prev es @ [m] \<and> tl rs = map me_new es"

definition rename_inv :: "nat \<Rightarrow> nat \<Rightarrow> rename_state \<Rightarrow> bool" where
  "rename_inv names regs = (\<lambda>(pm, fl).
     pm_inv pm \<and> theNameCount pm = names \<and> theRegisterCount pm = regs \<and>
     (\<forall>e \<in> set fl. me_name e < names) \<and>
     (\<forall>n < names. name_inv (theAssignedRegisters pm ! n) (theMappings pm ! n) (of_name n fl)))"

lemma of_name_simps [simp]:
  "of_name n [] = []"
  "of_name n (e # es) = (if me_name e = n then e # of_name n es else of_name n es)"
  "of_name n (es @ fs) = of_name n es @ of_name n fs"
  by (simp_all add: of_name_def)

lemma rename_inv_init: "names \<le> regs \<Longrightarrow> pm_new names regs = Inr pm \<Longrightarrow> rename_inv names regs (pm, [])"
  using pm_new_ok [of names regs] by (auto simp: rename_inv_def name_inv_def)

lemma name_inv_create:
  "name_inv rs m es \<Longrightarrow> name_inv (rs @ [f]) f (es @ [\<lparr>me_name = n, me_new = f, me_prev = m\<rparr>])"
  by (auto simp: name_inv_def tl_append split: list.splits)

lemma name_inv_retire:
  assumes "name_inv rs m (e # es)" "distinct rs"
  shows "me_prev e \<in> set rs \<and> m \<noteq> me_prev e \<and> name_inv (remove1 (me_prev e) rs) m es"
  using assms by (auto simp: name_inv_def)

lemma name_inv_squash:
  assumes "name_inv rs m (es @ [e])" "distinct rs"
  shows "me_prev e \<in> set rs \<and> me_new e \<in> set rs \<and> me_prev e \<noteq> me_new e \<and>
    name_inv (remove1 (me_new e) rs) (me_prev e) es \<and> hd (remove1 (me_new e) rs) = hd rs"
proof -
  let ?ps = "map me_prev es @ [me_prev e]"
  have rs: "rs = ?ps @ [m]" "tl rs = map me_new es @ [me_new e]"
    using assms(1) [unfolded name_inv_def, THEN conjunct1]
      assms(1) [unfolded name_inv_def, THEN conjunct2] by simp_all
  have "tl rs = tl ?ps @ [m]" unfolding rs(1) by (simp add: tl_append split: list.splits)
  then have "m = me_new e" "tl ?ps = map me_new es" using rs(2) by simp_all
  then show ?thesis
    using rs(1) assms(2) by (auto simp: name_inv_def remove1_append hd_append)
qed

lemma rename_inv_dispatch:
  assumes inv: "rename_inv names regs s" and n: "n < names" and f: "theFreeList (fst s) \<noteq> []"
  shows "\<exists>s'. MapDestination n s = Inr s' \<and> rename_inv names regs s' \<and>
    length (theFreeList (fst s)) = Suc (length (theFreeList (fst s'))) \<and>
    length (snd s') = Suc (length (snd s))"
proof -
  obtain pm fl where s: "s = (pm, fl)" by (cases s)
  obtain r rs where f: "theFreeList pm = r # rs" using f s by (auto simp: neq_Nil_conv)
  have pi: "pm_inv pm" "n < theNameCount pm" using inv n s by (auto simp: rename_inv_def)
  obtain pm' where c: "pm_create pm n = Inr (pm', r, theMappings pm ! n)" "pm_inv pm'"
    "theNameCount pm' = theNameCount pm" "theRegisterCount pm' = theRegisterCount pm"
    "theFreeList pm' = rs" "theMappings pm' = (theMappings pm)[n := r]"
    "theAssignedRegisters pm' =
      (theAssignedRegisters pm)[n := theAssignedRegisters pm ! n @ [r]]"
    using pm_create_ok [OF pi f] by blast
  show ?thesis
    using inv c pi f pm_inv_lengths [OF pi(1)]
    by (auto simp: s MapDestination_def rename_inv_def nth_list_update name_inv_create)
qed

text \<open>
  Retirement and squash depend on the register they free having the number of its name;
  otherwise they end in the undefined access of \<open>free\<close>.
\<close>

definition free_error :: "nat \<Rightarrow> pRegister \<Rightarrow> sim_error" where
  "free_error names r = (if r < names then InvalidIterator else OutOfRange)"

lemma rename_inv_retire:
  assumes inv: "rename_inv names regs s" and f: "snd s = e # es" and own: "me_prev e = me_name e"
  shows "\<exists>s'. retire_mapping s = Inr s' \<and> rename_inv names regs s' \<and>
    theFreeList (fst s') = theFreeList (fst s) @ [me_prev e] \<and> snd s' = es"
proof -
  obtain pm where s: "s = (pm, e # es)" using f by (cases s) auto
  let ?n = "me_name e"
  have pi: "pm_inv pm" "?n < theNameCount pm" "theNameCount pm = names"
    using inv s by (auto simp: rename_inv_def)
  have "name_inv (theAssignedRegisters pm ! ?n) (theMappings pm ! ?n) (e # of_name ?n es)"
    using inv s pi by (auto simp: rename_inv_def)
  note ni = name_inv_retire [OF this pm_inv_assigned_distinct [OF pi(1,2)]]
  obtain pm' where c: "pm_free pm (me_prev e) = Inr pm'" "pm_inv pm'"
    "theNameCount pm' = theNameCount pm" "theRegisterCount pm' = theRegisterCount pm"
    "theFreeList pm' = theFreeList pm @ [me_prev e]" "theMappings pm' = theMappings pm"
    "theAssignedRegisters pm' =
      (theAssignedRegisters pm)[?n := remove1 (me_prev e) (theAssignedRegisters pm ! ?n)]"
    using pm_free_ok [OF pi(1,2), of "me_prev e"] ni own by blast
  show ?thesis
    using inv c pi ni pm_inv_lengths [OF pi(1)]
    by (auto simp: s retire_mapping_def rename_inv_def nth_list_update)
qed

lemma rename_retire_stuck:
  assumes inv: "rename_inv names regs s" and f: "snd s = e # es" and own: "me_prev e \<noteq> me_name e"
  shows "retire_mapping s = Inl (free_error names (me_prev e))"
proof -
  obtain pm where s: "s = (pm, e # es)" using f by (cases s) auto
  let ?n = "me_name e"
  have pi: "pm_inv pm" "?n < theNameCount pm" "theNameCount pm = names"
    using inv s by (auto simp: rename_inv_def)
  have "name_inv (theAssignedRegisters pm ! ?n) (theMappings pm ! ?n) (e # of_name ?n es)"
    using inv s pi by (auto simp: rename_inv_def)
  note ni = name_inv_retire [OF this pm_inv_assigned_distinct [OF pi(1,2)]]
  show ?thesis
    using pm_free_stuck [OF pi(1,2), of "me_prev e"] ni own pi(3)
    by (simp add: s retire_mapping_def free_error_def)
qed

lemma rename_squash_restored:
  assumes inv: "rename_inv names regs s" and f: "snd s = es @ [e]"
  shows "\<exists>pm1. pm_restore (fst s) (me_name e) (me_prev e) = Inr pm1 \<and> pm_inv pm1 \<and>
    theNameCount pm1 = names \<and> theRegisterCount pm1 = regs \<and> me_name e < names \<and>
    theFreeList pm1 = theFreeList (fst s) \<and>
    theMappings pm1 = (theMappings (fst s))[me_name e := me_prev e] \<and>
    theAssignedRegisters pm1 = theAssignedRegisters (fst s) \<and>
    me_new e \<in> set (theAssignedRegisters pm1 ! me_name e) \<and>
    theMappings pm1 ! me_name e \<noteq> me_new e \<and>
    name_inv (remove1 (me_new e) (theAssignedRegisters (fst s) ! me_name e)) (me_prev e)
      (of_name (me_name e) es)"
proof -
  obtain pm where s: "s = (pm, es @ [e])" using f by (cases s) auto
  let ?n = "me_name e"
  have pi: "pm_inv pm" "?n < theNameCount pm" "theNameCount pm = names" "theRegisterCount pm = regs"
    using inv s by (auto simp: rename_inv_def)
  have "name_inv (theAssignedRegisters pm ! ?n) (theMappings pm ! ?n) (of_name ?n es @ [e])"
    using inv s pi by (auto simp: rename_inv_def)
  note ni = name_inv_squash [OF this pm_inv_assigned_distinct [OF pi(1,2)]]
  have "me_prev e \<in> set (theAssignedRegisters pm ! ?n)" using ni by simp
  from pm_restore_ok [OF pi(1,2) this] show ?thesis
    using ni pi pm_inv_lengths [OF pi(1)] s by auto
qed

lemma rename_inv_squash:
  assumes inv: "rename_inv names regs s" and f: "snd s = es @ [e]" and own: "me_new e = me_name e"
  shows "\<exists>s'. squash_mapping s = Inr s' \<and> rename_inv names regs s' \<and>
    theFreeList (fst s') = theFreeList (fst s) @ [me_new e] \<and> snd s' = es"
proof -
  obtain pm where s: "s = (pm, es @ [e])" using f by (cases s) auto
  let ?n = "me_name e"
  obtain pm1 where r: "pm_restore pm ?n (me_prev e) = Inr pm1" "pm_inv pm1"
    "theNameCount pm1 = names" "theRegisterCount pm1 = regs" "?n < names"
    "theFreeList pm1 = theFreeList pm" "theMappings pm1 = (theMappings pm)[?n := me_prev e]"
    "theAssignedRegisters pm1 = theAssignedRegisters pm"
    "me_new e \<in> set (theAssignedRegisters pm1 ! ?n)" "theMappings pm1 ! ?n \<noteq> me_new e"
    "name_inv (remove1 (me_new e) (theAssignedRegisters pm ! ?n)) (me_prev e) (of_name ?n es)"
    using rename_squash_restored [OF inv f] s by auto
  obtain pm2 where c: "pm_free pm1 (me_new e) = Inr pm2" "pm_inv pm2"
    "theNameCount pm2 = theNameCount pm1" "theRegisterCount pm2 = theRegisterCount pm1"
    "theFreeList pm2 = theFreeList pm1 @ [me_new e]" "theMappings pm2 = theMappings pm1"
    "theAssignedRegisters pm2 =
      (theAssignedRegisters pm1)[?n := remove1 (me_new e) (theAssignedRegisters pm1 ! ?n)]"
    using pm_free_ok [OF r(2), of ?n "me_new e"] r(3,5,9,10) own by auto
  have "length (theMappings pm) = names" "length (theAssignedRegisters pm) = names"
    using inv pm_inv_lengths [of pm] s by (auto simp: rename_inv_def)
  then show ?thesis
    using inv c r by (auto simp: s squash_mapping_def rename_inv_def nth_list_update)
qed

lemma rename_squash_stuck:
  assumes inv: "rename_inv names regs s" and f: "snd s = es @ [e]" and own: "me_new e \<noteq> me_name e"
  shows "squash_mapping s = Inl (free_error names (me_new e))"
proof -
  obtain pm where s: "s = (pm, es @ [e])" using f by (cases s) auto
  show ?thesis
    using rename_squash_restored [OF inv f] pm_free_stuck own s
    by (auto simp: squash_mapping_def free_error_def)
qed

lemma rename_reachable_inv:
  assumes "rename_reachable names regs s" "names \<le> regs"
  shows "rename_inv names regs s \<and> length (theFreeList (fst s)) + length (snd s) = regs - names"
  using assms
proof (induction rule: rename_reachable.induct)
  case (init pm)
  then show ?case using pm_new_ok [of names regs] rename_inv_init [of names regs pm] by auto
next
  case (step s s')
  then have inv: "rename_inv names regs s"
    and len: "length (theFreeList (fst s)) + length (snd s) = regs - names" by auto
  from step.hyps(2) show ?case
  proof cases
    case (dispatch n)
    then have "n < names \<and> theFreeList (fst s) \<noteq> []"
      using inv by (auto simp: MapDestination_def pm_create_def rename_inv_def pm_inv_def
          split: list.splits)
    then show ?thesis using rename_inv_dispatch [OF inv, of n] dispatch len by auto
  next
    case retire
    then obtain e es where "snd s = e # es"
      by (cases s) (auto simp: retire_mapping_def split: list.splits)
    moreover have "me_prev e = me_name e"
      using rename_retire_stuck [OF inv calculation] retire by auto
    ultimately show ?thesis using rename_inv_retire [OF inv] retire len by fastforce
  next
    case squash
    then obtain e es where "snd s = es @ [e]"
      by (cases s, cases "snd s" rule: rev_cases) (auto simp: squash_mapping_def)
    moreover have "me_new e = me_name e"
      using rename_squash_stuck [OF inv calculation] squash by auto
    ultimately show ?thesis using rename_inv_squash [OF inv] squash len by fastforce
  qed
qed

lemma bump_counts:
  assumes "\<forall>r \<in> set rs. r < length cs"
  shows "foldl bump (Inr cs) rs = Inr (map (\<lambda>i. cs ! i + count_list rs i) [0..<length cs])"
  using assms
proof (induction rs arbitrary: cs)
  case Nil
  then show ?case by (simp add: map_nth)
next
  case (Cons r rs)
  then show ?case
    by (auto simp: bump_def lookup_vec_def nth_list_update intro!: map_cong)
qed

lemma checkInvariants_counts:
  assumes "\<forall>r \<in> set (theMappings pm) \<union> set (theFreeList pm). r < theRegisterCount pm"
  shows "checkInvariants pm = Inr (\<forall>r < theRegisterCount pm.
     count_list (theMappings pm @ theFreeList pm) r \<le> 1)"
  using assms by (simp add: checkInvariants_def bump_counts) (auto simp: Ball_def)

lemma pm_inv_mappings_distinct:
  assumes "pm_inv pm"
  shows "distinct (theMappings pm @ theFreeList pm)"
proof -
  have "theMappings pm ! n \<noteq> theMappings pm ! m"
    if "n < theNameCount pm" "m < theNameCount pm" "n \<noteq> m" for n m
    using that assms pm_inv_reverse [OF assms, of n "theMappings pm ! n"]
      pm_inv_reverse [OF assms, of m "theMappings pm ! m"] by (auto simp: pm_inv_def)
  then have "distinct (theMappings pm)"
    using pm_inv_lengths [OF assms] by (simp add: distinct_conv_nth)
  moreover have "theMappings pm ! n \<notin> set (theFreeList pm)" if "n < theNameCount pm" for n
    using that assms pm_inv_reverse [OF assms, of n "theMappings pm ! n"] by (auto simp: pm_inv_def)
  ultimately show ?thesis
    using assms pm_inv_distinct [OF assms] pm_inv_lengths [OF assms] by (auto simp: in_set_conv_nth)
qed

lemma pm_inv_checkInvariants: "pm_inv pm \<Longrightarrow> checkInvariants pm = Inr True"
proof -
  assume inv: "pm_inv pm"
  have "\<forall>r \<in> set (theMappings pm). r < theRegisterCount pm"
    unfolding all_set_conv_all_nth pm_inv_lengths(1) [OF inv]
    using pm_inv_assigned_lt [OF inv] inv by (simp add: pm_inv_def)
  moreover have "count_list (theMappings pm @ theFreeList pm) r \<le> 1" for r
    using pm_inv_mappings_distinct [OF inv]
    by (metis count_list_0_iff count_mset distinct_count_atmost_1 le_numeral_extra(4) zero_le)
  ultimately show ?thesis
    using checkInvariants_counts [of pm] pm_inv_free_lt [OF inv] by auto
qed

section \<open>Properties\<close>

text \<open>
  C2: in every state the decoder can reach by dispatching, retiring (oldest first) and
  squashing (youngest first) instructions, as long as every \<open>free\<close> is one that C++ defines,
  each physical register is free or assigned to exactly one name, \<open>checkInvariants\<close>
  succeeds, and the free registers, the names and the instructions in flight add up to the
  number of registers.
\<close>

theorem rename_conservation:
  assumes "rename_reachable names regs (pm, fl)" "names \<le> regs"
  shows "checkInvariants pm = Inr True \<and>
    mset (theFreeList pm @ concat (theAssignedRegisters pm)) = mset [0..<regs] \<and>
    length (theFreeList pm) + names + length fl = regs"
  using rename_reachable_inv [OF assms] pm_inv_checkInvariants [of pm] assms(2)
  by (auto simp: rename_inv_def pm_inv_def)

text \<open>
  C32: the exact outcome of every step of renaming, in every state reached by steps that C++
  defines. Dispatch succeeds exactly for the names of the map while fewer instructions are in
  flight than there are spare registers. Retiring the oldest instruction succeeds exactly when
  the register it frees has the number of its name, and so does squashing the youngest;
  otherwise \<open>free\<close> indexes the lists by the physical register, past the end of the vector or
  with an iterator of another list.
\<close>

theorem rename_step_outcome:
  assumes "rename_reachable names regs (pm, fl)" "names \<le> regs"
  shows "((\<exists>s. MapDestination n (pm, fl) = Inr s) \<longleftrightarrow> n < names \<and> length fl < regs - names) \<and>
    (fl \<noteq> [] \<longrightarrow>
      (if me_prev (hd fl) = me_name (hd fl)
       then \<exists>pm'. retire_mapping (pm, fl) = Inr (pm', tl fl) \<and>
         theFreeList pm' = theFreeList pm @ [me_prev (hd fl)]
       else retire_mapping (pm, fl) = Inl (free_error names (me_prev (hd fl)))) \<and>
      (if me_new (last fl) = me_name (last fl)
       then \<exists>pm'. squash_mapping (pm, fl) = Inr (pm', butlast fl) \<and>
         theFreeList pm' = theFreeList pm @ [me_new (last fl)]
       else squash_mapping (pm, fl) = Inl (free_error names (me_new (last fl)))))"
proof -
  have inv: "rename_inv names regs (pm, fl)"
    and len: "length (theFreeList pm) + length fl = regs - names"
    using rename_reachable_inv [OF assms] by auto
  have "n < names \<and> theFreeList pm \<noteq> []" if "MapDestination n (pm, fl) = Inr s" for s
    using that inv by (auto simp: MapDestination_def pm_create_def rename_inv_def pm_inv_def
        split: list.splits)
  moreover have "theFreeList pm \<noteq> [] \<longleftrightarrow> length fl < regs - names"
    using len by (cases "theFreeList pm") auto
  ultimately have d: "(\<exists>s. MapDestination n (pm, fl) = Inr s) \<longleftrightarrow> n < names \<and> length fl < regs - names"
    using rename_inv_dispatch [OF inv, of n] by auto
  have r: "snd (pm, fl) = hd fl # tl fl" "snd (pm, fl) = butlast fl @ [last fl]" if "fl \<noteq> []"
    using that by simp_all
  show ?thesis
    using d rename_inv_retire [OF inv r(1)] rename_retire_stuck [OF inv r(1)]
      rename_inv_squash [OF inv r(2)] rename_squash_stuck [OF inv r(2)] by auto
qed

text \<open>
  A small map of two names and four registers, with one instruction in flight, as the state
  for the witnesses.
\<close>

lemma rename_reachable_example:
  "\<exists>pm fl. rename_reachable 2 4 (pm, fl) \<and> length fl = 1"
proof -
  obtain pm where pm: "pm_new 2 4 = Inr pm" using pm_new_ok [of 2 4] by auto
  then have r: "rename_reachable 2 4 (pm, [])" by (rule rename_reachable.init)
  have i: "rename_inv 2 4 (pm, [])" "length (theFreeList pm) = 2"
    using rename_reachable_inv [OF r] by auto
  then obtain pm' fl where d: "MapDestination 0 (pm, []) = Inr (pm', fl)" "length fl = 1"
    using rename_inv_dispatch [OF i(1), of 0] by fastforce
  then have "rename_reachable 2 4 (pm', fl)"
    using rename_reachable.step [OF r rename_step.dispatch] by blast
  with d(2) show ?thesis by blast
qed

theorem rename_conservation_witness:
  "\<exists>pm (fl :: mapping_effect list). checkInvariants pm = Inr True \<and>
    mset (theFreeList pm @ concat (theAssignedRegisters pm)) = mset [0..<4] \<and>
    length (theFreeList pm) + 2 + length fl = 4 \<and> length fl = 1"
proof -
  obtain pm fl where r: "rename_reachable 2 4 (pm, fl)" "length fl = 1"
    using rename_reachable_example by blast
  have "(2 :: nat) \<le> 4" by simp
  from rename_conservation [OF r(1) this] r(2) show ?thesis by blast
qed

text \<open>
  Two names and four registers: the first write of name 0 can be retired but not squashed.
\<close>

theorem rename_step_outcome_witness:
  "\<exists>pm pm'. rename_reachable 2 4 (pm, [\<lparr>me_name = 0, me_new = 2, me_prev = 0\<rparr>]) \<and>
    (\<exists>s. MapDestination 1 (pm, [\<lparr>me_name = 0, me_new = 2, me_prev = 0\<rparr>]) = Inr s) \<and>
    retire_mapping (pm, [\<lparr>me_name = 0, me_new = 2, me_prev = 0\<rparr>]) = Inr (pm', []) \<and>
    squash_mapping (pm, [\<lparr>me_name = 0, me_new = 2, me_prev = 0\<rparr>]) = Inl OutOfRange"
proof -
  let ?fl = "[\<lparr>me_name = 0, me_new = 2, me_prev = 0\<rparr>]"
  obtain pm where pm: "pm_new 2 4 = Inr pm" using pm_new_ok [of 2 4] by auto
  then have "\<exists>pm'. MapDestination 0 (pm, []) = Inr (pm', ?fl)"
    using pm_new_ok [of 2 4] by (auto simp: MapDestination_def pm_create_def op_defs eval_nat_numeral)
  then obtain pm' where "rename_reachable 2 4 (pm', ?fl)"
    using rename_reachable.init [OF pm] rename_reachable.step rename_step.dispatch by blast
  with rename_step_outcome [OF this, of 1] show ?thesis
    by (auto simp: free_error_def)
qed

end
