(* ===== verification/Register_File.thy ===== *)
theory Register_File
  imports V9_Alu
begin

text \<open>
  The physical register file, \<open>components/uArch/RegisterFile.hpp\<close>, and the bypass network,
  \<open>components/uArch/BypassNetwork.hpp\<close>. A vector of vectors is a list of lists indexed by the
  register type and the register number; an access outside is the error \<open>OutOfRange\<close>. A
  dependence refers to its instruction by a number, and whether an instruction is complete is
  a predicate on these numbers, an argument of the operations that ask for it. The callbacks
  \<open>satisfy\<close>, \<open>squash\<close> and the bypass functions belong to the instructions: the operations
  return the dependences whose callback they call, in order.
\<close>

section \<open>Values, statuses and indexing\<close>

datatype register_value = RV64 u64 | RVcc bitset8

datatype eResourceStatus = kReady | kUnmapped | kNotReady

record InstructionDependance =
  dep_instruction :: nat
  dep_callback :: nat

primrec type_index :: "eRegisterType \<Rightarrow> nat" where
  "type_index rRegisters = 0"
| "type_index fRegisters = 1"
| "type_index ccBits = 2"

type_synonym 'a vec2 = "'a list list"

definition at2 :: "'a vec2 \<Rightarrow> reg \<Rightarrow> 'a result" where
  "at2 xss r = rbind (lookup_vec xss (type_index (theType r)))
     (\<lambda>xs. lookup_vec xs (unat (theIndex r)))"

definition put2 :: "reg \<Rightarrow> 'a \<Rightarrow> 'a vec2 \<Rightarrow> 'a vec2 result" where
  "put2 r v xss = rbind (at2 xss r) (\<lambda>_.
     Inr (let t = type_index (theType r) in xss[t := (xss ! t)[unat (theIndex r) := v]]))"

section \<open>Register file\<close>

record RegisterFile =
  theDependances :: "InstructionDependance list vec2"
  theStatus :: "eResourceStatus vec2"
  theRegs :: "register_value vec2"
  theCollectCounts :: "int vec2"

definition rf_reset :: "RegisterFile \<Rightarrow> RegisterFile" where
  "rf_reset rf = rf\<lparr>
     theDependances := map (map (\<lambda>_. [])) (theDependances rf),
     theStatus := map (map (\<lambda>_. kUnmapped)) (theStatus rf),
     theRegs := map (map (\<lambda>_. RV64 0)) (theRegs rf)\<rparr>"

definition rf_initialize :: "nat list \<Rightarrow> RegisterFile" where
  "rf_initialize aSizes = rf_reset \<lparr>
     theDependances = map (\<lambda>n. replicate n []) aSizes,
     theStatus = map (\<lambda>n. replicate n kReady) aSizes,
     theRegs = map (\<lambda>n. replicate n (RV64 0)) aSizes,
     theCollectCounts = map (\<lambda>n. replicate n 10) aSizes\<rparr>"

definition drop_complete ::
    "(nat \<Rightarrow> bool) \<Rightarrow> InstructionDependance list \<Rightarrow> InstructionDependance list" where
  "drop_complete isComplete ds = filter (\<lambda>d. \<not> isComplete (dep_instruction d)) ds"

definition rf_collectAll :: "(nat \<Rightarrow> bool) \<Rightarrow> RegisterFile \<Rightarrow> RegisterFile" where
  "rf_collectAll isComplete rf = rf\<lparr>
     theCollectCounts := map2 (\<lambda>ds cs. replicate (length ds) 10 @ drop (length ds) cs)
       (theDependances rf) (theCollectCounts rf) @
       drop (length (theDependances rf)) (theCollectCounts rf),
     theDependances := map (map (drop_complete isComplete)) (theDependances rf)\<rparr>"

definition rf_collect :: "(nat \<Rightarrow> bool) \<Rightarrow> reg \<Rightarrow> RegisterFile \<Rightarrow> RegisterFile result" where
  "rf_collect isComplete r rf =
     rbind (at2 (theCollectCounts rf) r) (\<lambda>c.
     if c - 1 \<le> 0 then
       rbind (put2 r 10 (theCollectCounts rf)) (\<lambda>counts.
       rbind (at2 (theDependances rf) r) (\<lambda>ds.
       rbind (put2 r (drop_complete isComplete ds) (theDependances rf)) (\<lambda>deps.
         Inr (rf\<lparr>theCollectCounts := counts, theDependances := deps\<rparr>))))
     else rbind (put2 r (c - 1) (theCollectCounts rf)) (\<lambda>counts.
       Inr (rf\<lparr>theCollectCounts := counts\<rparr>)))"

definition rf_setStatus :: "reg \<Rightarrow> eResourceStatus \<Rightarrow> RegisterFile \<Rightarrow> RegisterFile result" where
  "rf_setStatus r s rf = rbind (put2 r s (theStatus rf)) (\<lambda>st. Inr (rf\<lparr>theStatus := st\<rparr>))"

definition rf_status :: "reg \<Rightarrow> RegisterFile \<Rightarrow> eResourceStatus result" where
  "rf_status r rf = at2 (theStatus rf) r"

definition rf_map :: "reg \<Rightarrow> RegisterFile \<Rightarrow> RegisterFile result" where
  "rf_map r rf = rbind (rf_setStatus r kNotReady rf) (\<lambda>rf'.
     rbind (at2 (theDependances rf') r) (\<lambda>ds. dbg_assert (ds = []) (Inr rf')))"

definition rf_squash ::
    "reg \<Rightarrow> RegisterFile \<Rightarrow> (RegisterFile \<times> InstructionDependance list) result" where
  "rf_squash r rf = rbind (rf_status r rf) (\<lambda>s.
     rbind (if s \<noteq> kUnmapped then rf_setStatus r kNotReady rf else Inr rf) (\<lambda>rf'.
     rbind (at2 (theDependances rf') r) (\<lambda>ds. Inr (rf', ds))))"

definition rf_unmap :: "reg \<Rightarrow> RegisterFile \<Rightarrow> RegisterFile result" where
  "rf_unmap r rf = rbind (rf_setStatus r kUnmapped rf) (\<lambda>rf'.
     rbind (put2 r [] (theDependances rf')) (\<lambda>ds. Inr (rf'\<lparr>theDependances := ds\<rparr>)))"

definition rf_request ::
    "(nat \<Rightarrow> bool) \<Rightarrow> reg \<Rightarrow> InstructionDependance \<Rightarrow> RegisterFile \<Rightarrow>
     (RegisterFile \<times> eResourceStatus) result" where
  "rf_request isComplete r d rf =
     rbind (rf_collect isComplete r rf) (\<lambda>rf'.
     rbind (at2 (theDependances rf') r) (\<lambda>ds.
     rbind (put2 r (ds @ [d]) (theDependances rf')) (\<lambda>deps.
     rbind (rf_status r rf') (\<lambda>s. Inr (rf'\<lparr>theDependances := deps\<rparr>, s)))))"

definition rf_poke :: "reg \<Rightarrow> register_value \<Rightarrow> RegisterFile \<Rightarrow> RegisterFile result" where
  "rf_poke r v rf = rbind (put2 r v (theRegs rf)) (\<lambda>vs. Inr (rf\<lparr>theRegs := vs\<rparr>))"

definition rf_peek :: "reg \<Rightarrow> RegisterFile \<Rightarrow> register_value result" where
  "rf_peek r rf = at2 (theRegs rf) r"

definition rf_read :: "reg \<Rightarrow> RegisterFile \<Rightarrow> register_value result" where
  "rf_read r rf = rbind (rf_status r rf) (\<lambda>s. dbg_assert (s = kReady) (rf_peek r rf))"

text \<open>
  \<open>write\<close> walks over the dependences, erases those of complete instructions and calls
  \<open>satisfy\<close> on the others; the second result lists the satisfied ones.
\<close>

fun write_walk :: "(nat \<Rightarrow> bool) \<Rightarrow> InstructionDependance list \<Rightarrow>
    InstructionDependance list \<times> InstructionDependance list" where
  "write_walk isComplete [] = ([], [])"
| "write_walk isComplete (d # ds) =
     (let (kept, sat) = write_walk isComplete ds in
      if isComplete (dep_instruction d) then (kept, sat) else (d # kept, d # sat))"

definition rf_write :: "(nat \<Rightarrow> bool) \<Rightarrow> reg \<Rightarrow> register_value \<Rightarrow> RegisterFile \<Rightarrow>
    (RegisterFile \<times> InstructionDependance list) result" where
  "rf_write isComplete r v rf =
     rbind (rf_poke r v rf) (\<lambda>rf1.
     rbind (rf_setStatus r kReady rf1) (\<lambda>rf2.
     rbind (at2 (theDependances rf2) r) (\<lambda>ds.
     let (kept, sat) = write_walk isComplete ds in
     rbind (put2 r kept (theDependances rf2)) (\<lambda>deps.
       Inr (rf2\<lparr>theDependances := deps\<rparr>, sat)))))"

section \<open>Bypass network\<close>

text \<open>
  A bypass function takes the value and says whether it is done with it; which functions do
  is an argument of \<open>write\<close>.
\<close>

record BypassNetwork =
  theRRegs :: nat
  theFRegs :: nat
  theCCRegs :: nat
  theDeps :: "InstructionDependance list vec2"
  theCounts :: "int vec2"

definition bn_reset :: "BypassNetwork \<Rightarrow> BypassNetwork" where
  "bn_reset bn = bn\<lparr>
     theDeps := map (\<lambda>n. replicate n []) [theRRegs bn, theFRegs bn, theCCRegs bn],
     theCounts := map (\<lambda>n. replicate n 10) [theRRegs bn, theFRegs bn, theCCRegs bn]\<rparr>"

definition bn_new :: "nat \<Rightarrow> nat \<Rightarrow> nat \<Rightarrow> BypassNetwork" where
  "bn_new r f c = bn_reset
     \<lparr>theRRegs = r, theFRegs = f, theCCRegs = c, theDeps = [], theCounts = []\<rparr>"

definition bn_collect :: "(nat \<Rightarrow> bool) \<Rightarrow> reg \<Rightarrow> BypassNetwork \<Rightarrow> BypassNetwork result" where
  "bn_collect isComplete r bn =
     rbind (at2 (theCounts bn) r) (\<lambda>c.
     if c - 1 \<le> 0 then
       rbind (put2 r 10 (theCounts bn)) (\<lambda>counts.
       rbind (at2 (theDeps bn) r) (\<lambda>ds.
       rbind (put2 r (drop_complete isComplete ds) (theDeps bn)) (\<lambda>deps.
         Inr (bn\<lparr>theCounts := counts, theDeps := deps\<rparr>))))
     else rbind (put2 r (c - 1) (theCounts bn)) (\<lambda>counts. Inr (bn\<lparr>theCounts := counts\<rparr>)))"

definition bn_collectAll :: "(nat \<Rightarrow> bool) \<Rightarrow> BypassNetwork \<Rightarrow> BypassNetwork" where
  "bn_collectAll isComplete bn = bn\<lparr>
     theCounts := map (map (\<lambda>_. 10)) (theCounts bn),
     theDeps := map (map (drop_complete isComplete)) (theDeps bn)\<rparr>"

definition bn_connect ::
    "(nat \<Rightarrow> bool) \<Rightarrow> reg \<Rightarrow> InstructionDependance \<Rightarrow> BypassNetwork \<Rightarrow> BypassNetwork result" where
  "bn_connect isComplete r d bn =
     rbind (bn_collect isComplete r bn) (\<lambda>bn'.
     rbind (at2 (theDeps bn') r) (\<lambda>ds.
     rbind (put2 r (ds @ [d]) (theDeps bn')) (\<lambda>deps. Inr (bn'\<lparr>theDeps := deps\<rparr>))))"

definition bn_unmap :: "reg \<Rightarrow> BypassNetwork \<Rightarrow> BypassNetwork result" where
  "bn_unmap r bn = rbind (put2 r [] (theDeps bn)) (\<lambda>deps. Inr (bn\<lparr>theDeps := deps\<rparr>))"

fun bypass_walk :: "(InstructionDependance \<Rightarrow> register_value \<Rightarrow> bool) \<Rightarrow> register_value \<Rightarrow>
    InstructionDependance list \<Rightarrow> InstructionDependance list" where
  "bypass_walk fn v [] = []"
| "bypass_walk fn v (d # ds) =
     (if fn d v then bypass_walk fn v ds else d # bypass_walk fn v ds)"

definition bn_write :: "(InstructionDependance \<Rightarrow> register_value \<Rightarrow> bool) \<Rightarrow> reg \<Rightarrow> register_value \<Rightarrow>
    BypassNetwork \<Rightarrow> (BypassNetwork \<times> InstructionDependance list) result" where
  "bn_write fn r v bn =
     rbind (at2 (theDeps bn) r) (\<lambda>ds.
     rbind (put2 r (bypass_walk fn v ds) (theDeps bn)) (\<lambda>deps.
       Inr (bn\<lparr>theDeps := deps\<rparr>, ds)))"

section \<open>Two dimensional vectors\<close>

definition in2 :: "'a vec2 \<Rightarrow> reg \<Rightarrow> bool" where
  "in2 xss r \<longleftrightarrow> type_index (theType r) < length xss \<and>
     unat (theIndex r) < length (xss ! type_index (theType r))"

lemma type_index_eq [simp]: "type_index a = type_index b \<longleftrightarrow> a = b"
  by (cases a; cases b) simp_all

lemma at2_in: "in2 xss r \<longleftrightarrow> (\<exists>v. at2 xss r = Inr v)"
  by (auto simp: in2_def at2_def)

lemma at2_eq: "in2 xss r \<Longrightarrow> at2 xss r = Inr (xss ! type_index (theType r) ! unat (theIndex r))"
  by (auto simp: in2_def at2_def lookup_vec_def)

lemma put2_in: "in2 xss r \<Longrightarrow> \<exists>yss. put2 r v xss = Inr yss"
  by (simp add: put2_def at2_eq)

lemma put2_at2:
  assumes "put2 r v xss = Inr yss"
  shows "at2 yss q = (if q = r then Inr v else at2 xss q)" and "in2 yss = in2 xss"
proof -
  have i: "in2 xss r" and y: "yss = (let t = type_index (theType r) in
      xss[t := (xss ! t)[unat (theIndex r) := v]])"
    using assms by (auto simp: put2_def at2_in)
  show "in2 yss = in2 xss"
    using i by (intro ext) (auto simp: y in2_def nth_list_update Let_def)
  show "at2 yss q = (if q = r then Inr v else at2 xss q)"
    using i by (cases q; cases r)
      (auto simp: y at2_def in2_def lookup_vec_def nth_list_update Let_def word_unat_eq_iff)
qed

lemma write_walk_filter:
  "write_walk isComplete ds = (drop_complete isComplete ds, drop_complete isComplete ds)"
  by (induction ds) (auto simp: drop_complete_def)

lemma bypass_walk_filter: "bypass_walk fn v ds = filter (\<lambda>d. \<not> fn d v) ds"
  by (induction ds) auto

section \<open>Register file operations\<close>

text \<open>All four tables of a register file have the same shape.\<close>

definition rf_has :: "RegisterFile \<Rightarrow> reg \<Rightarrow> bool" where
  "rf_has rf r \<longleftrightarrow> in2 (theDependances rf) r \<and> in2 (theStatus rf) r \<and> in2 (theRegs rf) r \<and>
     in2 (theCollectCounts rf) r"

lemma rf_write_ok:
  assumes "rf_has rf r"
  shows "\<exists>rf' sat. rf_write isComplete r v rf = Inr (rf', sat) \<and> rf_has rf' = rf_has rf \<and>
    (\<forall>q. rf_peek q rf' = (if q = r then Inr v else rf_peek q rf)) \<and>
    (\<forall>q. rf_status q rf' = (if q = r then Inr kReady else rf_status q rf)) \<and>
    (\<exists>ds. at2 (theDependances rf) r = Inr ds \<and> sat = drop_complete isComplete ds \<and>
      at2 (theDependances rf') r = Inr sat)"
proof -
  obtain vs where vs: "put2 r v (theRegs rf) = Inr vs"
    using assms put2_in [of "theRegs rf" r v] by (auto simp: rf_has_def)
  obtain st where st: "put2 r kReady (theStatus rf) = Inr st"
    using assms put2_in [of "theStatus rf" r kReady] by (auto simp: rf_has_def)
  obtain ds where ds: "at2 (theDependances rf) r = Inr ds"
    using assms by (auto simp: rf_has_def at2_in)
  obtain dp where dp: "put2 r (drop_complete isComplete ds) (theDependances rf) = Inr dp"
    using assms put2_in [of "theDependances rf" r] by (auto simp: rf_has_def)
  show ?thesis
    using put2_at2 [OF vs] put2_at2 [OF st] put2_at2 [OF dp]
    by (auto simp: rf_write_def rf_poke_def rf_setStatus_def rf_peek_def rf_status_def rf_has_def
        vs st ds dp write_walk_filter)
qed

lemma rf_setStatus_ok:
  assumes "rf_has rf r"
  shows "\<exists>rf'. rf_setStatus r s rf = Inr rf' \<and> rf_has rf' = rf_has rf \<and>
    theDependances rf' = theDependances rf \<and> theRegs rf' = theRegs rf \<and>
    (\<forall>q. rf_status q rf' = (if q = r then Inr s else rf_status q rf))"
proof -
  obtain st where st: "put2 r s (theStatus rf) = Inr st"
    using assms put2_in [of "theStatus rf" r s] by (auto simp: rf_has_def)
  show ?thesis
    using put2_at2 [OF st] by (auto simp: rf_setStatus_def rf_status_def rf_has_def st)
qed

lemma rf_map_ok:
  assumes "rf_has rf r" "at2 (theDependances rf) r = Inr []"
  shows "\<exists>rf'. rf_map r rf = Inr rf' \<and> rf_has rf' = rf_has rf \<and>
    theDependances rf' = theDependances rf \<and> theRegs rf' = theRegs rf \<and>
    (\<forall>q. rf_status q rf' = (if q = r then Inr kNotReady else rf_status q rf))"
  using rf_setStatus_ok [OF assms(1), of kNotReady] assms(2) by (auto simp: rf_map_def)

lemma rf_unmap_ok:
  assumes "rf_has rf r"
  shows "\<exists>rf'. rf_unmap r rf = Inr rf' \<and> rf_has rf' = rf_has rf \<and> theRegs rf' = theRegs rf \<and>
    (\<forall>q. at2 (theDependances rf') q = (if q = r then Inr [] else at2 (theDependances rf) q)) \<and>
    (\<forall>q. rf_status q rf' = (if q = r then Inr kUnmapped else rf_status q rf))"
proof -
  obtain rf1 where rf1: "rf_setStatus r kUnmapped rf = Inr rf1" "rf_has rf1 = rf_has rf"
    "theDependances rf1 = theDependances rf" "theRegs rf1 = theRegs rf"
    "\<forall>q. rf_status q rf1 = (if q = r then Inr kUnmapped else rf_status q rf)"
    using rf_setStatus_ok [OF assms] by blast
  obtain dp where dp: "put2 r [] (theDependances rf) = Inr dp"
    using assms put2_in [of "theDependances rf" r "[]"] by (auto simp: rf_has_def)
  have h: "rf_has (rf1\<lparr>theDependances := dp\<rparr>) = rf_has rf"
    using put2_at2(2) [OF dp] rf1(2,3) by (auto simp: rf_has_def fun_eq_iff)
  show ?thesis
    using put2_at2 [OF dp] rf1 h by (auto simp: rf_unmap_def dp rf_status_def)
qed

section \<open>Properties\<close>

text \<open>
  C35: after \<open>write\<close> of a value to a register, \<open>read\<close> returns that value, every other register
  keeps its value and status, and of the waiting dependences exactly those of incomplete
  instructions are satisfied, in order, and stay queued.
\<close>

theorem register_write_read:
  assumes "rf_has rf r"
  shows "\<exists>rf' sat ds. rf_write isComplete r v rf = Inr (rf', sat) \<and> rf_read r rf' = Inr v \<and>
    (\<forall>q. q \<noteq> r \<longrightarrow> rf_peek q rf' = rf_peek q rf \<and> rf_status q rf' = rf_status q rf) \<and>
    at2 (theDependances rf) r = Inr ds \<and>
    sat = filter (\<lambda>d. \<not> isComplete (dep_instruction d)) ds \<and>
    at2 (theDependances rf') r = Inr sat"
  using rf_write_ok [OF assms, of isComplete v] by (fastforce simp: rf_read_def drop_complete_def)

theorem register_write_read_witness:
  "\<exists>rf' sat ds. rf_write (\<lambda>_. False) \<lparr>theType = rRegisters, theIndex = 1\<rparr> (RV64 7)
      (rf_initialize [2, 2, 2]) = Inr (rf', sat) \<and>
    rf_read \<lparr>theType = rRegisters, theIndex = 1\<rparr> rf' = Inr (RV64 7) \<and>
    at2 (theDependances (rf_initialize [2, 2, 2])) \<lparr>theType = rRegisters, theIndex = 1\<rparr> = Inr ds \<and>
    sat = filter (\<lambda>d. \<not> False) ds"
proof -
  have "rf_has (rf_initialize [2, 2, 2]) \<lparr>theType = rRegisters, theIndex = 1\<rparr>"
    by (simp add: rf_has_def in2_def rf_initialize_def rf_reset_def)
  from register_write_read [OF this, of "\<lambda>_. False" "RV64 7"] show ?thesis by blast
qed

end
