(* ===== verification/Core_Registers.thy ===== *)
theory Core_Registers
  imports Reg_Window Phys_Map Register_File
begin

text \<open>
  The register state of a core: \<open>components/uArch/CoreModel/registers.cpp\<close>. It puts the
  window maps, the three physical maps, the register file and the bypass network together,
  and holds the window counters and the floating point state register. The vector
  \<open>theMapTables\<close> has one entry per register type and is a function on the types here.
\<close>

section \<open>State\<close>

record CoreImpl =
  theWindowMap :: RegisterWindowMap
  theArchitecturalWindowMap :: RegisterWindowMap
  theMapTables :: "eRegisterType \<Rightarrow> PhysicalMap"
  theRegisters :: RegisterFile
  theBypassNetwork :: BypassNetwork
  theCANSAVE :: u32
  theCANRESTORE :: u32
  theCLEANWIN :: u32
  theOTHERWIN :: u32
  theFSR :: u64
  theRoundingMode :: u32

abbreviation mk_reg :: "eRegisterType \<Rightarrow> u32 \<Rightarrow> reg" where
  "mk_reg t i \<equiv> \<lparr>theType = t, theIndex = i\<rparr>"

fun rv_get_u64 :: "register_value \<Rightarrow> u64 result" where
  "rv_get_u64 (RV64 v) = Inr v"
| "rv_get_u64 _ = Inl BadGet"

fun rv_get_cc :: "register_value \<Rightarrow> bitset8 result" where
  "rv_get_cc (RVcc v) = Inr v"
| "rv_get_cc _ = Inl BadGet"

section \<open>Registers\<close>

definition core_bypass :: "(InstructionDependance \<Rightarrow> register_value \<Rightarrow> bool) \<Rightarrow> reg \<Rightarrow>
    register_value \<Rightarrow> CoreImpl \<Rightarrow> (CoreImpl \<times> InstructionDependance list) result" where
  "core_bypass fn r v c = rbind (bn_write fn r v (theBypassNetwork c)) (\<lambda>(bn, called).
     Inr (c\<lparr>theBypassNetwork := bn\<rparr>, called))"

definition connectBypass ::
    "(nat \<Rightarrow> bool) \<Rightarrow> reg \<Rightarrow> InstructionDependance \<Rightarrow> CoreImpl \<Rightarrow> CoreImpl result" where
  "connectBypass isComplete r d c =
     rbind (bn_connect isComplete r d (theBypassNetwork c)) (\<lambda>bn.
       Inr (c\<lparr>theBypassNetwork := bn\<rparr>))"

definition mapRegister :: "reg \<Rightarrow> CoreImpl \<Rightarrow> CoreImpl result" where
  "mapRegister r c = rbind (rf_status r (theRegisters c)) (\<lambda>status.
     dbg_assert (status = kUnmapped)
       (rbind (rf_map r (theRegisters c)) (\<lambda>rf. Inr (c\<lparr>theRegisters := rf\<rparr>))))"

definition unmapRegister :: "reg \<Rightarrow> CoreImpl \<Rightarrow> CoreImpl result" where
  "unmapRegister r c = rbind (rf_status r (theRegisters c)) (\<lambda>status.
     dbg_assert (status \<noteq> kUnmapped)
       (rbind (rf_unmap r (theRegisters c)) (\<lambda>rf.
        rbind (bn_unmap r (theBypassNetwork c)) (\<lambda>bn.
          Inr (c\<lparr>theRegisters := rf, theBypassNetwork := bn\<rparr>)))))"

definition requestRegister :: "(nat \<Rightarrow> bool) \<Rightarrow> reg \<Rightarrow> InstructionDependance \<Rightarrow> CoreImpl \<Rightarrow>
    (CoreImpl \<times> eResourceStatus) result" where
  "requestRegister isComplete r d c =
     rbind (rf_request isComplete r d (theRegisters c)) (\<lambda>(rf, s).
       Inr (c\<lparr>theRegisters := rf\<rparr>, s))"

definition requestRegister_status :: "reg \<Rightarrow> CoreImpl \<Rightarrow> eResourceStatus result" where
  "requestRegister_status r c = rf_status r (theRegisters c)"

definition squashRegister ::
    "reg \<Rightarrow> CoreImpl \<Rightarrow> (CoreImpl \<times> InstructionDependance list) result" where
  "squashRegister r c = rbind (rf_squash r (theRegisters c)) (\<lambda>(rf, ds).
     Inr (c\<lparr>theRegisters := rf\<rparr>, ds))"

definition readRegister :: "reg \<Rightarrow> CoreImpl \<Rightarrow> register_value result" where
  "readRegister r c = rf_read r (theRegisters c)"

definition readArchitecturalRegister :: "reg \<Rightarrow> bool \<Rightarrow> CoreImpl \<Rightarrow> register_value result" where
  "readArchitecturalRegister aRegister aRotate c =
     (let r = (if aRotate then rotate (theArchitecturalWindowMap c) aRegister else aRegister) in
      rbind (mapArchitectural (theMapTables c (theType r)) (unat (theIndex r))) (\<lambda>p.
        rf_peek (mk_reg (theType r) (of_nat p)) (theRegisters c)))"

definition writeRegister :: "(nat \<Rightarrow> bool) \<Rightarrow> reg \<Rightarrow> register_value \<Rightarrow> CoreImpl \<Rightarrow>
    (CoreImpl \<times> InstructionDependance list) result" where
  "writeRegister isComplete r v c =
     rbind (rf_write isComplete r v (theRegisters c)) (\<lambda>(rf, sat).
       Inr (c\<lparr>theRegisters := rf\<rparr>, sat))"

definition initializeRegister :: "reg \<Rightarrow> register_value \<Rightarrow> CoreImpl \<Rightarrow> CoreImpl result" where
  "initializeRegister r v c =
     rbind (rf_poke r v (theRegisters c)) (\<lambda>rf.
     rbind (rf_setStatus r kReady rf) (\<lambda>rf. Inr (c\<lparr>theRegisters := rf\<rparr>)))"

definition copyRegValue :: "reg \<Rightarrow> reg \<Rightarrow> CoreImpl \<Rightarrow> CoreImpl result" where
  "copyRegValue aSource aDest c =
     rbind (rf_peek aSource (theRegisters c)) (\<lambda>v.
     rbind (rf_poke aDest v (theRegisters c)) (\<lambda>rf. Inr (c\<lparr>theRegisters := rf\<rparr>)))"

section \<open>Renaming\<close>

definition core_map :: "reg \<Rightarrow> CoreImpl \<Rightarrow> reg result" where
  "core_map aReg c =
     (let r = rotate (theWindowMap c) aReg in
      rbind (pm_map (theMapTables c (theType r)) (unat (theIndex r))) (\<lambda>p.
        Inr (mk_reg (theType r) (of_nat p))))"

definition core_create :: "reg \<Rightarrow> CoreImpl \<Rightarrow> (CoreImpl \<times> reg \<times> reg) result" where
  "core_create aReg c =
     (let r = rotate (theWindowMap c) aReg; t = theType aReg in
      rbind (pm_create (theMapTables c (theType r)) (unat (theIndex r))) (\<lambda>(pm, new, prev).
      let c1 = c\<lparr>theMapTables := (theMapTables c)(theType r := pm)\<rparr>;
          first = mk_reg t (of_nat new); second = mk_reg t (of_nat prev) in
      rbind (mapRegister first c1) (\<lambda>c2.
      rbind (rf_status second (theRegisters c2)) (\<lambda>status.
      dbg_assert (status \<noteq> kUnmapped) (Inr (c2, first, second))))))"

definition core_free :: "reg \<Rightarrow> CoreImpl \<Rightarrow> CoreImpl result" where
  "core_free aReg c =
     rbind (pm_free (theMapTables c (theType aReg)) (unat (theIndex aReg))) (\<lambda>pm.
       unmapRegister aReg (c\<lparr>theMapTables := (theMapTables c)(theType aReg := pm)\<rparr>))"

definition core_restore :: "reg \<Rightarrow> reg \<Rightarrow> CoreImpl \<Rightarrow> CoreImpl result" where
  "core_restore aName aReg c = dbg_assert (theType aName = theType aReg)
     (let name = rotate (theWindowMap c) aName in
      rbind (pm_restore (theMapTables c (theType aName)) (unat (theIndex name))
              (unat (theIndex aReg))) (\<lambda>pm.
        Inr (c\<lparr>theMapTables := (theMapTables c)(theType aName := pm)\<rparr>)))"

section \<open>Windows\<close>

definition dec_mod8 :: "u32 \<Rightarrow> u32" where
  "dec_mod8 anInt = (if anInt = 0 then 7 else anInt - 1)"

definition inc_mod8 :: "u32 \<Rightarrow> u32" where
  "inc_mod8 anInt = (let i = anInt + 1 in if i \<ge> 8 then 0 else i)"

definition getCWP :: "CoreImpl \<Rightarrow> u32" where
  "getCWP c = word_of_int (theCWP (theWindowMap c))"

definition saveWindow :: "CoreImpl \<Rightarrow> CoreImpl \<times> u32" where
  "saveWindow c = (let c' = c\<lparr>theWindowMap := incrementCWP (theWindowMap c)\<rparr> in (c', getCWP c'))"

definition saveWindowPriv :: "CoreImpl \<Rightarrow> CoreImpl" where
  "saveWindowPriv c =
     (let c = c\<lparr>theArchitecturalWindowMap := incrementCWP (theArchitecturalWindowMap c)\<rparr> in
      if theCANSAVE c = 0 then c
      else if theCLEANWIN c - theCANRESTORE c = 0 then c
      else c\<lparr>theCANRESTORE := inc_mod8 (theCANRESTORE c), theCANSAVE := dec_mod8 (theCANSAVE c)\<rparr>)"

definition saved :: "CoreImpl \<Rightarrow> CoreImpl" where
  "saved c =
     (let c = c\<lparr>theCANSAVE := inc_mod8 (theCANSAVE c)\<rparr> in
      if theOTHERWIN c = 0 then c\<lparr>theCANRESTORE := dec_mod8 (theCANRESTORE c)\<rparr>
      else c\<lparr>theOTHERWIN := dec_mod8 (theOTHERWIN c)\<rparr>)"

definition restoreWindow :: "CoreImpl \<Rightarrow> CoreImpl \<times> u32" where
  "restoreWindow c = (let c' = c\<lparr>theWindowMap := decrementCWP (theWindowMap c)\<rparr> in (c', getCWP c'))"

definition restoreWindowPriv :: "CoreImpl \<Rightarrow> CoreImpl" where
  "restoreWindowPriv c =
     (let c = c\<lparr>theArchitecturalWindowMap := decrementCWP (theArchitecturalWindowMap c)\<rparr> in
      if theCANRESTORE c = 0 then c
      else c\<lparr>theCANRESTORE := dec_mod8 (theCANRESTORE c), theCANSAVE := inc_mod8 (theCANSAVE c)\<rparr>)"

definition restored :: "CoreImpl \<Rightarrow> CoreImpl" where
  "restored c =
     (let c = c\<lparr>theCANRESTORE := inc_mod8 (theCANRESTORE c)\<rparr>;
          c = (if theCLEANWIN c < 7 then c\<lparr>theCLEANWIN := inc_mod8 (theCLEANWIN c)\<rparr> else c) in
      if theOTHERWIN c = 0 then c\<lparr>theCANSAVE := dec_mod8 (theCANSAVE c)\<rparr>
      else c\<lparr>theOTHERWIN := dec_mod8 (theOTHERWIN c)\<rparr>)"

section \<open>Named registers\<close>

definition getRRegister :: "u32 \<Rightarrow> CoreImpl \<Rightarrow> u64 result" where
  "getRRegister aReg c =
     rbind (core_map (mk_reg rRegisters aReg) c) (\<lambda>r. rbind (readRegister r c) rv_get_u64)"

definition setRRegister :: "(nat \<Rightarrow> bool) \<Rightarrow> u32 \<Rightarrow> u64 \<Rightarrow> CoreImpl \<Rightarrow>
    (CoreImpl \<times> InstructionDependance list) result" where
  "setRRegister isComplete aReg aVal c =
     rbind (core_map (mk_reg rRegisters aReg) c) (\<lambda>r. writeRegister isComplete r (RV64 aVal) c)"

definition setASI :: "(nat \<Rightarrow> bool) \<Rightarrow> u64 \<Rightarrow> CoreImpl \<Rightarrow>
    (CoreImpl \<times> InstructionDependance list) result" where
  "setASI isComplete aVal c = setRRegister isComplete kRegASI aVal c"

definition getASI :: "CoreImpl \<Rightarrow> u64 result" where
  "getASI c = getRRegister kRegASI c"

definition setCCR :: "(nat \<Rightarrow> bool) \<Rightarrow> u32 \<Rightarrow> CoreImpl \<Rightarrow>
    (CoreImpl \<times> InstructionDependance list) result" where
  "setCCR isComplete aValue c =
     rbind (core_map (mk_reg ccBits 0) c) (\<lambda>r. writeRegister isComplete r (RVcc (ucast aValue)) c)"

definition getCCR :: "CoreImpl \<Rightarrow> u32 result" where
  "getCCR c =
     rbind (core_map (mk_reg ccBits 0) c) (\<lambda>r.
     rbind (rf_status r (theRegisters c)) (\<lambda>s.
     if s = kReady then rbind (rbind (readRegister r c) rv_get_cc) (\<lambda>cc. Inr (ucast cc))
     else Inr 0xDEAD))"

definition getCCRArchitectural :: "CoreImpl \<Rightarrow> u32 result" where
  "getCCRArchitectural c =
     rbind (mapArchitectural (theMapTables c ccBits) 0) (\<lambda>p.
     rbind (rbind (rf_peek (mk_reg ccBits (of_nat p)) (theRegisters c)) rv_get_cc) (\<lambda>cc.
       Inr (ucast cc)))"

section \<open>Floating point state register\<close>

definition poke_fcc :: "u32 \<Rightarrow> u64 \<Rightarrow> CoreImpl \<Rightarrow> CoreImpl result" where
  "poke_fcc i v c = rbind (core_map (mk_reg ccBits i) c) (\<lambda>r.
     rbind (rf_poke r (RVcc (bitset_of v)) (theRegisters c)) (\<lambda>rf. Inr (c\<lparr>theRegisters := rf\<rparr>)))"

definition writeFSR :: "u64 \<Rightarrow> CoreImpl \<Rightarrow> CoreImpl result" where
  "writeFSR anFSR c =
     (let fcc0 = drop_bit 10 anFSR AND 3; fcc1 = drop_bit 32 anFSR AND 3;
          fcc2 = drop_bit 34 anFSR AND 3; fcc3 = drop_bit 36 anFSR AND 3 in
      rbind (poke_fcc 1 fcc0 (c\<lparr>theFSR := anFSR\<rparr>)) (\<lambda>c.
      rbind (poke_fcc 2 fcc1 c) (\<lambda>c.
      rbind (poke_fcc 3 fcc2 c) (\<lambda>c.
      rbind (poke_fcc 4 fcc3 c) (\<lambda>c.
        Inr (c\<lparr>theRoundingMode := ucast (drop_bit 30 anFSR AND 3)\<rparr>))))))"

definition peek_fcc :: "u32 \<Rightarrow> CoreImpl \<Rightarrow> bitset8 result" where
  "peek_fcc i c = rbind (core_map (mk_reg ccBits i) c) (\<lambda>r.
     rbind (rf_peek r (theRegisters c)) rv_get_cc)"

text \<open>
  A \<open>boost::get\<close> that fails in \<open>readFSR\<close> is caught, and the stored value returned unchanged.
\<close>

definition readFSR :: "CoreImpl \<Rightarrow> u64 result" where
  "readFSR c =
     (case
        rbind (peek_fcc 1 c) (\<lambda>fcc0. rbind (peek_fcc 2 c) (\<lambda>fcc1.
        rbind (peek_fcc 3 c) (\<lambda>fcc2. rbind (peek_fcc 4 c) (\<lambda>fcc3.
          Inr ((theFSR c AND 0xFFFFFFC0FFFFF3FF) OR
            (push_bit 10 (to_ulong fcc0 AND 3) OR push_bit 32 (to_ulong fcc1 AND 3) OR
             push_bit 34 (to_ulong fcc2 AND 3) OR push_bit 36 (to_ulong fcc3 AND 3)))))))
      of Inl BadGet \<Rightarrow> Inr (theFSR c) | r \<Rightarrow> r)"

definition selectedRegisterSet :: "CoreImpl \<Rightarrow> int" where
  "selectedRegisterSet c =
     (if theMG (theArchitecturalWindowMap c) then 2
      else if theIG (theArchitecturalWindowMap c) then 3
      else if theAG (theArchitecturalWindowMap c) then 1
      else 0)"

section \<open>Invariant\<close>

text \<open>
  The three map tables are consistent, every physical register exists in the register file
  and in the bypass network, and the register file marks exactly the free ones as unmapped;
  nothing waits for a free register.
\<close>

definition type_inv :: "eRegisterType \<Rightarrow> PhysicalMap \<Rightarrow> RegisterFile \<Rightarrow> BypassNetwork \<Rightarrow> bool" where
  "type_inv t pm rf bn \<longleftrightarrow> pm_inv pm \<and> theRegisterCount pm < 2 ^ 32 \<and>
     (\<forall>p < theRegisterCount pm.
        rf_has rf (mk_reg t (of_nat p)) \<and> in2 (theDeps bn) (mk_reg t (of_nat p)) \<and>
        (rf_status (mk_reg t (of_nat p)) rf = Inr kUnmapped \<longleftrightarrow> p \<in> set (theFreeList pm)) \<and>
        (p \<in> set (theFreeList pm) \<longrightarrow> at2 (theDependances rf) (mk_reg t (of_nat p)) = Inr []))"

definition core_inv :: "CoreImpl \<Rightarrow> bool" where
  "core_inv c \<longleftrightarrow> (\<forall>t. type_inv t (theMapTables c t) (theRegisters c) (theBypassNetwork c))"

lemma u32_of_nat_inj [simp]:
  "p < 2 ^ 32 \<Longrightarrow> q < 2 ^ 32 \<Longrightarrow> (of_nat p :: u32) = of_nat q \<longleftrightarrow> p = q"
  by (auto simp: word_unat_eq_iff unat_of_nat)

lemma rotate_type [simp]: "theType (rotate w r) = theType r"
  by (simp add: rotate_def)

lemma rotate_other [simp]: "t \<noteq> rRegisters \<Longrightarrow> rotate w (mk_reg t i) = mk_reg t i"
  by (simp add: rotate_def)

lemma type_inv_status:
  assumes "type_inv t pm rf bn" "p < theRegisterCount pm"
  shows "\<exists>s. rf_status (mk_reg t (of_nat p)) rf = Inr s \<and> (s = kUnmapped \<longleftrightarrow> p \<in> set (theFreeList pm))"
proof -
  have "rf_has rf (mk_reg t (of_nat p))"
    and i: "rf_status (mk_reg t (of_nat p)) rf = Inr kUnmapped \<longleftrightarrow> p \<in> set (theFreeList pm)"
    using assms by (simp_all add: type_inv_def)
  then obtain s where "rf_status (mk_reg t (of_nat p)) rf = Inr s"
    by (auto simp: rf_has_def rf_status_def at2_in)
  with i show ?thesis by auto
qed

lemma type_inv_update:
  assumes "type_inv t pm rf bn" "rf_has rf' = rf_has rf" "in2 (theDeps bn') = in2 (theDeps bn)"
    and "\<And>p. p < theRegisterCount pm \<Longrightarrow>
      rf_status (mk_reg t (of_nat p)) rf' = rf_status (mk_reg t (of_nat p)) rf \<and>
      at2 (theDependances rf') (mk_reg t (of_nat p)) = at2 (theDependances rf) (mk_reg t (of_nat p))"
  shows "type_inv t pm rf' bn'"
  using assms by (simp add: type_inv_def)

lemma core_create_ok:
  fixes aReg c
  defines "t \<equiv> theType aReg" and "pm \<equiv> theMapTables c (theType aReg)"
  assumes inv: "core_inv c"
    and n: "unat (theIndex (rotate (theWindowMap c) aReg)) < theNameCount pm"
    and f: "theFreeList pm \<noteq> []"
  shows "\<exists>c' new prev. core_create aReg c = Inr (c', new, prev) \<and> core_inv c' \<and>
    core_map aReg c = Inr prev \<and> core_map aReg c' = Inr new \<and> new \<noteq> prev \<and>
    rf_status new (theRegisters c') = Inr kNotReady \<and>
    (\<forall>q. q \<noteq> new \<longrightarrow> rf_status q (theRegisters c') = rf_status q (theRegisters c)) \<and>
    (\<forall>q. rf_peek q (theRegisters c') = rf_peek q (theRegisters c))"
proof -
  let ?n = "unat (theIndex (rotate (theWindowMap c) aReg))"
  let ?rf = "theRegisters c" and ?bn = "theBypassNetwork c"
  have ti: "type_inv t pm ?rf ?bn" using inv by (simp add: core_inv_def t_def pm_def)
  then have pi: "pm_inv pm" and rc: "theRegisterCount pm < 2 ^ 32" by (simp_all add: type_inv_def)
  obtain p ps where f: "theFreeList pm = p # ps" using f by (auto simp: neq_Nil_conv)
  let ?prev = "theMappings pm ! ?n"
  obtain pm' where pm': "pm_create pm ?n = Inr (pm', p, ?prev)" "pm_inv pm'"
    "theNameCount pm' = theNameCount pm" "theRegisterCount pm' = theRegisterCount pm"
    "theFreeList pm' = ps" "theMappings pm' = (theMappings pm)[?n := p]"
    using pm_create_ok [OF pi n f] by blast
  have p: "p < theRegisterCount pm" "p \<notin> set ps"
    using pm_inv_free_lt [OF pi] pm_inv_distinct [OF pi] f by simp_all
  have "?prev \<in> set (theAssignedRegisters pm ! ?n)" using pi n by (simp add: pm_inv_def)
  then have prev: "?prev < theRegisterCount pm" "?prev \<notin> set (theFreeList pm)"
    using pm_inv_assigned_lt [OF pi n] pm_inv_assigned_not_free [OF pi n] by simp_all
  let ?new = "mk_reg t (of_nat p)" and ?old = "mk_reg t (of_nat ?prev)"
  have neq: "?new \<noteq> ?old" using prev f p rc by (auto dest: less_trans [OF _ rc])
  obtain s where s: "rf_status ?new ?rf = Inr kUnmapped" "rf_status ?old ?rf = Inr s" "s \<noteq> kUnmapped"
    using type_inv_status [OF ti p(1)] type_inv_status [OF ti prev(1)] prev(2) f by auto
  have "rf_has ?rf ?new" "at2 (theDependances ?rf) ?new = Inr []"
    using ti p f by (simp_all add: type_inv_def)
  then obtain rf' where rf': "rf_map ?new ?rf = Inr rf'" "rf_has rf' = rf_has ?rf"
    "theDependances rf' = theDependances ?rf" "theRegs rf' = theRegs ?rf"
    "\<forall>q. rf_status q rf' = (if q = ?new then Inr kNotReady else rf_status q ?rf)"
    using rf_map_ok by blast
  let ?c = "c\<lparr>theMapTables := (theMapTables c)(t := pm'), theRegisters := rf'\<rparr>"
  have cr: "core_create aReg c = Inr (?c, ?new, ?old)"
    using pm'(1) rf' s neq by (simp add: core_create_def mapRegister_def t_def pm_def Let_def)
  have "core_inv ?c"
    unfolding core_inv_def
  proof
    fix u
    show "type_inv u (theMapTables ?c u) (theRegisters ?c) (theBypassNetwork ?c)"
    proof (cases "u = t")
      case True
      then show ?thesis
        using ti pm' rf' p f rc by (auto simp: type_inv_def)
    next
      case False
      have "type_inv u (theMapTables c u) ?rf ?bn" using inv by (simp add: core_inv_def)
      then show ?thesis
        using False rf' by simp (rule type_inv_update; simp)
    qed
  qed
  then show ?thesis
    using cr neq rf' s pm' n pm_inv_lengths [OF pi] pm_inv_lengths [OF pm'(2)]
    by (intro exI conjI) (auto simp: core_map_def pm_map_def rf_peek_def t_def pm_def Let_def)
qed

lemma bn_unmap_ok:
  assumes "in2 (theDeps bn) r"
  shows "\<exists>bn'. bn_unmap r bn = Inr bn' \<and> in2 (theDeps bn') = in2 (theDeps bn) \<and>
    at2 (theDeps bn') r = Inr []"
proof -
  obtain d where d: "put2 r [] (theDeps bn) = Inr d" using put2_in [OF assms] by blast
  show ?thesis using put2_at2 [OF d] by (auto simp: bn_unmap_def d)
qed

lemma core_free_ok:
  fixes t c p n
  defines "pm \<equiv> theMapTables c t"
  assumes inv: "core_inv c" and n: "n < theNameCount pm"
    and p: "p \<in> set (theAssignedRegisters pm ! n)" "theMappings pm ! n \<noteq> p" "p = n"
  shows "\<exists>c'. core_free (mk_reg t (of_nat p)) c = Inr c' \<and> core_inv c' \<and>
    theFreeList (theMapTables c' t) = theFreeList pm @ [p] \<and>
    theMappings (theMapTables c' t) = theMappings pm \<and>
    rf_status (mk_reg t (of_nat p)) (theRegisters c') = Inr kUnmapped"
proof -
  let ?rf = "theRegisters c" and ?bn = "theBypassNetwork c" and ?r = "mk_reg t (of_nat p)"
  have ti: "type_inv t pm ?rf ?bn" using inv by (simp add: core_inv_def pm_def)
  then have pi: "pm_inv pm" and rc: "theRegisterCount pm < 2 ^ 32" by (simp_all add: type_inv_def)
  have lt: "p < theRegisterCount pm" and nf: "p \<notin> set (theFreeList pm)"
    using pm_inv_assigned_lt [OF pi n p(1)] pm_inv_assigned_not_free [OF pi n p(1)] by simp_all
  obtain pm' where pm': "pm_free pm p = Inr pm'" "pm_inv pm'"
    "theNameCount pm' = theNameCount pm" "theRegisterCount pm' = theRegisterCount pm"
    "theFreeList pm' = theFreeList pm @ [p]" "theMappings pm' = theMappings pm"
    using pm_free_ok [OF pi n p] by blast
  obtain s where s: "rf_status ?r ?rf = Inr s" "s \<noteq> kUnmapped"
    using type_inv_status [OF ti lt] nf by auto
  have has: "rf_has ?rf ?r" "in2 (theDeps ?bn) ?r" using ti lt by (simp_all add: type_inv_def)
  obtain rf' where rf': "rf_unmap ?r ?rf = Inr rf'" "rf_has rf' = rf_has ?rf"
    "\<forall>q. at2 (theDependances rf') q = (if q = ?r then Inr [] else at2 (theDependances ?rf) q)"
    "\<forall>q. rf_status q rf' = (if q = ?r then Inr kUnmapped else rf_status q ?rf)"
    using rf_unmap_ok [OF has(1)] by blast
  obtain bn' where bn': "bn_unmap ?r ?bn = Inr bn'" "in2 (theDeps bn') = in2 (theDeps ?bn)"
    using bn_unmap_ok [OF has(2)] by blast
  have u: "unat (of_nat p :: u32) = p" using lt rc by (simp add: unat_of_nat)
  let ?c = "c\<lparr>theMapTables := (theMapTables c)(t := pm'), theRegisters := rf', theBypassNetwork := bn'\<rparr>"
  have fr: "core_free ?r c = Inr ?c"
    using pm'(1) s rf'(1) bn'(1) by (simp add: core_free_def unmapRegister_def u pm_def)
  have "core_inv ?c"
    unfolding core_inv_def
  proof
    fix u
    show "type_inv u (theMapTables ?c u) (theRegisters ?c) (theBypassNetwork ?c)"
    proof (cases "u = t")
      case True
      then show ?thesis
        using ti pm' rf' bn' lt rc by (auto simp: type_inv_def)
    next
      case False
      have "type_inv u (theMapTables c u) ?rf ?bn" using inv by (simp add: core_inv_def)
      then show ?thesis
        using False rf' bn' by simp (rule type_inv_update; simp)
    qed
  qed
  then show ?thesis using fr pm' rf' by simp
qed

section \<open>Window counters\<close>

definition windows_ok :: "CoreImpl \<Rightarrow> bool" where
  "windows_ok c \<longleftrightarrow> unat (theCANSAVE c) + unat (theCANRESTORE c) + unat (theOTHERWIN c) = 6"

lemma unat_inc_mod8: "unat i < 7 \<Longrightarrow> unat (inc_mod8 i) = unat i + 1"
  by (simp add: inc_mod8_def Let_def word_le_nat_alt unat_word_ariths)

lemma unat_dec_mod8: "i \<noteq> 0 \<Longrightarrow> unat (dec_mod8 i) = unat i - 1"
  by (simp add: dec_mod8_def unat_minus_one)

lemma unat_nonzero: "(i :: u32) \<noteq> 0 \<Longrightarrow> 0 < unat i"
  by (simp add: unat_gt_0)

section \<open>Floating point state register\<close>

lemma bit_3: "bit (3 :: 'a::len word) n \<longleftrightarrow> n < 2 \<and> n < LENGTH('a)"
proof -
  have three: "(3 :: 'a word) = mask 2" by (simp add: mask_eq_exp_minus_1)
  show ?thesis unfolding three bit_mask_iff by auto
qed

lemma fcc_field: "to_ulong (bitset_of (v AND 3)) AND 3 = v AND 3"
  by (rule bit_word_eqI)
     (auto simp: to_ulong_def bitset_of_def bit_ucast_iff bit_and_iff bit_3
      simp del: bit_numeral_word_iff)

lemma bit_fsr_field:
  "bit (push_bit k (drop_bit k v AND 3)) n \<longleftrightarrow> k \<le> n \<and> n < k + 2 \<and> bit v n" for v :: u64
  unfolding bit_push_bit_iff bit_and_iff bit_drop_bit_eq bit_3
  by (auto simp del: bit_numeral_word_iff dest: bit_imp_le_length)

lemma bit_fsr_mask:
  "bit (0xFFFFFFC0FFFFF3FF :: u64) n \<longleftrightarrow> n < 64 \<and> \<not> (10 \<le> n \<and> n < 12) \<and> \<not> (32 \<le> n \<and> n < 38)"
proof -
  have m: "(0xFFFFFFC0FFFFF3FF :: u64) = NOT (push_bit 10 (mask 2) OR push_bit 32 (mask 6))"
    by (simp add: mask_eq_exp_minus_1)
  show ?thesis
    unfolding m bit_not_iff bit_or_iff bit_push_bit_iff bit_mask_iff by auto
qed

lemma fsr_join:
  "(v AND 0xFFFFFFC0FFFFF3FF) OR
     (push_bit 10 (drop_bit 10 v AND 3) OR push_bit 32 (drop_bit 32 v AND 3) OR
      push_bit 34 (drop_bit 34 v AND 3) OR push_bit 36 (drop_bit 36 v AND 3)) = (v :: u64)"
proof (rule bit_word_eqI)
  fix n assume "n < LENGTH(64)"
  then have "n < 64" by simp
  then show "bit ((v AND 0xFFFFFFC0FFFFF3FF) OR
     (push_bit 10 (drop_bit 10 v AND 3) OR push_bit 32 (drop_bit 32 v AND 3) OR
      push_bit 34 (drop_bit 34 v AND 3) OR push_bit 36 (drop_bit 36 v AND 3))) n = bit v n"
    unfolding bit_or_iff bit_and_iff bit_fsr_field bit_fsr_mask by (cases "bit v n") auto
qed

text \<open>The physical register that holds condition code register \<open>i\<close>.\<close>

definition cc_slot :: "CoreImpl \<Rightarrow> nat \<Rightarrow> reg" where
  "cc_slot c i = mk_reg ccBits (of_nat (theMappings (theMapTables c ccBits) ! i))"

lemma core_map_cc:
  assumes "core_inv c" "unat i < theNameCount (theMapTables c ccBits)"
  shows "core_map (mk_reg ccBits i) c = Inr (cc_slot c (unat i))"
  using assms pm_inv_lengths [of "theMapTables c ccBits"]
  by (simp add: core_map_def pm_map_def cc_slot_def core_inv_def type_inv_def Let_def)

lemma cc_slot_has:
  assumes "core_inv c" "n < theNameCount (theMapTables c ccBits)"
  shows "rf_has (theRegisters c) (cc_slot c n)"
proof -
  have ti: "type_inv ccBits (theMapTables c ccBits) (theRegisters c) (theBypassNetwork c)"
    using assms(1) by (simp add: core_inv_def)
  then have "pm_inv (theMapTables c ccBits)" by (simp add: type_inv_def)
  then have "theMappings (theMapTables c ccBits) ! n < theRegisterCount (theMapTables c ccBits)"
    using pm_inv_mapping_lt assms(2) by blast
  then show ?thesis using ti by (simp add: type_inv_def cc_slot_def)
qed

lemma cc_slot_inj:
  assumes "core_inv c" "n < theNameCount (theMapTables c ccBits)"
    "m < theNameCount (theMapTables c ccBits)"
  shows "cc_slot c n = cc_slot c m \<longleftrightarrow> n = m"
proof -
  let ?pm = "theMapTables c ccBits"
  have ti: "pm_inv ?pm" "theRegisterCount ?pm < 2 ^ 32"
    using assms(1) by (simp_all add: core_inv_def type_inv_def)
  have lt: "theMappings ?pm ! k < 2 ^ 32" if "k < theNameCount ?pm" for k
    using pm_inv_mapping_lt [OF ti(1) that] ti(2) by simp
  have "distinct (theMappings ?pm)" "length (theMappings ?pm) = theNameCount ?pm"
    using pm_inv_mappings_distinct [OF ti(1)] pm_inv_lengths [OF ti(1)] by simp_all
  then show ?thesis
    using assms lt by (simp add: cc_slot_def nth_eq_iff_index_eq)
qed

lemma poke_fcc_ok:
  assumes inv: "core_inv c" and n: "unat i < theNameCount (theMapTables c ccBits)"
  shows "\<exists>rf. poke_fcc i v c = Inr (c\<lparr>theRegisters := rf\<rparr>) \<and> core_inv (c\<lparr>theRegisters := rf\<rparr>) \<and>
    rf_peek (cc_slot c (unat i)) rf = Inr (RVcc (bitset_of v)) \<and>
    (\<forall>q. q \<noteq> cc_slot c (unat i) \<longrightarrow> rf_peek q rf = rf_peek q (theRegisters c))"
proof -
  let ?r = "cc_slot c (unat i)"
  have "in2 (theRegs (theRegisters c)) ?r" using cc_slot_has [OF inv n] by (simp add: rf_has_def)
  then obtain vs where vs: "put2 ?r (RVcc (bitset_of v)) (theRegs (theRegisters c)) = Inr vs"
    using put2_in [of "theRegs (theRegisters c)" ?r "RVcc (bitset_of v)"] by blast
  let ?rf = "theRegisters c\<lparr>theRegs := vs\<rparr>"
  have "rf_has ?rf = rf_has (theRegisters c)"
    using put2_at2(2) [OF vs] by (auto simp: rf_has_def fun_eq_iff)
  then have "core_inv (c\<lparr>theRegisters := ?rf\<rparr>)"
    using inv by (simp add: core_inv_def type_inv_def rf_status_def)
  then show ?thesis
    using put2_at2 [OF vs] core_map_cc [OF inv n] vs
    by (auto simp: poke_fcc_def rf_poke_def rf_peek_def)
qed

lemma cc_slot_registers [simp]: "cc_slot (c\<lparr>theRegisters := rf\<rparr>) = cc_slot c"
  by (simp add: cc_slot_def fun_eq_iff)

lemma cc_slot_other [simp]:
  "cc_slot (c\<lparr>theFSR := v\<rparr>) = cc_slot c" "cc_slot (c\<lparr>theRoundingMode := m\<rparr>) = cc_slot c"
  by (simp_all add: cc_slot_def fun_eq_iff)

lemma core_inv_other [simp]:
  "core_inv (c\<lparr>theFSR := v\<rparr>) = core_inv c" "core_inv (c\<lparr>theRoundingMode := m\<rparr>) = core_inv c"
  by (simp_all add: core_inv_def)

lemma peek_fcc_eq:
  assumes "core_inv c" "unat i < theNameCount (theMapTables c ccBits)"
    "rf_peek (cc_slot c (unat i)) (theRegisters c) = Inr (RVcc b)"
  shows "peek_fcc i c = Inr b"
  using assms by (simp add: peek_fcc_def core_map_cc)

section \<open>Properties\<close>

text \<open>
  C31: a consistent core renames a destination register without a failed assertion while
  a physical register is free: the name maps to a fresh register that is not ready, its
  previous register keeps its value and stays mapped, no other status and no value
  changes, and the core stays consistent.
\<close>

theorem core_create_consistent:
  assumes "core_inv c"
    and "unat (theIndex (rotate (theWindowMap c) aReg)) <
      theNameCount (theMapTables c (theType aReg))"
    and "theFreeList (theMapTables c (theType aReg)) \<noteq> []"
  shows "\<exists>c' new prev. core_create aReg c = Inr (c', new, prev) \<and> core_inv c' \<and>
    core_map aReg c = Inr prev \<and> core_map aReg c' = Inr new \<and> new \<noteq> prev \<and>
    rf_status new (theRegisters c') = Inr kNotReady \<and>
    (\<forall>q. q \<noteq> new \<longrightarrow> rf_status q (theRegisters c') = rf_status q (theRegisters c)) \<and>
    (\<forall>q. rf_peek q (theRegisters c') = rf_peek q (theRegisters c))"
  by (rule core_create_ok [OF assms])

text \<open>
  \<open>free\<close> of the register with the number of its name, when it is assigned to that name but
  not its newest one, succeeds in a consistent core, appends it to the free list and unmaps it, and keeps the core consistent.
\<close>

theorem core_free_consistent:
  assumes "core_inv c" and "n < theNameCount (theMapTables c t)"
    and "p \<in> set (theAssignedRegisters (theMapTables c t) ! n)"
    and "theMappings (theMapTables c t) ! n \<noteq> p" and "p = n"
  shows "\<exists>c'. core_free (mk_reg t (of_nat p)) c = Inr c' \<and> core_inv c' \<and>
    theFreeList (theMapTables c' t) = theFreeList (theMapTables c t) @ [p] \<and>
    theMappings (theMapTables c' t) = theMappings (theMapTables c t) \<and>
    rf_status (mk_reg t (of_nat p)) (theRegisters c') = Inr kUnmapped"
  by (rule core_free_ok [OF assms])

text \<open>
  C40: the window counters always account for the six usable windows: SAVE and RESTORE keep
  CANSAVE + CANRESTORE + OTHERWIN = 6, SAVED does while a window can still be freed, and
  RESTORED while one can still be filled.
\<close>

theorem window_counters:
  assumes "windows_ok c"
  shows "windows_ok (saveWindowPriv c) \<and> windows_ok (restoreWindowPriv c) \<and>
    (theCANSAVE c \<noteq> 6 \<longrightarrow> windows_ok (saved c)) \<and>
    (theCANRESTORE c \<noteq> 6 \<longrightarrow> windows_ok (restored c))"
proof -
  have s: "unat (theCANSAVE c) + unat (theCANRESTORE c) + unat (theOTHERWIN c) = 6"
    using assms by (simp add: windows_ok_def)
  then have b: "unat (theCANSAVE c) < 7" "unat (theCANRESTORE c) < 7" by simp_all
  note inc = unat_inc_mod8 [OF b(1)] unat_inc_mod8 [OF b(2)]
  have z: "theCANSAVE c \<noteq> 6 \<Longrightarrow> theOTHERWIN c = 0 \<Longrightarrow> theCANRESTORE c \<noteq> 0"
    "theCANRESTORE c \<noteq> 6 \<Longrightarrow> theOTHERWIN c = 0 \<Longrightarrow> theCANSAVE c \<noteq> 0"
    using s by (auto simp: word_unat_eq_iff)
  note nz = unat_nonzero [of "theCANSAVE c"] unat_nonzero [of "theCANRESTORE c"]
    unat_nonzero [of "theOTHERWIN c"]
  have "windows_ok (saveWindowPriv c)"
    using s b(1) inc(2) nz(1) unat_dec_mod8 [of "theCANSAVE c"]
    by (auto simp: windows_ok_def saveWindowPriv_def Let_def)
  moreover have "windows_ok (restoreWindowPriv c)"
    using s inc(1) nz(2) unat_dec_mod8 [of "theCANRESTORE c"]
    by (auto simp: windows_ok_def restoreWindowPriv_def Let_def)
  moreover have "windows_ok (saved c)" if "theCANSAVE c \<noteq> 6"
    using s inc(1) nz(2,3) z(1) [OF that] unat_dec_mod8 [of "theCANRESTORE c"]
      unat_dec_mod8 [of "theOTHERWIN c"]
    by (cases "theOTHERWIN c = 0") (simp_all add: windows_ok_def saved_def Let_def)
  moreover have "windows_ok (restored c)" if "theCANRESTORE c \<noteq> 6"
    using s inc(2) nz(1,3) z(2) [OF that] unat_dec_mod8 [of "theCANSAVE c"]
      unat_dec_mod8 [of "theOTHERWIN c"]
    by (cases "theOTHERWIN c = 0") (simp_all add: windows_ok_def restored_def Let_def)
  ultimately show ?thesis by blast
qed

text \<open>
  C36: \<open>readFSR\<close> after \<open>writeFSR\<close> returns the written value, all 64 bits of it, although the four
  condition code fields are kept in renamed registers of their own.
\<close>

theorem fsr_roundtrip:
  assumes "core_inv c" "theNameCount (theMapTables c ccBits) = 5"
  shows "\<exists>c'. writeFSR v c = Inr c' \<and> readFSR c' = Inr v \<and>
    theRoundingMode c' = ucast (drop_bit 30 v AND 3)"
proof -
  let ?c0 = "c\<lparr>theFSR := v\<rparr>"
  note s = cc_slot_inj [OF assms(1)]
  obtain r1 where r1: "poke_fcc 1 (drop_bit 10 v AND 3) ?c0 = Inr (?c0\<lparr>theRegisters := r1\<rparr>)"
    "core_inv (?c0\<lparr>theRegisters := r1\<rparr>)"
    "rf_peek (cc_slot c 1) r1 = Inr (RVcc (bitset_of (drop_bit 10 v AND 3)))"
    "\<forall>q. q \<noteq> cc_slot c 1 \<longrightarrow> rf_peek q r1 = rf_peek q (theRegisters c)"
    using poke_fcc_ok [of ?c0 1 "drop_bit 10 v AND 3"] assms by auto
  obtain r2 where r2: "poke_fcc 2 (drop_bit 32 v AND 3) (?c0\<lparr>theRegisters := r1\<rparr>) =
      Inr (?c0\<lparr>theRegisters := r2\<rparr>)" "core_inv (?c0\<lparr>theRegisters := r2\<rparr>)"
    "rf_peek (cc_slot c 2) r2 = Inr (RVcc (bitset_of (drop_bit 32 v AND 3)))"
    "\<forall>q. q \<noteq> cc_slot c 2 \<longrightarrow> rf_peek q r2 = rf_peek q r1"
    using poke_fcc_ok [OF r1(2), of 2 "drop_bit 32 v AND 3"] assms by auto
  obtain r3 where r3: "poke_fcc 3 (drop_bit 34 v AND 3) (?c0\<lparr>theRegisters := r2\<rparr>) =
      Inr (?c0\<lparr>theRegisters := r3\<rparr>)" "core_inv (?c0\<lparr>theRegisters := r3\<rparr>)"
    "rf_peek (cc_slot c 3) r3 = Inr (RVcc (bitset_of (drop_bit 34 v AND 3)))"
    "\<forall>q. q \<noteq> cc_slot c 3 \<longrightarrow> rf_peek q r3 = rf_peek q r2"
    using poke_fcc_ok [OF r2(2), of 3 "drop_bit 34 v AND 3"] assms by auto
  obtain r4 where r4: "poke_fcc 4 (drop_bit 36 v AND 3) (?c0\<lparr>theRegisters := r3\<rparr>) =
      Inr (?c0\<lparr>theRegisters := r4\<rparr>)" "core_inv (?c0\<lparr>theRegisters := r4\<rparr>)"
    "rf_peek (cc_slot c 4) r4 = Inr (RVcc (bitset_of (drop_bit 36 v AND 3)))"
    "\<forall>q. q \<noteq> cc_slot c 4 \<longrightarrow> rf_peek q r4 = rf_peek q r3"
    using poke_fcc_ok [OF r3(2), of 4 "drop_bit 36 v AND 3"] assms by auto
  let ?c = "?c0\<lparr>theRegisters := r4, theRoundingMode := ucast (drop_bit 30 v AND 3)\<rparr>"
  have w: "writeFSR v c = Inr ?c"
    using r1(1) r2(1) r3(1) r4(1) by (simp add: writeFSR_def Let_def)
  have inv: "core_inv ?c" using r4(2) by simp
  have p: "peek_fcc 1 ?c = Inr (bitset_of (drop_bit 10 v AND 3))"
    "peek_fcc 2 ?c = Inr (bitset_of (drop_bit 32 v AND 3))"
    "peek_fcc 3 ?c = Inr (bitset_of (drop_bit 34 v AND 3))"
    "peek_fcc 4 ?c = Inr (bitset_of (drop_bit 36 v AND 3))"
    using assms s r1(3,4) r2(3,4) r3(3,4) r4(3,4) by (auto intro!: peek_fcc_eq [OF inv])
  have f: "theFSR ?c = v" by simp
  have "readFSR ?c = Inr v"
    unfolding readFSR_def p rbind_Inr fcc_field f fsr_join by simp
  with w show ?thesis by auto
qed

section \<open>Concrete cores\<close>

text \<open>A core with the same map for the three register types and given statuses.\<close>

definition uniform_core :: "PhysicalMap \<Rightarrow> eResourceStatus list \<Rightarrow> CoreImpl" where
  "uniform_core pm sts =
     (let n = length sts in
      \<lparr>theWindowMap = rwm_reset, theArchitecturalWindowMap = rwm_reset, theMapTables = (\<lambda>_. pm),
       theRegisters = \<lparr>theDependances = replicate 3 (replicate n []), theStatus = replicate 3 sts,
         theRegs = replicate 3 (replicate n (RV64 0)),
         theCollectCounts = replicate 3 (replicate n 10)\<rparr>,
       theBypassNetwork = bn_new n n n, theCANSAVE = 6, theCANRESTORE = 0, theCLEANWIN = 7,
       theOTHERWIN = 0, theFSR = 0, theRoundingMode = 0\<rparr>)"

lemma uniform_core_simps [simp]:
  "theMapTables (uniform_core pm sts) t = pm" "theWindowMap (uniform_core pm sts) = rwm_reset"
  by (simp_all add: uniform_core_def Let_def)

lemma type_index_lt: "type_index t < 3"
  by (cases t) simp_all

lemma uniform_core_inv:
  assumes "pm_inv pm" "theRegisterCount pm = length sts" "length sts < 2 ^ 32"
    and "\<forall>p < length sts. sts ! p = kUnmapped \<longleftrightarrow> p \<in> set (theFreeList pm)"
  shows "core_inv (uniform_core pm sts)"
  unfolding core_inv_def
proof
  fix t
  have b: "theDeps (bn_new n n n) = replicate 3 (replicate n [])" for n
    by (simp add: bn_new_def bn_reset_def numeral_3_eq_3)
  have u: "p < length sts \<Longrightarrow> unat (of_nat p :: u32) = p" for p
    using assms(3) by (simp add: unat_of_nat)
  show "type_inv t (theMapTables (uniform_core pm sts) t) (theRegisters (uniform_core pm sts))
      (theBypassNetwork (uniform_core pm sts))"
    using assms type_index_lt [of t]
    by (simp add: type_inv_def uniform_core_def Let_def b u rf_has_def in2_def rf_status_def at2_def
        lookup_vec_def)
qed

lemma small_pm_inv:
  "pm_inv \<lparr>theNameCount = 1, theRegisterCount = 2, theMappings = [0], theFreeList = [1],
     theAssignedRegisters = [[0]], theReverseMappings = [0, -1]\<rparr>"
  "pm_inv \<lparr>theNameCount = 1, theRegisterCount = 2, theMappings = [1], theFreeList = [],
     theAssignedRegisters = [[0, 1]], theReverseMappings = [0, 0]\<rparr>"
  by (simp_all add: pm_inv_def numeral_2_eq_2 All_less_Suc upt_rec del: mset_upt)

theorem core_create_consistent_witness:
  "\<exists>c aReg c' new prev. core_create aReg c = Inr (c', new, prev) \<and> core_inv c' \<and>
    core_map aReg c = Inr prev \<and> core_map aReg c' = Inr new \<and> new \<noteq> prev"
proof -
  let ?pm = "\<lparr>theNameCount = 1, theRegisterCount = 2, theMappings = [0], theFreeList = [1],
     theAssignedRegisters = [[0]], theReverseMappings = [0, -1]\<rparr>"
  let ?c = "uniform_core ?pm [kReady, kUnmapped]"
  have "core_inv ?c"
    by (rule uniform_core_inv [OF small_pm_inv(1)]) (auto simp: less_Suc_eq)
  moreover have "unat (theIndex (rotate (theWindowMap ?c) (mk_reg ccBits 0))) <
      theNameCount (theMapTables ?c (theType (mk_reg ccBits 0)))"
    and "theFreeList (theMapTables ?c (theType (mk_reg ccBits 0))) \<noteq> []"
    by simp_all
  ultimately show ?thesis using core_create_consistent [of ?c "mk_reg ccBits 0"] by blast
qed

theorem core_free_consistent_witness:
  "\<exists>c c'. core_free (mk_reg fRegisters 0) c = Inr c' \<and> core_inv c' \<and>
    rf_status (mk_reg fRegisters 0) (theRegisters c') = Inr kUnmapped"
proof -
  let ?pm = "\<lparr>theNameCount = 1, theRegisterCount = 2, theMappings = [1], theFreeList = [],
     theAssignedRegisters = [[0, 1]], theReverseMappings = [0, 0]\<rparr>"
  let ?c = "uniform_core ?pm [kReady, kReady]"
  have "core_inv ?c"
    by (rule uniform_core_inv [OF small_pm_inv(2)]) (auto simp: less_Suc_eq)
  from core_free_consistent [OF this, of 0 fRegisters 0]
  have "\<exists>c'. core_free (mk_reg fRegisters 0) ?c = Inr c' \<and> core_inv c' \<and>
      rf_status (mk_reg fRegisters 0) (theRegisters c') = Inr kUnmapped"
    by auto
  then show ?thesis by blast
qed

theorem window_counters_witness:
  "\<exists>c. windows_ok c \<and> windows_ok (saveWindowPriv c) \<and> windows_ok (restoreWindowPriv c) \<and>
    windows_ok (restored c)"
proof -
  obtain pm where "pm_new 5 5 = Inr pm" using pm_new_ok [of 5 5] by auto
  let ?c = "uniform_core pm []"
  have "windows_ok ?c" by (simp add: windows_ok_def uniform_core_def Let_def)
  moreover have "theCANRESTORE ?c \<noteq> 6" by (simp add: uniform_core_def Let_def)
  ultimately show ?thesis using window_counters [of ?c] by blast
qed

theorem fsr_roundtrip_witness:
  "\<exists>c c'. writeFSR 0x3FC0000C00 c = Inr c' \<and> readFSR c' = Inr 0x3FC0000C00"
proof -
  obtain pm where pm: "pm_inv pm" "theNameCount pm = 5" "theRegisterCount pm = 5"
    "theFreeList pm = []"
    using pm_new_ok [of 5 5] by auto
  let ?c = "uniform_core pm (replicate 5 kReady)"
  have "core_inv ?c" by (rule uniform_core_inv) (use pm in auto)
  moreover have "theNameCount (theMapTables ?c ccBits) = 5"
    using pm by (simp add: uniform_core_def Let_def)
  ultimately show ?thesis using fsr_roundtrip [of ?c] by blast
qed

end
