(* ===== verification/Net_Channel.thy ===== *)
theory Net_Channel
  imports Prelude
begin

text \<open>
  Messages, buffered ports and channels of the interconnect: \<open>components/NetShim/netcommon.hpp\<close>,
  \<open>channel.hpp\<close> and \<open>channel.cpp\<close>. The linked lists of messages become HOL lists; the arrays
  with one entry per virtual channel become functions on channel numbers below \<open>MAX_VC\<close>; the
  global variable \<open>currTime\<close> is an argument. A channel gets its two ports as arguments and
  returns them updated.
\<close>

section \<open>Messages\<close>

abbreviation (input) MAX_NET_VC :: nat where "MAX_NET_VC \<equiv> 2"
abbreviation (input) MAX_PROT_VC :: nat where "MAX_PROT_VC \<equiv> 4"
abbreviation (input) MAX_VC :: nat where "MAX_VC \<equiv> 8"

definition BUILD_VC :: "int \<Rightarrow> int \<Rightarrow> int" where
  "BUILD_VC prot net = prot * int MAX_NET_VC + net"

definition min_macro :: "int \<Rightarrow> int \<Rightarrow> int" where
  "min_macro a b = (if a > b then b else a)"

record MessageState =
  srcNode :: int
  destNode :: int
  priority :: int
  networkVC :: int
  nextHop :: int
  nextVC :: int
  transmitLatency :: int
  flexusInFastMode :: bool
  serial :: int
  hopCount :: int
  bufferTime :: int
  atHeadTime :: int
  acceptTime :: int
  startTS :: int

definition reinit :: "int \<Rightarrow> int \<Rightarrow> int \<Rightarrow> int \<Rightarrow> bool \<Rightarrow> int \<Rightarrow> MessageState \<Rightarrow> MessageState" where
  "reinit src dest prio lat fast ts msg =
     \<lparr>srcNode = src, destNode = dest, priority = prio, networkVC = 0, nextHop = -1, nextVC = -1,
      transmitLatency = lat, flexusInFastMode = fast, serial = serial msg, hopCount = -1,
      bufferTime = 0, atHeadTime = 0, acceptTime = 0, startTS = ts\<rparr>"

section \<open>Ports\<close>

record ChannelPort =
  bufferCount :: "nat \<Rightarrow> int"
  buffersUsed :: "nat \<Rightarrow> int"
  msl :: "nat \<Rightarrow> MessageState list"
  connected :: bool

abbreviation (input) INT_MAX :: int where "INT_MAX \<equiv> 2147483647"

definition ChannelPort_new :: "int \<Rightarrow> ChannelPort result" where
  "ChannelPort_new aBufferCount = dbg_assert (aBufferCount > 0)
     (Inr \<lparr>bufferCount = (\<lambda>i. if (i = 0 \<or> i = 1) \<and> aBufferCount = INT_MAX then 1 else aBufferCount),
           buffersUsed = (\<lambda>_. 0), msl = (\<lambda>_. []), connected = False\<rparr>)"

definition vc_ok :: "int \<Rightarrow> bool" where
  "vc_ok vc \<longleftrightarrow> 0 \<le> vc \<and> vc < int MAX_VC"

definition insertMessageHelper ::
    "int \<Rightarrow> MessageState \<Rightarrow> 'a ChannelPort_scheme \<Rightarrow> 'a ChannelPort_scheme result" where
  "insertMessageHelper now msg p = dbg_assert (vc_ok (networkVC msg))
     (let vc = nat (networkVC msg) in
      if msl p vc = [] then
        Inr (p\<lparr>msl := (msl p)(vc := [msg\<lparr>atHeadTime := atHeadTime msg - now\<rparr>])\<rparr>)
      else Inr (p\<lparr>msl := (msl p)(vc := msl p vc @ [msg])\<rparr>))"

definition ChannelPort_removeMessage ::
    "int \<Rightarrow> int \<Rightarrow> 'a ChannelPort_scheme \<Rightarrow> ('a ChannelPort_scheme \<times> MessageState) result" where
  "ChannelPort_removeMessage now vc p = dbg_assert (vc_ok vc)
     (case msl p (nat vc) of
        [] \<Rightarrow> Inl AssertFailed
      | msg # rest \<Rightarrow>
          let rest' = (case rest of [] \<Rightarrow> []
                 | m # ms \<Rightarrow> m\<lparr>atHeadTime := atHeadTime m - now\<rparr> # ms)
          in Inr (p\<lparr>msl := (msl p)(nat vc := rest'),
                    buffersUsed := (buffersUsed p)(nat vc := buffersUsed p (nat vc) - 1)\<rparr>,
                  msg\<lparr>atHeadTime := atHeadTime msg + now, bufferTime := bufferTime msg + now\<rparr>))"

definition peekMessage :: "int \<Rightarrow> 'a ChannelPort_scheme \<Rightarrow> MessageState option result" where
  "peekMessage vc p = dbg_assert (vc_ok vc)
     (Inr (case msl p (nat vc) of [] \<Rightarrow> None | m # _ \<Rightarrow> Some m))"

definition hasMessage :: "int \<Rightarrow> 'a ChannelPort_scheme \<Rightarrow> bool result" where
  "hasMessage vc p = dbg_assert (vc_ok vc) (Inr (msl p (nat vc) \<noteq> []))"

definition hasBufferSpace :: "int \<Rightarrow> 'a ChannelPort_scheme \<Rightarrow> bool result" where
  "hasBufferSpace vc p = dbg_assert (vc_ok vc)
     (Inr (buffersUsed p (nat vc) < bufferCount p (nat vc)))"

definition getBuffersUsed :: "'a ChannelPort_scheme \<Rightarrow> int" where
  "getBuffersUsed p = sum_list (map (buffersUsed p) [0..<MAX_VC])"

definition setChannel :: "'a ChannelPort_scheme \<Rightarrow> 'a ChannelPort_scheme" where
  "setChannel p = p\<lparr>connected := True\<rparr>"

section \<open>Input ports\<close>

record ChannelInputPort = ChannelPort +
  channelLatency :: int
  delayList :: "(int \<times> MessageState) list"

definition ChannelInputPort_new :: "int \<Rightarrow> int \<Rightarrow> ChannelInputPort result" where
  "ChannelInputPort_new aBufferCount aLatency =
     rbind (ChannelPort_new aBufferCount) (\<lambda>p.
       Inr (ChannelPort.extend p (ChannelInputPort.fields aLatency [])))"

definition ChannelInputPort_insertMessage ::
    "int \<Rightarrow> MessageState \<Rightarrow> ChannelInputPort \<Rightarrow> ChannelInputPort result" where
  "ChannelInputPort_insertMessage now msg p =
     (if \<not> vc_ok (networkVC msg) then Inl OutOfRange
      else let vc = nat (networkVC msg) in
        dbg_assert (buffersUsed p vc < bufferCount p vc)
          (let delay = (if flexusInFastMode msg then now + 1 else now + channelLatency p)
           in Inr (p\<lparr>buffersUsed := (buffersUsed p)(vc := buffersUsed p vc + 1),
                     delayList := delayList p @
                       [(delay, msg\<lparr>bufferTime := bufferTime msg - now\<rparr>)]\<rparr>)))"

text \<open>
  \<open>drive\<close> moves the messages whose delay is over into their queues, from the front of the
  delay list, and notifies the switch or the node behind the port; the second result lists
  the channels of the messages it notifies for.
\<close>

fun delay_walk :: "int \<Rightarrow> (int \<times> MessageState) list \<Rightarrow> ChannelInputPort \<Rightarrow>
    (ChannelInputPort \<times> int list) result" where
  "delay_walk now [] p = Inr (p\<lparr>delayList := []\<rparr>, [])"
| "delay_walk now ((delay, msg) # ds) p =
     (if delay \<le> now then
        rbind (insertMessageHelper now msg p) (\<lambda>p1.
        rbind (delay_walk now ds p1) (\<lambda>(p2, notified).
          Inr (p2, networkVC msg # notified)))
      else Inr (p\<lparr>delayList := (delay, msg) # ds\<rparr>, []))"

definition ChannelInputPort_drive ::
    "int \<Rightarrow> ChannelInputPort \<Rightarrow> (ChannelInputPort \<times> int list) result" where
  "ChannelInputPort_drive now p = delay_walk now (delayList p) p"

definition ChannelInputPort_removeMessage ::
    "int \<Rightarrow> int \<Rightarrow> ChannelInputPort \<Rightarrow> (ChannelInputPort \<times> MessageState) result" where
  "ChannelInputPort_removeMessage now vc p =
     rbind (ChannelPort_removeMessage now vc p) (\<lambda>(p', msg).
       Inr (p', msg\<lparr>bufferTime := bufferTime msg - min_macro (transmitLatency msg) (channelLatency p')\<rparr>))"

definition setLocalDelay :: "ChannelInputPort \<Rightarrow> ChannelInputPort" where
  "setLocalDelay p = p\<lparr>channelLatency := 1\<rparr>"

section \<open>Output ports\<close>

text \<open>
  An output port notifies its channel of every message; the channel's counter is updated by
  the caller, and a port without a channel dereferences a null pointer.
\<close>

definition ChannelOutputPort_insertMessage ::
    "int \<Rightarrow> MessageState \<Rightarrow> ChannelPort \<Rightarrow> ChannelPort result" where
  "ChannelOutputPort_insertMessage now msg p =
     rbind (hasBufferSpace (networkVC msg) p) (\<lambda>space. dbg_assert space
       (let vc = nat (networkVC msg);
            msg = msg\<lparr>bufferTime := bufferTime msg - now\<rparr>;
            msg = (if buffersUsed p vc = 0 then msg\<lparr>acceptTime := acceptTime msg - now\<rparr> else msg)
        in if connected p then
             insertMessageHelper now msg
               (p\<lparr>buffersUsed := (buffersUsed p)(vc := buffersUsed p vc + 1)\<rparr>)
           else Inl OutOfRange))"

definition ChannelOutputPort_removeMessage ::
    "int \<Rightarrow> int \<Rightarrow> ChannelPort \<Rightarrow> (ChannelPort \<times> MessageState) result" where
  "ChannelOutputPort_removeMessage now vc p =
     rbind (ChannelPort_removeMessage now vc p) (\<lambda>(p', msg).
       let p'' = (case msl p' (nat vc) of [] \<Rightarrow> p'
            | m # ms \<Rightarrow> p'\<lparr>msl := (msl p')(nat vc :=
                m\<lparr>acceptTime := acceptTime m - now\<rparr> # ms)\<rparr>)
       in Inr (p'', msg\<lparr>acceptTime := acceptTime msg + now\<rparr>))"

section \<open>Channels\<close>

datatype ChannelState = CS_IDLE | CS_WAIT_FOR_ACCEPT | CS_TRANSFERRING

record Channel =
  ch_id :: int
  busy :: int
  localLatencyDivider :: int
  ch_state :: ChannelState
  messagesWaiting :: int

definition Channel_new :: "int \<Rightarrow> Channel" where
  "Channel_new i = \<lparr>ch_id = i, busy = 0, localLatencyDivider = 1, ch_state = CS_IDLE,
     messagesWaiting = 0\<rparr>"

definition notifyWaitingMessage :: "Channel \<Rightarrow> Channel" where
  "notifyWaitingMessage ch = ch\<lparr>messagesWaiting := messagesWaiting ch + 1\<rparr>"

definition setLocalLatencyDivider :: "int \<Rightarrow> Channel \<Rightarrow> Channel" where
  "setLocalLatencyDivider d ch = ch\<lparr>localLatencyDivider := d\<rparr>"

type_synonym link = "Channel \<times> ChannelPort \<times> ChannelInputPort"

text \<open>
  The busy time of a transfer: integer division rounds up, and is at least one cycle. The sum is
  one of 32 bit integers, and the division traps on the two operands the processor refuses.
\<close>

definition busy_time :: "int \<Rightarrow> int \<Rightarrow> int result" where
  "busy_time lat divider =
     (let n = wrap32 (lat + divider - 1) in
      if divider = 0 \<or> (n = - (2 ^ 31) \<and> divider = - 1) then Inl DivTrap
      else let b = n sdiv divider in Inr (if b \<le> 0 then 1 else b))"

definition transfer :: "int \<Rightarrow> nat \<Rightarrow> link \<Rightarrow> link result" where
  "transfer now i = (\<lambda>(ch, from, to).
     rbind (ChannelOutputPort_removeMessage now (int i) from) (\<lambda>(from', msg).
     rbind (ChannelInputPort_insertMessage now msg to) (\<lambda>to'.
     rbind (busy_time (transmitLatency msg) (localLatencyDivider ch)) (\<lambda>b.
       Inr (ch\<lparr>ch_state := CS_TRANSFERRING, busy := b, messagesWaiting := messagesWaiting ch - 1\<rparr>,
            from', to')))))"

text \<open>The scan over the virtual channels from \<open>i\<close> on, which stops at the first transfer.\<close>

fun accept_loop :: "int \<Rightarrow> nat list \<Rightarrow> link \<Rightarrow> link result" where
  "accept_loop now [] l = Inr l"
| "accept_loop now (i # is) (ch, from, to) =
     rbind (hasMessage (int i) from) (\<lambda>has. rbind (hasBufferSpace (int i) to) (\<lambda>space.
       if has \<and> space then transfer now i (ch, from, to)
       else accept_loop now is (ch, from, to)))"

definition drive_transferring :: "link \<Rightarrow> link" where
  "drive_transferring = (\<lambda>(ch, from, to).
     let ch = ch\<lparr>busy := busy ch - 1\<rparr>
     in (if busy ch \<le> 0 then ch\<lparr>ch_state := CS_IDLE\<rparr> else ch, from, to))"

definition drive_wait :: "int \<Rightarrow> link \<Rightarrow> link result" where
  "drive_wait now = (\<lambda>(ch, from, to).
     dbg_assert (busy ch \<le> 0) (dbg_assert (messagesWaiting ch > 0)
       (rbind (accept_loop now [0..<MAX_VC] (ch, from, to)) (\<lambda>(ch, from, to).
          Inr (if ch_state ch = CS_TRANSFERRING then drive_transferring (ch, from, to)
               else (ch, from, to))))))"

definition Channel_drive :: "int \<Rightarrow> link \<Rightarrow> link result" where
  "Channel_drive now = (\<lambda>(ch, from, to).
     (case ch_state ch of
        CS_IDLE \<Rightarrow>
          dbg_assert (busy ch \<le> 0)
            (if messagesWaiting ch > 0
             then drive_wait now (ch\<lparr>ch_state := CS_WAIT_FOR_ACCEPT\<rparr>, from, to)
             else Inr (ch, from, to))
      | CS_WAIT_FOR_ACCEPT \<Rightarrow> drive_wait now (ch, from, to)
      | CS_TRANSFERRING \<Rightarrow> Inr (drive_transferring (ch, from, to))))"

section \<open>Buffers as queues\<close>

text \<open>A message without its statistics.\<close>

definition core_of :: "MessageState \<Rightarrow> MessageState" where
  "core_of m = m\<lparr>bufferTime := 0, atHeadTime := 0, acceptTime := 0\<rparr>"

lemma core_of_simps [simp]:
  "core_of (m\<lparr>bufferTime := x\<rparr>) = core_of m" "core_of (m\<lparr>atHeadTime := x\<rparr>) = core_of m"
  "core_of (m\<lparr>acceptTime := x\<rparr>) = core_of m" "networkVC (core_of m) = networkVC m"
  "transmitLatency (core_of m) = transmitLatency m" "core_of (core_of m) = core_of m"
  by (simp_all add: core_of_def)

lemma vc_ok_int [simp]: "vc_ok (int vc) \<longleftrightarrow> vc < 8"
  by (simp add: vc_ok_def)

lemma vc_ok_nat: "vc_ok v \<Longrightarrow> nat v < 8 \<and> int (nat v) = v"
  by (auto simp: vc_ok_def)

text \<open>
  What the switches and channels rely on of a buffer: it keeps one queue per virtual channel
  within a capacity, an insertion appends the message to the queue of its channel or fails
  when that is full, and a removal takes the head of a queue that has a message ready.
\<close>

locale vc_buffer =
  fixes inv :: "'s \<Rightarrow> bool"
    and contents :: "'s \<Rightarrow> nat \<Rightarrow> MessageState list"
    and capacity :: "'s \<Rightarrow> nat \<Rightarrow> int"
    and ins :: "int \<Rightarrow> MessageState \<Rightarrow> 's \<Rightarrow> 's result"
  assumes bounded: "inv s \<Longrightarrow> vc < 8 \<Longrightarrow> int (length (contents s vc)) \<le> capacity s vc"
    and tagged: "inv s \<Longrightarrow> vc < 8 \<Longrightarrow> m \<in> set (contents s vc) \<Longrightarrow> networkVC m = int vc"
    and ins_ok: "inv s \<Longrightarrow> vc < 8 \<Longrightarrow> networkVC m = int vc \<Longrightarrow>
      int (length (contents s vc)) < capacity s vc \<Longrightarrow>
      \<exists>s'. ins now m s = Inr s' \<and> inv s' \<and> capacity s' = capacity s \<and>
        contents s' = (contents s)(vc := contents s vc @ [core_of m])"
    and ins_full: "inv s \<Longrightarrow> vc < 8 \<Longrightarrow> networkVC m = int vc \<Longrightarrow>
      capacity s vc \<le> int (length (contents s vc)) \<Longrightarrow> \<exists>e. ins now m s = Inl e"
begin

lemma ins_iff:
  assumes "inv s" "vc < 8" "networkVC m = int vc"
  shows "(\<exists>s'. ins now m s = Inr s') \<longleftrightarrow> int (length (contents s vc)) < capacity s vc"
  using ins_ok [OF assms] ins_full [OF assms] by (metis Inl_Inr_False not_less)

lemma ins_Inr:
  assumes "inv s" "vc < 8" "networkVC m = int vc" "ins now m s = Inr s'"
  shows "inv s' \<and> capacity s' = capacity s \<and>
    contents s' = (contents s)(vc := contents s vc @ [core_of m])"
proof -
  have "int (length (contents s vc)) < capacity s vc" using ins_iff [OF assms(1-3)] assms(4) by blast
  from ins_ok [OF assms(1-3) this, of now] assms(4) show ?thesis by auto
qed

text \<open>A burst of messages is appended in order, each to the queue of its channel.\<close>

lemma burst:
  assumes "inv s" "\<forall>m \<in> set ms. vc_ok (networkVC m)"
    and "foldl (\<lambda>r m. rbind r (ins now m)) (Inr s) ms = Inr s'"
  shows "inv s' \<and> capacity s' = capacity s \<and>
    (\<forall>vc < 8. contents s' vc =
       contents s vc @ map core_of (filter (\<lambda>m. networkVC m = int vc) ms))"
  using assms
proof (induction ms arbitrary: s)
  case (Cons m ms)
  have abort: "foldl (\<lambda>r m. rbind r (ins now m)) (Inl e) ns = Inl e" for e ns
    by (induction ns) simp_all
  obtain s1 where s1: "ins now m s = Inr s1"
    using Cons.prems(3) abort by (cases "ins now m s") auto
  have vc: "nat (networkVC m) < 8" "networkVC m = int (nat (networkVC m))"
    using Cons.prems(2) vc_ok_nat by (metis list.set_intros(1))+
  note i = ins_Inr [OF Cons.prems(1) vc s1]
  have "foldl (\<lambda>r m. rbind r (ins now m)) (Inr s1) ms = Inr s'"
    using Cons.prems(3) s1 by simp
  with Cons.IH [of s1] i Cons.prems(2)
  have "inv s' \<and> capacity s' = capacity s1 \<and> (\<forall>vc < 8. contents s' vc =
       contents s1 vc @ map core_of (filter (\<lambda>m. networkVC m = int vc) ms))"
    by simp
  then show ?case using i vc by auto
qed simp

end

locale vc_queue = vc_buffer inv contents capacity ins
  for inv :: "'s \<Rightarrow> bool" and contents capacity ins +
  fixes ready :: "'s \<Rightarrow> nat \<Rightarrow> bool"
    and rem :: "int \<Rightarrow> int \<Rightarrow> 's \<Rightarrow> ('s \<times> MessageState) result"
  assumes rem_ok: "inv s \<Longrightarrow> vc < 8 \<Longrightarrow> ready s vc \<Longrightarrow>
      \<exists>s' m. rem now (int vc) s = Inr (s', m) \<and> inv s' \<and> capacity s' = capacity s \<and>
        networkVC m = int vc \<and> contents s vc = core_of m # contents s' vc \<and>
        (\<forall>v. v \<noteq> vc \<longrightarrow> contents s' v = contents s v)"
begin

text \<open>A removal makes room for exactly one insertion on its channel.\<close>

lemma rem_then_ins:
  assumes "inv s" "vc < 8" "ready s vc" "networkVC m = int vc"
  shows "\<exists>s1 r s2. rem now (int vc) s = Inr (s1, r) \<and> ins now m s1 = Inr s2 \<and> inv s2 \<and>
    core_of r # contents s2 vc = contents s vc @ [core_of m]"
proof -
  obtain s1 r where r: "rem now (int vc) s = Inr (s1, r)" "inv s1" "capacity s1 = capacity s"
    "contents s vc = core_of r # contents s1 vc"
    using rem_ok [OF assms(1-3)] by blast
  have "int (length (contents s1 vc)) < capacity s1 vc"
    using bounded [OF assms(1,2)] r by simp
  from ins_ok [OF r(2) assms(2,4) this, of now] r show ?thesis by auto
qed

end

section \<open>Occupancy\<close>

text \<open>
  The counters agree with the queues, stay within the buffer counts, and every message is in
  the queue of its channel.
\<close>

definition buf_ok :: "(nat \<Rightarrow> MessageState list) \<Rightarrow> (nat \<Rightarrow> int) \<Rightarrow> (nat \<Rightarrow> int) \<Rightarrow> bool" where
  "buf_ok cnt used cap \<longleftrightarrow> (\<forall>vc < 8. used vc = int (length (cnt vc)) \<and>
     int (length (cnt vc)) \<le> cap vc \<and>
     (\<forall>m \<in> set (cnt vc). networkVC m = int vc))"

lemma buf_okD:
  assumes "buf_ok cnt used cap" "vc < 8"
  shows "used vc = int (length (cnt vc))" "int (length (cnt vc)) \<le> cap vc"
    "m \<in> set (cnt vc) \<Longrightarrow> networkVC m = int vc"
  using assms by (auto simp: buf_ok_def)

lemma buf_ok_append:
  assumes "buf_ok cnt used cap" "vc < 8" "networkVC m = int vc" "used vc < cap vc"
  shows "buf_ok (cnt(vc := cnt vc @ [core_of m])) (used(vc := used vc + 1)) cap"
  using assms by (simp add: buf_ok_def)

lemma buf_ok_pop:
  assumes "buf_ok cnt used cap" "vc < 8" "cnt vc = m # ms"
  shows "buf_ok (cnt(vc := ms)) (used(vc := used vc - 1)) cap" "networkVC m = int vc"
proof -
  have vc: "used vc = int (length ms) + 1" "int (length ms) + 1 \<le> cap vc"
    "\<forall>m' \<in> set (m # ms). networkVC m' = int vc"
    using buf_okD [OF assms(1,2)] assms(3) by auto
  then show "buf_ok (cnt(vc := ms)) (used(vc := used vc - 1)) cap" "networkVC m = int vc"
    using assms(1) by (simp_all add: buf_ok_def)
qed

lemma buf_ok_cong:
  "(\<And>vc. vc < 8 \<Longrightarrow> cnt' vc = cnt vc) \<Longrightarrow> buf_ok cnt' used cap = buf_ok cnt used cap"
  by (simp add: buf_ok_def)

text \<open>The message a removal from a port takes, and what stays in its queue.\<close>

lemma remove_base:
  assumes "vc < 8" "msl p vc = m # ms"
  shows "\<exists>ms' m'. ChannelPort_removeMessage now (int vc) p =
      Inr (p\<lparr>msl := (msl p)(vc := ms'), buffersUsed := (buffersUsed p)(vc := buffersUsed p vc - 1)\<rparr>, m') \<and>
    map core_of ms' = map core_of ms \<and> core_of m' = core_of m"
  using assms by (cases ms) (auto simp: ChannelPort_removeMessage_def)

section \<open>Output ports are queues\<close>

definition out_contents :: "'a ChannelPort_scheme \<Rightarrow> nat \<Rightarrow> MessageState list" where
  "out_contents p vc = map core_of (msl p vc)"

definition out_inv :: "ChannelPort \<Rightarrow> bool" where
  "out_inv p \<longleftrightarrow> connected p \<and> buf_ok (out_contents p) (buffersUsed p) (bufferCount p)"

lemma out_insert_ok:
  assumes inv: "out_inv p" and vc: "vc < 8" "networkVC m = int vc"
    and space: "int (length (out_contents p vc)) < bufferCount p vc"
  shows "\<exists>p'. ChannelOutputPort_insertMessage now m p = Inr p' \<and> out_inv p' \<and>
    bufferCount p' = bufferCount p \<and>
    out_contents p' = (out_contents p)(vc := out_contents p vc @ [core_of m])"
proof -
  have b: "buf_ok (out_contents p) (buffersUsed p) (bufferCount p)" "connected p"
    using inv by (simp_all add: out_inv_def)
  have u: "buffersUsed p vc < bufferCount p vc" using buf_okD(1) [OF b(1) vc(1)] space by simp
  have "\<exists>p'. ChannelOutputPort_insertMessage now m p = Inr p' \<and> connected p' \<and>
      bufferCount p' = bufferCount p \<and>
      buffersUsed p' = (buffersUsed p)(vc := buffersUsed p vc + 1) \<and>
      out_contents p' = (out_contents p)(vc := out_contents p vc @ [core_of m])"
    using vc b(2) u
    by (auto simp: ChannelOutputPort_insertMessage_def insertMessageHelper_def hasBufferSpace_def
        out_contents_def Let_def fun_eq_iff)
  then show ?thesis using buf_ok_append [OF b(1) vc u] by (auto simp: out_inv_def)
qed

lemma out_insert_full:
  assumes "out_inv p" "vc < 8" "networkVC m = int vc"
    and "bufferCount p vc \<le> int (length (out_contents p vc))"
  shows "ChannelOutputPort_insertMessage now m p = Inl AssertFailed"
  using assms buf_okD(1) [of "out_contents p" "buffersUsed p" "bufferCount p" vc]
  by (simp add: ChannelOutputPort_insertMessage_def hasBufferSpace_def out_inv_def)

lemma out_remove_ok:
  assumes inv: "out_inv p" and vc: "vc < 8" and ne: "msl p vc \<noteq> []"
  shows "\<exists>p' m. ChannelOutputPort_removeMessage now (int vc) p = Inr (p', m) \<and> out_inv p' \<and>
    bufferCount p' = bufferCount p \<and> networkVC m = int vc \<and>
    out_contents p vc = core_of m # out_contents p' vc \<and>
    (\<forall>v. v \<noteq> vc \<longrightarrow> out_contents p' v = out_contents p v)"
proof -
  have b: "buf_ok (out_contents p) (buffersUsed p) (bufferCount p)" "connected p"
    using inv by (simp_all add: out_inv_def)
  obtain m ms where q: "msl p vc = m # ms" using ne by (auto simp: neq_Nil_conv)
  obtain ms' m' where r: "ChannelPort_removeMessage now (int vc) p = Inr (p\<lparr>msl := (msl p)(vc := ms'),
      buffersUsed := (buffersUsed p)(vc := buffersUsed p vc - 1)\<rparr>, m')"
    "map core_of ms' = map core_of ms" "core_of m' = core_of m"
    using remove_base [where p = p, OF vc q] by blast
  have "\<exists>p'. ChannelOutputPort_removeMessage now (int vc) p =
        Inr (p', m'\<lparr>acceptTime := acceptTime m' + now\<rparr>) \<and> connected p' \<and>
      bufferCount p' = bufferCount p \<and> buffersUsed p' = (buffersUsed p)(vc := buffersUsed p vc - 1) \<and>
      out_contents p' = (out_contents p)(vc := map core_of ms)"
    using r b(2) by (cases ms')
      (auto simp: ChannelOutputPort_removeMessage_def out_contents_def fun_eq_iff)
  moreover have "out_contents p vc = core_of m # map core_of ms" using q by (simp add: out_contents_def)
  moreover have "networkVC m' = networkVC m" using r(3) by (metis core_of_simps(4))
  ultimately show ?thesis
    using buf_ok_pop [OF b(1) vc] r(3) by (fastforce simp: out_inv_def)
qed

interpretation out_port: vc_queue out_inv out_contents bufferCount ChannelOutputPort_insertMessage
  "\<lambda>p vc. msl p vc \<noteq> []" ChannelOutputPort_removeMessage
proof unfold_locales
  show "int (length (out_contents s vc)) \<le> bufferCount s vc" if "out_inv s" "vc < 8" for s vc
    using that buf_okD(2) by (auto simp: out_inv_def)
  show "networkVC m = int vc" if "out_inv s" "vc < 8" "m \<in> set (out_contents s vc)" for s vc m
    using that buf_okD(3) by (auto simp: out_inv_def)
qed (use out_insert_ok out_insert_full out_remove_ok in blast)+

section \<open>Input ports are queues\<close>

definition delayed :: "ChannelInputPort \<Rightarrow> nat \<Rightarrow> MessageState list" where
  "delayed p vc = filter (\<lambda>m. networkVC m = int vc) (map snd (delayList p))"

definition in_contents :: "ChannelInputPort \<Rightarrow> nat \<Rightarrow> MessageState list" where
  "in_contents p vc = map core_of (msl p vc) @ map core_of (delayed p vc)"

definition in_inv :: "ChannelInputPort \<Rightarrow> bool" where
  "in_inv p \<longleftrightarrow> (\<forall>m \<in> set (map snd (delayList p)). vc_ok (networkVC m)) \<and>
     buf_ok (in_contents p) (buffersUsed p) (bufferCount p)"

lemma in_insert_ok:
  assumes inv: "in_inv p" and vc: "vc < 8" "networkVC m = int vc"
    and space: "int (length (in_contents p vc)) < bufferCount p vc"
  shows "\<exists>p'. ChannelInputPort_insertMessage now m p = Inr p' \<and> in_inv p' \<and>
    bufferCount p' = bufferCount p \<and>
    in_contents p' = (in_contents p)(vc := in_contents p vc @ [core_of m])"
proof -
  have b: "buf_ok (in_contents p) (buffersUsed p) (bufferCount p)"
    "\<forall>m \<in> set (map snd (delayList p)). vc_ok (networkVC m)"
    using inv by (simp_all add: in_inv_def)
  have u: "buffersUsed p vc < bufferCount p vc" using buf_okD(1) [OF b(1) vc(1)] space by simp
  have "\<exists>p'. ChannelInputPort_insertMessage now m p = Inr p' \<and>
      (\<forall>m \<in> set (map snd (delayList p')). vc_ok (networkVC m)) \<and>
      bufferCount p' = bufferCount p \<and>
      buffersUsed p' = (buffersUsed p)(vc := buffersUsed p vc + 1) \<and>
      in_contents p' = (in_contents p)(vc := in_contents p vc @ [core_of m])"
    using vc b(2) u
    by (auto simp: ChannelInputPort_insertMessage_def in_contents_def delayed_def Let_def fun_eq_iff)
  then show ?thesis using buf_ok_append [OF b(1) vc u] by (auto simp: in_inv_def)
qed

lemma in_insert_full:
  assumes "in_inv p" "vc < 8" "networkVC m = int vc"
    and "bufferCount p vc \<le> int (length (in_contents p vc))"
  shows "ChannelInputPort_insertMessage now m p = Inl AssertFailed"
  using assms buf_okD(1) [of "in_contents p" "buffersUsed p" "bufferCount p" vc]
  by (simp add: ChannelInputPort_insertMessage_def in_inv_def)

lemma in_remove_ok:
  assumes inv: "in_inv p" and vc: "vc < 8" and ne: "msl p vc \<noteq> []"
  shows "\<exists>p' m. ChannelInputPort_removeMessage now (int vc) p = Inr (p', m) \<and> in_inv p' \<and>
    bufferCount p' = bufferCount p \<and> networkVC m = int vc \<and>
    in_contents p vc = core_of m # in_contents p' vc \<and>
    (\<forall>v. v \<noteq> vc \<longrightarrow> in_contents p' v = in_contents p v)"
proof -
  have b: "buf_ok (in_contents p) (buffersUsed p) (bufferCount p)"
    using inv by (simp add: in_inv_def)
  obtain m ms where q: "msl p vc = m # ms" using ne by (auto simp: neq_Nil_conv)
  obtain ms' m' where r: "ChannelPort_removeMessage now (int vc) p = Inr (p\<lparr>msl := (msl p)(vc := ms'),
      buffersUsed := (buffersUsed p)(vc := buffersUsed p vc - 1)\<rparr>, m')"
    "map core_of ms' = map core_of ms" "core_of m' = core_of m"
    using remove_base [where p = p, OF vc q] by blast
  let ?p = "p\<lparr>msl := (msl p)(vc := ms'), buffersUsed := (buffersUsed p)(vc := buffersUsed p vc - 1)\<rparr>"
  have c: "in_contents ?p = (in_contents p)(vc := map core_of ms @ map core_of (delayed p vc))"
    using r(2) by (auto simp: in_contents_def delayed_def fun_eq_iff)
  have h: "in_contents p vc = core_of m # (map core_of ms @ map core_of (delayed p vc))"
    using q by (simp add: in_contents_def)
  have "networkVC m' = networkVC m" using r(3) by (metis core_of_simps(4))
  moreover have "in_inv ?p" "networkVC m = int vc"
    using buf_ok_pop [OF b vc h] inv c by (simp_all add: in_inv_def)
  ultimately show ?thesis
    using r c h by (auto simp: ChannelInputPort_removeMessage_def)
qed

interpretation in_port: vc_queue in_inv in_contents bufferCount ChannelInputPort_insertMessage
  "\<lambda>p vc. msl p vc \<noteq> []" ChannelInputPort_removeMessage
proof unfold_locales
  show "int (length (in_contents s vc)) \<le> bufferCount s vc" if "in_inv s" "vc < 8" for s vc
    using that buf_okD(2) by (auto simp: in_inv_def)
  show "networkVC m = int vc" if "in_inv s" "vc < 8" "m \<in> set (in_contents s vc)" for s vc m
    using that buf_okD(3) by (auto simp: in_inv_def)
qed (use in_insert_ok in_insert_full in_remove_ok in blast)+

lemma helper_ok:
  assumes "vc_ok (networkVC m)"
  shows "\<exists>p1. insertMessageHelper now m p = Inr p1 \<and> buffersUsed p1 = buffersUsed p \<and>
    bufferCount p1 = bufferCount p \<and> channelLatency p1 = channelLatency p \<and>
    (\<forall>v. map core_of (msl p1 v) =
       map core_of (msl p v) @ (if v = nat (networkVC m) then [core_of m] else []))"
  using assms by (auto simp: insertMessageHelper_def Let_def)

text \<open>
  Moving the messages whose delay is over into the queues changes neither the contents of an
  input port nor its order; the port notifies once per message moved.
\<close>

lemma delay_walk_ok:
  assumes "\<forall>m \<in> set (map snd ds). vc_ok (networkVC m)"
  shows "\<exists>p' ns. delay_walk now ds p = Inr (p', ns) \<and> buffersUsed p' = buffersUsed p \<and>
    bufferCount p' = bufferCount p \<and> channelLatency p' = channelLatency p \<and>
    (\<forall>vc < 8. in_contents p' vc = in_contents (p\<lparr>delayList := ds\<rparr>) vc) \<and>
    set (delayList p') \<subseteq> set ds \<and>
    length ds = length ns + length (delayList p') \<and>
    (\<forall>d ds'. delayList p' = d # ds' \<longrightarrow> now < fst d)"
  using assms
proof (induction ds arbitrary: p)
  case Nil
  then show ?case by (simp add: in_contents_def delayed_def)
next
  case (Cons d ds)
  obtain t m where d: "d = (t, m)" by (cases d)
  show ?case
  proof (cases "t \<le> now")
    case False
    then show ?thesis using d by (simp add: in_contents_def delayed_def)
  next
    case True
    have vc: "nat (networkVC m) < 8" "int (nat (networkVC m)) = networkVC m" "vc_ok (networkVC m)"
      using Cons.prems d vc_ok_nat by auto
    obtain p1 where p1: "insertMessageHelper now m p = Inr p1" "buffersUsed p1 = buffersUsed p"
      "bufferCount p1 = bufferCount p" "channelLatency p1 = channelLatency p"
      "\<forall>v. map core_of (msl p1 v) =
         map core_of (msl p v) @ (if v = nat (networkVC m) then [core_of m] else [])"
      using helper_ok [OF vc(3)] by blast
    obtain p' ns where i: "delay_walk now ds p1 = Inr (p', ns)" "buffersUsed p' = buffersUsed p1"
      "bufferCount p' = bufferCount p1" "channelLatency p' = channelLatency p1"
      "\<forall>vc < 8. in_contents p' vc = in_contents (p1\<lparr>delayList := ds\<rparr>) vc"
      "set (delayList p') \<subseteq> set ds" "length ds = length ns + length (delayList p')"
      "\<forall>d ds'. delayList p' = d # ds' \<longrightarrow> now < fst d"
      using Cons.IH [of p1] Cons.prems by auto
    have c: "in_contents (p1\<lparr>delayList := ds\<rparr>) v = in_contents (p\<lparr>delayList := d # ds\<rparr>) v" for v
      using p1(5) [rule_format, of v] vc(2) d by (auto simp: in_contents_def delayed_def)
    have "delay_walk now (d # ds) p = Inr (p', networkVC m # ns)"
      using d True p1(1) i(1) by simp
    then show ?thesis using i p1(2-4) c by auto
  qed
qed

lemma in_drive_ok:
  assumes "in_inv p"
  shows "\<exists>p' ns. ChannelInputPort_drive now p = Inr (p', ns) \<and> in_inv p' \<and>
    bufferCount p' = bufferCount p \<and> (\<forall>vc < 8. in_contents p' vc = in_contents p vc) \<and>
    length (delayList p) = length ns + length (delayList p') \<and>
    (\<forall>d ds. delayList p' = d # ds \<longrightarrow> now < fst d)"
proof -
  have "\<forall>m \<in> set (map snd (delayList p)). vc_ok (networkVC m)"
    using assms by (simp add: in_inv_def)
  from delay_walk_ok [OF this, of now p] obtain p' ns where
    i: "delay_walk now (delayList p) p = Inr (p', ns)" "buffersUsed p' = buffersUsed p"
      "bufferCount p' = bufferCount p"
      "\<forall>vc < 8. in_contents p' vc = in_contents p vc"
      "set (delayList p') \<subseteq> set (delayList p)"
      "length (delayList p) = length ns + length (delayList p')"
      "\<forall>d ds. delayList p' = d # ds \<longrightarrow> now < fst d"
    by auto
  have "buf_ok (in_contents p') (buffersUsed p') (bufferCount p')"
    using buf_ok_cong [of "in_contents p'" "in_contents p"] i assms by (simp add: in_inv_def)
  then have "in_inv p'" using i(5) assms by (auto simp: in_inv_def)
  with i show ?thesis by (simp add: ChannelInputPort_drive_def)
qed

section \<open>Channels\<close>

definition link_seq :: "link \<Rightarrow> nat \<Rightarrow> MessageState list" where
  "link_seq = (\<lambda>(ch, from, to) vc. in_contents to vc @ out_contents from vc)"

definition link_inv :: "link \<Rightarrow> bool" where
  "link_inv = (\<lambda>(ch, from, to). out_inv from \<and> in_inv to \<and> localLatencyDivider ch > 0 \<and>
     messagesWaiting ch = getBuffersUsed from \<and>
     (ch_state ch = CS_TRANSFERRING \<longleftrightarrow> busy ch > 0) \<and>
     (ch_state ch = CS_WAIT_FOR_ACCEPT \<longrightarrow> messagesWaiting ch > 0))"

lemma busy_time_ceiling:
  assumes "divider > 0" "lat \<ge> 0" "lat + divider \<le> 2 ^ 31"
  shows "busy_time lat divider = Inr (max 1 ((lat + divider - 1) div divider))"
proof -
  have "(lat + divider - 1) sdiv divider = (lat + divider - 1) div divider"
    using assms by (simp add: signed_divide_int_def sgn_if)
  moreover have "wrap32 (lat + divider - 1) = lat + divider - 1" by (rule wrap32_id) (use assms in simp_all)
  ultimately show ?thesis using assms by (auto simp: busy_time_def Let_def max_def)
qed

lemma busy_time_pos: "divider > 0 \<Longrightarrow> \<exists>b. busy_time lat divider = Inr b \<and> 0 < b"
  by (simp add: busy_time_def Let_def)

lemma getBuffersUsed_contents:
  assumes "out_inv p"
  shows "getBuffersUsed p = (\<Sum>vc<8. int (length (out_contents p vc)))"
proof -
  have "getBuffersUsed p = (\<Sum>vc<8. buffersUsed p vc)"
    by (simp add: getBuffersUsed_def sum_list_distinct_conv_sum_set atLeast0LessThan del: upt_rec_numeral)
  also have "\<dots> = (\<Sum>vc<8. int (length (out_contents p vc)))"
    using assms by (intro sum.cong) (auto simp: out_inv_def buf_ok_def)
  finally show ?thesis .
qed

lemma getBuffersUsed_pop:
  assumes "out_inv p" "out_inv p'" "vc < 8" "out_contents p vc = m # out_contents p' vc"
    and "\<forall>v. v \<noteq> vc \<longrightarrow> out_contents p' v = out_contents p v"
  shows "getBuffersUsed p' = getBuffersUsed p - 1"
proof -
  let ?f = "\<lambda>p v. int (length (out_contents p v))"
  have "(\<Sum>v<8. ?f q v) = ?f q vc + (\<Sum>v \<in> {..<8} - {vc}. ?f q v)" for q :: ChannelPort
    by (rule sum.remove) (use assms(3) in simp_all)
  moreover have "(\<Sum>v \<in> {..<8} - {vc}. ?f p v) = (\<Sum>v \<in> {..<8} - {vc}. ?f p' v)"
    using assms(5) by (intro sum.cong) auto
  ultimately show ?thesis
    using assms(4) getBuffersUsed_contents [OF assms(1)] getBuffersUsed_contents [OF assms(2)] by simp
qed

lemma getBuffersUsed_pos:
  assumes "out_inv p" "vc < 8" "msl p vc \<noteq> []"
  shows "getBuffersUsed p > 0"
  unfolding getBuffersUsed_contents [OF assms(1)]
  by (rule sum_pos2 [of _ vc]) (use assms(2,3) in \<open>auto simp: out_contents_def\<close>)

lemma transfer_ok:
  assumes inv: "out_inv from" "in_inv to" and d: "localLatencyDivider ch > 0" and vc: "vc < 8"
    and ne: "msl from vc \<noteq> []" and space: "buffersUsed to vc < bufferCount to vc"
  shows "\<exists>b m from' to'. transfer now vc (ch, from, to) =
      Inr (ch\<lparr>ch_state := CS_TRANSFERRING, busy := b, messagesWaiting := messagesWaiting ch - 1\<rparr>,
           from', to') \<and>
    0 < b \<and> busy_time (transmitLatency m) (localLatencyDivider ch) = Inr b \<and>
    out_inv from' \<and> in_inv to' \<and> getBuffersUsed from' = getBuffersUsed from - 1 \<and>
    out_contents from vc = core_of m # out_contents from' vc \<and>
    in_contents to' = (in_contents to)(vc := in_contents to vc @ [core_of m]) \<and>
    (\<forall>v. v \<noteq> vc \<longrightarrow> out_contents from' v = out_contents from v)"
proof -
  obtain from' m where r: "ChannelOutputPort_removeMessage now (int vc) from = Inr (from', m)"
    "out_inv from'" "networkVC m = int vc" "out_contents from vc = core_of m # out_contents from' vc"
    "\<forall>v. v \<noteq> vc \<longrightarrow> out_contents from' v = out_contents from v"
    "bufferCount from' = bufferCount from"
    using out_remove_ok [OF inv(1) vc ne] by blast
  have "int (length (in_contents to vc)) < bufferCount to vc"
    using inv(2) vc space buf_okD(1) by (metis in_inv_def)
  then obtain to' where i: "ChannelInputPort_insertMessage now m to = Inr to'" "in_inv to'"
    "in_contents to' = (in_contents to)(vc := in_contents to vc @ [core_of m])"
    using in_insert_ok [OF inv(2) vc r(3)] by blast
  obtain b where b: "busy_time (transmitLatency m) (localLatencyDivider ch) = Inr b" "0 < b"
    using busy_time_pos [OF d] by blast
  have "getBuffersUsed from' = getBuffersUsed from - 1"
    using getBuffersUsed_pop [OF inv(1) r(2) vc r(4,5)] .
  then show ?thesis
    using r i b by (auto simp: transfer_def)
qed

definition eligible :: "ChannelPort \<Rightarrow> ChannelInputPort \<Rightarrow> nat \<Rightarrow> bool" where
  "eligible from to vc \<longleftrightarrow> msl from vc \<noteq> [] \<and> buffersUsed to vc < bufferCount to vc"

lemma accept_loop_find:
  assumes "\<forall>i \<in> set is. i < 8"
  shows "accept_loop now is (ch, from, to) =
    (case find (eligible from to) is of None \<Rightarrow> Inr (ch, from, to)
     | Some i \<Rightarrow> transfer now i (ch, from, to))"
  using assms
  by (induction "is") (auto simp: hasMessage_def hasBufferSpace_def eligible_def)

lemma drive_wait_ok:
  assumes inv: "out_inv from" "in_inv to" "localLatencyDivider ch > 0"
    and w: "messagesWaiting ch = getBuffersUsed from" "messagesWaiting ch > 0"
    and b: "busy ch \<le> 0" "ch_state ch = CS_WAIT_FOR_ACCEPT"
  shows "\<exists>l. drive_wait now (ch, from, to) = Inr l \<and> link_inv l \<and>
    (\<forall>vc. link_seq l vc = link_seq (ch, from, to) vc)"
proof (cases "find (eligible from to) [0..<8]")
  case None
  then have "drive_wait now (ch, from, to) = Inr (ch, from, to)"
    using w b accept_loop_find [of "[0..<8]" now ch "from" to]
    by (simp add: drive_wait_def del: upt_rec_numeral)
  then show ?thesis using assms by (simp add: link_inv_def)
next
  case (Some vc)
  then have vc: "vc < 8" "eligible from to vc"
    by (auto simp: find_Some_iff nth_upt simp del: upt_rec_numeral)
  obtain n m from' to' where t: "transfer now vc (ch, from, to) =
      Inr (ch\<lparr>ch_state := CS_TRANSFERRING, busy := n, messagesWaiting := messagesWaiting ch - 1\<rparr>,
           from', to')" "0 < n" "out_inv from'" "in_inv to'"
    "getBuffersUsed from' = getBuffersUsed from - 1"
    "out_contents from vc = core_of m # out_contents from' vc"
    "in_contents to' = (in_contents to)(vc := in_contents to vc @ [core_of m])"
    "\<forall>v. v \<noteq> vc \<longrightarrow> out_contents from' v = out_contents from v"
    using transfer_ok [OF inv vc(1), of now] vc(2) unfolding eligible_def by blast
  have "drive_wait now (ch, from, to) = Inr (drive_transferring
      (ch\<lparr>ch_state := CS_TRANSFERRING, busy := n, messagesWaiting := messagesWaiting ch - 1\<rparr>,
       from', to'))"
    using w b t(1) Some accept_loop_find [of "[0..<8]" now ch "from" to]
    by (simp add: drive_wait_def del: upt_rec_numeral)
  then show ?thesis
    using t w inv by (auto simp: drive_transferring_def link_inv_def link_seq_def Let_def)
qed

lemma Channel_drive_ok:
  assumes "link_inv l"
  shows "\<exists>l'. Channel_drive now l = Inr l' \<and> link_inv l' \<and> (\<forall>vc. link_seq l' vc = link_seq l vc)"
proof -
  obtain ch "from" to where l: "l = (ch, from, to)" by (cases l) auto
  have inv: "out_inv from" "in_inv to" "localLatencyDivider ch > 0"
    "messagesWaiting ch = getBuffersUsed from" "ch_state ch = CS_TRANSFERRING \<longleftrightarrow> busy ch > 0"
    "ch_state ch = CS_WAIT_FOR_ACCEPT \<longrightarrow> messagesWaiting ch > 0"
    using assms by (auto simp: l link_inv_def)
  show ?thesis
  proof (cases "ch_state ch")
    case CS_IDLE
    show ?thesis
    proof (cases "messagesWaiting ch > 0")
      case True
      let ?ch = "ch\<lparr>ch_state := CS_WAIT_FOR_ACCEPT\<rparr>"
      have "\<exists>l'. drive_wait now (?ch, from, to) = Inr l' \<and> link_inv l' \<and>
          (\<forall>vc. link_seq l' vc = link_seq (?ch, from, to) vc)"
        using drive_wait_ok [of "from" to ?ch] inv True CS_IDLE by simp
      moreover have "link_seq (?ch, from, to) = link_seq l" by (simp add: l link_seq_def)
      ultimately show ?thesis using CS_IDLE True inv by (auto simp: l Channel_drive_def)
    next
      case False
      then show ?thesis using CS_IDLE inv assms by (simp add: l Channel_drive_def)
    qed
  next
    case CS_WAIT_FOR_ACCEPT
    then show ?thesis
      using drive_wait_ok [of "from" to ch now] inv by (simp add: l Channel_drive_def)
  next
    case CS_TRANSFERRING
    then show ?thesis
      using inv by (auto simp: l Channel_drive_def drive_transferring_def link_inv_def link_seq_def
          Let_def)
  qed
qed

text \<open>Consecutive cycles of a channel, at the given times.\<close>

primrec drive_cycles :: "int list \<Rightarrow> link \<Rightarrow> link result" where
  "drive_cycles [] l = Inr l"
| "drive_cycles (now # ts) l = rbind (Channel_drive now l) (drive_cycles ts)"

text \<open>A link with one waiting message, for the witnesses.\<close>

definition ex_msg :: MessageState where
  "ex_msg = \<lparr>srcNode = 0, destNode = 1, priority = 0, networkVC = 0, nextHop = -1, nextVC = -1,
     transmitLatency = 3, flexusInFastMode = False, serial = 7, hopCount = -1, bufferTime = 0,
     atHeadTime = 0, acceptTime = 0, startTS = 0\<rparr>"

definition ex_link :: link where
  "ex_link =
     ((Channel_new 0)\<lparr>messagesWaiting := 1\<rparr>,
      \<lparr>bufferCount = (\<lambda>_. 2), buffersUsed = (\<lambda>_. 0)(0 := 1), msl = (\<lambda>_. [])(0 := [ex_msg]),
       connected = True\<rparr>,
      \<lparr>bufferCount = (\<lambda>_. 2), buffersUsed = (\<lambda>_. 0), msl = (\<lambda>_. []), connected = True,
       channelLatency = 5, delayList = []\<rparr>)"

lemma ex_link_inv: "link_inv ex_link"
  by (simp add: link_inv_def ex_link_def Channel_new_def out_inv_def in_inv_def buf_ok_def
      out_contents_def in_contents_def delayed_def getBuffersUsed_def ex_msg_def
      eval_nat_numeral)

lemma Channel_drive_takes:
  assumes "link_inv (ch, from, to)" "ch_state ch \<noteq> CS_TRANSFERRING" "vc < 8"
    and "eligible from to vc" "\<forall>v < vc. \<not> eligible from to v"
  shows "\<exists>n m from' to'. Channel_drive now (ch, from, to) = Inr (drive_transferring
      (ch\<lparr>ch_state := CS_TRANSFERRING, busy := n, messagesWaiting := messagesWaiting ch - 1\<rparr>,
       from', to')) \<and>
    0 < n \<and> busy_time (transmitLatency m) (localLatencyDivider ch) = Inr n \<and>
    out_contents from vc = core_of m # out_contents from' vc \<and>
    in_contents to' = (in_contents to)(vc := in_contents to vc @ [core_of m]) \<and>
    (\<forall>v. v \<noteq> vc \<longrightarrow> out_contents from' v = out_contents from v)"
proof -
  have inv: "out_inv from" "in_inv to" "localLatencyDivider ch > 0"
    "messagesWaiting ch = getBuffersUsed from" "busy ch \<le> 0"
    using assms(1,2) by (auto simp: link_inv_def)
  have f: "find (eligible from to) [0..<8] = Some vc"
    using assms(3-5) by (auto simp: find_Some_iff simp del: upt_rec_numeral)
  have p: "getBuffersUsed from > 0"
    using getBuffersUsed_pos [OF inv(1) assms(3)] assms(4) by (simp add: eligible_def)
  let ?ch = "ch\<lparr>ch_state := CS_WAIT_FOR_ACCEPT\<rparr>"
  have e: "msl from vc \<noteq> []" "buffersUsed to vc < bufferCount to vc" "0 < localLatencyDivider ?ch"
    using assms(4) inv(3) by (simp_all add: eligible_def)
  obtain n m from' to' where t: "transfer now vc (?ch, from, to) =
      Inr (?ch\<lparr>ch_state := CS_TRANSFERRING, busy := n, messagesWaiting := messagesWaiting ?ch - 1\<rparr>,
           from', to')" "0 < n" "busy_time (transmitLatency m) (localLatencyDivider ?ch) = Inr n"
    "out_contents from vc = core_of m # out_contents from' vc"
    "in_contents to' = (in_contents to)(vc := in_contents to vc @ [core_of m])"
    "\<forall>v. v \<noteq> vc \<longrightarrow> out_contents from' v = out_contents from v"
    using transfer_ok [OF inv(1,2) e(3) assms(3) e(1,2), of now] by blast
  have "drive_wait now (?ch, from, to) = Inr (drive_transferring
      (?ch\<lparr>ch_state := CS_TRANSFERRING, busy := n, messagesWaiting := messagesWaiting ?ch - 1\<rparr>,
       from', to'))"
    using inv p t(1) f accept_loop_find [of "[0..<8]" now ?ch "from" to]
    by (simp add: drive_wait_def del: upt_rec_numeral)
  moreover have "Channel_drive now (ch, from, to) = drive_wait now (?ch, from, to)"
    using assms(2) inv p by (cases ch; cases "ch_state ch") (auto simp: Channel_drive_def)
  ultimately show ?thesis using t by auto
qed

lemma drive_cycles_busy:
  assumes "ch_state ch = CS_TRANSFERRING" "0 < busy ch" "int (length ts) \<le> busy ch"
  shows "\<exists>ch'. drive_cycles ts (ch, from, to) = Inr (ch', from, to) \<and>
    (ch_state ch' = CS_IDLE \<longleftrightarrow> int (length ts) = busy ch)"
  using assms
proof (induction ts arbitrary: ch)
  case (Cons t ts)
  show ?case
  proof (cases "busy ch = 1")
    case True
    then show ?thesis
      using Cons.prems by (simp add: Channel_drive_def drive_transferring_def Let_def)
  next
    case False
    then show ?thesis
      using Cons.prems Cons.IH [of "ch\<lparr>busy := busy ch - 1\<rparr>"]
      by (auto simp: Channel_drive_def drive_transferring_def Let_def)
  qed
qed simp

section \<open>Properties\<close>

text \<open>
  C9: a channel between two consistent ports never fails an assertion, and neither loses,
  duplicates nor reorders messages: on each virtual channel the sequence of messages held by
  the input port and the output port together is the same after \<open>drive\<close> as before, and the
  counters and buffer bounds of both ports stay consistent.
\<close>

theorem Channel_drive_fifo:
  assumes "link_inv l"
  shows "\<exists>l'. Channel_drive now l = Inr l' \<and> link_inv l' \<and> (\<forall>vc. link_seq l' vc = link_seq l vc)"
  by (rule Channel_drive_ok [OF assms])

text \<open>
  A channel that is not transferring takes, when some virtual channel has a message waiting
  and space at the far end, the first message of the lowest numbered one of these, and nothing
  else.
\<close>

theorem Channel_priority:
  assumes "link_inv (ch, from, to)" "ch_state ch \<noteq> CS_TRANSFERRING" "vc < 8"
    and "eligible from to vc" "\<forall>v < vc. \<not> eligible from to v"
  shows "\<exists>ch' from' to' m. Channel_drive now (ch, from, to) = Inr (ch', from', to') \<and>
    out_contents from vc = m # out_contents from' vc \<and>
    in_contents to' = (in_contents to)(vc := in_contents to vc @ [m]) \<and>
    (\<forall>v. v \<noteq> vc \<longrightarrow> out_contents from' v = out_contents from v)"
  using Channel_drive_takes [OF assms, of now]
  by (auto simp: drive_transferring_def Let_def split: if_splits)

text \<open>
  C33: a message occupies its channel for its transmit latency over the channel's divider,
  rounded up, and at least one cycle, when the latency is not negative and its sum with the
  divider is at most \<open>2\<^sup>3\<^sup>1\<close>, so that it does not overflow: while that time runs, the channel
  moves no other message, whatever waits, and becomes idle exactly at its end.
\<close>

theorem channel_occupancy:
  assumes "link_inv (ch, from, to)" "ch_state ch \<noteq> CS_TRANSFERRING" "vc < 8"
    and "eligible from to vc" "\<forall>v < vc. \<not> eligible from to v"
    and "transmitLatency (hd (msl from vc)) \<ge> 0" "transmitLatency (hd (msl from vc)) + localLatencyDivider ch \<le> 2 ^ 31"
    and "b = max 1 ((transmitLatency (hd (msl from vc)) + localLatencyDivider ch - 1)
               div localLatencyDivider ch)"
    and "1 \<le> length ts" "int (length ts) \<le> b"
  shows "\<exists>ch1 from1 to1 ch'. Channel_drive (hd ts) (ch, from, to) = Inr (ch1, from1, to1) \<and>
    drive_cycles ts (ch, from, to) = Inr (ch', from1, to1) \<and>
    (ch_state ch' = CS_IDLE \<longleftrightarrow> int (length ts) = b)"
proof -
  obtain t ts' where ts: "ts = t # ts'" using assms(9) by (cases ts) auto
  obtain n m from' to' where t: "Channel_drive t (ch, from, to) = Inr (drive_transferring
      (ch\<lparr>ch_state := CS_TRANSFERRING, busy := n, messagesWaiting := messagesWaiting ch - 1\<rparr>,
       from', to'))" "busy_time (transmitLatency m) (localLatencyDivider ch) = Inr n"
    "out_contents from vc = core_of m # out_contents from' vc"
    using Channel_drive_takes [OF assms(1-5), of t] by blast
  have "msl from vc \<noteq> []" using assms(4) by (simp add: eligible_def)
  then have "core_of m = core_of (hd (msl from vc))"
    using t(3) by (cases "msl from vc") (simp_all add: out_contents_def)
  then have "transmitLatency m = transmitLatency (hd (msl from vc))" by (metis core_of_simps(5))
  moreover have "localLatencyDivider ch > 0" using assms(1) by (simp add: link_inv_def)
  ultimately have n: "n = b" using t(2) busy_time_ceiling assms(6-8) by simp
  show ?thesis
  proof (cases "b = 1")
    case True
    then show ?thesis using t(1) ts n assms(10) by (simp add: drive_transferring_def Let_def)
  next
    case False
    let ?ch = "ch\<lparr>ch_state := CS_TRANSFERRING, busy := b - 1,
      messagesWaiting := messagesWaiting ch - 1\<rparr>"
    have b: "1 < b" using False assms(8) by auto
    then have d: "Channel_drive t (ch, from, to) = Inr (?ch, from', to')"
      using t(1) n by (simp add: drive_transferring_def Let_def)
    obtain ch' where c: "drive_cycles ts' (?ch, from', to') = Inr (ch', from', to')"
      "ch_state ch' = CS_IDLE \<longleftrightarrow> int (length ts') = b - 1"
      using drive_cycles_busy [of ?ch ts' from' to'] b assms(10) ts by auto
    then show ?thesis using d ts by auto
  qed
qed

text \<open>
  Driving an input port moves every message whose delay is over, and no other past one
  that still waits, into its queue without loss or reordering, and notifies the switch or
  node behind the port once for each message moved.
\<close>

theorem input_port_drive:
  assumes "in_inv p"
  shows "\<exists>p' ns. ChannelInputPort_drive now p = Inr (p', ns) \<and> in_inv p' \<and>
    bufferCount p' = bufferCount p \<and> (\<forall>vc < 8. in_contents p' vc = in_contents p vc) \<and>
    length (delayList p) = length ns + length (delayList p') \<and>
    (\<forall>d ds. delayList p' = d # ds \<longrightarrow> now < fst d)"
  by (rule in_drive_ok [OF assms])

text \<open>
  a burst of messages accepted by an output port is queued per virtual channel in the order
  of insertion, behind what was there, and within the port's buffer counts.
\<close>

theorem output_port_burst:
  assumes "out_inv p" "\<forall>m \<in> set ms. vc_ok (networkVC m)"
    and "foldl (\<lambda>r m. rbind r (ChannelOutputPort_insertMessage now m)) (Inr p) ms = Inr p'"
  shows "out_inv p' \<and> (\<forall>vc < 8. int (length (out_contents p' vc)) \<le> bufferCount p vc \<and>
    out_contents p' vc =
      out_contents p vc @ map core_of (filter (\<lambda>m. networkVC m = int vc) ms))"
  using out_port.burst [OF assms] out_port.bounded [of p'] by auto

theorem Channel_drive_fifo_witness:
  "\<exists>l'. Channel_drive 4 ex_link = Inr l' \<and> link_inv l' \<and> (\<forall>vc. link_seq l' vc = link_seq ex_link vc)"
  by (rule Channel_drive_fifo [OF ex_link_inv])

theorem Channel_priority_witness:
  "\<exists>ch from to ch' from' to' m. Channel_drive 4 (ch, from, to) = Inr (ch', from', to') \<and>
    out_contents from 0 = m # out_contents from' 0 \<and>
    in_contents to' = (in_contents to)(0 := in_contents to 0 @ [m])"
proof -
  obtain ch "from" to where l: "ex_link = (ch, from, to)" by (cases ex_link) auto
  have i: "link_inv (ch, from, to)" using ex_link_inv l by simp
  have e: "ch_state ch \<noteq> CS_TRANSFERRING" "(0 :: nat) < 8" "eligible from to 0"
    "\<forall>v < 0. \<not> eligible from to v"
    using l by (auto simp: ex_link_def Channel_new_def eligible_def)
  have "\<exists>ch' from' to' m. Channel_drive 4 (ch, from, to) = Inr (ch', from', to') \<and>
      out_contents from 0 = m # out_contents from' 0 \<and>
      in_contents to' = (in_contents to)(0 := in_contents to 0 @ [m])"
    using Channel_priority [OF i e, of 4] by blast
  then show ?thesis by blast
qed

theorem channel_occupancy_witness:
  "\<exists>ch from to ch1 from1 to1 ch'. Channel_drive 4 (ch, from, to) = Inr (ch1, from1, to1) \<and>
    drive_cycles [4, 5, 6] (ch, from, to) = Inr (ch', from1, to1) \<and> ch_state ch' = CS_IDLE"
proof -
  obtain ch "from" to where l: "ex_link = (ch, from, to)" by (cases ex_link) auto
  have i: "link_inv (ch, from, to)" using ex_link_inv l by simp
  have e: "ch_state ch \<noteq> CS_TRANSFERRING" "(0 :: nat) < 8" "eligible from to 0"
    "\<forall>v < 0. \<not> eligible from to v"
    using l by (auto simp: ex_link_def Channel_new_def eligible_def)
  have "localLatencyDivider ch = 1" "transmitLatency (hd (msl from 0)) = 3"
    using l by (auto simp: ex_link_def Channel_new_def ex_msg_def)
  then have "\<exists>ch1 from1 to1 ch'. Channel_drive (hd [4, 5, 6]) (ch, from, to) = Inr (ch1, from1, to1) \<and>
      drive_cycles [4, 5, 6] (ch, from, to) = Inr (ch', from1, to1) \<and>
      (ch_state ch' = CS_IDLE \<longleftrightarrow> int (length [4 :: int, 5, 6]) = 3)"
    by (intro channel_occupancy [OF i e]) simp_all
  moreover have "int (length [4 :: int, 5, 6]) = 3" by simp
  ultimately show ?thesis unfolding list.sel by blast
qed

theorem input_port_drive_witness:
  "\<exists>p p' ns. ChannelInputPort_drive 5 p = Inr (p', ns) \<and> in_inv p' \<and> delayList p \<noteq> [] \<and>
    length (delayList p) = length ns + length (delayList p')"
proof -
  let ?p = "\<lparr>bufferCount = (\<lambda>_. 2), buffersUsed = (\<lambda>_. 0)(0 := 1), msl = (\<lambda>_. []),
    connected = True, channelLatency = 5, delayList = [(5, ex_msg)]\<rparr>"
  have "in_inv ?p"
    by (simp add: in_inv_def buf_ok_def in_contents_def delayed_def ex_msg_def vc_ok_def)
  from input_port_drive [OF this, of 5] show ?thesis by fastforce
qed

theorem output_port_burst_witness:
  "\<exists>p p'. foldl (\<lambda>r m. rbind r (ChannelOutputPort_insertMessage 4 m)) (Inr p) [ex_msg] = Inr p' \<and>
    out_contents p' 0 = out_contents p 0 @ [core_of ex_msg]"
proof -
  let ?p = "fst (snd ex_link)"
  have i: "out_inv ?p" using ex_link_inv by (simp add: link_inv_def case_prod_unfold)
  have v: "networkVC ex_msg = int 0" "int (length (out_contents ?p 0)) < bufferCount ?p 0"
    by (simp_all add: ex_msg_def ex_link_def out_contents_def)
  obtain p' where p': "ChannelOutputPort_insertMessage 4 ex_msg ?p = Inr p'"
    using out_insert_ok [OF i _ v] by auto
  then have f: "foldl (\<lambda>r m. rbind r (ChannelOutputPort_insertMessage 4 m)) (Inr ?p) [ex_msg] = Inr p'"
    by simp
  have o: "\<forall>m \<in> set [ex_msg]. vc_ok (networkVC m)" by (simp add: ex_msg_def vc_ok_def)
  from output_port_burst [OF i o f] v(1) have "out_contents p' 0 = out_contents ?p 0 @ [core_of ex_msg]"
    by simp
  with f show ?thesis by blast
qed

end
