(* ===== verification/Net_Switch.thy ===== *)
theory Net_Switch
  imports Net_Channel "HOL-Library.Multiset"
begin

text \<open>
  The switches of the interconnect: \<open>components/NetShim/netswitch.hpp\<close> and \<open>netswitch.cpp\<close>.
  A switch owns its input and output ports and an internal buffer with one list per virtual
  channel and a cursor. The counter of waiting messages of the channel behind an output port,
  which the port notifies, is kept per port in \<open>channelWaiting\<close>.
\<close>

section \<open>Internal buffer\<close>

text \<open>
  \<open>currMessage\<close> is the position of the current node in the list of \<open>currPriority\<close>, or \<open>None\<close>
  for the null pointer.
\<close>

record NetSwitchInternalBuffer =
  ib_bufferCount :: "nat \<Rightarrow> int"
  ib_buffersUsed :: "nat \<Rightarrow> int"
  ageBuffer :: "nat \<Rightarrow> MessageState list"
  currMessage :: "nat option"
  currPriority :: nat

definition NetSwitchInternalBuffer_new :: "int \<Rightarrow> NetSwitchInternalBuffer result" where
  "NetSwitchInternalBuffer_new aBufferCount = dbg_assert (aBufferCount \<ge> 0)
     (Inr \<lparr>ib_bufferCount = (\<lambda>_. aBufferCount), ib_buffersUsed = (\<lambda>_. 0), ageBuffer = (\<lambda>_. []),
           currMessage = None, currPriority = 0\<rparr>)"

definition isFull :: "int \<Rightarrow> NetSwitchInternalBuffer \<Rightarrow> bool result" where
  "isFull vc b = (if vc_ok vc then Inr (ib_buffersUsed b (nat vc) \<ge> ib_bufferCount b (nat vc))
     else Inl OutOfRange)"

definition ib_hasMessage :: "NetSwitchInternalBuffer \<Rightarrow> bool" where
  "ib_hasMessage b = (\<exists>i \<in> set [0..<MAX_VC]. ib_buffersUsed b i > 0)"

definition ib_insertMessage ::
    "int \<Rightarrow> MessageState \<Rightarrow> NetSwitchInternalBuffer \<Rightarrow> NetSwitchInternalBuffer result" where
  "ib_insertMessage now msg b =
     rbind (isFull (networkVC msg) b) (\<lambda>full. dbg_assert (\<not> full)
       (let vc = nat (networkVC msg);
            msg = msg\<lparr>atHeadTime := atHeadTime msg - now, bufferTime := bufferTime msg - now\<rparr>
        in Inr (b\<lparr>ib_buffersUsed := (ib_buffersUsed b)(vc := ib_buffersUsed b vc + 1),
                  ageBuffer := (ageBuffer b)(vc := ageBuffer b vc @ [msg])\<rparr>)))"

definition gotoFirstMessage :: "nat \<Rightarrow> NetSwitchInternalBuffer \<Rightarrow> NetSwitchInternalBuffer" where
  "gotoFirstMessage vc b = b\<lparr>currPriority := vc,
     currMessage := (if ageBuffer b vc = [] then None else Some 0)\<rparr>"

definition ib_getMessage :: "NetSwitchInternalBuffer \<Rightarrow> MessageState option" where
  "ib_getMessage b = (case currMessage b of None \<Rightarrow> None
     | Some i \<Rightarrow> Some (ageBuffer b (currPriority b) ! i))"

definition nextMessage :: "NetSwitchInternalBuffer \<Rightarrow> NetSwitchInternalBuffer \<times> bool" where
  "nextMessage b = (case currMessage b of None \<Rightarrow> (b, True)
     | Some i \<Rightarrow>
         if Suc i < length (ageBuffer b (currPriority b)) then (b\<lparr>currMessage := Some (Suc i)\<rparr>, False)
         else (b\<lparr>currMessage := None\<rparr>, True))"

text \<open>
  Unlinking the current node advances the cursor to the node after it: the same position of
  the shorter list, or the null pointer.
\<close>

definition ib_removeMessage ::
    "int \<Rightarrow> NetSwitchInternalBuffer \<Rightarrow> (NetSwitchInternalBuffer \<times> MessageState) result" where
  "ib_removeMessage now b =
     (case currMessage b of None \<Rightarrow> Inl AssertFailed
      | Some i \<Rightarrow>
          let l = ageBuffer b (currPriority b); msg = l ! i; vc = nat (networkVC msg);
              l' = take i l @ drop (Suc i) l
          in Inr (b\<lparr>ib_buffersUsed := (ib_buffersUsed b)(vc := ib_buffersUsed b vc - 1),
                    ageBuffer := (ageBuffer b)(currPriority b := l'),
                    currMessage := (if i < length l' then Some i else None)\<rparr>,
                  msg\<lparr>atHeadTime := atHeadTime msg + now, bufferTime := bufferTime msg + now\<rparr>))"

section \<open>Switches\<close>

record NetSwitch =
  sw_name :: int
  sw_numNodes :: nat
  sw_numPorts :: nat
  crossbarBandwidth :: int
  nextStartingPort :: nat
  inputPorts :: "ChannelInputPort list"
  outputPorts :: "ChannelPort list"
  internalBuffer :: NetSwitchInternalBuffer
  routingTable :: "int list list"
  vcTable :: "int list list"
  sw_messagesWaiting :: "nat \<Rightarrow> int"
  channelWaiting :: "nat \<Rightarrow> int"

definition NetSwitch_new ::
    "int \<Rightarrow> nat \<Rightarrow> nat \<Rightarrow> int \<Rightarrow> int \<Rightarrow> int \<Rightarrow> int \<Rightarrow> int \<Rightarrow> NetSwitch result" where
  "NetSwitch_new aName nodes ports inDepth outDepth vcDepth bandwidth lat =
     dbg_assert (nodes > 0) (dbg_assert (ports > 0) (dbg_assert (inDepth > 0)
     (dbg_assert (outDepth > 0) (dbg_assert (vcDepth \<ge> 0) (dbg_assert (bandwidth \<noteq> 0)
       (rbind (ChannelInputPort_new inDepth lat) (\<lambda>inp.
        rbind (ChannelPort_new outDepth) (\<lambda>outp.
        rbind (NetSwitchInternalBuffer_new vcDepth) (\<lambda>b.
          Inr \<lparr>sw_name = aName, sw_numNodes = nodes, sw_numPorts = ports,
               crossbarBandwidth = bandwidth, nextStartingPort = 0,
               inputPorts = replicate ports inp, outputPorts = replicate ports outp,
               internalBuffer = b,
               routingTable = replicate nodes (replicate (ports * MAX_NET_VC) (-1)),
               vcTable = replicate nodes (replicate (ports * MAX_NET_VC) (-1)),
               sw_messagesWaiting = (\<lambda>_. 0), channelWaiting = (\<lambda>_. 0)\<rparr>)))))))))"

text \<open>The search of \<open>routingPolicy\<close> over the entries for a destination, in order.\<close>

fun route_search :: "ChannelPort list \<Rightarrow> int \<Rightarrow> (int \<times> int) list \<Rightarrow> (int \<times> int) option result" where
  "route_search outs prio [] = Inr None"
| "route_search outs prio ((port, vc) # es) =
     (if port \<ge> 0 then
        rbind (lookup_vec outs (nat port)) (\<lambda>p.
        rbind (hasBufferSpace (BUILD_VC prio vc) p) (\<lambda>space.
          if space then Inr (Some (port, BUILD_VC prio vc)) else route_search outs prio es))
      else Inr None)"

definition route_entries :: "NetSwitch \<Rightarrow> int \<Rightarrow> (int \<times> int) list result" where
  "route_entries sw dest =
     (if dest < 0 then Inl OutOfRange
      else rbind (lookup_vec (routingTable sw) (nat dest)) (\<lambda>ps.
           rbind (lookup_vec (vcTable sw) (nat dest)) (\<lambda>vs. Inr (zip ps vs))))"

text \<open>
  \<open>routingPolicy\<close> returns the message with its next hop and channel set, or nothing when no
  route has space.
\<close>

definition routingPolicy :: "NetSwitch \<Rightarrow> MessageState \<Rightarrow> MessageState option result" where
  "routingPolicy sw msg =
     rbind (route_entries sw (destNode msg)) (\<lambda>es.
     rbind (route_search (outputPorts sw) (priority msg) es) (\<lambda>r.
       Inr (case r of None \<Rightarrow> None
            | Some (port, vc) \<Rightarrow> Some (msg\<lparr>nextHop := port, nextVC := vc\<rparr>))))"

definition sendMessageToOutput :: "int \<Rightarrow> MessageState \<Rightarrow> NetSwitch \<Rightarrow> NetSwitch result" where
  "sendMessageToOutput now msg sw =
     (let msg = msg\<lparr>networkVC := nextVC msg, nextVC := -1, hopCount := hopCount msg + 1\<rparr>;
          port = nat (nextHop msg) in
      if nextHop msg < 0 then Inl OutOfRange
      else rbind (lookup_vec (outputPorts sw) port) (\<lambda>p.
           rbind (ChannelOutputPort_insertMessage now msg p) (\<lambda>p'.
             Inr (sw\<lparr>outputPorts := (outputPorts sw)[port := p'],
                     channelWaiting := (channelWaiting sw)(port := channelWaiting sw port + 1)\<rparr>))))"

text \<open>
  The loop over the internal buffer. Its fuel is the number of messages of the list, which the
  cursor passes at least one of per iteration. The message is routed, taken out with its next
  hop, and sent; after a removal the cursor already stands on the next message, and
  \<open>nextMessage\<close> moves it once more.
\<close>

fun internal_loop :: "int \<Rightarrow> nat \<Rightarrow> int \<Rightarrow> NetSwitch \<Rightarrow> (NetSwitch \<times> int) result" where
  "internal_loop now 0 bw sw = Inr (sw, bw)"
| "internal_loop now (Suc fuel) bw sw =
     (case ib_getMessage (internalBuffer sw) of
        None \<Rightarrow> Inr (sw, bw)
      | Some msg \<Rightarrow>
          if \<not> bw > 0 then Inr (sw, bw)
          else rbind (routingPolicy sw msg) (\<lambda>r.
            rbind (case r of None \<Rightarrow> Inr (sw, bw)
                   | Some rmsg \<Rightarrow>
                       rbind (ib_removeMessage now (internalBuffer sw)) (\<lambda>(b, m).
                       rbind (sendMessageToOutput now
                                (m\<lparr>nextHop := nextHop rmsg, nextVC := nextVC rmsg\<rparr>)
                                (sw\<lparr>internalBuffer := b\<rparr>)) (\<lambda>sw'.
                         Inr (sw', bw - 1))))
              (\<lambda>(sw', bw').
                let (b, stop) = nextMessage (internalBuffer sw');
                    sw'' = sw'\<lparr>internalBuffer := b\<rparr>
                in if stop then Inr (sw'', bw') else internal_loop now fuel bw' sw'')))"

text \<open>One input port on one virtual channel.\<close>

definition port_step :: "int \<Rightarrow> nat \<Rightarrow> nat \<Rightarrow> int \<Rightarrow> NetSwitch \<Rightarrow> (NetSwitch \<times> int) result" where
  "port_step now vc port bw sw =
     rbind (lookup_vec (inputPorts sw) port) (\<lambda>p.
     rbind (peekMessage (int vc) p) (\<lambda>pk.
     case pk of None \<Rightarrow> Inr (sw, bw)
     | Some msg \<Rightarrow>
         rbind (routingPolicy sw msg) (\<lambda>r.
         case r of
           Some rmsg \<Rightarrow>
             rbind (ChannelInputPort_removeMessage now (int vc) p) (\<lambda>(p', m).
             rbind (sendMessageToOutput now
                      (m\<lparr>nextHop := nextHop rmsg, nextVC := nextVC rmsg\<rparr>)
                      (sw\<lparr>inputPorts := (inputPorts sw)[port := p']\<rparr>)) (\<lambda>sw'.
               Inr (sw'\<lparr>sw_messagesWaiting :=
                      (sw_messagesWaiting sw')(vc := sw_messagesWaiting sw' vc - 1)\<rparr>, bw - 1)))
         | None \<Rightarrow>
             rbind (isFull (networkVC msg) (internalBuffer sw)) (\<lambda>full.
             if full then Inr (sw, bw)
             else rbind (ChannelInputPort_removeMessage now (int vc) p) (\<lambda>(p', m).
                  rbind (ib_insertMessage now m (internalBuffer sw)) (\<lambda>b.
                    Inr (sw\<lparr>inputPorts := (inputPorts sw)[port := p'], internalBuffer := b,
                            sw_messagesWaiting :=
                              (sw_messagesWaiting sw)(vc := sw_messagesWaiting sw vc - 1)\<rparr>,
                         bw)))))))"

text \<open>
  The do-while loop over the ports: the body runs at least once, and the loop goes on while
  the starting port is not reached again and the remaining bandwidth is not 0.
\<close>

fun port_loop :: "int \<Rightarrow> nat \<Rightarrow> nat list \<Rightarrow> int \<Rightarrow> NetSwitch \<Rightarrow> (NetSwitch \<times> int) result" where
  "port_loop now vc [] bw sw = Inr (sw, bw)"
| "port_loop now vc (port # ports) bw sw =
     rbind (port_step now vc port bw sw) (\<lambda>(sw', bw').
       if ports \<noteq> [] \<and> bw' \<noteq> 0 then port_loop now vc ports bw' sw' else Inr (sw', bw'))"

definition port_order :: "NetSwitch \<Rightarrow> nat list" where
  "port_order sw = map (\<lambda>k. (nextStartingPort sw + k) mod sw_numPorts sw) [0..<sw_numPorts sw]"

definition vc_step :: "int \<Rightarrow> nat \<Rightarrow> int \<Rightarrow> NetSwitch \<Rightarrow> (NetSwitch \<times> int) result" where
  "vc_step now vc bw sw =
     (let sw = sw\<lparr>internalBuffer := gotoFirstMessage vc (internalBuffer sw)\<rparr> in
      rbind (internal_loop now (length (ageBuffer (internalBuffer sw) vc)) bw sw) (\<lambda>(sw, bw).
        if sw_messagesWaiting sw vc = 0 then Inr (sw, bw)
        else port_loop now vc (port_order sw) bw sw))"

fun vc_loop :: "int \<Rightarrow> nat list \<Rightarrow> int \<Rightarrow> NetSwitch \<Rightarrow> (NetSwitch \<times> int) result" where
  "vc_loop now [] bw sw = Inr (sw, bw)"
| "vc_loop now (vc # vcs) bw sw =
     rbind (vc_step now vc bw sw) (\<lambda>(sw', bw'). vc_loop now vcs bw' sw')"

definition NetSwitch_drive :: "int \<Rightarrow> NetSwitch \<Rightarrow> NetSwitch result" where
  "NetSwitch_drive now sw =
     rbind (vc_loop now [0..<MAX_VC] (crossbarBandwidth sw) sw) (\<lambda>(sw', bw).
       Inr (sw'\<lparr>nextStartingPort := (nextStartingPort sw' + 1) mod sw_numPorts sw'\<rparr>))"

text \<open>The input ports notify their switch per message that becomes ready.\<close>

definition notify_all :: "int list \<Rightarrow> (nat \<Rightarrow> int) \<Rightarrow> (nat \<Rightarrow> int)" where
  "notify_all ns w = fold (\<lambda>v w. w(nat v := w (nat v) + 1)) ns w"

fun drive_input_list :: "int \<Rightarrow> ChannelInputPort list \<Rightarrow>
    (ChannelInputPort list \<times> int list) result" where
  "drive_input_list now [] = Inr ([], [])"
| "drive_input_list now (p # ps) =
     rbind (ChannelInputPort_drive now p) (\<lambda>(p', ns).
     rbind (drive_input_list now ps) (\<lambda>(ps', ms). Inr (p' # ps', ns @ ms)))"

definition driveInputPorts :: "int \<Rightarrow> NetSwitch \<Rightarrow> NetSwitch result" where
  "driveInputPorts now sw =
     rbind (drive_input_list now (inputPorts sw)) (\<lambda>(ps, ns).
       Inr (sw\<lparr>inputPorts := ps, sw_messagesWaiting := notify_all ns (sw_messagesWaiting sw)\<rparr>))"

section \<open>Set-up\<close>

definition checkRoutingTable :: "NetSwitch \<Rightarrow> bool result" where
  "checkRoutingTable sw =
     foldl (\<lambda>r row. rbind r (\<lambda>found. rbind (lookup_vec row 0) (\<lambda>e0.
        foldl (\<lambda>r e. rbind r (\<lambda>found.
            if e \<noteq> -1 then
              (if e < 0 then Inl OutOfRange
               else rbind (lookup_vec (outputPorts sw) (nat e)) (\<lambda>p. Inr (found \<or> \<not> connected p)))
            else Inr found))
          (Inr (found \<or> e0 = -1)) row)))
       (Inr False) (routingTable sw)"

text \<open>
  The first free entry of the row takes the route; a duplicate is reported as a warning only,
  and a full row is an error.
\<close>

fun add_entry :: "int \<Rightarrow> int \<Rightarrow> int list \<Rightarrow> int list \<Rightarrow> (int list \<times> int list) option" where
  "add_entry port vc (p # ps) (v # vs) =
     (if p = port \<and> v = vc then Some (p # ps, v # vs)
      else if p < 0 then Some (port # ps, vc # vs)
      else map_option (\<lambda>(ps', vs'). (p # ps', v # vs')) (add_entry port vc ps vs))"
| "add_entry port vc _ _ = None"

definition addRoutingEntry :: "int \<Rightarrow> int \<Rightarrow> int \<Rightarrow> NetSwitch \<Rightarrow> NetSwitch result" where
  "addRoutingEntry node port vc sw =
     dbg_assert (node < int (sw_numNodes sw) \<and> node \<ge> 0)
     (dbg_assert (port < int (sw_numPorts sw) \<and> port \<ge> 0)
     (dbg_assert (vc < int MAX_NET_VC \<and> vc \<ge> 0)
       (rbind (lookup_vec (routingTable sw) (nat node)) (\<lambda>ps.
        rbind (lookup_vec (vcTable sw) (nat node)) (\<lambda>vs.
        case add_entry port vc ps vs of
          None \<Rightarrow> Inl Reported
        | Some (ps', vs') \<Rightarrow>
            Inr (sw\<lparr>routingTable := (routingTable sw)[nat node := ps'],
                    vcTable := (vcTable sw)[nat node := vs']\<rparr>))))))"

definition setLocalDelayOnly :: "nat \<Rightarrow> NetSwitch \<Rightarrow> NetSwitch result" where
  "setLocalDelayOnly port sw = dbg_assert (port < sw_numPorts sw)
     (rbind (lookup_vec (inputPorts sw) port) (\<lambda>p.
        Inr (sw\<lparr>inputPorts := (inputPorts sw)[port := setLocalDelay p]\<rparr>)))"

section \<open>Messages of a switch\<close>

text \<open>
  The identity of a message: what the network never changes. The hop fields and the
  statistics are left out.
\<close>

definition ident :: "MessageState \<Rightarrow> MessageState" where
  "ident m = m\<lparr>networkVC := 0, nextHop := 0, nextVC := 0, hopCount := 0, bufferTime := 0,
     atHeadTime := 0, acceptTime := 0\<rparr>"

lemma ident_simps [simp]:
  "ident (core_of m) = ident m" "ident (m\<lparr>networkVC := x\<rparr>) = ident m"
  "ident (m\<lparr>nextHop := x\<rparr>) = ident m" "ident (m\<lparr>nextVC := x\<rparr>) = ident m"
  "ident (m\<lparr>hopCount := x\<rparr>) = ident m" "destNode (ident m) = destNode m"
  "priority (ident m) = priority m" "serial (ident m) = serial m"
  by (simp_all add: ident_def core_of_def)

lemma core_of_eq_ident: "core_of m = core_of m' \<Longrightarrow> ident m = ident m'"
  by (metis ident_simps(1))

definition buf_msgs :: "(nat \<Rightarrow> MessageState list) \<Rightarrow> MessageState multiset" where
  "buf_msgs c = (\<Sum>vc<8. mset (map ident (c vc)))"

lemma buf_msgs_split:
  assumes "vc < 8"
  shows "buf_msgs c = mset (map ident (c vc)) + (\<Sum>v \<in> {..<8} - {vc}. mset (map ident (c v)))"
  unfolding buf_msgs_def by (rule sum.remove) (use assms in simp_all)

lemma buf_msgs_append:
  assumes "vc < 8"
  shows "buf_msgs (c(vc := c vc @ [m])) = add_mset (ident m) (buf_msgs c)"
proof -
  have "(\<Sum>v \<in> {..<8} - {vc}. mset (map ident ((c(vc := c vc @ [m])) v))) =
      (\<Sum>v \<in> {..<8} - {vc}. mset (map ident (c v)))"
    by (intro sum.cong) auto
  then show ?thesis
    using buf_msgs_split [OF assms, of c] buf_msgs_split [OF assms, of "c(vc := c vc @ [m])"] by simp
qed

lemma buf_msgs_pop:
  assumes "vc < 8" "c vc = m # c' vc" "\<forall>v. v \<noteq> vc \<longrightarrow> c' v = c v"
  shows "buf_msgs c = add_mset (ident m) (buf_msgs c')"
proof -
  have "(\<Sum>v \<in> {..<8} - {vc}. mset (map ident (c v))) =
      (\<Sum>v \<in> {..<8} - {vc}. mset (map ident (c' v)))"
    using assms(3) by (intro sum.cong) auto
  then show ?thesis
    using buf_msgs_split [OF assms(1), of c] buf_msgs_split [OF assms(1), of c'] assms(2) by simp
qed

lemma buf_msgs_mem: "vc < 8 \<Longrightarrow> m \<in> set (c vc) \<Longrightarrow> ident m \<in># buf_msgs c"
  using buf_msgs_split [of vc c] by auto

lemma buf_msgs_cong: "(\<And>vc. vc < 8 \<Longrightarrow> c vc = c' vc) \<Longrightarrow> buf_msgs c = buf_msgs c'"
  unfolding buf_msgs_def by (intro sum.cong) auto

lemma sum_list_update:
  "i < length xs \<Longrightarrow> sum_list (map f (xs[i := y])) + f (xs ! i) = sum_list (map f xs) + f y"
  for f :: "'a \<Rightarrow> 'b multiset"
proof (induction xs arbitrary: i)
  case (Cons x xs)
  then show ?case by (cases i) (auto simp: ac_simps)
qed simp

definition ib_contents :: "NetSwitchInternalBuffer \<Rightarrow> nat \<Rightarrow> MessageState list" where
  "ib_contents b vc = map core_of (ageBuffer b vc)"

definition in_msgs :: "NetSwitch \<Rightarrow> MessageState multiset" where
  "in_msgs sw = sum_list (map (\<lambda>p. buf_msgs (in_contents p)) (inputPorts sw))"

definition out_msgs :: "NetSwitch \<Rightarrow> MessageState multiset" where
  "out_msgs sw = sum_list (map (\<lambda>p. buf_msgs (out_contents p)) (outputPorts sw))"

definition sw_msgs :: "NetSwitch \<Rightarrow> MessageState multiset" where
  "sw_msgs sw = in_msgs sw + buf_msgs (ib_contents (internalBuffer sw)) + out_msgs sw"

section \<open>Internal buffer\<close>

definition ib_inv :: "NetSwitchInternalBuffer \<Rightarrow> bool" where
  "ib_inv b \<longleftrightarrow> buf_ok (ib_contents b) (ib_buffersUsed b) (ib_bufferCount b)"

lemma ib_insert_ok:
  assumes inv: "ib_inv b" and vc: "vc < 8" "networkVC m = int vc"
    and space: "int (length (ib_contents b vc)) < ib_bufferCount b vc"
  shows "\<exists>b'. ib_insertMessage now m b = Inr b' \<and> ib_inv b' \<and>
    ib_bufferCount b' = ib_bufferCount b \<and>
    ib_contents b' = (ib_contents b)(vc := ib_contents b vc @ [core_of m])"
proof -
  have b: "buf_ok (ib_contents b) (ib_buffersUsed b) (ib_bufferCount b)"
    using inv by (simp add: ib_inv_def)
  have u: "ib_buffersUsed b vc < ib_bufferCount b vc" using buf_okD(1) [OF b vc(1)] space by simp
  have "\<exists>b'. ib_insertMessage now m b = Inr b' \<and> ib_bufferCount b' = ib_bufferCount b \<and>
      ib_buffersUsed b' = (ib_buffersUsed b)(vc := ib_buffersUsed b vc + 1) \<and>
      ib_contents b' = (ib_contents b)(vc := ib_contents b vc @ [core_of m])"
    using vc u by (auto simp: ib_insertMessage_def isFull_def ib_contents_def Let_def fun_eq_iff)
  then show ?thesis using buf_ok_append [OF b vc u] by (auto simp: ib_inv_def)
qed

lemma ib_insert_full:
  assumes "ib_inv b" "vc < 8" "networkVC m = int vc"
    and "ib_bufferCount b vc \<le> int (length (ib_contents b vc))"
  shows "ib_insertMessage now m b = Inl AssertFailed"
  using assms buf_okD(1) [of "ib_contents b" "ib_buffersUsed b" "ib_bufferCount b" vc]
  by (simp add: ib_insertMessage_def isFull_def ib_inv_def)

interpretation internal_buf: vc_buffer ib_inv ib_contents ib_bufferCount ib_insertMessage
proof unfold_locales
  show "int (length (ib_contents s vc)) \<le> ib_bufferCount s vc" if "ib_inv s" "vc < 8" for s vc
    using that buf_okD(2) by (auto simp: ib_inv_def)
  show "networkVC m = int vc" if "ib_inv s" "vc < 8" "m \<in> set (ib_contents s vc)" for s vc m
    using that buf_okD(3) by (auto simp: ib_inv_def)
qed (use ib_insert_ok ib_insert_full in blast)+

definition cursor_ok :: "nat \<Rightarrow> NetSwitchInternalBuffer \<Rightarrow> bool" where
  "cursor_ok vc b \<longleftrightarrow> currPriority b = vc \<and>
     (\<forall>i. currMessage b = Some i \<longrightarrow> i < length (ageBuffer b vc))"

lemma buf_ok_remove_nth:
  assumes "buf_ok cnt used cap" "vc < 8" "i < length (cnt vc)"
  shows "buf_ok (cnt(vc := take i (cnt vc) @ drop (Suc i) (cnt vc))) (used(vc := used vc - 1)) cap"
proof -
  have "used vc = int (length (cnt vc))" "int (length (cnt vc)) \<le> cap vc"
    "\<forall>m \<in> set (cnt vc). networkVC m = int vc"
    using buf_okD [OF assms(1,2)] by auto
  moreover have "set (take i (cnt vc) @ drop (Suc i) (cnt vc)) \<subseteq> set (cnt vc)"
    using set_take_subset set_drop_subset by fastforce
  ultimately show ?thesis using assms by (auto simp: buf_ok_def)
qed

lemma ib_remove_ok:
  assumes inv: "ib_inv b" and vc: "vc < 8" and c: "cursor_ok vc b" "currMessage b = Some i"
  shows "\<exists>b' m. ib_removeMessage now b = Inr (b', m) \<and> ib_inv b' \<and> cursor_ok vc b' \<and>
    core_of m = core_of (ageBuffer b vc ! i) \<and>
    ib_contents b' = (ib_contents b)(vc := take i (ib_contents b vc) @ drop (Suc i) (ib_contents b vc)) \<and>
    ageBuffer b' vc = take i (ageBuffer b vc) @ drop (Suc i) (ageBuffer b vc) \<and>
    currMessage b' = (if Suc i < length (ageBuffer b vc) then Some i else None)"
proof -
  have b: "buf_ok (ib_contents b) (ib_buffersUsed b) (ib_bufferCount b)"
    using inv by (simp add: ib_inv_def)
  have i: "i < length (ageBuffer b vc)" "currPriority b = vc" using c by (auto simp: cursor_ok_def)
  then have "core_of (ageBuffer b vc ! i) \<in> set (ib_contents b vc)" by (simp add: ib_contents_def)
  then have v: "networkVC (ageBuffer b vc ! i) = int vc" using buf_okD(3) [OF b vc] by fastforce
  let ?l = "take i (ageBuffer b vc) @ drop (Suc i) (ageBuffer b vc)"
  let ?b = "b\<lparr>ib_buffersUsed := (ib_buffersUsed b)(vc := ib_buffersUsed b vc - 1),
    ageBuffer := (ageBuffer b)(vc := ?l),
    currMessage := (if Suc i < length (ageBuffer b vc) then Some i else None)\<rparr>"
  have r: "ib_removeMessage now b = Inr (?b, (ageBuffer b vc ! i)
      \<lparr>atHeadTime := atHeadTime (ageBuffer b vc ! i) + now,
       bufferTime := bufferTime (ageBuffer b vc ! i) + now\<rparr>)"
    using c(2) i v by (auto simp: ib_removeMessage_def Let_def)
  have k: "ib_contents ?b = (ib_contents b)
      (vc := take i (ib_contents b vc) @ drop (Suc i) (ib_contents b vc))"
    by (auto simp: ib_contents_def fun_eq_iff take_map drop_map)
  have "ib_inv ?b"
    using buf_ok_remove_nth [OF b vc, of i] i k by (simp add: ib_inv_def ib_contents_def)
  moreover have "cursor_ok vc ?b" using i by (auto simp: cursor_ok_def)
  ultimately show ?thesis using r k by auto
qed

section \<open>Invariant of a switch\<close>

definition msg_ok :: "nat \<Rightarrow> MessageState \<Rightarrow> bool" where
  "msg_ok nodes m \<longleftrightarrow> 0 \<le> destNode m \<and> destNode m < int nodes \<and> 0 \<le> priority m \<and> priority m < 4"

definition routes_ok :: "NetSwitch \<Rightarrow> bool" where
  "routes_ok sw \<longleftrightarrow> length (routingTable sw) = sw_numNodes sw \<and> length (vcTable sw) = sw_numNodes sw \<and>
     (\<forall>n < sw_numNodes sw. \<forall>(p, v) \<in> set (zip (routingTable sw ! n) (vcTable sw ! n)).
        p < 0 \<or> (p < int (sw_numPorts sw) \<and> 0 \<le> v \<and> v < 2))"

definition sw_inv :: "NetSwitch \<Rightarrow> bool" where
  "sw_inv sw \<longleftrightarrow> length (inputPorts sw) = sw_numPorts sw \<and> length (outputPorts sw) = sw_numPorts sw \<and>
     routes_ok sw \<and> (\<forall>p \<in> set (inputPorts sw). in_inv p) \<and> (\<forall>p \<in> set (outputPorts sw). out_inv p) \<and>
     ib_inv (internalBuffer sw) \<and> (\<forall>m \<in># sw_msgs sw. msg_ok (sw_numNodes sw) m)"

text \<open>What a cycle leaves as it is.\<close>

definition sw_fixed :: "NetSwitch \<Rightarrow> NetSwitch \<Rightarrow> bool" where
  "sw_fixed sw sw' \<longleftrightarrow> sw_numPorts sw' = sw_numPorts sw \<and> sw_numNodes sw' = sw_numNodes sw \<and>
     routingTable sw' = routingTable sw \<and> vcTable sw' = vcTable sw \<and>
     nextStartingPort sw' = nextStartingPort sw \<and> crossbarBandwidth sw' = crossbarBandwidth sw"

lemma sw_fixed_refl [simp]: "sw_fixed sw sw"
  by (simp add: sw_fixed_def)

lemma sw_fixed_trans: "sw_fixed a b \<Longrightarrow> sw_fixed b c \<Longrightarrow> sw_fixed a c"
  by (simp add: sw_fixed_def)

lemma routes_ok_fixed: "sw_fixed sw sw' \<Longrightarrow> routes_ok sw' = routes_ok sw"
  by (simp add: sw_fixed_def routes_ok_def)

lemma msg_ok_ident [simp]: "msg_ok n (ident m) = msg_ok n m"
  by (simp add: msg_ok_def)

lemma BUILD_VC_ok: "0 \<le> prio \<Longrightarrow> prio < 4 \<Longrightarrow> 0 \<le> v \<Longrightarrow> v < 2 \<Longrightarrow> vc_ok (BUILD_VC prio v)"
  by (simp add: BUILD_VC_def vc_ok_def)

text \<open>
  A route that the policy chooses is an entry of the table for the destination, leads to an
  existing port, and has buffer space there.
\<close>

definition good_route :: "NetSwitch \<Rightarrow> MessageState \<Rightarrow> int \<Rightarrow> int \<Rightarrow> bool" where
  "good_route sw m port vc \<longleftrightarrow> 0 \<le> port \<and> port < int (sw_numPorts sw) \<and> vc_ok vc \<and>
     (\<exists>v. vc = BUILD_VC (priority m) v \<and>
       (port, v) \<in> set (zip (routingTable sw ! nat (destNode m)) (vcTable sw ! nat (destNode m)))) \<and>
     buffersUsed (outputPorts sw ! nat port) (nat vc) < bufferCount (outputPorts sw ! nat port) (nat vc)"

lemma route_search_ok:
  assumes "\<forall>(p, v) \<in> set es. p < 0 \<or> (p < int (length outs) \<and> 0 \<le> v \<and> v < 2)"
    and "0 \<le> prio" "prio < 4"
  shows "\<exists>r. route_search outs prio es = Inr r \<and>
    (\<forall>port vc. r = Some (port, vc) \<longrightarrow> 0 \<le> port \<and> port < int (length outs) \<and> vc_ok vc \<and>
       (\<exists>v. vc = BUILD_VC prio v \<and> (port, v) \<in> set es) \<and>
       buffersUsed (outs ! nat port) (nat vc) < bufferCount (outs ! nat port) (nat vc)) \<and>
    (r = None \<longrightarrow> (\<forall>(p, v) \<in> set (takeWhile (\<lambda>e. 0 \<le> fst e) es).
       bufferCount (outs ! nat p) (nat (BUILD_VC prio v)) \<le>
       buffersUsed (outs ! nat p) (nat (BUILD_VC prio v))))"
  using assms(1)
proof (induction es)
  case (Cons e es)
  obtain p v where e: "e = (p, v)" by (cases e)
  obtain r where r: "route_search outs prio es = Inr r"
    "\<forall>port vc. r = Some (port, vc) \<longrightarrow> 0 \<le> port \<and> port < int (length outs) \<and> vc_ok vc \<and>
       (\<exists>v. vc = BUILD_VC prio v \<and> (port, v) \<in> set es) \<and>
       buffersUsed (outs ! nat port) (nat vc) < bufferCount (outs ! nat port) (nat vc)"
    "r = None \<longrightarrow> (\<forall>(p, v) \<in> set (takeWhile (\<lambda>e. 0 \<le> fst e) es).
       bufferCount (outs ! nat p) (nat (BUILD_VC prio v)) \<le>
       buffersUsed (outs ! nat p) (nat (BUILD_VC prio v)))"
    using Cons by auto
  show ?case
  proof (cases "p \<ge> 0")
    case False
    then show ?thesis using e by simp
  next
    case True
    then have pv: "p < int (length outs)" "0 \<le> v" "v < 2" using Cons.prems e by auto
    then have ok: "vc_ok (BUILD_VC prio v)" using BUILD_VC_ok assms by blast
    show ?thesis
      using True pv ok r e by (auto simp: hasBufferSpace_def lookup_vec_def nat_less_iff)
  qed
qed simp

text \<open>No entry for the destination, up to the first empty one, has buffer space.\<close>

definition no_route :: "NetSwitch \<Rightarrow> MessageState \<Rightarrow> bool" where
  "no_route sw m \<longleftrightarrow>
     (\<forall>(p, v) \<in> set (takeWhile (\<lambda>e. 0 \<le> fst e)
         (zip (routingTable sw ! nat (destNode m)) (vcTable sw ! nat (destNode m)))).
        bufferCount (outputPorts sw ! nat p) (nat (BUILD_VC (priority m) v)) \<le>
        buffersUsed (outputPorts sw ! nat p) (nat (BUILD_VC (priority m) v)))"

lemma routingPolicy_ok:
  assumes "sw_inv sw" "msg_ok (sw_numNodes sw) m"
  shows "\<exists>r. routingPolicy sw m = Inr r \<and> (\<forall>m'. r = Some m' \<longrightarrow>
    m' = m\<lparr>nextHop := nextHop m', nextVC := nextVC m'\<rparr> \<and> good_route sw m (nextHop m') (nextVC m')) \<and>
    (r = None \<longrightarrow> no_route sw m)"
proof -
  let ?d = "nat (destNode m)"
  have d: "0 \<le> destNode m" "?d < sw_numNodes sw" "0 \<le> priority m" "priority m < 4"
    using assms(2) by (auto simp: msg_ok_def)
  have t: "length (routingTable sw) = sw_numNodes sw" "length (vcTable sw) = sw_numNodes sw"
    "length (outputPorts sw) = sw_numPorts sw"
    using assms(1) by (simp_all add: sw_inv_def routes_ok_def)
  have "\<forall>(p, v) \<in> set (zip (routingTable sw ! ?d) (vcTable sw ! ?d)).
      p < 0 \<or> (p < int (length (outputPorts sw)) \<and> 0 \<le> v \<and> v < 2)"
    using assms(1) d(2) t(3) by (simp add: sw_inv_def routes_ok_def)
  from route_search_ok [OF this d(3,4)] obtain r where r:
    "route_search (outputPorts sw) (priority m) (zip (routingTable sw ! ?d) (vcTable sw ! ?d)) = Inr r"
    "\<forall>port vc. r = Some (port, vc) \<longrightarrow> good_route sw m port vc" "r = None \<longrightarrow> no_route sw m"
    using t(3) by (auto simp: good_route_def no_route_def)
  have "route_entries sw (destNode m) = Inr (zip (routingTable sw ! ?d) (vcTable sw ! ?d))"
    using d t by (simp add: route_entries_def lookup_vec_def)
  then have p: "routingPolicy sw m = Inr (case r of None \<Rightarrow> None
      | Some (port, vc) \<Rightarrow> Some (m\<lparr>nextHop := port, nextVC := vc\<rparr>))"
    using r(1) by (simp add: routingPolicy_def)
  show ?thesis
  proof (cases r)
    case None
    then show ?thesis using p r(3) by simp
  next
    case (Some pv)
    then show ?thesis using p r(2) by (cases pv) auto
  qed
qed

lemma sendMessageToOutput_ok:
  assumes len: "length (outputPorts sw) = sw_numPorts sw" and inv: "\<forall>p \<in> set (outputPorts sw). out_inv p"
    and g: "0 \<le> nextHop m" "nextHop m < int (sw_numPorts sw)" "vc_ok (nextVC m)"
    and s: "buffersUsed (outputPorts sw ! nat (nextHop m)) (nat (nextVC m)) <
      bufferCount (outputPorts sw ! nat (nextHop m)) (nat (nextVC m))"
  shows "\<exists>sw'. sendMessageToOutput now m sw = Inr sw' \<and> sw_fixed sw sw' \<and>
    inputPorts sw' = inputPorts sw \<and> internalBuffer sw' = internalBuffer sw \<and>
    sw_messagesWaiting sw' = sw_messagesWaiting sw \<and>
    length (outputPorts sw') = sw_numPorts sw' \<and> (\<forall>p \<in> set (outputPorts sw'). out_inv p) \<and>
    out_msgs sw' = add_mset (ident m) (out_msgs sw) \<and>
    (\<exists>m' p'. ident m' = ident m \<and> outputPorts sw' = (outputPorts sw)[nat (nextHop m) := p'] \<and>
      out_contents p' = (out_contents (outputPorts sw ! nat (nextHop m)))(nat (nextVC m) :=
        out_contents (outputPorts sw ! nat (nextHop m)) (nat (nextVC m)) @ [m']))"
proof -
  let ?i = "nat (nextHop m)" and ?v = "nat (nextVC m)"
  let ?p = "outputPorts sw ! ?i"
  let ?m = "m\<lparr>networkVC := nextVC m, nextVC := -1, hopCount := hopCount m + 1\<rparr>"
  have i: "?i < length (outputPorts sw)" using g len by auto
  then have pinv: "out_inv ?p" using inv by simp
  have v: "?v < 8" "networkVC ?m = int ?v" using vc_ok_nat [OF g(3)] by auto
  have "int (length (out_contents ?p ?v)) < bufferCount ?p ?v"
    using pinv v(1) s buf_okD(1) by (metis out_inv_def)
  from out_insert_ok [OF pinv v this, of now] obtain p' where p': 
    "ChannelOutputPort_insertMessage now ?m ?p = Inr p'" "out_inv p'"
    "out_contents p' = (out_contents ?p)(?v := out_contents ?p ?v @ [core_of ?m])"
    by blast
  have "buf_msgs (out_contents p') = add_mset (ident m) (buf_msgs (out_contents ?p))"
    unfolding p'(3) by (subst buf_msgs_append [OF v(1)]) simp
  then have o: "sum_list (map (\<lambda>p. buf_msgs (out_contents p)) ((outputPorts sw)[?i := p'])) =
      add_mset (ident m) (sum_list (map (\<lambda>p. buf_msgs (out_contents p)) (outputPorts sw)))"
    using sum_list_update [OF i, of "\<lambda>p. buf_msgs (out_contents p)" p'] by simp
  let ?sw = "sw\<lparr>outputPorts := (outputPorts sw)[?i := p'],
    channelWaiting := (channelWaiting sw)(?i := channelWaiting sw ?i + 1)\<rparr>"
  have "sendMessageToOutput now m sw = Inr ?sw"
    using g(1) i p'(1) by (simp add: sendMessageToOutput_def Let_def lookup_vec_def)
  moreover have "\<forall>p \<in> set (outputPorts ?sw). out_inv p"
    using inv p'(2) set_update_subset_insert by fastforce
  moreover have "\<exists>m' q. ident m' = ident m \<and> outputPorts ?sw = (outputPorts sw)[?i := q] \<and>
      out_contents q = (out_contents ?p)(?v := out_contents ?p ?v @ [m'])"
    using p'(3) by (intro exI [of _ "core_of ?m"] exI [of _ p']) simp
  moreover have "sw_fixed sw ?sw" "out_msgs ?sw = add_mset (ident m) (out_msgs sw)"
    "length (outputPorts ?sw) = sw_numPorts ?sw"
    using o len by (simp_all add: sw_fixed_def out_msgs_def)
  ultimately show ?thesis by (intro exI [of _ ?sw]) simp
qed

lemma sw_inv_step:
  assumes "sw_inv sw" "sw_fixed sw sw'" "sw_msgs sw' = sw_msgs sw"
    and "length (inputPorts sw') = sw_numPorts sw'" "length (outputPorts sw') = sw_numPorts sw'"
    and "\<forall>p \<in> set (inputPorts sw'). in_inv p" "\<forall>p \<in> set (outputPorts sw'). out_inv p"
    and "ib_inv (internalBuffer sw')"
  shows "sw_inv sw'"
  using assms routes_ok_fixed [OF assms(2)] by (simp add: sw_inv_def sw_fixed_def)

lemma in_msgs_update:
  assumes "i < length (inputPorts sw)"
    and "buf_msgs (in_contents (inputPorts sw ! i)) = add_mset x (buf_msgs (in_contents p'))"
  shows "in_msgs sw = add_mset x (in_msgs (sw\<lparr>inputPorts := (inputPorts sw)[i := p']\<rparr>))"
  using sum_list_update [OF assms(1), of "\<lambda>p. buf_msgs (in_contents p)" p'] assms(2)
  by (simp add: in_msgs_def)

lemma in_sum_list_mset: "x \<in> set xs \<Longrightarrow> y \<in># f x \<Longrightarrow> y \<in># sum_list (map f xs)"
  by (induction xs) auto

lemma peek_in_msgs:
  assumes "sw_inv sw" "i < sw_numPorts sw" "vc < 8" "msl (inputPorts sw ! i) vc = m # ms"
  shows "msg_ok (sw_numNodes sw) m"
proof -
  have i: "inputPorts sw ! i \<in> set (inputPorts sw)" using assms(1,2) by (simp add: sw_inv_def)
  have "core_of m \<in> set (in_contents (inputPorts sw ! i) vc)"
    using assms(4) by (simp add: in_contents_def)
  from buf_msgs_mem [of vc _ "in_contents (inputPorts sw ! i)", OF assms(3) this]
  have "ident m \<in># buf_msgs (in_contents (inputPorts sw ! i))" by simp
  then have "ident m \<in># in_msgs sw" using in_sum_list_mset [OF i] by (simp add: in_msgs_def)
  then have "ident m \<in># sw_msgs sw" by (simp add: sw_msgs_def)
  then show ?thesis using assms(1) by (auto simp: sw_inv_def)
qed

lemma in_port_remove:
  assumes inv: "sw_inv sw" and i: "i < sw_numPorts sw" and vc: "vc < 8"
    and q: "msl (inputPorts sw ! i) vc = m # ms"
  shows "\<exists>p' m'. ChannelInputPort_removeMessage now (int vc) (inputPorts sw ! i) = Inr (p', m') \<and>
    core_of m' = core_of m \<and> networkVC m' = int vc \<and>
    (\<forall>p \<in> set ((inputPorts sw)[i := p']). in_inv p) \<and>
    in_msgs sw = add_mset (ident m) (in_msgs (sw\<lparr>inputPorts := (inputPorts sw)[i := p']\<rparr>))"
proof -
  let ?p = "inputPorts sw ! i"
  have l: "i < length (inputPorts sw)" and pin: "\<forall>p \<in> set (inputPorts sw). in_inv p"
    using inv i by (simp_all add: sw_inv_def)
  then have "in_inv ?p" by simp
  from in_remove_ok [OF this vc, of now] q obtain p' m' where r:
    "ChannelInputPort_removeMessage now (int vc) ?p = Inr (p', m')" "in_inv p'" "networkVC m' = int vc"
    "in_contents ?p vc = core_of m' # in_contents p' vc"
    "\<forall>v. v \<noteq> vc \<longrightarrow> in_contents p' v = in_contents ?p v"
    by auto
  have h: "core_of m' = core_of m" using r(4) q by (simp add: in_contents_def)
  have "buf_msgs (in_contents ?p) = add_mset (ident m) (buf_msgs (in_contents p'))"
    using buf_msgs_pop [OF vc r(4,5)] core_of_eq_ident [OF h] by simp
  from in_msgs_update [OF l this] r h show ?thesis
    using pin set_update_subset_insert [of "inputPorts sw" i p'] by blast
qed

lemma port_step_ok:
  assumes inv: "sw_inv sw" and i: "i < sw_numPorts sw" and vc: "vc < 8"
  shows "\<exists>sw' bw'. port_step now vc i bw sw = Inr (sw', bw') \<and> sw_inv sw' \<and>
    sw_msgs sw' = sw_msgs sw \<and> sw_fixed sw sw'"
proof (cases "msl (inputPorts sw ! i) vc")
  case Nil
  then show ?thesis
    using inv i vc by (auto simp: port_step_def peekMessage_def lookup_vec_def sw_inv_def)
next
  case (Cons m ms)
  let ?p = "inputPorts sw ! i"
  have l: "i < length (inputPorts sw)" using inv i by (simp add: sw_inv_def)
  have pk: "lookup_vec (inputPorts sw) i = Inr ?p" "peekMessage (int vc) ?p = Inr (Some m)"
    using l vc Cons by (simp_all add: lookup_vec_def peekMessage_def)
  obtain p' m' where r: "ChannelInputPort_removeMessage now (int vc) ?p = Inr (p', m')"
    "core_of m' = core_of m" "networkVC m' = int vc" "\<forall>p \<in> set ((inputPorts sw)[i := p']). in_inv p"
    "in_msgs sw = add_mset (ident m) (in_msgs (sw\<lparr>inputPorts := (inputPorts sw)[i := p']\<rparr>))"
    using in_port_remove [OF inv i vc Cons] by blast
  have id: "ident m' = ident m" using core_of_eq_ident [OF r(2)] .
  obtain rt where rt: "routingPolicy sw m = Inr rt" "\<forall>x. rt = Some x \<longrightarrow>
      x = m\<lparr>nextHop := nextHop x, nextVC := nextVC x\<rparr> \<and> good_route sw m (nextHop x) (nextVC x)"
    using routingPolicy_ok [OF inv peek_in_msgs [OF inv i vc Cons]] by blast
  let ?sw1 = "sw\<lparr>inputPorts := (inputPorts sw)[i := p']\<rparr>"
  show ?thesis
  proof (cases rt)
    case (Some x)
    let ?m = "m'\<lparr>nextHop := nextHop x, nextVC := nextVC x\<rparr>"
    have g: "good_route sw m (nextHop x) (nextVC x)" using rt(2) Some by blast
    obtain sw' where s: "sendMessageToOutput now ?m ?sw1 = Inr sw'" "sw_fixed ?sw1 sw'"
      "inputPorts sw' = inputPorts ?sw1" "internalBuffer sw' = internalBuffer ?sw1"
      "length (outputPorts sw') = sw_numPorts sw'" "\<forall>p \<in> set (outputPorts sw'). out_inv p"
      "out_msgs sw' = add_mset (ident ?m) (out_msgs ?sw1)"
      using sendMessageToOutput_ok [of ?sw1 ?m now] inv g by (auto simp: sw_inv_def good_route_def)
    let ?sw2 = "sw'\<lparr>sw_messagesWaiting := (sw_messagesWaiting sw')(vc := sw_messagesWaiting sw' vc - 1)\<rparr>"
    have st: "port_step now vc i bw sw = Inr (?sw2, bw - 1)"
      using pk r(1) rt(1) Some s(1) by (simp add: port_step_def)
    have f: "sw_fixed sw ?sw2" using s(2) by (simp add: sw_fixed_def)
    have "in_msgs ?sw2 = in_msgs ?sw1" "out_msgs ?sw2 = add_mset (ident m) (out_msgs sw)"
      using s(3,7) id by (simp_all add: in_msgs_def out_msgs_def)
    then have ms: "sw_msgs ?sw2 = sw_msgs sw" using r(5) s(4) by (simp add: sw_msgs_def)
    have "sw_inv ?sw2"
      using sw_inv_step [OF inv f ms] s r(4) inv f by (simp add: sw_inv_def sw_fixed_def)
    then show ?thesis using st f ms by blast
  next
    case None
    have iv: "networkVC m = int vc" using r(2,3) by (metis core_of_simps(4))
    have ib: "ib_inv (internalBuffer sw)" using inv by (simp add: sw_inv_def)
    show ?thesis
    proof (cases "ib_buffersUsed (internalBuffer sw) vc \<ge> ib_bufferCount (internalBuffer sw) vc")
      case True
      then have "port_step now vc i bw sw = Inr (sw, bw)"
        using pk rt(1) None iv vc by (simp add: port_step_def isFull_def)
      then show ?thesis using inv by auto
    next
      case False
      then have "int (length (ib_contents (internalBuffer sw) vc)) < ib_bufferCount (internalBuffer sw) vc"
        using ib vc buf_okD(1) by (metis ib_inv_def not_le)
      from ib_insert_ok [OF ib vc r(3) this, of now] obtain b where b:
        "ib_insertMessage now m' (internalBuffer sw) = Inr b" "ib_inv b"
        "ib_contents b = (ib_contents (internalBuffer sw))
           (vc := ib_contents (internalBuffer sw) vc @ [core_of m'])"
        by blast
      let ?sw2 = "sw\<lparr>inputPorts := (inputPorts sw)[i := p'], internalBuffer := b,
        sw_messagesWaiting := (sw_messagesWaiting sw)(vc := sw_messagesWaiting sw vc - 1)\<rparr>"
      have st: "port_step now vc i bw sw = Inr (?sw2, bw)"
        using pk r(1) rt(1) None iv vc False b(1) by (simp add: port_step_def isFull_def)
      have f: "sw_fixed sw ?sw2" by (simp add: sw_fixed_def)
      have "buf_msgs (ib_contents b) = add_mset (ident m) (buf_msgs (ib_contents (internalBuffer sw)))"
        unfolding b(3) by (subst buf_msgs_append [OF vc]) (simp add: id)
      moreover have "in_msgs ?sw2 = in_msgs ?sw1" "out_msgs ?sw2 = out_msgs sw"
        by (simp_all add: in_msgs_def out_msgs_def)
      ultimately have ms: "sw_msgs ?sw2 = sw_msgs sw" using r(5) by (simp add: sw_msgs_def)
      have "sw_inv ?sw2"
        using sw_inv_step [OF inv f ms] r(4) inv b(2) by (simp add: sw_inv_def)
      then show ?thesis using st f ms by blast
    qed
  qed
qed

lemma port_loop_ok:
  assumes "sw_inv sw" "\<forall>i \<in> set ports. i < sw_numPorts sw" "vc < 8"
  shows "\<exists>sw' bw'. port_loop now vc ports bw sw = Inr (sw', bw') \<and> sw_inv sw' \<and>
    sw_msgs sw' = sw_msgs sw \<and> sw_fixed sw sw'"
  using assms
proof (induction ports arbitrary: sw bw)
  case (Cons i ports)
  obtain sw1 bw1 where s: "port_step now vc i bw sw = Inr (sw1, bw1)" "sw_inv sw1"
    "sw_msgs sw1 = sw_msgs sw" "sw_fixed sw sw1"
    using port_step_ok [of sw i vc now bw] Cons.prems by auto
  show ?case
  proof (cases "ports \<noteq> [] \<and> bw1 \<noteq> 0")
    case True
    have "\<forall>i \<in> set ports. i < sw_numPorts sw1" using Cons.prems s(4) by (simp add: sw_fixed_def)
    from Cons.IH [OF s(2) this Cons.prems(3), of bw1] show ?thesis
      using True s sw_fixed_trans [OF s(4)] by fastforce
  next
    case False
    then have "port_loop now vc (i # ports) bw sw = Inr (sw1, bw1)" using s(1) by auto
    then show ?thesis using s by blast
  qed
qed auto

text \<open>The messages from the cursor on; each iteration of the loop passes at least one.\<close>

definition remaining :: "NetSwitchInternalBuffer \<Rightarrow> nat" where
  "remaining b = (case currMessage b of None \<Rightarrow> 0
     | Some i \<Rightarrow> length (ageBuffer b (currPriority b)) - i)"

lemma ib_contents_cursor [simp]:
  "ib_contents (b\<lparr>currMessage := x\<rparr>) = ib_contents b"
  "ib_contents (b\<lparr>currPriority := y\<rparr>) = ib_contents b"
  by (simp_all add: ib_contents_def fun_eq_iff)

lemma nextMessage_ok:
  assumes "nextMessage b = (b', stop)" "cursor_ok vc b"
  shows "cursor_ok vc b' \<and> ib_contents b' = ib_contents b \<and> ib_inv b' = ib_inv b \<and>
    (stop \<longleftrightarrow> currMessage b' = None) \<and> (currMessage b \<noteq> None \<longrightarrow> remaining b' < remaining b) \<and>
    remaining b' \<le> remaining b"
  using assms
  by (auto simp: nextMessage_def cursor_ok_def ib_inv_def remaining_def
      split: option.splits if_splits)

lemma ib_msg_ok:
  assumes "sw_inv sw" "vc < 8" "i < length (ageBuffer (internalBuffer sw) vc)"
  shows "msg_ok (sw_numNodes sw) (ageBuffer (internalBuffer sw) vc ! i)"
proof -
  let ?m = "ageBuffer (internalBuffer sw) vc ! i"
  have "core_of ?m \<in> set (ib_contents (internalBuffer sw) vc)"
    using assms(3) by (simp add: ib_contents_def)
  from buf_msgs_mem [of vc _ "ib_contents (internalBuffer sw)", OF assms(2) this]
  have "ident ?m \<in># sw_msgs sw" by (simp add: sw_msgs_def)
  then show ?thesis using assms(1) by (auto simp: sw_inv_def)
qed

lemma buf_msgs_remove_nth:
  assumes "vc < 8" "i < length (c vc)"
  shows "buf_msgs c =
    add_mset (ident (c vc ! i)) (buf_msgs (c(vc := take i (c vc) @ drop (Suc i) (c vc))))"
proof -
  let ?d = "c(vc := take i (c vc) @ drop (Suc i) (c vc))"
  have "(\<Sum>v \<in> {..<8} - {vc}. mset (map ident (?d v))) =
      (\<Sum>v \<in> {..<8} - {vc}. mset (map ident (c v)))"
    by (intro sum.cong) auto
  moreover have "mset (map ident (c vc)) = add_mset (ident (c vc ! i)) (mset (map ident (?d vc)))"
  proof -
    have "c vc = take i (c vc) @ c vc ! i # drop (Suc i) (c vc)"
      using assms(2) by (rule id_take_nth_drop)
    then have "mset (map ident (c vc)) =
        mset (map ident (take i (c vc) @ c vc ! i # drop (Suc i) (c vc)))" by simp
    then show ?thesis by simp
  qed
  ultimately show ?thesis
    using buf_msgs_split [OF assms(1), of c] buf_msgs_split [OF assms(1), of ?d] by simp
qed

text \<open>One iteration before the cursor moves: route, remove and send, or leave the message.\<close>

lemma internal_iteration_ok:
  assumes inv: "sw_inv sw" and vc: "vc < 8" and c: "cursor_ok vc (internalBuffer sw)"
    and i: "currMessage (internalBuffer sw) = Some i"
  shows "\<exists>r sw' bw'. routingPolicy sw (ageBuffer (internalBuffer sw) vc ! i) = Inr r \<and>
    (case r of None \<Rightarrow> Inr (sw, bw)
     | Some rmsg \<Rightarrow> rbind (ib_removeMessage now (internalBuffer sw)) (\<lambda>(b, m).
         rbind (sendMessageToOutput now (m\<lparr>nextHop := nextHop rmsg, nextVC := nextVC rmsg\<rparr>)
                  (sw\<lparr>internalBuffer := b\<rparr>)) (\<lambda>sw'. Inr (sw', bw - 1)))) = Inr (sw', bw') \<and>
    sw_inv sw' \<and> sw_msgs sw' = sw_msgs sw \<and> sw_fixed sw sw' \<and>
    cursor_ok vc (internalBuffer sw') \<and>
    (if r = None then internalBuffer sw' = internalBuffer sw
     else remaining (internalBuffer sw') < remaining (internalBuffer sw))"
proof -
  let ?b = "internalBuffer sw"
  let ?m = "ageBuffer ?b vc ! i"
  have il: "i < length (ageBuffer ?b vc)" "currPriority ?b = vc" using c i by (auto simp: cursor_ok_def)
  have ib: "ib_inv ?b" using inv by (simp add: sw_inv_def)
  obtain r where r: "routingPolicy sw ?m = Inr r" "\<forall>x. r = Some x \<longrightarrow>
      x = ?m\<lparr>nextHop := nextHop x, nextVC := nextVC x\<rparr> \<and> good_route sw ?m (nextHop x) (nextVC x)"
    using routingPolicy_ok [OF inv ib_msg_ok [OF inv vc il(1)]] by blast
  show ?thesis
  proof (cases r)
    case None
    then show ?thesis using r(1) inv c by auto
  next
    case (Some x)
    obtain b' m where rm: "ib_removeMessage now ?b = Inr (b', m)" "ib_inv b'" "cursor_ok vc b'"
      "core_of m = core_of ?m"
      "ib_contents b' = (ib_contents ?b)
         (vc := take i (ib_contents ?b vc) @ drop (Suc i) (ib_contents ?b vc))"
      "ageBuffer b' vc = take i (ageBuffer ?b vc) @ drop (Suc i) (ageBuffer ?b vc)"
      "currMessage b' = (if Suc i < length (ageBuffer ?b vc) then Some i else None)"
      using ib_remove_ok [OF ib vc c i] by blast
    let ?sw1 = "sw\<lparr>internalBuffer := b'\<rparr>"
    let ?x = "m\<lparr>nextHop := nextHop x, nextVC := nextVC x\<rparr>"
    have g: "good_route sw ?m (nextHop x) (nextVC x)" using r(2) Some by blast
    obtain sw' where s: "sendMessageToOutput now ?x ?sw1 = Inr sw'" "sw_fixed ?sw1 sw'"
      "inputPorts sw' = inputPorts ?sw1" "internalBuffer sw' = internalBuffer ?sw1"
      "length (outputPorts sw') = sw_numPorts sw'" "\<forall>p \<in> set (outputPorts sw'). out_inv p"
      "out_msgs sw' = add_mset (ident ?x) (out_msgs ?sw1)"
      using sendMessageToOutput_ok [of ?sw1 ?x now] inv g by (auto simp: sw_inv_def good_route_def)
    have f: "sw_fixed sw sw'" using s(2) by (simp add: sw_fixed_def)
    have "ident (ib_contents ?b vc ! i) = ident m"
      using il(1) core_of_eq_ident [OF rm(4)] by (simp add: ib_contents_def)
    then have "buf_msgs (ib_contents ?b) = add_mset (ident m) (buf_msgs (ib_contents b'))"
      unfolding rm(5) using buf_msgs_remove_nth [OF vc, of i "ib_contents ?b"] il(1)
      by (simp add: ib_contents_def)
    then have ms: "sw_msgs sw' = sw_msgs sw"
      using s(3,4,7) by (simp add: sw_msgs_def in_msgs_def out_msgs_def)
    have "sw_inv sw'"
      using sw_inv_step [OF inv f ms] s rm(2) inv f by (simp add: sw_inv_def sw_fixed_def)
    moreover have "remaining (internalBuffer sw') < remaining ?b"
      using s(4) rm(3,6,7) il i by (auto simp: remaining_def cursor_ok_def)
    ultimately show ?thesis
      using r(1) Some rm(1,3) s(1,4) f ms by auto
  qed
qed

lemma sw_inv_cursor:
  assumes "ib_contents b = ib_contents (internalBuffer sw)" "ib_inv b = ib_inv (internalBuffer sw)"
  shows "sw_inv (sw\<lparr>internalBuffer := b\<rparr>) = sw_inv sw" "sw_msgs (sw\<lparr>internalBuffer := b\<rparr>) = sw_msgs sw"
    "sw_fixed sw' (sw\<lparr>internalBuffer := b\<rparr>) = sw_fixed sw' sw"
proof -
  show ms: "sw_msgs (sw\<lparr>internalBuffer := b\<rparr>) = sw_msgs sw"
    using assms(1) by (simp add: sw_msgs_def in_msgs_def out_msgs_def)
  show "sw_inv (sw\<lparr>internalBuffer := b\<rparr>) = sw_inv sw"
    using assms(2) ms by (simp add: sw_inv_def routes_ok_def)
  show "sw_fixed sw' (sw\<lparr>internalBuffer := b\<rparr>) = sw_fixed sw' sw"
    by (simp add: sw_fixed_def)
qed

lemma internal_loop_ok:
  assumes "sw_inv sw" "vc < 8" "cursor_ok vc (internalBuffer sw)"
  shows "\<exists>sw' bw'. internal_loop now fuel bw sw = Inr (sw', bw') \<and> sw_inv sw' \<and>
    sw_msgs sw' = sw_msgs sw \<and> sw_fixed sw sw'"
  using assms
proof (induction fuel arbitrary: sw bw)
  case (Suc fuel)
  show ?case
  proof (cases "currMessage (internalBuffer sw)")
    case None
    then show ?thesis using Suc.prems by (simp add: ib_getMessage_def)
  next
    case (Some i)
    let ?m = "ageBuffer (internalBuffer sw) vc ! i"
    have gm: "ib_getMessage (internalBuffer sw) = Some ?m"
      using Some Suc.prems(3) by (simp add: ib_getMessage_def cursor_ok_def)
    show ?thesis
    proof (cases "bw > 0")
      case False
      then show ?thesis using gm Suc.prems by simp
    next
      case True
      obtain r sw1 bw1 where it: "routingPolicy sw ?m = Inr r"
        "(case r of None \<Rightarrow> Inr (sw, bw)
          | Some rmsg \<Rightarrow> rbind (ib_removeMessage now (internalBuffer sw)) (\<lambda>(b, m).
              rbind (sendMessageToOutput now (m\<lparr>nextHop := nextHop rmsg, nextVC := nextVC rmsg\<rparr>)
                       (sw\<lparr>internalBuffer := b\<rparr>)) (\<lambda>sw'. Inr (sw', bw - 1)))) = Inr (sw1, bw1)"
        "sw_inv sw1" "sw_msgs sw1 = sw_msgs sw" "sw_fixed sw sw1" "cursor_ok vc (internalBuffer sw1)"
        using internal_iteration_ok [OF Suc.prems Some] by blast
      obtain b stop where nx: "nextMessage (internalBuffer sw1) = (b, stop)" by fastforce
      note n = nextMessage_ok [OF nx it(6)]
      let ?sw2 = "sw1\<lparr>internalBuffer := b\<rparr>"
      have c: "sw_inv ?sw2" "sw_msgs ?sw2 = sw_msgs sw" "sw_fixed sw ?sw2"
        using sw_inv_cursor [where b = b and sw = sw1] n it by auto
      have st: "internal_loop now (Suc fuel) bw sw =
          (if stop then Inr (?sw2, bw1) else internal_loop now fuel bw1 ?sw2)"
        using gm True it(1,2) nx by simp
      show ?thesis
      proof (cases stop)
        case True
        then show ?thesis using st c by auto
      next
        case False
        have "cursor_ok vc (internalBuffer ?sw2)" using n by simp
        from Suc.IH [OF c(1) Suc.prems(2) this, of bw1] show ?thesis
          using st False c sw_fixed_trans [OF c(3)] by fastforce
      qed
    qed
  qed
qed auto

text \<open>More fuel than there are messages from the cursor on changes nothing.\<close>

lemma internal_loop_fuel:
  assumes "sw_inv sw" "vc < 8" "cursor_ok vc (internalBuffer sw)"
    and "remaining (internalBuffer sw) \<le> fuel"
  shows "internal_loop now (fuel + k) bw sw = internal_loop now fuel bw sw"
  using assms
proof (induction fuel arbitrary: sw bw)
  case 0
  then have "currMessage (internalBuffer sw) = None"
    by (cases "currMessage (internalBuffer sw)") (auto simp: remaining_def cursor_ok_def)
  then show ?case by (cases k) (simp_all add: ib_getMessage_def)
next
  case (Suc fuel)
  show ?case
  proof (cases "currMessage (internalBuffer sw)")
    case None
    then show ?thesis by (simp add: ib_getMessage_def)
  next
    case (Some i)
    let ?m = "ageBuffer (internalBuffer sw) vc ! i"
    have gm: "ib_getMessage (internalBuffer sw) = Some ?m"
      using Some Suc.prems(3) by (simp add: ib_getMessage_def cursor_ok_def)
    obtain r sw1 bw1 where it: "routingPolicy sw ?m = Inr r"
      "(case r of None \<Rightarrow> Inr (sw, bw)
        | Some rmsg \<Rightarrow> rbind (ib_removeMessage now (internalBuffer sw)) (\<lambda>(b, m).
            rbind (sendMessageToOutput now (m\<lparr>nextHop := nextHop rmsg, nextVC := nextVC rmsg\<rparr>)
                     (sw\<lparr>internalBuffer := b\<rparr>)) (\<lambda>sw'. Inr (sw', bw - 1)))) = Inr (sw1, bw1)"
      "sw_inv sw1" "cursor_ok vc (internalBuffer sw1)"
      "if r = None then internalBuffer sw1 = internalBuffer sw
       else remaining (internalBuffer sw1) < remaining (internalBuffer sw)"
      using internal_iteration_ok [OF Suc.prems(1-3) Some] by blast
    obtain b stop where nx: "nextMessage (internalBuffer sw1) = (b, stop)" by fastforce
    note n = nextMessage_ok [OF nx it(4)]
    let ?sw2 = "sw1\<lparr>internalBuffer := b\<rparr>"
    have st: "internal_loop now (Suc f) bw sw =
        (if \<not> bw > 0 then Inr (sw, bw)
         else if stop then Inr (?sw2, bw1) else internal_loop now f bw1 ?sw2)" for f
      using gm it(1,2) nx by simp
    have "remaining b < remaining (internalBuffer sw)"
      using it(5) n Some by (auto split: if_splits)
    then have "remaining (internalBuffer ?sw2) \<le> fuel" using Suc.prems(4) by simp
    moreover have "sw_inv ?sw2" "cursor_ok vc (internalBuffer ?sw2)"
      using sw_inv_cursor(1) [where b = b and sw = sw1] n it(3) by auto
    ultimately have "internal_loop now (fuel + k) bw1 ?sw2 = internal_loop now fuel bw1 ?sw2"
      using Suc.IH Suc.prems(2) by blast
    then show ?thesis using st by simp
  qed
qed

lemma vc_step_ok:
  assumes "sw_inv sw" "vc < 8"
  shows "\<exists>sw' bw'. vc_step now vc bw sw = Inr (sw', bw') \<and> sw_inv sw' \<and>
    sw_msgs sw' = sw_msgs sw \<and> sw_fixed sw sw'"
proof -
  let ?b = "gotoFirstMessage vc (internalBuffer sw)"
  let ?sw0 = "sw\<lparr>internalBuffer := ?b\<rparr>"
  have b: "ib_contents ?b = ib_contents (internalBuffer sw)" "ib_inv ?b = ib_inv (internalBuffer sw)"
    "cursor_ok vc ?b"
    by (simp_all add: gotoFirstMessage_def ib_inv_def cursor_ok_def ib_contents_def fun_eq_iff)
  have s0: "sw_inv ?sw0" "sw_msgs ?sw0 = sw_msgs sw" "sw_fixed sw ?sw0"
    using sw_inv_cursor [where b = ?b and sw = sw] b(1,2) assms(1) by auto
  obtain sw1 bw1 where l: "internal_loop now (length (ageBuffer ?b vc)) bw ?sw0 = Inr (sw1, bw1)"
    "sw_inv sw1" "sw_msgs sw1 = sw_msgs sw" "sw_fixed sw sw1"
    using internal_loop_ok [OF s0(1) assms(2), of now "length (ageBuffer ?b vc)" bw] b(3) s0
      sw_fixed_trans by fastforce
  have st: "vc_step now vc bw sw = (if sw_messagesWaiting sw1 vc = 0 then Inr (sw1, bw1)
      else port_loop now vc (port_order sw1) bw1 sw1)"
    using l(1) by (simp add: vc_step_def Let_def)
  show ?thesis
  proof (cases "sw_messagesWaiting sw1 vc = 0")
    case True
    then show ?thesis using st l by auto
  next
    case False
    have "\<forall>i \<in> set (port_order sw1). i < sw_numPorts sw1"
      by (auto simp: port_order_def)
    from port_loop_ok [OF l(2) this assms(2), of now bw1] show ?thesis
      using st False l sw_fixed_trans [OF l(4)] by fastforce
  qed
qed

lemma vc_loop_ok:
  assumes "sw_inv sw" "\<forall>vc \<in> set vcs. vc < 8"
  shows "\<exists>sw' bw'. vc_loop now vcs bw sw = Inr (sw', bw') \<and> sw_inv sw' \<and>
    sw_msgs sw' = sw_msgs sw \<and> sw_fixed sw sw'"
  using assms
proof (induction vcs arbitrary: sw bw)
  case (Cons vc vcs)
  obtain sw1 bw1 where s: "vc_step now vc bw sw = Inr (sw1, bw1)" "sw_inv sw1"
    "sw_msgs sw1 = sw_msgs sw" "sw_fixed sw sw1"
    using vc_step_ok [of sw vc now bw] Cons.prems by auto
  from Cons.IH [OF s(2), of bw1] Cons.prems(2) show ?case
    using s sw_fixed_trans [OF s(4)] by fastforce
qed auto

lemma NetSwitch_drive_ok:
  assumes "sw_inv sw"
  shows "\<exists>sw'. NetSwitch_drive now sw = Inr sw' \<and> sw_inv sw' \<and> sw_msgs sw' = sw_msgs sw \<and>
    nextStartingPort sw' = (nextStartingPort sw + 1) mod sw_numPorts sw"
proof -
  obtain sw1 bw1 where l: "vc_loop now [0..<8] (crossbarBandwidth sw) sw = Inr (sw1, bw1)"
    "sw_inv sw1" "sw_msgs sw1 = sw_msgs sw" "sw_fixed sw sw1"
    using vc_loop_ok [OF assms, of "[0..<8]" now "crossbarBandwidth sw"] by auto
  let ?sw = "sw1\<lparr>nextStartingPort := (nextStartingPort sw1 + 1) mod sw_numPorts sw1\<rparr>"
  have "sw_msgs ?sw = sw_msgs sw1" by (simp add: sw_msgs_def in_msgs_def out_msgs_def)
  moreover from this have "sw_inv ?sw" using l(2) by (simp add: sw_inv_def routes_ok_def)
  ultimately show ?thesis
    using l by (simp add: NetSwitch_drive_def sw_fixed_def del: upt_rec_numeral)
qed

lemma drive_input_list_ok:
  assumes "\<forall>p \<in> set ps. in_inv p"
  shows "\<exists>ps' ns. drive_input_list now ps = Inr (ps', ns) \<and> length ps' = length ps \<and>
    (\<forall>p \<in> set ps'. in_inv p) \<and>
    sum_list (map (\<lambda>p. buf_msgs (in_contents p)) ps') = sum_list (map (\<lambda>p. buf_msgs (in_contents p)) ps)"
  using assms
proof (induction ps)
  case (Cons p ps)
  obtain p' ns where d: "ChannelInputPort_drive now p = Inr (p', ns)" "in_inv p'"
    "\<forall>vc < 8. in_contents p' vc = in_contents p vc"
    using in_drive_ok [of p now] Cons.prems by auto
  have "buf_msgs (in_contents p') = buf_msgs (in_contents p)"
    using d(3) by (intro buf_msgs_cong) auto
  then show ?case using Cons d(1,2) by fastforce
qed simp

lemma driveInputPorts_ok:
  assumes "sw_inv sw"
  shows "\<exists>sw'. driveInputPorts now sw = Inr sw' \<and> sw_inv sw' \<and> sw_msgs sw' = sw_msgs sw"
proof -
  have "\<forall>p \<in> set (inputPorts sw). in_inv p" using assms by (simp add: sw_inv_def)
  from drive_input_list_ok [OF this, of now] obtain ps ns where d:
    "drive_input_list now (inputPorts sw) = Inr (ps, ns)" "length ps = length (inputPorts sw)"
    "\<forall>p \<in> set ps. in_inv p"
    "sum_list (map (\<lambda>p. buf_msgs (in_contents p)) ps) = in_msgs sw"
    by (auto simp: in_msgs_def)
  let ?sw = "sw\<lparr>inputPorts := ps, sw_messagesWaiting := notify_all ns (sw_messagesWaiting sw)\<rparr>"
  have ms: "sw_msgs ?sw = sw_msgs sw" using d(4) by (simp add: sw_msgs_def in_msgs_def out_msgs_def)
  have "sw_inv ?sw"
    by (rule sw_inv_step [OF assms _ ms]) (use assms d in \<open>auto simp: sw_inv_def sw_fixed_def\<close>)
  then show ?thesis using d(1) ms by (simp add: driveInputPorts_def)
qed

section \<open>Routing tables\<close>

lemma add_entry_ok:
  assumes "add_entry port vc ps vs = Some (ps', vs')" "0 \<le> port"
  shows "(port, vc) \<in> set (zip ps' vs') \<and> length ps' = length ps \<and> length vs' = length vs \<and>
    (\<forall>e \<in> set (zip ps vs). 0 \<le> fst e \<longrightarrow> e \<in> set (zip ps' vs')) \<and>
    set (zip ps' vs') \<subseteq> insert (port, vc) (set (zip ps vs))"
  using assms
  by (induction port vc ps vs arbitrary: ps' vs' rule: add_entry.induct)
     (auto split: if_splits)

section \<open>A concrete switch\<close>

text \<open>
  One node behind one port; a message of priority 0 and one of priority 1 wait at the input
  port, \<open>inner\<close> messages of priority 0 in the internal buffer, and the crossbar moves
  \<open>bandwidth\<close> messages per cycle.
\<close>

definition ex_switch :: "MessageState list \<Rightarrow> int \<Rightarrow> NetSwitch" where
  "ex_switch inner bandwidth =
     \<lparr>sw_name = 0, sw_numNodes = 1, sw_numPorts = 1, crossbarBandwidth = bandwidth,
      nextStartingPort = 0,
      inputPorts = [\<lparr>bufferCount = (\<lambda>_. 2), buffersUsed = (\<lambda>_. 0)(0 := 1, 2 := 1),
        msl = (\<lambda>_. [])(0 := [ex_msg\<lparr>destNode := 0\<rparr>],
          2 := [ex_msg\<lparr>destNode := 0, priority := 1, networkVC := 2\<rparr>]),
        connected = True, channelLatency = 1, delayList = []\<rparr>],
      outputPorts = [\<lparr>bufferCount = (\<lambda>_. 4), buffersUsed = (\<lambda>_. 0), msl = (\<lambda>_. []), connected = True\<rparr>],
      internalBuffer = \<lparr>ib_bufferCount = (\<lambda>_. 2),
        ib_buffersUsed = (\<lambda>_. 0)(0 := int (length inner)),
        ageBuffer = (\<lambda>_. [])(0 := inner), currMessage = None, currPriority = 0\<rparr>,
      routingTable = [[0, -1]], vcTable = [[0, -1]],
      sw_messagesWaiting = (\<lambda>_. 0)(0 := 1, 2 := 1), channelWaiting = (\<lambda>_. 0)\<rparr>"

lemma ex_switch_inv: "sw_inv (ex_switch [] 1)"
proof -
  have e: "{..<8 :: nat} = {0, 1, 2, 3, 4, 5, 6, 7}" by auto
  show ?thesis
    by (auto simp: sw_inv_def ex_switch_def routes_ok_def in_inv_def out_inv_def ib_inv_def buf_ok_def
        in_contents_def delayed_def out_contents_def ib_contents_def sw_msgs_def in_msgs_def
        out_msgs_def buf_msgs_def e msg_ok_def ex_msg_def)
qed

section \<open>Properties\<close>

text \<open>
  C3: a cycle of a consistent switch, its input ports first, succeeds without a failed
  assertion and conserves messages: the input ports, the internal buffer and the output ports
  together hold the same messages after it as before, each within its buffer counts.
\<close>

theorem switch_cycle_conserves:
  assumes "sw_inv sw"
  shows "\<exists>sw'. rbind (driveInputPorts now sw) (NetSwitch_drive now) = Inr sw' \<and> sw_inv sw' \<and>
    sw_msgs sw' = sw_msgs sw"
proof -
  obtain sw1 where d: "driveInputPorts now sw = Inr sw1" "sw_inv sw1" "sw_msgs sw1 = sw_msgs sw"
    using driveInputPorts_ok [OF assms] by blast
  then show ?thesis using NetSwitch_drive_ok [OF d(2), of now] by auto
qed

theorem switch_cycle_conserves_witness:
  "\<exists>sw'. rbind (driveInputPorts 4 (ex_switch [] 1)) (NetSwitch_drive 4) = Inr sw' \<and> sw_inv sw' \<and>
    sw_msgs sw' = sw_msgs (ex_switch [] 1)"
  by (rule switch_cycle_conserves [OF ex_switch_inv])

text \<open>
  C34: \<open>routingPolicy\<close> follows the routing table: the port and virtual channel it picks are an
  entry for the message's destination, the port exists and has buffer space on that channel
  for the message's priority, nothing else of the message changes; and it finds no route only
  when no entry up to the first empty one has space.
\<close>

theorem routingPolicy_correct:
  assumes "sw_inv sw" "msg_ok (sw_numNodes sw) m"
  shows "\<exists>r. routingPolicy sw m = Inr r \<and>
    (case r of None \<Rightarrow> no_route sw m
     | Some m' \<Rightarrow> m' = m\<lparr>nextHop := nextHop m', nextVC := nextVC m'\<rparr> \<and>
         good_route sw m (nextHop m') (nextVC m'))"
  using routingPolicy_ok [OF assms] by (auto split: option.split)

theorem routingPolicy_correct_witness:
  "\<exists>r. routingPolicy (ex_switch [] 1) (ex_msg\<lparr>destNode := 0\<rparr>) = Inr r \<and>
    (case r of None \<Rightarrow> no_route (ex_switch [] 1) (ex_msg\<lparr>destNode := 0\<rparr>)
     | Some m' \<Rightarrow> m' = (ex_msg\<lparr>destNode := 0\<rparr>)\<lparr>nextHop := nextHop m', nextVC := nextVC m'\<rparr> \<and>
         good_route (ex_switch [] 1) (ex_msg\<lparr>destNode := 0\<rparr>) (nextHop m') (nextVC m'))"
  by (rule routingPolicy_correct [OF ex_switch_inv]) (simp add: msg_ok_def ex_switch_def ex_msg_def)

text \<open>
  C38: the loop over the internal buffer ends: from the first message of a virtual channel on,
  as many iterations as the list has messages are enough, and more change nothing.
\<close>

theorem internal_loop_terminates:
  assumes "sw_inv sw" "vc < 8"
  shows "internal_loop now (length (ageBuffer (internalBuffer sw) vc) + k) bw
      (sw\<lparr>internalBuffer := gotoFirstMessage vc (internalBuffer sw)\<rparr>) =
    internal_loop now (length (ageBuffer (internalBuffer sw) vc)) bw
      (sw\<lparr>internalBuffer := gotoFirstMessage vc (internalBuffer sw)\<rparr>)"
proof -
  let ?b = "gotoFirstMessage vc (internalBuffer sw)"
  have "ib_contents ?b = ib_contents (internalBuffer sw)" "ib_inv ?b = ib_inv (internalBuffer sw)"
    and c: "cursor_ok vc ?b" "remaining ?b \<le> length (ageBuffer (internalBuffer sw) vc)"
    by (simp_all add: gotoFirstMessage_def ib_inv_def cursor_ok_def ib_contents_def fun_eq_iff
        remaining_def)
  then have "sw_inv (sw\<lparr>internalBuffer := ?b\<rparr>)"
    using sw_inv_cursor(1) [where b = ?b and sw = sw] assms(1) by simp
  then show ?thesis using internal_loop_fuel [OF _ assms(2)] c by simp
qed

theorem internal_loop_terminates_witness:
  "internal_loop 4 (length (ageBuffer (internalBuffer (ex_switch [] 1)) 0) + 3) 1
      ((ex_switch [] 1)\<lparr>internalBuffer := gotoFirstMessage 0 (internalBuffer (ex_switch [] 1))\<rparr>) =
    internal_loop 4 (length (ageBuffer (internalBuffer (ex_switch [] 1)) 0)) 1
      ((ex_switch [] 1)\<lparr>internalBuffer := gotoFirstMessage 0 (internalBuffer (ex_switch [] 1))\<rparr>)"
  by (rule internal_loop_terminates [OF ex_switch_inv]) simp

text \<open>
  \<open>addRoutingEntry\<close>, when it succeeds, leaves the route in the table of its node, keeps
  every route that was there and the tables of the other nodes, adds nothing else, and
  keeps the table well formed.
\<close>

theorem addRoutingEntry_correct:
  assumes "routes_ok sw" "addRoutingEntry node port vc sw = Inr sw'"
  shows "routes_ok sw' \<and>
    (port, vc) \<in> set (zip (routingTable sw' ! nat node) (vcTable sw' ! nat node)) \<and>
    (\<forall>e \<in> set (zip (routingTable sw ! nat node) (vcTable sw ! nat node)). 0 \<le> fst e \<longrightarrow>
       e \<in> set (zip (routingTable sw' ! nat node) (vcTable sw' ! nat node))) \<and>
    (\<forall>n. n \<noteq> nat node \<longrightarrow> routingTable sw' ! n = routingTable sw ! n \<and> vcTable sw' ! n = vcTable sw ! n)"
proof -
  let ?n = "nat node"
  obtain ps vs where r: "0 \<le> port" "port < int (sw_numPorts sw)" "0 \<le> vc" "vc < 2" "?n < sw_numNodes sw"
    "add_entry port vc (routingTable sw ! ?n) (vcTable sw ! ?n) = Some (ps, vs)"
    "sw' = sw\<lparr>routingTable := (routingTable sw)[?n := ps], vcTable := (vcTable sw)[?n := vs]\<rparr>"
    using assms(2) by (auto simp: addRoutingEntry_def split: option.splits)
  have l: "length (routingTable sw) = sw_numNodes sw" "length (vcTable sw) = sw_numNodes sw"
    using assms(1) by (simp_all add: routes_ok_def)
  note a = add_entry_ok [OF r(6,1)]
  have "\<forall>(p, v) \<in> set (zip ps vs). p < 0 \<or> (p < int (sw_numPorts sw) \<and> 0 \<le> v \<and> v < 2)"
    using a assms(1) r(2-5) by (fastforce simp: routes_ok_def)
  then have "routes_ok sw'"
    using assms(1) r(5,7) l by (simp add: routes_ok_def nth_list_update)
  then show ?thesis using a r(5,7) l by auto
qed

theorem addRoutingEntry_correct_witness:
  "\<exists>sw'. addRoutingEntry 0 0 1 (ex_switch [] 1) = Inr sw' \<and> routes_ok sw' \<and>
    (0, 1) \<in> set (zip (routingTable sw' ! 0) (vcTable sw' ! 0))"
proof -
  have r: "routes_ok (ex_switch [] 1)" using ex_switch_inv by (simp add: sw_inv_def)
  obtain sw' where s: "addRoutingEntry 0 0 1 (ex_switch [] 1) = Inr sw'"
    by (simp add: addRoutingEntry_def ex_switch_def lookup_vec_def)
  from addRoutingEntry_correct [OF r s] s show ?thesis by auto
qed

text \<open>
  The crossbar bandwidth does not bound the messages a switch moves in a cycle: with a
  bandwidth of 1 the concrete switch moves two, because the loop over the ports runs its body
  once per virtual channel before it looks at the bandwidth that is left.
\<close>

theorem crossbar_bandwidth_exceeded:
  "crossbarBandwidth (ex_switch [] 1) = 1 \<and>
   (case NetSwitch_drive 4 (ex_switch [] 1) of
      Inr sw \<Rightarrow> getBuffersUsed (outputPorts sw ! 0) = 2 | Inl _ \<Rightarrow> False)"
  by code_simp

text \<open>
  the loop over the internal buffer skips the message after each one it sends: with two
  messages of one virtual channel in the buffer, room for both at the output and bandwidth for
  both, only the first leaves.
\<close>

theorem internal_loop_skips:
  "(case internal_loop 4 2 8 ((ex_switch [ex_msg\<lparr>destNode := 0\<rparr>, ex_msg\<lparr>destNode := 0, serial := 8\<rparr>] 8)
        \<lparr>internalBuffer := gotoFirstMessage 0 (internalBuffer
           (ex_switch [ex_msg\<lparr>destNode := 0\<rparr>, ex_msg\<lparr>destNode := 0, serial := 8\<rparr>] 8))\<rparr>) of
      Inr (sw, bw) \<Rightarrow> bw = 7 \<and> map serial (ageBuffer (internalBuffer sw) 0) = [8] \<and>
        getBuffersUsed (outputPorts sw ! 0) = 1
    | Inl _ \<Rightarrow> False)"
  by code_simp

end
