(* ===== verification/Net_Container.thy ===== *)
theory Net_Container
  imports Net_Switch
begin

text \<open>
  Nodes and the network as a whole: \<open>components/NetShim/netnode.hpp\<close>, \<open>netnode.cpp\<close>,
  \<open>netcontainer.hpp\<close> and \<open>netcontainer.cpp\<close>, with the attachment of ports to channels from
  \<open>channel.cpp\<close> and \<open>netswitch.cpp\<close>. The pointers between channels and ports become
  references: a port is named by its node, or by its switch and number.

  The two callbacks of the simulator around the network, which ask whether a node can take a
  message and hand it over, are arguments, with the simulator's own state threaded through.
  Messages are known by their serial numbers where the code compares pointers.
\<close>

section \<open>Nodes\<close>

record NetNode =
  nodeId :: int
  fromNodePort :: ChannelPort
  toNodePort :: ChannelInputPort
  nd_messagesWaiting :: int

definition NetNode_new :: "int \<Rightarrow> NetNode result" where
  "NetNode_new i =
     rbind (ChannelPort_new INT_MAX) (\<lambda>outp.
     rbind (ChannelInputPort_new 1 1) (\<lambda>inp.
       Inr \<lparr>nodeId = i, fromNodePort = outp, toNodePort = inp, nd_messagesWaiting = 0\<rparr>))"

definition NetNode_insertMessage :: "int \<Rightarrow> MessageState \<Rightarrow> NetNode \<Rightarrow> NetNode result" where
  "NetNode_insertMessage now msg nd =
     rbind (ChannelOutputPort_insertMessage now msg (fromNodePort nd)) (\<lambda>p.
       Inr (nd\<lparr>fromNodePort := p\<rparr>))"

definition NetNode_driveInputPorts :: "int \<Rightarrow> NetNode \<Rightarrow> NetNode result" where
  "NetNode_driveInputPorts now nd =
     rbind (ChannelInputPort_drive now (toNodePort nd)) (\<lambda>(p, ns).
       Inr (nd\<lparr>toNodePort := p, nd_messagesWaiting := nd_messagesWaiting nd + int (length ns)\<rparr>))"

definition NetNode_checkTopology :: "NetNode \<Rightarrow> bool" where
  "NetNode_checkTopology nd = (\<not> connected (fromNodePort nd) \<or> \<not> connected (toNodePort nd))"

definition getInfiniteBufferUsed :: "NetNode \<Rightarrow> int" where
  "getInfiniteBufferUsed nd = int MAX_NET_VC * getBuffersUsed (fromNodePort nd)"

definition isOutputAvailable :: "int \<Rightarrow> NetNode \<Rightarrow> bool result" where
  "isOutputAvailable vc nd = hasBufferSpace vc (fromNodePort nd)"

definition NETVC_TO_PROTVC :: "nat \<Rightarrow> int" where
  "NETVC_TO_PROTVC vc = int (vc div MAX_NET_VC)"

section \<open>State of the network\<close>

datatype port_ref = NodePort nat | SwitchPort nat nat

record net_channel =
  chan :: Channel
  fromPort :: "port_ref option"
  toPort :: "port_ref option"

record NetContainer =
  channels :: "net_channel list"
  switches :: "NetSwitch list"
  nodes :: "NetNode list"
  activeList :: "int list"
  activeMessages :: int
  nc_channelLatency :: int
  channelLatencyData :: int
  channelLatencyControl :: int
  channelBandwidth :: int
  localChannelLatencyDivider :: int
  numNodes :: int
  numSwitches :: int
  switchInputBuffers :: int
  switchOutputBuffers :: int
  switchInternalBuffersPerVC :: int
  switchBandwidth :: int
  switchPorts :: int
  numChannels :: int
  maxChannelIndex :: int

definition NetContainer_new :: NetContainer where
  "NetContainer_new =
     \<lparr>channels = [], switches = [], nodes = [], activeList = [], activeMessages = 0,
      nc_channelLatency = -1, channelLatencyData = -1, channelLatencyControl = -1,
      channelBandwidth = -1, localChannelLatencyDivider = -1, numNodes = -1, numSwitches = -1,
      switchInputBuffers = -1, switchOutputBuffers = -1, switchInternalBuffersPerVC = -1,
      switchBandwidth = -1, switchPorts = -1, numChannels = 0, maxChannelIndex = -1\<rparr>"

text \<open>The ports behind references.\<close>

definition get_out :: "port_ref \<Rightarrow> NetContainer \<Rightarrow> ChannelPort result" where
  "get_out r nc = (case r of
     NodePort n \<Rightarrow> rbind (lookup_vec (nodes nc) n) (\<lambda>nd. Inr (fromNodePort nd))
   | SwitchPort s p \<Rightarrow> rbind (lookup_vec (switches nc) s) (\<lambda>sw. lookup_vec (outputPorts sw) p))"

definition set_out :: "port_ref \<Rightarrow> ChannelPort \<Rightarrow> NetContainer \<Rightarrow> NetContainer" where
  "set_out r q nc = (case r of
     NodePort n \<Rightarrow> nc\<lparr>nodes := (nodes nc)[n := (nodes nc ! n)\<lparr>fromNodePort := q\<rparr>]\<rparr>
   | SwitchPort s p \<Rightarrow> nc\<lparr>switches := (switches nc)[s := (switches nc ! s)
       \<lparr>outputPorts := (outputPorts (switches nc ! s))[p := q]\<rparr>]\<rparr>)"

definition get_in :: "port_ref \<Rightarrow> NetContainer \<Rightarrow> ChannelInputPort result" where
  "get_in r nc = (case r of
     NodePort n \<Rightarrow> rbind (lookup_vec (nodes nc) n) (\<lambda>nd. Inr (toNodePort nd))
   | SwitchPort s p \<Rightarrow> rbind (lookup_vec (switches nc) s) (\<lambda>sw. lookup_vec (inputPorts sw) p))"

definition set_in :: "port_ref \<Rightarrow> ChannelInputPort \<Rightarrow> NetContainer \<Rightarrow> NetContainer" where
  "set_in r q nc = (case r of
     NodePort n \<Rightarrow> nc\<lparr>nodes := (nodes nc)[n := (nodes nc ! n)\<lparr>toNodePort := q\<rparr>]\<rparr>
   | SwitchPort s p \<Rightarrow> nc\<lparr>switches := (switches nc)[s := (switches nc ! s)
       \<lparr>inputPorts := (inputPorts (switches nc ! s))[p := q]\<rparr>]\<rparr>)"

section \<open>Set-up\<close>

definition setFromPort :: "nat \<Rightarrow> port_ref \<Rightarrow> NetContainer \<Rightarrow> NetContainer result" where
  "setFromPort k r nc =
     rbind (lookup_vec (channels nc) k) (\<lambda>ch.
     if fromPort ch \<noteq> None then Inl Reported
     else rbind (get_out r nc) (\<lambda>p.
       Inr ((set_out r (setChannel p) nc)
         \<lparr>channels := (channels nc)[k := ch\<lparr>fromPort := Some r\<rparr>]\<rparr>)))"

definition setToPort :: "nat \<Rightarrow> port_ref \<Rightarrow> NetContainer \<Rightarrow> NetContainer result" where
  "setToPort k r nc =
     rbind (lookup_vec (channels nc) k) (\<lambda>ch.
     if toPort ch \<noteq> None then Inl Reported
     else rbind (get_in r nc) (\<lambda>p.
       Inr ((set_in r (setChannel p) nc)
         \<lparr>channels := (channels nc)[k := ch\<lparr>toPort := Some r\<rparr>]\<rparr>)))"

definition attachChannel :: "nat \<Rightarrow> int \<Rightarrow> int \<Rightarrow> bool \<Rightarrow> NetContainer \<Rightarrow> NetContainer result" where
  "attachChannel k sw port isInput nc =
     (if sw < 0 then Inl OutOfRange
      else rbind (lookup_vec (switches nc) (nat sw)) (\<lambda>s.
        dbg_assert (port \<ge> 0 \<and> port < int (sw_numPorts s))
          (if isInput then setToPort k (SwitchPort (nat sw) (nat port)) nc
           else setFromPort k (SwitchPort (nat sw) (nat port)) nc)))"

definition attachSwitchChannels :: "int \<Rightarrow> int \<Rightarrow> bool \<Rightarrow> NetContainer \<Rightarrow> NetContainer result" where
  "attachSwitchChannels sw port destination nc =
     rbind (attachChannel (nat (maxChannelIndex nc)) sw port destination nc) (\<lambda>nc.
       attachChannel (nat (maxChannelIndex nc) + 1) sw port (\<not> destination) nc)"

definition set_divider :: "nat \<Rightarrow> NetContainer \<Rightarrow> NetContainer result" where
  "set_divider k nc =
     rbind (lookup_vec (channels nc) k) (\<lambda>ch.
       Inr (nc\<lparr>channels := (channels nc)[k := ch\<lparr>chan :=
         setLocalLatencyDivider (localChannelLatencyDivider nc) (chan ch)\<rparr>]\<rparr>))"

definition attachNodeChannels :: "int \<Rightarrow> NetContainer \<Rightarrow> NetContainer result" where
  "attachNodeChannels node nc =
     (if node < 0 then Inl OutOfRange
      else let k = nat (maxChannelIndex nc) in
        rbind (setFromPort k (NodePort (nat node)) nc) (\<lambda>nc.
        rbind (setToPort (k + 1) (NodePort (nat node)) nc) (\<lambda>nc.
        rbind (set_divider k nc) (\<lambda>nc. set_divider (k + 1) nc))))"

definition set_local_delay :: "int \<Rightarrow> int \<Rightarrow> NetContainer \<Rightarrow> NetContainer result" where
  "set_local_delay sw port nc =
     (if sw < 0 \<or> port < 0 then Inl OutOfRange
      else rbind (lookup_vec (switches nc) (nat sw)) (\<lambda>s.
           rbind (setLocalDelayOnly (nat port) s) (\<lambda>s'.
             Inr (nc\<lparr>switches := (switches nc)[nat sw := s']\<rparr>))))"

text \<open>
  One end of a topology declaration, as \<open>readTopSrcDest\<close> reads it. Only the upper bound of a
  node number is checked there.
\<close>

datatype endpoint = TopNode int | TopSwitch int int

definition readTopSrcDest :: "endpoint \<Rightarrow> NetContainer \<Rightarrow> endpoint result" where
  "readTopSrcDest e nc = (case e of
     TopNode n \<Rightarrow> if n \<ge> numNodes nc then Inl Reported else Inr e
   | TopSwitch s p \<Rightarrow> Inr e)"

definition handleTopology :: "endpoint \<Rightarrow> endpoint \<Rightarrow> NetContainer \<Rightarrow> NetContainer result" where
  "handleTopology src dst nc =
     rbind (readTopSrcDest src nc) (\<lambda>src. rbind (readTopSrcDest dst nc) (\<lambda>dst.
     case (src, dst) of
       (TopNode _, TopNode _) \<Rightarrow> Inl Reported
     | _ \<Rightarrow>
       if maxChannelIndex nc \<ge> numChannels nc - 1 then Inl Reported
       else rbind (case (src, dst) of
           (TopSwitch s p, TopNode n) \<Rightarrow>
             rbind (attachNodeChannels n nc) (\<lambda>nc.
             rbind (attachSwitchChannels s p True nc) (\<lambda>nc. set_local_delay s p nc))
         | (TopNode n, TopSwitch s p) \<Rightarrow>
             rbind (attachNodeChannels n nc) (\<lambda>nc.
             rbind (attachSwitchChannels s p True nc) (\<lambda>nc. set_local_delay s p nc))
         | (TopSwitch s p, TopSwitch s' p') \<Rightarrow>
             rbind (attachSwitchChannels s p False nc) (\<lambda>nc.
             attachSwitchChannels s' p' True nc)
         | _ \<Rightarrow> Inl Reported)
         (\<lambda>nc. Inr (nc\<lparr>maxChannelIndex := maxChannelIndex nc + 2\<rparr>))))"

fun route_list :: "int \<Rightarrow> int \<Rightarrow> (int \<times> int) list \<Rightarrow> NetContainer \<Rightarrow> NetContainer result" where
  "route_list sw node [] nc = Inr nc"
| "route_list sw node ((port, vc) # es) nc =
     (if port \<ge> switchPorts nc \<or> port < 0 then Inl Reported
      else if vc \<ge> int MAX_NET_VC \<or> vc < 0 then Inl Reported
      else rbind (lookup_vec (switches nc) (nat sw)) (\<lambda>s.
           rbind (addRoutingEntry node port vc s) (\<lambda>s'.
             route_list sw node es (nc\<lparr>switches := (switches nc)[nat sw := s']\<rparr>))))"

definition handleRoute :: "int \<Rightarrow> int \<Rightarrow> (int \<times> int) list \<Rightarrow> NetContainer \<Rightarrow> NetContainer result" where
  "handleRoute sw node es nc =
     (if sw \<ge> numSwitches nc \<or> sw < 0 then Inl Reported
      else if node \<ge> numNodes nc \<or> node < 0 then Inl Reported
      else route_list sw node es nc)"

text \<open>\<open>validateParameters\<close> returns whether it found an error.\<close>

definition validateParameters :: "NetContainer \<Rightarrow> bool" where
  "validateParameters nc =
     (if numChannels nc > 0 then False
      else \<not> (nc_channelLatency nc > 0 \<and> channelLatencyData nc > 0 \<and> channelLatencyControl nc > 0 \<and>
           localChannelLatencyDivider nc > 0 \<and> numNodes nc > 0 \<and> numSwitches nc > 0 \<and>
           switchInputBuffers nc > 0 \<and> switchOutputBuffers nc > 0 \<and>
           switchInternalBuffersPerVC nc > -1 \<and> switchBandwidth nc > 0 \<and> switchPorts nc > 1))"

fun new_switches :: "nat list \<Rightarrow> NetContainer \<Rightarrow> NetSwitch list result" where
  "new_switches [] nc = Inr []"
| "new_switches (i # is) nc =
     rbind (NetSwitch_new (int i) (nat (numNodes nc)) (nat (switchPorts nc)) (switchInputBuffers nc)
              (switchOutputBuffers nc) (switchInternalBuffersPerVC nc) (switchBandwidth nc)
              (nc_channelLatency nc)) (\<lambda>s.
     rbind (new_switches is nc) (\<lambda>ss. Inr (s # ss)))"

fun new_nodes :: "nat list \<Rightarrow> NetNode list result" where
  "new_nodes [] = Inr []"
| "new_nodes (i # is) =
     rbind (NetNode_new (int i)) (\<lambda>n. rbind (new_nodes is) (\<lambda>ns. Inr (n # ns)))"

definition allocateNetworkStructures :: "NetContainer \<Rightarrow> NetContainer result" where
  "allocateNetworkStructures nc =
     (if numChannels nc > 0 then Inl Reported
      else let count = (numSwitches nc * switchPorts nc) * 2 in
        rbind (new_switches [0..<nat (numSwitches nc)] nc) (\<lambda>ss.
        rbind (new_nodes [0..<nat (numNodes nc)]) (\<lambda>ns.
          Inr (nc\<lparr>numChannels := count, maxChannelIndex := 0,
                  channels := map (\<lambda>i. \<lparr>chan = Channel_new (int i), fromPort = None, toPort = None\<rparr>)
                    [0..<nat count],
                  switches := ss, nodes := ns\<rparr>))))"

definition NetSwitch_checkTopology :: "NetSwitch \<Rightarrow> bool" where
  "NetSwitch_checkTopology sw = False"

text \<open>
  Without any topology or route the arrays are not allocated, and the loops of
  \<open>validateNetwork\<close> run into null pointers.
\<close>

definition validateNetwork :: "NetContainer \<Rightarrow> bool result" where
  "validateNetwork nc =
     (if int (length (nodes nc)) < numNodes nc \<or> int (length (switches nc)) < numSwitches nc
      then Inl OutOfRange
      else foldl (\<lambda>r sw. rbind r (\<lambda>found. rbind (checkRoutingTable sw) (\<lambda>e.
             Inr (found \<or> NetSwitch_checkTopology sw \<or> e))))
           (Inr (\<exists>nd \<in> set (nodes nc). NetNode_checkTopology nd)) (switches nc))"

text \<open>
  The statements of a network description after the lexer: a parameter with its value, a
  topology or route declaration, or the statements of an included file.
\<close>

datatype param = ChannelLatency | ChannelLatencyData | ChannelLatencyControl | ChannelBandwidth
  | LocalChannelLatencyDivider | NumNodes | NumSwitches | SwitchInputBuffers
  | SwitchOutputBuffers | SwitchInternalBuffersPerVC | SwitchBandwidth | SwitchPorts

datatype statement = Param param int | Top endpoint endpoint
  | Route int int "(int \<times> int) list" | Include "statement list"

fun handle_param :: "param \<Rightarrow> int \<Rightarrow> NetContainer \<Rightarrow> NetContainer" where
  "handle_param ChannelLatency i nc = nc\<lparr>nc_channelLatency := i\<rparr>"
| "handle_param ChannelLatencyData i nc = nc\<lparr>channelLatencyData := i\<rparr>"
| "handle_param ChannelLatencyControl i nc = nc\<lparr>channelLatencyControl := i\<rparr>"
| "handle_param ChannelBandwidth i nc = nc\<lparr>channelBandwidth := i\<rparr>"
| "handle_param LocalChannelLatencyDivider i nc = nc\<lparr>localChannelLatencyDivider := i\<rparr>"
| "handle_param NumNodes i nc = nc\<lparr>numNodes := i\<rparr>"
| "handle_param NumSwitches i nc = nc\<lparr>numSwitches := i\<rparr>"
| "handle_param SwitchInputBuffers i nc = nc\<lparr>switchInputBuffers := i\<rparr>"
| "handle_param SwitchOutputBuffers i nc = nc\<lparr>switchOutputBuffers := i\<rparr>"
| "handle_param SwitchInternalBuffersPerVC i nc = nc\<lparr>switchInternalBuffersPerVC := i\<rparr>"
| "handle_param SwitchBandwidth i nc = nc\<lparr>switchBandwidth := i\<rparr>"
| "handle_param SwitchPorts i nc = nc\<lparr>switchPorts := i\<rparr>"

definition validate_after :: "NetContainer \<Rightarrow> NetContainer result" where
  "validate_after nc =
     (if numChannels nc = 0 then
        (if validateParameters nc then Inl Reported else allocateNetworkStructures nc)
      else Inr nc)"

fun readFirstToken :: "statement \<Rightarrow> NetContainer \<Rightarrow> NetContainer result"
  and read_tokens :: "statement list \<Rightarrow> NetContainer \<Rightarrow> NetContainer result" where
  "readFirstToken (Param p i) nc =
     (if numChannels nc \<noteq> 0 then Inl Reported else Inr (handle_param p i nc))"
| "readFirstToken (Top src dst) nc = rbind (validate_after nc) (handleTopology src dst)"
| "readFirstToken (Route sw node es) nc = rbind (validate_after nc) (handleRoute sw node es)"
| "readFirstToken (Include ss) nc = read_tokens ss nc"
| "read_tokens [] nc = Inr nc"
| "read_tokens (s # ss) nc = rbind (readFirstToken s nc) (read_tokens ss)"

definition buildNetwork :: "statement list \<Rightarrow> NetContainer \<Rightarrow> NetContainer result" where
  "buildNetwork ss nc =
     rbind (read_tokens ss nc) (\<lambda>nc.
     rbind (validateNetwork nc) (\<lambda>bad. if bad then Inl Reported else Inr nc))"

section \<open>Messages enter and leave\<close>

text \<open>The channel that a port notifies: the one its \<open>channel\<close> pointer was set to last.\<close>

definition channel_of :: "port_ref \<Rightarrow> NetContainer \<Rightarrow> nat option" where
  "channel_of r nc =
     find (\<lambda>k. fromPort (channels nc ! k) = Some r) (rev [0..<length (channels nc)])"

definition notify_channel :: "port_ref \<Rightarrow> int \<Rightarrow> NetContainer \<Rightarrow> NetContainer" where
  "notify_channel r n nc = (case channel_of r nc of
     None \<Rightarrow> nc
   | Some k \<Rightarrow> nc\<lparr>channels := (channels nc)[k := (channels nc ! k)\<lparr>chan :=
       (chan (channels nc ! k))\<lparr>messagesWaiting := messagesWaiting (chan (channels nc ! k)) + n\<rparr>\<rparr>]\<rparr>)"

definition transmit_latency :: "NetContainer \<Rightarrow> MessageState \<Rightarrow> int" where
  "transmit_latency nc msg =
     (if flexusInFastMode msg then 1
      else if channelBandwidth nc > 0
      then wrap32 (transmitLatency msg + channelBandwidth nc - 1) sdiv channelBandwidth nc
      else if transmitLatency msg > 8 then channelLatencyData nc else channelLatencyControl nc)"

definition NetContainer_insertMessage ::
    "int \<Rightarrow> MessageState \<Rightarrow> NetContainer \<Rightarrow> NetContainer result" where
  "NetContainer_insertMessage now msg nc =
     (if srcNode msg < 0 \<or> srcNode msg \<ge> numNodes nc then Inl Reported
      else if destNode msg < 0 \<or> destNode msg \<ge> numNodes nc then Inl Reported
      else if priority msg < 0 \<or> priority msg \<ge> 4 then Inl Reported
      else let msg = msg\<lparr>transmitLatency := transmit_latency nc msg,
                         networkVC := BUILD_VC (priority msg) 0\<rparr>;
               n = nat (srcNode msg);
               nc = nc\<lparr>activeList := activeList nc @ [serial msg],
                       activeMessages := activeMessages nc + 1\<rparr> in
           rbind (lookup_vec (nodes nc) n) (\<lambda>nd.
           rbind (NetNode_insertMessage now msg nd) (\<lambda>nd'.
             Inr (notify_channel (NodePort n) 1 (nc\<lparr>nodes := (nodes nc)[n := nd']\<rparr>)))))"

text \<open>
  \<open>deliver\<close> is the simulator's callback: it returns whether it failed. The message leaves the
  list of active messages, whose nodes the messages point to.
\<close>

definition deliverMessage :: "(MessageState \<Rightarrow> 'e \<Rightarrow> 'e \<times> bool) \<Rightarrow> MessageState \<Rightarrow>
    NetContainer \<times> 'e \<Rightarrow> (NetContainer \<times> 'e) result" where
  "deliverMessage deliver msg = (\<lambda>(nc, e).
     dbg_assert (serial msg \<in> set (activeList nc))
       (let (e', failed) = deliver msg e in
        if failed then Inl Reported
        else let nc' = nc\<lparr>activeList := remove1 (serial msg) (activeList nc),
                          activeMessages := activeMessages nc - 1\<rparr>
          in dbg_assert (activeMessages nc' = 0 \<longrightarrow> activeList nc' = []) (Inr (nc', e'))))"

section \<open>One cycle\<close>

text \<open>A loop over indices whose body may fail.\<close>

fun for_each :: "(nat \<Rightarrow> 's \<Rightarrow> 's result) \<Rightarrow> nat list \<Rightarrow> 's \<Rightarrow> 's result" where
  "for_each f [] s = Inr s"
| "for_each f (i # is) s = rbind (f i s) (for_each f is)"

definition node_vc_step :: "('e \<Rightarrow> int \<Rightarrow> int \<Rightarrow> bool) \<Rightarrow> (MessageState \<Rightarrow> 'e \<Rightarrow> 'e \<times> bool) \<Rightarrow> int \<Rightarrow> nat \<Rightarrow>
    nat \<Rightarrow> NetContainer \<times> 'e \<Rightarrow> (NetContainer \<times> 'e) result" where
  "node_vc_step avail deliver now n i = (\<lambda>(nc, e).
     rbind (lookup_vec (nodes nc) n) (\<lambda>nd.
     rbind (hasMessage (int i) (toNodePort nd)) (\<lambda>has.
     if has \<and> avail e (nodeId nd) (NETVC_TO_PROTVC i) then
       rbind (ChannelInputPort_removeMessage now (int i) (toNodePort nd)) (\<lambda>(p, msg).
       if destNode msg \<noteq> nodeId nd then Inl Reported
       else deliverMessage deliver msg
              (nc\<lparr>nodes := (nodes nc)[n := nd\<lparr>toNodePort := p,
                   nd_messagesWaiting := nd_messagesWaiting nd - 1\<rparr>]\<rparr>, e))
     else Inr (nc, e))))"

definition NetNode_drive :: "('e \<Rightarrow> int \<Rightarrow> int \<Rightarrow> bool) \<Rightarrow> (MessageState \<Rightarrow> 'e \<Rightarrow> 'e \<times> bool) \<Rightarrow> int \<Rightarrow>
    nat \<Rightarrow> NetContainer \<times> 'e \<Rightarrow> (NetContainer \<times> 'e) result" where
  "NetNode_drive avail deliver now n = (\<lambda>(nc, e).
     rbind (lookup_vec (nodes nc) n) (\<lambda>nd.
     if nd_messagesWaiting nd = 0 then Inr (nc, e)
     else for_each (node_vc_step avail deliver now n) [0..<MAX_VC] (nc, e)))"

text \<open>
  The output ports of a switch notify their channels of what the switch sends; the switch
  collects the notifications in \<open>channelWaiting\<close>, and they reach the channels here.
\<close>

definition flush_switch :: "nat \<Rightarrow> NetContainer \<Rightarrow> NetContainer" where
  "flush_switch s nc =
     (let sw = switches nc ! s;
          nc' = fold (\<lambda>p. notify_channel (SwitchPort s p) (channelWaiting sw p)) [0..<sw_numPorts sw] nc
      in nc'\<lparr>switches := (switches nc')[s := sw\<lparr>channelWaiting := (\<lambda>_. 0)\<rparr>]\<rparr>)"

definition drive_switch :: "int \<Rightarrow> nat \<Rightarrow> NetContainer \<Rightarrow> NetContainer result" where
  "drive_switch now s nc =
     rbind (lookup_vec (switches nc) s) (\<lambda>sw.
     rbind (NetSwitch_drive now sw) (\<lambda>sw'.
       Inr (flush_switch s (nc\<lparr>switches := (switches nc)[s := sw']\<rparr>))))"

definition drive_switch_inputs :: "int \<Rightarrow> nat \<Rightarrow> NetContainer \<Rightarrow> NetContainer result" where
  "drive_switch_inputs now s nc =
     rbind (lookup_vec (switches nc) s) (\<lambda>sw.
     rbind (driveInputPorts now sw) (\<lambda>sw'. Inr (nc\<lparr>switches := (switches nc)[s := sw']\<rparr>)))"

definition drive_node_inputs :: "int \<Rightarrow> nat \<Rightarrow> NetContainer \<Rightarrow> NetContainer result" where
  "drive_node_inputs now n nc =
     rbind (lookup_vec (nodes nc) n) (\<lambda>nd.
     rbind (NetNode_driveInputPorts now nd) (\<lambda>nd'. Inr (nc\<lparr>nodes := (nodes nc)[n := nd']\<rparr>)))"

text \<open>A channel without ports does nothing while no message waits.\<close>

definition drive_channel :: "int \<Rightarrow> nat \<Rightarrow> NetContainer \<Rightarrow> NetContainer result" where
  "drive_channel now k nc =
     rbind (lookup_vec (channels nc) k) (\<lambda>ch.
     case (fromPort ch, toPort ch) of
       (Some f, Some t) \<Rightarrow>
         rbind (get_out f nc) (\<lambda>from. rbind (get_in t nc) (\<lambda>to.
         rbind (Channel_drive now (chan ch, from, to)) (\<lambda>(c', from', to').
           Inr ((set_in t to' (set_out f from' nc))
             \<lparr>channels := (channels nc)[k := ch\<lparr>chan := c'\<rparr>]\<rparr>))))
     | _ \<Rightarrow> if ch_state (chan ch) = CS_IDLE \<and> messagesWaiting (chan ch) \<le> 0
            then dbg_assert (busy (chan ch) \<le> 0) (Inr nc) else Inl OutOfRange)"

definition NetContainer_drive :: "('e \<Rightarrow> int \<Rightarrow> int \<Rightarrow> bool) \<Rightarrow> (MessageState \<Rightarrow> 'e \<Rightarrow> 'e \<times> bool) \<Rightarrow>
    int \<Rightarrow> NetContainer \<times> 'e \<Rightarrow> (NetContainer \<times> 'e) result" where
  "NetContainer_drive avail deliver now = (\<lambda>(nc, e).
     rbind (for_each (drive_switch now) [0..<nat (numSwitches nc)] nc) (\<lambda>nc.
     rbind (for_each (drive_switch_inputs now) [0..<nat (numSwitches nc)] nc) (\<lambda>nc.
     rbind (for_each (drive_node_inputs now) [0..<nat (numNodes nc)] nc) (\<lambda>nc.
     rbind (for_each (drive_channel now) [0..<nat (maxChannelIndex nc)] nc) (\<lambda>nc.
       for_each (NetNode_drive avail deliver now) [0..<nat (numNodes nc)] (nc, e))))))"

end
