(* ===== verification/Net_Flow.thy ===== *)
theory Net_Flow
  imports Net_Switch
begin

text \<open>
  What a cycle of a switch adds to its output ports, whatever the state it starts from: every
  message added is routed to its port by the table, and the notifications to the channel
  behind a port count the messages added. Used for the composition of switches and channels.
\<close>

definition routed :: "NetSwitch \<Rightarrow> nat \<Rightarrow> MessageState \<Rightarrow> bool" where
  "routed sw i m \<longleftrightarrow> (\<exists>v. (int i, v) \<in>
     set (zip (routingTable sw ! nat (destNode m)) (vcTable sw ! nat (destNode m))))"

definition sent :: "NetSwitch \<Rightarrow> NetSwitch \<Rightarrow> bool" where
  "sent sw sw' \<longleftrightarrow> routingTable sw' = routingTable sw \<and> vcTable sw' = vcTable sw \<and>
     length (outputPorts sw') = length (outputPorts sw) \<and>
     (\<forall>i < length (outputPorts sw).
        channelWaiting sw' i - channelWaiting sw i =
          getBuffersUsed (outputPorts sw' ! i) - getBuffersUsed (outputPorts sw ! i) \<and>
        getBuffersUsed (outputPorts sw ! i) \<le> getBuffersUsed (outputPorts sw' ! i) \<and>
        (\<forall>vc. \<forall>m \<in> set (out_contents (outputPorts sw' ! i) vc).
           m \<in> set (out_contents (outputPorts sw ! i) vc) \<or> routed sw i m))"

lemma sent_refl [simp]: "sent sw sw"
  by (simp add: sent_def)

lemma sent_trans:
  assumes "sent a b" "sent b c"
  shows "sent a c"
proof -
  have r: "routed b = routed a" using assms(1) by (simp add: sent_def routed_def fun_eq_iff)
  have "channelWaiting c i - channelWaiting a i =
        getBuffersUsed (outputPorts c ! i) - getBuffersUsed (outputPorts a ! i)"
    "getBuffersUsed (outputPorts a ! i) \<le> getBuffersUsed (outputPorts c ! i)"
    "\<forall>vc. \<forall>m \<in> set (out_contents (outputPorts c ! i) vc).
        m \<in> set (out_contents (outputPorts a ! i) vc) \<or> routed a i m"
    if "i < length (outputPorts a)" for i
    using assms that r unfolding sent_def by (smt (verit))+
  then show ?thesis using assms by (simp add: sent_def)
qed

text \<open>What does not touch the output ports sends nothing.\<close>

lemma sent_upd [simp]:
  "sent sw (sw'\<lparr>inputPorts := x\<rparr>) = sent sw sw'" "sent (sw\<lparr>inputPorts := x\<rparr>) sw' = sent sw sw'"
  "sent sw (sw'\<lparr>internalBuffer := b\<rparr>) = sent sw sw'"
  "sent (sw\<lparr>internalBuffer := b\<rparr>) sw' = sent sw sw'"
  "sent sw (sw'\<lparr>sw_messagesWaiting := w\<rparr>) = sent sw sw'"
  "sent sw (sw'\<lparr>nextStartingPort := k\<rparr>) = sent sw sw'"
  by (simp_all add: sent_def routed_def)

lemma getBuffersUsed_sum: "getBuffersUsed p = (\<Sum>vc<8. buffersUsed p vc)"
  by (simp add: getBuffersUsed_def sum_list_distinct_conv_sum_set atLeast0LessThan del: upt_rec_numeral)

lemma getBuffersUsed_upd:
  assumes "vc < 8" "buffersUsed p' = (buffersUsed p)(vc := buffersUsed p vc + x)"
  shows "getBuffersUsed p' = getBuffersUsed p + x"
proof -
  have s: "(\<Sum>v<8. g v) = g vc + (\<Sum>v \<in> {..<8} - {vc}. g v)" for g :: "nat \<Rightarrow> int"
    by (rule sum.remove) (use assms(1) in simp_all)
  have "(\<Sum>v \<in> {..<8} - {vc}. buffersUsed p' v) = (\<Sum>v \<in> {..<8} - {vc}. buffersUsed p v)"
    using assms(2) by (intro sum.cong) auto
  moreover have "buffersUsed p' vc = buffersUsed p vc + x" using assms(2) by simp
  ultimately show ?thesis
    unfolding getBuffersUsed_sum s [of "buffersUsed p'"] s [of "buffersUsed p"] by linarith
qed

lemma out_insert_sent:
  assumes "ChannelOutputPort_insertMessage now m p = Inr p'"
  shows "getBuffersUsed p' = getBuffersUsed p + 1"
    "x \<in> set (out_contents p' vc) \<Longrightarrow> x \<in> set (out_contents p vc) \<or> x = core_of m"
proof -
  have i: "vc_ok (networkVC m)" and u: "buffersUsed p' = (buffersUsed p)
      (nat (networkVC m) := buffersUsed p (nat (networkVC m)) + 1)"
    using assms by (auto simp: ChannelOutputPort_insertMessage_def hasBufferSpace_def Let_def
        insertMessageHelper_def split: if_splits)
  show "getBuffersUsed p' = getBuffersUsed p + 1"
    using getBuffersUsed_upd [OF _ u] vc_ok_nat [OF i] by simp
  show "x \<in> set (out_contents p' vc) \<Longrightarrow> x \<in> set (out_contents p vc) \<or> x = core_of m"
    using assms by (auto simp: ChannelOutputPort_insertMessage_def hasBufferSpace_def Let_def
        insertMessageHelper_def out_contents_def split: if_splits)
qed

lemma route_search_entry:
  "route_search outs prio es = Inr (Some (port, vc)) \<Longrightarrow> 0 \<le> port \<and> (\<exists>v. (port, v) \<in> set es)"
  by (induction outs prio es rule: route_search.induct) (auto split: if_splits)

lemma routingPolicy_routed:
  assumes "routingPolicy sw m = Inr (Some r)"
  shows "routed sw (nat (nextHop r)) m" "destNode r = destNode m"
proof -
  obtain port vc es where e: "route_entries sw (destNode m) = Inr es"
    "route_search (outputPorts sw) (priority m) es = Inr (Some (port, vc))"
    "r = m\<lparr>nextHop := port, nextVC := vc\<rparr>"
    using assms by (auto simp: routingPolicy_def split: option.splits)
  show "destNode r = destNode m" using e(3) by simp
  show "routed sw (nat (nextHop r)) m"
    using route_search_entry [OF e(2)] e(1,3) 
    by (auto simp: routed_def route_entries_def split: if_splits)
qed

lemma send_sent:
  assumes "sendMessageToOutput now m sw = Inr sw'" "routed sw (nat (nextHop m)) m"
  shows "sent sw sw'"
proof -
  let ?i = "nat (nextHop m)"
  let ?m = "m\<lparr>networkVC := nextVC m, nextVC := -1, hopCount := hopCount m + 1\<rparr>"
  obtain p' where p: "?i < length (outputPorts sw)"
    "ChannelOutputPort_insertMessage now ?m (outputPorts sw ! ?i) = Inr p'"
    "sw' = sw\<lparr>outputPorts := (outputPorts sw)[?i := p'],
       channelWaiting := (channelWaiting sw)(?i := channelWaiting sw ?i + 1)\<rparr>"
    using assms(1) by (auto simp: sendMessageToOutput_def Let_def split: if_splits)
  have "routed sw ?i (core_of ?m)" using assms(2) by (simp add: routed_def core_of_def)
  then show ?thesis
    using p out_insert_sent [OF p(2)] by (auto simp: sent_def nth_list_update)
qed

lemma core_destNode [simp]: "destNode (core_of m) = destNode m"
  by (simp add: core_of_def)

lemma remove_destNode:
  "ChannelInputPort_removeMessage now vc p = Inr (p', m) \<Longrightarrow> peekMessage vc p = Inr (Some m0) \<Longrightarrow>
     destNode m = destNode m0"
  by (auto simp: ChannelInputPort_removeMessage_def ChannelPort_removeMessage_def peekMessage_def
      Let_def split: list.splits)

lemma ib_remove_destNode:
  "ib_removeMessage now b = Inr (b', m) \<Longrightarrow> ib_getMessage b = Some m0 \<Longrightarrow> destNode m = destNode m0"
  by (auto simp: ib_removeMessage_def ib_getMessage_def Let_def split: option.splits)

lemma routed_dest: "destNode m = destNode m' \<Longrightarrow> routed sw i m = routed sw i m'"
  by (simp add: routed_def)

lemma routed_upd [simp]:
  "routed (sw\<lparr>inputPorts := x\<rparr>) = routed sw" "routed (sw\<lparr>internalBuffer := b\<rparr>) = routed sw"
  by (simp_all add: routed_def fun_eq_iff)

lemma port_step_sent:
  assumes "port_step now vc i bw sw = Inr (sw', bw')"
  shows "sent sw sw'"
proof -
  obtain p pk where p: "lookup_vec (inputPorts sw) i = Inr p" "peekMessage (int vc) p = Inr pk"
    using assms by (auto simp: port_step_def)
  show ?thesis
  proof (cases pk)
    case None
    then show ?thesis using assms p by (auto simp: port_step_def)
  next
    case (Some msg)
    obtain r where r: "routingPolicy sw msg = Inr r" using assms p Some by (auto simp: port_step_def)
    show ?thesis
    proof (cases r)
      case None
      then show ?thesis using assms p Some r by (auto simp: port_step_def split: if_splits)
    next
      case (Some rm)
      obtain p' m sw1 where s: "ChannelInputPort_removeMessage now (int vc) p = Inr (p', m)"
        "sendMessageToOutput now (m\<lparr>nextHop := nextHop rm, nextVC := nextVC rm\<rparr>)
           (sw\<lparr>inputPorts := (inputPorts sw)[i := p']\<rparr>) = Inr sw1"
        "sent sw sw' = sent sw sw1"
        using assms p \<open>pk = Some msg\<close> r Some by (auto simp: port_step_def)
      have "destNode m = destNode msg" using remove_destNode [OF s(1)] p \<open>pk = Some msg\<close> by simp
      then have "routed sw (nat (nextHop rm)) m"
        using routingPolicy_routed(1) r Some routed_dest by metis
      then show ?thesis using send_sent [OF s(2)] s(3) by (simp add: routed_def)
    qed
  qed
qed

lemma port_loop_sent:
  "port_loop now vc ports bw sw = Inr (sw', bw') \<Longrightarrow> sent sw sw'"
proof (induction ports arbitrary: sw bw)
  case (Cons i ports)
  then show ?case
    by (auto split: if_splits dest!: port_step_sent intro: sent_trans)
qed simp

lemma internal_loop_sent:
  "internal_loop now fuel bw sw = Inr (sw', bw') \<Longrightarrow> sent sw sw'"
proof (induction fuel arbitrary: sw bw)
  case (Suc fuel)
  show ?case
  proof (cases "ib_getMessage (internalBuffer sw)")
    case None
    then show ?thesis using Suc.prems by simp
  next
    case (Some msg)
    show ?thesis
    proof (cases "bw > 0")
      case False
      then show ?thesis using Suc.prems Some by simp
    next
      case True
      obtain r sw1 bw1 where r: "routingPolicy sw msg = Inr r"
        "(case r of None \<Rightarrow> Inr (sw, bw)
          | Some rmsg \<Rightarrow> rbind (ib_removeMessage now (internalBuffer sw)) (\<lambda>(b, m).
              rbind (sendMessageToOutput now (m\<lparr>nextHop := nextHop rmsg, nextVC := nextVC rmsg\<rparr>)
                       (sw\<lparr>internalBuffer := b\<rparr>)) (\<lambda>sw'. Inr (sw', bw - 1)))) = Inr (sw1, bw1)"
        "(let (b, stop) = nextMessage (internalBuffer sw1); sw'' = sw1\<lparr>internalBuffer := b\<rparr>
          in if stop then Inr (sw'', bw1) else internal_loop now fuel bw1 sw'') = Inr (sw', bw')"
        using Suc.prems Some True by auto
      obtain b stop where n: "nextMessage (internalBuffer sw1) = (b, stop)" by fastforce
      have "sent sw sw1"
      proof (cases r)
        case None
        then show ?thesis using r(2) by simp
      next
        case (Some rm)
        obtain b m where s: "ib_removeMessage now (internalBuffer sw) = Inr (b, m)"
          "sendMessageToOutput now (m\<lparr>nextHop := nextHop rm, nextVC := nextVC rm\<rparr>)
             (sw\<lparr>internalBuffer := b\<rparr>) = Inr sw1"
          using r(2) Some by auto
        have "destNode m = destNode msg"
          using ib_remove_destNode [OF s(1)] \<open>ib_getMessage (internalBuffer sw) = Some msg\<close> by simp
        then have "routed sw (nat (nextHop rm)) m"
          using routingPolicy_routed(1) r(1) Some routed_dest by metis
        then show ?thesis using send_sent [OF s(2)] by (simp add: routed_def)
      qed
      then show ?thesis
        using r(3) n Suc.IH [of bw1 "sw1\<lparr>internalBuffer := b\<rparr>"] sent_trans
        by (auto simp: Let_def split: if_splits)
    qed
  qed
qed simp

lemma vc_step_sent: "vc_step now vc bw sw = Inr (sw', bw') \<Longrightarrow> sent sw sw'"
  by (auto simp: vc_step_def Let_def split: if_splits dest!: internal_loop_sent port_loop_sent
      intro: sent_trans)

lemma vc_loop_sent: "vc_loop now vcs bw sw = Inr (sw', bw') \<Longrightarrow> sent sw sw'"
  by (induction vcs arbitrary: sw bw) (auto dest!: vc_step_sent intro: sent_trans)

lemma NetSwitch_drive_sent: "NetSwitch_drive now sw = Inr sw' \<Longrightarrow> sent sw sw'"
  by (auto simp: NetSwitch_drive_def simp del: upt_rec_numeral dest!: vc_loop_sent)

end
