(* ===== verification/Net_Network.thy ===== *)
theory Net_Network
  imports Net_Container Net_Flow
begin

text \<open>
  The network as a whole: the wiring that a topology gives, the invariant that ties ports,
  switches, channels and the list of active messages together, and what one cycle of
  \<open>NetContainer::drive\<close> does to the messages in flight.
\<close>

section \<open>Wiring\<close>

definition out_at :: "port_ref \<Rightarrow> NetContainer \<Rightarrow> ChannelPort" where
  "out_at r nc = (case r of NodePort n \<Rightarrow> fromNodePort (nodes nc ! n)
     | SwitchPort s p \<Rightarrow> outputPorts (switches nc ! s) ! p)"

definition in_at :: "port_ref \<Rightarrow> NetContainer \<Rightarrow> ChannelInputPort" where
  "in_at r nc = (case r of NodePort n \<Rightarrow> toNodePort (nodes nc ! n)
     | SwitchPort s p \<Rightarrow> inputPorts (switches nc ! s) ! p)"

definition valid_ref :: "NetContainer \<Rightarrow> port_ref \<Rightarrow> bool" where
  "valid_ref nc r = (case r of NodePort n \<Rightarrow> n < length (nodes nc)
     | SwitchPort s p \<Rightarrow> s < length (switches nc) \<and> p < sw_numPorts (switches nc ! s))"

definition delivers :: "NetContainer \<Rightarrow> port_ref \<Rightarrow> nat \<Rightarrow> bool" where
  "delivers nc r n \<longleftrightarrow> (\<exists>k < nat (maxChannelIndex nc).
     fromPort (channels nc ! k) = Some r \<and> toPort (channels nc ! k) = Some (NodePort n))"

text \<open>
  The static part of the invariant: the channels in use join existing ports, each output port
  has exactly one and no input port has two, only switches lead to nodes, and an entry of a
  routing table leads to a node only for messages to that node.
\<close>

definition wired :: "NetContainer \<Rightarrow> bool" where
  "wired nc \<longleftrightarrow>
     numSwitches nc = int (length (switches nc)) \<and> numNodes nc = int (length (nodes nc)) \<and>
     nat (maxChannelIndex nc) \<le> length (channels nc) \<and>
     (\<forall>n < length (nodes nc). nodeId (nodes nc ! n) = int n) \<and>
     (\<forall>s < length (switches nc). sw_numNodes (switches nc ! s) = length (nodes nc)) \<and>
     (\<forall>k < length (channels nc). nat (maxChannelIndex nc) \<le> k \<longrightarrow> fromPort (channels nc ! k) = None) \<and>
     (\<forall>k < nat (maxChannelIndex nc). \<exists>f t. fromPort (channels nc ! k) = Some f \<and>
        toPort (channels nc ! k) = Some t \<and> valid_ref nc f \<and> valid_ref nc t) \<and>
     (\<forall>j < nat (maxChannelIndex nc). \<forall>k < nat (maxChannelIndex nc).
        fromPort (channels nc ! j) = fromPort (channels nc ! k) \<or>
        toPort (channels nc ! j) = toPort (channels nc ! k) \<longrightarrow> j = k) \<and>
     (\<forall>r. valid_ref nc r \<longrightarrow> (\<exists>k < nat (maxChannelIndex nc). fromPort (channels nc ! k) = Some r)) \<and>
     (\<forall>r n. delivers nc r n \<longrightarrow> (\<exists>s p. r = SwitchPort s p \<and>
        (\<forall>d < length (nodes nc). \<forall>v. (int p, v) \<in>
           set (zip (routingTable (switches nc ! s) ! d) (vcTable (switches nc ! s) ! d)) \<longrightarrow> d = n)))"

lemma wiredD:
  assumes "wired nc"
  shows "numSwitches nc = int (length (switches nc))" "numNodes nc = int (length (nodes nc))"
    "nat (maxChannelIndex nc) \<le> length (channels nc)"
    "n < length (nodes nc) \<Longrightarrow> nodeId (nodes nc ! n) = int n"
    "s < length (switches nc) \<Longrightarrow> sw_numNodes (switches nc ! s) = length (nodes nc)"
    "k < length (channels nc) \<Longrightarrow> nat (maxChannelIndex nc) \<le> k \<Longrightarrow> fromPort (channels nc ! k) = None"
    "k < nat (maxChannelIndex nc) \<Longrightarrow> \<exists>f t. fromPort (channels nc ! k) = Some f \<and>
       toPort (channels nc ! k) = Some t \<and> valid_ref nc f \<and> valid_ref nc t"
    "j < nat (maxChannelIndex nc) \<Longrightarrow> k < nat (maxChannelIndex nc) \<Longrightarrow>
       fromPort (channels nc ! j) = fromPort (channels nc ! k) \<Longrightarrow> j = k"
    "j < nat (maxChannelIndex nc) \<Longrightarrow> k < nat (maxChannelIndex nc) \<Longrightarrow>
       toPort (channels nc ! j) = toPort (channels nc ! k) \<Longrightarrow> j = k"
    "valid_ref nc r \<Longrightarrow> \<exists>k < nat (maxChannelIndex nc). fromPort (channels nc ! k) = Some r"
    "delivers nc r n \<Longrightarrow> \<exists>s p. r = SwitchPort s p \<and>
       (\<forall>d < length (nodes nc). \<forall>v. (int p, v) \<in>
          set (zip (routingTable (switches nc ! s) ! d) (vcTable (switches nc ! s) ! d)) \<longrightarrow> d = n)"
  using assms unfolding wired_def by blast+

lemma delivers_valid:
  assumes "wired nc" "delivers nc r n"
  shows "valid_ref nc r" "n < length (nodes nc)"
proof -
  obtain k where k: "k < nat (maxChannelIndex nc)" "fromPort (channels nc ! k) = Some r"
    "toPort (channels nc ! k) = Some (NodePort n)"
    using assms(2) unfolding delivers_def by blast
  then show "valid_ref nc r" "n < length (nodes nc)"
    using wiredD(7) [OF assms(1) k(1)] by (auto simp: valid_ref_def)
qed

text \<open>What a cycle leaves as it is.\<close>

definition same_net :: "NetContainer \<Rightarrow> NetContainer \<Rightarrow> bool" where
  "same_net nc nc' \<longleftrightarrow>
     map fromPort (channels nc') = map fromPort (channels nc) \<and>
     map toPort (channels nc') = map toPort (channels nc) \<and>
     map nodeId (nodes nc') = map nodeId (nodes nc) \<and>
     map (\<lambda>sw. (sw_numPorts sw, sw_numNodes sw, routingTable sw, vcTable sw)) (switches nc') =
     map (\<lambda>sw. (sw_numPorts sw, sw_numNodes sw, routingTable sw, vcTable sw)) (switches nc) \<and>
     maxChannelIndex nc' = maxChannelIndex nc \<and> numNodes nc' = numNodes nc \<and>
     numSwitches nc' = numSwitches nc"

lemma map_eq_nth:
  "map f xs = map f ys \<longleftrightarrow> length xs = length ys \<and> (\<forall>i < length xs. f (xs ! i) = f (ys ! i))"
  by (auto simp: list_eq_iff_nth_eq)

lemma same_net_refl [simp]: "same_net nc nc"
  by (simp add: same_net_def)

lemma same_net_trans: "same_net a b \<Longrightarrow> same_net b c \<Longrightarrow> same_net a c"
  by (simp add: same_net_def)

lemma same_netD:
  assumes "same_net nc nc'"
  shows "length (channels nc') = length (channels nc)" "length (nodes nc') = length (nodes nc)"
    "length (switches nc') = length (switches nc)"
    "maxChannelIndex nc' = maxChannelIndex nc" "numNodes nc' = numNodes nc"
    "numSwitches nc' = numSwitches nc"
    "k < length (channels nc) \<Longrightarrow> fromPort (channels nc' ! k) = fromPort (channels nc ! k)"
    "k < length (channels nc) \<Longrightarrow> toPort (channels nc' ! k) = toPort (channels nc ! k)"
    "n < length (nodes nc) \<Longrightarrow> nodeId (nodes nc' ! n) = nodeId (nodes nc ! n)"
    "s < length (switches nc) \<Longrightarrow> sw_numPorts (switches nc' ! s) = sw_numPorts (switches nc ! s)"
    "s < length (switches nc) \<Longrightarrow> sw_numNodes (switches nc' ! s) = sw_numNodes (switches nc ! s)"
    "s < length (switches nc) \<Longrightarrow> routingTable (switches nc' ! s) = routingTable (switches nc ! s)"
    "s < length (switches nc) \<Longrightarrow> vcTable (switches nc' ! s) = vcTable (switches nc ! s)"
  using assms by (auto simp: same_net_def map_eq_nth)

lemma same_net_valid: "same_net nc nc' \<Longrightarrow> valid_ref nc' r = valid_ref nc r"
  by (auto simp: valid_ref_def same_netD split: port_ref.split)

lemma same_net_delivers:
  assumes "same_net nc nc'" "wired nc"
  shows "delivers nc' r n = delivers nc r n"
proof -
  have "k < nat (maxChannelIndex nc) \<Longrightarrow> k < length (channels nc)" for k
    using wiredD(3) [OF assms(2)] by simp
  then show ?thesis using same_netD(4,7,8) [OF assms(1)] by (auto simp: delivers_def)
qed

lemma same_net_wired:
  assumes "same_net nc nc'" "wired nc"
  shows "wired nc'"
proof -
  note d = same_netD [OF assms(1)] same_net_valid [OF assms(1)] same_net_delivers [OF assms]
  note w = wiredD [OF assms(2)]
  have e: "k < nat (maxChannelIndex nc) \<Longrightarrow> fromPort (channels nc' ! k) = fromPort (channels nc ! k)"
    "k < nat (maxChannelIndex nc) \<Longrightarrow> toPort (channels nc' ! k) = toPort (channels nc ! k)" for k
    using w(3) d(7,8) by auto
  have r: "\<exists>s p. r = SwitchPort s p \<and> (\<forall>d < length (nodes nc). \<forall>v. (int p, v) \<in>
      set (zip (routingTable (switches nc' ! s) ! d) (vcTable (switches nc' ! s) ! d)) \<longrightarrow> d = n)"
    if del: "delivers nc r n" for r n
  proof -
    obtain s p where r: "r = SwitchPort s p" "\<forall>d < length (nodes nc). \<forall>v. (int p, v) \<in>
        set (zip (routingTable (switches nc ! s) ! d) (vcTable (switches nc ! s) ! d)) \<longrightarrow> d = n"
      using w(11) [OF del] by blast
    have "s < length (switches nc)"
      using delivers_valid(1) [OF assms(2) del] r(1) by (simp add: valid_ref_def)
    then show ?thesis using r d by simp
  qed
  have "\<forall>r. valid_ref nc r \<longrightarrow> (\<exists>k < nat (maxChannelIndex nc). fromPort (channels nc' ! k) = Some r)"
    using w(10) e(1) by metis
  moreover have "\<forall>k < nat (maxChannelIndex nc). \<exists>f t. fromPort (channels nc' ! k) = Some f \<and>
      toPort (channels nc' ! k) = Some t \<and> valid_ref nc f \<and> valid_ref nc t"
    using w(7) e by metis
  moreover have "\<forall>j < nat (maxChannelIndex nc). \<forall>k < nat (maxChannelIndex nc).
      fromPort (channels nc' ! j) = fromPort (channels nc' ! k) \<or>
      toPort (channels nc' ! j) = toPort (channels nc' ! k) \<longrightarrow> j = k"
    using w(8,9) e by metis
  moreover have "\<forall>k < length (channels nc). nat (maxChannelIndex nc) \<le> k \<longrightarrow>
      fromPort (channels nc' ! k) = None"
    using w(6) d(7) by metis
  ultimately show ?thesis
    unfolding wired_def d(1-6) d(14,15) using w(1-5) d(9,11) r by (intro conjI) simp_all
qed

lemma get_out_at:
  assumes "valid_ref nc r" "\<forall>sw \<in> set (switches nc). length (outputPorts sw) = sw_numPorts sw"
  shows "get_out r nc = Inr (out_at r nc)"
  using assms by (auto simp: get_out_def out_at_def valid_ref_def lookup_vec_def split: port_ref.splits)

lemma get_in_at:
  assumes "valid_ref nc r" "\<forall>sw \<in> set (switches nc). length (inputPorts sw) = sw_numPorts sw"
  shows "get_in r nc = Inr (in_at r nc)"
  using assms by (auto simp: get_in_def in_at_def valid_ref_def lookup_vec_def split: port_ref.splits)

section \<open>Messages of the network\<close>

definition node_msgs :: "NetNode \<Rightarrow> MessageState multiset" where
  "node_msgs nd = buf_msgs (out_contents (fromNodePort nd)) + buf_msgs (in_contents (toNodePort nd))"

definition net_msgs :: "NetContainer \<Rightarrow> MessageState multiset" where
  "net_msgs nc = sum_list (map sw_msgs (switches nc)) + sum_list (map node_msgs (nodes nc))"

definition link_at :: "nat \<Rightarrow> NetContainer \<Rightarrow> link" where
  "link_at k nc = (chan (channels nc ! k), out_at (the (fromPort (channels nc ! k))) nc,
     in_at (the (toPort (channels nc ! k))) nc)"

definition all_to :: "(nat \<Rightarrow> MessageState list) \<Rightarrow> nat \<Rightarrow> bool" where
  "all_to c n \<longleftrightarrow> (\<forall>vc < 8. \<forall>m \<in> set (c vc). destNode m = int n)"

text \<open>
  The dynamic part: switches, nodes and links are consistent, what is on its way to a node or
  waits there is addressed to it, and the list of active messages holds the messages that are
  in some buffer.
\<close>

definition net_inv :: "NetContainer \<Rightarrow> bool" where
  "net_inv nc \<longleftrightarrow> wired nc \<and>
     (\<forall>sw \<in> set (switches nc). sw_inv sw \<and> channelWaiting sw = (\<lambda>_. 0)) \<and>
     (\<forall>nd \<in> set (nodes nc). out_inv (fromNodePort nd) \<and> in_inv (toNodePort nd)) \<and>
     (\<forall>k < nat (maxChannelIndex nc). link_inv (link_at k nc)) \<and>
     (\<forall>n < length (nodes nc). all_to (in_contents (toNodePort (nodes nc ! n))) n) \<and>
     (\<forall>r n. delivers nc r n \<longrightarrow> all_to (out_contents (out_at r nc)) n) \<and>
     (\<forall>m \<in># net_msgs nc. msg_ok (length (nodes nc)) m) \<and>
     mset (activeList nc) = image_mset serial (net_msgs nc) \<and>
     activeMessages nc = int (size (net_msgs nc))"

lemma net_inv_step:
  assumes inv: "net_inv nc" and same: "same_net nc nc'"
    and "net_msgs nc' = net_msgs nc" "activeList nc' = activeList nc"
    and "activeMessages nc' = activeMessages nc"
    and "\<forall>sw \<in> set (switches nc'). sw_inv sw \<and> channelWaiting sw = (\<lambda>_. 0)"
    and "\<forall>nd \<in> set (nodes nc'). out_inv (fromNodePort nd) \<and> in_inv (toNodePort nd)"
    and "\<forall>k < nat (maxChannelIndex nc). link_inv (link_at k nc')"
    and "\<forall>n < length (nodes nc). all_to (in_contents (toNodePort (nodes nc' ! n))) n"
    and "\<forall>r n. delivers nc r n \<longrightarrow> all_to (out_contents (out_at r nc')) n"
  shows "net_inv nc'"
  using assms same_net_wired [OF same] same_net_delivers [OF same] same_netD [OF same]
  by (simp add: net_inv_def)

section \<open>Frame lemmas\<close>

lemma net_invD:
  assumes "net_inv nc"
  shows "wired nc" "sw \<in> set (switches nc) \<Longrightarrow> sw_inv sw"
    "sw \<in> set (switches nc) \<Longrightarrow> channelWaiting sw = (\<lambda>_. 0)"
    "nd \<in> set (nodes nc) \<Longrightarrow> out_inv (fromNodePort nd)"
    "nd \<in> set (nodes nc) \<Longrightarrow> in_inv (toNodePort nd)"
    "k < nat (maxChannelIndex nc) \<Longrightarrow> link_inv (link_at k nc)"
    "n < length (nodes nc) \<Longrightarrow> all_to (in_contents (toNodePort (nodes nc ! n))) n"
    "delivers nc r n \<Longrightarrow> all_to (out_contents (out_at r nc)) n"
    "m \<in># net_msgs nc \<Longrightarrow> msg_ok (length (nodes nc)) m"
    "mset (activeList nc) = image_mset serial (net_msgs nc)"
    "activeMessages nc = int (size (net_msgs nc))"
  using assms unfolding net_inv_def by blast+

lemma sw_shape:
  assumes "sw_inv sw"
  shows "length (inputPorts sw) = sw_numPorts sw" "length (outputPorts sw) = sw_numPorts sw"
    "p \<in> set (inputPorts sw) \<Longrightarrow> in_inv p" "q \<in> set (outputPorts sw) \<Longrightarrow> out_inv q"
    "m \<in># sw_msgs sw \<Longrightarrow> msg_ok (sw_numNodes sw) m"
  using assms by (simp_all add: sw_inv_def)

lemma in_at_inv:
  assumes "\<forall>sw \<in> set (switches nc). sw_inv sw" "\<forall>nd \<in> set (nodes nc). in_inv (toNodePort nd)"
    and "valid_ref nc r"
  shows "in_inv (in_at r nc)"
proof (cases r)
  case (NodePort n)
  then show ?thesis using assms(2,3) by (simp add: in_at_def valid_ref_def)
next
  case (SwitchPort s p)
  then have s: "s < length (switches nc)" "p < sw_numPorts (switches nc ! s)"
    using assms(3) by (simp_all add: valid_ref_def)
  then have "sw_inv (switches nc ! s)" using assms(1) by simp
  from sw_shape(1,3) [OF this] s(2) show ?thesis using SwitchPort by (simp add: in_at_def)
qed

lemma out_at_inv:
  assumes "\<forall>sw \<in> set (switches nc). sw_inv sw" "\<forall>nd \<in> set (nodes nc). out_inv (fromNodePort nd)"
    and "valid_ref nc r"
  shows "out_inv (out_at r nc)"
proof (cases r)
  case (NodePort n)
  then show ?thesis using assms(2,3) by (simp add: out_at_def valid_ref_def)
next
  case (SwitchPort s p)
  then have s: "s < length (switches nc)" "p < sw_numPorts (switches nc ! s)"
    using assms(3) by (simp_all add: valid_ref_def)
  then have "sw_inv (switches nc ! s)" using assms(1) by simp
  from sw_shape(2,4) [OF this] s(2) show ?thesis using SwitchPort by (simp add: out_at_def)
qed

lemma link_frame:
  assumes inv: "net_inv nc" and same: "same_net nc nc'" and k: "k < nat (maxChannelIndex nc)"
    and c: "chan (channels nc' ! k) = chan (channels nc ! k)"
    and o: "out_at (the (fromPort (channels nc ! k))) nc' = out_at (the (fromPort (channels nc ! k))) nc"
    and i: "\<And>r. valid_ref nc r \<Longrightarrow> in_inv (in_at r nc')"
  shows "link_inv (link_at k nc')"
proof -
  note w = wiredD [OF net_invD(1) [OF inv]]
  obtain f t where ft: "fromPort (channels nc ! k) = Some f" "toPort (channels nc ! k) = Some t"
    "valid_ref nc f" "valid_ref nc t"
    using w(7) [OF k] by blast
  have "k < length (channels nc)" using w(3) k by simp
  then have p: "fromPort (channels nc' ! k) = Some f" "toPort (channels nc' ! k) = Some t"
    using ft same_netD(7,8) [OF same] by simp_all
  have "link_inv (link_at k nc)" using net_invD(6) [OF inv k] .
  then show ?thesis
    using p ft c o i [OF ft(4)] by (auto simp: link_at_def link_inv_def)
qed

lemma in_net_msgs: "sw \<in> set (switches nc) \<Longrightarrow> m \<in># sw_msgs sw \<Longrightarrow> m \<in># net_msgs nc"
  using in_sum_list_mset [of sw "switches nc" m sw_msgs] by (simp add: net_msgs_def)

lemma net_msgs_switch:
  assumes "s < length (switches nc)"
  shows "net_msgs (nc\<lparr>switches := (switches nc)[s := sw']\<rparr>) + sw_msgs (switches nc ! s) =
    net_msgs nc + sw_msgs sw'"
  using sum_list_update [OF assms, of sw_msgs sw'] by (simp add: net_msgs_def ac_simps)

lemma net_msgs_node:
  assumes "n < length (nodes nc)"
  shows "net_msgs (nc\<lparr>nodes := (nodes nc)[n := nd']\<rparr>) + node_msgs (nodes nc ! n) =
    net_msgs nc + node_msgs nd'"
  using sum_list_update [OF assms, of node_msgs nd'] by (simp add: net_msgs_def ac_simps)

lemma net_msgs_upd [simp]:
  "net_msgs (nc\<lparr>channels := c\<rparr>) = net_msgs nc" "net_msgs (nc\<lparr>activeList := l\<rparr>) = net_msgs nc"
  "net_msgs (nc\<lparr>activeMessages := a\<rparr>) = net_msgs nc"
  by (simp_all add: net_msgs_def)

lemma all_to_cong: "(\<And>vc. vc < 8 \<Longrightarrow> c vc = c' vc) \<Longrightarrow> all_to c n = all_to c' n"
  by (simp add: all_to_def)

lemma in_at_upd [simp]:
  "in_at r (nc\<lparr>channels := c\<rparr>) = in_at r nc" "out_at r (nc\<lparr>channels := c\<rparr>) = out_at r nc"
  "valid_ref (nc\<lparr>channels := c\<rparr>) r = valid_ref nc r"
  by (simp_all add: in_at_def out_at_def valid_ref_def cong: port_ref.case_cong)

lemma map_update_same: "f y = f (xs ! i) \<Longrightarrow> map f (xs[i := y]) = map f xs"
  by (metis list_update_id map_update)

lemma same_net_switch:
  assumes "s < length (switches nc)" "sw_numPorts sw' = sw_numPorts (switches nc ! s)"
    "sw_numNodes sw' = sw_numNodes (switches nc ! s)"
    "routingTable sw' = routingTable (switches nc ! s)" "vcTable sw' = vcTable (switches nc ! s)"
  shows "same_net nc (nc\<lparr>switches := (switches nc)[s := sw']\<rparr>)"
  using assms by (simp add: same_net_def map_update_same)

lemma same_net_node:
  assumes "nodeId nd' = nodeId (nodes nc ! n)"
  shows "same_net nc (nc\<lparr>nodes := (nodes nc)[n := nd']\<rparr>)"
  using assms by (simp add: same_net_def map_update_same)

section \<open>Input ports\<close>

lemma driveInputPorts_fixed:
  "driveInputPorts now sw = Inr sw' \<Longrightarrow> outputPorts sw' = outputPorts sw \<and>
     channelWaiting sw' = channelWaiting sw \<and> sw_numPorts sw' = sw_numPorts sw \<and>
     sw_numNodes sw' = sw_numNodes sw \<and> routingTable sw' = routingTable sw \<and> vcTable sw' = vcTable sw"
  by (auto simp: driveInputPorts_def)

lemma drive_switch_inputs_ok:
  assumes inv: "net_inv nc" and s: "s < length (switches nc)"
  shows "\<exists>nc'. drive_switch_inputs now s nc = Inr nc' \<and> net_inv nc' \<and> net_msgs nc' = net_msgs nc \<and>
    same_net nc nc'"
proof -
  let ?sw = "switches nc ! s"
  have sw: "sw_inv ?sw" "channelWaiting ?sw = (\<lambda>_. 0)"
    using net_invD(2,3) [OF inv] s by simp_all
  obtain sw' where d: "driveInputPorts now ?sw = Inr sw'" "sw_inv sw'" "sw_msgs sw' = sw_msgs ?sw"
    using driveInputPorts_ok [OF sw(1)] by blast
  note f = driveInputPorts_fixed [OF d(1)]
  let ?nc = "nc\<lparr>switches := (switches nc)[s := sw']\<rparr>"
  have same: "same_net nc ?nc" using same_net_switch [OF s] f by simp
  have ms: "net_msgs ?nc = net_msgs nc" using net_msgs_switch [OF s, of sw'] d(3) by simp
  have o: "out_at r ?nc = out_at r nc" for r
    using f s by (cases r) (auto simp: out_at_def nth_list_update)
  have sws: "\<forall>sw \<in> set (switches ?nc). sw_inv sw \<and> channelWaiting sw = (\<lambda>_. 0)"
    using net_invD(2,3) [OF inv] d(2) f sw(2) set_update_subset_insert [of "switches nc" s sw'] by auto
  have nds: "\<forall>nd \<in> set (nodes ?nc). out_inv (fromNodePort nd) \<and> in_inv (toNodePort nd)"
    using net_invD(4,5) [OF inv] by simp
  have "in_inv (in_at r ?nc)" if "valid_ref nc r" for r
    using in_at_inv [of ?nc r] sws nds that same_net_valid [OF same] by blast
  then have "\<forall>k < nat (maxChannelIndex nc). link_inv (link_at k ?nc)"
    using link_frame [OF inv same] o by simp
  then have "net_inv ?nc"
    using net_inv_step [OF inv same ms] sws nds o net_invD(7,8) [OF inv] by simp
  then show ?thesis using d(1) s ms same by (simp add: drive_switch_inputs_def lookup_vec_def)
qed

lemma drive_node_inputs_ok:
  assumes inv: "net_inv nc" and n: "n < length (nodes nc)"
  shows "\<exists>nc'. drive_node_inputs now n nc = Inr nc' \<and> net_inv nc' \<and> net_msgs nc' = net_msgs nc \<and>
    same_net nc nc'"
proof -
  let ?nd = "nodes nc ! n"
  have nd: "out_inv (fromNodePort ?nd)" "in_inv (toNodePort ?nd)"
    using net_invD(4,5) [OF inv] n by simp_all
  obtain p ns where d: "ChannelInputPort_drive now (toNodePort ?nd) = Inr (p, ns)" "in_inv p"
    "\<forall>vc < 8. in_contents p vc = in_contents (toNodePort ?nd) vc"
    using in_drive_ok [OF nd(2)] by blast
  let ?nd' = "?nd\<lparr>toNodePort := p, nd_messagesWaiting := nd_messagesWaiting ?nd + int (length ns)\<rparr>"
  let ?nc = "nc\<lparr>nodes := (nodes nc)[n := ?nd']\<rparr>"
  have same: "same_net nc ?nc" by (rule same_net_node) simp
  have "buf_msgs (in_contents p) = buf_msgs (in_contents (toNodePort ?nd))"
    using d(3) by (intro buf_msgs_cong) simp
  then have "node_msgs ?nd' = node_msgs ?nd" by (simp add: node_msgs_def)
  then have ms: "net_msgs ?nc = net_msgs nc" using net_msgs_node [OF n, of ?nd'] by simp
  have o: "out_at r ?nc = out_at r nc" for r
    using n by (cases r) (auto simp: out_at_def nth_list_update)
  have nds: "\<forall>nd \<in> set (nodes ?nc). out_inv (fromNodePort nd) \<and> in_inv (toNodePort nd)"
    using net_invD(4,5) [OF inv] d(2) nd set_update_subset_insert [of "nodes nc" n ?nd'] by auto
  have sws: "\<forall>sw \<in> set (switches ?nc). sw_inv sw \<and> channelWaiting sw = (\<lambda>_. 0)"
    using net_invD(2,3) [OF inv] by simp
  have "in_inv (in_at r ?nc)" if "valid_ref nc r" for r
    using in_at_inv [of ?nc r] sws nds that same_net_valid [OF same] by blast
  then have l: "\<forall>k < nat (maxChannelIndex nc). link_inv (link_at k ?nc)"
    using link_frame [OF inv same] o by simp
  have "all_to (in_contents p) n"
    using all_to_cong [of "in_contents p" "in_contents (toNodePort ?nd)"] d(3) net_invD(7) [OF inv n]
    by simp
  then have "\<forall>i < length (nodes nc). all_to (in_contents (toNodePort (nodes ?nc ! i))) i"
    using net_invD(7) [OF inv] n by (auto simp: nth_list_update)
  then have "net_inv ?nc"
    using net_inv_step [OF inv same ms] sws nds o l net_invD(8) [OF inv] by simp
  then show ?thesis
    using d(1) n ms same by (simp add: drive_node_inputs_def NetNode_driveInputPorts_def lookup_vec_def)
qed

section \<open>Ports behind references\<close>

text \<open>The consistency of all ports, apart from what their messages say.\<close>

definition ports_ok :: "NetContainer \<Rightarrow> bool" where
  "ports_ok nc \<longleftrightarrow>
     (\<forall>sw \<in> set (switches nc). length (inputPorts sw) = sw_numPorts sw \<and>
        length (outputPorts sw) = sw_numPorts sw \<and> routes_ok sw \<and>
        (\<forall>p \<in> set (inputPorts sw). in_inv p) \<and> (\<forall>p \<in> set (outputPorts sw). out_inv p) \<and>
        ib_inv (internalBuffer sw) \<and> sw_numNodes sw = length (nodes nc) \<and>
        channelWaiting sw = (\<lambda>_. 0)) \<and>
     (\<forall>nd \<in> set (nodes nc). out_inv (fromNodePort nd) \<and> in_inv (toNodePort nd))"

lemma net_inv_ports:
  assumes "net_inv nc"
  shows "ports_ok nc"
proof -
  have "sw_numNodes sw = length (nodes nc)" if "sw \<in> set (switches nc)" for sw
    using that wiredD(5) [OF net_invD(1) [OF assms]] by (auto simp: in_set_conv_nth)
  then show ?thesis
    using net_invD(2-5) [OF assms] by (simp add: ports_ok_def sw_inv_def)
qed

lemma ports_ok_inv:
  assumes "ports_ok nc" "\<forall>m \<in># net_msgs nc. msg_ok (length (nodes nc)) m"
  shows "\<forall>sw \<in> set (switches nc). sw_inv sw \<and> channelWaiting sw = (\<lambda>_. 0)"
    "\<forall>nd \<in> set (nodes nc). out_inv (fromNodePort nd) \<and> in_inv (toNodePort nd)"
  using assms in_net_msgs by (auto simp: ports_ok_def sw_inv_def)

lemma ports_ok_shape:
  assumes "ports_ok nc"
  shows "sw \<in> set (switches nc) \<Longrightarrow> length (inputPorts sw) = sw_numPorts sw"
    "sw \<in> set (switches nc) \<Longrightarrow> length (outputPorts sw) = sw_numPorts sw"
  using assms by (auto simp: ports_ok_def)

lemma ports_ok_switch:
  assumes "ports_ok nc" "s < length (switches nc)" "ports_ok (nc\<lparr>switches := [sw']\<rparr>)"
  shows "ports_ok (nc\<lparr>switches := (switches nc)[s := sw']\<rparr>)"
  using assms set_update_subset_insert [of "switches nc" s sw'] unfolding ports_ok_def by auto

lemma ports_ok_node:
  assumes "ports_ok nc" "out_inv (fromNodePort nd')" "in_inv (toNodePort nd')"
  shows "ports_ok (nc\<lparr>nodes := (nodes nc)[n := nd']\<rparr>)"
  using assms set_update_subset_insert [of "nodes nc" n nd'] unfolding ports_ok_def by auto

lemma sw_msgs_out:
  assumes "p < length (outputPorts sw)"
  shows "sw_msgs (sw\<lparr>outputPorts := (outputPorts sw)[p := q]\<rparr>) + buf_msgs (out_contents (outputPorts sw ! p)) =
    sw_msgs sw + buf_msgs (out_contents q)"
  using sum_list_update [OF assms, of "\<lambda>p. buf_msgs (out_contents p)" q]
  by (simp add: sw_msgs_def in_msgs_def out_msgs_def ac_simps)

lemma sw_msgs_in:
  assumes "p < length (inputPorts sw)"
  shows "sw_msgs (sw\<lparr>inputPorts := (inputPorts sw)[p := q]\<rparr>) + buf_msgs (in_contents (inputPorts sw ! p)) =
    sw_msgs sw + buf_msgs (in_contents q)"
  using sum_list_update [OF assms, of "\<lambda>p. buf_msgs (in_contents p)" q]
  by (simp add: sw_msgs_def in_msgs_def out_msgs_def ac_simps)

lemma add_exchange:
  fixes a :: "'a multiset"
  assumes "a' + s = a + s'" "s' + p = s + q"
  shows "a' + p = a + q"
proof (rule multiset_eqI)
  fix z
  have "count (a' + s) z = count (a + s') z" "count (s' + p) z = count (s + q) z"
    using assms by simp_all
  then show "count (a' + p) z = count (a + q) z" by simp
qed

lemma add_exchange3:
  fixes a :: "'a multiset"
  assumes "b + x = a + x'" "c + y = b + y'" "x' + y' = x + y"
  shows "c = a"
proof (rule multiset_eqI)
  fix z
  have "count (b + x) z = count (a + x') z" "count (c + y) z = count (b + y') z"
    "count (x' + y') z = count (x + y) z"
    using assms by simp_all
  then show "count c z = count a z" by simp
qed

lemma set_out_msgs:
  assumes "valid_ref nc r" "ports_ok nc"
  shows "net_msgs (set_out r q nc) + buf_msgs (out_contents (out_at r nc)) =
    net_msgs nc + buf_msgs (out_contents q)"
proof (cases r)
  case (NodePort n)
  then have n: "n < length (nodes nc)" using assms(1) by (simp add: valid_ref_def)
  let ?nd = "(nodes nc ! n)\<lparr>fromNodePort := q\<rparr>"
  have "net_msgs (nc\<lparr>nodes := (nodes nc)[n := ?nd]\<rparr>) + node_msgs (nodes nc ! n) = net_msgs nc + node_msgs ?nd"
    by (rule net_msgs_node [OF n])
  then show ?thesis
    using NodePort by (simp add: set_out_def out_at_def node_msgs_def ac_simps)
next
  case (SwitchPort s p)
  then have s: "s < length (switches nc)" "p < length (outputPorts (switches nc ! s))"
    using assms(1) ports_ok_shape(2) [OF assms(2)] by (auto simp: valid_ref_def)
  show ?thesis
    using add_exchange [OF net_msgs_switch [OF s(1)] sw_msgs_out [OF s(2)]] SwitchPort
    by (simp add: set_out_def out_at_def)
qed

lemma set_in_msgs:
  assumes "valid_ref nc r" "ports_ok nc"
  shows "net_msgs (set_in r q nc) + buf_msgs (in_contents (in_at r nc)) =
    net_msgs nc + buf_msgs (in_contents q)"
proof (cases r)
  case (NodePort n)
  then have n: "n < length (nodes nc)" using assms(1) by (simp add: valid_ref_def)
  let ?nd = "(nodes nc ! n)\<lparr>toNodePort := q\<rparr>"
  have "net_msgs (nc\<lparr>nodes := (nodes nc)[n := ?nd]\<rparr>) + node_msgs (nodes nc ! n) = net_msgs nc + node_msgs ?nd"
    by (rule net_msgs_node [OF n])
  then show ?thesis
    using NodePort by (simp add: set_in_def in_at_def node_msgs_def ac_simps)
next
  case (SwitchPort s p)
  then have s: "s < length (switches nc)" "p < length (inputPorts (switches nc ! s))"
    using assms(1) ports_ok_shape(1) [OF assms(2)] by (auto simp: valid_ref_def)
  show ?thesis
    using add_exchange [OF net_msgs_switch [OF s(1)] sw_msgs_in [OF s(2)]] SwitchPort
    by (simp add: set_in_def in_at_def)
qed

lemma set_out_frame [simp]:
  "channels (set_out r q nc) = channels nc" "channels (set_in r i nc) = channels nc"
  "activeList (set_out r q nc) = activeList nc" "activeList (set_in r i nc) = activeList nc"
  "activeMessages (set_out r q nc) = activeMessages nc" "activeMessages (set_in r i nc) = activeMessages nc"
  by (simp_all add: set_out_def set_in_def split: port_ref.split)

lemma set_out_same:
  assumes "valid_ref nc r"
  shows "same_net nc (set_out r q nc)" "same_net nc (set_in r i nc)"
  using assms by (auto simp: set_out_def set_in_def valid_ref_def split: port_ref.splits
      intro!: same_net_switch same_net_node)

lemma set_out_at:
  assumes "valid_ref nc r" "ports_ok nc" "valid_ref nc r'"
  shows "out_at r' (set_out r q nc) = (if r' = r then q else out_at r' nc)"
    "in_at r' (set_out r q nc) = in_at r' nc" "out_at r' (set_in r i nc) = out_at r' nc"
    "in_at r' (set_in r i nc) = (if r' = r then i else in_at r' nc)"
  using assms ports_ok_shape [OF assms(2)]
  by (auto simp: set_out_def set_in_def out_at_def in_at_def valid_ref_def nth_list_update
      split: port_ref.splits)

lemma ports_ok_set_out:
  assumes "valid_ref nc r" "ports_ok nc" "out_inv q"
  shows "ports_ok (set_out r q nc)"
proof (cases r)
  case (NodePort n)
  then have "in_inv (toNodePort (nodes nc ! n))"
    using assms(1,2) by (simp add: valid_ref_def ports_ok_def)
  then show ?thesis using assms(2,3) NodePort by (simp add: set_out_def ports_ok_node)
next
  case (SwitchPort s p)
  let ?sw = "switches nc ! s"
  have s: "s < length (switches nc)" "?sw \<in> set (switches nc)"
    using assms(1) SwitchPort by (simp_all add: valid_ref_def)
  have "ports_ok (nc\<lparr>switches := [?sw\<lparr>outputPorts := (outputPorts ?sw)[p := q]\<rparr>]\<rparr>)"
    using assms(2,3) s(2) set_update_subset_insert [of "outputPorts ?sw" p q]
    by (auto simp: ports_ok_def routes_ok_def)
  then show ?thesis using ports_ok_switch [OF assms(2) s(1)] SwitchPort by (simp add: set_out_def)
qed

lemma ports_ok_set_in:
  assumes "valid_ref nc r" "ports_ok nc" "in_inv q"
  shows "ports_ok (set_in r q nc)"
proof (cases r)
  case (NodePort n)
  then have "out_inv (fromNodePort (nodes nc ! n))"
    using assms(1,2) by (simp add: valid_ref_def ports_ok_def)
  then show ?thesis using assms(2,3) NodePort by (simp add: set_in_def ports_ok_node)
next
  case (SwitchPort s p)
  let ?sw = "switches nc ! s"
  have s: "s < length (switches nc)" "?sw \<in> set (switches nc)"
    using assms(1) SwitchPort by (simp_all add: valid_ref_def)
  have "ports_ok (nc\<lparr>switches := [?sw\<lparr>inputPorts := (inputPorts ?sw)[p := q]\<rparr>]\<rparr>)"
    using assms(2,3) s(2) set_update_subset_insert [of "inputPorts ?sw" p q]
    by (auto simp: ports_ok_def routes_ok_def)
  then show ?thesis using ports_ok_switch [OF assms(2) s(1)] SwitchPort by (simp add: set_in_def)
qed

section \<open>Channels\<close>

lemma link_seq_msgs:
  assumes "\<forall>vc. link_seq (c', f', t') vc = link_seq (c, f, t) vc"
  shows "buf_msgs (out_contents f') + buf_msgs (in_contents t') =
    buf_msgs (out_contents f) + buf_msgs (in_contents t)"
proof -
  have "mset (map ident (out_contents f' vc)) + mset (map ident (in_contents t' vc)) =
      mset (map ident (out_contents f vc)) + mset (map ident (in_contents t vc))" for vc
  proof -
    have "mset (map ident (link_seq (c', f', t') vc)) = mset (map ident (link_seq (c, f, t) vc))"
      using assms by simp
    then show ?thesis by (simp add: link_seq_def ac_simps)
  qed
  then show ?thesis by (simp add: buf_msgs_def flip: sum.distrib)
qed

lemma link_seq_to:
  assumes "\<forall>vc. link_seq (c', f', t') vc = link_seq (c, f, t) vc"
    and "all_to (out_contents f) n" "all_to (in_contents t) n"
  shows "all_to (out_contents f') n" "all_to (in_contents t') n"
proof -
  have "set (in_contents t' vc) \<union> set (out_contents f' vc) = set (in_contents t vc) \<union> set (out_contents f vc)"
    for vc
  proof -
    have "set (link_seq (c', f', t') vc) = set (link_seq (c, f, t) vc)" using assms(1) by simp
    then show ?thesis by (simp add: link_seq_def)
  qed
  then show "all_to (out_contents f') n" "all_to (in_contents t') n"
    using assms(2,3) unfolding all_to_def by blast+
qed

lemma drive_channel_ok:
  assumes inv: "net_inv nc" and k: "k < nat (maxChannelIndex nc)"
  shows "\<exists>nc'. drive_channel now k nc = Inr nc' \<and> net_inv nc' \<and> net_msgs nc' = net_msgs nc \<and>
    same_net nc nc'"
proof -
  note w = wiredD [OF net_invD(1) [OF inv]] and P = net_inv_ports [OF inv]
  have kl: "k < length (channels nc)" using w(3) k by simp
  let ?ch = "channels nc ! k"
  obtain f t where ft: "fromPort ?ch = Some f" "toPort ?ch = Some t" "valid_ref nc f" "valid_ref nc t"
    using w(7) [OF k] by blast
  have "link_inv (chan ?ch, out_at f nc, in_at t nc)"
    using net_invD(6) [OF inv k] ft by (simp add: link_at_def)
  from Channel_drive_ok [OF this, of now] obtain c' f' t' where d:
    "Channel_drive now (chan ?ch, out_at f nc, in_at t nc) = Inr (c', f', t')" "link_inv (c', f', t')"
    "\<forall>vc. link_seq (c', f', t') vc = link_seq (chan ?ch, out_at f nc, in_at t nc) vc"
    by (metis prod_cases3)
  have io: "out_inv f'" "in_inv t'" using d(2) by (simp_all add: link_inv_def)
  let ?n1 = "set_out f f' nc"
  let ?n2 = "(set_in t t' ?n1)"
  let ?nc = "?n2\<lparr>channels := (channels nc)[k := ?ch\<lparr>chan := c'\<rparr>]\<rparr>"
  have s1: "same_net nc ?n1" by (rule set_out_same(1) [OF ft(3)])
  have P1: "ports_ok ?n1" by (rule ports_ok_set_out [OF ft(3) P io(1)])
  have t1: "valid_ref ?n1 t" using ft(4) same_net_valid [OF s1] by simp
  have s2: "same_net ?n1 ?n2" by (rule set_out_same(2) [OF t1])
  have "same_net ?n2 ?nc" by (simp add: same_net_def map_update_same)
  then have same: "same_net nc ?nc" using same_net_trans [OF s1] same_net_trans [OF s2] by blast
  have P2: "ports_ok ?nc" using ports_ok_set_in [OF t1 P1 io(2)] by (simp add: ports_ok_def)
  have m1: "net_msgs ?n1 + buf_msgs (out_contents (out_at f nc)) = net_msgs nc + buf_msgs (out_contents f')"
    by (rule set_out_msgs [OF ft(3) P])
  have m2: "net_msgs ?n2 + buf_msgs (in_contents (in_at t nc)) = net_msgs ?n1 + buf_msgs (in_contents t')"
    using set_in_msgs [OF t1 P1, of t'] set_out_at(2) [OF ft(3) P ft(4)] by simp
  have ms: "net_msgs ?nc = net_msgs nc"
    using add_exchange3 [OF m1 m2 link_seq_msgs [OF d(3)]] by simp
  have o: "out_at r ?nc = (if r = f then f' else out_at r nc)"
    and i: "in_at r ?nc = (if r = t then t' else in_at r nc)" if "valid_ref nc r" for r
    using set_out_at [OF ft(3) P that] set_out_at [OF t1 P1, of r] that same_net_valid [OF s1] by auto
  note F = ports_ok_inv [OF P2]
  have mok: "\<forall>m \<in># net_msgs ?nc. msg_ok (length (nodes ?nc)) m"
    using net_invD(9) [OF inv] ms same_netD(2) [OF same] by simp
  have ii: "in_inv (in_at r ?nc)" if "valid_ref nc r" for r
    using in_at_inv [of ?nc r] F [OF mok] that same_net_valid [OF same] by blast
  have l: "link_inv (link_at j ?nc)" if j: "j < nat (maxChannelIndex nc)" for j
  proof (cases "j = k")
    case True
    then show ?thesis using d(2) o [OF ft(3)] i [OF ft(4)] ft kl by (simp add: link_at_def)
  next
    case False
    obtain f2 where f2: "fromPort (channels nc ! j) = Some f2" "valid_ref nc f2"
      using w(7) [OF j] by blast
    then have "f2 \<noteq> f" using w(8) [OF j k] False ft(1) by auto
    then show ?thesis
      using link_frame [OF inv same j] False o [OF f2(2)] f2(1) ii by simp
  qed
  have dl: "all_to (out_contents f') n \<and> all_to (in_contents t') n" if "t = NodePort n" for n
  proof -
    have "delivers nc f n" using ft k that by (auto simp: delivers_def)
    then have "all_to (out_contents (out_at f nc)) n" by (rule net_invD(8) [OF inv])
    moreover have "all_to (in_contents (in_at t nc)) n"
      using net_invD(7) [OF inv, of n] ft(4) that by (simp add: in_at_def valid_ref_def)
    ultimately show ?thesis using link_seq_to [OF d(3)] by blast
  qed
  have a1: "all_to (in_contents (toNodePort (nodes ?nc ! n))) n" if n: "n < length (nodes nc)" for n
  proof -
    have "valid_ref nc (NodePort n)" using n by (simp add: valid_ref_def)
    from i [OF this] have "toNodePort (nodes ?nc ! n) =
        (if t = NodePort n then t' else toNodePort (nodes nc ! n))"
      by (auto simp: in_at_def)
    then show ?thesis using dl net_invD(7) [OF inv n] by simp
  qed
  have a2: "all_to (out_contents (out_at r ?nc)) n" if del: "delivers nc r n" for r n
  proof (cases "r = f")
    case True
    obtain j where j: "j < nat (maxChannelIndex nc)" "fromPort (channels nc ! j) = Some f"
      "toPort (channels nc ! j) = Some (NodePort n)"
      using del True unfolding delivers_def by blast
    then have "t = NodePort n" using w(8) [OF j(1) k] ft by auto
    then show ?thesis using dl o [OF ft(3)] True by simp
  next
    case False
    then show ?thesis
      using o [OF delivers_valid(1) [OF net_invD(1) [OF inv] del]] net_invD(8) [OF inv del] by simp
  qed
  have "net_inv ?nc"
    by (rule net_inv_step [OF inv same ms]) (use F [OF mok] l a1 a2 in simp_all)
  moreover have "drive_channel now k nc = Inr ?nc"
    using d(1) ft kl get_out_at [OF ft(3)] get_in_at [OF ft(4)] ports_ok_shape [OF P]
    by (simp add: drive_channel_def lookup_vec_def)
  ultimately show ?thesis using ms same by blast
qed

section \<open>Switches and the channels they notify\<close>

lemma channel_of_wired:
  assumes "wired nc" "valid_ref nc r"
  obtains k where "channel_of r nc = Some k" "k < nat (maxChannelIndex nc)"
    "fromPort (channels nc ! k) = Some r"
proof -
  note w = wiredD [OF assms(1)]
  obtain k where k: "k < nat (maxChannelIndex nc)" "fromPort (channels nc ! k) = Some r"
    using w(10) [OF assms(2)] by blast
  have kl: "k \<in> set (rev [0..<length (channels nc)])" using k(1) w(3) by simp
  have "channel_of r nc \<noteq> None"
    unfolding channel_of_def find_None_iff using k(2) kl by blast
  then obtain j where j: "channel_of r nc = Some j" by blast
  then have f: "fromPort (channels nc ! j) = Some r" "j < length (channels nc)"
    unfolding channel_of_def find_Some_iff by (auto simp: rev_nth)
  then have "j < nat (maxChannelIndex nc)" using w(6) by force
  then show thesis using that j f(1) by blast
qed

lemma notify_channel_wired:
  assumes "wired nc" "valid_ref nc r"
  obtains cs where "notify_channel r n nc = nc\<lparr>channels := cs\<rparr>"
    "map fromPort cs = map fromPort (channels nc)" "map toPort cs = map toPort (channels nc)"
    "\<And>k. k < nat (maxChannelIndex nc) \<Longrightarrow> chan (cs ! k) = (chan (channels nc ! k))\<lparr>messagesWaiting :=
       messagesWaiting (chan (channels nc ! k)) + (if fromPort (channels nc ! k) = Some r then n else 0)\<rparr>"
proof -
  obtain k where k: "channel_of r nc = Some k" "k < nat (maxChannelIndex nc)"
    "fromPort (channels nc ! k) = Some r"
    using channel_of_wired [OF assms] .
  let ?cs = "(channels nc)[k := (channels nc ! k)\<lparr>chan := (chan (channels nc ! k))
      \<lparr>messagesWaiting := messagesWaiting (chan (channels nc ! k)) + n\<rparr>\<rparr>]"
  have "notify_channel r n nc = nc\<lparr>channels := ?cs\<rparr>" using k(1) by (simp add: notify_channel_def)
  moreover have "chan (?cs ! j) = (chan (channels nc ! j))\<lparr>messagesWaiting :=
       messagesWaiting (chan (channels nc ! j)) + (if fromPort (channels nc ! j) = Some r then n else 0)\<rparr>"
    if j: "j < nat (maxChannelIndex nc)" for j
  proof (cases "j = k")
    case True
    then show ?thesis using k wiredD(3) [OF assms(1)] by simp
  next
    case False
    then have "fromPort (channels nc ! j) \<noteq> Some r" using wiredD(8) [OF assms(1) j k(2)] k(3) by auto
    then show ?thesis using False by simp
  qed
  ultimately show thesis using that [of ?cs] by (simp add: map_update_same)
qed

definition flushed :: "nat \<Rightarrow> (nat \<Rightarrow> int) \<Rightarrow> nat list \<Rightarrow> port_ref option \<Rightarrow> int" where
  "flushed s cw ps r = (case r of Some (SwitchPort s' p) \<Rightarrow> if s' = s \<and> p \<in> set ps then cw p else 0 | _ \<Rightarrow> 0)"

lemma flush_fold:
  assumes "wired nc" "s < length (switches nc)" "distinct ps" "\<forall>p \<in> set ps. p < sw_numPorts (switches nc ! s)"
  shows "\<exists>cs. fold (\<lambda>p. notify_channel (SwitchPort s p) (cw p)) ps nc = nc\<lparr>channels := cs\<rparr> \<and>
    map fromPort cs = map fromPort (channels nc) \<and> map toPort cs = map toPort (channels nc) \<and>
    (\<forall>k < nat (maxChannelIndex nc). chan (cs ! k) = (chan (channels nc ! k))\<lparr>messagesWaiting :=
       messagesWaiting (chan (channels nc ! k)) + flushed s cw ps (fromPort (channels nc ! k))\<rparr>)"
  using assms
proof (induction ps arbitrary: nc)
  case Nil
  have "flushed s cw [] r = 0" for r
    by (simp add: flushed_def split: option.split port_ref.split)
  then show ?case by (intro exI [of _ "channels nc"]) simp
next
  case (Cons p ps)
  have v: "valid_ref nc (SwitchPort s p)" using Cons.prems by (simp add: valid_ref_def)
  obtain cs where c: "notify_channel (SwitchPort s p) (cw p) nc = nc\<lparr>channels := cs\<rparr>"
    "map fromPort cs = map fromPort (channels nc)" "map toPort cs = map toPort (channels nc)"
    "\<And>k. k < nat (maxChannelIndex nc) \<Longrightarrow> chan (cs ! k) = (chan (channels nc ! k))\<lparr>messagesWaiting :=
       messagesWaiting (chan (channels nc ! k)) +
         (if fromPort (channels nc ! k) = Some (SwitchPort s p) then cw p else 0)\<rparr>"
    using notify_channel_wired [OF Cons.prems(1) v] by blast
  let ?nc = "nc\<lparr>channels := cs\<rparr>"
  have same: "same_net nc ?nc" using c(2,3) by (simp add: same_net_def)
  have "wired ?nc" by (rule same_net_wired [OF same Cons.prems(1)])
  from Cons.IH [OF this] Cons.prems obtain cs' where c':
    "fold (\<lambda>p. notify_channel (SwitchPort s p) (cw p)) ps ?nc = ?nc\<lparr>channels := cs'\<rparr>"
    "map fromPort cs' = map fromPort cs" "map toPort cs' = map toPort cs"
    "\<forall>k < nat (maxChannelIndex nc). chan (cs' ! k) = (chan (cs ! k))\<lparr>messagesWaiting :=
       messagesWaiting (chan (cs ! k)) + flushed s cw ps (fromPort (cs ! k))\<rparr>"
    by auto
  have "chan (cs' ! k) = (chan (channels nc ! k))\<lparr>messagesWaiting :=
      messagesWaiting (chan (channels nc ! k)) + flushed s cw (p # ps) (fromPort (channels nc ! k))\<rparr>"
    if k: "k < nat (maxChannelIndex nc)" for k
  proof -
    have "fromPort (cs ! k) = fromPort (channels nc ! k)"
      using same_netD(7) [OF same, of k] wiredD(3) [OF Cons.prems(1)] k by simp
    moreover have "(if r = Some (SwitchPort s p) then cw p else 0) + flushed s cw ps r = flushed s cw (p # ps) r" for r
      using Cons.prems(3) by (auto simp: flushed_def split: option.split port_ref.split)
    ultimately show ?thesis using c(4) [OF k] c'(4) k by (simp add: add.assoc)
  qed
  then show ?case using c c' by (intro exI [of _ cs']) simp
qed

lemma NetSwitch_drive_fixed:
  assumes "sw_inv sw" "NetSwitch_drive now sw = Inr sw'"
  shows "sw_numPorts sw' = sw_numPorts sw" "sw_numNodes sw' = sw_numNodes sw"
    "routingTable sw' = routingTable sw" "vcTable sw' = vcTable sw"
proof -
  obtain sw1 bw1 where l: "vc_loop now [0..<8] (crossbarBandwidth sw) sw = Inr (sw1, bw1)" "sw_fixed sw sw1"
    using vc_loop_ok [OF assms(1), of "[0..<8]" now "crossbarBandwidth sw"] by auto
  then show "sw_numPorts sw' = sw_numPorts sw" "sw_numNodes sw' = sw_numNodes sw"
    "routingTable sw' = routingTable sw" "vcTable sw' = vcTable sw"
    using assms(2) by (auto simp: NetSwitch_drive_def sw_fixed_def simp del: upt_rec_numeral)
qed

lemma out_msgs_mem:
  assumes "p < length (outputPorts sw)" "vc < 8" "m \<in> set (out_contents (outputPorts sw ! p) vc)"
  shows "ident m \<in># sw_msgs sw"
  using in_sum_list_mset [of "outputPorts sw ! p" "outputPorts sw" "ident m" "\<lambda>p. buf_msgs (out_contents p)"]
    buf_msgs_mem [where c = "out_contents (outputPorts sw ! p)", OF assms(2,3)] assms(1)
  by (simp add: sw_msgs_def out_msgs_def)

lemma flush_switch_wired:
  assumes "wired nc" "s < length (switches nc)" "switches nc ! s = sw"
  obtains cs where "flush_switch s nc = nc\<lparr>channels := cs,
      switches := (switches nc)[s := sw\<lparr>channelWaiting := (\<lambda>_. 0)\<rparr>]\<rparr>"
    "map fromPort cs = map fromPort (channels nc)" "map toPort cs = map toPort (channels nc)"
    "\<And>k p. k < nat (maxChannelIndex nc) \<Longrightarrow> fromPort (channels nc ! k) = Some (SwitchPort s p) \<Longrightarrow>
       chan (cs ! k) = (chan (channels nc ! k))\<lparr>messagesWaiting :=
         messagesWaiting (chan (channels nc ! k)) + channelWaiting sw p\<rparr>"
    "\<And>k. k < nat (maxChannelIndex nc) \<Longrightarrow> (\<And>p. fromPort (channels nc ! k) \<noteq> Some (SwitchPort s p)) \<Longrightarrow>
       chan (cs ! k) = chan (channels nc ! k)"
proof -
  let ?cw = "channelWaiting sw" and ?ps = "[0..<sw_numPorts sw]"
  obtain cs where c: "fold (\<lambda>p. notify_channel (SwitchPort s p) (?cw p)) ?ps nc = nc\<lparr>channels := cs\<rparr>"
    "map fromPort cs = map fromPort (channels nc)" "map toPort cs = map toPort (channels nc)"
    "\<forall>k < nat (maxChannelIndex nc). chan (cs ! k) = (chan (channels nc ! k))\<lparr>messagesWaiting :=
       messagesWaiting (chan (channels nc ! k)) + flushed s ?cw ?ps (fromPort (channels nc ! k))\<rparr>"
    using flush_fold [OF assms(1,2), of ?ps ?cw] assms(3) by auto
  have "flush_switch s nc = nc\<lparr>channels := cs, switches := (switches nc)[s := sw\<lparr>channelWaiting := (\<lambda>_. 0)\<rparr>]\<rparr>"
    using c(1) assms(3) by (simp add: flush_switch_def Let_def)
  moreover have "flushed s ?cw ?ps (Some (SwitchPort s p)) = ?cw p"
    if "k < nat (maxChannelIndex nc)" "fromPort (channels nc ! k) = Some (SwitchPort s p)" for k p
    using wiredD(7) [OF assms(1) that(1)] that(2) assms(3) by (auto simp: flushed_def valid_ref_def)
  moreover have "flushed s ?cw ?ps r = 0" if "\<And>p. r \<noteq> Some (SwitchPort s p)" for r
    using that by (auto simp: flushed_def split: option.split port_ref.split)
  ultimately show thesis using that [of cs] c by simp
qed

lemma drive_switch_ok:
  assumes inv: "net_inv nc" and s: "s < length (switches nc)"
  shows "\<exists>nc'. drive_switch now s nc = Inr nc' \<and> net_inv nc' \<and> net_msgs nc' = net_msgs nc \<and>
    same_net nc nc'"
proof -
  let ?sw = "switches nc ! s"
  note wd = net_invD(1) [OF inv] note w = wiredD [OF wd]
  have swi: "sw_inv ?sw" "channelWaiting ?sw = (\<lambda>_. 0)" using net_invD(2,3) [OF inv] s by simp_all
  obtain sw' where d: "NetSwitch_drive now ?sw = Inr sw'" "sw_inv sw'" "sw_msgs sw' = sw_msgs ?sw"
    using NetSwitch_drive_ok [OF swi(1)] by blast
  note f = NetSwitch_drive_fixed [OF swi(1) d(1)] and sn = NetSwitch_drive_sent [OF d(1)]
  let ?n1 = "nc\<lparr>switches := (switches nc)[s := sw']\<rparr>"
  have same1: "same_net nc ?n1" using same_net_switch [OF s] f by simp
  have s1: "s < length (switches ?n1)" "switches ?n1 ! s = sw'" using s by simp_all
  obtain cs where c: "flush_switch s ?n1 = ?n1\<lparr>channels := cs,
      switches := (switches ?n1)[s := sw'\<lparr>channelWaiting := (\<lambda>_. 0)\<rparr>]\<rparr>"
    "map fromPort cs = map fromPort (channels ?n1)" "map toPort cs = map toPort (channels ?n1)"
    "\<And>k p. k < nat (maxChannelIndex ?n1) \<Longrightarrow> fromPort (channels ?n1 ! k) = Some (SwitchPort s p) \<Longrightarrow>
       chan (cs ! k) = (chan (channels ?n1 ! k))\<lparr>messagesWaiting :=
         messagesWaiting (chan (channels ?n1 ! k)) + channelWaiting sw' p\<rparr>"
    "\<And>k. k < nat (maxChannelIndex ?n1) \<Longrightarrow> (\<And>p. fromPort (channels ?n1 ! k) \<noteq> Some (SwitchPort s p)) \<Longrightarrow>
       chan (cs ! k) = chan (channels ?n1 ! k)"
    using flush_switch_wired [OF same_net_wired [OF same1 wd] s1] by blast
  let ?sw2 = "sw'\<lparr>channelWaiting := (\<lambda>_. 0)\<rparr>"
  let ?nc = "nc\<lparr>channels := cs, switches := (switches nc)[s := ?sw2]\<rparr>"
  have run: "drive_switch now s nc = Inr ?nc"
    using d(1) s c(1) by (simp add: drive_switch_def lookup_vec_def)
  have same: "same_net nc ?nc"
    using c(2,3) f by (simp add: same_net_def map_update_same)
  have m2: "sw_msgs ?sw2 = sw_msgs sw'" by (simp add: sw_msgs_def in_msgs_def out_msgs_def)
  have i2: "sw_inv ?sw2" using d(2) m2 by (simp add: sw_inv_def routes_ok_def)
  have ms: "net_msgs ?nc = net_msgs nc"
    using net_msgs_switch [OF s, of ?sw2] m2 d(3) by (simp add: net_msgs_def)
  have sws: "\<forall>sw \<in> set (switches ?nc). sw_inv sw \<and> channelWaiting sw = (\<lambda>_. 0)"
    using net_invD(2,3) [OF inv] i2 set_update_subset_insert [of "switches nc" s ?sw2] by auto
  have nds: "\<forall>nd \<in> set (nodes ?nc). out_inv (fromNodePort nd) \<and> in_inv (toNodePort nd)"
    using net_invD(4,5) [OF inv] by simp
  have ii: "in_inv (in_at r ?nc)" and oi: "out_inv (out_at r ?nc)" if "valid_ref nc r" for r
    using in_at_inv [of ?nc r] out_at_inv [of ?nc r] sws nds that same_net_valid [OF same] by blast+
  have o1: "out_at (SwitchPort s p) ?nc = outputPorts sw' ! p" for p
    using s by (simp add: out_at_def)
  have o2: "out_at r ?nc = out_at r nc" if "\<And>p. r \<noteq> SwitchPort s p" for r
  proof (cases r)
    case (SwitchPort a b)
    then have "a \<noteq> s" using that [of b] by auto
    then show ?thesis using SwitchPort by (simp add: out_at_def)
  qed (simp add: out_at_def)
  have len: "length (outputPorts ?sw) = sw_numPorts ?sw" using sw_shape(2) [OF swi(1)] .
  have l: "link_inv (link_at k ?nc)" if k: "k < nat (maxChannelIndex nc)" for k
  proof (cases "\<exists>p. fromPort (channels nc ! k) = Some (SwitchPort s p)")
    case True
    then obtain p where p: "fromPort (channels nc ! k) = Some (SwitchPort s p)" by blast
    obtain t where t: "toPort (channels nc ! k) = Some t" "valid_ref nc t" "valid_ref nc (SwitchPort s p)"
      using w(7) [OF k] p by auto
    have kl: "k < length (channels nc)" using w(3) k by simp
    have pt: "fromPort (cs ! k) = Some (SwitchPort s p)" "toPort (cs ! k) = Some t"
      using same_netD(7,8) [OF same kl] p t(1) by simp_all
    have pl: "p < length (outputPorts ?sw)" using t(3) len by (simp add: valid_ref_def)
    have old: "link_inv (chan (channels nc ! k), outputPorts ?sw ! p, in_at t nc)"
      using net_invD(6) [OF inv k] p t(1) by (simp add: link_at_def out_at_def)
    have dlt: "channelWaiting sw' p = getBuffersUsed (outputPorts sw' ! p) - getBuffersUsed (outputPorts ?sw ! p)"
      "getBuffersUsed (outputPorts ?sw ! p) \<le> getBuffersUsed (outputPorts sw' ! p)"
      using sn pl swi(2) unfolding sent_def by (smt (verit))+
    have "link_at k ?nc = ((chan (channels nc ! k))\<lparr>messagesWaiting :=
         messagesWaiting (chan (channels nc ! k)) + channelWaiting sw' p\<rparr>, outputPorts sw' ! p, in_at t ?nc)"
      using c(4) [of k p] k p pt o1 by (simp add: link_at_def)
    then show ?thesis using old dlt ii [OF t(2)] oi [OF t(3)] o1 by (auto simp: link_inv_def)
  next
    case False
    then have np: "\<And>p. fromPort (channels nc ! k) \<noteq> Some (SwitchPort s p)" by blast
    obtain f where f: "fromPort (channels nc ! k) = Some f" using w(7) [OF k] by blast
    have "out_at f ?nc = out_at f nc" using o2 [of f] np f by auto
    then show ?thesis using link_frame [OF inv same k] c(5) [of k] k np f ii by simp
  qed
  have a2: "all_to (out_contents (out_at r ?nc)) n" if del: "delivers nc r n" for r n
  proof (cases "\<exists>p. r = SwitchPort s p")
    case True
    then obtain p where p: "r = SwitchPort s p" by blast
    have pl: "p < length (outputPorts ?sw)" "p < length (outputPorts sw')"
      using delivers_valid(1) [OF wd del] p len sn by (simp_all add: valid_ref_def sent_def)
    have "destNode m = int n" if m: "vc < 8" "m \<in> set (out_contents (outputPorts sw' ! p) vc)" for vc m
    proof (cases "m \<in> set (out_contents (outputPorts ?sw ! p) vc)")
      case True
      then show ?thesis using net_invD(8) [OF inv del] p m(1) by (auto simp: all_to_def out_at_def)
    next
      case False
      then have "routed ?sw p m" using sn pl(1) m(2) unfolding sent_def by blast
      then obtain v where v: "(int p, v) \<in> set (zip (routingTable ?sw ! nat (destNode m)) (vcTable ?sw ! nat (destNode m)))"
        by (auto simp: routed_def)
      have "msg_ok (length (nodes nc)) (ident m)"
        using sw_shape(5) [OF d(2) out_msgs_mem [OF pl(2) m]] f(2) w(5) [OF s] by simp
      then have "nat (destNode m) < length (nodes nc)" "0 \<le> destNode m" by (auto simp: msg_ok_def)
      then have "nat (destNode m) = n" using w(11) [OF del] p v by blast
      then show ?thesis using \<open>0 \<le> destNode m\<close> by simp
    qed
    then show ?thesis using o1 p by (simp add: all_to_def)
  next
    case False
    then show ?thesis using o2 [of r] net_invD(8) [OF inv del] by simp
  qed
  have "net_inv ?nc"
    by (rule net_inv_step [OF inv same ms]) (use sws nds l a2 net_invD(7) [OF inv] in simp_all)
  then show ?thesis using run ms same by blast
qed

end
