(* ===== verification/Net_Cycle.thy ===== *)
theory Net_Cycle
  imports Net_Network
begin

text \<open>
  Messages entering and leaving the network (\<open>NetContainer::insertMessage\<close>,
  \<open>NetNode::drive\<close>, \<open>NetContainer::deliverMessage\<close>), the whole cycle
  \<open>NetContainer::drive\<close>, and a network built from a description on which the theorems are
  applied.
\<close>

section \<open>Messages leave and enter\<close>

lemma net_inv_change:
  assumes "net_inv nc" and same: "same_net nc nc'"
    and "\<forall>m \<in># net_msgs nc'. msg_ok (length (nodes nc)) m"
    and "mset (activeList nc') = image_mset serial (net_msgs nc')"
    and "activeMessages nc' = int (size (net_msgs nc'))"
    and "ports_ok nc'" "\<forall>k < nat (maxChannelIndex nc). link_inv (link_at k nc')"
    and "\<forall>n < length (nodes nc). all_to (in_contents (toNodePort (nodes nc' ! n))) n"
    and "\<forall>r n. delivers nc r n \<longrightarrow> all_to (out_contents (out_at r nc')) n"
  shows "net_inv nc'"
  using assms same_net_wired [OF same] same_net_delivers [OF same] same_netD [OF same]
    ports_ok_inv [OF assms(6)]
  by (simp add: net_inv_def)

lemma node_vc_step_ok:
  assumes inv: "net_inv nc" and n: "n < length (nodes nc)" and i: "i < 8"
    and ok: "\<forall>m e. \<not> snd (deliver m e)"
  shows "\<exists>nc' ds. node_vc_step avail deliver now n i (nc, e) =
      Inr (nc', fold (\<lambda>m e. fst (deliver m e)) ds e) \<and> net_inv nc' \<and> same_net nc nc' \<and>
    net_msgs nc = net_msgs nc' + mset (map ident ds) \<and> (\<forall>m \<in> set ds. destNode m = int n)"
proof -
  let ?nd = "nodes nc ! n"
  let ?step = "node_vc_step avail deliver now n i (nc, e)"
  have nd: "out_inv (fromNodePort ?nd)" "in_inv (toNodePort ?nd)" "nodeId ?nd = int n"
    using net_invD(4,5) [OF inv] n wiredD(4) [OF net_invD(1) [OF inv]] by simp_all
  have h: "hasMessage (int i) (toNodePort ?nd) = Inr (msl (toNodePort ?nd) i \<noteq> [])"
    using i by (simp add: hasMessage_def vc_ok_def)
  show ?thesis
  proof (cases "msl (toNodePort ?nd) i \<noteq> [] \<and> avail e (nodeId ?nd) (NETVC_TO_PROTVC i)")
    case False
    then have "?step = Inr (nc, e)"
      using h n by (auto simp: node_vc_step_def lookup_vec_def)
    then show ?thesis using inv by (intro exI [of _ nc] exI [of _ "[]"]) simp
  next
    case True
    then obtain p m where r: "ChannelInputPort_removeMessage now (int i) (toNodePort ?nd) = Inr (p, m)"
      "in_inv p" "in_contents (toNodePort ?nd) i = core_of m # in_contents p i"
      "\<forall>v. v \<noteq> i \<longrightarrow> in_contents p v = in_contents (toNodePort ?nd) v"
      using in_remove_ok [OF nd(2) i, of now] by blast
    have to: "all_to (in_contents (toNodePort ?nd)) n" by (rule net_invD(7) [OF inv n])
    then have dest: "destNode m = int n" using r(3) i by (auto simp: all_to_def)
    have top: "all_to (in_contents p) n"
      using to r(3,4) unfolding all_to_def by (metis list.set_intros(2))
    let ?nd' = "?nd\<lparr>toNodePort := p, nd_messagesWaiting := nd_messagesWaiting ?nd - 1\<rparr>"
    let ?n1 = "nc\<lparr>nodes := (nodes nc)[n := ?nd']\<rparr>"
    have "buf_msgs (in_contents (toNodePort ?nd)) = add_mset (ident (core_of m)) (buf_msgs (in_contents p))"
      by (rule buf_msgs_pop [OF i r(3,4)])
    then have ms: "net_msgs nc = add_mset (ident m) (net_msgs ?n1)"
      using net_msgs_node [OF n, of ?nd'] by (simp add: node_msgs_def)
    let ?nc = "?n1\<lparr>activeList := remove1 (serial m) (activeList nc), activeMessages := activeMessages nc - 1\<rparr>"
    have a: "mset (activeList nc) = image_mset serial (net_msgs nc)" "activeMessages nc = int (size (net_msgs nc))"
      by (rule net_invD(10,11) [OF inv])+
    have act: "serial m \<in> set (activeList nc)"
      using a(1) ms by (metis ident_simps(8) image_mset_add_mset set_mset_mset union_single_eq_member)
    have ms': "net_msgs ?nc = net_msgs ?n1" by simp
    have a': "mset (activeList ?nc) = image_mset serial (net_msgs ?nc)" "activeMessages ?nc = int (size (net_msgs ?nc))"
      unfolding ms' using a ms by simp_all
    have emp: "activeMessages ?nc = 0 \<longrightarrow> activeList ?nc = []"
      using a'(1) unfolding a'(2) by (metis image_mset_empty mset_zero_iff nat_int nat_zero_as_int size_eq_0_iff_empty)
    have same: "same_net nc ?nc"
      using same_net_node [of ?nd' nc n] by (simp add: same_net_def)
    have o: "out_at r ?nc = out_at r nc" for r
      using n by (cases r) (auto simp: out_at_def nth_list_update)
    have P: "ports_ok ?nc"
      using ports_ok_node [OF net_inv_ports [OF inv], of ?nd' n] nd r(2) by (simp add: ports_ok_def)
    have mok: "\<forall>m \<in># net_msgs ?nc. msg_ok (length (nodes nc)) m"
      using net_invD(9) [OF inv] ms unfolding ms' by simp
    have "in_inv (in_at r ?nc)" if "valid_ref nc r" for r
      using in_at_inv [of ?nc r] ports_ok_inv [OF P] mok that same_net_valid [OF same]
      by simp
    then have l: "\<forall>k < nat (maxChannelIndex nc). link_inv (link_at k ?nc)"
      using link_frame [OF inv same] o by simp
    have "\<forall>j < length (nodes nc). all_to (in_contents (toNodePort (nodes ?nc ! j))) j"
      using net_invD(7) [OF inv] n top by (auto simp: nth_list_update)
    then have "net_inv ?nc"
      using net_inv_change [OF inv same mok a' P l] net_invD(8) [OF inv] o by simp
    moreover obtain e' where e': "deliver m e = (e', False)"
      using ok by (metis prod.collapse)
    then have "?step = Inr (?nc, e')"
      using True h n r(1) dest nd(3) act emp
      by (simp add: node_vc_step_def lookup_vec_def deliverMessage_def)
    ultimately show ?thesis
      using e' same ms ms' dest by (intro exI [of _ ?nc] exI [of _ "[m]"]) simp
  qed
qed

text \<open>A loop of steps that each keep the invariant and deliver some messages.\<close>

definition delivered_ok :: "(MessageState \<Rightarrow> 'e \<Rightarrow> 'e \<times> bool) \<Rightarrow> NetContainer \<times> 'e \<Rightarrow>
    (NetContainer \<times> 'e) result \<Rightarrow> bool" where
  "delivered_ok deliver s r \<longleftrightarrow> (\<exists>nc' ds. r = Inr (nc', fold (\<lambda>m e. fst (deliver m e)) ds (snd s)) \<and>
     net_inv nc' \<and> same_net (fst s) nc' \<and> net_msgs (fst s) = net_msgs nc' + mset (map ident ds) \<and>
     (\<forall>m \<in> set ds. 0 \<le> destNode m \<and> destNode m < numNodes nc'))"

lemma delivered_refl: "net_inv nc \<Longrightarrow> delivered_ok deliver (nc, e) (Inr (nc, e))"
  unfolding delivered_ok_def by (intro exI [of _ nc] exI [of _ "[]"]) simp

lemma for_each_delivered:
  assumes "\<And>i nc e. i \<in> set js \<Longrightarrow> net_inv nc \<Longrightarrow> same_net nc0 nc \<Longrightarrow> delivered_ok deliver (nc, e) (f i (nc, e))"
    and "net_inv nc" "same_net nc0 nc"
  shows "delivered_ok deliver (nc, e) (for_each f js (nc, e))"
  using assms
proof (induction js arbitrary: nc e)
  case Nil
  then show ?case by (simp add: delivered_refl)
next
  case (Cons i js)
  obtain nc1 ds where s: "f i (nc, e) = Inr (nc1, fold (\<lambda>m e. fst (deliver m e)) ds e)"
    "net_inv nc1" "same_net nc nc1" "net_msgs nc = net_msgs nc1 + mset (map ident ds)"
    "\<forall>m \<in> set ds. 0 \<le> destNode m \<and> destNode m < numNodes nc1"
    using Cons.prems(1) [of i nc e] Cons.prems(2,3) by (auto simp: delivered_ok_def)
  let ?e = "fold (\<lambda>m e. fst (deliver m e)) ds e"
  have "delivered_ok deliver (nc1, ?e) (for_each f js (nc1, ?e))"
    by (rule Cons.IH) (use Cons.prems s(2) same_net_trans [OF Cons.prems(3) s(3)] in auto)
  then obtain nc2 ds2 where t: "for_each f js (nc1, ?e) = Inr (nc2, fold (\<lambda>m e. fst (deliver m e)) ds2 ?e)"
    "net_inv nc2" "same_net nc1 nc2" "net_msgs nc1 = net_msgs nc2 + mset (map ident ds2)"
    "\<forall>m \<in> set ds2. 0 \<le> destNode m \<and> destNode m < numNodes nc2"
    by (auto simp: delivered_ok_def)
  have "\<forall>m \<in> set (ds @ ds2). 0 \<le> destNode m \<and> destNode m < numNodes nc2"
    using s(5) t(5) same_netD(5) [OF t(3)] by auto
  then show ?case
    using s t same_net_trans [OF s(3) t(3)] unfolding delivered_ok_def
    by (intro exI [of _ nc2] exI [of _ "ds @ ds2"]) (auto simp: ac_simps)
qed

lemma NetNode_drive_ok:
  assumes inv: "net_inv nc" and n: "n < length (nodes nc)"
    and ok: "\<forall>m e. \<not> snd (deliver m e)"
  shows "delivered_ok deliver (nc, e) (NetNode_drive avail deliver now n (nc, e))"
proof (cases "nd_messagesWaiting (nodes nc ! n) = 0")
  case True
  then show ?thesis using inv n by (simp add: NetNode_drive_def lookup_vec_def delivered_refl)
next
  case False
  have "delivered_ok deliver (nc1, e1) (node_vc_step avail deliver now n i (nc1, e1))"
    if a: "i \<in> set [0..<MAX_VC]" "net_inv nc1" "same_net nc nc1" for i nc1 e1
  proof -
    have n1: "n < length (nodes nc1)" "i < 8"
      using n a same_netD(2) [OF a(3)] by simp_all
    obtain nc' ds where s: "node_vc_step avail deliver now n i (nc1, e1) =
        Inr (nc', fold (\<lambda>m e. fst (deliver m e)) ds e1)" "net_inv nc'" "same_net nc1 nc'"
      "net_msgs nc1 = net_msgs nc' + mset (map ident ds)" "\<forall>m \<in> set ds. destNode m = int n"
      using node_vc_step_ok [OF a(2) n1 ok] by blast
    have "int n < numNodes nc'"
      using n1(1) wiredD(2) [OF net_invD(1) [OF s(2)]] same_netD(2) [OF s(3)] by simp
    then show ?thesis using s unfolding delivered_ok_def by (intro exI [of _ nc'] exI [of _ ds]) auto
  qed
  from for_each_delivered [where f = "node_vc_step avail deliver now n" and js = "[0..<MAX_VC]",
      OF this inv same_net_refl]
  show ?thesis
    using False n by (simp add: NetNode_drive_def lookup_vec_def)
qed

lemma for_each_ok:
  assumes "\<And>i nc. i \<in> set is \<Longrightarrow> net_inv nc \<Longrightarrow> same_net nc0 nc \<Longrightarrow>
      \<exists>nc'. f i nc = Inr nc' \<and> net_inv nc' \<and> net_msgs nc' = net_msgs nc \<and> same_net nc nc'"
    and "net_inv nc" "same_net nc0 nc"
  shows "\<exists>nc'. for_each f is nc = Inr nc' \<and> net_inv nc' \<and> net_msgs nc' = net_msgs nc \<and> same_net nc nc'"
  using assms
proof (induction "is" arbitrary: nc)
  case (Cons i "is")
  obtain nc1 where s: "f i nc = Inr nc1" "net_inv nc1" "net_msgs nc1 = net_msgs nc" "same_net nc nc1"
    using Cons.prems(1) [of i nc] Cons.prems(2,3) by auto
  have "\<exists>nc'. for_each f is nc1 = Inr nc' \<and> net_inv nc' \<and> net_msgs nc' = net_msgs nc1 \<and> same_net nc1 nc'"
    by (rule Cons.IH) (use Cons.prems s(2) same_net_trans [OF Cons.prems(3) s(4)] in auto)
  then show ?case using s same_net_trans [OF s(4)] by auto
qed auto

lemma NetContainer_drive_ok:
  assumes inv: "net_inv nc" and ok: "\<forall>m e. \<not> snd (deliver m e)"
  shows "delivered_ok deliver (nc, e) (NetContainer_drive avail deliver now (nc, e))"
proof -
  have len: "nat (numSwitches nc') = length (switches nc')" "nat (numNodes nc') = length (nodes nc')"
    if "net_inv nc'" for nc'
    using wiredD(1,2) [OF net_invD(1) [OF that]] by simp_all
  have loop: "\<exists>nc'. for_each f [0..<b nc1] nc1 = Inr nc' \<and> net_inv nc' \<and> net_msgs nc' = net_msgs nc1 \<and> same_net nc1 nc'"
    if i1: "net_inv nc1" and step: "\<And>i nc. net_inv nc \<Longrightarrow> i < b nc \<Longrightarrow>
        \<exists>nc'. f i nc = Inr nc' \<and> net_inv nc' \<and> net_msgs nc' = net_msgs nc \<and> same_net nc nc'"
      and b: "\<And>nc'. same_net nc1 nc' \<Longrightarrow> b nc' = b nc1" for f b nc1
  proof (rule for_each_ok [OF _ i1 same_net_refl])
    fix i nc assume a: "i \<in> set [0..<b nc1]" "net_inv nc" "same_net nc1 nc"
    then have "i < b nc" using b [OF a(3)] by simp
    then show "\<exists>nc'. f i nc = Inr nc' \<and> net_inv nc' \<and> net_msgs nc' = net_msgs nc \<and> same_net nc nc'"
      by (rule step [OF a(2)])
  qed
  obtain nc1 where n1: "for_each (drive_switch now) [0..<nat (numSwitches nc)] nc = Inr nc1"
    "net_inv nc1" "net_msgs nc1 = net_msgs nc" "same_net nc nc1"
    using loop [OF inv, of "\<lambda>nc. nat (numSwitches nc)" "drive_switch now"]
    by (auto simp: len(1) same_netD(6) intro: drive_switch_ok)
  obtain nc2 where n2: "for_each (drive_switch_inputs now) [0..<nat (numSwitches nc1)] nc1 = Inr nc2"
    "net_inv nc2" "net_msgs nc2 = net_msgs nc1" "same_net nc1 nc2"
    using loop [OF n1(2), of "\<lambda>nc. nat (numSwitches nc)" "drive_switch_inputs now"]
    by (auto simp: len(1) same_netD(6) intro: drive_switch_inputs_ok)
  obtain nc3 where n3: "for_each (drive_node_inputs now) [0..<nat (numNodes nc2)] nc2 = Inr nc3"
    "net_inv nc3" "net_msgs nc3 = net_msgs nc2" "same_net nc2 nc3"
    using loop [OF n2(2), of "\<lambda>nc. nat (numNodes nc)" "drive_node_inputs now"]
    by (auto simp: len(2) same_netD(5) intro: drive_node_inputs_ok)
  obtain nc4 where n4: "for_each (drive_channel now) [0..<nat (maxChannelIndex nc3)] nc3 = Inr nc4"
    "net_inv nc4" "net_msgs nc4 = net_msgs nc3" "same_net nc3 nc4"
    using loop [OF n3(2), of "\<lambda>nc. nat (maxChannelIndex nc)" "drive_channel now"]
    by (auto simp:  same_netD(4) intro: drive_channel_ok)
  have "delivered_ok deliver (nc', e') (NetNode_drive avail deliver now n (nc', e'))"
    if "n \<in> set [0..<nat (numNodes nc4)]" "net_inv nc'" "same_net nc4 nc'" for n nc' e'
    using NetNode_drive_ok [OF that(2) _ ok] that(1) len(2) [OF n4(2)] same_netD(2) [OF that(3)] by simp
  from for_each_delivered [where f = "NetNode_drive avail deliver now" and e = e and
      js = "[0..<nat (numNodes nc4)]", OF this n4(2) same_net_refl]
  obtain nc5 ds where d: "for_each (NetNode_drive avail deliver now) [0..<nat (numNodes nc4)] (nc4, e) =
      Inr (nc5, fold (\<lambda>m e. fst (deliver m e)) ds e)" "net_inv nc5" "same_net nc4 nc5"
    "net_msgs nc4 = net_msgs nc5 + mset (map ident ds)"
    "\<forall>m \<in> set ds. 0 \<le> destNode m \<and> destNode m < numNodes nc5"
    by (auto simp: delivered_ok_def)
  have "same_net nc nc5"
    using n1(4) n2(4) n3(4) n4(4) d(3) same_net_trans by blast
  moreover have "NetContainer_drive avail deliver now (nc, e) = Inr (nc5, fold (\<lambda>m e. fst (deliver m e)) ds e)"
    using n1(1) n2(1) n3(1) n4(1) d(1) by (simp add: NetContainer_drive_def)
  ultimately show ?thesis
    using d n1(3) n2(3) n3(3) n4(3) by (auto simp: delivered_ok_def)
qed

lemma insertMessage_ok:
  assumes inv: "net_inv nc"
    and src: "0 \<le> srcNode m" "srcNode m < numNodes nc" and ok: "msg_ok (length (nodes nc)) m"
    and space: "isOutputAvailable (BUILD_VC (priority m) 0) (nodes nc ! nat (srcNode m)) = Inr True"
  shows "\<exists>nc'. NetContainer_insertMessage now m nc = Inr nc' \<and> net_inv nc' \<and> same_net nc nc' \<and>
    net_msgs nc' = add_mset (ident (m\<lparr>transmitLatency := transmit_latency nc m\<rparr>)) (net_msgs nc) \<and>
    activeList nc' = activeList nc @ [serial m]"
proof -
  let ?n = "nat (srcNode m)" and ?vc = "nat (BUILD_VC (priority m) 0)"
  let ?nd = "nodes nc ! ?n"
  let ?m = "m\<lparr>transmitLatency := transmit_latency nc m, networkVC := BUILD_VC (priority m) 0\<rparr>"
  note wd = net_invD(1) [OF inv] note w = wiredD [OF wd]
  have n: "?n < length (nodes nc)" using src w(2) by simp
  have r: "0 \<le> destNode m" "destNode m < numNodes nc" "0 \<le> priority m" "priority m < 4"
    using ok w(2) by (simp_all add: msg_ok_def)
  have v: "vc_ok (BUILD_VC (priority m) 0)" using BUILD_VC_ok [of "priority m" 0] r by simp
  then have vc: "?vc < 8" "networkVC ?m = int ?vc" using vc_ok_nat [OF v] by (simp_all add: vc_ok_def)
  have nd: "out_inv (fromNodePort ?nd)" "in_inv (toNodePort ?nd)"
    using net_invD(4,5) [OF inv] n by simp_all
  have "buffersUsed (fromNodePort ?nd) ?vc < bufferCount (fromNodePort ?nd) ?vc"
    using space v by (simp add: isOutputAvailable_def hasBufferSpace_def)
  then have "int (length (out_contents (fromNodePort ?nd) ?vc)) < bufferCount (fromNodePort ?nd) ?vc"
    using nd(1) buf_okD(1) vc(1) by (metis out_inv_def)
  from out_insert_ok [OF nd(1) vc this, of now] obtain p where p:
    "ChannelOutputPort_insertMessage now ?m (fromNodePort ?nd) = Inr p" "out_inv p"
    "out_contents p = (out_contents (fromNodePort ?nd))
       (?vc := out_contents (fromNodePort ?nd) ?vc @ [core_of ?m])"
    by blast
  let ?nd' = "?nd\<lparr>fromNodePort := p\<rparr>"
  let ?n1 = "nc\<lparr>activeList := activeList nc @ [serial m], activeMessages := activeMessages nc + 1,
    nodes := (nodes nc)[?n := ?nd']\<rparr>"
  have same1: "same_net nc ?n1" using same_net_node [of ?nd' nc ?n] by (simp add: same_net_def)
  have vr: "valid_ref nc (NodePort ?n)" using n by (simp add: valid_ref_def)
  then have "valid_ref ?n1 (NodePort ?n)" using same_net_valid [OF same1] by simp
  from notify_channel_wired [OF same_net_wired [OF same1 wd] this, of 1] obtain cs where c:
    "notify_channel (NodePort ?n) 1 ?n1 = ?n1\<lparr>channels := cs\<rparr>"
    "map fromPort cs = map fromPort (channels nc)" "map toPort cs = map toPort (channels nc)"
    "\<And>k. k < nat (maxChannelIndex nc) \<Longrightarrow> chan (cs ! k) = (chan (channels nc ! k))\<lparr>messagesWaiting :=
       messagesWaiting (chan (channels nc ! k)) +
         (if fromPort (channels nc ! k) = Some (NodePort ?n) then 1 else 0)\<rparr>"
    by auto
  let ?nc = "?n1\<lparr>channels := cs\<rparr>"
  have same: "same_net nc ?nc" using same1 c(2,3) by (simp add: same_net_def)
  have run: "NetContainer_insertMessage now m nc = Inr ?nc"
    using src r n p(1) c(1) by (simp add: NetContainer_insertMessage_def NetNode_insertMessage_def
        lookup_vec_def Let_def)
  have "net_msgs (nc\<lparr>nodes := (nodes nc)[?n := ?nd']\<rparr>) = add_mset (ident ?m) (net_msgs nc)"
    using net_msgs_node [OF n, of ?nd'] p(3) buf_msgs_append [OF vc(1), of "out_contents (fromNodePort ?nd)"]
    by (simp add: node_msgs_def)
  then have ms: "net_msgs ?nc = add_mset (ident ?m) (net_msgs nc)" by (simp add: net_msgs_def)
  have P: "ports_ok ?nc"
    using ports_ok_node [OF net_inv_ports [OF inv], of ?nd' ?n] p(2) nd(2) by (simp add: ports_ok_def)
  have "msg_ok (length (nodes nc)) (m\<lparr>transmitLatency := transmit_latency nc m\<rparr>)"
    using ok by (simp add: msg_ok_def)
  then have mok: "\<forall>m \<in># net_msgs ?nc. msg_ok (length (nodes nc)) m"
    using net_invD(9) [OF inv] ms by simp
  have act: "mset (activeList ?nc) = image_mset serial (net_msgs ?nc)"
    "activeMessages ?nc = int (size (net_msgs ?nc))"
    unfolding ms using net_invD(10,11) [OF inv] by simp_all
  have i: "in_at r ?nc = in_at r nc" for r
    using n by (cases r) (auto simp: in_at_def nth_list_update)
  have o: "out_at r ?nc = (if r = NodePort ?n then p else out_at r nc)" for r
    using n by (cases r) (auto simp: out_at_def)
  have ii: "in_inv (in_at r ?nc)" if "valid_ref nc r" for r
    using in_at_inv [of nc r] net_invD(2,5) [OF inv] that i by simp
  have l: "link_inv (link_at k ?nc)" if k: "k < nat (maxChannelIndex nc)" for k
  proof -
    obtain f t where ft: "fromPort (channels nc ! k) = Some f" "toPort (channels nc ! k) = Some t"
      "valid_ref nc f" "valid_ref nc t"
      using w(7) [OF k] by blast
    have kl: "k < length (channels nc)" using w(3) k by simp
    show ?thesis
    proof (cases "f = NodePort ?n")
      case True
      have old: "link_inv (chan (channels nc ! k), fromNodePort ?nd, in_at t nc)"
        using net_invD(6) [OF inv k] ft True by (simp add: link_at_def out_at_def)
      have "link_at k ?nc = ((chan (channels nc ! k))\<lparr>messagesWaiting :=
          messagesWaiting (chan (channels nc ! k)) + 1\<rparr>, p, in_at t nc)"
        using c(4) [OF k] ft True same_netD(7,8) [OF same kl] o i by (simp add: link_at_def)
      then show ?thesis
        using old p(2) out_insert_sent(1) [OF p(1)] by (auto simp: link_inv_def)
    next
      case False
      then show ?thesis
        using link_frame [OF inv same k] c(4) [OF k] ft(1) o ii by simp
    qed
  qed
  have a1: "\<forall>j < length (nodes nc). all_to (in_contents (toNodePort (nodes ?nc ! j))) j"
  proof (intro allI impI)
    fix j assume j: "j < length (nodes nc)"
    have "toNodePort (nodes ?nc ! j) = toNodePort (nodes nc ! j)" using n by (cases "j = ?n") simp_all
    then show "all_to (in_contents (toNodePort (nodes ?nc ! j))) j" using net_invD(7) [OF inv j] by simp
  qed
  have a2: "all_to (out_contents (out_at r ?nc)) j" if del: "delivers nc r j" for r j
  proof -
    have "r \<noteq> NodePort ?n" using w(11) [OF del] by blast
    then show ?thesis using o net_invD(8) [OF inv del] by simp
  qed
  have "net_inv ?nc" by (rule net_inv_change [OF inv same mok act P]) (use l a1 a2 in blast)+
  then show ?thesis using run same ms by simp
qed

section \<open>A network\<close>

definition ex_script :: "statement list" where
  "ex_script = [Param ChannelLatency 1, Param ChannelLatencyData 2, Param ChannelLatencyControl 1,
     Param LocalChannelLatencyDivider 1, Param NumNodes 2, Param NumSwitches 1,
     Param SwitchInputBuffers 1, Param SwitchOutputBuffers 1, Param SwitchInternalBuffersPerVC 1,
     Param SwitchBandwidth 2, Param SwitchPorts 2,
     Top (TopNode 0) (TopSwitch 0 0), Top (TopNode 1) (TopSwitch 0 1),
     Route 0 0 [(0, 0)], Route 0 1 [(1, 0)]]"

definition ex_in :: ChannelInputPort where
  "ex_in = \<lparr>bufferCount = (\<lambda>_. 1), buffersUsed = (\<lambda>_. 0), msl = (\<lambda>_. []), connected = True,
     channelLatency = 1, delayList = []\<rparr>"

definition ex_out :: "(nat \<Rightarrow> int) \<Rightarrow> ChannelPort" where
  "ex_out c = \<lparr>bufferCount = c, buffersUsed = (\<lambda>_. 0), msl = (\<lambda>_. []), connected = True\<rparr>"

definition ex_node :: "int \<Rightarrow> NetNode" where
  "ex_node i = \<lparr>nodeId = i, fromNodePort = ex_out (\<lambda>i. if i = 0 \<or> i = 1 then 1 else INT_MAX),
     toNodePort = ex_in, nd_messagesWaiting = 0\<rparr>"

definition ex_chan :: "int \<Rightarrow> port_ref \<Rightarrow> port_ref \<Rightarrow> net_channel" where
  "ex_chan i f t = \<lparr>chan = \<lparr>ch_id = i, busy = 0, localLatencyDivider = 1, ch_state = CS_IDLE,
     messagesWaiting = 0\<rparr>, fromPort = Some f, toPort = Some t\<rparr>"

definition ex_sw :: NetSwitch where
  "ex_sw = \<lparr>sw_name = 0, sw_numNodes = 2, sw_numPorts = 2, crossbarBandwidth = 2, nextStartingPort = 0,
     inputPorts = [ex_in, ex_in], outputPorts = [ex_out (\<lambda>_. 1), ex_out (\<lambda>_. 1)],
     internalBuffer = \<lparr>ib_bufferCount = (\<lambda>_. 1), ib_buffersUsed = (\<lambda>_. 0), ageBuffer = (\<lambda>_. []),
       currMessage = None, currPriority = 0\<rparr>,
     routingTable = [[0, -1, -1, -1], [1, -1, -1, -1]], vcTable = [[0, -1, -1, -1], [0, -1, -1, -1]],
     sw_messagesWaiting = (\<lambda>_. 0), channelWaiting = (\<lambda>_. 0)\<rparr>"

definition ex_net :: NetContainer where
  "ex_net = \<lparr>channels = [ex_chan 0 (NodePort 0) (SwitchPort 0 0), ex_chan 1 (SwitchPort 0 0) (NodePort 0),
       ex_chan 2 (NodePort 1) (SwitchPort 0 1), ex_chan 3 (SwitchPort 0 1) (NodePort 1)],
     switches = [ex_sw], nodes = [ex_node 0, ex_node 1], activeList = [], activeMessages = 0,
     nc_channelLatency = 1, channelLatencyData = 2, channelLatencyControl = 1, channelBandwidth = -1,
     localChannelLatencyDivider = 1, numNodes = 2, numSwitches = 1, switchInputBuffers = 1,
     switchOutputBuffers = 1, switchInternalBuffersPerVC = 1, switchBandwidth = 2, switchPorts = 2,
     numChannels = 4, maxChannelIndex = 4\<rparr>"

lemmas ex_net_defs = ex_net_def ex_sw_def ex_chan_def ex_node_def ex_out_def ex_in_def

lemma rbind_weak_cong: "x = y \<Longrightarrow> rbind x f = rbind y f"
  by simp

lemma upt_small: "[0..<2] = [0, 1]" "[0..<4] = [0, 1, 2, 3]"
  by (simp_all add: upt_rec)

lemma replicate_small: "replicate 2 x = [x, x]" "replicate 4 x = [x, x, x, x]"
  by (simp_all add: numeral_eq_Suc)

lemma ex_net_built: "buildNetwork ex_script NetContainer_new = Inr ex_net"
  by (simp add: ex_script_def ex_net_defs buildNetwork_def NetContainer_new_def validate_after_def
      validateParameters_def allocateNetworkStructures_def NetSwitch_new_def NetNode_new_def
      ChannelPort_new_def ChannelInputPort_new_def NetSwitchInternalBuffer_new_def Channel_new_def
      handleTopology_def readTopSrcDest_def attachNodeChannels_def attachSwitchChannels_def
      attachChannel_def setFromPort_def setToPort_def set_divider_def set_local_delay_def
      setLocalDelayOnly_def setChannel_def get_out_def get_in_def set_out_def set_in_def lookup_vec_def
      setLocalLatencyDivider_def handleRoute_def addRoutingEntry_def validateNetwork_def
      checkRoutingTable_def NetSwitch_checkTopology_def NetNode_checkTopology_def Let_def upt_small
      replicate_small ChannelPort.defs ChannelInputPort.defs setLocalDelay_def
      del: rbind_eq_Inr cong: rbind_weak_cong)

lemma less_4: "k < 4 \<longleftrightarrow> k = 0 \<or> k = 1 \<or> k = 2 \<or> k = (3 :: nat)"
  by auto

lemma less_2: "k < 2 \<longleftrightarrow> k = 0 \<or> k = (1 :: nat)"
  by auto

lemma ex_net_ports:
  "map fromPort (channels ex_net) = map Some [NodePort 0, SwitchPort 0 0, NodePort 1, SwitchPort 0 1]"
  "map toPort (channels ex_net) = map Some [SwitchPort 0 0, NodePort 0, SwitchPort 0 1, NodePort 1]"
  "length (channels ex_net) = 4" "length (switches ex_net) = 1" "length (nodes ex_net) = 2"
  "nat (maxChannelIndex ex_net) = 4"
  by (simp_all add: ex_net_defs)

lemma ex_net_from:
  "fromPort (channels ex_net ! 0) = Some (NodePort 0)" "fromPort (channels ex_net ! 1) = Some (SwitchPort 0 0)"
  "fromPort (channels ex_net ! 2) = Some (NodePort 1)" "fromPort (channels ex_net ! 3) = Some (SwitchPort 0 1)"
  "toPort (channels ex_net ! 0) = Some (SwitchPort 0 0)" "toPort (channels ex_net ! 1) = Some (NodePort 0)"
  "toPort (channels ex_net ! 2) = Some (SwitchPort 0 1)" "toPort (channels ex_net ! 3) = Some (NodePort 1)"
  by (simp_all add: ex_net_def ex_chan_def)

lemma ex_net_valid:
  "valid_ref ex_net r \<longleftrightarrow> r = NodePort 0 \<or> r = NodePort 1 \<or> r = SwitchPort 0 0 \<or> r = SwitchPort 0 1"
  by (cases r) (auto simp: valid_ref_def ex_net_defs less_2)

lemma ex_net_delivers: "delivers ex_net r n \<longleftrightarrow> r = SwitchPort 0 n \<and> (n = 0 \<or> n = 1)"
  unfolding delivers_def ex_net_ports(6) less_4
  by (simp add: conj_disj_distribR ex_disj_distrib ex_net_from [simplified One_nat_def]) auto

lemma ex_net_wired: "wired ex_net"
proof -
  have u: "j = k" if "j < 4" "k < 4" "fromPort (channels ex_net ! j) = fromPort (channels ex_net ! k) \<or>
      toPort (channels ex_net ! j) = toPort (channels ex_net ! k)" for j k
    using that unfolding less_4 by (elim disjE) (simp_all only: ex_net_from, simp_all)
  have p: "\<exists>f t. fromPort (channels ex_net ! k) = Some f \<and> toPort (channels ex_net ! k) = Some t \<and>
      valid_ref ex_net f \<and> valid_ref ex_net t" if "k < 4" for k
    using that unfolding ex_net_valid less_4 by (elim disjE) (simp_all only: ex_net_from, simp_all)
  have o: "\<exists>k < 4. fromPort (channels ex_net ! k) = Some r" if "valid_ref ex_net r" for r
    using that unfolding ex_net_valid less_4 using ex_net_from by metis
  have d: "\<forall>r n. delivers ex_net r n \<longrightarrow> (\<exists>s p. r = SwitchPort s p \<and> (\<forall>d < 2. \<forall>v. (int p, v) \<in>
      set (zip (routingTable (switches ex_net ! s) ! d) (vcTable (switches ex_net ! s) ! d)) \<longrightarrow> d = n))"
    unfolding ex_net_delivers less_2 by (auto simp: ex_net_defs)
  have n: "\<forall>n < 2. nodeId (nodes ex_net ! n) = int n" by (simp add: less_2 ex_net_defs)
  show ?thesis unfolding wired_def ex_net_ports(3-6) using u p o d n by (simp add: ex_net_defs)
qed

lemma ex_net_inv: "net_inv ex_net"
proof -
  have P: "ports_ok ex_net"
    by (auto simp: ports_ok_def ex_net_defs routes_ok_def in_inv_def out_inv_def ib_inv_def buf_ok_def
        in_contents_def delayed_def out_contents_def ib_contents_def less_Suc_eq numeral_2_eq_2)
  have m: "net_msgs ex_net = {#}"
    by (simp add: net_msgs_def node_msgs_def sw_msgs_def in_msgs_def out_msgs_def buf_msgs_def
        ex_net_defs in_contents_def delayed_def out_contents_def ib_contents_def)
  have l: "link_inv (link_at k ex_net)" if "k < 4" for k
    using that unfolding less_4
    by (auto simp: link_at_def link_inv_def out_at_def in_at_def ex_net_defs in_inv_def out_inv_def
        buf_ok_def in_contents_def delayed_def out_contents_def getBuffersUsed_def)
  have c: "out_contents (out_at r ex_net) v = []" if "delivers ex_net r n" for r v n
    using that unfolding ex_net_delivers by (auto simp: out_at_def ex_net_defs out_contents_def)
  have t: "in_contents (toNodePort (nodes ex_net ! n)) v = []" if "n < 2" for n v
    using that unfolding less_2 by (auto simp: ex_net_defs in_contents_def delayed_def)
  show ?thesis
    unfolding net_inv_def m all_to_def
    using ex_net_wired ports_ok_inv [OF P] l c t ex_net_ports
    by (simp add: m) (simp add: ex_net_def)
qed

lemma network_cycles_delivered:
  assumes "net_inv nc" "\<forall>m e. \<not> snd (deliver m e)"
  shows "delivered_ok deliver (nc, e) (for_each (\<lambda>t. NetContainer_drive avail deliver (int t)) ts (nc, e))"
  by (rule for_each_delivered [OF _ assms(1) same_net_refl])
    (simp add: NetContainer_drive_ok assms(2))

section \<open>Properties\<close>

text \<open>
  C4: the network neither loses, duplicates, invents nor misdelivers messages. From a consistent network
  whose node interfaces accept what they are given, any number of cycles run without a failed
  assertion or a reported error, whichever nodes are available when; the network stays
  consistent, and what it held is exactly what it holds afterwards and what it handed over.
\<close>

theorem network_conserves_messages:
  assumes "net_inv nc" "\<forall>m e. \<not> snd (deliver m e)"
  shows "\<exists>nc' ds. for_each (\<lambda>t. NetContainer_drive avail deliver (int t)) ts (nc, e) =
      Inr (nc', fold (\<lambda>m e. fst (deliver m e)) ds e) \<and> net_inv nc' \<and>
    net_msgs nc = net_msgs nc' + mset (map ident ds)"
  using network_cycles_delivered [OF assms] by (fastforce simp: delivered_ok_def)

theorem network_conserves_messages_witness:
  "\<exists>nc nc' ds. NetContainer_insertMessage 0 (ex_msg\<lparr>srcNode := 0, destNode := 1\<rparr>) ex_net = Inr nc \<and>
    for_each (\<lambda>t. NetContainer_drive (\<lambda>_ _ _. True) (\<lambda>m e. (m # e, False)) (int t)) [0..<20] (nc, []) =
      Inr (nc', fold (\<lambda>m e. m # e) ds []) \<and> net_inv nc' \<and>
    net_msgs nc = net_msgs nc' + mset (map ident ds)"
proof -
  let ?m = "ex_msg\<lparr>srcNode := 0, destNode := 1\<rparr>"
  have "isOutputAvailable (BUILD_VC (priority ?m) 0) (nodes ex_net ! nat (srcNode ?m)) = Inr True"
    by (simp add: isOutputAvailable_def hasBufferSpace_def BUILD_VC_def vc_ok_def ex_net_defs ex_msg_def)
  then obtain nc where nc: "NetContainer_insertMessage 0 ?m ex_net = Inr nc" "net_inv nc"
    using insertMessage_ok [OF ex_net_inv, of ?m 0]
    by (auto simp: msg_ok_def ex_net_def ex_msg_def)
  show ?thesis
    using network_conserves_messages [OF nc(2), of "\<lambda>m e. (m # e, False)"] nc(1) by fastforce
qed

text \<open>
  C8: a message with valid source, destination and priority enters the network whenever its
  source node has room on its first virtual channel: exactly this message is added, with the
  latency its size stands for, it is on the active list, and the network stays consistent.
\<close>

theorem insertMessage_adds:
  assumes "net_inv nc" "0 \<le> srcNode m" "srcNode m < numNodes nc" "msg_ok (length (nodes nc)) m"
    and "isOutputAvailable (BUILD_VC (priority m) 0) (nodes nc ! nat (srcNode m)) = Inr True"
  shows "\<exists>nc'. NetContainer_insertMessage now m nc = Inr nc' \<and> net_inv nc' \<and>
    net_msgs nc' = add_mset (ident (m\<lparr>transmitLatency := transmit_latency nc m\<rparr>)) (net_msgs nc) \<and>
    activeList nc' = activeList nc @ [serial m]"
  using insertMessage_ok [OF assms] by blast

theorem insertMessage_adds_witness:
  "\<exists>nc'. NetContainer_insertMessage 0 (ex_msg\<lparr>srcNode := 0, destNode := 1\<rparr>) ex_net = Inr nc' \<and>
    net_inv nc' \<and> activeList nc' = [serial ex_msg]"
proof -
  let ?m = "ex_msg\<lparr>srcNode := 0, destNode := 1\<rparr>"
  have "isOutputAvailable (BUILD_VC (priority ?m) 0) (nodes ex_net ! nat (srcNode ?m)) = Inr True"
    by (simp add: isOutputAvailable_def hasBufferSpace_def BUILD_VC_def vc_ok_def ex_net_defs ex_msg_def)
  then show ?thesis
    using insertMessage_adds [OF ex_net_inv, of ?m 0]
    by (auto simp: msg_ok_def ex_net_def ex_msg_def)
qed

text \<open>
  What a message must satisfy to be let in is exactly what \<open>insertMessage\<close> checks: an
  invalid source, destination or priority is reported, and nothing else is.
\<close>

theorem insertMessage_reports:
  assumes "net_inv nc"
    and "isOutputAvailable (BUILD_VC (priority m) 0) (nodes nc ! nat (srcNode m)) = Inr True"
  shows "NetContainer_insertMessage now m nc = Inl Reported \<longleftrightarrow>
    \<not> (0 \<le> srcNode m \<and> srcNode m < numNodes nc \<and> msg_ok (length (nodes nc)) m)"
proof -
  have n: "numNodes nc = int (length (nodes nc))"
    using wiredD(2) [OF net_invD(1) [OF assms(1)]] .
  show ?thesis
  proof (cases "0 \<le> srcNode m \<and> srcNode m < numNodes nc \<and> msg_ok (length (nodes nc)) m")
    case True
    then show ?thesis using insertMessage_ok [OF assms(1) _ _ _ assms(2), of now] by auto
  next
    case False
    then show ?thesis using n by (auto simp: NetContainer_insertMessage_def msg_ok_def)
  qed
qed

theorem insertMessage_reports_witness:
  "NetContainer_insertMessage 0 (ex_msg\<lparr>srcNode := 0, destNode := 2\<rparr>) ex_net = Inl Reported"
proof -
  let ?m = "ex_msg\<lparr>srcNode := 0, destNode := 2\<rparr>"
  have "isOutputAvailable (BUILD_VC (priority ?m) 0) (nodes ex_net ! nat (srcNode ?m)) = Inr True"
    by (simp add: isOutputAvailable_def hasBufferSpace_def BUILD_VC_def vc_ok_def ex_net_defs ex_msg_def)
  then show ?thesis
    using insertMessage_reports [OF ex_net_inv, of ?m 0] by (simp add: msg_ok_def ex_net_def)
qed

end
