(* ===== verification/Net_Build.thy ===== *)
theory Net_Build
  imports Net_Cycle
begin

text \<open>
  What a network description that \<open>NetContainer::buildNetwork\<close> accepts guarantees: the shape
  of the network is kept by every statement, and \<open>validateNetwork\<close> checks the rest.
\<close>

section \<open>Shape\<close>

definition sw_shaped :: "int \<Rightarrow> int \<Rightarrow> NetSwitch \<Rightarrow> bool" where
  "sw_shaped P N sw \<longleftrightarrow> int (sw_numPorts sw) = P \<and> int (sw_numNodes sw) = N \<and>
     length (inputPorts sw) = sw_numPorts sw \<and> length (outputPorts sw) = sw_numPorts sw \<and> routes_ok sw"

definition net_shape :: "NetContainer \<Rightarrow> bool" where
  "net_shape nc \<longleftrightarrow> numNodes nc = int (length (nodes nc)) \<and> numSwitches nc = int (length (switches nc)) \<and>
     numChannels nc = int (length (channels nc)) \<and> numChannels nc > 0 \<and>
     map nodeId (nodes nc) = map int [0..<length (nodes nc)] \<and>
     (\<forall>sw \<in> set (switches nc). sw_shaped (switchPorts nc) (numNodes nc) sw)"

lemma net_shape_upd [simp]:
  "length cs = length (channels nc) \<Longrightarrow> net_shape (nc\<lparr>channels := cs\<rparr>) = net_shape nc"
  "net_shape (nc\<lparr>maxChannelIndex := i\<rparr>) = net_shape nc"
  by (simp_all add: net_shape_def)

lemma net_shape_switch:
  assumes "net_shape nc" "sw_shaped (switchPorts nc) (numNodes nc) sw"
  shows "net_shape (nc\<lparr>switches := (switches nc)[s := sw]\<rparr>)"
  using assms set_update_subset_insert [of "switches nc" s sw] by (auto simp: net_shape_def)

lemma net_shape_node:
  assumes "net_shape nc" "nodeId nd = nodeId (nodes nc ! n)"
  shows "net_shape (nc\<lparr>nodes := (nodes nc)[n := nd]\<rparr>)"
  using assms by (auto simp: net_shape_def map_update_same)

lemma net_shape_at:
  "net_shape nc \<Longrightarrow> s < length (switches nc) \<Longrightarrow> sw_shaped (switchPorts nc) (numNodes nc) (switches nc ! s)"
  unfolding net_shape_def by (metis nth_mem)

lemma routes_ok_ports [simp]:
  "routes_ok (sw\<lparr>outputPorts := ps\<rparr>) = routes_ok sw" "routes_ok (sw\<lparr>inputPorts := qs\<rparr>) = routes_ok sw"
  by (simp_all add: routes_ok_def)

lemma sw_shaped_ports:
  "sw_shaped P N sw \<Longrightarrow> length ps = length (outputPorts sw) \<Longrightarrow> sw_shaped P N (sw\<lparr>outputPorts := ps\<rparr>)"
  "sw_shaped P N sw \<Longrightarrow> length qs = length (inputPorts sw) \<Longrightarrow> sw_shaped P N (sw\<lparr>inputPorts := qs\<rparr>)"
  by (simp_all add: sw_shaped_def)

lemma net_shape_set_out:
  assumes "net_shape nc"
  shows "net_shape (set_out r q nc)" "net_shape (set_in r i nc)"
proof -
  have "net_shape (nc\<lparr>switches := (switches nc)[s := f (switches nc ! s)]\<rparr>)"
    if "\<And>sw. sw_shaped (switchPorts nc) (numNodes nc) sw \<Longrightarrow> sw_shaped (switchPorts nc) (numNodes nc) (f sw)"
    for s f
    using net_shape_switch [OF assms] that net_shape_at [OF assms, of s] assms
    by (cases "s < length (switches nc)") (simp_all add: list_update_beyond not_less)
  note sw = this [of "\<lambda>sw. sw\<lparr>outputPorts := (outputPorts sw)[p := q]\<rparr>" for p]
    this [of "\<lambda>sw. sw\<lparr>inputPorts := (inputPorts sw)[p := i]\<rparr>" for p]
  show "net_shape (set_out r q nc)" "net_shape (set_in r i nc)"
    using sw net_shape_node [OF assms]
    by (auto simp: set_out_def set_in_def sw_shaped_ports split: port_ref.split)
qed

section \<open>Every statement keeps the shape\<close>

lemma setFromPort_shape:
  "setFromPort k r nc = Inr nc' \<Longrightarrow> net_shape nc \<Longrightarrow> net_shape nc'"
  "setToPort k r nc = Inr nc' \<Longrightarrow> net_shape nc \<Longrightarrow> net_shape nc'"
  using net_shape_set_out by (auto simp: setFromPort_def setToPort_def split: if_splits)

lemma attachChannel_shape:
  "attachChannel k sw port i nc = Inr nc' \<Longrightarrow> net_shape nc \<Longrightarrow> net_shape nc'"
  using setFromPort_shape by (auto simp: attachChannel_def split: if_splits)

lemma attachSwitchChannels_shape:
  "attachSwitchChannels sw port d nc = Inr nc' \<Longrightarrow> net_shape nc \<Longrightarrow> net_shape nc'"
  using attachChannel_shape by (auto simp: attachSwitchChannels_def)

lemma set_divider_shape: "set_divider k nc = Inr nc' \<Longrightarrow> net_shape nc \<Longrightarrow> net_shape nc'"
  by (auto simp: set_divider_def)

lemma attachNodeChannels_shape:
  "attachNodeChannels n nc = Inr nc' \<Longrightarrow> net_shape nc \<Longrightarrow> net_shape nc'"
  using setFromPort_shape set_divider_shape by (auto simp: attachNodeChannels_def Let_def split: if_splits)

lemma set_local_delay_shape:
  "set_local_delay s p nc = Inr nc' \<Longrightarrow> net_shape nc \<Longrightarrow> net_shape nc'"
  using net_shape_at [of nc "nat s"]
  by (auto simp: set_local_delay_def setLocalDelayOnly_def lookup_vec_def split: if_splits
      intro!: net_shape_switch sw_shaped_ports)

lemmas attach_shape = attachNodeChannels_shape attachSwitchChannels_shape set_local_delay_shape

lemma handleTopology_shape:
  assumes "handleTopology src dst nc = Inr nc'" "net_shape nc"
  shows "net_shape nc'"
proof (cases src)
  case (TopNode n)
  then show ?thesis using assms
    by (cases dst) (auto simp: handleTopology_def readTopSrcDest_def split: if_splits dest!: attach_shape)
next
  case (TopSwitch s p)
  then show ?thesis using assms
    by (cases dst) (auto simp: handleTopology_def readTopSrcDest_def split: if_splits dest!: attach_shape)
qed

lemma addRoutingEntry_shape:
  assumes "addRoutingEntry node port vc sw = Inr sw'" "sw_shaped P N sw"
  shows "sw_shaped P N sw'"
proof -
  let ?n = "nat node"
  obtain ps vs where a: "0 \<le> node" "node < int (sw_numNodes sw)" "0 \<le> port" "port < int (sw_numPorts sw)"
    "0 \<le> vc" "vc < 2" "add_entry port vc (routingTable sw ! ?n) (vcTable sw ! ?n) = Some (ps, vs)"
    "sw' = sw\<lparr>routingTable := (routingTable sw)[?n := ps], vcTable := (vcTable sw)[?n := vs]\<rparr>"
    using assms(1) by (auto simp: addRoutingEntry_def lookup_vec_def split: if_splits option.splits)
  have r: "routes_ok sw" using assms(2) by (simp add: sw_shaped_def)
  have l: "?n < length (routingTable sw)" "?n < length (vcTable sw)"
    using a(1,2) r by (simp_all add: routes_ok_def)
  have z: "set (zip ps vs) \<subseteq> insert (port, vc) (set (zip (routingTable sw ! ?n) (vcTable sw ! ?n)))"
    using add_entry_ok [OF a(7,3)] by blast
  have "\<forall>(p, v) \<in> set (zip ((routingTable sw)[?n := ps] ! i) ((vcTable sw)[?n := vs] ! i)).
      p < 0 \<or> (p < int (sw_numPorts sw) \<and> 0 \<le> v \<and> v < 2)" if "i < sw_numNodes sw" for i
  proof (cases "i = ?n")
    case True
    have "\<forall>(p, v) \<in> set (zip (routingTable sw ! ?n) (vcTable sw ! ?n)).
        p < 0 \<or> (p < int (sw_numPorts sw) \<and> 0 \<le> v \<and> v < 2)"
      using r that True unfolding routes_ok_def by blast
    then show ?thesis using True l z a(3-6) by auto
  next
    case False
    then show ?thesis using r that unfolding routes_ok_def by simp
  qed
  then have "routes_ok sw'" using r a(8) by (simp add: routes_ok_def)
  then show ?thesis using assms(2) a(8) by (simp add: sw_shaped_def)
qed

lemma route_list_shape:
  "route_list sw node es nc = Inr nc' \<Longrightarrow> net_shape nc \<Longrightarrow> net_shape nc'"
proof (induction es arbitrary: nc)
  case (Cons e es)
  obtain s' where s: "nat sw < length (switches nc)"
    "addRoutingEntry node (fst e) (snd e) (switches nc ! nat sw) = Inr s'"
    "route_list sw node es (nc\<lparr>switches := (switches nc)[nat sw := s']\<rparr>) = Inr nc'"
    using Cons.prems(1) by (cases e) (auto simp: lookup_vec_def split: if_splits)
  have "net_shape (nc\<lparr>switches := (switches nc)[nat sw := s']\<rparr>)"
    using net_shape_switch addRoutingEntry_shape [OF s(2)] net_shape_at s(1) Cons.prems(2) by blast
  then show ?case using Cons.IH s(3) by blast
qed simp

lemma handleRoute_shape:
  "handleRoute sw node es nc = Inr nc' \<Longrightarrow> net_shape nc \<Longrightarrow> net_shape nc'"
  using route_list_shape by (auto simp: handleRoute_def split: if_splits)

lemma new_switches_shape:
  "new_switches is nc = Inr ss \<Longrightarrow> 0 < numNodes nc \<Longrightarrow> 0 < switchPorts nc \<Longrightarrow>
     length ss = length is \<and> (\<forall>sw \<in> set ss. sw_shaped (switchPorts nc) (numNodes nc) sw)"
  by (induction "is" nc arbitrary: ss rule: new_switches.induct)
     (fastforce simp: NetSwitch_new_def sw_shaped_def routes_ok_def set_zip)+

lemma new_nodes_shape: "new_nodes is = Inr ns \<Longrightarrow> map nodeId ns = map int is"
  by (induction "is" arbitrary: ns) (auto simp: NetNode_new_def)

lemma allocate_shape:
  assumes "allocateNetworkStructures nc = Inr nc'" "\<not> validateParameters nc" "numChannels nc = 0"
  shows "net_shape nc'"
proof -
  have v: "0 < numNodes nc" "0 < numSwitches nc" "1 < switchPorts nc"
    using assms(2,3) by (auto simp: validateParameters_def)
  then have c: "0 < numSwitches nc * switchPorts nc" by simp
  obtain ss ns where n: "new_switches [0..<nat (numSwitches nc)] nc = Inr ss"
    "new_nodes [0..<nat (numNodes nc)] = Inr ns"
    "nc' = nc\<lparr>numChannels := (numSwitches nc * switchPorts nc) * 2, maxChannelIndex := 0,
        channels := map (\<lambda>i. \<lparr>chan = Channel_new (int i), fromPort = None, toPort = None\<rparr>)
          [0..<nat ((numSwitches nc * switchPorts nc) * 2)],
        switches := ss, nodes := ns\<rparr>"
    using assms(1,3) by (auto simp: allocateNetworkStructures_def Let_def)
  have "length ns = nat (numNodes nc)" using new_nodes_shape [OF n(2)] by (metis length_map length_upt minus_nat.diff_0)
  then show ?thesis
    using new_switches_shape [OF n(1)] new_nodes_shape [OF n(2)] v c n(3) by (simp add: net_shape_def)
qed

definition built :: "NetContainer \<Rightarrow> bool" where
  "built nc \<longleftrightarrow> (if numChannels nc = 0 then switches nc = [] \<and> nodes nc = [] else net_shape nc)"

lemma net_shape_built: "net_shape nc \<Longrightarrow> built nc"
  by (auto simp: built_def net_shape_def)

lemma validate_after_shape: "validate_after nc = Inr nc' \<Longrightarrow> built nc \<Longrightarrow> net_shape nc'"
  using allocate_shape by (auto simp: validate_after_def built_def split: if_splits)

lemma handle_param_built: "numChannels nc = 0 \<Longrightarrow> built nc \<Longrightarrow> built (handle_param p i nc)"
  by (cases p) (simp_all add: built_def)

lemma readFirstToken_built:
  "readFirstToken st nc = Inr nc' \<Longrightarrow> built nc \<Longrightarrow> built nc'"
  "read_tokens ss nc = Inr nc' \<Longrightarrow> built nc \<Longrightarrow> built nc'"
proof (induction st nc and ss nc arbitrary: nc' and nc' rule: readFirstToken_read_tokens.induct)
  case (1 p i nc)
  then show ?case using handle_param_built by (auto split: if_splits)
next
  case (2 src dst nc)
  then show ?case using validate_after_shape handleTopology_shape net_shape_built by fastforce
next
  case (3 sw node es nc)
  then show ?case using validate_after_shape handleRoute_shape net_shape_built by fastforce
qed auto

section \<open>Validation\<close>

definition row_ok :: "NetSwitch \<Rightarrow> int list \<Rightarrow> bool" where
  "row_ok sw row \<longleftrightarrow> row \<noteq> [] \<and> row ! 0 \<noteq> -1 \<and> (\<forall>e \<in> set row. e = -1 \<or>
     0 \<le> e \<and> nat e < length (outputPorts sw) \<and> connected (outputPorts sw ! nat e))"

lemma foldl_rbind_Inl: "foldl (\<lambda>r x. rbind r (f x)) (Inl e) xs = Inl e"
  by (induction xs) simp_all

lemma foldl_check:
  assumes "\<And>x b. x \<in> set xs \<Longrightarrow> f x b = Inr False \<Longrightarrow> \<not> b \<and> Q x"
    and "foldl (\<lambda>r x. rbind r (f x)) (Inr b) xs = Inr False"
  shows "\<not> b \<and> (\<forall>x \<in> set xs. Q x)"
  using assms
proof (induction xs arbitrary: b)
  case (Cons x xs)
  show ?case
  proof (cases "f x b")
    case (Inl e)
    then show ?thesis using Cons.prems(2) by (simp add: foldl_rbind_Inl)
  next
    case (Inr c)
    then have "foldl (\<lambda>r x. rbind r (f x)) (Inr c) xs = Inr False" using Cons.prems(2) by simp
    moreover have "\<And>x b. x \<in> set xs \<Longrightarrow> f x b = Inr False \<Longrightarrow> \<not> b \<and> Q x" by (rule Cons.prems(1)) auto
    ultimately have "\<not> c \<and> (\<forall>x \<in> set xs. Q x)" using Cons.IH by blast
    then show ?thesis using Cons.prems(1) [of x b] Inr by simp
  qed
qed simp

lemma checkRoutingTable_ok:
  assumes "checkRoutingTable sw = Inr False" "row \<in> set (routingTable sw)"
  shows "row_ok sw row"
proof -
  have "\<not> False \<and> (\<forall>row \<in> set (routingTable sw). row_ok sw row)"
  proof (rule foldl_check [OF _ assms(1) [unfolded checkRoutingTable_def]])
    fix row b
    assume "rbind (lookup_vec row 0) (\<lambda>e0. foldl (\<lambda>r e. rbind r (\<lambda>found.
            if e \<noteq> -1 then
              (if e < 0 then Inl OutOfRange
               else rbind (lookup_vec (outputPorts sw) (nat e)) (\<lambda>p. Inr (found \<or> \<not> connected p)))
            else Inr found)) (Inr (b \<or> e0 = -1)) row) = Inr False"
    then have r: "row \<noteq> []" "foldl (\<lambda>r e. rbind r (\<lambda>found.
            if e \<noteq> -1 then
              (if e < 0 then Inl OutOfRange
               else rbind (lookup_vec (outputPorts sw) (nat e)) (\<lambda>p. Inr (found \<or> \<not> connected p)))
            else Inr found)) (Inr (b \<or> row ! 0 = -1)) row = Inr False"
      by (auto simp: lookup_vec_def split: if_splits)
    have "\<not> (b \<or> row ! 0 = -1) \<and> (\<forall>e \<in> set row. e = -1 \<or>
        0 \<le> e \<and> nat e < length (outputPorts sw) \<and> connected (outputPorts sw ! nat e))"
      by (rule foldl_check [OF _ r(2)]) (auto simp: lookup_vec_def split: if_splits)
    then show "\<not> b \<and> row_ok sw row" using r(1) by (simp add: row_ok_def)
  qed
  then show ?thesis using assms(2) by blast
qed

lemma validateNetwork_ok:
  assumes "validateNetwork nc = Inr False"
  shows "\<forall>nd \<in> set (nodes nc). connected (fromNodePort nd) \<and> connected (toNodePort nd)"
    "\<forall>sw \<in> set (switches nc). \<forall>row \<in> set (routingTable sw). row_ok sw row"
proof -
  have v: "foldl (\<lambda>r sw. rbind r (\<lambda>found. rbind (checkRoutingTable sw) (\<lambda>e.
      Inr (found \<or> NetSwitch_checkTopology sw \<or> e))))
    (Inr (\<exists>nd \<in> set (nodes nc). NetNode_checkTopology nd)) (switches nc) = Inr False"
    using assms by (simp add: validateNetwork_def split: if_splits)
  have "\<not> (\<exists>nd \<in> set (nodes nc). NetNode_checkTopology nd) \<and>
      (\<forall>sw \<in> set (switches nc). \<forall>row \<in> set (routingTable sw). row_ok sw row)"
    by (rule foldl_check [OF _ v]) (auto dest: checkRoutingTable_ok)
  then show "\<forall>nd \<in> set (nodes nc). connected (fromNodePort nd) \<and> connected (toNodePort nd)"
    "\<forall>sw \<in> set (switches nc). \<forall>row \<in> set (routingTable sw). row_ok sw row"
    by (auto simp: NetNode_checkTopology_def)
qed

section \<open>Properties\<close>

text \<open>
  C7: a description that \<open>buildNetwork\<close> accepts and that declares nodes gives a well-formed
  network: there are as many nodes, switches and channels as declared, nodes
  are numbered in order, every switch has the declared ports and tables with only existing
  ports and virtual channels, all nodes are connected, and for every destination every switch
  has a first route, to a connected port, and only routes to connected ports.
\<close>

theorem buildNetwork_wellformed:
  assumes "buildNetwork ss NetContainer_new = Inr nc" "0 < numNodes nc"
  shows "net_shape nc \<and>
    (\<forall>nd \<in> set (nodes nc). connected (fromNodePort nd) \<and> connected (toNodePort nd)) \<and>
    (\<forall>sw \<in> set (switches nc). \<forall>row \<in> set (routingTable sw). row_ok sw row)"
proof -
  have v: "validateNetwork nc = Inr False" "read_tokens ss NetContainer_new = Inr nc"
    using assms(1) by (auto simp: buildNetwork_def split: if_splits)
  have "built NetContainer_new" by (simp add: built_def NetContainer_new_def)
  moreover have "nodes nc \<noteq> []" using v(1) assms(2) by (auto simp: validateNetwork_def split: if_splits)
  ultimately have "net_shape nc"
    using readFirstToken_built(2) [OF v(2)] by (auto simp: built_def split: if_splits)
  then show ?thesis using validateNetwork_ok [OF v(1)] by blast
qed

theorem buildNetwork_wellformed_witness:
  "buildNetwork ex_script NetContainer_new = Inr ex_net \<and> 0 < numNodes ex_net \<and> net_shape ex_net"
  using buildNetwork_wellformed [OF ex_net_built] ex_net_built by (simp add: ex_net_def)

text \<open>
  Once the network is allocated, a parameter is an error, wherever it stands in the
  description.
\<close>

theorem late_parameter_reported:
  assumes "read_tokens ss NetContainer_new = Inr nc" "numChannels nc \<noteq> 0"
  shows "buildNetwork (ss @ Param p i # ts) NetContainer_new = Inl Reported"
proof -
  have a: "read_tokens (xs @ ys) nc = rbind (read_tokens xs nc) (read_tokens ys)" for xs ys nc
    by (induction xs arbitrary: nc) (simp_all add: rbind_def split: sum.split)
  show ?thesis using assms by (simp add: buildNetwork_def a)
qed

theorem late_parameter_reported_witness:
  "buildNetwork (ex_script @ [Param NumNodes 3]) NetContainer_new = Inl Reported"
proof -
  have "read_tokens ex_script NetContainer_new = Inr ex_net"
    using ex_net_built by (auto simp: buildNetwork_def split: if_splits)
  then show ?thesis using late_parameter_reported [of ex_script ex_net NumNodes 3 "[]"]
    by (simp add: ex_net_def)
qed

end
