(* ===== verification/Memory_Message.thy ===== *)
theory Memory_Message
  imports Prelude
begin

text \<open>
  Memory messages (\<open>components/Common/Slices/MemoryMessage.hpp\<close> and \<open>.cpp\<close>): the type all
  cache, directory and memory components exchange, the classification of its types and its
  size on the network. A classification that throws for types it does not list returns
  \<open>Inl Thrown\<close>.
\<close>

section \<open>Message types\<close>

text \<open>
  The members of the enumeration, in the groups its comments give.
\<close>

datatype cpu_request =
    LoadReq' | StoreReq' | StorePrefetchReq' | FetchReq' | NonAllocatingStoreReq' | RMWReq' |
    CmpxReq' | AtomicPreloadReq'

datatype front_request =
    FlushReq' | ReadReq' | WriteReq' | WriteAllocate' | UpgradeReq' | UpgradeAllocate' |
    Flush' | EvictDirty' | EvictWritable' | EvictClean' | SVBClean'

datatype cpu_reply =
    LoadReply' | StoreReply' | StorePrefetchReply' | FetchReply' | RMWReply' | CmpxReply' |
    AtomicPreloadReply'

datatype front_reply =
    MissReply' | MissReplyWritable' | MissReplyDirty' | UpgradeReply' | NonAllocatingStoreReply'

datatype back_request =
    Invalidate' | Downgrade' | Probe' | DownProbe' | ReturnReq'

datatype back_reply =
    InvalidateAck' | InvUpdateAck' | DowngradeAck' | DownUpdateAck' | ProbedNotPresent' |
    ProbedClean' | ProbedWritable' | ProbedDirty' | DownProbePresent' | DownProbeNotPresent' |
    ReturnReply'

datatype prefetch_message =
    StreamFetch' | PrefetchReadNoAllocReq' | PrefetchReadAllocReq' | PrefetchInsert' |
    PrefetchInsertWritable' | PrefetchReadReply' | PrefetchWritableReply' |
    PrefetchDirtyReply' | PrefetchReadRedundant' | StreamFetchWritableReply' |
    StreamFetchRejected'

datatype forward_message =
    ReturnNAck' | ReturnReplyDirty' | FetchFwd' | ReadFwd' | WriteFwd' | FwdNAck' | FwdReply' |
    FwdReplyOwned' | FwdReplyWritable' | FwdReplyDirty'

datatype ack_message =
    ReadAck' | ReadAckDirty' | FetchAck' | FetchAckDirty' | WriteAck' | UpgradeAck' | NASAck' |
    ReadNAck' | FetchNAck' | WriteNAck' | UpgradeNAck' | NASNAck'

datatype notify_message =
    MissNotify' | MissNotifyData' | BackInvalidate' | InvalidateNAck' | ProtocolMessage' |
    EvictAck' | WriteRetry' | NumMemoryMessageTypes'

datatype MemoryMessageType =
    CpuRequest cpu_request | FrontRequest front_request | CpuReply cpu_reply | FrontReply front_reply
  | BackRequest back_request | BackReply back_reply | Prefetch prefetch_message
  | Forward forward_message | Ack ack_message | Notify notify_message

abbreviation LoadReq :: MemoryMessageType where "LoadReq \<equiv> CpuRequest LoadReq'"
abbreviation StoreReq :: MemoryMessageType where "StoreReq \<equiv> CpuRequest StoreReq'"
abbreviation StorePrefetchReq :: MemoryMessageType where "StorePrefetchReq \<equiv> CpuRequest StorePrefetchReq'"
abbreviation FetchReq :: MemoryMessageType where "FetchReq \<equiv> CpuRequest FetchReq'"
abbreviation NonAllocatingStoreReq :: MemoryMessageType where "NonAllocatingStoreReq \<equiv> CpuRequest NonAllocatingStoreReq'"
abbreviation RMWReq :: MemoryMessageType where "RMWReq \<equiv> CpuRequest RMWReq'"
abbreviation CmpxReq :: MemoryMessageType where "CmpxReq \<equiv> CpuRequest CmpxReq'"
abbreviation AtomicPreloadReq :: MemoryMessageType where "AtomicPreloadReq \<equiv> CpuRequest AtomicPreloadReq'"

abbreviation FlushReq :: MemoryMessageType where "FlushReq \<equiv> FrontRequest FlushReq'"
abbreviation ReadReq :: MemoryMessageType where "ReadReq \<equiv> FrontRequest ReadReq'"
abbreviation WriteReq :: MemoryMessageType where "WriteReq \<equiv> FrontRequest WriteReq'"
abbreviation WriteAllocate :: MemoryMessageType where "WriteAllocate \<equiv> FrontRequest WriteAllocate'"
abbreviation UpgradeReq :: MemoryMessageType where "UpgradeReq \<equiv> FrontRequest UpgradeReq'"
abbreviation UpgradeAllocate :: MemoryMessageType where "UpgradeAllocate \<equiv> FrontRequest UpgradeAllocate'"
abbreviation Flush :: MemoryMessageType where "Flush \<equiv> FrontRequest Flush'"
abbreviation EvictDirty :: MemoryMessageType where "EvictDirty \<equiv> FrontRequest EvictDirty'"
abbreviation EvictWritable :: MemoryMessageType where "EvictWritable \<equiv> FrontRequest EvictWritable'"
abbreviation EvictClean :: MemoryMessageType where "EvictClean \<equiv> FrontRequest EvictClean'"
abbreviation SVBClean :: MemoryMessageType where "SVBClean \<equiv> FrontRequest SVBClean'"

abbreviation LoadReply :: MemoryMessageType where "LoadReply \<equiv> CpuReply LoadReply'"
abbreviation StoreReply :: MemoryMessageType where "StoreReply \<equiv> CpuReply StoreReply'"
abbreviation StorePrefetchReply :: MemoryMessageType where "StorePrefetchReply \<equiv> CpuReply StorePrefetchReply'"
abbreviation FetchReply :: MemoryMessageType where "FetchReply \<equiv> CpuReply FetchReply'"
abbreviation RMWReply :: MemoryMessageType where "RMWReply \<equiv> CpuReply RMWReply'"
abbreviation CmpxReply :: MemoryMessageType where "CmpxReply \<equiv> CpuReply CmpxReply'"
abbreviation AtomicPreloadReply :: MemoryMessageType where "AtomicPreloadReply \<equiv> CpuReply AtomicPreloadReply'"

abbreviation MissReply :: MemoryMessageType where "MissReply \<equiv> FrontReply MissReply'"
abbreviation MissReplyWritable :: MemoryMessageType where "MissReplyWritable \<equiv> FrontReply MissReplyWritable'"
abbreviation MissReplyDirty :: MemoryMessageType where "MissReplyDirty \<equiv> FrontReply MissReplyDirty'"
abbreviation UpgradeReply :: MemoryMessageType where "UpgradeReply \<equiv> FrontReply UpgradeReply'"
abbreviation NonAllocatingStoreReply :: MemoryMessageType where "NonAllocatingStoreReply \<equiv> FrontReply NonAllocatingStoreReply'"

abbreviation Invalidate :: MemoryMessageType where "Invalidate \<equiv> BackRequest Invalidate'"
abbreviation Downgrade :: MemoryMessageType where "Downgrade \<equiv> BackRequest Downgrade'"
abbreviation Probe :: MemoryMessageType where "Probe \<equiv> BackRequest Probe'"
abbreviation DownProbe :: MemoryMessageType where "DownProbe \<equiv> BackRequest DownProbe'"
abbreviation ReturnReq :: MemoryMessageType where "ReturnReq \<equiv> BackRequest ReturnReq'"

abbreviation InvalidateAck :: MemoryMessageType where "InvalidateAck \<equiv> BackReply InvalidateAck'"
abbreviation InvUpdateAck :: MemoryMessageType where "InvUpdateAck \<equiv> BackReply InvUpdateAck'"
abbreviation DowngradeAck :: MemoryMessageType where "DowngradeAck \<equiv> BackReply DowngradeAck'"
abbreviation DownUpdateAck :: MemoryMessageType where "DownUpdateAck \<equiv> BackReply DownUpdateAck'"
abbreviation ProbedNotPresent :: MemoryMessageType where "ProbedNotPresent \<equiv> BackReply ProbedNotPresent'"
abbreviation ProbedClean :: MemoryMessageType where "ProbedClean \<equiv> BackReply ProbedClean'"
abbreviation ProbedWritable :: MemoryMessageType where "ProbedWritable \<equiv> BackReply ProbedWritable'"
abbreviation ProbedDirty :: MemoryMessageType where "ProbedDirty \<equiv> BackReply ProbedDirty'"
abbreviation DownProbePresent :: MemoryMessageType where "DownProbePresent \<equiv> BackReply DownProbePresent'"
abbreviation DownProbeNotPresent :: MemoryMessageType where "DownProbeNotPresent \<equiv> BackReply DownProbeNotPresent'"
abbreviation ReturnReply :: MemoryMessageType where "ReturnReply \<equiv> BackReply ReturnReply'"

abbreviation StreamFetch :: MemoryMessageType where "StreamFetch \<equiv> Prefetch StreamFetch'"
abbreviation PrefetchReadNoAllocReq :: MemoryMessageType where "PrefetchReadNoAllocReq \<equiv> Prefetch PrefetchReadNoAllocReq'"
abbreviation PrefetchReadAllocReq :: MemoryMessageType where "PrefetchReadAllocReq \<equiv> Prefetch PrefetchReadAllocReq'"
abbreviation PrefetchInsert :: MemoryMessageType where "PrefetchInsert \<equiv> Prefetch PrefetchInsert'"
abbreviation PrefetchInsertWritable :: MemoryMessageType where "PrefetchInsertWritable \<equiv> Prefetch PrefetchInsertWritable'"
abbreviation PrefetchReadReply :: MemoryMessageType where "PrefetchReadReply \<equiv> Prefetch PrefetchReadReply'"
abbreviation PrefetchWritableReply :: MemoryMessageType where "PrefetchWritableReply \<equiv> Prefetch PrefetchWritableReply'"
abbreviation PrefetchDirtyReply :: MemoryMessageType where "PrefetchDirtyReply \<equiv> Prefetch PrefetchDirtyReply'"
abbreviation PrefetchReadRedundant :: MemoryMessageType where "PrefetchReadRedundant \<equiv> Prefetch PrefetchReadRedundant'"
abbreviation StreamFetchWritableReply :: MemoryMessageType where "StreamFetchWritableReply \<equiv> Prefetch StreamFetchWritableReply'"
abbreviation StreamFetchRejected :: MemoryMessageType where "StreamFetchRejected \<equiv> Prefetch StreamFetchRejected'"

abbreviation ReturnNAck :: MemoryMessageType where "ReturnNAck \<equiv> Forward ReturnNAck'"
abbreviation ReturnReplyDirty :: MemoryMessageType where "ReturnReplyDirty \<equiv> Forward ReturnReplyDirty'"
abbreviation FetchFwd :: MemoryMessageType where "FetchFwd \<equiv> Forward FetchFwd'"
abbreviation ReadFwd :: MemoryMessageType where "ReadFwd \<equiv> Forward ReadFwd'"
abbreviation WriteFwd :: MemoryMessageType where "WriteFwd \<equiv> Forward WriteFwd'"
abbreviation FwdNAck :: MemoryMessageType where "FwdNAck \<equiv> Forward FwdNAck'"
abbreviation FwdReply :: MemoryMessageType where "FwdReply \<equiv> Forward FwdReply'"
abbreviation FwdReplyOwned :: MemoryMessageType where "FwdReplyOwned \<equiv> Forward FwdReplyOwned'"
abbreviation FwdReplyWritable :: MemoryMessageType where "FwdReplyWritable \<equiv> Forward FwdReplyWritable'"
abbreviation FwdReplyDirty :: MemoryMessageType where "FwdReplyDirty \<equiv> Forward FwdReplyDirty'"

abbreviation ReadAck :: MemoryMessageType where "ReadAck \<equiv> Ack ReadAck'"
abbreviation ReadAckDirty :: MemoryMessageType where "ReadAckDirty \<equiv> Ack ReadAckDirty'"
abbreviation FetchAck :: MemoryMessageType where "FetchAck \<equiv> Ack FetchAck'"
abbreviation FetchAckDirty :: MemoryMessageType where "FetchAckDirty \<equiv> Ack FetchAckDirty'"
abbreviation WriteAck :: MemoryMessageType where "WriteAck \<equiv> Ack WriteAck'"
abbreviation UpgradeAck :: MemoryMessageType where "UpgradeAck \<equiv> Ack UpgradeAck'"
abbreviation NASAck :: MemoryMessageType where "NASAck \<equiv> Ack NASAck'"
abbreviation ReadNAck :: MemoryMessageType where "ReadNAck \<equiv> Ack ReadNAck'"
abbreviation FetchNAck :: MemoryMessageType where "FetchNAck \<equiv> Ack FetchNAck'"
abbreviation WriteNAck :: MemoryMessageType where "WriteNAck \<equiv> Ack WriteNAck'"
abbreviation UpgradeNAck :: MemoryMessageType where "UpgradeNAck \<equiv> Ack UpgradeNAck'"
abbreviation NASNAck :: MemoryMessageType where "NASNAck \<equiv> Ack NASNAck'"

abbreviation MissNotify :: MemoryMessageType where "MissNotify \<equiv> Notify MissNotify'"
abbreviation MissNotifyData :: MemoryMessageType where "MissNotifyData \<equiv> Notify MissNotifyData'"
abbreviation BackInvalidate :: MemoryMessageType where "BackInvalidate \<equiv> Notify BackInvalidate'"
abbreviation InvalidateNAck :: MemoryMessageType where "InvalidateNAck \<equiv> Notify InvalidateNAck'"
abbreviation ProtocolMessage :: MemoryMessageType where "ProtocolMessage \<equiv> Notify ProtocolMessage'"
abbreviation EvictAck :: MemoryMessageType where "EvictAck \<equiv> Notify EvictAck'"
abbreviation WriteRetry :: MemoryMessageType where "WriteRetry \<equiv> Notify WriteRetry'"
abbreviation NumMemoryMessageTypes :: MemoryMessageType where "NumMemoryMessageTypes \<equiv> Notify NumMemoryMessageTypes'"

section \<open>Messages\<close>

datatype tFillLevel = eUnknown | eL1 | eL2 | eL3 | eLocalMem | eRemoteMem | ePrefetchBuffer
  | ePeerL1Cache | eL2Prefetcher | eL1I | eCore | ePeerL2 | eDirectory | NumFillLevels

record MemoryMessage =
  theType :: MemoryMessageType
  theAddress :: u64
  theAssociatedPC :: u64
  theData :: u64
  theReqSize :: int
  theCoreIdx :: int
  theSerial :: u32
  thePriv :: bool
  theAnyInvs :: bool
  theDstream :: bool
  theFillLevel :: tFillLevel
  theOutstandingMessages :: int
  theAckRequired :: bool
  theAckRequiresData :: bool
  theEvictHasData :: bool

text \<open>The serial number of a message is the value of a global counter after its increment.\<close>

definition memoryMessageSerial :: "u32 \<Rightarrow> u32 \<times> u32" where
  "memoryMessageSerial counter = (counter + 1, counter + 1)"

definition MemoryMessage_new ::
    "MemoryMessageType \<Rightarrow> u64 \<Rightarrow> u64 \<Rightarrow> u64 \<Rightarrow> u32 \<Rightarrow> MemoryMessage \<times> u32" where
  "MemoryMessage_new aType anAddress aPC aData counter =
     (let (serial, counter') = memoryMessageSerial counter in
       (\<lparr>theType = aType, theAddress = anAddress, theAssociatedPC = aPC, theData = aData,
         theReqSize = 0, theCoreIdx = 0, theSerial = serial, thePriv = False, theAnyInvs = False,
         theDstream = True, theFillLevel = eUnknown, theOutstandingMessages = 0,
         theAckRequired = True, theAckRequiresData = False, theEvictHasData = False\<rparr>, counter'))"

text \<open>A copy is a new message: it does not keep the core, the fill level and the counters.\<close>

definition MemoryMessage_copy :: "MemoryMessage \<Rightarrow> u32 \<Rightarrow> MemoryMessage \<times> u32" where
  "MemoryMessage_copy aMsg counter =
     (let (serial, counter') = memoryMessageSerial counter in
       (aMsg\<lparr>theCoreIdx := 0, theSerial := serial, theAnyInvs := False, theFillLevel := eUnknown,
         theOutstandingMessages := 0\<rparr>, counter'))"

section \<open>Classification\<close>

definition isRequest :: "MemoryMessageType \<Rightarrow> bool result" where
  "isRequest t =
     (if t \<in> {LoadReq, StoreReq, StorePrefetchReq, NonAllocatingStoreReq, FetchReq, RMWReq, CmpxReq,
        AtomicPreloadReq, FlushReq, ReadReq, WriteReq, WriteAllocate, UpgradeReq,
        UpgradeAllocate, Flush, EvictDirty, EvictWritable, EvictClean, SVBClean, Invalidate,
        Downgrade, Probe, DownProbe, ReturnReq, StreamFetch, PrefetchReadNoAllocReq,
        PrefetchReadAllocReq, PrefetchInsert, PrefetchInsertWritable}
      then Inr True
      else if t \<in> {LoadReply, StoreReply, StorePrefetchReply, FetchReply, RMWReply, CmpxReply,
        AtomicPreloadReply, MissReply, MissReplyWritable, MissReplyDirty, UpgradeReply,
        NonAllocatingStoreReply, InvalidateAck, InvalidateNAck, InvUpdateAck, DowngradeAck,
        DownUpdateAck, ProbedNotPresent, ProbedClean, ProbedWritable, ProbedDirty, ReturnReply,
        PrefetchReadReply, PrefetchWritableReply, PrefetchDirtyReply, PrefetchReadRedundant,
        DownProbePresent, DownProbeNotPresent, StreamFetchWritableReply, StreamFetchRejected}
      then Inr False
      else Inl Thrown)"

definition isWrite :: "MemoryMessageType \<Rightarrow> bool result" where
  "isWrite t =
     (if t \<in> {StoreReq, StorePrefetchReq, NonAllocatingStoreReq, RMWReq, CmpxReq, WriteReq,
        WriteAllocate, UpgradeReq, UpgradeAllocate}
      then Inr True
      else if t \<in> {Flush, EvictDirty, EvictWritable, EvictClean, SVBClean, Invalidate, Downgrade, Probe,
        DownProbe, ReturnReq, StreamFetch, PrefetchReadNoAllocReq, PrefetchReadAllocReq,
        PrefetchInsert, PrefetchInsertWritable, FlushReq, ReadReq, RMWReply, CmpxReply,
        LoadReq, AtomicPreloadReq, LoadReply, AtomicPreloadReply, FetchReq, FetchReply,
        StoreReply, StorePrefetchReply, MissReply, MissReplyWritable, MissReplyDirty,
        UpgradeReply, NonAllocatingStoreReply, InvalidateAck, InvUpdateAck, DowngradeAck,
        DownUpdateAck, ProbedNotPresent, ProbedClean, ProbedWritable, ProbedDirty,
        DownProbePresent, DownProbeNotPresent, ReturnReply, PrefetchReadReply,
        PrefetchWritableReply, PrefetchDirtyReply, PrefetchReadRedundant,
        StreamFetchWritableReply, StreamFetchRejected}
      then Inr False
      else Inl Thrown)"

definition isSnoopType :: "MemoryMessageType \<Rightarrow> bool" where
  "isSnoopType t \<longleftrightarrow>
     t \<in> {Invalidate, Downgrade, InvalidateAck, InvUpdateAck, DowngradeAck, DownUpdateAck}"

definition isAckType :: "MemoryMessageType \<Rightarrow> bool" where
  "isAckType t \<longleftrightarrow>
     t \<in> {ReadAck, FetchAck, WriteAck, UpgradeAck, NASAck}"

definition isEvictType :: "MemoryMessageType \<Rightarrow> bool" where
  "isEvictType t \<longleftrightarrow>
     t \<in> {EvictDirty, EvictWritable, EvictClean}"

definition isProbeType :: "MemoryMessageType \<Rightarrow> bool" where
  "isProbeType t \<longleftrightarrow>
     t \<in> {Probe, ProbedNotPresent, ProbedClean, ProbedWritable, ProbedDirty, DownProbe,
        DownProbePresent, DownProbeNotPresent}"

definition isPrefetchType :: "MemoryMessageType \<Rightarrow> bool" where
  "isPrefetchType t \<longleftrightarrow>
     t \<in> {StreamFetch, PrefetchReadNoAllocReq, PrefetchReadAllocReq, PrefetchInsert,
        PrefetchInsertWritable, PrefetchReadReply, PrefetchWritableReply, PrefetchDirtyReply,
        PrefetchReadRedundant, StreamFetchWritableReply, StreamFetchRejected}"

definition usesSnoopChannel :: "MemoryMessageType \<Rightarrow> bool result" where
  "usesSnoopChannel t =
     (if t \<in> {FlushReq, Flush, EvictDirty, EvictWritable, EvictClean, SVBClean, InvalidateNAck,
        InvalidateAck, InvUpdateAck, DowngradeAck, DownUpdateAck, ProbedNotPresent,
        ProbedClean, ProbedWritable, ProbedDirty, PrefetchInsert, PrefetchInsertWritable,
        DownProbe, ReturnReply}
      then Inr True
      else if t \<in> {LoadReq, AtomicPreloadReq, StoreReq, StorePrefetchReq, NonAllocatingStoreReq, FetchReq,
        RMWReq, CmpxReq, ReadReq, WriteReq, WriteAllocate, UpgradeReq, UpgradeAllocate,
        StreamFetch, PrefetchReadNoAllocReq, PrefetchReadAllocReq, Invalidate, Downgrade,
        Probe, LoadReply, AtomicPreloadReply, StoreReply, StorePrefetchReply, FetchReply,
        RMWReply, CmpxReply, MissReply, MissReplyWritable, MissReplyDirty, UpgradeReply,
        NonAllocatingStoreReply, PrefetchReadReply, PrefetchWritableReply, PrefetchDirtyReply,
        PrefetchReadRedundant, DownProbePresent, DownProbeNotPresent, ReturnReq,
        StreamFetchWritableReply, StreamFetchRejected}
      then Inr False
      else Inl Thrown)"

definition directionToBack :: "MemoryMessageType \<Rightarrow> bool result" where
  "directionToBack t =
     (if t \<in> {LoadReq, AtomicPreloadReq, StoreReq, StorePrefetchReq, NonAllocatingStoreReq, FetchReq,
        RMWReq, CmpxReq, FlushReq, ReadReq, WriteReq, WriteAllocate, UpgradeReq,
        UpgradeAllocate, Flush, EvictDirty, EvictWritable, EvictClean, SVBClean, StreamFetch,
        PrefetchReadNoAllocReq, PrefetchReadAllocReq, PrefetchInsert, PrefetchInsertWritable,
        InvalidateAck, InvUpdateAck, DowngradeAck, DownUpdateAck, ProbedNotPresent,
        ProbedClean, ProbedWritable, ProbedDirty, DownProbe, ReturnReply}
      then Inr True
      else if t \<in> {Invalidate, Downgrade, Probe, LoadReply, AtomicPreloadReply, StoreReply,
        StorePrefetchReply, FetchReply, RMWReply, CmpxReply, MissReply, MissReplyWritable,
        MissReplyDirty, UpgradeReply, NonAllocatingStoreReply, PrefetchReadReply,
        PrefetchWritableReply, PrefetchDirtyReply, PrefetchReadRedundant, DownProbePresent,
        DownProbeNotPresent, ReturnReq, StreamFetchWritableReply, StreamFetchRejected}
      then Inr False
      else Inl Thrown)"

text \<open>The bytes a message takes on the network; \<open>-1\<close> for the types that never travel there.\<close>

definition HEADER_SIZE :: int where
  "HEADER_SIZE = 8"

definition messageSize :: "MemoryMessage \<Rightarrow> int" where
  "messageSize m =
     (if theType m \<in> {FetchReq, ReadReq, WriteReq, UpgradeReq, EvictWritable, EvictClean, UpgradeReply,
        NonAllocatingStoreReply, Invalidate, InvalidateAck, InvalidateNAck, FetchFwd, ReadFwd,
        WriteFwd, FwdNAck, WriteAck, UpgradeAck, NASAck, ReadNAck, FetchNAck, WriteNAck, UpgradeNAck,
        NASNAck, MissNotify, BackInvalidate, ProtocolMessage, EvictAck, WriteRetry}
      then HEADER_SIZE
      else if theType m \<in> {ReadAck, FetchAck}
      then (if theAckRequiresData m then HEADER_SIZE + theReqSize m else HEADER_SIZE)
      else if theType m \<in> {ReadAckDirty, FetchAckDirty, MissNotifyData, NonAllocatingStoreReq, FwdReply,
        FwdReplyOwned, FwdReplyWritable, FwdReplyDirty, InvUpdateAck, FetchReply, MissReply,
        MissReplyWritable, MissReplyDirty, EvictDirty}
      then HEADER_SIZE + theReqSize m
      else -1)"

definition directionToFront :: "MemoryMessageType \<Rightarrow> bool result" where
  "directionToFront t = rbind (directionToBack t) (\<lambda>b. Inr (\<not> b))"

definition maxProbe :: "MemoryMessageType \<Rightarrow> MemoryMessageType \<Rightarrow> MemoryMessageType" where
  "maxProbe a b =
     (if a = ProbedDirty \<or> b = ProbedDirty then ProbedDirty
      else if a = ProbedWritable \<or> b = ProbedWritable then ProbedWritable
      else if a = ProbedClean \<or> b = ProbedClean then ProbedClean
      else ProbedNotPresent)"

section \<open>Properties\<close>

lemmas classify = isWrite_def isRequest_def usesSnoopChannel_def directionToBack_def isEvictType_def

text \<open>
  The classifications of message types agree: a write is a request, only messages that
  travel towards the back use the snoop channel, apart from \<open>InvalidateNAck\<close>, and evictions
  are requests to the back that use it, while a type recognised by one of the four that throw is
  recognised by all, with the same exception.
\<close>

theorem classification_consistent:
  "(isWrite t = Inr True \<longrightarrow> isRequest t = Inr True) \<and>
   (usesSnoopChannel t = Inr True \<longrightarrow> directionToBack t = Inr True \<or> t = InvalidateNAck) \<and>
   (isEvictType t \<longrightarrow> isRequest t = Inr True \<and> isWrite t = Inr False \<and>
      usesSnoopChannel t = Inr True \<and> directionToBack t = Inr True) \<and>
   (t \<noteq> InvalidateNAck \<longrightarrow>
      (isRequest t = Inl Thrown \<longleftrightarrow> isWrite t = Inl Thrown) \<and>
      (isRequest t = Inl Thrown \<longleftrightarrow> usesSnoopChannel t = Inl Thrown) \<and>
      (isRequest t = Inl Thrown \<longleftrightarrow> directionToBack t = Inl Thrown))"
proof (cases t)
  case (CpuRequest c)
  then show ?thesis by (cases c) (simp_all add: classify)
next
  case (FrontRequest c)
  then show ?thesis by (cases c) (simp_all add: classify)
next
  case (CpuReply c)
  then show ?thesis by (cases c) (simp_all add: classify)
next
  case (FrontReply c)
  then show ?thesis by (cases c) (simp_all add: classify)
next
  case (BackRequest c)
  then show ?thesis by (cases c) (simp_all add: classify)
next
  case (BackReply c)
  then show ?thesis by (cases c) (simp_all add: classify)
next
  case (Prefetch c)
  then show ?thesis by (cases c) (simp_all add: classify)
next
  case (Forward c)
  then show ?thesis by (cases c) (simp_all add: classify)
next
  case (Ack c)
  then show ?thesis by (cases c) (simp_all add: classify)
next
  case (Notify c)
  then show ?thesis by (cases c) (simp_all add: classify)
qed

definition probe_rank :: "MemoryMessageType \<Rightarrow> nat" where
  "probe_rank t = (if t = ProbedDirty then 3 else if t = ProbedWritable then 2
     else if t = ProbedClean then 1 else 0)"

text \<open>
  \<open>maxProbe\<close> combines two probe replies to the stronger one, and is commutative and
  associative, so that the replies of several caches can be combined in any order.
\<close>

theorem maxProbe_correct:
  "probe_rank (maxProbe a b) = max (probe_rank a) (probe_rank b) \<and> maxProbe a b = maxProbe b a \<and>
   maxProbe (maxProbe a b) c = maxProbe a (maxProbe b c)"
  by (auto simp: maxProbe_def probe_rank_def)

end
