(* ===== verification/Fast_Cache.thy ===== *)
theory Fast_Cache
  imports Memory_Message
begin

text \<open>
  The tag array of the trace mode caches: \<open>components/FastCache/CoherenceStates.hpp\<close>,
  \<open>LookupResult.hpp\<close> and \<open>StdCache.hpp\<close>. A set is a \<open>multi_index_container\<close> of blocks: a
  sequence from least to most recently used, with unique tags and unique ways. An iterator is
  the way of its block, which never changes. What the container does on a conflict is written
  out: an insertion is refused, a modification that creates one erases the block.
\<close>

section \<open>Coherence states\<close>

type_synonym CoherenceState_t = "16 word"

definition kMigratory :: CoherenceState_t where "kMigratory = 0x0F"

definition kModified :: CoherenceState_t where "kModified = 0x07"

definition kOwned :: CoherenceState_t where "kOwned = 0x05"

definition kExclusive :: CoherenceState_t where "kExclusive = 0x03"

definition kShared :: CoherenceState_t where "kShared = 0x01"

definition kInvalid :: CoherenceState_t where "kInvalid = 0x00"

definition kValid_Bit :: CoherenceState_t where "kValid_Bit = 0x1"

lemmas state_defs = kMigratory_def kModified_def kOwned_def kExclusive_def kShared_def kInvalid_def

definition Short2State :: "CoherenceState_t \<Rightarrow> string" where
  "Short2State s =
     (if s = kMigratory then ''Migratory'' else if s = kModified then ''Modified''
      else if s = kOwned then ''Owned'' else if s = kExclusive then ''Exclusive''
      else if s = kShared then ''Shared'' else if s = kInvalid then ''Invalid'' else ''Unknown'')"

definition isValid :: "CoherenceState_t \<Rightarrow> bool" where
  "isValid s \<longleftrightarrow> (s AND kValid_Bit) \<noteq> 0"

section \<open>Sets of blocks\<close>

text \<open>
  The way of a block is a \<open>uint16_t\<close>: its constructor cuts what it is given to 16 bits, so that
  way 65536 of a set is way 0 again.
\<close>

definition way16 :: "nat \<Rightarrow> nat" where
  "way16 w = w mod 65536"

lemma way16_less [simp]: "w < 65536 \<Longrightarrow> way16 w = w"
  by (simp add: way16_def)

record BlockEntry =
  be_tag :: u64
  be_state :: CoherenceState_t
  be_way :: nat

type_synonym block_set_t = "BlockEntry list"

definition find_tag :: "u64 \<Rightarrow> block_set_t \<Rightarrow> BlockEntry option" where
  "find_tag t bs = find (\<lambda>b. be_tag b = t) bs"

definition find_way :: "nat \<Rightarrow> block_set_t \<Rightarrow> BlockEntry result" where
  "find_way w bs = (case find (\<lambda>b. be_way b = w) bs of None \<Rightarrow> Inl OutOfRange | Some b \<Rightarrow> Inr b)"

definition conflicts :: "BlockEntry \<Rightarrow> block_set_t \<Rightarrow> BlockEntry option" where
  "conflicts b bs = find (\<lambda>x. be_tag x = be_tag b \<or> be_way x = be_way b) bs"

definition push_front :: "BlockEntry \<Rightarrow> block_set_t \<Rightarrow> block_set_t \<times> nat" where
  "push_front b bs = (case conflicts b bs of None \<Rightarrow> (b # bs, be_way b) | Some x \<Rightarrow> (bs, be_way x))"

definition push_back :: "BlockEntry \<Rightarrow> block_set_t \<Rightarrow> block_set_t" where
  "push_back b bs = (case conflicts b bs of None \<Rightarrow> bs @ [b] | Some x \<Rightarrow> bs)"

definition modify_block :: "nat \<Rightarrow> (BlockEntry \<Rightarrow> BlockEntry) \<Rightarrow> block_set_t \<Rightarrow> block_set_t result" where
  "modify_block w f bs = rbind (find_way w bs) (\<lambda>b.
     if \<exists>x \<in> set bs. be_way x \<noteq> w \<and> be_tag x = be_tag (f b)
     then Inr (filter (\<lambda>x. be_way x \<noteq> w) bs)
     else Inr (map (\<lambda>x. if be_way x = w then f x else x) bs))"

definition relocate_tail :: "nat \<Rightarrow> block_set_t \<Rightarrow> block_set_t result" where
  "relocate_tail w bs = rbind (find_way w bs) (\<lambda>b. Inr (filter (\<lambda>x. be_way x \<noteq> w) bs @ [b]))"

definition relocate_head :: "nat \<Rightarrow> block_set_t \<Rightarrow> block_set_t result" where
  "relocate_head w bs = rbind (find_way w bs) (\<lambda>b. Inr (b # filter (\<lambda>x. be_way x \<noteq> w) bs))"

definition ChangeBlockState :: "CoherenceState_t \<Rightarrow> BlockEntry \<Rightarrow> BlockEntry" where
  "ChangeBlockState s b = b\<lparr>be_state := s\<rparr>"

definition ReplaceBlock :: "u64 \<Rightarrow> CoherenceState_t \<Rightarrow> BlockEntry \<Rightarrow> BlockEntry" where
  "ReplaceBlock t s b = b\<lparr>be_state := s, be_tag := t\<rparr>"

section \<open>The cache\<close>

record StdCache =
  theNumSets :: nat
  theAssoc :: nat
  theBlockSize :: nat
  blockShift :: nat
  blockSetMask :: u64
  blockTagMask :: u64
  theBlocks :: "block_set_t list"
  theTextFlexpoints :: bool
  theAllocateInProgress :: bool
  theAllocateAddr :: u64

fun log_base2_loop :: "nat \<Rightarrow> nat \<Rightarrow> nat" where
  "log_base2_loop val ret = (if val = 0 then ret else log_base2_loop (val div 2) (ret + 1))"

declare log_base2_loop.simps [simp del]

definition log_base2 :: "nat \<Rightarrow> nat" where
  "log_base2 val = log_base2_loop (val div 2) 0"

definition power_of_two :: "nat \<Rightarrow> bool" where
  "power_of_two n \<longleftrightarrow> (n AND (n - 1)) = 0"

definition StdCache_new :: "nat \<Rightarrow> nat \<Rightarrow> nat \<Rightarrow> bool \<Rightarrow> StdCache result" where
  "StdCache_new aBlockSize aNumSets anAssociativity aTextFlexpoints =
     dbg_assert (anAssociativity > 0) (dbg_assert (aNumSets > 0) (dbg_assert (aBlockSize > 0)
     (dbg_assert (power_of_two aNumSets) (dbg_assert (power_of_two aBlockSize)
       (Inr \<lparr>theNumSets = aNumSets, theAssoc = anAssociativity, theBlockSize = aBlockSize,
             blockShift = log_base2 aBlockSize, blockSetMask = of_nat (aNumSets - 1),
             blockTagMask = NOT (of_nat (aBlockSize - 1)), theBlocks = replicate aNumSets [],
             theTextFlexpoints = aTextFlexpoints, theAllocateInProgress = False,
             theAllocateAddr = 0\<rparr>)))))"

definition get_set :: "StdCache \<Rightarrow> u64 \<Rightarrow> nat" where
  "get_set c addr = unat (drop_bit (blockShift c) addr AND blockSetMask c)"

definition get_tag :: "StdCache \<Rightarrow> u64 \<Rightarrow> u64" where
  "get_tag c addr = addr AND blockTagMask c"

record StdLookupResult =
  lr_address :: u64
  lr_state :: CoherenceState_t
  lr_set :: nat
  lr_block :: nat

definition with_set :: "nat \<Rightarrow> (block_set_t \<Rightarrow> block_set_t result) \<Rightarrow> StdCache \<Rightarrow> StdCache result" where
  "with_set s f c = rbind (lookup_vec (theBlocks c) s) (\<lambda>bs. rbind (f bs) (\<lambda>bs'.
     Inr (c\<lparr>theBlocks := (theBlocks c)[s := bs']\<rparr>)))"

definition StdCache_lookup :: "u64 \<Rightarrow> StdCache \<Rightarrow> (StdCache \<times> StdLookupResult) result" where
  "StdCache_lookup tagset c =
     (let t = get_tag c tagset; s = get_set c tagset in
      rbind (lookup_vec (theBlocks c) s) (\<lambda>bs.
      case find_tag t bs of
        None \<Rightarrow>
          if length bs < theAssoc c then
            (let (bs', w) = push_front \<lparr>be_tag = t, be_state = kInvalid, be_way = way16 (length bs)\<rparr> bs in
             Inr (c\<lparr>theBlocks := (theBlocks c)[s := bs']\<rparr>,
                  \<lparr>lr_address = t, lr_state = kInvalid, lr_set = s, lr_block = w\<rparr>))
          else rbind (lookup_vec bs 0) (\<lambda>b.
             Inr (c, \<lparr>lr_address = t, lr_state = kInvalid, lr_set = s, lr_block = be_way b\<rparr>))
      | Some b \<Rightarrow>
          Inr (c, \<lparr>lr_address = t, lr_state = be_state b, lr_set = s, lr_block = be_way b\<rparr>)))"

definition StdCache_getState :: "StdLookupResult \<Rightarrow> StdCache \<Rightarrow> CoherenceState_t result" where
  "StdCache_getState r c =
     rbind (lookup_vec (theBlocks c) (lr_set r)) (\<lambda>bs. rbind (find_way (lr_block r) bs) (\<lambda>b.
       Inr (if be_tag b = lr_address r then be_state b else lr_state r)))"

definition StdCache_updateLRU :: "StdLookupResult \<Rightarrow> StdCache \<Rightarrow> StdCache result" where
  "StdCache_updateLRU r c = with_set (lr_set r) (relocate_tail (lr_block r)) c"

definition StdCache_updateState ::
    "CoherenceState_t \<Rightarrow> bool \<Rightarrow> bool \<Rightarrow> StdLookupResult \<Rightarrow> StdCache \<Rightarrow> StdCache result" where
  "StdCache_updateState new_state make_MRU make_LRU r c =
     rbind (with_set (lr_set r) (modify_block (lr_block r) (ChangeBlockState new_state)) c) (\<lambda>c.
     if make_MRU then with_set (lr_set r) (relocate_tail (lr_block r)) c
     else if make_LRU then with_set (lr_set r) (relocate_head (lr_block r)) c
     else Inr c)"

text \<open>
  \<open>allocate\<close> evicts through a callback into the component, which may come back to this cache;
  the component holds the cache and its counters, and \<open>'e\<close> stands for everything else.
\<close>

record 'c FastCache =
  fc_cache :: 'c
  theStats :: "string \<Rightarrow> int"
  theEvictMessage :: MemoryMessage
  theInvalidateMessage :: MemoryMessage

type_synonym ('c, 'e) world = "'c FastCache \<times> 'e"

definition on_cache :: "('c \<Rightarrow> 'c result) \<Rightarrow> ('c, 'e) world \<Rightarrow> ('c, 'e) world result" where
  "on_cache f = (\<lambda>(fc, e). rbind (f (fc_cache fc)) (\<lambda>c. Inr (fc\<lparr>fc_cache := c\<rparr>, e)))"

definition StdCache_allocate ::
    "(u64 \<Rightarrow> CoherenceState_t \<Rightarrow> (StdCache, 'e) world \<Rightarrow> (StdCache, 'e) world result) \<Rightarrow>
     CoherenceState_t \<Rightarrow> StdLookupResult \<Rightarrow> (StdCache, 'e) world \<Rightarrow> (StdCache, 'e) world result" where
  "StdCache_allocate evict new_state r = (\<lambda>(fc, e).
     let c = fc_cache fc; new_tag = get_tag c (lr_address r); s = lr_set r; w = lr_block r;
         fc = fc\<lparr>fc_cache := c\<lparr>theAllocateInProgress := True, theAllocateAddr := new_tag\<rparr>\<rparr> in
     rbind (lookup_vec (theBlocks c) s) (\<lambda>bs. rbind (find_way w bs) (\<lambda>b.
     rbind (if be_tag b \<noteq> new_tag then
              rbind (if isValid (be_state b) then evict (be_tag b) (be_state b) (fc, e)
                     else Inr (fc, e))
                (on_cache (with_set s (modify_block w (ReplaceBlock new_tag new_state))))
            else on_cache (with_set s (modify_block w (ChangeBlockState new_state))) (fc, e))
       (on_cache (\<lambda>c. rbind (with_set s (relocate_tail w) c) (\<lambda>c.
          Inr (c\<lparr>theAllocateInProgress := False\<rparr>)))))))"

text \<open>
  \<open>getSetTags\<close> goes through the blocks in the order of the hash table; here it is the order
  of the sequence.
\<close>

definition getSetTags :: "u64 \<Rightarrow> StdCache \<Rightarrow> u64 list result" where
  "getSetTags address c =
     (let s = get_set c address in
      rbind (lookup_vec (theBlocks c) s) (\<lambda>bs.
        Inr ((if theAllocateInProgress c \<and> get_set c (theAllocateAddr c) = s
              then [theAllocateAddr c] else []) @
             map be_tag (filter (\<lambda>b. isValid (be_state b)) bs))))"

section \<open>Saved state\<close>

text \<open>
  \<open>saveState\<close> and \<open>loadState\<close> have two formats, as \<open>theTextFlexpoints\<close> says: in binary a tag and
  a letter for every block (and a way of 8 bits, which is not archived), filled up with invalid
  blocks of tag 0; in text the bits of the state and the tag shifted down. The framing is left
  out: an image is the list of the entries of every set. The signature of a binary
  archive is not the brace the text reader expects, and the reader of archives
  throws on a text.
\<close>

record BlockSerializer =
  bs_tag :: u64
  bs_way :: nat
  bs_state :: char

definition state_letter :: "CoherenceState_t \<Rightarrow> char result" where
  "state_letter s =
     (if s = kModified then Inr CHR ''M'' else if s = kOwned then Inr CHR ''O''
      else if s = kExclusive then Inr CHR ''E'' else if s = kShared then Inr CHR ''S''
      else if s = kInvalid then Inr CHR ''I'' else Inl AssertFailed)"

definition letter_state :: "char \<Rightarrow> CoherenceState_t result" where
  "letter_state l =
     (if l = CHR ''M'' then Inr kModified else if l = CHR ''O'' then Inr kOwned
      else if l = CHR ''E'' then Inr kExclusive else if l = CHR ''S'' then Inr kShared
      else if l = CHR ''I'' then Inr kInvalid else Inl AssertFailed)"

fun save_blocks :: "block_set_t \<Rightarrow> BlockSerializer list result" where
  "save_blocks [] = Inr []"
| "save_blocks (b # bs) =
     rbind (state_letter (be_state b)) (\<lambda>l. rbind (save_blocks bs) (\<lambda>ss.
       Inr (\<lparr>bs_tag = be_tag b, bs_way = be_way b mod 256, bs_state = l\<rparr> # ss)))"

definition save_set :: "nat \<Rightarrow> block_set_t \<Rightarrow> BlockSerializer list result" where
  "save_set assoc bs = rbind (save_blocks bs) (\<lambda>ss.
     Inr (ss @ map (\<lambda>w. \<lparr>bs_tag = 0, bs_way = w mod 256, bs_state = CHR ''I''\<rparr>) [length bs..<assoc]))"

fun map_result :: "('a \<Rightarrow> 'b result) \<Rightarrow> 'a list \<Rightarrow> 'b list result" where
  "map_result f [] = Inr []"
| "map_result f (x # xs) = rbind (f x) (\<lambda>y. rbind (map_result f xs) (\<lambda>ys. Inr (y # ys)))"

fun load_blocks :: "nat \<Rightarrow> BlockSerializer list \<Rightarrow> block_set_t \<Rightarrow> block_set_t result" where
  "load_blocks way [] bs = Inr bs"
| "load_blocks way (s # ss) bs = rbind (letter_state (bs_state s)) (\<lambda>st.
     load_blocks (way + 1) ss (push_back \<lparr>be_tag = bs_tag s, be_state = st, be_way = way16 way\<rparr> bs))"

fun load_sets :: "nat \<Rightarrow> BlockSerializer list list \<Rightarrow> block_set_t list \<Rightarrow> block_set_t list result" where
  "load_sets assoc (s # ss) (bs # bss) =
     rbind (if length s < assoc then Inl Thrown else load_blocks 0 (take assoc s) bs) (\<lambda>b.
     rbind (load_sets assoc ss bss) (\<lambda>bs'. Inr (b # bs')))"
| "load_sets assoc _ [] = Inr []"
| "load_sets assoc [] (bs # bss) = Inl Thrown"

definition save_bits :: "CoherenceState_t \<Rightarrow> nat result" where
  "save_bits s =
     (if s = kModified then Inr 7 else if s = kOwned then Inr 3
      else if s = kExclusive then Inr 5 else if s = kShared then Inr 1
      else if s = kInvalid then Inr 0 else Inl AssertFailed)"

definition load_bits :: "nat \<Rightarrow> CoherenceState_t result" where
  "load_bits n =
     (if n = 7 then Inr kModified else if n = 3 then Inr kOwned
      else if n = 5 then Inr kExclusive else if n = 1 then Inr kShared
      else if n = 0 then Inr kInvalid else Inl AssertFailed)"

definition text_shift :: "StdCache \<Rightarrow> nat" where
  "text_shift c = blockShift c + log_base2 (theNumSets c)"

definition save_set_text :: "StdCache \<Rightarrow> block_set_t \<Rightarrow> (nat \<times> u64) list result" where
  "save_set_text c bs = rbind (map_result (\<lambda>b. rbind (save_bits (be_state b)) (\<lambda>n.
     Inr (n, signed_drop_bit (text_shift c) (be_tag b)))) bs) (\<lambda>ss.
     Inr (ss @ map (\<lambda>_. (0, 0)) [length bs..<theAssoc c]))"

definition text_tag :: "StdCache \<Rightarrow> nat \<Rightarrow> u64 \<Rightarrow> u64" where
  "text_tag c s t = push_bit (text_shift c) t OR scast (push_bit (blockShift c) (of_nat s :: 32 word))"

fun load_set_text :: "StdCache \<Rightarrow> nat \<Rightarrow> nat \<Rightarrow> (nat \<times> u64) list \<Rightarrow> block_set_t \<Rightarrow> block_set_t result" where
  "load_set_text c s way [] bs = Inr bs"
| "load_set_text c s way ((n, t) # ss) bs = rbind (load_bits n) (\<lambda>st.
     load_set_text c s (way + 1) ss (push_back \<lparr>be_tag = text_tag c s t, be_state = st, be_way = way16 way\<rparr> bs))"

fun load_sets_text :: "StdCache \<Rightarrow> nat \<Rightarrow> (nat \<times> u64) list list \<Rightarrow> block_set_t list \<Rightarrow> block_set_t list result" where
  "load_sets_text c s (es # ess) (bs # bss) =
     rbind (load_set_text c s 0 (take (theAssoc c) es) bs) (\<lambda>b.
     if length es \<noteq> theAssoc c then Inl Reported
     else rbind (load_sets_text c (s + 1) ess bss) (\<lambda>bs'. Inr (b # bs')))"
| "load_sets_text c s _ [] = Inr []"
| "load_sets_text c s [] (bs # bss) = Inl Reported"

datatype Flexpoint = TextFlexpoint "(nat \<times> u64) list list" | BinaryFlexpoint nat nat "BlockSerializer list list"

definition StdCache_saveState :: "StdCache \<Rightarrow> Flexpoint result" where
  "StdCache_saveState c =
     (if theTextFlexpoints c then
        rbind (map_result (save_set_text c) (theBlocks c)) (\<lambda>ss. Inr (TextFlexpoint ss))
      else
        rbind (map_result (save_set (theAssoc c)) (theBlocks c)) (\<lambda>ss.
          Inr (BinaryFlexpoint (theNumSets c) (theAssoc c) ss)))"

definition StdCache_loadState :: "Flexpoint \<Rightarrow> StdCache \<Rightarrow> StdCache result" where
  "StdCache_loadState img c =
     (if theTextFlexpoints c then
        case img of BinaryFlexpoint _ _ _ \<Rightarrow> Inl Reported
        | TextFlexpoint ss \<Rightarrow>
            rbind (load_sets_text c 0 ss (theBlocks c)) (\<lambda>bs. Inr (c\<lparr>theBlocks := bs\<rparr>))
      else
        case img of TextFlexpoint _ \<Rightarrow> Inl Thrown
        | BinaryFlexpoint set_count associativity ss \<Rightarrow>
            dbg_assert (set_count = theNumSets c) (dbg_assert (associativity = theAssoc c)
              (rbind (load_sets (theAssoc c) ss (theBlocks c)) (\<lambda>bs. Inr (c\<lparr>theBlocks := bs\<rparr>)))))"

end
