(* ===== verification/Fast_Array.thy ===== *)
theory Fast_Array
  imports Fast_Cache
begin

text \<open>
  What the tag array of the trace mode caches promises. Every set of
  \<open>components/FastCache/StdCache.hpp\<close> is abstracted to the list of its valid tags and states in
  recency order; looking a block up and allocating it is then the textbook fill of a set
  with least recently used replacement, the eviction included. The invariant says that a
  set holds each way once and no tag twice. The second half is the checkpoint format: what
  \<open>saveState\<close> writes, \<open>loadState\<close> reads back.
\<close>

section \<open>Abstract sets\<close>

definition abs_set :: "block_set_t \<Rightarrow> (u64 \<times> CoherenceState_t) list" where
  "abs_set bs = map (\<lambda>b. (be_tag b, be_state b)) bs"

definition spec_touch :: "'k \<Rightarrow> ('k \<times> 'v) list \<Rightarrow> ('k \<times> 'v) list" where
  "spec_touch t xs = filter (\<lambda>x. fst x \<noteq> t) xs @ filter (\<lambda>x. fst x = t) xs"

definition spec_demote :: "'k \<Rightarrow> ('k \<times> 'v) list \<Rightarrow> ('k \<times> 'v) list" where
  "spec_demote t xs = filter (\<lambda>x. fst x = t) xs @ filter (\<lambda>x. fst x \<noteq> t) xs"

definition spec_set :: "'k \<Rightarrow> 'v \<Rightarrow> ('k \<times> 'v) list \<Rightarrow> ('k \<times> 'v) list" where
  "spec_set t v xs = map (\<lambda>x. if fst x = t then (t, v) else x) xs"

definition spec_fill :: "nat \<Rightarrow> 'k \<Rightarrow> 'v \<Rightarrow> ('k \<times> 'v) list \<Rightarrow> ('k \<times> 'v) list" where
  "spec_fill assoc t v xs =
     (if t \<in> fst ` set xs then filter (\<lambda>x. fst x \<noteq> t) xs
      else if length xs < assoc then xs else tl xs) @ [(t, v)]"

definition set_inv :: "nat \<Rightarrow> block_set_t \<Rightarrow> bool" where
  "set_inv assoc bs \<longleftrightarrow> distinct (map be_tag bs) \<and> distinct (map be_way bs) \<and>
     be_way ` set bs = {..<length bs} \<and> length bs \<le> assoc"

lemma set_invD:
  assumes "set_inv assoc bs"
  shows "x \<in> set bs \<Longrightarrow> y \<in> set bs \<Longrightarrow> be_tag x = be_tag y \<Longrightarrow> x = y"
    "x \<in> set bs \<Longrightarrow> y \<in> set bs \<Longrightarrow> be_way x = be_way y \<Longrightarrow> x = y"
    "x \<in> set bs \<Longrightarrow> be_way x < length bs"
    "length bs \<le> assoc" "distinct bs"
  using assms unfolding set_inv_def by (auto simp: distinct_map inj_on_def)

lemma find_unique:
  assumes "\<And>x y. x \<in> set xs \<Longrightarrow> y \<in> set xs \<Longrightarrow> P x \<Longrightarrow> P y \<Longrightarrow> x = y"
  shows "find P xs = Some b \<longleftrightarrow> b \<in> set xs \<and> P b"
  using assms by (induction xs) auto

lemma filter_single: "distinct xs \<Longrightarrow> b \<in> set xs \<Longrightarrow> filter (\<lambda>x. x = b) xs = [b]"
  by (induction xs) (auto simp: filter_empty_conv)

lemma find_way_Inr:
  assumes "set_inv assoc bs"
  shows "find_way w bs = Inr b \<longleftrightarrow> b \<in> set bs \<and> be_way b = w"
proof -
  have "find (\<lambda>b. be_way b = w) bs = Some b \<longleftrightarrow> b \<in> set bs \<and> be_way b = w"
    by (rule find_unique) (use set_invD(2) [OF assms] in auto)
  then show ?thesis by (auto simp: find_way_def split: option.split)
qed

lemma find_tag_Some:
  assumes "set_inv assoc bs"
  shows "find_tag t bs = Some b \<longleftrightarrow> b \<in> set bs \<and> be_tag b = t"
  unfolding find_tag_def by (rule find_unique) (use set_invD(1) [OF assms] in auto)

lemma find_tag_None: "find_tag t bs = None \<longleftrightarrow> t \<notin> be_tag ` set bs"
  unfolding find_tag_def by (auto simp: find_None_iff)

lemma way_tag:
  assumes "set_inv assoc bs" "b \<in> set bs" "x \<in> set bs"
  shows "be_way x = be_way b \<longleftrightarrow> be_tag x = be_tag b" "be_way x = be_way b \<longleftrightarrow> x = b"
  using set_invD(1,2) [OF assms(1)] assms(2,3) by blast+

lemma filter_way:
  assumes "set_inv assoc bs" "b \<in> set bs"
  shows "filter (\<lambda>x. be_way x \<noteq> be_way b) bs = filter (\<lambda>x. be_tag x \<noteq> be_tag b) bs"
    "filter (\<lambda>x. be_tag x = be_tag b) bs = [b]"
proof -
  show "filter (\<lambda>x. be_way x \<noteq> be_way b) bs = filter (\<lambda>x. be_tag x \<noteq> be_tag b) bs"
    using way_tag(1) [OF assms] by (intro filter_cong) auto
  have "filter (\<lambda>x. be_tag x = be_tag b) bs = filter (\<lambda>x. x = b) bs"
    using way_tag [OF assms] by (intro filter_cong) auto
  then show "filter (\<lambda>x. be_tag x = be_tag b) bs = [b]"
    using assms(2) set_invD(5) [OF assms(1)] by (simp add: filter_single)
qed


section \<open>Operations on a set\<close>

lemma relocate_ok:
  assumes inv: "set_inv assoc bs" and b: "b \<in> set bs"
  shows "\<exists>bs'. relocate_tail (be_way b) bs = Inr bs' \<and> set_inv assoc bs' \<and> set bs' = set bs \<and>
      abs_set bs' = spec_touch (be_tag b) (abs_set bs)"
    "\<exists>bs'. relocate_head (be_way b) bs = Inr bs' \<and> set_inv assoc bs' \<and> set bs' = set bs \<and>
      abs_set bs' = spec_demote (be_tag b) (abs_set bs)"
proof -
  have f: "find_way (be_way b) bs = Inr b" using find_way_Inr [OF inv] b by simp
  let ?r = "filter (\<lambda>x. be_tag x \<noteq> be_tag b) bs"
  have s: "set (?r @ [b]) = set bs" "set (b # ?r) = set bs" using b set_invD(1) [OF inv] by auto
  have l: "length (?r @ [b]) = length bs"
    using sum_length_filter_compl [of "\<lambda>x. be_tag x = be_tag b" bs] filter_way(2) [OF inv b] by simp
  have d: "distinct (map be_tag ?r)" "distinct (map be_way ?r)"
    using inv by (simp_all add: set_inv_def distinct_map inj_on_def)
  have n: "be_tag b \<notin> be_tag ` set ?r" by auto
  have n': "be_way b \<notin> be_way ` set ?r" unfolding filter_way(1) [OF inv b, symmetric] by auto
  have a: "abs_set ?r = filter (\<lambda>x. fst x \<noteq> be_tag b) (abs_set bs)"
    "abs_set [b] = filter (\<lambda>x. fst x = be_tag b) (abs_set bs)"
    using filter_way(2) [OF inv b] by (simp_all add: abs_set_def filter_map comp_def)
  have k: "be_way ` set bs = {..<length bs}" "length bs \<le> assoc" using inv by (simp_all add: set_inv_def)
  have i: "set_inv assoc (?r @ [b])" "set_inv assoc (b # ?r)"
    unfolding set_inv_def s using l d n n' k by simp_all
  have e: "abs_set (?r @ [b]) = spec_touch (be_tag b) (abs_set bs)"
    "abs_set (b # ?r) = spec_demote (be_tag b) (abs_set bs)"
    using a by (simp_all add: spec_touch_def spec_demote_def abs_set_def)
  show "\<exists>bs'. relocate_tail (be_way b) bs = Inr bs' \<and> set_inv assoc bs' \<and> set bs' = set bs \<and>
      abs_set bs' = spec_touch (be_tag b) (abs_set bs)"
    using f filter_way(1) [OF inv b] s i e by (simp add: relocate_tail_def)
  show "\<exists>bs'. relocate_head (be_way b) bs = Inr bs' \<and> set_inv assoc bs' \<and> set bs' = set bs \<and>
      abs_set bs' = spec_demote (be_tag b) (abs_set bs)"
    using f filter_way(1) [OF inv b] s i e by (simp add: relocate_head_def)
qed

lemma modify_ok:
  assumes inv: "set_inv assoc bs" and b: "b \<in> set bs" and w: "be_way (f b) = be_way b"
    and t: "be_tag (f b) = be_tag b \<or> be_tag (f b) \<notin> be_tag ` set bs"
  shows "\<exists>bs'. modify_block (be_way b) f bs = Inr bs' \<and> set_inv assoc bs' \<and> f b \<in> set bs' \<and>
    length bs' = length bs \<and>
    abs_set bs' = map (\<lambda>x. if fst x = be_tag b then (be_tag (f b), be_state (f b)) else x) (abs_set bs)"
proof -
  let ?g = "\<lambda>x. if be_way x = be_way b then f x else x"
  have f: "find_way (be_way b) bs = Inr b" using find_way_Inr [OF inv] b by simp
  have g: "x \<in> set bs \<Longrightarrow> ?g x = (if x = b then f b else x)" for x
    using way_tag(2) [OF inv b] by auto
  have c: "\<not> (\<exists>x \<in> set bs. be_way x \<noteq> be_way b \<and> be_tag x = be_tag (f b))"
    using t way_tag(1) [OF inv b] by (metis image_eqI)
  have m: "map ?g bs = map (\<lambda>x. if x = b then f b else x) bs" using g by (intro map_cong) auto
  have ways: "map be_way (map ?g bs) = map be_way bs" unfolding m using w by auto
  have "inj_on (\<lambda>x. be_tag (if x = b then f b else x)) (set bs)"
    using c w set_invD(1) [OF inv] way_tag(2) [OF inv b] t unfolding inj_on_def by (metis image_eqI)
  then have "distinct (map be_tag (map ?g bs))"
    unfolding m using set_invD(5) [OF inv] by (simp add: distinct_map comp_def)
  moreover have "be_way ` set (map ?g bs) = be_way ` set bs" using ways by (metis set_map)
  moreover have "distinct (map be_way (map ?g bs))"
    unfolding ways using inv unfolding set_inv_def by blast
  ultimately have i: "set_inv assoc (map ?g bs)"
    using inv unfolding set_inv_def length_map by metis
  have a: "abs_set (map ?g bs) =
      map (\<lambda>x. if fst x = be_tag b then (be_tag (f b), be_state (f b)) else x) (abs_set bs)"
    unfolding m abs_set_def using way_tag [OF inv b] by auto
  have "f b \<in> set (map ?g bs)" using b by force
  moreover have "modify_block (be_way b) f bs = Inr (map ?g bs)"
    by (simp only: modify_block_def f rbind_Inr c if_False)
  ultimately show ?thesis using i a by (metis length_map)
qed

section \<open>Geometry\<close>

definition geometry :: "StdCache \<Rightarrow> bool" where
  "geometry c \<longleftrightarrow> 0 < theNumSets c \<and> theNumSets c < 2 ^ 32 \<and> 0 < theAssoc c \<and> theAssoc c \<le> 65536 \<and>
     blockSetMask c = of_nat (theNumSets c - 1) \<and> blockTagMask c = NOT (mask (blockShift c))"

definition cache_inv :: "StdCache \<Rightarrow> bool" where
  "cache_inv c \<longleftrightarrow> geometry c \<and> length (theBlocks c) = theNumSets c \<and>
     (\<forall>bs \<in> set (theBlocks c). set_inv (theAssoc c) bs)"

lemma get_set_less:
  assumes "geometry c"
  shows "get_set c a < theNumSets c"
proof -
  have "unat (x AND blockSetMask c) \<le> unat (blockSetMask c)" for x
    using word_and_le2 [of "blockSetMask c" x] word_and_le1 [of "blockSetMask c" x] by (simp add: word_le_nat_alt ac_simps)
  moreover have "unat (blockSetMask c) = theNumSets c - 1"
  proof -
    have "theNumSets c - 1 < 2 ^ LENGTH(64)" using assms by (auto simp: geometry_def)
    then have "unat (of_nat (theNumSets c - 1) :: u64) = theNumSets c - 1"
      by (simp only: unat_of_nat mod_less)
    then show ?thesis using assms unfolding geometry_def by metis
  qed
  ultimately show ?thesis using assms unfolding get_set_def geometry_def
    by (metis Suc_pred' less_Suc_eq_le)
qed

lemma get_tag_idem [simp]:
  assumes "geometry c"
  shows "get_tag c (get_tag c a) = get_tag c a" "get_set c (get_tag c a) = get_set c a"
proof -
  show "get_tag c (get_tag c a) = get_tag c a" by (simp add: get_tag_def ac_simps)
  have "drop_bit n (a AND NOT (mask n)) = drop_bit n a" for n
    by (rule bit_eqI) (auto simp: bit_simps dest: bit_imp_le_length)
  then show "get_set c (get_tag c a) = get_set c a"
    using assms by (simp add: get_tag_def get_set_def geometry_def)
qed

lemma same_tag_same_set: "geometry c \<Longrightarrow> get_tag c a = get_tag c a' \<Longrightarrow> get_set c a = get_set c a'"
  using get_tag_idem(2) by metis

lemma cache_inv_set:
  assumes "cache_inv c"
  shows "geometry c" "s < theNumSets c \<Longrightarrow> s < length (theBlocks c)"
    "s < theNumSets c \<Longrightarrow> set_inv (theAssoc c) (theBlocks c ! s)"
  using assms by (auto simp: cache_inv_def)

lemma geometry_upd [simp]:
  "geometry (c\<lparr>theBlocks := bs\<rparr>) = geometry c"
  "geometry (c\<lparr>theAllocateInProgress := p\<rparr>) = geometry c"
  "geometry (c\<lparr>theAllocateAddr := d\<rparr>) = geometry c"
  "get_set (c\<lparr>theBlocks := bs\<rparr>) = get_set c" "get_tag (c\<lparr>theBlocks := bs\<rparr>) = get_tag c"
  "get_set (c\<lparr>theAllocateInProgress := p\<rparr>) = get_set c"
  "get_tag (c\<lparr>theAllocateInProgress := p\<rparr>) = get_tag c"
  "get_set (c\<lparr>theAllocateAddr := d\<rparr>) = get_set c" "get_tag (c\<lparr>theAllocateAddr := d\<rparr>) = get_tag c"
  "cache_inv (c\<lparr>theAllocateInProgress := p\<rparr>) = cache_inv c"
  "cache_inv (c\<lparr>theAllocateAddr := d\<rparr>) = cache_inv c"
  by (simp_all add: geometry_def cache_inv_def get_set_def get_tag_def fun_eq_iff)

lemma cache_inv_update:
  assumes "cache_inv c" "set_inv (theAssoc c) bs"
  shows "cache_inv (c\<lparr>theBlocks := (theBlocks c)[s := bs]\<rparr>)"
  using assms set_update_subset_insert [of "theBlocks c" s bs] by (auto simp: cache_inv_def)

lemma power_of_two_iff: "0 < n \<Longrightarrow> power_of_two n \<Longrightarrow> \<exists>k. n = 2 ^ k"
proof (induction n rule: less_induct)
  case (less n)
  show ?case
  proof (cases "odd n")
    case True
    then have "(n - 1) div 2 = n div 2" "even (n - 1)" by presburger+
    then have "n AND (n - 1) = 2 * (n div 2)" by (subst and_rec) simp
    then have "n = 1" using less.prems True by (simp add: power_of_two_def)
    then show ?thesis by (intro exI [of _ 0]) simp
  next
    case False
    have d: "(n - 1) div 2 = n div 2 - 1" "0 < n div 2" "n div 2 < n"
      using False less.prems(1) by presburger+
    have "n AND (n - 1) = 2 * (n div 2 AND (n div 2 - 1))"
      using False by (subst and_rec) (simp add: d(1) [unfolded One_nat_def])
    then have "power_of_two (n div 2)" using less.prems(2) by (simp add: power_of_two_def)
    from less.IH [OF d(3,2) this] obtain k where "n div 2 = 2 ^ k" by blast
    then have "n = 2 ^ Suc k" using False by (metis dvd_mult_div_cancel power_Suc)
    then show ?thesis by blast
  qed
qed

lemma log_base2_power: "log_base2 (2 ^ k) = k"
proof -
  have "log_base2_loop (2 ^ k div 2) r = k + r" for r
  proof (induction k arbitrary: r)
    case 0
    then show ?case by (subst log_base2_loop.simps) simp
  next
    case (Suc k)
    have "log_base2_loop (2 ^ k) r = log_base2_loop (2 ^ k div 2) (r + 1)"
      by (subst log_base2_loop.simps) simp
    then show ?case using Suc by simp
  qed
  then show ?thesis by (simp add: log_base2_def)
qed

lemma StdCache_new_inv:
  assumes "StdCache_new bsize sets assoc text = Inr c" "sets < 2 ^ 32" "bsize < 2 ^ 32" "assoc \<le> 65536"
  shows "cache_inv c" "theNumSets c = sets" "theAssoc c = assoc" "2 ^ blockShift c = bsize"
    "\<forall>bs \<in> set (theBlocks c). bs = []"
proof -
  have a: "0 < sets" "0 < assoc" "0 < bsize" "power_of_two bsize"
    and c: "c = \<lparr>theNumSets = sets, theAssoc = assoc, theBlockSize = bsize,
             blockShift = log_base2 bsize, blockSetMask = of_nat (sets - 1),
             blockTagMask = NOT (of_nat (bsize - 1)), theBlocks = replicate sets [],
             theTextFlexpoints = text, theAllocateInProgress = False, theAllocateAddr = 0\<rparr>"
    using assms(1) by (auto simp: StdCache_new_def)
  obtain k where k: "bsize = 2 ^ k" using power_of_two_iff a by blast
  have "(of_nat (2 ^ k - 1) :: u64) = mask k"
    by (simp add: mask_eq_exp_minus_1 of_nat_diff)
  then show "cache_inv c" using a assms(2,4) k
    by (simp add: c cache_inv_def geometry_def log_base2_power set_inv_def)
  show "theNumSets c = sets" "theAssoc c = assoc" "2 ^ blockShift c = bsize" "\<forall>bs \<in> set (theBlocks c). bs = []"
    by (simp_all add: c k log_base2_power)
qed

section \<open>Operations of the cache\<close>

definition abs_cache :: "StdCache \<Rightarrow> nat \<Rightarrow> (u64 \<times> CoherenceState_t) list" where
  "abs_cache c s = abs_set (theBlocks c ! s)"

definition state_of :: "StdCache \<Rightarrow> u64 \<Rightarrow> CoherenceState_t" where
  "state_of c a = (case map_of (abs_cache c (get_set c a)) (get_tag c a) of None \<Rightarrow> kInvalid | Some s \<Rightarrow> s)"

lemma with_set_ok:
  assumes "cache_inv c" "s < theNumSets c" "f (theBlocks c ! s) = Inr bs"
  shows "with_set s f c = Inr (c\<lparr>theBlocks := (theBlocks c)[s := bs]\<rparr>)"
  using assms cache_inv_set(2) [OF assms(1,2)] by (simp add: with_set_def lookup_vec_def)

lemma abs_cache_update:
  assumes "cache_inv c" "s < theNumSets c"
  shows "abs_cache (c\<lparr>theBlocks := (theBlocks c)[s := bs]\<rparr>) = (abs_cache c)(s := abs_set bs)"
  using cache_inv_set(2) [OF assms] by (auto simp: abs_cache_def fun_eq_iff)

lemma abs_cache_upd [simp]:
  "abs_cache (c\<lparr>theAllocateInProgress := p\<rparr>) = abs_cache c"
  "abs_cache (c\<lparr>theAllocateAddr := d\<rparr>) = abs_cache c"
  by (simp_all add: abs_cache_def fun_eq_iff)

lemma abs_tags: "fst ` set (abs_set bs) = be_tag ` set bs"
  by (force simp: abs_set_def)

lemma map_of_abs:
  assumes "set_inv assoc bs" "b \<in> set bs"
  shows "map_of (abs_set bs) (be_tag b) = Some (be_state b)"
proof -
  have "distinct (map fst (abs_set bs))" using assms(1) by (simp add: set_inv_def abs_set_def comp_def)
  moreover have "(be_tag b, be_state b) \<in> set (abs_set bs)" using assms(2) by (force simp: abs_set_def)
  ultimately show ?thesis by simp
qed

lemma lookup_hit:
  assumes inv: "cache_inv c" and b: "b \<in> set (theBlocks c ! get_set c a)" "be_tag b = get_tag c a"
  shows "StdCache_lookup a c = Inr (c, \<lparr>lr_address = get_tag c a, lr_state = be_state b,
      lr_set = get_set c a, lr_block = be_way b\<rparr>)"
proof -
  note s = cache_inv_set [OF inv] and g = get_set_less [OF cache_inv_set(1) [OF inv], of a]
  have "find_tag (get_tag c a) (theBlocks c ! get_set c a) = Some b"
    using find_tag_Some [OF s(3) [OF g]] b by simp
  then show ?thesis using s(2) [OF g] by (simp add: StdCache_lookup_def lookup_vec_def Let_def)
qed

lemma lookup_miss:
  assumes inv: "cache_inv c" and m: "get_tag c a \<notin> be_tag ` set (theBlocks c ! get_set c a)"
  defines "bs \<equiv> theBlocks c ! get_set c a"
  shows "length bs < theAssoc c \<Longrightarrow> StdCache_lookup a c =
      Inr (c\<lparr>theBlocks := (theBlocks c)[get_set c a := \<lparr>be_tag = get_tag c a, be_state = kInvalid,
             be_way = length bs\<rparr> # bs]\<rparr>,
           \<lparr>lr_address = get_tag c a, lr_state = kInvalid, lr_set = get_set c a, lr_block = length bs\<rparr>)"
    "\<not> length bs < theAssoc c \<Longrightarrow> StdCache_lookup a c =
      Inr (c, \<lparr>lr_address = get_tag c a, lr_state = kInvalid, lr_set = get_set c a,
               lr_block = be_way (hd bs)\<rparr>)"
    "\<not> length bs < theAssoc c \<Longrightarrow> bs \<noteq> []"
proof -
  note s = cache_inv_set [OF inv] and g = get_set_less [OF cache_inv_set(1) [OF inv], of a]
  have f: "find_tag (get_tag c a) bs = None" using m by (simp add: find_tag_None bs_def)
  have w: "be_way x < length bs" if "x \<in> set bs" for x
    using set_invD(3) [OF s(3) [OF g]] that by (simp add: bs_def)
  have l: "lookup_vec (theBlocks c) (get_set c a) = Inr bs" using s(2) [OF g] by (simp add: lookup_vec_def bs_def)
  have "\<forall>x \<in> set bs. be_tag x \<noteq> get_tag c a \<and> be_way x \<noteq> length bs"
    using m w unfolding bs_def by force
  then have "conflicts \<lparr>be_tag = get_tag c a, be_state = kInvalid, be_way = length bs\<rparr> bs = None"
    by (simp add: conflicts_def find_None_iff)
  moreover have "way16 (length bs) = length bs" if "length bs < theAssoc c"
    using that s(1) by (simp add: geometry_def)
  ultimately show "length bs < theAssoc c \<Longrightarrow> StdCache_lookup a c =
      Inr (c\<lparr>theBlocks := (theBlocks c)[get_set c a := \<lparr>be_tag = get_tag c a, be_state = kInvalid,
             be_way = length bs\<rparr> # bs]\<rparr>,
           \<lparr>lr_address = get_tag c a, lr_state = kInvalid, lr_set = get_set c a, lr_block = length bs\<rparr>)"
    using f l by (simp add: StdCache_lookup_def push_front_def lookup_vec_def Let_def)
  show ne: "\<not> length bs < theAssoc c \<Longrightarrow> bs \<noteq> []" using s(1) by (auto simp: geometry_def)
  show "\<not> length bs < theAssoc c \<Longrightarrow> StdCache_lookup a c =
      Inr (c, \<lparr>lr_address = get_tag c a, lr_state = kInvalid, lr_set = get_set c a,
               lr_block = be_way (hd bs)\<rparr>)"
    using f l ne by (simp add: StdCache_lookup_def lookup_vec_def hd_conv_nth Let_def)
qed

lemma set_inv_push:
  assumes "set_inv assoc bs" "t \<notin> be_tag ` set bs" "length bs < assoc"
  shows "set_inv assoc (\<lparr>be_tag = t, be_state = s, be_way = length bs\<rparr> # bs)"
  using assms by (auto simp: set_inv_def lessThan_Suc)

text \<open>A lookup changes no state: a miss at most leaves an invalid block behind.\<close>

lemma lookup_ok:
  assumes inv: "cache_inv c"
  obtains c' r b where "StdCache_lookup a c = Inr (c', r)" "cache_inv c'" "state_of c' = state_of c"
    "lr_address r = get_tag c a" "lr_set r = get_set c a" "lr_state r = state_of c a"
    "theNumSets c' = theNumSets c" "theAssoc c' = theAssoc c" "get_tag c' = get_tag c" "get_set c' = get_set c"
    "b \<in> set (theBlocks c' ! get_set c a)" "be_way b = lr_block r"
    "be_tag b = get_tag c a \<and> be_state b = state_of c a \<or>
     get_tag c a \<notin> be_tag ` set (theBlocks c' ! get_set c a) \<and> state_of c a = kInvalid \<and> c' = c \<and>
     b = hd (theBlocks c ! get_set c a)"
proof (cases "get_tag c a \<in> be_tag ` set (theBlocks c ! get_set c a)")
  case True
  then obtain b where b: "b \<in> set (theBlocks c ! get_set c a)" "be_tag b = get_tag c a" by force
  have "state_of c a = be_state b"
    using map_of_abs [OF cache_inv_set(3) [OF inv get_set_less [OF cache_inv_set(1) [OF inv]]] b(1)] b(2)
    by (simp add: state_of_def abs_cache_def)
  then show thesis using lookup_hit [OF inv b] b inv by (intro that) auto
next
  case False
  note s = cache_inv_set [OF inv] and g = get_set_less [OF cache_inv_set(1) [OF inv], of a]
  let ?bs = "theBlocks c ! get_set c a"
  have none: "map_of (abs_cache c (get_set c a)) (get_tag c a) = None"
    using False abs_tags [of ?bs] by (simp add: abs_cache_def map_of_eq_None_iff)
  then have st: "state_of c a = kInvalid" by (simp add: state_of_def)
  show thesis
  proof (cases "length ?bs < theAssoc c")
    case True
    let ?b = "\<lparr>be_tag = get_tag c a, be_state = kInvalid, be_way = length ?bs\<rparr>"
    let ?c = "c\<lparr>theBlocks := (theBlocks c)[get_set c a := ?b # ?bs]\<rparr>"
    have i: "cache_inv ?c" using cache_inv_update [OF inv] set_inv_push [OF s(3) [OF g]] False True by simp
    have "state_of ?c x = state_of c x" for x
    proof (cases "get_set c x = get_set c a")
      case True
      then show ?thesis
        using none abs_cache_update [OF inv g]
        by (simp add: state_of_def) (auto simp: abs_set_def abs_cache_def)
    next
      case False
      then show ?thesis using abs_cache_update [OF inv g] by (simp add: state_of_def)
    qed
    then have "state_of ?c = state_of c" by (rule ext)
    then show thesis
      using lookup_miss(1) [OF inv False True] i st s(2) [OF g]
      by (intro that [of ?c "\<lparr>lr_address = get_tag c a, lr_state = kInvalid, lr_set = get_set c a,
            lr_block = length ?bs\<rparr>" ?b]) simp_all
  next
    case full: False
    have "hd ?bs \<in> set ?bs" using lookup_miss(3) [OF inv False full] by simp
    then show thesis using lookup_miss(2) [OF inv False full] inv st False by (intro that) auto
  qed
qed

definition handle :: "StdCache \<Rightarrow> StdLookupResult \<Rightarrow> BlockEntry \<Rightarrow> bool" where
  "handle c r b \<longleftrightarrow> lr_set r < theNumSets c \<and> b \<in> set (theBlocks c ! lr_set r) \<and> be_way b = lr_block r"

lemma updateLRU_ok:
  assumes inv: "cache_inv c" and h: "handle c r b"
  shows "\<exists>bs. StdCache_updateLRU r c = Inr (c\<lparr>theBlocks := (theBlocks c)[lr_set r := bs]\<rparr>) \<and>
    set_inv (theAssoc c) bs \<and> set bs = set (theBlocks c ! lr_set r) \<and>
    abs_set bs = spec_touch (be_tag b) (abs_cache c (lr_set r))"
proof -
  have s: "lr_set r < theNumSets c" "b \<in> set (theBlocks c ! lr_set r)" "be_way b = lr_block r"
    using h by (simp_all add: handle_def)
  obtain bs where "relocate_tail (lr_block r) (theBlocks c ! lr_set r) = Inr bs" "set_inv (theAssoc c) bs"
    "set bs = set (theBlocks c ! lr_set r)" "abs_set bs = spec_touch (be_tag b) (abs_cache c (lr_set r))"
    using relocate_ok(1) [OF cache_inv_set(3) [OF inv s(1)] s(2)] s(3) by (auto simp: abs_cache_def)
  then show ?thesis using with_set_ok [OF inv s(1)] by (auto simp: StdCache_updateLRU_def)
qed

definition spec_move :: "bool \<Rightarrow> bool \<Rightarrow> 'k \<Rightarrow> ('k \<times> 'v) list \<Rightarrow> ('k \<times> 'v) list" where
  "spec_move mru lru t xs = (if mru then spec_touch t xs else if lru then spec_demote t xs else xs)"

lemma updateState_ok:
  assumes inv: "cache_inv c" and h: "handle c r b"
  shows "\<exists>bs. StdCache_updateState st mru lru r c = Inr (c\<lparr>theBlocks := (theBlocks c)[lr_set r := bs]\<rparr>) \<and>
    set_inv (theAssoc c) bs \<and> ChangeBlockState st b \<in> set bs \<and>
    abs_set bs = spec_move mru lru (be_tag b) (spec_set (be_tag b) st (abs_cache c (lr_set r)))"
proof -
  have s: "lr_set r < theNumSets c" "b \<in> set (theBlocks c ! lr_set r)" "be_way b = lr_block r"
    using h by (simp_all add: handle_def)
  note si = cache_inv_set(3) [OF inv s(1)]
  let ?f = "ChangeBlockState st"
  have f: "be_way (?f b) = be_way b" "be_tag (?f b) = be_tag b" "be_state (?f b) = st"
    by (simp_all add: ChangeBlockState_def)
  obtain bs where m: "modify_block (lr_block r) ?f (theBlocks c ! lr_set r) = Inr bs"
    "set_inv (theAssoc c) bs" "?f b \<in> set bs" "abs_set bs = spec_set (be_tag b) st (abs_cache c (lr_set r))"
    using modify_ok [where f = ?f, OF si s(2) f(1)] f s(3) by (auto simp: abs_cache_def spec_set_def)
  let ?c = "c\<lparr>theBlocks := (theBlocks c)[lr_set r := bs]\<rparr>"
  have w: "with_set (lr_set r) (modify_block (lr_block r) ?f) c = Inr ?c"
    using with_set_ok [where f = "modify_block (lr_block r) ?f", OF inv s(1) m(1)] .
  have i: "cache_inv ?c" by (rule cache_inv_update [OF inv m(2)])
  have l: "theBlocks ?c ! lr_set r = bs" "lr_set r < theNumSets ?c"
    using cache_inv_set(2) [OF inv s(1)] s(1) by simp_all
  obtain t where t: "relocate_tail (lr_block r) bs = Inr t" "set_inv (theAssoc c) t" "set t = set bs"
      "abs_set t = spec_touch (be_tag b) (abs_set bs)"
    using relocate_ok(1) [OF m(2,3)] f s(3) by auto
  obtain d where d: "relocate_head (lr_block r) bs = Inr d" "set_inv (theAssoc c) d" "set d = set bs"
      "abs_set d = spec_demote (be_tag b) (abs_set bs)"
    using relocate_ok(2) [OF m(2,3)] f s(3) by auto
  have rel: "with_set (lr_set r) (relocate_tail (lr_block r)) ?c = Inr (c\<lparr>theBlocks := (theBlocks c)[lr_set r := t]\<rparr>)"
    "with_set (lr_set r) (relocate_head (lr_block r)) ?c = Inr (c\<lparr>theBlocks := (theBlocks c)[lr_set r := d]\<rparr>)"
    using t(1) d(1) cache_inv_set(2) [OF inv s(1)] by (simp_all add: with_set_def lookup_vec_def)
  have run: "StdCache_updateState st mru lru r c = Inr (c\<lparr>theBlocks := (theBlocks c)[lr_set r :=
      if mru then t else if lru then d else bs]\<rparr>)"
    unfolding StdCache_updateState_def w rbind_Inr rel by simp
  show ?thesis
    using m t d unfolding run spec_move_def
    by (intro exI [of _ "if mru then t else if lru then d else bs"]) simp
qed

lemma getState_ok:
  assumes inv: "cache_inv c" and h: "handle c r b"
  shows "StdCache_getState r c = Inr (if be_tag b = lr_address r then be_state b else lr_state r)"
proof -
  have s: "lr_set r < theNumSets c" "b \<in> set (theBlocks c ! lr_set r)" "be_way b = lr_block r"
    using h by (simp_all add: handle_def)
  have "find_way (lr_block r) (theBlocks c ! lr_set r) = Inr b"
    using find_way_Inr [OF cache_inv_set(3) [OF inv s(1)]] s by simp
  then show ?thesis
    using cache_inv_set(2) [OF inv s(1)] by (simp add: StdCache_getState_def lookup_vec_def)
qed

text \<open>
  The component evicts through a callback. It answers when it succeeds and comes back with the
  same cache, whatever else it does; without a victim it is not called.
\<close>

definition answers :: "(u64 \<Rightarrow> CoherenceState_t \<Rightarrow> ('c, 'e) world \<Rightarrow> ('c, 'e) world result) \<Rightarrow>
    (u64 \<times> CoherenceState_t) option \<Rightarrow> ('c, 'e) world \<Rightarrow> ('c, 'e) world \<Rightarrow> bool" where
  "answers evict v w w' \<longleftrightarrow> (case v of None \<Rightarrow> w' = w
     | Some (t, s) \<Rightarrow> evict t s w = Inr w' \<and> fc_cache (fst w') = fc_cache (fst w))"

definition evictee :: "u64 \<Rightarrow> BlockEntry \<Rightarrow> (u64 \<times> CoherenceState_t) option" where
  "evictee t b = (if be_tag b \<noteq> t \<and> isValid (be_state b) then Some (be_tag b, be_state b) else None)"

definition allocating :: "u64 \<Rightarrow> StdCache FastCache \<Rightarrow> StdCache FastCache" where
  "allocating t fc = fc\<lparr>fc_cache := (fc_cache fc)\<lparr>theAllocateInProgress := True, theAllocateAddr := t\<rparr>\<rparr>"

lemma filter_map_replace:
  "(\<And>x. x \<in> set xs \<Longrightarrow> fst x = t \<Longrightarrow> fst x = k) \<Longrightarrow>
     filter (\<lambda>x. fst x \<noteq> t) (map (\<lambda>x. if fst x = k then (t, v) else x) xs) = filter (\<lambda>x. fst x \<noteq> k) xs"
  by (induction xs) auto

lemma allocate_ok:
  assumes inv: "cache_inv (fc_cache fc)" and h: "handle (fc_cache fc) r b"
    and t: "get_tag (fc_cache fc) (lr_address r) = t"
      "be_tag b = t \<or> t \<notin> be_tag ` set (theBlocks (fc_cache fc) ! lr_set r)"
    and q: "answers evict (evictee t b) (allocating t fc, e) (fc', e')"
  shows "\<exists>bs. StdCache_allocate evict st r (fc, e) =
      Inr (fc'\<lparr>fc_cache := (fc_cache fc)\<lparr>theBlocks := (theBlocks (fc_cache fc))[lr_set r := bs],
           theAllocateInProgress := False, theAllocateAddr := t\<rparr>\<rparr>, e') \<and>
    set_inv (theAssoc (fc_cache fc)) bs \<and>
    abs_set bs = filter (\<lambda>x. fst x \<noteq> be_tag b) (abs_cache (fc_cache fc) (lr_set r)) @ [(t, st)]"
proof -
  let ?c = "fc_cache fc"
  have s: "lr_set r < theNumSets ?c" "b \<in> set (theBlocks ?c ! lr_set r)" "be_way b = lr_block r"
    using h by (simp_all add: handle_def)
  note si = cache_inv_set(3) [OF inv s(1)] and sl = cache_inv_set(2) [OF inv s(1)]
  let ?f = "ReplaceBlock t st"
  let ?c1 = "?c\<lparr>theAllocateInProgress := True, theAllocateAddr := t\<rparr>"
  have f: "be_way (?f b) = be_way b" "be_tag (?f b) = t" "be_state (?f b) = st"
    by (simp_all add: ReplaceBlock_def)
  obtain bs where m: "modify_block (lr_block r) ?f (theBlocks ?c ! lr_set r) = Inr bs"
    "set_inv (theAssoc ?c) bs" "?f b \<in> set bs"
    "abs_set bs = map (\<lambda>x. if fst x = be_tag b then (t, st) else x) (abs_cache ?c (lr_set r))"
    using modify_ok [where f = ?f, OF si s(2) f(1)] f s(3) t(2) by (auto simp: abs_cache_def)
  have same: "modify_block (lr_block r) (ChangeBlockState st) (theBlocks ?c ! lr_set r) = Inr bs" if "be_tag b = t"
  proof -
    have fb: "find_way (lr_block r) (theBlocks ?c ! lr_set r) = Inr b"
      using find_way_Inr [OF si] s by simp
    have "ChangeBlockState st b = ?f b" using that by (simp add: ChangeBlockState_def ReplaceBlock_def)
    moreover have "x \<in> set (theBlocks ?c ! lr_set r) \<Longrightarrow> be_way x = lr_block r \<Longrightarrow> x = b" for x
      using set_invD(2) [OF si] s by auto
    ultimately show ?thesis
      using m(1) fb by (auto simp: modify_block_def split: if_splits cong: map_cong)
  qed
  obtain t' where r': "relocate_tail (lr_block r) bs = Inr t'" "set_inv (theAssoc ?c) t'"
      "abs_set t' = spec_touch t (abs_set bs)"
    using relocate_ok(1) [OF m(2,3)] f s(3) by auto
  let ?c2 = "?c1\<lparr>theBlocks := (theBlocks ?c)[lr_set r := bs]\<rparr>"
  have w1: "with_set (lr_set r) g' ?c1 = Inr ?c2" if "g' (theBlocks ?c ! lr_set r) = Inr bs" for g'
    using that sl by (simp add: with_set_def lookup_vec_def)
  have w2: "with_set (lr_set r) (relocate_tail (lr_block r)) ?c2 =
      Inr (?c2\<lparr>theBlocks := (theBlocks ?c)[lr_set r := t']\<rparr>)"
    using r'(1) sl by (simp add: with_set_def lookup_vec_def)
  have "abs_set t' = filter (\<lambda>x. fst x \<noteq> be_tag b) (abs_cache ?c (lr_set r)) @ [(t, st)]"
  proof -
    let ?xs = "abs_cache ?c (lr_set r)" and ?g = "\<lambda>x. if fst x = be_tag b then (t, st) else x"
    have other: "fst x = t \<Longrightarrow> x \<in> set ?xs \<Longrightarrow> fst x = be_tag b" for x
      using t(2) abs_tags [of "theBlocks ?c ! lr_set r"] by (metis abs_cache_def image_eqI)
    have "filter (\<lambda>x. fst x \<noteq> t) (map ?g ?xs) = filter (\<lambda>x. fst x \<noteq> be_tag b) ?xs"
      using other by (rule filter_map_replace)
    moreover have "filter (\<lambda>x. fst x = t) (map ?g ?xs) = [(t, st)]"
    proof -
      have "filter (\<lambda>x. fst (?g x) = t) ?xs = filter (\<lambda>x. fst x = be_tag b) ?xs"
        using other by (intro filter_cong) auto
      also have "\<dots> = [(be_tag b, be_state b)]"
        using filter_way(2) [OF si s(2)] by (simp add: abs_cache_def abs_set_def filter_map comp_def)
      finally show ?thesis by (simp add: filter_map comp_def)
    qed
    ultimately show ?thesis using r'(3) m(4) by (simp add: spec_touch_def)
  qed
  moreover have "StdCache_allocate evict st r (fc, e) =
      Inr (fc'\<lparr>fc_cache := (fc_cache fc)\<lparr>theBlocks := (theBlocks (fc_cache fc))[lr_set r := t'],
           theAllocateInProgress := False, theAllocateAddr := t\<rparr>\<rparr>, e')"
  proof -
    have fb: "find_way (lr_block r) (theBlocks ?c ! lr_set r) = Inr b" using find_way_Inr [OF si] s by simp
    have lv: "lookup_vec (theBlocks ?c) (lr_set r) = Inr (theBlocks ?c ! lr_set r)"
      using sl by (simp add: lookup_vec_def)
    show ?thesis
    proof (cases "be_tag b = t")
      case True
      then show ?thesis
        using fb lv t(1) w1 [where g' = "modify_block (lr_block r) (ChangeBlockState st)", OF same [OF True]] w2 q
        by (simp add: StdCache_allocate_def on_cache_def Let_def answers_def evictee_def allocating_def
            del: rbind_eq_Inr lookup_vec_Inr)
    next
      case False
      have c1: "fc_cache fc' = ?c1" and ev: "(if isValid (be_state b)
          then evict (be_tag b) (be_state b) (fc\<lparr>fc_cache := ?c1\<rparr>, e)
          else Inr (fc\<lparr>fc_cache := ?c1\<rparr>, e)) = Inr (fc', e')"
        using q False by (auto simp: answers_def evictee_def allocating_def split: if_splits)
      show ?thesis
        by (simp add: StdCache_allocate_def on_cache_def Let_def t(1) lv fb False ev c1
            w1 [where g' = "modify_block (lr_block r) ?f", OF m(1)] w2
            del: rbind_eq_Inr lookup_vec_Inr split del: if_split cong: if_cong)
    qed
  qed
  ultimately show ?thesis using r'(2) by blast
qed

section \<open>Filling a block\<close>

definition victim :: "nat \<Rightarrow> u64 \<Rightarrow> (u64 \<times> CoherenceState_t) list \<Rightarrow> (u64 \<times> CoherenceState_t) option" where
  "victim assoc t xs =
     (if t \<notin> fst ` set xs \<and> assoc \<le> length xs \<and> isValid (snd (hd xs)) then Some (hd xs) else None)"

lemma hd_filter:
  assumes "distinct (map fst xs)" "xs \<noteq> []"
  shows "filter (\<lambda>x. fst x \<noteq> fst (hd xs)) xs = tl xs"
proof (cases xs)
  case (Cons x ys)
  have "fst x \<notin> fst ` set ys" using assms(1) Cons by simp
  then have "filter (\<lambda>y. fst y \<noteq> fst x) ys = ys" by (intro filter_True ballI) (metis image_eqI)
  then show ?thesis using Cons by simp
qed (use assms in simp)

lemma fill_ok:
  fixes a :: u64 and fc :: "StdCache FastCache" and e :: 'e
  assumes inv: "cache_inv (fc_cache fc)"
  defines "c \<equiv> fc_cache fc" and "s \<equiv> get_set (fc_cache fc) a" and "t \<equiv> get_tag (fc_cache fc) a"
  shows "\<exists>c1 r. StdCache_lookup a c = Inr (c1, r) \<and>
    (\<forall>fc' e'. answers evict (victim (theAssoc c) t (abs_cache c s)) (allocating t (fc\<lparr>fc_cache := c1\<rparr>), e) (fc', e') \<longrightarrow>
      (\<exists>c2. StdCache_allocate evict st r (fc\<lparr>fc_cache := c1\<rparr>, e) = Inr (fc'\<lparr>fc_cache := c2\<rparr>, e') \<and>
        cache_inv c2 \<and> get_set c2 = get_set c \<and> get_tag c2 = get_tag c \<and>
        abs_cache c2 = (abs_cache c)(s := spec_fill (theAssoc c) t st (abs_cache c s))))"
proof -
  note ci = inv [folded c_def]
  note s = cache_inv_set [OF ci]
  have g: "s < theNumSets c" using get_set_less [OF s(1), of a] by (simp add: s_def c_def)
  note si = s(3) [OF g]
  have tt: "get_tag c t = t" using get_tag_idem(1) [OF s(1), of a] by (simp add: t_def c_def)
  let ?bs = "theBlocks c ! s"
  have tags: "fst ` set (abs_cache c s) = be_tag ` set ?bs" using abs_tags [of ?bs] by (simp add: abs_cache_def)
  have fin: "\<exists>c2. StdCache_allocate evict st r (fc\<lparr>fc_cache := c1\<rparr>, e) = Inr (fc'\<lparr>fc_cache := c2\<rparr>, e') \<and>
      cache_inv c2 \<and> get_set c2 = get_set c \<and> get_tag c2 = get_tag c \<and>
      abs_cache c2 = (abs_cache c1)(s := filter (\<lambda>x. fst x \<noteq> be_tag b) (abs_cache c1 s) @ [(t, st)])"
    if h: "cache_inv c1" "handle c1 r b" "lr_address r = t" "lr_set r = s" "get_tag c1 = get_tag c" "get_set c1 = get_set c"
      "be_tag b = t \<or> t \<notin> be_tag ` set (theBlocks c1 ! s)"
      "answers evict (evictee t b) (allocating t (fc\<lparr>fc_cache := c1\<rparr>), e) (fc', e')" for c1 r b fc' e'
  proof -
    let ?fc = "fc\<lparr>fc_cache := c1\<rparr>"
    have r: "cache_inv (fc_cache ?fc)" "handle (fc_cache ?fc) r b" "get_tag (fc_cache ?fc) (lr_address r) = t"
      "be_tag b = t \<or> t \<notin> be_tag ` set (theBlocks (fc_cache ?fc) ! lr_set r)"
      using h tt by simp_all
    obtain bs where bs: "StdCache_allocate evict st r (?fc, e) =
        Inr (fc'\<lparr>fc_cache := c1\<lparr>theBlocks := (theBlocks c1)[s := bs], theAllocateInProgress := False, theAllocateAddr := t\<rparr>\<rparr>, e')"
      "set_inv (theAssoc c1) bs" "abs_set bs = filter (\<lambda>x. fst x \<noteq> be_tag b) (abs_cache c1 s) @ [(t, st)]"
      using allocate_ok [OF r h(8)] h(4) by auto
    let ?c2 = "c1\<lparr>theBlocks := (theBlocks c1)[s := bs], theAllocateInProgress := False, theAllocateAddr := t\<rparr>"
    have "s < theNumSets c1" using h(2,4) by (simp add: handle_def)
    then have "abs_cache ?c2 = (abs_cache c1)(s := filter (\<lambda>x. fst x \<noteq> be_tag b) (abs_cache c1 s) @ [(t, st)])"
      using abs_cache_update [OF h(1), of s bs] bs(3) by simp
    moreover have "cache_inv ?c2" using cache_inv_update [OF h(1) bs(2)] by simp
    ultimately show ?thesis using bs(1) h(5,6) by (intro exI [of _ ?c2]) simp
  qed
  show ?thesis
  proof (cases "t \<in> be_tag ` set ?bs")
    case True
    then obtain b where b: "b \<in> set ?bs" "be_tag b = t" by force
    have l: "StdCache_lookup a c = Inr (c, \<lparr>lr_address = t, lr_state = be_state b, lr_set = s, lr_block = be_way b\<rparr>)"
      using lookup_hit [OF ci, of b a] b by (simp add: s_def t_def c_def)
    have "victim (theAssoc c) t (abs_cache c s) = evictee t b" using True tags b by (simp add: victim_def evictee_def)
    moreover have "spec_fill (theAssoc c) t st (abs_cache c s) = filter (\<lambda>x. fst x \<noteq> t) (abs_cache c s) @ [(t, st)]"
      using True tags by (simp add: spec_fill_def)
    ultimately show ?thesis
      using fin [of c "\<lparr>lr_address = t, lr_state = be_state b, lr_set = s, lr_block = be_way b\<rparr>" b] ci l b g
      by (simp add: handle_def)
  next
    case miss: False
    show ?thesis
    proof (cases "length ?bs < theAssoc c")
      case True
      let ?b = "\<lparr>be_tag = t, be_state = kInvalid, be_way = length ?bs\<rparr>"
      let ?c1 = "c\<lparr>theBlocks := (theBlocks c)[s := ?b # ?bs]\<rparr>"
      let ?r = "\<lparr>lr_address = t, lr_state = kInvalid, lr_set = s, lr_block = length ?bs\<rparr>"
      have l: "StdCache_lookup a c = Inr (?c1, ?r)"
        using lookup_miss(1) [OF ci, of a] miss True by (simp add: s_def t_def c_def)
      have i: "cache_inv ?c1" using cache_inv_update [OF ci] set_inv_push [OF si miss True] by simp
      have h: "handle ?c1 ?r ?b" using g s(2) [OF g] by (simp add: handle_def)
      have a: "abs_cache ?c1 = (abs_cache c)(s := (t, kInvalid) # abs_cache c s)"
        using abs_cache_update [OF ci g] by (simp add: abs_set_def abs_cache_def)
      have "filter (\<lambda>x. fst x \<noteq> t) (abs_cache c s) = abs_cache c s"
        using miss tags by (intro filter_True) auto
      then have "filter (\<lambda>x. fst x \<noteq> t) (abs_cache ?c1 s) @ [(t, st)] = spec_fill (theAssoc c) t st (abs_cache c s)"
        using a miss tags True by (simp add: spec_fill_def) (simp add: abs_cache_def abs_set_def)
      moreover have "victim (theAssoc c) t (abs_cache c s) = evictee t ?b"
        using True by (simp add: victim_def evictee_def abs_cache_def abs_set_def)
      ultimately show ?thesis using fin [of ?c1 ?r ?b] i h l a by simp
    next
      case False
      let ?r = "\<lparr>lr_address = t, lr_state = kInvalid, lr_set = s, lr_block = be_way (hd ?bs)\<rparr>"
      have l: "StdCache_lookup a c = Inr (c, ?r)" and ne: "?bs \<noteq> []"
        using lookup_miss(2,3) [OF ci, of a] miss False by (simp_all add: s_def t_def c_def)
      have h: "handle c ?r (hd ?bs)" using g ne by (simp add: handle_def)
      have hd: "hd (abs_cache c s) = (be_tag (hd ?bs), be_state (hd ?bs))"
        using ne by (simp add: abs_cache_def abs_set_def hd_map)
      have full: "theAssoc c \<le> length (abs_cache c s)" using False by (simp add: abs_cache_def abs_set_def)
      have "distinct (map fst (abs_cache c s))" using si by (simp add: set_inv_def abs_cache_def abs_set_def comp_def)
      then have "filter (\<lambda>x. fst x \<noteq> be_tag (hd ?bs)) (abs_cache c s) = tl (abs_cache c s)"
        using hd_filter [of "abs_cache c s"] hd ne by (simp add: abs_cache_def abs_set_def)
      then have "filter (\<lambda>x. fst x \<noteq> be_tag (hd ?bs)) (abs_cache c s) @ [(t, st)] =
          spec_fill (theAssoc c) t st (abs_cache c s)"
        using miss tags full by (simp add: spec_fill_def)
      moreover have "victim (theAssoc c) t (abs_cache c s) = evictee t (hd ?bs)"
      proof -
        have "be_tag (hd ?bs) \<noteq> t" using miss ne by (metis hd_in_set image_eqI)
        then show ?thesis using miss tags full hd by (simp add: victim_def evictee_def)
      qed
      ultimately show ?thesis using fin [of c ?r "hd ?bs"] ci h l miss by simp
    qed
  qed
qed

lemma map_of_filter_ne: "k \<noteq> t \<Longrightarrow> map_of (filter (\<lambda>x. fst x \<noteq> t) xs) k = map_of xs k"
  by (induction xs) auto

section \<open>Saving and loading\<close>

definition saveable :: "CoherenceState_t \<Rightarrow> bool" where
  "saveable s \<longleftrightarrow> s = kModified \<or> s = kOwned \<or> s = kExclusive \<or> s = kShared \<or> s = kInvalid"

lemma letter_roundtrip: "saveable s \<Longrightarrow> \<exists>l. state_letter s = Inr l \<and> letter_state l = Inr s"
  by (auto simp: saveable_def state_letter_def letter_state_def state_defs)

fun renumber :: "nat \<Rightarrow> block_set_t \<Rightarrow> block_set_t" where
  "renumber n [] = []"
| "renumber n (b # bs) = b\<lparr>be_way := n\<rparr> # renumber (n + 1) bs"

lemma renumber_simps [simp]:
  "length (renumber n bs) = length bs" "map be_tag (renumber n bs) = map be_tag bs"
  "map be_way (renumber n bs) = [n..<n + length bs]" "abs_set (renumber n bs) = abs_set bs"
  by (induction bs arbitrary: n) (auto simp: abs_set_def upt_rec)

lemma push_back_new:
  assumes "be_tag b \<notin> be_tag ` set bs" "\<forall>x \<in> set bs. be_way x < be_way b"
  shows "push_back b bs = bs @ [b]"
proof -
  have "\<forall>x \<in> set bs. be_tag x \<noteq> be_tag b \<and> be_way x \<noteq> be_way b"
    using assms by (metis image_eqI less_irrefl)
  then have "conflicts b bs = None" by (simp add: conflicts_def find_None_iff)
  then show ?thesis by (simp add: push_back_def)
qed

lemma push_back_old: "be_tag b \<in> be_tag ` set bs \<Longrightarrow> push_back b bs = bs"
  by (force simp: push_back_def conflicts_def find_None_iff split: option.split)

text \<open>
  Either format is read as a list of tags and states, which are pushed to the end one after
  the other; what was saved of a set is read as its blocks followed by copies of one invalid
  block, of tag 0 in binary and of tag 0 shifted into its set in text.
\<close>

fun push_pairs :: "nat \<Rightarrow> (u64 \<times> CoherenceState_t) list \<Rightarrow> block_set_t \<Rightarrow> block_set_t" where
  "push_pairs n [] acc = acc"
| "push_pairs n (x # xs) acc =
     push_pairs (n + 1) xs (push_back \<lparr>be_tag = fst x, be_state = snd x, be_way = way16 n\<rparr> acc)"

definition reloaded :: "u64 \<Rightarrow> nat \<Rightarrow> block_set_t \<Rightarrow> block_set_t" where
  "reloaded p assoc bs = renumber 0 bs @
     (if length bs < assoc \<and> p \<notin> be_tag ` set bs
      then [\<lparr>be_tag = p, be_state = kInvalid, be_way = length bs\<rparr>] else [])"

lemma renumber_set: "be_tag ` set (renumber n bs) = be_tag ` set bs" "be_way ` set (renumber n bs) = {n..<n + length bs}"
  using renumber_simps(2,3) by (metis set_map, metis set_map set_upt)

lemma push_pairs_blocks:
  assumes "distinct (map be_tag bs)" "be_tag ` set acc \<inter> be_tag ` set bs = {}"
    "\<forall>x \<in> set acc. be_way x < n" "n + length bs \<le> 65536"
  shows "push_pairs n (abs_set bs @ ps) acc = push_pairs (n + length bs) ps (acc @ renumber n bs)"
  using assms
proof (induction bs arbitrary: n acc)
  case (Cons b bs)
  let ?b = "\<lparr>be_tag = be_tag b, be_state = be_state b, be_way = n\<rparr>"
  have b: "b\<lparr>be_way := n\<rparr> = ?b" by (cases b) simp
  have p: "push_back ?b acc = acc @ [?b]" by (rule push_back_new) (use Cons.prems in auto)
  have "push_pairs (n + 1) (abs_set bs @ ps) (acc @ [?b]) =
      push_pairs (n + 1 + length bs) ps ((acc @ [?b]) @ renumber (n + 1) bs)"
    by (rule Cons.IH) (use Cons.prems in fastforce)+
  then show ?case using p Cons.prems(4) by (simp add: b abs_set_def)
qed (simp add: abs_set_def)

lemma push_pairs_padding:
  assumes "\<forall>x \<in> set acc. be_way x < n" "n + m \<le> 65536"
  shows "push_pairs n (replicate m (p, kInvalid)) acc =
    (if m = 0 \<or> p \<in> be_tag ` set acc then acc
     else acc @ [\<lparr>be_tag = p, be_state = kInvalid, be_way = n\<rparr>])"
  using assms
proof (induction m arbitrary: n acc)
  case (Suc m)
  let ?b = "\<lparr>be_tag = p, be_state = kInvalid, be_way = n\<rparr>"
  show ?case
  proof (cases "p \<in> be_tag ` set acc")
    case True
    then have "push_back ?b acc = acc" by (intro push_back_old) simp
    then show ?thesis using Suc.IH [of acc "n + 1"] Suc.prems True by fastforce
  next
    case False
    then have "push_back ?b acc = acc @ [?b]" using Suc.prems by (intro push_back_new) auto
    then show ?thesis using Suc.IH [of "acc @ [?b]" "n + 1"] Suc.prems False by fastforce
  qed
qed simp

lemma push_pairs_reloaded:
  assumes "set_inv assoc bs" "assoc \<le> 65536"
  shows "push_pairs 0 (abs_set bs @ replicate (assoc - length bs) (p, kInvalid)) [] = reloaded p assoc bs"
proof -
  have d: "distinct (map be_tag bs)" "length bs \<le> assoc" using assms(1) by (simp_all add: set_inv_def)
  have w: "\<forall>x \<in> set (renumber 0 bs). be_way x < length bs" using renumber_set(2) [of 0 bs] by force
  have "push_pairs 0 (abs_set bs @ replicate (assoc - length bs) (p, kInvalid)) [] =
      push_pairs (length bs) (replicate (assoc - length bs) (p, kInvalid)) (renumber 0 bs)"
    using push_pairs_blocks [OF d(1), of "[]" 0] d(2) assms(2) by simp
  also have "\<dots> = reloaded p assoc bs"
    using push_pairs_padding [OF w, of "assoc - length bs"] d(2) assms(2)
    by (simp add: reloaded_def renumber_set(1))
  finally show ?thesis .
qed

lemma reloaded_inv:
  assumes "set_inv assoc bs"
  shows "set_inv assoc (reloaded p assoc bs)"
proof -
  have "distinct (map be_tag bs)" "length bs \<le> assoc" using assms by (simp_all add: set_inv_def)
  then show ?thesis
    using renumber_set [of 0 bs] by (auto simp: set_inv_def reloaded_def renumber_set)
qed

lemma reloaded_abs:
  "map_of (abs_set (reloaded p assoc bs)) t = Some s \<Longrightarrow> map_of (abs_set bs) t = Some s \<or> s = kInvalid \<and> map_of (abs_set bs) t = None"
  "map_of (abs_set (reloaded p assoc bs)) t = None \<Longrightarrow> map_of (abs_set bs) t = None"
  "filter (\<lambda>x. isValid (snd x)) (abs_set (reloaded p assoc bs)) = filter (\<lambda>x. isValid (snd x)) (abs_set bs)"
proof -
  have a: "abs_set (reloaded p assoc bs) = abs_set bs @
      (if length bs < assoc \<and> p \<notin> be_tag ` set bs then [(p, kInvalid)] else [])"
    using renumber_simps(4) [of 0 bs] by (simp add: reloaded_def abs_set_def)
  show "map_of (abs_set (reloaded p assoc bs)) t = Some s \<Longrightarrow> map_of (abs_set bs) t = Some s \<or> s = kInvalid \<and> map_of (abs_set bs) t = None"
    "map_of (abs_set (reloaded p assoc bs)) t = None \<Longrightarrow> map_of (abs_set bs) t = None"
    "filter (\<lambda>x. isValid (snd x)) (abs_set (reloaded p assoc bs)) = filter (\<lambda>x. isValid (snd x)) (abs_set bs)"
    unfolding a by (auto simp: map_add_Some_iff isValid_def kInvalid_def split: if_splits)
qed

fun reload_sets :: "(nat \<Rightarrow> u64) \<Rightarrow> nat \<Rightarrow> nat \<Rightarrow> block_set_t list \<Rightarrow> block_set_t list" where
  "reload_sets pad assoc s [] = []"
| "reload_sets pad assoc s (bs # bss) = reloaded (pad s) assoc bs # reload_sets pad assoc (s + 1) bss"

lemma reload_sets_nth:
  "length (reload_sets pad assoc s bss) = length bss"
  "i < length bss \<Longrightarrow> reload_sets pad assoc s bss ! i = reloaded (pad (s + i)) assoc (bss ! i)"
proof -
  show "length (reload_sets pad assoc s bss) = length bss" by (induction bss arbitrary: s) simp_all
  show "i < length bss \<Longrightarrow> reload_sets pad assoc s bss ! i = reloaded (pad (s + i)) assoc (bss ! i)"
    by (induction bss arbitrary: s i) (auto simp: nth_Cons split: nat.split)
qed

subsection \<open>The binary format\<close>

lemma load_blocks_append: "load_blocks n (ss @ ps) acc = rbind (load_blocks n ss acc) (load_blocks (n + length ss) ps)"
  by (induction ss arbitrary: n acc) (simp_all add: rbind_assoc)

lemma save_load_blocks:
  assumes "\<forall>b \<in> set bs. saveable (be_state b)"
  shows "\<exists>ss. save_blocks bs = Inr ss \<and> length ss = length bs \<and>
    (\<forall>n acc. load_blocks n ss acc = Inr (push_pairs n (abs_set bs) acc))"
  using assms
proof (induction bs)
  case (Cons b bs)
  obtain l where "state_letter (be_state b) = Inr l" "letter_state l = Inr (be_state b)"
    using letter_roundtrip Cons.prems by auto
  moreover obtain ss where "save_blocks bs = Inr ss" "length ss = length bs"
    "\<forall>n acc. load_blocks n ss acc = Inr (push_pairs n (abs_set bs) acc)"
    using Cons by auto
  ultimately show ?case by (simp add: abs_set_def)
qed (simp add: abs_set_def)

lemma load_padding:
  "load_blocks n (map (\<lambda>w. \<lparr>bs_tag = 0, bs_way = w mod 256, bs_state = CHR ''I''\<rparr>) ws) acc =
    Inr (push_pairs n (replicate (length ws) (0, kInvalid)) acc)"
proof (induction ws arbitrary: n acc)
  case (Cons w ws)
  have "letter_state CHR ''I'' = Inr kInvalid" by (simp add: letter_state_def)
  then show ?case using Cons.IH by simp
qed simp

lemma push_pairs_append: "push_pairs n (xs @ ys) acc = push_pairs (n + length xs) ys (push_pairs n xs acc)"
  by (induction xs arbitrary: n acc) simp_all

lemma save_load_set:
  assumes "set_inv assoc bs" "assoc \<le> 65536" "\<forall>b \<in> set bs. saveable (be_state b)"
  shows "\<exists>ss. save_set assoc bs = Inr ss \<and> length ss = assoc \<and> load_blocks 0 ss [] = Inr (reloaded 0 assoc bs)"
proof -
  obtain ss where ss: "save_blocks bs = Inr ss" "length ss = length bs"
    "load_blocks 0 ss [] = Inr (push_pairs 0 (abs_set bs) [])"
    using save_load_blocks [OF assms(3)] by auto
  have "length bs \<le> assoc" using assms(1) by (simp add: set_inv_def)
  then show ?thesis
    using ss push_pairs_reloaded [OF assms(1,2), of 0]
    by (simp add: save_set_def load_blocks_append load_padding push_pairs_append) (simp add: abs_set_def)
qed

lemma save_load_sets:
  assumes "\<forall>bs \<in> set bss. set_inv assoc bs \<and> (\<forall>b \<in> set bs. saveable (be_state b))" "assoc \<le> 65536"
  shows "\<exists>ss. map_result (save_set assoc) bss = Inr ss \<and>
    load_sets assoc ss (replicate (length bss) []) = Inr (reload_sets (\<lambda>_. 0) assoc s bss)"
  using assms(1)
proof (induction bss arbitrary: s)
  case (Cons bs bss)
  obtain x where "save_set assoc bs = Inr x" "length x = assoc" "load_blocks 0 x [] = Inr (reloaded 0 assoc bs)"
    using save_load_set [of assoc bs] Cons.prems assms(2) by auto
  moreover obtain ss where "map_result (save_set assoc) bss = Inr ss"
    "load_sets assoc ss (replicate (length bss) []) = Inr (reload_sets (\<lambda>_. 0) assoc (s + 1) bss)"
    using Cons.IH [of "s + 1"] Cons.prems by auto
  ultimately show ?case by simp
qed simp

subsection \<open>The text format\<close>

text \<open>
  In text the position of the set replaces the low bits of the tag. The tags come back when
  every block, valid or not, lies in the set of its address; the set number is shifted as
  an \<open>int32_t\<close>, so the sets must not reach beyond 31 bits.
\<close>

definition text_ok :: "StdCache \<Rightarrow> bool" where
  "text_ok c \<longleftrightarrow> power_of_two (theNumSets c) \<and> theNumSets c * 2 ^ blockShift c \<le> 2 ^ 31 \<and>
     (\<forall>s < theNumSets c. \<forall>b \<in> set (theBlocks c ! s). get_tag c (be_tag b) = be_tag b \<and> get_set c (be_tag b) = s)"

lemma bits_roundtrip: "saveable s \<Longrightarrow> \<exists>n. save_bits s = Inr n \<and> load_bits n = Inr s"
  by (auto simp: saveable_def save_bits_def load_bits_def state_defs)

lemma shifted_tag:
  fixes T :: u64
  assumes "b + k < 64" "T AND NOT (mask b) = T"
  shows "push_bit (b + k) (signed_drop_bit (b + k) T) OR push_bit b (drop_bit b T AND mask k) = T"
proof (rule bit_word_eqI)
  fix i assume i: "i < LENGTH(64)"
  have lo: "b \<le> i" if "bit T i"
    using that arg_cong [OF assms(2), of "\<lambda>w. bit w i"] by (auto simp: bit_simps)
  show "bit (push_bit (b + k) (signed_drop_bit (b + k) T) OR push_bit b (drop_bit b T AND mask k)) i = bit T i"
  proof (cases "b + k \<le> i")
    case True
    then show ?thesis using i assms(1) by (auto simp: bit_simps)
  next
    case False
    then show ?thesis using i lo by (cases "b \<le> i") (auto simp: bit_simps)
  qed
qed

lemma int_shift:
  assumes "s * 2 ^ b < 2 ^ 31"
  shows "(scast (push_bit b (of_nat s :: 32 word)) :: u64) = push_bit b (of_nat s)"
proof -
  have "push_bit b (of_nat s :: 32 word) = of_int (int (s * 2 ^ b))" by (simp add: push_bit_eq_mult)
  moreover have "sint (of_int (int (s * 2 ^ b)) :: 32 word) = int (s * 2 ^ b)"
  proof (rule sint_of_int32)
    show "- (2 ^ 31) \<le> int (s * 2 ^ b)" by (rule order_trans [of _ 0]) simp_all
    show "int (s * 2 ^ b) < 2 ^ 31" using assms by (metis of_nat_less_iff of_nat_numeral of_nat_power)
  qed
  ultimately have "sint (push_bit b (of_nat s :: 32 word)) = int (s * 2 ^ b)" by metis
  then show ?thesis by (simp add: scast_eq push_bit_eq_mult)
qed

lemma text_tag_back:
  assumes g: "geometry c" and t: "text_ok c" and b: "s < theNumSets c" "b \<in> set (theBlocks c ! s)"
  shows "text_tag c s (signed_drop_bit (text_shift c) (be_tag b)) = be_tag b"
proof -
  have "0 < theNumSets c" using g by (simp add: geometry_def)
  moreover have "power_of_two (theNumSets c)" using t by (simp add: text_ok_def)
  ultimately obtain k where k: "theNumSets c = 2 ^ k" using power_of_two_iff by blast
  have le: "(2 :: nat) ^ (blockShift c + k) \<le> 2 ^ 31" using t k by (simp add: text_ok_def power_add mult.commute)
  then have lt: "blockShift c + k \<le> 31" by (rule power_le_imp_le_exp [rotated]) simp
  have "s * 2 ^ blockShift c < 2 ^ (blockShift c + k)" using b(1) k by (simp add: power_add)
  then have s: "s * 2 ^ blockShift c < 2 ^ 31" using le by (rule less_le_trans)
  have "get_tag c (be_tag b) = be_tag b" "get_set c (be_tag b) = s" using t b by (auto simp: text_ok_def)
  moreover have m: "(of_nat (2 ^ k - 1) :: u64) = mask k" by (simp add: mask_eq_exp_minus_1 of_nat_diff)
  ultimately have "be_tag b AND NOT (mask (blockShift c)) = be_tag b"
    "of_nat s = drop_bit (blockShift c) (be_tag b) AND mask k"
    using g k by (auto simp: get_tag_def get_set_def geometry_def m simp del: of_nat_diff of_nat_power)
  then show ?thesis
    using shifted_tag [of "blockShift c" k "be_tag b"] lt
    by (simp add: text_tag_def int_shift [OF s] text_shift_def k log_base2_power)
qed

lemma save_load_entries:
  assumes "\<forall>b \<in> set bs. saveable (be_state b) \<and> text_tag c s (signed_drop_bit (text_shift c) (be_tag b)) = be_tag b"
  shows "\<exists>es. map_result (\<lambda>b. rbind (save_bits (be_state b)) (\<lambda>n.
      Inr (n, signed_drop_bit (text_shift c) (be_tag b)))) bs = Inr es \<and> length es = length bs \<and>
    (\<forall>n acc. load_set_text c s n es acc = Inr (push_pairs n (abs_set bs) acc))"
  using assms
proof (induction bs)
  case (Cons b bs)
  obtain l where "save_bits (be_state b) = Inr l" "load_bits l = Inr (be_state b)"
    using bits_roundtrip Cons.prems by auto
  moreover obtain es where "map_result (\<lambda>b. rbind (save_bits (be_state b)) (\<lambda>n.
      Inr (n, signed_drop_bit (text_shift c) (be_tag b)))) bs = Inr es" "length es = length bs"
    "\<forall>n acc. load_set_text c s n es acc = Inr (push_pairs n (abs_set bs) acc)"
    using Cons by auto
  ultimately show ?case using Cons.prems by (simp add: abs_set_def)
qed (simp add: abs_set_def)

lemma load_set_text_append:
  "load_set_text c s n (es @ ps) acc = rbind (load_set_text c s n es acc) (load_set_text c s (n + length es) ps)"
  by (induction es arbitrary: n acc) (auto simp: rbind_assoc)

lemma load_text_padding:
  "load_set_text c s n (map (\<lambda>_. (0, 0)) ws) acc = Inr (push_pairs n (replicate (length ws) (text_tag c s 0, kInvalid)) acc)"
proof (induction ws arbitrary: n acc)
  case (Cons w ws)
  have "load_bits 0 = Inr kInvalid" by (simp add: load_bits_def)
  then show ?case using Cons.IH by simp
qed simp

lemma save_load_set_text:
  assumes "set_inv (theAssoc c) bs" "theAssoc c \<le> 65536"
    "\<forall>b \<in> set bs. saveable (be_state b) \<and> text_tag c s (signed_drop_bit (text_shift c) (be_tag b)) = be_tag b"
  shows "\<exists>es. save_set_text c bs = Inr es \<and> length es = theAssoc c \<and>
    load_set_text c s 0 es [] = Inr (reloaded (text_tag c s 0) (theAssoc c) bs)"
proof -
  obtain es where es: "map_result (\<lambda>b. rbind (save_bits (be_state b)) (\<lambda>n.
      Inr (n, signed_drop_bit (text_shift c) (be_tag b)))) bs = Inr es" "length es = length bs"
    "load_set_text c s 0 es [] = Inr (push_pairs 0 (abs_set bs) [])"
    using save_load_entries [OF assms(3)] by blast
  have "length bs \<le> theAssoc c" using assms(1) by (simp add: set_inv_def)
  then show ?thesis
    using es push_pairs_reloaded [OF assms(1,2), of "text_tag c s 0"]
    by (simp add: save_set_text_def load_set_text_append load_text_padding push_pairs_append del: rbind_eq_Inr)
      (simp add: abs_set_def)
qed

lemma save_load_sets_text:
  assumes "theAssoc c \<le> 65536" "\<forall>i < length bss. set_inv (theAssoc c) (bss ! i) \<and>
    (\<forall>b \<in> set (bss ! i). saveable (be_state b) \<and>
      text_tag c (s + i) (signed_drop_bit (text_shift c) (be_tag b)) = be_tag b)"
  shows "\<exists>ss. map_result (save_set_text c) bss = Inr ss \<and>
    load_sets_text c s ss (replicate (length bss) []) = Inr (reload_sets (\<lambda>s. text_tag c s 0) (theAssoc c) s bss)"
  using assms(2)
proof (induction bss arbitrary: s)
  case (Cons bs bss)
  have 0: "set_inv (theAssoc c) bs" "\<forall>b \<in> set bs. saveable (be_state b) \<and>
      text_tag c s (signed_drop_bit (text_shift c) (be_tag b)) = be_tag b"
    using Cons.prems [rule_format, of 0] by simp_all
  obtain x where "save_set_text c bs = Inr x" "length x = theAssoc c"
    "load_set_text c s 0 x [] = Inr (reloaded (text_tag c s 0) (theAssoc c) bs)"
    using save_load_set_text [OF 0(1) assms(1) 0(2)] by blast
  moreover obtain ss where "map_result (save_set_text c) bss = Inr ss"
    "load_sets_text c (s + 1) ss (replicate (length bss) []) =
       Inr (reload_sets (\<lambda>s. text_tag c s 0) (theAssoc c) (s + 1) bss)"
    using Cons.IH [of "s + 1"] Cons.prems [rule_format, of "Suc i" for i] by auto
  ultimately show ?case by simp
qed simp

subsection \<open>Both formats\<close>

definition same_geometry :: "StdCache \<Rightarrow> StdCache \<Rightarrow> bool" where
  "same_geometry c d \<longleftrightarrow> theNumSets d = theNumSets c \<and> theAssoc d = theAssoc c \<and> blockShift d = blockShift c \<and>
     blockSetMask d = blockSetMask c \<and> blockTagMask d = blockTagMask c \<and>
     theTextFlexpoints d = theTextFlexpoints c"

lemma same_geometry_text:
  assumes "same_geometry c d"
  shows "load_sets_text d s ss bss = load_sets_text c s ss bss"
proof -
  have t: "text_tag d = text_tag c" using assms by (simp add: same_geometry_def text_tag_def text_shift_def fun_eq_iff)
  have l: "load_set_text d s n es acc = load_set_text c s n es acc" for s n es acc
    by (induction es arbitrary: n acc) (auto simp: t)
  have a: "theAssoc d = theAssoc c" using assms by (simp add: same_geometry_def)
  show ?thesis
  proof (induction bss arbitrary: s ss)
    case (Cons bs bss)
    then show ?case by (cases ss) (simp_all add: l a cong: if_cong)
  qed simp
qed

lemma reload_sets_ok:
  fixes pad :: "nat \<Rightarrow> u64"
  assumes inv: "cache_inv c" and d: "same_geometry c d"
  defines "c' \<equiv> d\<lparr>theBlocks := reload_sets pad (theAssoc c) 0 (theBlocks c)\<rparr>"
  shows "cache_inv c'" "state_of c' = state_of c"
    "\<forall>s < theNumSets c. filter (\<lambda>x. isValid (snd x)) (abs_cache c' s) = filter (\<lambda>x. isValid (snd x)) (abs_cache c s)"
proof -
  have i: "geometry c" "length (theBlocks c) = theNumSets c" "\<forall>bs \<in> set (theBlocks c). set_inv (theAssoc c) bs"
    using inv by (simp_all add: cache_inv_def)
  have g: "geometry c'" "get_set c' = get_set c" "get_tag c' = get_tag c"
    using i(1) d by (simp_all add: c'_def geometry_def same_geometry_def get_set_def get_tag_def fun_eq_iff)
  show "cache_inv c'"
    using g(1) i d reloaded_inv [OF i(3) [rule_format, OF nth_mem]]
    by (auto simp: cache_inv_def same_geometry_def c'_def reload_sets_nth in_set_conv_nth)
  show "state_of c' = state_of c"
  proof
    fix a
    have "get_set c a < length (theBlocks c)" using get_set_less [OF i(1)] i(2) by simp
    then have "abs_cache c' (get_set c a) = abs_set (reloaded (pad (get_set c a)) (theAssoc c) (theBlocks c ! get_set c a))"
      by (simp add: abs_cache_def c'_def reload_sets_nth)
    then show "state_of c' a = state_of c a"
      using reloaded_abs(1,2) [of "pad (get_set c a)" "theAssoc c" "theBlocks c ! get_set c a" "get_tag c a"]
      unfolding state_of_def g(2,3)
      by (cases "map_of (abs_cache c' (get_set c a)) (get_tag c a)") (auto simp: abs_cache_def)
  qed
  show "\<forall>s < theNumSets c. filter (\<lambda>x. isValid (snd x)) (abs_cache c' s) = filter (\<lambda>x. isValid (snd x)) (abs_cache c s)"
    using i(2) reloaded_abs(3) by (simp add: abs_cache_def c'_def reload_sets_nth)
qed

lemma save_load_cache:
  assumes inv: "cache_inv c" and st: "\<forall>bs \<in> set (theBlocks c). \<forall>b \<in> set bs. saveable (be_state b)"
    and t: "theTextFlexpoints c \<Longrightarrow> text_ok c"
    and d: "same_geometry c d" "theBlocks d = replicate (theNumSets d) []"
  shows "\<exists>img pad. StdCache_saveState c = Inr img \<and>
    StdCache_loadState img d = Inr (d\<lparr>theBlocks := reload_sets pad (theAssoc c) 0 (theBlocks c)\<rparr>)"
proof -
  have i: "geometry c" "length (theBlocks c) = theNumSets c" "\<forall>bs \<in> set (theBlocks c). set_inv (theAssoc c) bs"
    using inv by (simp_all add: cache_inv_def)
  have a: "theAssoc c \<le> 65536" using i(1) by (simp add: geometry_def)
  have b: "theBlocks d = replicate (length (theBlocks c)) []" using d i(2) by (simp add: same_geometry_def)
  show ?thesis
  proof (cases "theTextFlexpoints c")
    case True
    have "\<forall>i < length (theBlocks c). set_inv (theAssoc c) (theBlocks c ! i) \<and>
        (\<forall>b \<in> set (theBlocks c ! i). saveable (be_state b) \<and>
          text_tag c (0 + i) (signed_drop_bit (text_shift c) (be_tag b)) = be_tag b)"
    proof (intro allI impI conjI ballI)
      fix i assume "i < length (theBlocks c)"
      then show "set_inv (theAssoc c) (theBlocks c ! i)" using i(3) by simp
    next
      fix i b assume b: "i < length (theBlocks c)" "b \<in> set (theBlocks c ! i)"
      then show "saveable (be_state b)" using st by (meson nth_mem)
      show "text_tag c (0 + i) (signed_drop_bit (text_shift c) (be_tag b)) = be_tag b"
        using text_tag_back [OF i(1) t [OF True], of i b] b i(2) by simp
    qed
    from save_load_sets_text [OF a this] obtain ss where "map_result (save_set_text c) (theBlocks c) = Inr ss"
      "load_sets_text c 0 ss (theBlocks d) = Inr (reload_sets (\<lambda>s. text_tag c s 0) (theAssoc c) 0 (theBlocks c))"
      unfolding b by blast
    then show ?thesis
      using d(1) True same_geometry_text [OF d(1)]
      by (intro exI [of _ "TextFlexpoint ss"] exI [of _ "\<lambda>s. text_tag c s 0"])
        (simp add: StdCache_saveState_def StdCache_loadState_def same_geometry_def)
  next
    case False
    obtain ss where "map_result (save_set (theAssoc c)) (theBlocks c) = Inr ss"
      "load_sets (theAssoc c) ss (theBlocks d) = Inr (reload_sets (\<lambda>_. 0) (theAssoc c) 0 (theBlocks c))"
      unfolding b using save_load_sets [of "theBlocks c" "theAssoc c" 0] i st a by auto
    then show ?thesis
      using d(1) False
      by (intro exI [of _ "BinaryFlexpoint (theNumSets c) (theAssoc c) ss"] exI [of _ "\<lambda>_. 0"])
        (simp add: StdCache_saveState_def StdCache_loadState_def same_geometry_def)
  qed
qed

section \<open>The states of the blocks\<close>

text \<open>
  What a protocol sees of the array: the state of every block. The blocks that are valid sit
  in the set of their address; invalid ones may be anywhere.
\<close>

definition placed :: "StdCache \<Rightarrow> bool" where
  "placed c \<longleftrightarrow> (\<forall>s < theNumSets c. \<forall>x \<in> set (abs_cache c s). saveable (snd x) \<and>
     (isValid (snd x) \<longrightarrow> get_tag c (fst x) = fst x \<and> get_set c (fst x) = s))"

definition array_inv :: "nat \<Rightarrow> StdCache \<Rightarrow> bool" where
  "array_inv k c \<longleftrightarrow> cache_inv c \<and> placed c \<and> blockShift c = k"

definition block_of :: "nat \<Rightarrow> u64 \<Rightarrow> u64" where
  "block_of k a = a AND NOT (mask k)"

definition set_state :: "nat \<Rightarrow> u64 \<Rightarrow> CoherenceState_t \<Rightarrow> (u64 \<Rightarrow> CoherenceState_t) \<Rightarrow> u64 \<Rightarrow> CoherenceState_t" where
  "set_state k a s f = (\<lambda>x. if block_of k x = block_of k a then s else f x)"

definition looked_up :: "StdCache \<Rightarrow> StdLookupResult \<Rightarrow> u64 \<Rightarrow> bool" where
  "looked_up c r a \<longleftrightarrow> lr_address r = get_tag c a \<and> lr_set r = get_set c a \<and> (\<exists>b. handle c r b \<and>
     (be_tag b = get_tag c a \<or>
      get_tag c a \<notin> be_tag ` set (theBlocks c ! get_set c a) \<and> lr_state r = kInvalid))"

lemma block_of_idem [simp]: "block_of k (block_of k a) = block_of k a"
  by (simp add: block_of_def ac_simps)

lemma array_inv_tag: "array_inv k c \<Longrightarrow> get_tag c = block_of k"
  by (auto simp: array_inv_def cache_inv_def geometry_def get_tag_def block_of_def fun_eq_iff)

lemma state_of_block: "array_inv k c \<Longrightarrow> block_of k x = block_of k a \<Longrightarrow> state_of c x = state_of c a"
  using same_tag_same_set [of c x a] array_inv_tag [of k c]
  by (simp add: state_of_def array_inv_def cache_inv_def)

lemma abs_distinct: "set_inv assoc bs \<Longrightarrow> distinct (map fst (abs_set bs))"
  by (simp add: set_inv_def abs_set_def comp_def)

lemma map_of_spec_move: 
  assumes "distinct (map fst xs)"
  shows "map_of (spec_move mru lru t xs) = map_of xs" "set (spec_move mru lru t xs) = set xs"
proof -
  show "set (spec_move mru lru t xs) = set xs" by (auto simp: spec_move_def spec_touch_def spec_demote_def)
  moreover have "distinct (map fst (spec_move mru lru t xs))"
    using assms by (auto simp: spec_move_def spec_touch_def spec_demote_def distinct_map inj_on_def)
  ultimately show "map_of (spec_move mru lru t xs) = map_of xs"
    using map_of_inject_set [OF _ assms] by blast
qed

lemma map_of_spec_set:
  "map_of (spec_set t v xs) = (if t \<in> fst ` set xs then (map_of xs)(t \<mapsto> v) else map_of xs)"
  by (induction xs) (auto simp: spec_set_def fun_eq_iff)

lemma map_of_replace:
  assumes "t = k \<or> t \<notin> fst ` set xs"
  shows "map_of (filter (\<lambda>x. fst x \<noteq> k) xs @ [(t, v)]) = (map_of xs)(k := None, t \<mapsto> v)"
proof (rule ext)
  fix x
  have "map_of (filter (\<lambda>x. fst x \<noteq> k) xs) x = (if x = k then None else map_of xs x)"
    by (induction xs) auto
  moreover have "t = k \<or> map_of xs t = None" using assms by (auto simp: map_of_eq_None_iff)
  ultimately show "map_of (filter (\<lambda>x. fst x \<noteq> k) xs @ [(t, v)]) x = ((map_of xs)(k := None, t \<mapsto> v)) x"
    by (auto simp: map_add_def split: option.split)
qed

text \<open>A new list of blocks for one set keeps the invariant if it is well placed itself.\<close>

lemma array_inv_update:
  assumes inv: "array_inv k c" and c': "cache_inv c'" "theNumSets c' = theNumSets c" "get_set c' = get_set c"
      "get_tag c' = get_tag c" "blockShift c' = blockShift c"
    and abs: "abs_cache c' = (abs_cache c)(s := xs)"
    and xs: "\<forall>x \<in> set xs. x \<in> set (abs_cache c s) \<or> saveable (snd x) \<and>
      (isValid (snd x) \<longrightarrow> get_tag c (fst x) = fst x \<and> get_set c (fst x) = s)"
  shows "array_inv k c'"
  using inv c' xs unfolding array_inv_def placed_def abs by auto

lemma looked_up_set:
  assumes "array_inv k c"
  shows "get_set c a < theNumSets c" "set_inv (theAssoc c) (theBlocks c ! get_set c a)"
  using assms get_set_less cache_inv_set(1,3) unfolding array_inv_def by blast+

lemma lookup_law:
  assumes inv: "array_inv k c"
  shows "\<exists>c' r. StdCache_lookup a c = Inr (c', r) \<and> array_inv k c' \<and> state_of c' = state_of c \<and> looked_up c' r a"
proof -
  have ci: "cache_inv c" using inv by (simp add: array_inv_def)
  note g = looked_up_set(1) [OF inv, of a]
  obtain c' r b where l: "StdCache_lookup a c = Inr (c', r)" "cache_inv c'" "state_of c' = state_of c"
    "lr_address r = get_tag c a" "lr_set r = get_set c a" "lr_state r = state_of c a"
    "theNumSets c' = theNumSets c" "theAssoc c' = theAssoc c" "get_tag c' = get_tag c" "get_set c' = get_set c"
    "b \<in> set (theBlocks c' ! get_set c a)" "be_way b = lr_block r"
    "be_tag b = get_tag c a \<and> be_state b = state_of c a \<or>
     get_tag c a \<notin> be_tag ` set (theBlocks c' ! get_set c a) \<and> state_of c a = kInvalid \<and> c' = c \<and>
     b = hd (theBlocks c ! get_set c a)"
    by (rule lookup_ok [OF ci, of a])
  have "array_inv k c'"
  proof (cases "get_tag c a \<in> be_tag ` set (theBlocks c ! get_set c a) \<or> \<not> length (theBlocks c ! get_set c a) < theAssoc c")
    case True
    then have "c' = c"
      using l(1) lookup_hit [OF ci, of _ a] lookup_miss(2) [OF ci, of a]
      by (cases "get_tag c a \<in> be_tag ` set (theBlocks c ! get_set c a)") force+
    then show ?thesis using inv by simp
  next
    case False
    let ?b = "\<lparr>be_tag = get_tag c a, be_state = kInvalid, be_way = length (theBlocks c ! get_set c a)\<rparr>"
    have c': "c' = c\<lparr>theBlocks := (theBlocks c)[get_set c a := ?b # theBlocks c ! get_set c a]\<rparr>"
      using l(1) lookup_miss(1) [OF ci, of a] False by simp
    show ?thesis
      by (rule array_inv_update [OF inv l(2,7,10,9)], simp add: c',
          unfold c' abs_cache_update [OF ci g], rule refl)
        (auto simp: abs_set_def abs_cache_def saveable_def isValid_def kInvalid_def)
  qed
  moreover have "looked_up c' r a"
    unfolding looked_up_def using l g by (auto simp: handle_def)
  ultimately show ?thesis using l by blast
qed

lemma looked_up_block:
  assumes inv: "array_inv k c" and l: "looked_up c r a"
  obtains b where "handle c r b" "lr_address r = get_tag c a" "lr_set r = get_set c a"
    "be_tag b = get_tag c a \<and> state_of c a = be_state b \<or>
     get_tag c a \<notin> be_tag ` set (theBlocks c ! get_set c a) \<and> lr_state r = kInvalid \<and> state_of c a = kInvalid"
proof -
  obtain b where b: "handle c r b" "lr_address r = get_tag c a" "lr_set r = get_set c a"
    "be_tag b = get_tag c a \<or> get_tag c a \<notin> be_tag ` set (theBlocks c ! get_set c a) \<and> lr_state r = kInvalid"
    using l by (auto simp: looked_up_def)
  have "b \<in> set (theBlocks c ! get_set c a)" using b by (simp add: handle_def)
  then have "be_tag b = get_tag c a \<Longrightarrow> state_of c a = be_state b"
    using map_of_abs [OF looked_up_set(2) [OF inv]] by (fastforce simp: state_of_def abs_cache_def)
  moreover have "get_tag c a \<notin> be_tag ` set (theBlocks c ! get_set c a) \<Longrightarrow> state_of c a = kInvalid"
    using abs_tags [of "theBlocks c ! get_set c a"]
    by (simp add: state_of_def abs_cache_def map_of_eq_None_iff [THEN iffD2] split: option.split)
  ultimately show thesis using b that by blast
qed

lemma getState_law:
  assumes inv: "array_inv k c" and l: "looked_up c r a"
  shows "StdCache_getState r c = Inr (state_of c a)"
proof -
  obtain b where b: "handle c r b" "lr_address r = get_tag c a" "lr_set r = get_set c a"
    "be_tag b = get_tag c a \<and> state_of c a = be_state b \<or>
     get_tag c a \<notin> be_tag ` set (theBlocks c ! get_set c a) \<and> lr_state r = kInvalid \<and> state_of c a = kInvalid"
    by (rule looked_up_block [OF assms])
  have "cache_inv c" using inv by (simp add: array_inv_def)
  then have "StdCache_getState r c = Inr (if be_tag b = lr_address r then be_state b else lr_state r)"
    using b(1) by (rule getState_ok)
  moreover have "be_tag b = get_tag c a \<Longrightarrow> get_tag c a \<in> be_tag ` set (theBlocks c ! get_set c a)"
    using b(1,3) unfolding handle_def by (metis image_eqI)
  ultimately show ?thesis using b by auto
qed

text \<open>How the states change with the blocks of one set.\<close>

lemma state_of_update:
  assumes "abs_cache c' = (abs_cache c)(get_set c a := xs)" "get_set c' = get_set c" "get_tag c' = get_tag c"
  shows "state_of c' x = (if get_set c x = get_set c a
    then (case map_of xs (get_tag c x) of None \<Rightarrow> kInvalid | Some s \<Rightarrow> s) else state_of c x)"
  using assms by (simp add: state_of_def)

lemma change_law:
  assumes inv: "array_inv k c" and l: "looked_up c r a" and v: "state_of c a \<noteq> kInvalid" and st: "saveable st"
  shows "\<exists>c'. StdCache_updateState st mru lru r c = Inr c' \<and> array_inv k c' \<and>
    state_of c' = set_state k a st (state_of c)"
proof -
  obtain b where b: "handle c r b" "lr_set r = get_set c a" "be_tag b = get_tag c a" "state_of c a = be_state b"
    using looked_up_block [OF inv l] v by metis
  have ci: "cache_inv c" and pl: "placed c" using inv by (simp_all add: array_inv_def)
  note g = looked_up_set [OF inv, of a]
  let ?xs = "abs_cache c (get_set c a)"
  let ?ys = "spec_move mru lru (be_tag b) (spec_set (be_tag b) st ?xs)"
  obtain bs where u: "StdCache_updateState st mru lru r c = Inr (c\<lparr>theBlocks := (theBlocks c)[get_set c a := bs]\<rparr>)"
    "set_inv (theAssoc c) bs" "abs_set bs = ?ys"
    using updateState_ok [OF ci b(1), of st mru lru] b(2) by auto
  let ?c = "c\<lparr>theBlocks := (theBlocks c)[get_set c a := bs]\<rparr>"
  have abs: "abs_cache ?c = (abs_cache c)(get_set c a := ?ys)" using abs_cache_update [OF ci g(1)] u(3) by simp
  have d: "distinct (map fst ?xs)" using abs_distinct [OF g(2)] by (simp add: abs_cache_def)
  then have d': "distinct (map fst (spec_set (be_tag b) st ?xs))"
    by (simp add: spec_set_def distinct_map inj_on_def)
  have mem: "(be_tag b, be_state b) \<in> set ?xs"
    using b(1,2) by (force simp: handle_def abs_cache_def abs_set_def)
  have set_ys: "set ?ys = set (spec_set (be_tag b) st ?xs)" by (rule map_of_spec_move(2) [OF d'])
  have tag: "get_tag c (get_tag c a) = get_tag c a" "get_set c (get_tag c a) = get_set c a"
    using get_tag_idem [of c a] ci by (simp_all add: cache_inv_def)
  have "array_inv k ?c"
    by (rule array_inv_update [OF inv cache_inv_update [OF ci u(2)] _ _ _ _ abs])
      (use set_ys tag b(3) st in \<open>auto simp: spec_set_def\<close>)
  moreover have "state_of ?c x = set_state k a st (state_of c) x" for x
  proof -
    have "map_of ?ys = (map_of ?xs)(get_tag c a \<mapsto> st)"
      using map_of_spec_move(1) [OF d'] map_of_spec_set [of "be_tag b" st ?xs] mem b(3) by force
    moreover have "block_of k x = block_of k a \<Longrightarrow> get_set c x = get_set c a"
      using same_tag_same_set [of c x a] ci array_inv_tag [OF inv] by (simp add: cache_inv_def)
    ultimately show ?thesis
      using state_of_update [OF abs] array_inv_tag [OF inv] by (auto simp: set_state_def state_of_def)
  qed
  ultimately show ?thesis using u(1) by (auto simp: fun_eq_iff)
qed

lemma touch_law:
  assumes inv: "array_inv k c" and l: "looked_up c r a" and v: "state_of c a \<noteq> kInvalid"
  shows "\<exists>c'. StdCache_updateLRU r c = Inr c' \<and> array_inv k c' \<and> state_of c' = state_of c"
proof -
  obtain b where b: "handle c r b" "lr_set r = get_set c a" using looked_up_block [OF inv l] by metis
  have ci: "cache_inv c" using inv by (simp add: array_inv_def)
  note g = looked_up_set [OF inv, of a]
  let ?xs = "abs_cache c (get_set c a)"
  let ?ys = "spec_move True False (be_tag b) ?xs"
  obtain bs where u: "StdCache_updateLRU r c = Inr (c\<lparr>theBlocks := (theBlocks c)[get_set c a := bs]\<rparr>)"
    "set_inv (theAssoc c) bs" "abs_set bs = ?ys"
    using updateLRU_ok [OF ci b(1)] b(2) by (auto simp: spec_move_def)
  let ?c = "c\<lparr>theBlocks := (theBlocks c)[get_set c a := bs]\<rparr>"
  have abs: "abs_cache ?c = (abs_cache c)(get_set c a := ?ys)" using abs_cache_update [OF ci g(1)] u(3) by simp
  have d: "distinct (map fst ?xs)" using abs_distinct [OF g(2)] by (simp add: abs_cache_def)
  have "array_inv k ?c"
    by (rule array_inv_update [OF inv cache_inv_update [OF ci u(2)] _ _ _ _ abs])
      (simp_all add: map_of_spec_move(2) [OF d])
  moreover have "state_of ?c = state_of c"
    using state_of_update [OF abs] map_of_spec_move(1) [OF d] by (auto simp: fun_eq_iff state_of_def)
  ultimately show ?thesis using u(1) by blast
qed


text \<open>
  Allocation replaces one block. The block it gives up was in the state the callback is told
  and is another one; afterwards it is invalid.
\<close>

definition drop_victim :: "nat \<Rightarrow> (u64 \<times> CoherenceState_t) option \<Rightarrow> (u64 \<Rightarrow> CoherenceState_t) \<Rightarrow> u64 \<Rightarrow> CoherenceState_t" where
  "drop_victim k v f = (case v of None \<Rightarrow> f | Some (t, s) \<Rightarrow> set_state k t kInvalid f)"

definition valid_victim :: "nat \<Rightarrow> (u64 \<Rightarrow> CoherenceState_t) \<Rightarrow> u64 \<Rightarrow> (u64 \<times> CoherenceState_t) option \<Rightarrow> bool" where
  "valid_victim k f a v \<longleftrightarrow> (case v of None \<Rightarrow> True
     | Some (t, s) \<Rightarrow> f t = s \<and> s \<noteq> kInvalid \<and> saveable s \<and> block_of k t = t \<and> t \<noteq> block_of k a)"

lemma saveable_valid: "saveable s \<Longrightarrow> isValid s \<longleftrightarrow> s \<noteq> kInvalid"
  by (auto simp: saveable_def isValid_def state_defs kValid_Bit_def)

lemma fill_law:
  assumes inv: "array_inv k (fc_cache fc)" and l: "looked_up (fc_cache fc) r a" and st: "saveable st"
  shows "\<exists>c1 v. array_inv k c1 \<and> state_of c1 = state_of (fc_cache fc) \<and>
    valid_victim k (state_of (fc_cache fc)) a v \<and>
    (\<forall>fc' e'. answers evict v (fc\<lparr>fc_cache := c1\<rparr>, e) (fc', e') \<longrightarrow>
      (\<exists>c2. StdCache_allocate evict st r (fc, e) = Inr (fc'\<lparr>fc_cache := c2\<rparr>, e') \<and> array_inv k c2 \<and>
        state_of c2 = set_state k a st (drop_victim k v (state_of (fc_cache fc)))))"
proof -
  let ?c = "fc_cache fc"
  define t where "t = get_tag ?c a"
  have ci: "cache_inv ?c" and pl: "placed ?c" using inv by (simp_all add: array_inv_def)
  note g = looked_up_set [OF inv, of a]
  obtain b where b: "handle ?c r b" "lr_address r = t" "lr_set r = get_set ?c a"
    "be_tag b = t \<and> state_of ?c a = be_state b \<or>
     t \<notin> be_tag ` set (theBlocks ?c ! get_set ?c a) \<and> state_of ?c a = kInvalid"
    using looked_up_block [OF inv l] unfolding t_def by metis
  let ?c1 = "?c\<lparr>theAllocateInProgress := True, theAllocateAddr := t\<rparr>"
  let ?v = "evictee t b"
  let ?xs = "abs_cache ?c (get_set ?c a)"
  have tag: "get_tag ?c t = t" "get_set ?c t = get_set ?c a" "t = block_of k a"
    using get_tag_idem [of ?c a] ci array_inv_tag [OF inv] by (simp_all add: cache_inv_def t_def)
  have mem: "(be_tag b, be_state b) \<in> set ?xs" using b(1,3) by (force simp: handle_def abs_cache_def abs_set_def)
  have bst: "saveable (be_state b)"
    "isValid (be_state b) \<Longrightarrow> get_tag ?c (be_tag b) = be_tag b \<and> get_set ?c (be_tag b) = get_set ?c a"
    using pl mem g(1) unfolding placed_def by force+
  have d: "map_of ?xs (be_tag b) = Some (be_state b)"
    using abs_distinct [OF g(2)] mem by (simp add: abs_cache_def)
  have same: "array_inv k ?c1" "state_of ?c1 = state_of ?c"
    using inv by (simp_all add: array_inv_def placed_def state_of_def fun_eq_iff)
  have vic: "valid_victim k (state_of ?c) a ?v"
    using bst d tag(3) array_inv_tag [OF inv]
    by (auto simp: valid_victim_def evictee_def saveable_valid state_of_def split: option.split)
  have "\<exists>c2. StdCache_allocate evict st r (fc, e) = Inr (fc'\<lparr>fc_cache := c2\<rparr>, e') \<and> array_inv k c2 \<and>
      state_of c2 = set_state k a st (drop_victim k ?v (state_of ?c))"
    if q: "answers evict ?v (fc\<lparr>fc_cache := ?c1\<rparr>, e) (fc', e')" for fc' e'
  proof -
    let ?ys = "filter (\<lambda>x. fst x \<noteq> be_tag b) ?xs @ [(t, st)]"
    obtain bs where al: "StdCache_allocate evict st r (fc, e) =
        Inr (fc'\<lparr>fc_cache := ?c\<lparr>theBlocks := (theBlocks ?c)[get_set ?c a := bs],
             theAllocateInProgress := False, theAllocateAddr := t\<rparr>\<rparr>, e')"
      "set_inv (theAssoc ?c) bs" "abs_set bs = ?ys"
      using allocate_ok [OF ci b(1), of t evict e fc' e' st] b tag q by (auto simp: allocating_def)
    let ?c2 = "?c\<lparr>theBlocks := (theBlocks ?c)[get_set ?c a := bs], theAllocateInProgress := False, theAllocateAddr := t\<rparr>"
    have abs: "abs_cache ?c2 = (abs_cache ?c)(get_set ?c a := ?ys)"
      using abs_cache_update [OF ci g(1)] al(3) by simp
    have ci2: "cache_inv ?c2" using cache_inv_update [OF ci al(2)] by simp
    have "array_inv k ?c2"
      by (rule array_inv_update [OF inv ci2 _ _ _ _ abs]) (use st tag in auto)
    moreover have "state_of ?c2 x = set_state k a st (drop_victim k ?v (state_of ?c)) x" for x
    proof -
      have tags: "fst ` set ?xs = be_tag ` set (theBlocks ?c ! get_set ?c a)"
        by (simp add: abs_cache_def abs_tags)
      have m: "map_of ?ys = (map_of ?xs)(be_tag b := None, t \<mapsto> st)"
        by (rule map_of_replace) (use b(4) tags in auto)
      have gs: "block_of k x = block_of k y \<Longrightarrow> get_set ?c x = get_set ?c y" for y
        using same_tag_same_set [of ?c x y] ci array_inv_tag [OF inv] by (simp add: cache_inv_def)
      have gb: "get_tag ?c x = block_of k x" using array_inv_tag [OF inv] by simp
      have su: "state_of ?c2 x = (if get_set ?c x = get_set ?c a
          then (case map_of ?ys (get_tag ?c x) of None \<Rightarrow> kInvalid | Some s \<Rightarrow> s) else state_of ?c x)"
        by (rule state_of_update [OF abs]) simp_all
      consider "block_of k x = t" | "block_of k x \<noteq> t" "be_tag b = block_of k x" "get_set ?c x = get_set ?c a"
        | "block_of k x \<noteq> t" "be_tag b = block_of k x" "get_set ?c x \<noteq> get_set ?c a"
        | "block_of k x \<noteq> t" "be_tag b \<noteq> block_of k x" by blast
      then show ?thesis
      proof cases
        case 1
        then show ?thesis using su m gs [of a] gb tag(3) by (simp add: set_state_def)
      next
        case 2
        have "\<not> isValid (be_state b) \<Longrightarrow> state_of ?c x = kInvalid"
          using d 2 gb bst(1) by (simp add: state_of_def saveable_valid)
        then show ?thesis using 2 su m gb tag(3) by (simp add: set_state_def drop_victim_def evictee_def)
      next
        case 3
        have "\<not> isValid (be_state b)"
          using bst(2) 3 get_tag_idem(2) [of ?c x] ci gb by (auto simp: cache_inv_def)
        then show ?thesis using 3 su tag(3) by (simp add: set_state_def drop_victim_def evictee_def)
      next
        case 4
        have "block_of k x \<noteq> block_of k (be_tag b)" if "isValid (be_state b)"
          using 4 bst(2) [OF that] array_inv_tag [OF inv] by simp
        then show ?thesis using 4 su m gb tag(3)
          by (auto simp: set_state_def drop_victim_def evictee_def state_of_def)
      qed
    qed
    ultimately show ?thesis using al(1) by (intro exI [of _ ?c2]) (simp add: fun_eq_iff)
  qed
  then show ?thesis using same vic by blast
qed

lemma new_law:
  assumes "StdCache_new bsize sets assoc text = Inr c" "sets < 2 ^ 32" "bsize < 2 ^ 32" "assoc \<le> 65536"
  shows "array_inv (blockShift c) c" "state_of c = (\<lambda>_. kInvalid)"
proof -
  note n = StdCache_new_inv [OF assms]
  have e: "s < theNumSets c \<Longrightarrow> abs_cache c s = []" for s
    using n(1,5) by (simp add: cache_inv_def abs_cache_def abs_set_def)
  then show "array_inv (blockShift c) c" using n(1) by (simp add: array_inv_def placed_def)
  have "get_set c a < theNumSets c" for a using get_set_less n(1) by (simp add: cache_inv_def)
  then show "state_of c = (\<lambda>_. kInvalid)" using e by (simp add: state_of_def fun_eq_iff)
qed

end
