(* ===== verification/Fast_Protocol.thy ===== *)
theory Fast_Protocol
  imports Fast_Cache
begin

text \<open>
  The coherence protocols of the trace mode caches and the component around them:
  \<open>components/FastCache/CoherenceProtocol.hpp\<close>, \<open>InclusiveMOESI.hpp\<close>, \<open>InclusiveMESI.hpp\<close>
  and \<open>FastCacheImpl.cpp\<close>. The virtual functions of a cache and its lookup results are a
  record of operations, so that the protocol is independent of the tag array behind it. The
  channels to the other components are arguments: they may change the message they are given
  and may come back to this component, so they work on its whole state.
\<close>

section \<open>Accesses and actions\<close>

datatype access_t = kReadAccess | kWriteAccess | kFetchAccess | kUpgrade | kEvictClean
  | kEvictWritable | kEvictDirty | kStoreAccess | kNAWAccess | kUnknownAccess

definition message2access :: "MemoryMessageType \<Rightarrow> access_t result" where
  "message2access t =
     (if t = ReadReq then Inr kReadAccess
      else if t = WriteReq then Inr kWriteAccess
      else if t = FetchReq then Inr kFetchAccess
      else if t = UpgradeReq then Inr kUpgrade
      else if t = EvictClean then Inr kEvictClean
      else if t = EvictWritable then Inr kEvictWritable
      else if t = EvictDirty then Inr kEvictDirty
      else if t = LoadReq then Inr kReadAccess
      else if t \<in> {RMWReq, CmpxReq, StoreReq} then Inr kStoreAccess
      else if t = NonAllocatingStoreReq then Inr kNAWAccess
      else Inl AssertFailed)"

text \<open>The parameters of the action templates.\<close>

datatype action_param = POISON | SendNone | SendUpgrade | SendWrite | SendRead | SendFetch
  | NoAllocate | Allocate | SameState | M_State | O_State | E_State | S_State | I_State
  | UpdateLRU | NoUpdateLRU | FillWritable | FillValid | FillDepend | FillDirty | NoResponse
  | DependState | SnoopDepend | MigratoryDepend | DoSnoop | NoSnoop | SendNAW

type_synonym action = "action_param \<times> action_param \<times> action_param \<times> action_param \<times> action_param"

datatype snoop_resp = Resp MemoryMessageType | RespDepend | RespPoison

type_synonym snoop_action = "snoop_resp \<times> action_param \<times> action_param \<times> bool \<times> bool"

section \<open>Interfaces\<close>

record ('c, 'r, 'e) cache_ops =
  op_lookup :: "u64 \<Rightarrow> 'c \<Rightarrow> ('c \<times> 'r) result"
  op_allocate :: "(u64 \<Rightarrow> CoherenceState_t \<Rightarrow> ('c, 'e) world \<Rightarrow> ('c, 'e) world result) \<Rightarrow>
     CoherenceState_t \<Rightarrow> 'r \<Rightarrow> ('c, 'e) world \<Rightarrow> ('c, 'e) world result"
  op_changeState :: "CoherenceState_t \<Rightarrow> bool \<Rightarrow> bool \<Rightarrow> 'r \<Rightarrow> 'c \<Rightarrow> 'c result"
  op_updateLRU :: "'r \<Rightarrow> 'c \<Rightarrow> 'c result"
  op_getState :: "'r \<Rightarrow> 'c \<Rightarrow> CoherenceState_t result"

definition StdCache_ops :: "(StdCache, StdLookupResult, 'e) cache_ops" where
  "StdCache_ops = \<lparr>op_lookup = StdCache_lookup, op_allocate = StdCache_allocate,
     op_changeState = StdCache_updateState, op_updateLRU = StdCache_updateLRU,
     op_getState = StdCache_getState\<rparr>"

type_synonym ('c, 'e) port = "MemoryMessage \<Rightarrow> ('c, 'e) world \<Rightarrow> (MemoryMessage \<times> ('c, 'e) world) result"

text \<open>The output channels, and the global counter that numbers messages.\<close>

record ('c, 'e) channels =
  RequestOut :: "('c, 'e) port"
  SnoopOutI :: "('c, 'e) port"
  SnoopOutD :: "('c, 'e) port"
  next_serial :: "'e \<Rightarrow> u32 \<times> 'e"

definition set_type :: "MemoryMessageType \<Rightarrow> MemoryMessage \<times> ('c, 'e) world \<Rightarrow>
    (MemoryMessage \<times> ('c, 'e) world) result" where
  "set_type t = (\<lambda>(msg, w). Inr (msg\<lparr>theType := t\<rparr>, w))"

definition cache_step :: "('c \<Rightarrow> 'c result) \<Rightarrow> MemoryMessage \<times> ('c, 'e) world \<Rightarrow>
    (MemoryMessage \<times> ('c, 'e) world) result" where
  "cache_step f = (\<lambda>(msg, w). rbind (on_cache f w) (\<lambda>w. Inr (msg, w)))"

section \<open>Actions on requests\<close>

definition read_fill :: "bool \<Rightarrow> MemoryMessageType \<Rightarrow> (CoherenceState_t \<times> MemoryMessageType) result" where
  "read_fill is_load t =
     (if t = MissReply then Inr (kShared, t)
      else if t = MissReplyWritable then Inr (kExclusive, t)
      else if t = MissReplyDirty then Inr (if is_load then kModified else kExclusive, t)
      else if t = FwdReplyOwned then Inr (kOwned, MissReply)
      else Inl AssertFailed)"

definition allocate_step ::
    "('c, 'r, 'e) cache_ops \<Rightarrow> (u64 \<Rightarrow> CoherenceState_t \<Rightarrow> ('c, 'e) world \<Rightarrow> ('c, 'e) world result) \<Rightarrow>
     CoherenceState_t \<Rightarrow> 'r \<Rightarrow> MemoryMessage \<times> ('c, 'e) world \<Rightarrow> (MemoryMessage \<times> ('c, 'e) world) result" where
  "allocate_step ops evict s r = (\<lambda>(msg, w). rbind (op_allocate ops evict s r w) (\<lambda>w. Inr (msg, w)))"

text \<open>
  One branch for every specialisation of the template; all other combinations fail its
  assertion.
\<close>

definition doCoherenceAction ::
    "('c, 'r, 'e) cache_ops \<Rightarrow> ('c, 'e) port \<Rightarrow>
     (u64 \<Rightarrow> CoherenceState_t \<Rightarrow> ('c, 'e) world \<Rightarrow> ('c, 'e) world result) \<Rightarrow> action \<Rightarrow> 'r \<Rightarrow>
     MemoryMessage \<Rightarrow> ('c, 'e) world \<Rightarrow> (MemoryMessage \<times> ('c, 'e) world) result" where
  "doCoherenceAction ops forward evict act r msg w =
     (if act = (SendNone, NoAllocate, SameState, NoUpdateLRU, NoResponse) then Inr (msg, w)
      else if act = (SendNone, NoAllocate, SameState, UpdateLRU, FillWritable) then
        rbind (cache_step (op_updateLRU ops r) (msg, w)) (set_type MissReplyWritable)
      else if act = (SendNone, NoAllocate, DependState, UpdateLRU, FillDirty) then
        rbind (if theType msg = LoadReq then cache_step (op_updateLRU ops r) (msg, w)
               else cache_step (op_changeState ops kExclusive True False r) (msg, w))
          (set_type MissReplyDirty)
      else if act = (SendNone, NoAllocate, SameState, UpdateLRU, FillDirty) then
        rbind (cache_step (op_updateLRU ops r) (msg, w)) (set_type MissReplyDirty)
      else if act = (SendNone, NoAllocate, E_State, UpdateLRU, FillDirty) then
        rbind (cache_step (op_changeState ops kExclusive True False r) (msg, w)) (set_type MissReplyDirty)
      else if act = (SendNone, NoAllocate, SameState, UpdateLRU, FillValid) then
        rbind (cache_step (op_updateLRU ops r) (msg, w)) (set_type MissReply)
      else if act = (SendNone, NoAllocate, M_State, UpdateLRU, FillWritable) then
        rbind (cache_step (op_changeState ops kModified True False r) (msg, w)) (set_type MissReplyWritable)
      else if act = (SendNone, NoAllocate, SameState, UpdateLRU, NoResponse) then
        cache_step (op_updateLRU ops r) (msg, w)
      else if act = (SendUpgrade, NoAllocate, M_State, UpdateLRU, FillWritable) then
        rbind (forward (msg\<lparr>theType := UpgradeReq\<rparr>) w) (\<lambda>mw.
        rbind (cache_step (op_changeState ops kModified True False r) mw) (set_type MissReplyWritable))
      else if act = (SendUpgrade, NoAllocate, E_State, UpdateLRU, FillWritable) then
        rbind (forward (msg\<lparr>theType := UpgradeReq\<rparr>) w) (\<lambda>mw.
        rbind (cache_step (op_changeState ops kExclusive True False r) mw) (set_type MissReplyWritable))
      else if act = (SendNone, NoAllocate, M_State, UpdateLRU, NoResponse) then
        cache_step (op_changeState ops kModified True False r) (msg, w)
      else if act = (SendNone, NoAllocate, E_State, UpdateLRU, NoResponse) then
        cache_step (op_changeState ops kExclusive True False r) (msg, w)
      else if act = (SendUpgrade, NoAllocate, M_State, UpdateLRU, NoResponse) then
        rbind (forward (msg\<lparr>theType := UpgradeReq\<rparr>) w)
          (cache_step (op_changeState ops kModified True False r))
      else if act = (SendUpgrade, NoAllocate, E_State, UpdateLRU, NoResponse) then
        rbind (forward (msg\<lparr>theType := UpgradeReq\<rparr>) w)
          (cache_step (op_changeState ops kExclusive True False r))
      else if act = (SendRead, Allocate, DependState, UpdateLRU, FillDepend) then
        rbind (forward (msg\<lparr>theType := ReadReq\<rparr>) w) (\<lambda>(m, w').
        rbind (read_fill (theType msg = LoadReq) (theType m)) (\<lambda>(s, t).
          allocate_step ops evict s r (m\<lparr>theType := t\<rparr>, w')))
      else if act = (SendWrite, Allocate, M_State, UpdateLRU, FillDepend) then
        rbind (forward (msg\<lparr>theType := WriteReq\<rparr>) w) (allocate_step ops evict kModified r)
      else if act = (SendWrite, Allocate, E_State, UpdateLRU, FillDepend) then
        rbind (forward (msg\<lparr>theType := WriteReq\<rparr>) w) (allocate_step ops evict kExclusive r)
      else if act = (SendFetch, Allocate, S_State, UpdateLRU, FillValid) then
        rbind (forward (msg\<lparr>theType := FetchReq\<rparr>) w) (\<lambda>mw.
        rbind (allocate_step ops evict kShared r mw) (set_type MissReply))
      else if act = (SendFetch, Allocate, DependState, UpdateLRU, FillValid) then
        rbind (forward (msg\<lparr>theType := FetchReq\<rparr>) w) (\<lambda>(m, w').
        rbind (allocate_step ops evict (if theType m = FwdReplyOwned then kOwned else kShared) r (m, w'))
          (set_type MissReply))
      else if act = (SendNAW, NoAllocate, SameState, NoUpdateLRU, FillDepend) then forward msg w
      else Inl AssertFailed)"

section \<open>Actions on snoops\<close>

definition SnoopAction ::
    "('c, 'r, 'e) cache_ops \<Rightarrow> ('c, 'e) port \<Rightarrow> snoop_action \<Rightarrow> 'r \<Rightarrow>
     MemoryMessage \<Rightarrow> ('c, 'e) world \<Rightarrow> (MemoryMessage \<times> ('c, 'e) world) result" where
  "SnoopAction ops continueSnoop act r msg w =
     (case act of (resp, snoop, nstate, mru, lru) \<Rightarrow>
      (case resp of
        Resp t \<Rightarrow>
          if snoop = NoSnoop \<and> nstate = SameState \<and> \<not> mru \<and> \<not> lru then Inr (msg\<lparr>theType := t\<rparr>, w)
          else if snoop = NoSnoop \<and> nstate = S_State then
            cache_step (op_changeState ops kShared mru lru r) (msg\<lparr>theType := t\<rparr>, w)
          else if snoop = DoSnoop \<and> nstate = S_State then
            rbind (continueSnoop msg w) (\<lambda>(m, w').
              cache_step (op_changeState ops kShared mru lru r) (m\<lparr>theType := t\<rparr>, w'))
          else if snoop = DoSnoop \<and> nstate = I_State then
            rbind (continueSnoop msg w) (\<lambda>mw.
            rbind (cache_step (op_changeState ops kInvalid mru lru r) mw) (set_type t))
          else if snoop = DoSnoop \<and> nstate = O_State then
            rbind (continueSnoop msg w) (\<lambda>mw.
            rbind (cache_step (op_changeState ops kOwned mru lru r) mw) (set_type t))
          else if t = ReturnReply \<and> snoop = DoSnoop \<and> nstate = DependState then
            rbind (continueSnoop (msg\<lparr>theType := Downgrade\<rparr>) w) (\<lambda>(m, w').
            rbind (cache_step (op_changeState ops (if theType m = DownUpdateAck then kOwned else kShared)
                     mru lru r) (m, w')) (set_type ReturnReply))
          else Inl AssertFailed
      | RespDepend \<Rightarrow>
          if snoop = DoSnoop \<and> nstate = I_State then
            rbind (continueSnoop msg w) (\<lambda>mw.
            rbind (cache_step (op_changeState ops kInvalid mru lru r) mw) (\<lambda>(m, w').
              Inr (if theType m = Invalidate then m\<lparr>theType := InvalidateAck\<rparr> else m, w')))
          else if snoop = DoSnoop \<and> nstate = S_State then
            rbind (continueSnoop msg w) (\<lambda>mw.
            rbind (cache_step (op_changeState ops kShared mru lru r) mw) (\<lambda>(m, w').
              Inr (if theType m = Downgrade then m\<lparr>theType := DowngradeAck\<rparr> else m, w')))
          else if snoop = DoSnoop \<and> nstate = DependState then
            rbind (continueSnoop msg w) (\<lambda>(m, w').
              if theType m = DownUpdateAck
              then cache_step (op_changeState ops kOwned mru lru r) (m, w')
              else rbind (cache_step (op_changeState ops kShared mru lru r) (m, w'))
                     (set_type DowngradeAck))
          else Inl AssertFailed
      | RespPoison \<Rightarrow> Inl AssertFailed))"

section \<open>Protocol tables\<close>

definition moesi_requests :: "bool \<Rightarrow> ((CoherenceState_t \<times> access_t) \<times> action \<times> string) list" where
  "moesi_requests using_traces =
    [((kModified, kReadAccess), ((SendNone, NoAllocate, E_State, UpdateLRU, FillDirty), ''HitReadModified'')),
      ((kModified, kWriteAccess), ((SendNone, NoAllocate, E_State, UpdateLRU, FillDirty), ''HitWriteModified'')),
      ((kModified, kNAWAccess), ((SendNone, NoAllocate, E_State, UpdateLRU, FillDirty), ''HitNAWModified'')),
      ((kModified, kFetchAccess), ((SendNone, NoAllocate, SameState, UpdateLRU, FillValid), ''HitFetchModified'')),
      ((kModified, kUpgrade), ((SendNone, NoAllocate, E_State, UpdateLRU, FillDirty), ''HitUpgradeModified'')),
      ((kModified, kEvictClean), ((SendNone, NoAllocate, SameState, UpdateLRU, NoResponse), ''HitEvictModified'')),
      ((kModified, kEvictWritable), ((POISON, POISON, POISON, POISON, POISON), ''HitEvictWModified'')),
      ((kModified, kEvictDirty), ((POISON, POISON, POISON, POISON, POISON), ''HitEvictDModified'')),
      ((kOwned, kReadAccess), ((SendNone, NoAllocate, SameState, UpdateLRU, FillValid), ''HitReadOwned'')),
      ((kOwned, kWriteAccess), ((SendUpgrade, NoAllocate, E_State, UpdateLRU, FillWritable), ''MissWriteOwned'')),
      ((kOwned, kNAWAccess), ((SendUpgrade, NoAllocate, E_State, UpdateLRU, FillWritable), ''MissNAWOwned'')),
      ((kOwned, kFetchAccess), ((SendNone, NoAllocate, SameState, UpdateLRU, FillValid), ''HitFetchOwned'')),
      ((kOwned, kUpgrade), ((SendUpgrade, NoAllocate, E_State, UpdateLRU, FillWritable), ''MissUpgradeOwned'')),
      ((kOwned, kEvictClean), ((SendNone, NoAllocate, SameState, UpdateLRU, NoResponse), ''HitEvictOwned''))] @
    (if using_traces then
     [((kOwned, kEvictWritable), ((SendNone, NoAllocate, SameState, UpdateLRU, NoResponse), ''MissEvictWOwned'')),
      ((kOwned, kEvictDirty), ((SendUpgrade, NoAllocate, M_State, UpdateLRU, NoResponse), ''MissEvictDOwned''))]
    else
     [((kOwned, kEvictWritable), ((POISON, POISON, POISON, POISON, POISON), ''MissEvictWOwned'')),
      ((kOwned, kEvictDirty), ((POISON, POISON, POISON, POISON, POISON), ''MissEvictDOwned''))]) @
    [((kExclusive, kReadAccess), ((SendNone, NoAllocate, SameState, UpdateLRU, FillValid), ''HitReadExclusive'')),
      ((kExclusive, kWriteAccess), ((SendNone, NoAllocate, SameState, UpdateLRU, FillWritable), ''HitWriteExclusive'')),
      ((kExclusive, kNAWAccess), ((SendNone, NoAllocate, M_State, UpdateLRU, FillWritable), ''HitNAWExclusive'')),
      ((kExclusive, kFetchAccess), ((SendNone, NoAllocate, SameState, UpdateLRU, FillValid), ''HitFetchExclusive'')),
      ((kExclusive, kUpgrade), ((SendNone, NoAllocate, SameState, UpdateLRU, FillWritable), ''HitUpgradeExclusive'')),
      ((kExclusive, kEvictClean), ((SendNone, NoAllocate, SameState, UpdateLRU, NoResponse), ''HitEvictExclusive'')),
      ((kExclusive, kEvictWritable), ((SendNone, NoAllocate, SameState, UpdateLRU, NoResponse), ''HitEvictWExclusive'')),
      ((kExclusive, kEvictDirty), ((SendNone, NoAllocate, M_State, UpdateLRU, NoResponse), ''HitEvictDExclusive'')),
      ((kShared, kReadAccess), ((SendNone, NoAllocate, SameState, UpdateLRU, FillValid), ''HitReadShared'')),
      ((kShared, kWriteAccess), ((SendUpgrade, NoAllocate, E_State, UpdateLRU, FillWritable), ''MissWriteShared'')),
      ((kShared, kNAWAccess), ((SendUpgrade, NoAllocate, E_State, UpdateLRU, FillWritable), ''MissNAWShared'')),
      ((kShared, kFetchAccess), ((SendNone, NoAllocate, SameState, UpdateLRU, FillValid), ''HitFetchShared'')),
      ((kShared, kUpgrade), ((SendUpgrade, NoAllocate, E_State, UpdateLRU, FillWritable), ''MissUpgradeShared'')),
      ((kShared, kEvictClean), ((SendNone, NoAllocate, SameState, UpdateLRU, NoResponse), ''HitEvictShared''))] @
    (if using_traces then
     [((kShared, kEvictWritable), ((SendNone, NoAllocate, SameState, UpdateLRU, NoResponse), ''MissEvictWShared'')),
      ((kShared, kEvictDirty), ((SendUpgrade, NoAllocate, M_State, UpdateLRU, NoResponse), ''MissEvictDShared''))]
    else
     [((kShared, kEvictWritable), ((POISON, POISON, POISON, POISON, POISON), ''MissEvictWShared'')),
      ((kShared, kEvictDirty), ((POISON, POISON, POISON, POISON, POISON), ''MissEvictDShared''))]) @
    [((kInvalid, kReadAccess), ((SendRead, Allocate, DependState, UpdateLRU, FillDepend), ''MissReadInvalid'')),
      ((kInvalid, kWriteAccess), ((SendWrite, Allocate, E_State, UpdateLRU, FillDepend), ''MissWriteInvalid'')),
      ((kInvalid, kNAWAccess), ((SendNAW, NoAllocate, SameState, NoUpdateLRU, FillDepend), ''MissNAWInvalid'')),
      ((kInvalid, kFetchAccess), ((SendFetch, Allocate, DependState, UpdateLRU, FillValid), ''MissFetchInvalid''))] @
    (if using_traces then
     [((kInvalid, kUpgrade), ((SendWrite, Allocate, M_State, UpdateLRU, FillDepend), ''MissUpgradeInvalid'')),
      ((kInvalid, kEvictClean), ((SendNone, NoAllocate, SameState, NoUpdateLRU, NoResponse), ''MissEvictInvalid'')),
      ((kInvalid, kEvictWritable), ((SendNone, NoAllocate, SameState, NoUpdateLRU, NoResponse), ''MissEvictWInvalid'')),
      ((kInvalid, kEvictDirty), ((SendNone, NoAllocate, SameState, NoUpdateLRU, NoResponse), ''MissEvictDInvalid''))]
    else
     [((kInvalid, kUpgrade), ((POISON, POISON, POISON, POISON, POISON), ''MissUpgradeInvalid'')),
      ((kInvalid, kEvictClean), ((POISON, POISON, POISON, POISON, POISON), ''MissEvictInvalid'')),
      ((kInvalid, kEvictWritable), ((POISON, POISON, POISON, POISON, POISON), ''MissEvictWInvalid'')),
      ((kInvalid, kEvictDirty), ((POISON, POISON, POISON, POISON, POISON), ''MissEvictDInvalid''))])"

definition moesi_snoops :: "bool \<Rightarrow> bool \<Rightarrow> ((CoherenceState_t \<times> MemoryMessageType) \<times> snoop_action \<times> string) list" where
  "moesi_snoops downgradeLRU snoopLRU =
    (if snoopLRU then
     [((kModified, ReturnReq), ((Resp ReturnReplyDirty, NoSnoop, S_State, False, True), ''HitReturnReqModified'')),
      ((kExclusive, ReturnReq), ((Resp ReturnReply, DoSnoop, DependState, False, True), ''HitReturnReqExclusive''))]
    else
     [((kModified, ReturnReq), ((Resp ReturnReplyDirty, NoSnoop, S_State, False, False), ''HitReturnReqModified'')),
      ((kExclusive, ReturnReq), ((Resp ReturnReply, DoSnoop, DependState, False, False), ''HitReturnReqExclusive''))]) @
    [((kOwned, ReturnReq), ((Resp ReturnReplyDirty, NoSnoop, S_State, False, False), ''HitReturnReqOwned'')),
      ((kShared, ReturnReq), ((Resp ReturnReply, NoSnoop, SameState, False, False), ''HitReturnReqShared'')),
      ((kInvalid, ReturnReq), ((Resp ReturnNAck, NoSnoop, SameState, False, False), ''MissReturnReqInvalid'')),
      ((kModified, Invalidate), ((Resp InvUpdateAck, DoSnoop, I_State, False, True), ''HitInvalidateModified'')),
      ((kOwned, Invalidate), ((Resp InvalidateAck, DoSnoop, I_State, False, True), ''HitInvalidateOwned'')),
      ((kExclusive, Invalidate), ((RespDepend, DoSnoop, I_State, False, True), ''HitInvalidateExclusive'')),
      ((kShared, Invalidate), ((Resp InvalidateAck, DoSnoop, I_State, False, True), ''HitInvalidateShared'')),
      ((kInvalid, Invalidate), ((Resp Invalidate, NoSnoop, SameState, False, False), ''MissInvalidateInvalid''))] @
    (if downgradeLRU then
     [((kModified, Downgrade), ((Resp DownUpdateAck, DoSnoop, O_State, False, True), ''HitDowngradeModified'')),
      ((kExclusive, Downgrade), ((RespDepend, DoSnoop, DependState, False, True), ''HitDowngradeExclusive''))]
    else
     [((kModified, Downgrade), ((Resp DownUpdateAck, DoSnoop, O_State, False, False), ''HitDowngradeModified'')),
      ((kExclusive, Downgrade), ((RespDepend, DoSnoop, DependState, False, False), ''HitDowngradeExclusive''))]) @
    [((kOwned, Downgrade), ((RespPoison, POISON, POISON, False, False), ''HitDowngradeOwned'')),
      ((kShared, Downgrade), ((RespPoison, POISON, POISON, False, False), ''HitDowngradeShared'')),
      ((kInvalid, Downgrade), ((Resp DowngradeAck, NoSnoop, SameState, False, False), ''MissDowngradeInvalid''))]"

definition mesi_requests :: "bool \<Rightarrow> ((CoherenceState_t \<times> access_t) \<times> action \<times> string) list" where
  "mesi_requests using_traces =
    [((kModified, kReadAccess), ((SendNone, NoAllocate, DependState, UpdateLRU, FillDirty), ''HitReadModified'')),
      ((kModified, kWriteAccess), ((SendNone, NoAllocate, E_State, UpdateLRU, FillDirty), ''HitWriteModified'')),
      ((kModified, kStoreAccess), ((SendNone, NoAllocate, SameState, UpdateLRU, FillDirty), ''HitWriteModified'')),
      ((kModified, kNAWAccess), ((SendNone, NoAllocate, SameState, UpdateLRU, FillDirty), ''HitNAWModified'')),
      ((kModified, kFetchAccess), ((SendNone, NoAllocate, SameState, UpdateLRU, FillValid), ''HitFetchModified'')),
      ((kModified, kUpgrade), ((SendNone, NoAllocate, E_State, UpdateLRU, FillDirty), ''HitUpgradeModified'')),
      ((kModified, kEvictClean), ((SendNone, NoAllocate, SameState, UpdateLRU, NoResponse), ''HitEvictModified'')),
      ((kModified, kEvictWritable), ((POISON, POISON, POISON, POISON, POISON), ''HitEvictWModified'')),
      ((kModified, kEvictDirty), ((POISON, POISON, POISON, POISON, POISON), ''HitEvictDModified'')),
      ((kExclusive, kReadAccess), ((SendNone, NoAllocate, SameState, UpdateLRU, FillValid), ''HitReadExclusive'')),
      ((kExclusive, kWriteAccess), ((SendNone, NoAllocate, SameState, UpdateLRU, FillWritable), ''HitWriteExclusive'')),
      ((kExclusive, kStoreAccess), ((SendNone, NoAllocate, M_State, UpdateLRU, FillWritable), ''HitWriteExclusive'')),
      ((kExclusive, kNAWAccess), ((SendNone, NoAllocate, M_State, UpdateLRU, FillWritable), ''HitNAWExclusive'')),
      ((kExclusive, kFetchAccess), ((SendNone, NoAllocate, SameState, UpdateLRU, FillValid), ''HitFetchExclusive'')),
      ((kExclusive, kUpgrade), ((SendNone, NoAllocate, SameState, UpdateLRU, FillWritable), ''HitUpgradeExclusive'')),
      ((kExclusive, kEvictClean), ((SendNone, NoAllocate, SameState, UpdateLRU, NoResponse), ''HitEvictExclusive'')),
      ((kExclusive, kEvictWritable), ((SendNone, NoAllocate, SameState, UpdateLRU, NoResponse), ''HitEvictWExclusive'')),
      ((kExclusive, kEvictDirty), ((SendNone, NoAllocate, M_State, UpdateLRU, NoResponse), ''HitEvictDExclusive'')),
      ((kShared, kReadAccess), ((SendNone, NoAllocate, SameState, UpdateLRU, FillValid), ''HitReadShared'')),
      ((kShared, kWriteAccess), ((SendUpgrade, NoAllocate, E_State, UpdateLRU, FillWritable), ''MissWriteShared'')),
      ((kShared, kStoreAccess), ((SendUpgrade, NoAllocate, M_State, UpdateLRU, FillWritable), ''MissWriteShared'')),
      ((kShared, kNAWAccess), ((SendUpgrade, NoAllocate, M_State, UpdateLRU, FillWritable), ''MissNAWShared'')),
      ((kShared, kFetchAccess), ((SendNone, NoAllocate, SameState, UpdateLRU, FillValid), ''HitFetchShared'')),
      ((kShared, kUpgrade), ((SendUpgrade, NoAllocate, E_State, UpdateLRU, FillWritable), ''MissUpgradeShared'')),
      ((kShared, kEvictClean), ((SendNone, NoAllocate, SameState, UpdateLRU, NoResponse), ''HitEvictShared''))] @
    (if using_traces then
     [((kShared, kEvictWritable), ((SendNone, NoAllocate, SameState, UpdateLRU, NoResponse), ''MissEvictWShared'')),
      ((kShared, kEvictDirty), ((SendUpgrade, NoAllocate, M_State, UpdateLRU, NoResponse), ''MissEvictDShared''))]
    else
     [((kShared, kEvictWritable), ((POISON, POISON, POISON, POISON, POISON), ''MissEvictWShared'')),
      ((kShared, kEvictDirty), ((POISON, POISON, POISON, POISON, POISON), ''MissEvictDShared''))]) @
    [((kInvalid, kReadAccess), ((SendRead, Allocate, DependState, UpdateLRU, FillDepend), ''MissReadInvalid'')),
      ((kInvalid, kWriteAccess), ((SendWrite, Allocate, E_State, UpdateLRU, FillDepend), ''MissWriteInvalid'')),
      ((kInvalid, kStoreAccess), ((SendWrite, Allocate, M_State, UpdateLRU, FillDepend), ''MissWriteInvalid'')),
      ((kInvalid, kNAWAccess), ((SendNAW, NoAllocate, SameState, NoUpdateLRU, FillDepend), ''MissNAWInvalid'')),
      ((kInvalid, kFetchAccess), ((SendFetch, Allocate, DependState, UpdateLRU, FillValid), ''MissFetchInvalid''))] @
    (if using_traces then
     [((kInvalid, kUpgrade), ((SendWrite, Allocate, M_State, UpdateLRU, FillDepend), ''MissUpgradeInvalid'')),
      ((kInvalid, kEvictClean), ((SendNone, NoAllocate, SameState, NoUpdateLRU, NoResponse), ''MissEvictInvalid'')),
      ((kInvalid, kEvictWritable), ((SendNone, NoAllocate, SameState, NoUpdateLRU, NoResponse), ''MissEvictWInvalid'')),
      ((kInvalid, kEvictDirty), ((SendNone, NoAllocate, SameState, NoUpdateLRU, NoResponse), ''MissEvictDInvalid''))]
    else
     [((kInvalid, kUpgrade), ((POISON, POISON, POISON, POISON, POISON), ''MissUpgradeInvalid'')),
      ((kInvalid, kEvictClean), ((POISON, POISON, POISON, POISON, POISON), ''MissEvictInvalid'')),
      ((kInvalid, kEvictWritable), ((POISON, POISON, POISON, POISON, POISON), ''MissEvictWInvalid'')),
      ((kInvalid, kEvictDirty), ((POISON, POISON, POISON, POISON, POISON), ''MissEvictDInvalid''))])"

definition mesi_snoops :: "bool \<Rightarrow> bool \<Rightarrow> ((CoherenceState_t \<times> MemoryMessageType) \<times> snoop_action \<times> string) list" where
  "mesi_snoops downgradeLRU snoopLRU =
    (if snoopLRU then
     [((kModified, ReturnReq), ((Resp ReturnReplyDirty, NoSnoop, S_State, False, True), ''HitReturnReqModified'')),
      ((kExclusive, ReturnReq), ((Resp ReturnReply, DoSnoop, S_State, False, True), ''HitReturnReqExclusive''))]
    else
     [((kModified, ReturnReq), ((Resp ReturnReplyDirty, NoSnoop, S_State, False, False), ''HitReturnReqModified'')),
      ((kExclusive, ReturnReq), ((Resp ReturnReply, DoSnoop, S_State, False, False), ''HitReturnReqExclusive''))]) @
    [((kShared, ReturnReq), ((Resp ReturnReply, NoSnoop, SameState, False, False), ''HitReturnReqShared'')),
      ((kInvalid, ReturnReq), ((Resp ReturnNAck, NoSnoop, SameState, False, False), ''MissReturnReqInvalid'')),
      ((kModified, Invalidate), ((Resp InvUpdateAck, DoSnoop, I_State, False, True), ''HitInvalidateModified'')),
      ((kExclusive, Invalidate), ((RespDepend, DoSnoop, I_State, False, True), ''HitInvalidateExclusive'')),
      ((kShared, Invalidate), ((Resp InvalidateAck, DoSnoop, I_State, False, True), ''HitInvalidateShared'')),
      ((kInvalid, Invalidate), ((Resp Invalidate, NoSnoop, SameState, False, False), ''MissInvalidateInvalid''))] @
    (if downgradeLRU then
     [((kModified, Downgrade), ((Resp DownUpdateAck, DoSnoop, S_State, False, True), ''HitDowngradeModified'')),
      ((kExclusive, Downgrade), ((RespDepend, DoSnoop, S_State, False, True), ''HitDowngradeExclusive''))]
    else
     [((kModified, Downgrade), ((Resp DownUpdateAck, DoSnoop, S_State, False, True), ''HitDowngradeModified'')),
      ((kExclusive, Downgrade), ((RespDepend, DoSnoop, S_State, False, True), ''HitDowngradeExclusive''))]) @
    [((kShared, Downgrade), ((Resp DowngradeAck, NoSnoop, SameState, False, False), ''HitDowngradeShared'')),
      ((kInvalid, Downgrade), ((Resp DowngradeAck, NoSnoop, SameState, False, False), ''MissDowngradeInvalid''))]"

datatype protocol = InclusiveMOESI | InclusiveMESI

definition GenerateCoherenceProtocol :: "string \<Rightarrow> protocol result" where
  "GenerateCoherenceProtocol name =
     (if name = ''InclusiveMOESI'' then Inr InclusiveMOESI
      else if name = ''InclusiveMESI'' then Inr InclusiveMESI else Inl AssertFailed)"

record fc_config =
  Protocol :: protocol
  UsingTraces :: bool
  DowngradeLRU :: bool
  SnoopLRU :: bool
  CleanEvictions :: bool
  theBlockMask :: u64

definition getCoherenceAction :: "fc_config \<Rightarrow> CoherenceState_t \<Rightarrow> access_t \<Rightarrow> (action \<times> string) result" where
  "getCoherenceAction cfg s a =
     (case map_of (case Protocol cfg of InclusiveMOESI \<Rightarrow> moesi_requests (UsingTraces cfg)
        | InclusiveMESI \<Rightarrow> mesi_requests (UsingTraces cfg)) (s, a) of
        None \<Rightarrow> Inl AssertFailed | Some x \<Rightarrow> Inr x)"

definition getSnoopAction ::
    "fc_config \<Rightarrow> CoherenceState_t \<Rightarrow> MemoryMessageType \<Rightarrow> (snoop_action \<times> string) result" where
  "getSnoopAction cfg s t =
     (case map_of (case Protocol cfg of
          InclusiveMOESI \<Rightarrow> moesi_snoops (DowngradeLRU cfg) (SnoopLRU cfg)
        | InclusiveMESI \<Rightarrow> mesi_snoops (DowngradeLRU cfg) (SnoopLRU cfg)) (s, t) of
        None \<Rightarrow> Inl AssertFailed | Some x \<Rightarrow> Inr x)"

definition evict_type :: "protocol \<Rightarrow> bool \<Rightarrow> CoherenceState_t \<Rightarrow> MemoryMessageType" where
  "evict_type p was_dirty s =
     (if was_dirty \<or> s = kModified \<or> p = InclusiveMOESI \<and> s = kOwned then EvictDirty
      else if s = kExclusive then EvictWritable else EvictClean)"

section \<open>The component\<close>

definition sendInvalidate ::
    "('c, 'e) channels \<Rightarrow> u64 \<Rightarrow> bool \<Rightarrow> bool \<Rightarrow> ('c, 'e) world \<Rightarrow> (bool \<times> ('c, 'e) world) result" where
  "sendInvalidate chs addr icache dcache = (\<lambda>(fc, e).
     let msg = (theInvalidateMessage fc)\<lparr>theAddress := addr\<rparr> in
     rbind (if icache then rbind (SnoopOutI chs (msg\<lparr>theType := Invalidate\<rparr>) (fc, e)) (\<lambda>(m, w).
              Inr (theType m = InvUpdateAck, m, w))
            else Inr (False, msg, fc, e)) (\<lambda>(was_dirty, msg, w).
     rbind (if dcache then SnoopOutD chs (msg\<lparr>theType := Invalidate\<rparr>) w else Inr (msg, w)) (\<lambda>(m, fc, e).
       Inr (was_dirty \<or> theType m = InvUpdateAck, fc\<lparr>theInvalidateMessage := m\<rparr>, e))))"

definition evict ::
    "('c, 'e) channels \<Rightarrow> fc_config \<Rightarrow> u64 \<Rightarrow> CoherenceState_t \<Rightarrow> ('c, 'e) world \<Rightarrow> ('c, 'e) world result" where
  "evict chs cfg aTagset aLineState w =
     rbind (sendInvalidate chs aTagset True True w) (\<lambda>(was_dirty, fc, e).
     let msg = (theEvictMessage fc)\<lparr>theAddress := aTagset,
                  theType := evict_type (Protocol cfg) was_dirty aLineState\<rparr> in
     if theType msg = EvictDirty \<or> CleanEvictions cfg
     then rbind (RequestOut chs msg (fc, e)) (\<lambda>(m, fc, e). Inr (fc\<lparr>theEvictMessage := m\<rparr>, e))
     else Inr (fc\<lparr>theEvictMessage := msg\<rparr>, e))"

text \<open>
  The snoop goes on to both caches above. The instruction cache gets a copy; only a
  \<open>ReturnReq\<close> the data cache refuses is answered by it.
\<close>

definition continueSnoop :: "('c, 'e) channels \<Rightarrow> ('c, 'e) port" where
  "continueSnoop chs msg = (\<lambda>(fc, e).
     let (serial, e) = next_serial chs e; dup = fst (MemoryMessage_copy msg (serial - 1)) in
     rbind (if theType msg \<noteq> Downgrade then SnoopOutI chs dup (fc, e) else Inr (dup, fc, e)) (\<lambda>(dup, w).
     rbind (SnoopOutD chs msg w) (\<lambda>(m, w).
       Inr (if theType m = ReturnNAck \<and> theType dup \<noteq> ReturnNAck then m\<lparr>theType := theType dup\<rparr> else m, w))))"

definition count_stat :: "string \<Rightarrow> MemoryMessage \<times> ('c, 'e) world \<Rightarrow> (MemoryMessage \<times> ('c, 'e) world) result" where
  "count_stat stat = (\<lambda>(msg, fc, e).
     Inr (msg, fc\<lparr>theStats := (theStats fc)(stat := theStats fc stat + 1)\<rparr>, e))"

text \<open>
  The handler also copies the message, for nothing but the serial number the copy takes; that
  copy is left out.
\<close>

definition push_RequestIn ::
    "('c, 'r, 'e) cache_ops \<Rightarrow> ('c, 'e) channels \<Rightarrow> fc_config \<Rightarrow> ('c, 'e) port" where
  "push_RequestIn ops chs cfg msg = (\<lambda>(fc, e).
     let tagset = theAddress msg AND theBlockMask cfg in
     rbind (message2access (theType msg)) (\<lambda>access.
     rbind (op_lookup ops tagset (fc_cache fc)) (\<lambda>(c, r).
     rbind (op_getState ops r c) (\<lambda>s.
     rbind (getCoherenceAction cfg s access) (\<lambda>(act, stat).
     rbind (doCoherenceAction ops (RequestOut chs) (evict chs cfg) act r msg (fc\<lparr>fc_cache := c\<rparr>, e))
       (count_stat stat))))))"

definition push_FetchRequestIn ::
    "('c, 'r, 'e) cache_ops \<Rightarrow> ('c, 'e) channels \<Rightarrow> fc_config \<Rightarrow> ('c, 'e) port" where
  "push_FetchRequestIn ops chs cfg msg = push_RequestIn ops chs cfg (msg\<lparr>theDstream := False\<rparr>)"

definition push_SnoopIn ::
    "('c, 'r, 'e) cache_ops \<Rightarrow> ('c, 'e) channels \<Rightarrow> fc_config \<Rightarrow> ('c, 'e) port" where
  "push_SnoopIn ops chs cfg msg = (\<lambda>(fc, e).
     let tagset = theAddress msg AND theBlockMask cfg in
     rbind (op_lookup ops tagset (fc_cache fc)) (\<lambda>(c, r).
     rbind (op_getState ops r c) (\<lambda>s.
     rbind (getSnoopAction cfg s (theType msg)) (\<lambda>(act, stat).
     rbind (SnoopAction ops (continueSnoop chs) act r msg (fc\<lparr>fc_cache := c\<rparr>, e)) (\<lambda>mw.
     rbind (count_stat stat mw) (\<lambda>(m, fc, e).
     rbind (op_lookup ops tagset (fc_cache fc)) (\<lambda>(c, _). Inr (m, fc\<lparr>fc_cache := c\<rparr>, e))))))))"

end
