(* ===== verification/Fast_Component.thy ===== *)
theory Fast_Component
  imports Fast_Array Fast_Protocol
begin

text \<open>
  What a cache of the trace mode does with the requests and snoops it gets, for the MESI tables of
  \<open>components/FastCache/InclusiveMESI.hpp\<close>. The laws a protocol needs from the tag array are a
  locale, interpreted on \<open>StdCache\<close>; on top of them every demand request is carried out as a
  short plan says, whatever the component below does as long as it answers and leaves this
  cache alone, and every snoop is answered as MESI asks.
\<close>

section \<open>What a protocol relies on\<close>

text \<open>
  The contract between a tag array and the protocol on top of it. \<open>at c r a\<close> says that \<open>r\<close> is
  the result of looking \<open>a\<close> up in \<open>c\<close>.
\<close>

locale tag_array =
  fixes ops :: "('c, 'r, 'e) cache_ops" and ok :: "'c \<Rightarrow> bool"
    and st :: "'c \<Rightarrow> u64 \<Rightarrow> CoherenceState_t" and at :: "'c \<Rightarrow> 'r \<Rightarrow> u64 \<Rightarrow> bool" and k :: nat
  assumes lookup: "ok c \<Longrightarrow> \<exists>c' r. op_lookup ops a c = Inr (c', r) \<and> ok c' \<and> st c' = st c \<and> at c' r a"
    and getState: "ok c \<Longrightarrow> at c r a \<Longrightarrow> op_getState ops r c = Inr (st c a)"
    and touch: "ok c \<Longrightarrow> at c r a \<Longrightarrow> st c a \<noteq> kInvalid \<Longrightarrow>
      \<exists>c'. op_updateLRU ops r c = Inr c' \<and> ok c' \<and> st c' = st c"
    and change: "ok c \<Longrightarrow> at c r a \<Longrightarrow> st c a \<noteq> kInvalid \<Longrightarrow> saveable s \<Longrightarrow>
      \<exists>c'. op_changeState ops s mru lru r c = Inr c' \<and> ok c' \<and> st c' = set_state k a s (st c)"
    and fill: "ok (fc_cache fc) \<Longrightarrow> at (fc_cache fc) r a \<Longrightarrow> saveable s \<Longrightarrow>
      \<exists>c1 v. ok c1 \<and> st c1 = st (fc_cache fc) \<and> valid_victim k (st (fc_cache fc)) a v \<and>
        (\<forall>fc' e'. answers ev v (fc\<lparr>fc_cache := c1\<rparr>, e) (fc', e') \<longrightarrow>
          (\<exists>c2. op_allocate ops ev s r (fc, e) = Inr (fc'\<lparr>fc_cache := c2\<rparr>, e') \<and> ok c2 \<and>
            st c2 = set_state k a s (drop_victim k v (st (fc_cache fc)))))"

interpretation std: tag_array StdCache_ops "array_inv k" state_of looked_up k
  by unfold_locales
    (unfold StdCache_ops_def cache_ops.simps, (rule lookup_law getState_law touch_law change_law fill_law; assumption)+)

section \<open>The MESI protocol of a cache\<close>

text \<open>
  What the protocol is meant to do on a demand request, by the state of the block: stay on
  chip with a new state, ask for permission first, fetch the block and take the state the
  reply allows, or pass a store on that does not allocate.
\<close>

datatype plan = Stay CoherenceState_t | Ask CoherenceState_t
  | Fill MemoryMessageType "MemoryMessageType \<Rightarrow> CoherenceState_t option" | Bypass

definition read_grant :: "bool \<Rightarrow> MemoryMessageType \<Rightarrow> CoherenceState_t option" where
  "read_grant is_load t =
     (if t = MissReply then Some kShared else if t = MissReplyWritable then Some kExclusive
      else if t = MissReplyDirty then Some (if is_load then kModified else kExclusive)
      else if t = FwdReplyOwned then Some kOwned else None)"

definition mesi_plan :: "MemoryMessageType \<Rightarrow> CoherenceState_t \<Rightarrow> plan" where
  "mesi_plan t s =
     (if t \<in> {LoadReq, ReadReq} then
        (if s = kInvalid then Fill ReadReq (read_grant (t = LoadReq))
         else if s = kModified \<and> t = ReadReq then Stay kExclusive else Stay s)
      else if t = FetchReq then
        (if s = kInvalid then Fill FetchReq (\<lambda>m. Some (if m = FwdReplyOwned then kOwned else kShared))
         else Stay s)
      else if t = WriteReq then
        (if s = kInvalid then Fill WriteReq (\<lambda>_. Some kExclusive)
         else if s = kShared then Ask kExclusive else Stay kExclusive)
      else if t = NonAllocatingStoreReq \<and> s = kInvalid then Bypass
      else if s = kInvalid then Fill WriteReq (\<lambda>_. Some kModified)
      else if s = kShared then Ask kModified else Stay kModified)"

definition demand :: "MemoryMessageType set" where
  "demand = {LoadReq, ReadReq, FetchReq, WriteReq, StoreReq, RMWReq, CmpxReq, NonAllocatingStoreReq}"

definition mesi :: "CoherenceState_t \<Rightarrow> bool" where
  "mesi s \<longleftrightarrow> s = kModified \<or> s = kExclusive \<or> s = kShared \<or> s = kInvalid"

lemma state_distinct [simp]:
  "kModified \<noteq> kExclusive" "kModified \<noteq> kShared" "kModified \<noteq> kInvalid" "kExclusive \<noteq> kShared"
  "kExclusive \<noteq> kInvalid" "kShared \<noteq> kInvalid" "kOwned \<noteq> kModified" "kOwned \<noteq> kExclusive"
  "kOwned \<noteq> kShared" "kOwned \<noteq> kInvalid"
  by (simp_all add: state_defs)

lemmas state_distinct' [simp] = state_distinct [symmetric]

lemma saveable_states [simp]:
  "saveable kModified" "saveable kExclusive" "saveable kShared" "saveable kOwned" "saveable kInvalid"
  by (simp_all add: saveable_def)

lemma mesi_saveable: "mesi s \<Longrightarrow> saveable s"
  by (auto simp: mesi_def)


lemma mesi_rows:
  assumes "Protocol cfg = InclusiveMESI"
  shows
    "getCoherenceAction cfg kModified kReadAccess = Inr ((SendNone, NoAllocate, DependState, UpdateLRU, FillDirty), ''HitReadModified'')"
    "getCoherenceAction cfg kModified kWriteAccess = Inr ((SendNone, NoAllocate, E_State, UpdateLRU, FillDirty), ''HitWriteModified'')"
    "getCoherenceAction cfg kModified kStoreAccess = Inr ((SendNone, NoAllocate, SameState, UpdateLRU, FillDirty), ''HitWriteModified'')"
    "getCoherenceAction cfg kModified kNAWAccess = Inr ((SendNone, NoAllocate, SameState, UpdateLRU, FillDirty), ''HitNAWModified'')"
    "getCoherenceAction cfg kModified kFetchAccess = Inr ((SendNone, NoAllocate, SameState, UpdateLRU, FillValid), ''HitFetchModified'')"
    "getCoherenceAction cfg kExclusive kReadAccess = Inr ((SendNone, NoAllocate, SameState, UpdateLRU, FillValid), ''HitReadExclusive'')"
    "getCoherenceAction cfg kExclusive kWriteAccess = Inr ((SendNone, NoAllocate, SameState, UpdateLRU, FillWritable), ''HitWriteExclusive'')"
    "getCoherenceAction cfg kExclusive kStoreAccess = Inr ((SendNone, NoAllocate, M_State, UpdateLRU, FillWritable), ''HitWriteExclusive'')"
    "getCoherenceAction cfg kExclusive kNAWAccess = Inr ((SendNone, NoAllocate, M_State, UpdateLRU, FillWritable), ''HitNAWExclusive'')"
    "getCoherenceAction cfg kExclusive kFetchAccess = Inr ((SendNone, NoAllocate, SameState, UpdateLRU, FillValid), ''HitFetchExclusive'')"
    "getCoherenceAction cfg kShared kReadAccess = Inr ((SendNone, NoAllocate, SameState, UpdateLRU, FillValid), ''HitReadShared'')"
    "getCoherenceAction cfg kShared kWriteAccess = Inr ((SendUpgrade, NoAllocate, E_State, UpdateLRU, FillWritable), ''MissWriteShared'')"
    "getCoherenceAction cfg kShared kStoreAccess = Inr ((SendUpgrade, NoAllocate, M_State, UpdateLRU, FillWritable), ''MissWriteShared'')"
    "getCoherenceAction cfg kShared kNAWAccess = Inr ((SendUpgrade, NoAllocate, M_State, UpdateLRU, FillWritable), ''MissNAWShared'')"
    "getCoherenceAction cfg kShared kFetchAccess = Inr ((SendNone, NoAllocate, SameState, UpdateLRU, FillValid), ''HitFetchShared'')"
    "getCoherenceAction cfg kInvalid kReadAccess = Inr ((SendRead, Allocate, DependState, UpdateLRU, FillDepend), ''MissReadInvalid'')"
    "getCoherenceAction cfg kInvalid kWriteAccess = Inr ((SendWrite, Allocate, E_State, UpdateLRU, FillDepend), ''MissWriteInvalid'')"
    "getCoherenceAction cfg kInvalid kStoreAccess = Inr ((SendWrite, Allocate, M_State, UpdateLRU, FillDepend), ''MissWriteInvalid'')"
    "getCoherenceAction cfg kInvalid kNAWAccess = Inr ((SendNAW, NoAllocate, SameState, NoUpdateLRU, FillDepend), ''MissNAWInvalid'')"
    "getCoherenceAction cfg kInvalid kFetchAccess = Inr ((SendFetch, Allocate, DependState, UpdateLRU, FillValid), ''MissFetchInvalid'')"
  by (simp_all add: getCoherenceAction_def mesi_requests_def assms)

lemma mesi_hit_action:
  assumes "Protocol cfg = InclusiveMESI" "s = kModified \<or> s = kExclusive \<or> s = kShared" "t \<in> demand"
    "mesi_plan t s = Stay s'"
  shows "\<exists>acc act stat. message2access t = Inr acc \<and> getCoherenceAction cfg s acc = Inr (act, stat) \<and>
    (act \<in> {(SendNone, NoAllocate, SameState, UpdateLRU, FillValid), (SendNone, NoAllocate, SameState, UpdateLRU, FillWritable),
        (SendNone, NoAllocate, SameState, UpdateLRU, FillDirty)} \<and> s' = s \<or>
     act = (SendNone, NoAllocate, DependState, UpdateLRU, FillDirty) \<and> (if t = LoadReq then s' = s else s' = kExclusive) \<or>
     act = (SendNone, NoAllocate, E_State, UpdateLRU, FillDirty) \<and> s' = kExclusive \<or>
     act = (SendNone, NoAllocate, M_State, UpdateLRU, FillWritable) \<and> s' = kModified)"
  using assms(3,2) unfolding demand_def insert_iff empty_iff
  by (elim disjE) (use assms(4) in \<open>simp_all add: mesi_plan_def message2access_def mesi_rows [OF assms(1)]\<close>)

lemma mesi_ask_action:
  assumes "Protocol cfg = InclusiveMESI" "mesi s" "t \<in> demand" "mesi_plan t s = Ask s'"
  shows "s = kShared \<and> (\<exists>acc act stat. message2access t = Inr acc \<and> getCoherenceAction cfg s acc = Inr (act, stat) \<and>
    (act = (SendUpgrade, NoAllocate, E_State, UpdateLRU, FillWritable) \<and> s' = kExclusive \<or>
     act = (SendUpgrade, NoAllocate, M_State, UpdateLRU, FillWritable) \<and> s' = kModified))"
  using assms(2-4)
  by (auto simp: demand_def mesi_def mesi_plan_def message2access_def mesi_rows [OF assms(1)] split: if_splits)

lemma mesi_fill_action:
  assumes "Protocol cfg = InclusiveMESI" "mesi s" "t \<in> demand" "mesi_plan t s = Fill q g"
  shows "s = kInvalid \<and> (\<exists>acc act stat. message2access t = Inr acc \<and> getCoherenceAction cfg s acc = Inr (act, stat) \<and>
    (act = (SendRead, Allocate, DependState, UpdateLRU, FillDepend) \<and> q = ReadReq \<and> g = read_grant (t = LoadReq) \<or>
     act = (SendFetch, Allocate, DependState, UpdateLRU, FillValid) \<and> q = FetchReq \<and>
       g = (\<lambda>m. Some (if m = FwdReplyOwned then kOwned else kShared)) \<or>
     act = (SendWrite, Allocate, E_State, UpdateLRU, FillDepend) \<and> q = WriteReq \<and> g = (\<lambda>_. Some kExclusive) \<or>
     act = (SendWrite, Allocate, M_State, UpdateLRU, FillDepend) \<and> q = WriteReq \<and> g = (\<lambda>_. Some kModified)))"
  using assms(2-4)
  by (auto simp: demand_def mesi_def mesi_plan_def message2access_def mesi_rows [OF assms(1)] split: if_splits)

lemma mesi_bypass_action:
  assumes "Protocol cfg = InclusiveMESI" "mesi s" "t \<in> demand" "mesi_plan t s = Bypass"
  shows "s = kInvalid \<and> t = NonAllocatingStoreReq \<and> message2access t = Inr kNAWAccess \<and>
    getCoherenceAction cfg s kNAWAccess = Inr ((SendNAW, NoAllocate, SameState, NoUpdateLRU, FillDepend), ''MissNAWInvalid'')"
  using assms(2-4)
  by (auto simp: demand_def mesi_def mesi_plan_def message2access_def mesi_rows [OF assms(1)] split: if_splits)

lemma answers_None: "answers ev None w w' \<longleftrightarrow> w' = w"
  by (simp add: answers_def)

lemma set_state_same: "(\<And>x. block_of k x = block_of k a \<Longrightarrow> f x = s) \<Longrightarrow> set_state k a s f = f"
  by (auto simp: set_state_def)

text \<open>
  The outcome of a request, given what the component below answers: \<open>c1\<close> is the cache after the
  lookup, and the component below leaves it alone.
\<close>

definition request_meets ::
    "nat \<Rightarrow> ('c \<Rightarrow> bool) \<Rightarrow> ('c \<Rightarrow> u64 \<Rightarrow> CoherenceState_t) \<Rightarrow> ('c, 'e) channels \<Rightarrow> fc_config \<Rightarrow> plan \<Rightarrow> u64 \<Rightarrow>
     MemoryMessage \<Rightarrow> 'c FastCache \<Rightarrow> 'e \<Rightarrow> (MemoryMessage \<times> ('c, 'e) world) result \<Rightarrow> bool" where
  "request_meets k ok st chs cfg p a msg fc e out \<longleftrightarrow> (\<exists>c1. ok c1 \<and> st c1 = st (fc_cache fc) \<and> (case p of
     Stay s \<Rightarrow> \<exists>m fc'. out = Inr (m, fc', e) \<and> ok (fc_cache fc') \<and>
       st (fc_cache fc') = set_state k a s (st (fc_cache fc))
   | Ask s \<Rightarrow> \<forall>m1 fc1 e1. RequestOut chs (msg\<lparr>theType := UpgradeReq\<rparr>) (fc\<lparr>fc_cache := c1\<rparr>, e) = Inr (m1, fc1, e1) \<longrightarrow>
       fc_cache fc1 = c1 \<longrightarrow> (\<exists>m fc'. out = Inr (m, fc', e1) \<and> ok (fc_cache fc') \<and>
         st (fc_cache fc') = set_state k a s (st (fc_cache fc)))
   | Fill t g \<Rightarrow> \<forall>m1 fc1 e1 s. RequestOut chs (msg\<lparr>theType := t\<rparr>) (fc\<lparr>fc_cache := c1\<rparr>, e) = Inr (m1, fc1, e1) \<longrightarrow>
       fc_cache fc1 = c1 \<longrightarrow> g (theType m1) = Some s \<longrightarrow>
       (\<exists>c2 v. ok c2 \<and> st c2 = st (fc_cache fc) \<and> valid_victim k (st (fc_cache fc)) a v \<and>
         (\<forall>fc2 e2. answers (evict chs cfg) v (fc1\<lparr>fc_cache := c2\<rparr>, e1) (fc2, e2) \<longrightarrow>
           (\<exists>m fc'. out = Inr (m, fc', e2) \<and> ok (fc_cache fc') \<and>
             st (fc_cache fc') = set_state k a s (drop_victim k v (st (fc_cache fc))))))
   | Bypass \<Rightarrow> \<forall>m1 fc1 e1. RequestOut chs msg (fc\<lparr>fc_cache := c1\<rparr>, e) = Inr (m1, fc1, e1) \<longrightarrow>
       fc_cache fc1 = c1 \<longrightarrow> (\<exists>fc'. out = Inr (m1, fc', e1) \<and> ok (fc_cache fc') \<and>
         st (fc_cache fc') = st (fc_cache fc))))"

lemma count_stat_Inr:
  "count_stat stat (m, fc, e) = Inr (m, fc\<lparr>theStats := (theStats fc)(stat := theStats fc stat + 1)\<rparr>, e)"
  by (simp add: count_stat_def)

definition block_state_fun :: "nat \<Rightarrow> (u64 \<Rightarrow> CoherenceState_t) \<Rightarrow> bool" where
  "block_state_fun k f \<longleftrightarrow> (\<forall>x y. block_of k x = block_of k y \<longrightarrow> f x = f y)"

context tag_array
begin

lemma request_start:
  assumes "ok (fc_cache fc)"
  obtains c1 r where "ok c1" "st c1 = st (fc_cache fc)" "at c1 r (theAddress msg AND theBlockMask cfg)"
    "push_RequestIn ops chs cfg msg (fc, e) = rbind (message2access (theType msg)) (\<lambda>access.
     rbind (getCoherenceAction cfg (st (fc_cache fc) (theAddress msg AND theBlockMask cfg)) access) (\<lambda>(act, stat).
     rbind (doCoherenceAction ops (RequestOut chs) (evict chs cfg) act r msg (fc\<lparr>fc_cache := c1\<rparr>, e))
       (count_stat stat)))"
proof -
  let ?a = "theAddress msg AND theBlockMask cfg"
  obtain c1 r where l: "op_lookup ops ?a (fc_cache fc) = Inr (c1, r)" "ok c1" "st c1 = st (fc_cache fc)" "at c1 r ?a"
    using lookup [OF assms] by blast
  have g: "op_getState ops r c1 = Inr (st (fc_cache fc) ?a)" using getState [OF l(2,4)] l(3) by simp
  have "push_RequestIn ops chs cfg msg (fc, e) = rbind (message2access (theType msg)) (\<lambda>access.
     rbind (getCoherenceAction cfg (st (fc_cache fc) ?a) access) (\<lambda>(act, stat).
     rbind (doCoherenceAction ops (RequestOut chs) (evict chs cfg) act r msg (fc\<lparr>fc_cache := c1\<rparr>, e))
       (count_stat stat)))"
    by (simp add: push_RequestIn_def l(1) g)
  then show thesis using that l by blast
qed

lemma request_stay:
  assumes okc: "ok (fc_cache fc)" and bf: "block_state_fun k (st (fc_cache fc))"
    and p: "Protocol cfg = InclusiveMESI" "theType msg \<in> demand" "theAddress msg AND theBlockMask cfg = a"
      "mesi (st (fc_cache fc) a)" "mesi_plan (theType msg) (st (fc_cache fc) a) = Stay s"
  shows "request_meets k ok st chs cfg (Stay s) a msg fc e (push_RequestIn ops chs cfg msg (fc, e))"
proof -
  let ?s = "st (fc_cache fc) a"
  obtain c1 r where l: "ok c1" "st c1 = st (fc_cache fc)" "at c1 r a"
    "push_RequestIn ops chs cfg msg (fc, e) = rbind (message2access (theType msg)) (\<lambda>access.
     rbind (getCoherenceAction cfg ?s access) (\<lambda>(act, stat).
     rbind (doCoherenceAction ops (RequestOut chs) (evict chs cfg) act r msg (fc\<lparr>fc_cache := c1\<rparr>, e))
       (count_stat stat)))"
    using request_start [OF okc, of msg cfg chs e] p(3) by metis
  have v: "?s \<noteq> kInvalid" using p(5) by (auto simp: mesi_plan_def split: if_splits)
  then have nv: "st c1 a \<noteq> kInvalid" and v3: "?s = kModified \<or> ?s = kExclusive \<or> ?s = kShared"
    using l(2) p(4) by (auto simp: mesi_def)
  obtain ct where ct: "op_updateLRU ops r c1 = Inr ct" "ok ct" "st ct = st (fc_cache fc)"
    using touch [OF l(1,3) nv] l(2) by auto
  obtain cE where cE: "op_changeState ops kExclusive True False r c1 = Inr cE" "ok cE"
    "st cE = set_state k a kExclusive (st (fc_cache fc))"
    using change [OF l(1,3) nv, of kExclusive True False] l(2) by auto
  obtain cM where cM: "op_changeState ops kModified True False r c1 = Inr cM" "ok cM"
    "st cM = set_state k a kModified (st (fc_cache fc))"
    using change [OF l(1,3) nv, of kModified True False] l(2) by auto
  have same: "set_state k a ?s (st (fc_cache fc)) = st (fc_cache fc)"
    using bf unfolding block_state_fun_def by (intro set_state_same) metis
  obtain acc act stat where act: "message2access (theType msg) = Inr acc" "getCoherenceAction cfg ?s acc = Inr (act, stat)"
    "act \<in> {(SendNone, NoAllocate, SameState, UpdateLRU, FillValid), (SendNone, NoAllocate, SameState, UpdateLRU, FillWritable),
        (SendNone, NoAllocate, SameState, UpdateLRU, FillDirty)} \<and> s = ?s \<or>
     act = (SendNone, NoAllocate, DependState, UpdateLRU, FillDirty) \<and> (if theType msg = LoadReq then s = ?s else s = kExclusive) \<or>
     act = (SendNone, NoAllocate, E_State, UpdateLRU, FillDirty) \<and> s = kExclusive \<or>
     act = (SendNone, NoAllocate, M_State, UpdateLRU, FillWritable) \<and> s = kModified"
    using mesi_hit_action [OF p(1) v3 p(2,5)] by blast
  have do: "\<exists>m fc'. doCoherenceAction ops (RequestOut chs) (evict chs cfg) act r msg (fc\<lparr>fc_cache := c1\<rparr>, e) = Inr (m, fc', e) \<and>
      ok (fc_cache fc') \<and> st (fc_cache fc') = set_state k a s (st (fc_cache fc))"
    using act(3) unfolding insert_iff empty_iff
    by (elim disjE conjE) (simp_all add: doCoherenceAction_def cache_step_def on_cache_def set_type_def
        ct cE cM same del: rbind_eq_Inr)
  show ?thesis using do l act(1,2) by (auto simp: request_meets_def count_stat_Inr)
qed

end

context tag_array
begin

lemma request_ask:
  assumes okc: "ok (fc_cache fc)"
    and p: "Protocol cfg = InclusiveMESI" "theType msg \<in> demand" "theAddress msg AND theBlockMask cfg = a"
      "mesi (st (fc_cache fc) a)" "mesi_plan (theType msg) (st (fc_cache fc) a) = Ask s"
  shows "request_meets k ok st chs cfg (Ask s) a msg fc e (push_RequestIn ops chs cfg msg (fc, e))"
proof -
  let ?s = "st (fc_cache fc) a"
  obtain c1 r where l: "ok c1" "st c1 = st (fc_cache fc)" "at c1 r a"
    "push_RequestIn ops chs cfg msg (fc, e) = rbind (message2access (theType msg)) (\<lambda>access.
     rbind (getCoherenceAction cfg ?s access) (\<lambda>(act, stat).
     rbind (doCoherenceAction ops (RequestOut chs) (evict chs cfg) act r msg (fc\<lparr>fc_cache := c1\<rparr>, e))
       (count_stat stat)))"
    using request_start [OF okc, of msg cfg chs e] p(3) by metis
  obtain acc act stat where act: "?s = kShared" "message2access (theType msg) = Inr acc"
    "getCoherenceAction cfg ?s acc = Inr (act, stat)"
    "act = (SendUpgrade, NoAllocate, E_State, UpdateLRU, FillWritable) \<and> s = kExclusive \<or>
     act = (SendUpgrade, NoAllocate, M_State, UpdateLRU, FillWritable) \<and> s = kModified"
    using mesi_ask_action [OF p(1,4,2,5)] by blast
  have nv: "st c1 a \<noteq> kInvalid" using act(1) l(2) by simp
  have "\<exists>m fc'. push_RequestIn ops chs cfg msg (fc, e) = Inr (m, fc', e1) \<and> ok (fc_cache fc') \<and>
      st (fc_cache fc') = set_state k a s (st (fc_cache fc))"
    if f: "RequestOut chs (msg\<lparr>theType := UpgradeReq\<rparr>) (fc\<lparr>fc_cache := c1\<rparr>, e) = Inr (m1, fc1, e1)" "fc_cache fc1 = c1"
    for m1 fc1 e1
  proof -
    have "saveable s" using act(4) by auto
    then obtain c' where c': "op_changeState ops s True False r c1 = Inr c'" "ok c'"
      "st c' = set_state k a s (st (fc_cache fc))"
      using change [OF l(1,3) nv, of s True False] l(2) by auto
    have "doCoherenceAction ops (RequestOut chs) (evict chs cfg) act r msg (fc\<lparr>fc_cache := c1\<rparr>, e) =
        Inr (m1\<lparr>theType := MissReplyWritable\<rparr>, fc1\<lparr>fc_cache := c'\<rparr>, e1)"
      using act(4) c'(1)
      by (elim disjE conjE) (simp_all add: doCoherenceAction_def cache_step_def on_cache_def set_type_def f del: rbind_eq_Inr)
    then show ?thesis using c' act(2,3) by (auto simp: l(4) count_stat_Inr)
  qed
  then show ?thesis using l(1,2) by (auto simp: request_meets_def)
qed

lemma request_bypass:
  assumes okc: "ok (fc_cache fc)"
    and p: "Protocol cfg = InclusiveMESI" "theType msg \<in> demand" "theAddress msg AND theBlockMask cfg = a"
      "mesi (st (fc_cache fc) a)" "mesi_plan (theType msg) (st (fc_cache fc) a) = Bypass"
  shows "request_meets k ok st chs cfg Bypass a msg fc e (push_RequestIn ops chs cfg msg (fc, e))"
proof -
  let ?s = "st (fc_cache fc) a"
  obtain c1 r where l: "ok c1" "st c1 = st (fc_cache fc)" "at c1 r a"
    "push_RequestIn ops chs cfg msg (fc, e) = rbind (message2access (theType msg)) (\<lambda>access.
     rbind (getCoherenceAction cfg ?s access) (\<lambda>(act, stat).
     rbind (doCoherenceAction ops (RequestOut chs) (evict chs cfg) act r msg (fc\<lparr>fc_cache := c1\<rparr>, e))
       (count_stat stat)))"
    using request_start [OF okc, of msg cfg chs e] p(3) by metis
  note act = mesi_bypass_action [OF p(1,4,2,5)]
  show ?thesis using l act
    by (auto simp: request_meets_def count_stat_Inr doCoherenceAction_def simp del: rbind_eq_Inr)
qed

lemma read_grant_fill: "read_grant b t = Some s \<Longrightarrow> \<exists>t'. read_fill b t = Inr (s, t')"
  by (auto simp: read_grant_def read_fill_def split: if_splits)

lemma request_fill:
  assumes okc: "ok (fc_cache fc)"
    and p: "Protocol cfg = InclusiveMESI" "theType msg \<in> demand" "theAddress msg AND theBlockMask cfg = a"
      "mesi (st (fc_cache fc) a)" "mesi_plan (theType msg) (st (fc_cache fc) a) = Fill q g"
  shows "request_meets k ok st chs cfg (Fill q g) a msg fc e (push_RequestIn ops chs cfg msg (fc, e))"
proof -
  let ?s = "st (fc_cache fc) a"
  obtain c1 r where l: "ok c1" "st c1 = st (fc_cache fc)" "at c1 r a"
    "push_RequestIn ops chs cfg msg (fc, e) = rbind (message2access (theType msg)) (\<lambda>access.
     rbind (getCoherenceAction cfg ?s access) (\<lambda>(act, stat).
     rbind (doCoherenceAction ops (RequestOut chs) (evict chs cfg) act r msg (fc\<lparr>fc_cache := c1\<rparr>, e))
       (count_stat stat)))"
    using request_start [OF okc, of msg cfg chs e] p(3) by metis
  obtain acc act stat where act: "message2access (theType msg) = Inr acc" "getCoherenceAction cfg ?s acc = Inr (act, stat)"
    "act = (SendRead, Allocate, DependState, UpdateLRU, FillDepend) \<and> q = ReadReq \<and> g = read_grant (theType msg = LoadReq) \<or>
     act = (SendFetch, Allocate, DependState, UpdateLRU, FillValid) \<and> q = FetchReq \<and>
       g = (\<lambda>m. Some (if m = FwdReplyOwned then kOwned else kShared)) \<or>
     act = (SendWrite, Allocate, E_State, UpdateLRU, FillDepend) \<and> q = WriteReq \<and> g = (\<lambda>_. Some kExclusive) \<or>
     act = (SendWrite, Allocate, M_State, UpdateLRU, FillDepend) \<and> q = WriteReq \<and> g = (\<lambda>_. Some kModified)"
    using mesi_fill_action [OF p(1,4,2,5)] by blast
  have "\<exists>c2 v. ok c2 \<and> st c2 = st (fc_cache fc) \<and> valid_victim k (st (fc_cache fc)) a v \<and>
      (\<forall>fc2 e2. answers (evict chs cfg) v (fc1\<lparr>fc_cache := c2\<rparr>, e1) (fc2, e2) \<longrightarrow>
        (\<exists>m fc'. push_RequestIn ops chs cfg msg (fc, e) = Inr (m, fc', e2) \<and> ok (fc_cache fc') \<and>
          st (fc_cache fc') = set_state k a s (drop_victim k v (st (fc_cache fc)))))"
    if f: "RequestOut chs (msg\<lparr>theType := q\<rparr>) (fc\<lparr>fc_cache := c1\<rparr>, e) = Inr (m1, fc1, e1)" "fc_cache fc1 = c1"
      "g (theType m1) = Some s" for m1 fc1 e1 s
  proof -
    have sv: "saveable s" using act(3) f(3) by (auto simp: read_grant_def split: if_splits)
    obtain c2 v where c2: "ok c2" "st c2 = st (fc_cache fc)" "valid_victim k (st (fc_cache fc)) a v"
      and al: "answers (evict chs cfg) v (fc1\<lparr>fc_cache := c2\<rparr>, e1) (fc2, e2) \<Longrightarrow>
        \<exists>c3. op_allocate ops (evict chs cfg) s r (fc1, e1) = Inr (fc2\<lparr>fc_cache := c3\<rparr>, e2) \<and> ok c3 \<and>
          st c3 = set_state k a s (drop_victim k v (st (fc_cache fc)))" for fc2 e2
      using fill [of fc1 r a s "evict chs cfg" e1] f(2) l(1-3) sv by auto
    have "\<exists>m. doCoherenceAction ops (RequestOut chs) (evict chs cfg) act r msg (fc\<lparr>fc_cache := c1\<rparr>, e) =
        rbind (op_allocate ops (evict chs cfg) s r (fc1, e1)) (\<lambda>w. Inr (m, w))"
      using act(3)
    proof (elim disjE conjE)
      assume q: "act = (SendRead, Allocate, DependState, UpdateLRU, FillDepend)" "q = ReadReq"
        "g = read_grant (theType msg = LoadReq)"
      obtain t' where "read_fill (theType msg = LoadReq) (theType m1) = Inr (s, t')"
        using read_grant_fill f(3) q(3) by blast
      then show ?thesis using f(1) unfolding q
        by (intro exI [of _ "m1\<lparr>theType := t'\<rparr>"]) (simp add: doCoherenceAction_def allocate_step_def del: rbind_eq_Inr)
    next
      assume q: "act = (SendFetch, Allocate, DependState, UpdateLRU, FillValid)" "q = FetchReq"
        "g = (\<lambda>m. Some (if m = FwdReplyOwned then kOwned else kShared))"
      have s: "(if theType m1 = FwdReplyOwned then kOwned else kShared) = s" using f(3) q(3) by simp
      show ?thesis using f(1) unfolding q s [symmetric]
        by (intro exI [of _ "m1\<lparr>theType := MissReply\<rparr>"])
          (simp add: doCoherenceAction_def allocate_step_def set_type_def rbind_assoc del: rbind_eq_Inr split del: if_split)
    qed (use f in \<open>auto simp: doCoherenceAction_def allocate_step_def simp del: rbind_eq_Inr\<close>)
    then obtain m where m: "doCoherenceAction ops (RequestOut chs) (evict chs cfg) act r msg (fc\<lparr>fc_cache := c1\<rparr>, e) =
        rbind (op_allocate ops (evict chs cfg) s r (fc1, e1)) (\<lambda>w. Inr (m, w))" by blast
    have "\<exists>m fc'. push_RequestIn ops chs cfg msg (fc, e) = Inr (m, fc', e2) \<and> ok (fc_cache fc') \<and>
          st (fc_cache fc') = set_state k a s (drop_victim k v (st (fc_cache fc)))"
      if an: "answers (evict chs cfg) v (fc1\<lparr>fc_cache := c2\<rparr>, e1) (fc2, e2)" for fc2 e2
      using al [OF an] by (auto simp: l(4) act(1,2) m count_stat_Inr simp del: rbind_eq_Inr)
    then show ?thesis using c2 by blast
  qed
  then show ?thesis using l(1,2) by (auto simp: request_meets_def)
qed

text \<open>Every demand request of a MESI cache is carried out as planned.\<close>

lemma request_as_planned:
  assumes "ok (fc_cache fc)" "block_state_fun k (st (fc_cache fc))" "Protocol cfg = InclusiveMESI"
    "theType msg \<in> demand" "theAddress msg AND theBlockMask cfg = a" "mesi (st (fc_cache fc) a)"
  shows "request_meets k ok st chs cfg (mesi_plan (theType msg) (st (fc_cache fc) a)) a msg fc e
    (push_RequestIn ops chs cfg msg (fc, e))"
  using request_stay [OF assms] request_ask [OF assms(1,3-6)] request_bypass [OF assms(1,3-6)]
    request_fill [OF assms(1,3-6)]
  by (cases "mesi_plan (theType msg) (st (fc_cache fc) a)") auto

end

section \<open>Snoops\<close>

text \<open>The answer of a cache to a snoop and the state it keeps.\<close>

definition mesi_snoop :: "MemoryMessageType \<Rightarrow> CoherenceState_t \<Rightarrow> MemoryMessageType \<times> CoherenceState_t" where
  "mesi_snoop t s =
     (if t = Invalidate then
        (if s = kInvalid then Invalidate else if s = kModified then InvUpdateAck else InvalidateAck, kInvalid)
      else if t = ReturnReq then
        (if s = kInvalid then (ReturnNAck, kInvalid)
         else (if s = kModified then ReturnReplyDirty else ReturnReply, kShared))
      else
        (if s = kInvalid then (DowngradeAck, kInvalid)
         else (if s = kModified then DownUpdateAck else DowngradeAck, kShared)))"

lemma mesi_snoop_rows:
  assumes "Protocol cfg = InclusiveMESI"
  shows
    "getSnoopAction cfg kModified ReturnReq = Inr ((Resp ReturnReplyDirty, NoSnoop, S_State, False, SnoopLRU cfg), ''HitReturnReqModified'')"
    "getSnoopAction cfg kExclusive ReturnReq = Inr ((Resp ReturnReply, DoSnoop, S_State, False, SnoopLRU cfg), ''HitReturnReqExclusive'')"
    "getSnoopAction cfg kShared ReturnReq = Inr ((Resp ReturnReply, NoSnoop, SameState, False, False), ''HitReturnReqShared'')"
    "getSnoopAction cfg kInvalid ReturnReq = Inr ((Resp ReturnNAck, NoSnoop, SameState, False, False), ''MissReturnReqInvalid'')"
    "getSnoopAction cfg kModified Invalidate = Inr ((Resp InvUpdateAck, DoSnoop, I_State, False, True), ''HitInvalidateModified'')"
    "getSnoopAction cfg kExclusive Invalidate = Inr ((RespDepend, DoSnoop, I_State, False, True), ''HitInvalidateExclusive'')"
    "getSnoopAction cfg kShared Invalidate = Inr ((Resp InvalidateAck, DoSnoop, I_State, False, True), ''HitInvalidateShared'')"
    "getSnoopAction cfg kInvalid Invalidate = Inr ((Resp Invalidate, NoSnoop, SameState, False, False), ''MissInvalidateInvalid'')"
    "getSnoopAction cfg kModified Downgrade = Inr ((Resp DownUpdateAck, DoSnoop, S_State, False, True), ''HitDowngradeModified'')"
    "getSnoopAction cfg kExclusive Downgrade = Inr ((RespDepend, DoSnoop, S_State, False, True), ''HitDowngradeExclusive'')"
    "getSnoopAction cfg kShared Downgrade = Inr ((Resp DowngradeAck, NoSnoop, SameState, False, False), ''HitDowngradeShared'')"
    "getSnoopAction cfg kInvalid Downgrade = Inr ((Resp DowngradeAck, NoSnoop, SameState, False, False), ''MissDowngradeInvalid'')"
  by (simp_all add: getSnoopAction_def mesi_snoops_def assms)

lemma mesi_snoop_action:
  assumes "Protocol cfg = InclusiveMESI" "mesi s" "t \<in> {Invalidate, ReturnReq, Downgrade}"
  shows "\<exists>rsp snp ns mru lru stat. getSnoopAction cfg s t = Inr ((rsp, snp, ns, mru, lru), stat) \<and>
    (rsp = Resp (fst (mesi_snoop t s)) \<and> snp = NoSnoop \<and> ns = SameState \<and> \<not> mru \<and> \<not> lru \<and> snd (mesi_snoop t s) = s \<or>
     s \<noteq> kInvalid \<and> (rsp = Resp (fst (mesi_snoop t s)) \<and> (snp = NoSnoop \<or> snp = DoSnoop) \<and> ns = S_State \<and> snd (mesi_snoop t s) = kShared \<or>
      rsp = Resp (fst (mesi_snoop t s)) \<and> snp = DoSnoop \<and> ns = I_State \<and> snd (mesi_snoop t s) = kInvalid \<or>
      rsp = RespDepend \<and> snp = DoSnoop \<and> ns = I_State \<and> t = Invalidate \<and> mesi_snoop t s = (InvalidateAck, kInvalid) \<or>
      rsp = RespDepend \<and> snp = DoSnoop \<and> ns = S_State \<and> t = Downgrade \<and> mesi_snoop t s = (DowngradeAck, kShared)))"
  using assms(2,3) unfolding mesi_def insert_iff empty_iff
  by (elim disjE) (simp_all add: mesi_snoop_def mesi_snoop_rows [OF assms(1)], blast+)

text \<open>A cache with nothing above it: pushing into a port that is not wired does nothing.\<close>

definition top_level :: "('c, 'e) channels \<Rightarrow> bool" where
  "top_level chs \<longleftrightarrow> SnoopOutI chs = (\<lambda>m w. Inr (m, w)) \<and> SnoopOutD chs = (\<lambda>m w. Inr (m, w))"

lemma continueSnoop_top:
  assumes "top_level chs"
  shows "continueSnoop chs msg (fc, e) = Inr (msg, fc, snd (next_serial chs e))"
proof -
  have "theType (fst (MemoryMessage_copy msg n)) = theType msg" for n by (simp add: MemoryMessage_copy_def split: prod.split)
  then show ?thesis using assms by (auto simp: continueSnoop_def top_level_def Let_def split: prod.split)
qed

context tag_array
begin

lemma snoop_as_planned:
  assumes okc: "ok (fc_cache fc)" and bf: "block_state_fun k (st (fc_cache fc))" and top: "top_level chs"
    and p: "Protocol cfg = InclusiveMESI" "theType msg \<in> {Invalidate, ReturnReq, Downgrade}"
      "theAddress msg AND theBlockMask cfg = a" "mesi (st (fc_cache fc) a)"
  shows "\<exists>m fc' e'. push_SnoopIn ops chs cfg msg (fc, e) = Inr (m, fc', e') \<and> e' \<in> {e, snd (next_serial chs e)} \<and>
    theAddress m = theAddress msg \<and>
    (theType m, st (fc_cache fc') a) = mesi_snoop (theType msg) (st (fc_cache fc) a) \<and> ok (fc_cache fc') \<and>
    st (fc_cache fc') = set_state k a (st (fc_cache fc') a) (st (fc_cache fc))"
proof -
  let ?s = "st (fc_cache fc) a" and ?t = "theType msg"
  obtain c1 r where l: "op_lookup ops a (fc_cache fc) = Inr (c1, r)" "ok c1" "st c1 = st (fc_cache fc)" "at c1 r a"
    using lookup [OF okc] by blast
  have g: "op_getState ops r c1 = Inr ?s" using getState [OF l(2,4)] l(3) by simp
  let ?fc = "fc\<lparr>fc_cache := c1\<rparr>"
  have chg: "\<exists>c'. op_changeState ops s mru lru r c1 = Inr c' \<and> ok c' \<and> st c' = set_state k a s (st (fc_cache fc))"
    if "?s \<noteq> kInvalid" "saveable s" for s mru lru
    using change [OF l(2,4)] that l(3) by simp
  have same: "set_state k a ?s (st (fc_cache fc)) = st (fc_cache fc)"
    using bf unfolding block_state_fun_def by (intro set_state_same) metis
  obtain rsp snp ns mru lru stat where act: "getSnoopAction cfg ?s ?t = Inr ((rsp, snp, ns, mru, lru), stat)"
    "rsp = Resp (fst (mesi_snoop ?t ?s)) \<and> snp = NoSnoop \<and> ns = SameState \<and> \<not> mru \<and> \<not> lru \<and> snd (mesi_snoop ?t ?s) = ?s \<or>
     ?s \<noteq> kInvalid \<and> (rsp = Resp (fst (mesi_snoop ?t ?s)) \<and> (snp = NoSnoop \<or> snp = DoSnoop) \<and> ns = S_State \<and> snd (mesi_snoop ?t ?s) = kShared \<or>
      rsp = Resp (fst (mesi_snoop ?t ?s)) \<and> snp = DoSnoop \<and> ns = I_State \<and> snd (mesi_snoop ?t ?s) = kInvalid \<or>
      rsp = RespDepend \<and> snp = DoSnoop \<and> ns = I_State \<and> ?t = Invalidate \<and> mesi_snoop ?t ?s = (InvalidateAck, kInvalid) \<or>
      rsp = RespDepend \<and> snp = DoSnoop \<and> ns = S_State \<and> ?t = Downgrade \<and> mesi_snoop ?t ?s = (DowngradeAck, kShared))"
    using mesi_snoop_action [OF p(1,4,2)] by blast
  have "\<exists>m c' e'. SnoopAction ops (continueSnoop chs) (rsp, snp, ns, mru, lru) r msg (?fc, e) = Inr (m, ?fc\<lparr>fc_cache := c'\<rparr>, e') \<and>
      e' \<in> {e, snd (next_serial chs e)} \<and> ok c' \<and> theType m = fst (mesi_snoop ?t ?s) \<and> theAddress m = theAddress msg \<and>
      st c' = set_state k a (snd (mesi_snoop ?t ?s)) (st (fc_cache fc))"
  proof (cases "?s = kInvalid \<or> ns = SameState")
    case True
    then show ?thesis using act(2) same l(2,3) by (auto simp: SnoopAction_def)
  next
    case False
    let ?n = "snd (mesi_snoop ?t ?s)"
    have "saveable ?n" using act(2) False by auto
    then obtain c' where c': "op_changeState ops ?n mru lru r c1 = Inr c'" "ok c'" "st c' = set_state k a ?n (st (fc_cache fc))"
      using chg False by blast
    have "\<exists>m e'. SnoopAction ops (continueSnoop chs) (rsp, snp, ns, mru, lru) r msg (?fc, e) = Inr (m, ?fc\<lparr>fc_cache := c'\<rparr>, e') \<and>
        e' \<in> {e, snd (next_serial chs e)} \<and> theType m = fst (mesi_snoop ?t ?s) \<and> theAddress m = theAddress msg"
      using act(2) False c'(1)
      by (elim disjE conjE) (simp_all add: SnoopAction_def cache_step_def on_cache_def set_type_def
          continueSnoop_top [OF top] del: rbind_eq_Inr)
    then show ?thesis using c' by blast
  qed
  then obtain m c' e' where run: "SnoopAction ops (continueSnoop chs) (rsp, snp, ns, mru, lru) r msg (?fc, e) = Inr (m, ?fc\<lparr>fc_cache := c'\<rparr>, e')"
    "e' \<in> {e, snd (next_serial chs e)}" "ok c'" "theType m = fst (mesi_snoop ?t ?s)" "theAddress m = theAddress msg"
    "st c' = set_state k a (snd (mesi_snoop ?t ?s)) (st (fc_cache fc))" by blast
  obtain c2 r2 where l2: "op_lookup ops a c' = Inr (c2, r2)" "ok c2" "st c2 = st c'" using lookup [OF run(3)] by blast
  have sa: "st c' a = snd (mesi_snoop ?t ?s)" using run(6) by (simp add: set_state_def)
  have "push_SnoopIn ops chs cfg msg (fc, e) =
      Inr (m, fc\<lparr>fc_cache := c2, theStats := (theStats fc)(stat := theStats fc stat + 1)\<rparr>, e')"
    by (simp add: push_SnoopIn_def p(3) l(1) g act(1) run(1) count_stat_Inr l2(1) del: rbind_eq_Inr)
  then show ?thesis using run l2 sa by auto
qed

end

end
