(* ===== verification/Fast_Properties.thy ===== *)
theory Fast_Properties
  imports Fast_Component
begin

text \<open>
  Properties of the caches of the trace mode taken alone: allocation is least recently used
  replacement, a flexpoint brings a cache back, and the default protocol refuses stores.
\<close>

text \<open>
  C6: Allocation in a tag array refines least recently used replacement. Seen as lists of tags and
  states in recency order, the sets before and after \<open>lookup\<close> and \<open>allocate\<close> differ in the set of the
  address only, and there by the textbook fill: a block that is present moves to the end with its
  new state, otherwise it is added, and if the set is full the first block makes room for it.
  The invariant of the array includes that its sets have at most 65536 ways, since the way of a
  block has 16 bits. \<open>evict\<close> is called exactly when that first block is valid, with its tag and state,
  and the allocation succeeds whatever the callback does to the rest of the system as long as it returns.
\<close>

theorem fill_refines_lru:
  fixes fc :: "StdCache FastCache" and a :: u64
  assumes "cache_inv (fc_cache fc)" "StdCache_lookup a (fc_cache fc) = Inr (c1, r)"
    "answers ev (victim (theAssoc (fc_cache fc)) (get_tag (fc_cache fc) a) (abs_cache (fc_cache fc) (get_set (fc_cache fc) a)))
       (allocating (get_tag (fc_cache fc) a) (fc\<lparr>fc_cache := c1\<rparr>), e) (fc', e')"
  shows "\<exists>c2. StdCache_allocate ev st r (fc\<lparr>fc_cache := c1\<rparr>, e) = Inr (fc'\<lparr>fc_cache := c2\<rparr>, e') \<and> cache_inv c2 \<and>
    abs_cache c2 = (abs_cache (fc_cache fc))(get_set (fc_cache fc) a :=
      spec_fill (theAssoc (fc_cache fc)) (get_tag (fc_cache fc) a) st (abs_cache (fc_cache fc) (get_set (fc_cache fc) a)))"
  using fill_ok [OF assms(1), of a ev e st] assms(2,3) by auto

definition one_block :: "StdCache FastCache" where
  "one_block = \<lparr>fc_cache = \<lparr>theNumSets = 1, theAssoc = 1, theBlockSize = 64, blockShift = 6, blockSetMask = 0,
       blockTagMask = NOT 63, theBlocks = [[\<lparr>be_tag = 64, be_state = kModified, be_way = 0\<rparr>]],
       theTextFlexpoints = False, theAllocateInProgress = False, theAllocateAddr = 0\<rparr>, theStats = (\<lambda>_. 0),
     theEvictMessage = fst (MemoryMessage_new EvictDirty 0 0 0 0),
     theInvalidateMessage = fst (MemoryMessage_new Invalidate 0 0 0 0)\<rparr>"

lemma one_block_inv: "cache_inv (fc_cache one_block)"
  by (simp add: one_block_def cache_inv_def geometry_def set_inv_def mask_eq_exp_minus_1 lessThan_Suc)

lemma one_block_abs: "get_set (fc_cache one_block) 128 = 0" "get_tag (fc_cache one_block) 128 = 128" "theAssoc (fc_cache one_block) = 1"
  "abs_cache (fc_cache one_block) 0 = [(64, kModified)]"
  by (simp_all add: one_block_def get_set_def get_tag_def abs_cache_def abs_set_def)

theorem fill_refines_lru_witness:
  "\<exists>c1 r c2. StdCache_lookup 128 (fc_cache one_block) = Inr (c1, r) \<and>
     StdCache_allocate (\<lambda>t s (fc, es). Inr (fc, (t, s) # es)) kShared r (one_block\<lparr>fc_cache := c1\<rparr>, []) =
       Inr (one_block\<lparr>fc_cache := c2\<rparr>, [(64, kModified)]) \<and> abs_cache c2 0 = [(128, kShared)]"
proof -
  obtain c1 r where l: "StdCache_lookup 128 (fc_cache one_block) = Inr (c1, r)"
    using fill_ok [OF one_block_inv, of 128 "\<lambda>_ _ w. Inr w" "()" kShared] by (elim exE conjE) (rule that)
  have "victim 1 128 [(64, kModified)] = Some (64, kModified)"
    by (simp add: victim_def isValid_def kModified_def kValid_Bit_def)
  then have "answers (\<lambda>t s (fc, es). Inr (fc, (t, s) # es))
      (victim (theAssoc (fc_cache one_block)) (get_tag (fc_cache one_block) 128)
        (abs_cache (fc_cache one_block) (get_set (fc_cache one_block) 128)))
      (allocating (get_tag (fc_cache one_block) 128) (one_block\<lparr>fc_cache := c1\<rparr>), [])
      (allocating 128 (one_block\<lparr>fc_cache := c1\<rparr>), [(64, kModified)])"
    by (simp add: one_block_abs answers_def)
  from fill_refines_lru [OF one_block_inv l this, of kShared] l show ?thesis
    by (auto simp: one_block_abs allocating_def spec_fill_def)
qed

text \<open>
  C10: A flexpoint brings a cache back, in the binary and in the text format. Saving a cache whose
  states are the five of the protocols and loading the image into an empty cache of the same
  geometry and format succeeds; every address has its state again and every set has its valid
  blocks again in the same recency order. For the text format, which keeps the set of a block
  instead of the low bits of its tag, every block must lie in the set of its address and the sets
  must span at most 2 ^ 31 bytes.
\<close>

theorem flexpoint_roundtrip:
  assumes "cache_inv c" "\<forall>bs \<in> set (theBlocks c). \<forall>b \<in> set bs. saveable (be_state b)" "same_geometry c d"
    "theBlocks d = replicate (theNumSets d) []" "theTextFlexpoints c \<Longrightarrow> text_ok c"
  shows "\<exists>img c'. StdCache_saveState c = Inr img \<and> StdCache_loadState img d = Inr c' \<and> cache_inv c' \<and>
    state_of c' = state_of c \<and>
    (\<forall>s < theNumSets c. filter (\<lambda>x. isValid (snd x)) (abs_cache c' s) = filter (\<lambda>x. isValid (snd x)) (abs_cache c s))"
proof -
  obtain img pad where "StdCache_saveState c = Inr img"
    "StdCache_loadState img d = Inr (d\<lparr>theBlocks := reload_sets pad (theAssoc c) 0 (theBlocks c)\<rparr>)"
    using save_load_cache [OF assms(1,2,5,3,4)] by blast
  then show ?thesis using reload_sets_ok [OF assms(1,3), of pad] by blast
qed

theorem flexpoint_roundtrip_witness:
  "\<forall>tx. \<exists>img c'. StdCache_saveState ((fc_cache one_block)\<lparr>theTextFlexpoints := tx\<rparr>) = Inr img \<and>
     StdCache_loadState img ((fc_cache one_block)\<lparr>theTextFlexpoints := tx, theBlocks := [[]]\<rparr>) = Inr c' \<and>
     state_of c' 100 = kModified"
proof
  fix tx
  let ?c = "(fc_cache one_block)\<lparr>theTextFlexpoints := tx\<rparr>"
  let ?d = "(fc_cache one_block)\<lparr>theTextFlexpoints := tx, theBlocks := [[]]\<rparr>"
  have "cache_inv ?c"
    by (simp add: one_block_def cache_inv_def geometry_def set_inv_def mask_eq_exp_minus_1 lessThan_Suc)
  moreover have "\<forall>bs \<in> set (theBlocks ?c). \<forall>b \<in> set bs. saveable (be_state b)"
    by (simp add: one_block_def saveable_def)
  moreover have "same_geometry ?c ?d" by (simp add: same_geometry_def)
  moreover have "theBlocks ?d = replicate (theNumSets ?d) []" by (simp add: one_block_def)
  moreover have "text_ok ?c"
    by (simp add: text_ok_def power_of_two_def one_block_def get_tag_def get_set_def)
  moreover have "state_of ?c 100 = kModified"
    by (simp add: state_of_def one_block_def get_set_def get_tag_def abs_cache_def abs_set_def)
  ultimately show "\<exists>img c'. StdCache_saveState ?c = Inr img \<and> StdCache_loadState img ?d = Inr c' \<and>
      state_of c' 100 = kModified"
    using flexpoint_roundtrip [of ?c ?d] by fastforce
qed

lemma moesi_no_store: "Protocol cfg = InclusiveMOESI \<Longrightarrow> getCoherenceAction cfg s kStoreAccess = Inl AssertFailed"
  by (simp add: getCoherenceAction_def moesi_requests_def)

text \<open>
  C11: The table of the default protocol \<open>InclusiveMOESI\<close> has no entries for the store accesses that
  \<open>message2access\<close> produces: a cache with that protocol fails its assertion on every store, atomic
  read-modify-write and compare-and-swap, whatever the state of the block.
\<close>

theorem moesi_store_fails:
  assumes "array_inv k (fc_cache fc)" "Protocol cfg = InclusiveMOESI" "theType msg \<in> {StoreReq, RMWReq, CmpxReq}"
  shows "push_RequestIn StdCache_ops chs cfg msg (fc, e) = Inl AssertFailed"
proof -
  have m: "message2access (theType msg) = Inr kStoreAccess" using assms(3) by (auto simp: message2access_def)
  show ?thesis
    by (rule std.request_start [OF assms(1), of msg cfg chs e]) (simp add: m moesi_no_store [OF assms(2)])
qed


theorem moesi_store_fails_witness:
  "push_RequestIn StdCache_ops
     \<lparr>RequestOut = (\<lambda>m w. Inr (m, w)), SnoopOutI = (\<lambda>m w. Inr (m, w)), SnoopOutD = (\<lambda>m w. Inr (m, w)), next_serial = (\<lambda>n. (n + 1, n + 1))\<rparr>
     \<lparr>Protocol = InclusiveMOESI, UsingTraces = True, DowngradeLRU = False, SnoopLRU = False, CleanEvictions = False, theBlockMask = NOT 63\<rparr>
     (fst (MemoryMessage_new StoreReq 64 0 0 0)) (one_block, 0) = Inl AssertFailed"
  by (rule moesi_store_fails [of 6])
    (use one_block_inv in \<open>simp_all add: array_inv_def placed_def one_block_def get_set_def get_tag_def abs_cache_def abs_set_def
       MemoryMessage_new_def memoryMessageSerial_def saveable_def\<close>)

end
