(* ===== verification/Cmp_Directory.thy ===== *)
theory Cmp_Directory
  imports Fast_Cache
begin

text \<open>
  The directories of the trace mode shared cache: \<open>components/FastCMPCache/SharingVector.hpp\<close>,
  \<open>BlockDirectoryEntry.hpp\<close>, \<open>AbstractDirectory.hpp\<close>, \<open>InfiniteDirectory.cpp\<close>,
  \<open>StandardDirectory.cpp\<close> and \<open>AbstractFactory.hpp\<close>. A bitset of sharers is the set of its
  indices. The virtual functions of a directory are a record of operations; a pointer to an
  entry is what finds the entry again: its address in the map of the infinite directory,
  its set and way in the standard one.
\<close>

section \<open>Sharing vectors\<close>

definition MAX_NUM_SHARERS :: nat where "MAX_NUM_SHARERS = 512"

type_synonym SharingVector = "nat set"

definition addSharer :: "nat \<Rightarrow> SharingVector \<Rightarrow> SharingVector result" where
  "addSharer index s = dbg_assert (index < MAX_NUM_SHARERS) (Inr (insert index s))"

definition removeSharer :: "nat \<Rightarrow> SharingVector \<Rightarrow> SharingVector result" where
  "removeSharer index s = dbg_assert (index < MAX_NUM_SHARERS) (Inr (s - {index}))"

definition countSharers :: "SharingVector \<Rightarrow> nat" where
  "countSharers s = card s"

definition isSharer :: "nat \<Rightarrow> SharingVector \<Rightarrow> bool result" where
  "isSharer index s = dbg_assert (index < MAX_NUM_SHARERS) (Inr (index \<in> s))"

definition getFirstSharer :: "SharingVector \<Rightarrow> int" where
  "getFirstSharer s = (case find (\<lambda>i. i \<in> s) [0..<MAX_NUM_SHARERS] of None \<Rightarrow> - 1 | Some i \<Rightarrow> int i)"

definition getClosestSharer :: "nat \<Rightarrow> SharingVector \<Rightarrow> int" where
  "getClosestSharer index s =
     (let lhs = find (\<lambda>i. i \<in> s) [index + 1..<MAX_NUM_SHARERS];
          rhs = find (\<lambda>i. i \<in> s) (rev [0..<index]) in
      case rhs of
        Some r \<Rightarrow> (case lhs of Some l \<Rightarrow> if index - r < l - index then int r else int l | None \<Rightarrow> int r)
      | None \<Rightarrow> (case lhs of Some l \<Rightarrow> int l | None \<Rightarrow> if index \<in> s then int index else - 1))"

definition toList :: "SharingVector \<Rightarrow> nat list" where
  "toList s = filter (\<lambda>i. i \<in> s) [0..<MAX_NUM_SHARERS]"

definition flip :: "SharingVector \<Rightarrow> SharingVector" where
  "flip s = {..<MAX_NUM_SHARERS} - s"

text \<open>\<open>getUInt64\<close> goes down the low 64 bits; a word is turned back into a bitset of them.\<close>

definition getUInt64 :: "SharingVector \<Rightarrow> u64" where
  "getUInt64 s = foldl (\<lambda>ret i. push_bit 1 ret OR (if i \<in> s then 1 else 0)) 0 (rev [0..<64])"

definition bitset_of_u64 :: "u64 \<Rightarrow> SharingVector" where
  "bitset_of_u64 w = set (filter (bit w) [0..<64])"

section \<open>Entries\<close>

datatype SharingState = ZeroSharers | OneSharer | ManySharers

record BlockDirectoryEntry =
  de_address :: u64
  de_sharers :: SharingVector
  de_state :: SharingState

definition BlockDirectoryEntry_new :: "u64 \<Rightarrow> BlockDirectoryEntry" where
  "BlockDirectoryEntry_new addr = \<lparr>de_address = addr, de_sharers = {}, de_state = ZeroSharers\<rparr>"

definition de_addSharer :: "nat \<Rightarrow> BlockDirectoryEntry \<Rightarrow> BlockDirectoryEntry result" where
  "de_addSharer index e = rbind (addSharer index (de_sharers e)) (\<lambda>s.
     Inr (e\<lparr>de_sharers := s, de_state := if countSharers s = 1 then OneSharer else ManySharers\<rparr>))"

definition de_makeExclusive :: "nat \<Rightarrow> BlockDirectoryEntry \<Rightarrow> BlockDirectoryEntry result" where
  "de_makeExclusive index e = rbind (isSharer index (de_sharers e)) (\<lambda>b.
     dbg_assert b (dbg_assert (countSharers (de_sharers e) = 1) (Inr (e\<lparr>de_state := OneSharer\<rparr>))))"

definition de_removeSharer :: "nat \<Rightarrow> BlockDirectoryEntry \<Rightarrow> BlockDirectoryEntry result" where
  "de_removeSharer index e = rbind (removeSharer index (de_sharers e)) (\<lambda>s.
     Inr (if countSharers s = 0 then e\<lparr>de_sharers := s, de_state := ZeroSharers\<rparr>
          else if countSharers s = 1 then e\<lparr>de_sharers := s, de_state := OneSharer\<rparr>
          else e\<lparr>de_sharers := s\<rparr>))"

definition sharing_state :: "SharingVector \<Rightarrow> SharingState" where
  "sharing_state s = (if countSharers s = 1 then OneSharer else if countSharers s = 0 then ZeroSharers
     else ManySharers)"

definition de_setSharers :: "SharingVector \<Rightarrow> BlockDirectoryEntry \<Rightarrow> BlockDirectoryEntry" where
  "de_setSharers s e = e\<lparr>de_sharers := s, de_state := sharing_state s\<rparr>"

definition de_clear :: "BlockDirectoryEntry \<Rightarrow> BlockDirectoryEntry" where
  "de_clear e = e\<lparr>de_sharers := {}, de_state := ZeroSharers\<rparr>"

definition de_reset :: "u64 \<Rightarrow> BlockDirectoryEntry \<Rightarrow> BlockDirectoryEntry" where
  "de_reset addr e = e\<lparr>de_address := addr, de_sharers := {}, de_state := ZeroSharers\<rparr>"

definition de_and :: "BlockDirectoryEntry \<Rightarrow> BlockDirectoryEntry \<Rightarrow> BlockDirectoryEntry" where
  "de_and e entry = de_setSharers (de_sharers e \<inter> de_sharers entry) e"

definition de_getSerializer :: "BlockDirectoryEntry \<Rightarrow> u64 \<times> u64" where
  "de_getSerializer e = (de_address e, getUInt64 (de_sharers e))"

definition de_of_serializer :: "u64 \<times> u64 \<Rightarrow> BlockDirectoryEntry" where
  "de_of_serializer = (\<lambda>(tag, state). \<lparr>de_address = tag, de_sharers = bitset_of_u64 state,
     de_state = sharing_state (bitset_of_u64 state)\<rparr>)"

text \<open>The serializer of the infinite directory keeps the whole bitset.\<close>

definition inf_getSerializer :: "BlockDirectoryEntry \<Rightarrow> u64 \<times> SharingVector" where
  "inf_getSerializer e = (de_address e, de_sharers e)"

definition inf_of_serializer :: "u64 \<times> SharingVector \<Rightarrow> BlockDirectoryEntry" where
  "inf_of_serializer = (\<lambda>(tag, state). \<lparr>de_address = tag, de_sharers = state, de_state = sharing_state state\<rparr>)"

section \<open>Directories\<close>

record ('d, 'p) dir_ops =
  op_dlookup :: "nat \<Rightarrow> u64 \<Rightarrow> MemoryMessageType \<Rightarrow> 'd \<Rightarrow>
     ('d \<times> SharingVector \<times> SharingState \<times> 'p \<times> (u64 \<times> SharingVector) list) result"
  op_snoopLookup :: "u64 \<Rightarrow> 'd \<Rightarrow> (SharingVector \<times> SharingState \<times> 'p \<times> bool) result"
  op_addSharer :: "nat \<Rightarrow> 'p \<Rightarrow> u64 \<Rightarrow> 'd \<Rightarrow> 'd result"
  op_addExclusiveSharer :: "nat \<Rightarrow> 'p \<Rightarrow> u64 \<Rightarrow> 'd \<Rightarrow> 'd result"
  op_removeSharer :: "nat \<Rightarrow> 'p \<Rightarrow> u64 \<Rightarrow> 'd \<Rightarrow> 'd result"
  op_failedSnoop :: "nat \<Rightarrow> 'p \<Rightarrow> u64 \<Rightarrow> 'd \<Rightarrow> 'd result"
  op_makeSharerExclusive :: "nat \<Rightarrow> 'p \<Rightarrow> u64 \<Rightarrow> 'd \<Rightarrow> 'd result"
  op_erase_unshared :: "MemoryMessageType \<Rightarrow> 'p \<Rightarrow> u64 \<Rightarrow> 'd \<Rightarrow> 'd result"

definition processSnoopResponse ::
    "('d, 'p) dir_ops \<Rightarrow> nat \<Rightarrow> MemoryMessageType \<Rightarrow> 'p \<Rightarrow> u64 \<Rightarrow> 'd \<Rightarrow> 'd result" where
  "processSnoopResponse dops index t p address d =
     (if t \<in> {Invalidate, ReturnNAck} then op_failedSnoop dops index p address d
      else if t \<in> {InvalidateAck, InvUpdateAck} then op_removeSharer dops index p address d
      else if t \<in> {ReturnReply, ReturnReplyDirty, DowngradeAck, DownUpdateAck} then Inr d
      else Inl AssertFailed)"

text \<open>
  The last step is what the infinite directory adds to the inherited function; it does
  nothing in the other one.
\<close>

definition processRequestResponse ::
    "('d, 'p) dir_ops \<Rightarrow> nat \<Rightarrow> MemoryMessageType \<Rightarrow> MemoryMessageType \<Rightarrow> 'p \<Rightarrow> u64 \<Rightarrow> 'd \<Rightarrow> 'd result" where
  "processRequestResponse dops index request response p address d =
     rbind (if request \<in> {EvictClean, EvictWritable, EvictDirty} then op_removeSharer dops index p address d
            else if request = UpgradeReq then
              dbg_assert (response = UpgradeReply) (op_makeSharerExclusive dops index p address d)
            else if response \<in> {MissReply, FwdReplyOwned} then op_addSharer dops index p address d
            else if response \<in> {MissReplyWritable, MissReplyDirty} then op_addExclusiveSharer dops index p address d
            else if response = NonAllocatingStoreReply then Inr d
            else Inl AssertFailed) (op_erase_unshared dops request p address)"

subsection \<open>The infinite directory\<close>

type_synonym inf_directory = "u64 \<rightharpoonup> BlockDirectoryEntry"

definition inf_findOrCreateEntry :: "u64 \<Rightarrow> inf_directory \<Rightarrow> inf_directory" where
  "inf_findOrCreateEntry addr d = (if d addr = None then d(addr \<mapsto> BlockDirectoryEntry_new addr) else d)"

definition inf_on_entry ::
    "(BlockDirectoryEntry \<Rightarrow> BlockDirectoryEntry result) \<Rightarrow> u64 \<Rightarrow> inf_directory \<Rightarrow> inf_directory result" where
  "inf_on_entry f key d = (case d key of None \<Rightarrow> Inl OutOfRange
     | Some e \<Rightarrow> rbind (f e) (\<lambda>e'. Inr (d(key \<mapsto> e'))))"

definition inf_lookup :: "nat \<Rightarrow> u64 \<Rightarrow> MemoryMessageType \<Rightarrow> inf_directory \<Rightarrow>
    (inf_directory \<times> SharingVector \<times> SharingState \<times> u64 option \<times> (u64 \<times> SharingVector) list) result" where
  "inf_lookup index address req_type d = Inr (case d address of
       None \<Rightarrow> (d, {}, ZeroSharers, None, [])
     | Some e \<Rightarrow> (d, de_sharers e, de_state e, Some address, []))"

definition inf_snoopLookup ::
    "u64 \<Rightarrow> inf_directory \<Rightarrow> (SharingVector \<times> SharingState \<times> u64 option \<times> bool) result" where
  "inf_snoopLookup address d = Inr (case d address of
       None \<Rightarrow> ({}, ZeroSharers, None, False)
     | Some e \<Rightarrow> (de_sharers e, de_state e, Some address, True))"

definition inf_addSharer :: "nat \<Rightarrow> u64 option \<Rightarrow> u64 \<Rightarrow> inf_directory \<Rightarrow> inf_directory result" where
  "inf_addSharer index p address d = (case p of
       None \<Rightarrow> inf_on_entry (de_addSharer index) address (inf_findOrCreateEntry address d)
     | Some key \<Rightarrow> inf_on_entry (de_addSharer index) key d)"

definition inf_addExclusiveSharer :: "nat \<Rightarrow> u64 option \<Rightarrow> u64 \<Rightarrow> inf_directory \<Rightarrow> inf_directory result" where
  "inf_addExclusiveSharer index p address d =
     (let f = (\<lambda>e. rbind (de_addSharer index e) (de_makeExclusive index)) in case p of
       None \<Rightarrow> inf_on_entry f address (inf_findOrCreateEntry address d)
     | Some key \<Rightarrow> inf_on_entry f key d)"

definition inf_removeSharer :: "nat \<Rightarrow> u64 option \<Rightarrow> u64 \<Rightarrow> inf_directory \<Rightarrow> inf_directory result" where
  "inf_removeSharer index p address d = (case p of None \<Rightarrow> Inr d
     | Some key \<Rightarrow> inf_on_entry (de_removeSharer index) key d)"

definition inf_makeSharerExclusive :: "nat \<Rightarrow> u64 option \<Rightarrow> u64 \<Rightarrow> inf_directory \<Rightarrow> inf_directory result" where
  "inf_makeSharerExclusive index p address d = (case p of None \<Rightarrow> Inr d
     | Some key \<Rightarrow> inf_on_entry (de_makeExclusive index) key d)"

definition inf_erase_unshared :: "MemoryMessageType \<Rightarrow> u64 option \<Rightarrow> u64 \<Rightarrow> inf_directory \<Rightarrow> inf_directory result" where
  "inf_erase_unshared request p address d =
     (if \<not> isEvictType request then Inr d
      else case p of None \<Rightarrow> Inr d
        | Some key \<Rightarrow> (case d key of None \<Rightarrow> Inl OutOfRange
            | Some e \<Rightarrow> Inr (if de_state e = ZeroSharers then d(address := None) else d)))"

definition InfiniteDirectory :: "(inf_directory, u64 option) dir_ops" where
  "InfiniteDirectory = \<lparr>op_dlookup = inf_lookup, op_snoopLookup = inf_snoopLookup,
     op_addSharer = inf_addSharer, op_addExclusiveSharer = inf_addExclusiveSharer,
     op_removeSharer = inf_removeSharer, op_failedSnoop = inf_removeSharer,
     op_makeSharerExclusive = inf_makeSharerExclusive, op_erase_unshared = inf_erase_unshared\<rparr>"

text \<open>A checkpoint lists the entries; those without sharers are left out when it is read.\<close>

definition inf_saveState :: "u64 list \<Rightarrow> inf_directory \<Rightarrow> (u64 \<times> SharingVector) list" where
  "inf_saveState keys d = map inf_getSerializer (List.map_filter d keys)"

fun inf_loadState :: "(u64 \<times> SharingVector) list \<Rightarrow> inf_directory \<Rightarrow> inf_directory" where
  "inf_loadState [] d = d"
| "inf_loadState (x # xs) d =
     inf_loadState xs (if de_state (inf_of_serializer x) \<noteq> ZeroSharers \<and> d (fst x) = None
       then d(fst x \<mapsto> inf_of_serializer x) else d)"

subsection \<open>The standard directory\<close>

datatype ReplPolicy = LRURepl | MinSharers

record StandardDirectory =
  sd_NumSets :: nat
  sd_Associativity :: nat
  sd_SkewSet :: bool
  sd_SpecialInterleaving :: bool
  sd_SetShift :: nat
  sd_SetMask :: u64
  sd_SkewShift :: nat
  sd_ReplPolicy :: ReplPolicy
  sd_Directory :: "BlockDirectoryEntry list list"

definition std_initialize :: "nat \<Rightarrow> StandardDirectory \<Rightarrow> StandardDirectory result" where
  "std_initialize blockSize d =
     dbg_assert (sd_NumSets d > 0) (dbg_assert (sd_Associativity d > 0)
       (Inr (d\<lparr>sd_Directory := replicate (sd_NumSets d) (replicate (sd_Associativity d) (BlockDirectoryEntry_new 0)),
          sd_SetMask := of_nat (sd_NumSets d - 1), sd_SetShift := log_base2 blockSize,
          sd_SkewShift := 34 - log_base2 (sd_NumSets d)\<rparr>)))"

text \<open>
  A physical address is a signed word: the special interleaving shifts it as one, the other
  two read it as unsigned first.
\<close>

definition std_get_set :: "StandardDirectory \<Rightarrow> u64 \<Rightarrow> nat" where
  "std_get_set d addr = unat (
     (if sd_SpecialInterleaving d then
        let index = signed_drop_bit (sd_SetShift d) addr;
            bank = (index AND 3) OR push_bit 1 (index AND 4) OR drop_bit 4 (index AND 64) OR
                   drop_bit 3 (index AND 0x180);
            set = (index AND NOT 0x1FF) OR push_bit 3 (index AND 0x38) in
        if sd_SkewSet d then (set XOR (signed_drop_bit (sd_SkewShift d) addr AND NOT 0x3F)) OR bank
        else set OR bank
      else if sd_SkewSet d then drop_bit (sd_SetShift d) addr XOR drop_bit (sd_SkewShift d) addr
      else drop_bit (sd_SetShift d) addr) AND sd_SetMask d)"

text \<open>The scan of a set ends at the entry of the address or with the way to replace, if any.\<close>

fun std_scan :: "ReplPolicy \<Rightarrow> u64 \<Rightarrow> nat \<Rightarrow> BlockDirectoryEntry list \<Rightarrow> nat option \<Rightarrow> nat option \<Rightarrow>
    nat + nat option" where
  "std_scan pol addr way [] min_sharers min_way = Inr min_way"
| "std_scan pol addr way (e # es) min_sharers min_way =
     (if de_address e = addr then Inl way
      else if pol = LRURepl \<and> de_state e = ZeroSharers then
        std_scan pol addr (way + 1) es min_sharers (Some way)
      else if pol = MinSharers \<and>
          (case min_sharers of None \<Rightarrow> True | Some m \<Rightarrow> countSharers (de_sharers e) < m) then
        std_scan pol addr (way + 1) es (Some (countSharers (de_sharers e))) (Some way)
      else std_scan pol addr (way + 1) es min_sharers min_way)"

definition std_rotate :: "nat \<Rightarrow> 'a list \<Rightarrow> 'a list" where
  "std_rotate way es = es ! way # take way es @ drop (way + 1) es"

definition std_findOrCreateEntry ::
    "u64 \<Rightarrow> bool \<Rightarrow> StandardDirectory \<Rightarrow> (StandardDirectory \<times> nat \<times> nat) result" where
  "std_findOrCreateEntry addr make_lru d =
     (let s = std_get_set d addr in
      rbind (lookup_vec (sd_Directory d) s) (\<lambda>es.
      let way = (case std_scan (sd_ReplPolicy d) addr 0 (take (sd_Associativity d) es) None None of
            Inl w \<Rightarrow> w | Inr None \<Rightarrow> sd_Associativity d - 1 | Inr (Some w) \<Rightarrow> w) in
      Inr (if make_lru then (d\<lparr>sd_Directory := (sd_Directory d)[s := std_rotate way es]\<rparr>, s, 0)
           else (d, s, way))))"

definition std_entry :: "nat \<times> nat \<Rightarrow> StandardDirectory \<Rightarrow> BlockDirectoryEntry result" where
  "std_entry = (\<lambda>(s, way) d. rbind (lookup_vec (sd_Directory d) s) (\<lambda>es. lookup_vec es way))"

definition std_on_entry ::
    "(BlockDirectoryEntry \<Rightarrow> BlockDirectoryEntry result) \<Rightarrow> (nat \<times> nat) option \<Rightarrow> StandardDirectory \<Rightarrow>
     StandardDirectory result" where
  "std_on_entry f p d = (case p of None \<Rightarrow> Inl OutOfRange | Some (s, way) \<Rightarrow>
     rbind (std_entry (s, way) d) (\<lambda>e. rbind (f e) (\<lambda>e'.
       Inr (d\<lparr>sd_Directory := (sd_Directory d)[s := (sd_Directory d ! s)[way := e']]\<rparr>))))"

definition std_lookup :: "nat \<Rightarrow> u64 \<Rightarrow> MemoryMessageType \<Rightarrow> StandardDirectory \<Rightarrow>
    (StandardDirectory \<times> SharingVector \<times> SharingState \<times> (nat \<times> nat) option \<times> (u64 \<times> SharingVector) list) result" where
  "std_lookup index address req_type d =
     rbind (std_findOrCreateEntry address (\<not> isEvictType req_type) d) (\<lambda>(d, s, way).
     rbind (std_entry (s, way) d) (\<lambda>e.
       if de_address e \<noteq> address then
         rbind (std_on_entry (\<lambda>e. Inr (de_reset address e)) (Some (s, way)) d) (\<lambda>d.
           Inr (d, {}, ZeroSharers, Some (s, way), [(de_address e, de_sharers e)]))
       else Inr (d, de_sharers e, de_state e, Some (s, way), [])))"

definition std_snoopLookup ::
    "u64 \<Rightarrow> StandardDirectory \<Rightarrow> (SharingVector \<times> SharingState \<times> (nat \<times> nat) option \<times> bool) result" where
  "std_snoopLookup address d =
     rbind (std_findOrCreateEntry address False d) (\<lambda>(d, s, way). rbind (std_entry (s, way) d) (\<lambda>e.
       Inr (if de_address e \<noteq> address then ({}, ZeroSharers, None, False)
            else (de_sharers e, de_state e, Some (s, way), True))))"

definition std_addSharer :: "nat \<Rightarrow> (nat \<times> nat) option \<Rightarrow> u64 \<Rightarrow> StandardDirectory \<Rightarrow> StandardDirectory result" where
  "std_addSharer index p address = std_on_entry (de_addSharer index) p"

definition std_addExclusiveSharer ::
    "nat \<Rightarrow> (nat \<times> nat) option \<Rightarrow> u64 \<Rightarrow> StandardDirectory \<Rightarrow> StandardDirectory result" where
  "std_addExclusiveSharer index p address =
     std_on_entry (\<lambda>e. rbind (de_addSharer index e) (de_makeExclusive index)) p"

definition std_removeSharer :: "nat \<Rightarrow> (nat \<times> nat) option \<Rightarrow> u64 \<Rightarrow> StandardDirectory \<Rightarrow> StandardDirectory result" where
  "std_removeSharer index p address = std_on_entry (de_removeSharer index) p"

definition std_makeSharerExclusive ::
    "nat \<Rightarrow> (nat \<times> nat) option \<Rightarrow> u64 \<Rightarrow> StandardDirectory \<Rightarrow> StandardDirectory result" where
  "std_makeSharerExclusive index p address = std_on_entry (de_makeExclusive index) p"

definition StandardDirectory_ops :: "(StandardDirectory, (nat \<times> nat) option) dir_ops" where
  "StandardDirectory_ops = \<lparr>op_dlookup = std_lookup, op_snoopLookup = std_snoopLookup,
     op_addSharer = std_addSharer, op_addExclusiveSharer = std_addExclusiveSharer,
     op_removeSharer = std_removeSharer, op_failedSnoop = std_removeSharer,
     op_makeSharerExclusive = std_makeSharerExclusive,
     op_erase_unshared = (\<lambda>request p address d. Inr d)\<rparr>"

definition std_saveState :: "StandardDirectory \<Rightarrow> nat \<times> nat \<times> (u64 \<times> u64) list list" where
  "std_saveState d = (sd_NumSets d, sd_Associativity d, map (map de_getSerializer) (sd_Directory d))"

definition std_loadState :: "nat \<times> nat \<times> (u64 \<times> u64) list list \<Rightarrow> StandardDirectory \<Rightarrow> StandardDirectory result" where
  "std_loadState = (\<lambda>(set_count, associativity, ss) d.
     dbg_assert (set_count = sd_NumSets d) (dbg_assert (associativity = sd_Associativity d)
       (Inr (d\<lparr>sd_Directory := map (map de_of_serializer) ss\<rparr>))))"

section \<open>The arguments of a factory\<close>

definition parse_arg :: "string \<Rightarrow> (string \<times> string) list" where
  "parse_arg cur =
     (let key = takeWhile (\<lambda>c. c \<noteq> CHR ''='') cur; rest = dropWhile (\<lambda>c. c \<noteq> CHR ''='') cur;
          value = (if rest = [] then ''1'' else tl rest) in
      if key = [] then [] else [(key, value)])"

function parse_args :: "string \<Rightarrow> (string \<times> string) list" where
  "parse_args args = parse_arg (takeWhile (\<lambda>c. c \<noteq> CHR '':'') args) @
     (case dropWhile (\<lambda>c. c \<noteq> CHR '':'') args of [] \<Rightarrow> [] | c # rest \<Rightarrow> parse_args rest)"
  by auto

termination
proof (relation "measure length", simp)
  fix args c and rest :: string
  assume "dropWhile (\<lambda>c. c \<noteq> CHR '':'') args = c # rest"
  then have "length (c # rest) \<le> length args" by (metis length_dropWhile_le)
  then show "(rest, args) \<in> measure length" by simp
qed

declare parse_args.simps [simp del]

definition createInstance :: "(string \<rightharpoonup> ((string \<times> string) list \<Rightarrow> 'a result)) \<Rightarrow> string \<Rightarrow> 'a result" where
  "createInstance factories args =
     (let name = takeWhile (\<lambda>c. c \<noteq> CHR '':'') args; rest = dropWhile (\<lambda>c. c \<noteq> CHR '':'') args in
      case factories name of None \<Rightarrow> Inl AssertFailed
      | Some cons \<Rightarrow> cons (parse_args (if rest = [] then [] else tl rest)))"

end
