(* ===== verification/Cmp_Cache.thy ===== *)
theory Cmp_Cache
  imports Cmp_Directory Fast_Protocol
begin

text \<open>
  The shared second level cache of the trace mode: the protocol table of
  \<open>components/FastCMPCache/SingleCMPProtocol.cpp\<close>, the component
  \<open>FastCMPCacheImpl.cpp\<close> and the memory behind it,
  \<open>components/FastMemoryLoopback/FastMemoryLoopbackImpl.cpp\<close>. The tag array is the \<open>StdCache\<close>
  of the first level (the two headers share their code); the directory sits beside it in
  the state. Counters are kept under the names of the statistics; the histograms of sharers
  per request are left out, and so is the queue of delayed actions, which these directories
  never fill.
\<close>

section \<open>Protocol\<close>

abbreviation NoRequest :: MemoryMessageType where "NoRequest \<equiv> NumMemoryMessageTypes"

record PrimaryAction =
  snoop_type :: MemoryMessageType
  terminal_response :: "MemoryMessageType \<times> MemoryMessageType"
  response :: "MemoryMessageType \<times> MemoryMessageType"
  next_state :: "CoherenceState_t \<times> CoherenceState_t"
  multicast :: bool
  forward_request :: bool
  allocate :: bool
  update :: bool
  stat :: string
  poison :: bool

definition mk_action :: "MemoryMessageType \<Rightarrow> MemoryMessageType \<Rightarrow> MemoryMessageType \<Rightarrow> MemoryMessageType \<Rightarrow>
    MemoryMessageType \<Rightarrow> CoherenceState_t \<Rightarrow> CoherenceState_t \<Rightarrow> bool \<Rightarrow> bool \<Rightarrow> bool \<Rightarrow> bool \<Rightarrow> string \<Rightarrow>
    PrimaryAction" where
  "mk_action s t1 t2 r1 r2 ns1 ns2 m fwd a u st =
     \<lparr>snoop_type = s, terminal_response = (t1, t2), response = (r1, r2), next_state = (ns1, ns2),
      multicast = m, forward_request = fwd, allocate = a, update = u, stat = st, poison = False\<rparr>"

definition poison_action :: PrimaryAction where
  "poison_action = \<lparr>snoop_type = NoRequest, terminal_response = (NoRequest, NoRequest),
     response = (NoRequest, NoRequest), next_state = (kInvalid, kInvalid), multicast = False,
     forward_request = False, allocate = False, update = False, stat = ''NoStat'', poison = True\<rparr>"

text \<open>Request, state of the block in this cache, number of sharers.\<close>

definition single_cmp :: "((CoherenceState_t \<times> SharingState \<times> MemoryMessageType) \<times> PrimaryAction) list" where
  "single_cmp = [
     ((kModified, ZeroSharers, ReadReq), mk_action NoRequest NoRequest NoRequest MissReplyDirty NoRequest kInvalid kInvalid False False False True ''ReadReq_kModified_ZeroSharers''),
     ((kModified, OneSharer, ReadReq), mk_action NoRequest NoRequest NoRequest MissReply NoRequest kModified kModified False False False True ''ReadReq_kModified_OneSharer''),
     ((kModified, ManySharers, ReadReq), mk_action NoRequest NoRequest NoRequest MissReply NoRequest kModified kModified False False False True ''ReadReq_kModified_ManySharers''),
     ((kExclusive, ZeroSharers, ReadReq), mk_action NoRequest NoRequest NoRequest MissReplyWritable NoRequest kExclusive kExclusive False False False True ''ReadReq_kExclusive_ZeroSharers''),
     ((kExclusive, OneSharer, ReadReq), mk_action ReturnReq ReturnReply ReturnReplyDirty MissReply MissReply kExclusive kModified False False False True ''ReadReq_kExclusive_OneSharer''),
     ((kExclusive, ManySharers, ReadReq), mk_action NoRequest NoRequest NoRequest MissReply NoRequest kExclusive kExclusive False False False True ''ReadReq_kExclusive_ManySharers''),
     ((kShared, ZeroSharers, ReadReq), mk_action NoRequest NoRequest NoRequest MissReply NoRequest kShared kShared False False False True ''ReadReq_kShared_ZeroSharers''),
     ((kShared, OneSharer, ReadReq), mk_action NoRequest NoRequest NoRequest MissReply NoRequest kShared kShared False False False True ''ReadReq_kShared_OneSharer''),
     ((kShared, ManySharers, ReadReq), mk_action NoRequest NoRequest NoRequest MissReply NoRequest kShared kShared False False False True ''ReadReq_kShared_ManySharers''),
     ((kInvalid, ZeroSharers, ReadReq), mk_action NoRequest NoRequest NoRequest MissReplyWritable NoRequest kExclusive kExclusive False True True True ''ReadReq_kInvalid_ZeroSharers''),
     ((kInvalid, OneSharer, ReadReq), mk_action ReturnReq ReturnReply ReturnReplyDirty MissReply MissReply kShared kModified False False True True ''ReadReq_kInvalid_OneSharer''),
     ((kInvalid, ManySharers, ReadReq), mk_action ReturnReq ReturnReply ReturnReplyDirty MissReply MissReply kShared kModified False False True True ''ReadReq_kInvalid_ManySharers''),
     ((kModified, ZeroSharers, FetchReq), mk_action NoRequest NoRequest NoRequest MissReply NoRequest kModified kModified False False False True ''FetchReq_kModified_ZeroSharers''),
     ((kModified, OneSharer, FetchReq), mk_action ReturnReq ReturnReply ReturnReplyDirty MissReply MissReply kModified kModified False False False True ''FetchReq_kModified_OneSharer''),
     ((kModified, ManySharers, FetchReq), mk_action NoRequest NoRequest NoRequest MissReply NoRequest kModified kModified False False False True ''FetchReq_kModified_ManySharers''),
     ((kExclusive, ZeroSharers, FetchReq), mk_action NoRequest NoRequest NoRequest MissReply NoRequest kExclusive kExclusive False False False True ''FetchReq_kExclusive_ZeroSharers''),
     ((kExclusive, OneSharer, FetchReq), mk_action ReturnReq ReturnReply ReturnReplyDirty MissReply MissReply kExclusive kModified False False False True ''FetchReq_kExclusive_OneSharer''),
     ((kExclusive, ManySharers, FetchReq), mk_action NoRequest NoRequest NoRequest MissReply NoRequest kExclusive kExclusive False False False True ''FetchReq_kExclusive_ManySharers''),
     ((kShared, ZeroSharers, FetchReq), mk_action NoRequest NoRequest NoRequest MissReply NoRequest kShared kShared False False False True ''FetchReq_kShared_ZeroSharers''),
     ((kShared, OneSharer, FetchReq), mk_action NoRequest NoRequest NoRequest MissReply NoRequest kShared kShared False False False True ''FetchReq_kShared_OneSharer''),
     ((kShared, ManySharers, FetchReq), mk_action NoRequest NoRequest NoRequest MissReply NoRequest kShared kShared False False False True ''FetchReq_kShared_ManySharers''),
     ((kInvalid, ZeroSharers, FetchReq), mk_action NoRequest NoRequest NoRequest MissReply NoRequest kShared kShared False True True True ''FetchReq_kInvalid_ZeroSharers''),
     ((kInvalid, OneSharer, FetchReq), mk_action ReturnReq ReturnReply ReturnReplyDirty MissReply MissReply kShared kModified False False True True ''FetchReq_kInvalid_OneSharer''),
     ((kInvalid, ManySharers, FetchReq), mk_action ReturnReq ReturnReply ReturnReplyDirty MissReply NoRequest kShared kModified False False True True ''FetchReq_kInvalid_ManySharers''),
     ((kModified, ZeroSharers, UpgradeReq), poison_action),
     ((kModified, OneSharer, UpgradeReq), mk_action NoRequest NoRequest NoRequest UpgradeReply NoRequest kInvalid kInvalid False False False True ''UpgradeReq_kModified_OneSharer''),
     ((kModified, ManySharers, UpgradeReq), mk_action Invalidate InvalidateAck InvUpdateAck UpgradeReply UpgradeReply kInvalid kInvalid True False False True ''UpgradeReq_kModified_ManySharers''),
     ((kExclusive, ZeroSharers, UpgradeReq), poison_action),
     ((kExclusive, OneSharer, UpgradeReq), mk_action NoRequest NoRequest NoRequest UpgradeReply NoRequest kInvalid kInvalid False False False True ''UpgradeReq_kExclusive_OneSharer''),
     ((kExclusive, ManySharers, UpgradeReq), mk_action Invalidate InvalidateAck InvUpdateAck UpgradeReply UpgradeReply kInvalid kInvalid True False False True ''UpgradeReq_kExclusive_ManySharers''),
     ((kShared, ZeroSharers, UpgradeReq), poison_action),
     ((kShared, OneSharer, UpgradeReq), mk_action NoRequest NoRequest NoRequest UpgradeReply NoRequest kInvalid kInvalid False False False True ''UpgradeReq_kShared_OneSharer''),
     ((kShared, ManySharers, UpgradeReq), mk_action Invalidate InvalidateAck InvUpdateAck UpgradeReply UpgradeReply kInvalid kInvalid True False False True ''UpgradeReq_kShared_ManySharers''),
     ((kInvalid, ZeroSharers, UpgradeReq), poison_action),
     ((kInvalid, OneSharer, UpgradeReq), mk_action NoRequest NoRequest NoRequest UpgradeReply NoRequest kInvalid kInvalid False False False True ''UpgradeReq_kInvalid_OneSharer''),
     ((kInvalid, ManySharers, UpgradeReq), mk_action Invalidate InvalidateAck InvUpdateAck UpgradeReply UpgradeReply kInvalid kInvalid True False False True ''UpgradeReq_kInvalid_ManySharers''),
     ((kModified, ZeroSharers, WriteReq), mk_action NoRequest NoRequest NoRequest MissReplyDirty NoRequest kInvalid kInvalid False False False True ''WriteReq_kModified_ZeroSharers''),
     ((kModified, OneSharer, WriteReq), mk_action Invalidate InvalidateAck InvUpdateAck MissReplyDirty MissReplyDirty kInvalid kInvalid False False False True ''WriteReq_kModified_OneSharer''),
     ((kModified, ManySharers, WriteReq), mk_action Invalidate InvalidateAck InvUpdateAck MissReplyDirty MissReplyDirty kInvalid kInvalid True False False True ''WriteReq_kModified_ManySharers''),
     ((kExclusive, ZeroSharers, WriteReq), mk_action NoRequest NoRequest NoRequest MissReplyWritable NoRequest kInvalid kInvalid False False False True ''WriteReq_kExclusive_ZeroSharers''),
     ((kExclusive, OneSharer, WriteReq), mk_action Invalidate InvalidateAck InvUpdateAck MissReply MissReplyDirty kInvalid kInvalid False False False True ''WriteReq_kExclusive_OneSharer''),
     ((kExclusive, ManySharers, WriteReq), mk_action Invalidate InvalidateAck InvUpdateAck MissReply MissReplyDirty kInvalid kInvalid True False False True ''WriteReq_kExclusive_ManySharers''),
     ((kShared, ZeroSharers, WriteReq), mk_action NoRequest NoRequest NoRequest MissReplyWritable NoRequest kInvalid kInvalid False False False True ''WriteReq_kShared_ZeroSharers''),
     ((kShared, OneSharer, WriteReq), mk_action Invalidate InvalidateAck InvUpdateAck MissReply MissReply kInvalid kInvalid False False False True ''WriteReq_kShared_OneSharer''),
     ((kShared, ManySharers, WriteReq), mk_action Invalidate InvalidateAck InvUpdateAck MissReply NoRequest kInvalid kInvalid True False False True ''WriteReq_kShared_ManySharers''),
     ((kInvalid, ZeroSharers, WriteReq), mk_action NoRequest NoRequest NoRequest MissReplyWritable NoRequest kInvalid kInvalid False True False True ''WriteReq_kInvalid_ZeroSharers''),
     ((kInvalid, OneSharer, WriteReq), mk_action Invalidate InvalidateAck InvUpdateAck MissReply MissReply kInvalid kInvalid False False False True ''WriteReq_kInvalid_OneSharer''),
     ((kInvalid, ManySharers, WriteReq), mk_action Invalidate InvalidateAck InvUpdateAck MissReply NoRequest kInvalid kInvalid True False False True ''WriteReq_kInvalid_ManySharers''),
     ((kModified, ZeroSharers, NonAllocatingStoreReq), mk_action NoRequest NoRequest NoRequest NonAllocatingStoreReply NoRequest kModified kModified False False False True ''NonAllocatingStoreReq_kModified_ZeroSharers''),
     ((kModified, OneSharer, NonAllocatingStoreReq), mk_action Invalidate InvalidateAck InvUpdateAck NonAllocatingStoreReply NonAllocatingStoreReply kModified kModified False False False True ''NonAllocatingStoreReq_kModified_OneSharer''),
     ((kModified, ManySharers, NonAllocatingStoreReq), mk_action Invalidate InvalidateAck InvUpdateAck NonAllocatingStoreReply NonAllocatingStoreReply kModified kModified True False False True ''NonAllocatingStoreReq_kModified_ManySharers''),
     ((kExclusive, ZeroSharers, NonAllocatingStoreReq), mk_action NoRequest NoRequest NoRequest NonAllocatingStoreReply NoRequest kModified kModified False False False True ''NonAllocatingStoreReq_kExclusive_ZeroSharers''),
     ((kExclusive, OneSharer, NonAllocatingStoreReq), mk_action Invalidate InvalidateAck InvUpdateAck NonAllocatingStoreReply NonAllocatingStoreReply kModified kModified False False False True ''NonAllocatingStoreReq_kExclusive_OneSharer''),
     ((kExclusive, ManySharers, NonAllocatingStoreReq), mk_action Invalidate InvalidateAck InvUpdateAck NonAllocatingStoreReply NonAllocatingStoreReply kModified kModified True False False True ''NonAllocatingStoreReq_kExclusive_ManySharers''),
     ((kShared, ZeroSharers, NonAllocatingStoreReq), mk_action NoRequest NoRequest NoRequest NonAllocatingStoreReply NoRequest kModified kModified False False False True ''NonAllocatingStoreReq_kShared_ZeroSharers''),
     ((kShared, OneSharer, NonAllocatingStoreReq), mk_action Invalidate InvalidateAck InvUpdateAck NonAllocatingStoreReply NonAllocatingStoreReply kModified kModified False False False True ''NonAllocatingStoreReq_kShared_OneSharer''),
     ((kShared, ManySharers, NonAllocatingStoreReq), mk_action Invalidate InvalidateAck InvUpdateAck NonAllocatingStoreReply NoRequest kModified kModified True False False True ''NonAllocatingStoreReq_kShared_ManySharers''),
     ((kInvalid, ZeroSharers, NonAllocatingStoreReq), mk_action NoRequest NoRequest NoRequest NonAllocatingStoreReply NoRequest kInvalid kInvalid False True False True ''NonAllocatingStoreReq_kInvalid_ZeroSharers''),
     ((kInvalid, OneSharer, NonAllocatingStoreReq), mk_action Invalidate NoRequest NoRequest NonAllocatingStoreReply NonAllocatingStoreReply kInvalid kInvalid False True False True ''NonAllocatingStoreReq_kInvalid_OneSharer''),
     ((kInvalid, ManySharers, NonAllocatingStoreReq), mk_action Invalidate NoRequest NoRequest NonAllocatingStoreReply NoRequest kInvalid kInvalid True True False True ''NonAllocatingStoreReq_kInvalid_ManySharers''),
     ((kModified, ZeroSharers, EvictClean), poison_action),
     ((kModified, OneSharer, EvictClean), mk_action NoRequest NoRequest NoRequest NoRequest NoRequest kModified kModified False False False False ''EvictClean_kModified_OneSharer''),
     ((kModified, ManySharers, EvictClean), mk_action NoRequest NoRequest NoRequest NoRequest NoRequest kModified kModified False False False False ''EvictClean_kModified_ManySharers''),
     ((kExclusive, ZeroSharers, EvictClean), poison_action),
     ((kExclusive, OneSharer, EvictClean), mk_action NoRequest NoRequest NoRequest NoRequest NoRequest kExclusive kExclusive False False False False ''EvictClean_kExclusive_OneSharer''),
     ((kExclusive, ManySharers, EvictClean), mk_action NoRequest NoRequest NoRequest NoRequest NoRequest kExclusive kExclusive False False False False ''EvictClean_kExclusive_ManySharers''),
     ((kShared, ZeroSharers, EvictClean), poison_action),
     ((kShared, OneSharer, EvictClean), mk_action NoRequest NoRequest NoRequest NoRequest NoRequest kShared kShared False False False False ''EvictClean_kShared_OneSharer''),
     ((kShared, ManySharers, EvictClean), mk_action NoRequest NoRequest NoRequest NoRequest NoRequest kShared kShared False False False False ''EvictClean_kShared_ManySharers''),
     ((kInvalid, ZeroSharers, EvictClean), poison_action),
     ((kInvalid, OneSharer, EvictClean), mk_action NoRequest NoRequest NoRequest NoRequest NoRequest kInvalid kInvalid False False False False ''EvictClean_kInvalid_OneSharer''),
     ((kInvalid, ManySharers, EvictClean), mk_action NoRequest NoRequest NoRequest NoRequest NoRequest kInvalid kInvalid False False False False ''EvictClean_kInvalid_ManySharers''),
     ((kModified, ZeroSharers, EvictWritable), poison_action),
     ((kModified, OneSharer, EvictWritable), mk_action NoRequest NoRequest NoRequest NoRequest NoRequest kModified kModified False False False False ''EvictWritable_kModified_OneSharer''),
     ((kModified, ManySharers, EvictWritable), poison_action),
     ((kExclusive, ZeroSharers, EvictWritable), poison_action),
     ((kExclusive, OneSharer, EvictWritable), mk_action NoRequest NoRequest NoRequest NoRequest NoRequest kExclusive kExclusive False False False False ''EvictWritable_kExclusive_OneSharer''),
     ((kExclusive, ManySharers, EvictWritable), poison_action),
     ((kShared, ZeroSharers, EvictWritable), poison_action),
     ((kShared, OneSharer, EvictWritable), poison_action),
     ((kShared, ManySharers, EvictWritable), poison_action),
     ((kInvalid, ZeroSharers, EvictWritable), poison_action),
     ((kInvalid, OneSharer, EvictWritable), mk_action NoRequest NoRequest NoRequest NoRequest NoRequest kExclusive kExclusive False False True False ''EvictWritable_kInvalid_OneSharer''),
     ((kInvalid, ManySharers, EvictWritable), poison_action),
     ((kModified, ZeroSharers, EvictDirty), poison_action),
     ((kModified, OneSharer, EvictDirty), poison_action),
     ((kModified, ManySharers, EvictDirty), poison_action),
     ((kExclusive, ZeroSharers, EvictDirty), poison_action),
     ((kExclusive, OneSharer, EvictDirty), mk_action NoRequest NoRequest NoRequest NoRequest NoRequest kModified kModified False False True False ''EvictDirty_kExclusive_OneSharer''),
     ((kExclusive, ManySharers, EvictDirty), poison_action),
     ((kShared, ZeroSharers, EvictDirty), poison_action),
     ((kShared, OneSharer, EvictDirty), poison_action),
     ((kShared, ManySharers, EvictDirty), poison_action),
     ((kInvalid, ZeroSharers, EvictDirty), poison_action),
     ((kInvalid, OneSharer, EvictDirty), mk_action NoRequest NoRequest NoRequest NoRequest NoRequest kModified kModified False False True False ''EvictDirty_kInvalid_OneSharer''),
     ((kInvalid, ManySharers, EvictDirty), poison_action)]"

definition getAction :: "CoherenceState_t \<Rightarrow> SharingState \<Rightarrow> MemoryMessageType \<Rightarrow> PrimaryAction result" where
  "getAction c_state d_state t = (case map_of single_cmp (c_state, d_state, t) of None \<Rightarrow> Inl AssertFailed
     | Some a \<Rightarrow> if poison a then Inl AssertFailed else Inr a)"

definition cmp_evict_type :: "CoherenceState_t \<Rightarrow> MemoryMessageType" where
  "cmp_evict_type s = (if s = kModified then EvictDirty else EvictClean)"

section \<open>The component\<close>

record cmp_config =
  SeparateID :: bool
  AlwaysMulticast :: bool
  theCoherenceUnitMask :: u64
  theCMPWidth :: nat

type_synonym ('c, 'd, 'e) cmp_world = "('c, 'd \<times> 'e) world"

type_synonym ('c, 'd, 'e) cmp_port = "MemoryMessage \<Rightarrow> ('c, 'd, 'e) cmp_world \<Rightarrow> (MemoryMessage \<times> ('c, 'd, 'e) cmp_world) result"

record ('c, 'd, 'e) cmp_channels =
  cmp_RequestOut :: "('c, 'd, 'e) cmp_port"
  cmp_SnoopOutI :: "nat \<Rightarrow> ('c, 'd, 'e) cmp_port"
  cmp_SnoopOutD :: "nat \<Rightarrow> ('c, 'd, 'e) cmp_port"
  cmp_next_serial :: "'e \<Rightarrow> u32 \<times> 'e"

definition combineSnoopResponse :: "MemoryMessageType \<Rightarrow> MemoryMessageType \<Rightarrow> MemoryMessageType result" where
  "combineSnoopResponse a b =
     (if a = NoRequest then Inr b else if b = NoRequest then Inr a
      else if a = InvUpdateAck \<or> b = InvUpdateAck then Inr InvUpdateAck
      else if a = InvalidateAck \<or> b = InvalidateAck then Inr InvalidateAck
      else if a = Invalidate \<or> b = Invalidate then Inr Invalidate
      else if a = ReturnReplyDirty \<or> b = ReturnReplyDirty then Inr ReturnReplyDirty
      else if a = ReturnReply \<or> b = ReturnReply then Inr ReturnReply
      else if a = ReturnNAck \<and> b = ReturnNAck then Inr ReturnNAck
      else Inl AssertFailed)"

definition on_dir :: "('d \<Rightarrow> 'd result) \<Rightarrow> ('c, 'd, 'e) cmp_world \<Rightarrow> ('c, 'd, 'e) cmp_world result" where
  "on_dir f = (\<lambda>(fc, d, e). rbind (f d) (\<lambda>d'. Inr (fc, d', e)))"

definition cmp_count :: "string \<Rightarrow> ('c, 'd, 'e) cmp_world \<Rightarrow> ('c, 'd, 'e) cmp_world" where
  "cmp_count s = (\<lambda>(fc, x). (fc\<lparr>theStats := (theStats fc)(s := theStats fc s + 1)\<rparr>, x))"

text \<open>
  The snoop goes to the data cache of a core or, if the two are tracked apart and the index is
  odd, to its instruction cache.
\<close>

definition snoop_cache :: "('c, 'd, 'e) cmp_channels \<Rightarrow> cmp_config \<Rightarrow> nat \<Rightarrow> ('c, 'd, 'e) cmp_port" where
  "snoop_cache chs cfg index =
     (if SeparateID cfg then (if odd index then cmp_SnoopOutI chs (index div 2) else cmp_SnoopOutD chs (index div 2))
      else cmp_SnoopOutD chs index)"

fun invalidate_sharers :: "('c, 'd, 'e) cmp_channels \<Rightarrow> cmp_config \<Rightarrow> nat list \<Rightarrow> MemoryMessage \<Rightarrow>
    ('c, 'd, 'e) cmp_world \<Rightarrow> ('c, 'd, 'e) cmp_world result" where
  "invalidate_sharers chs cfg [] msg w = Inr w"
| "invalidate_sharers chs cfg (i # is) msg w =
     rbind (if SeparateID cfg then snoop_cache chs cfg i (msg\<lparr>theType := Invalidate\<rparr>) w
            else rbind (cmp_SnoopOutI chs i (msg\<lparr>theType := Invalidate\<rparr>) w) (\<lambda>(m, w). cmp_SnoopOutD chs i m w))
       (\<lambda>(m, w). invalidate_sharers chs cfg is m w)"

definition invalidateBlock :: "('c, 'd, 'e) cmp_channels \<Rightarrow> cmp_config \<Rightarrow> u64 \<times> SharingVector \<Rightarrow>
    ('c, 'd, 'e) cmp_world \<Rightarrow> ('c, 'd, 'e) cmp_world result" where
  "invalidateBlock chs cfg = (\<lambda>(address, sharers) (fc, d, e).
     let (serial, e) = cmp_next_serial chs e in
     invalidate_sharers chs cfg (toList sharers) (fst (MemoryMessage_new Invalidate address 0 0 (serial - 1)))
       (fc, d, e))"

fun extra_actions :: "('c, 'd, 'e) cmp_channels \<Rightarrow> cmp_config \<Rightarrow> (u64 \<times> SharingVector) list \<Rightarrow>
    ('c, 'd, 'e) cmp_world \<Rightarrow> ('c, 'd, 'e) cmp_world result" where
  "extra_actions chs cfg [] w = Inr w"
| "extra_actions chs cfg (x # xs) w = rbind (invalidateBlock chs cfg x w) (extra_actions chs cfg xs)"

definition cmp_evict :: "('c, 'd, 'e) cmp_channels \<Rightarrow> u64 \<Rightarrow> CoherenceState_t \<Rightarrow> ('c, 'd, 'e) cmp_world \<Rightarrow>
    ('c, 'd, 'e) cmp_world result" where
  "cmp_evict chs aTagset aLineState = (\<lambda>(fc, x).
     rbind (cmp_RequestOut chs ((theEvictMessage fc)\<lparr>theAddress := aTagset, theType := cmp_evict_type aLineState\<rparr>) (fc, x))
       (\<lambda>(m, fc, x). Inr (fc\<lparr>theEvictMessage := m\<rparr>, x)))"

text \<open>
  The snoops of a request, one cache after the other. The state of the loop is the combined
  response, the reply and the choice of the next state; it stops at the first terminal
  response unless the action is a multicast.
\<close>

record snoop_state =
  ss_response :: MemoryMessageType
  ss_our_response :: MemoryMessageType
  ss_use_ns1 :: bool

definition terminal :: "PrimaryAction \<Rightarrow> MemoryMessageType \<Rightarrow> bool" where
  "terminal action t \<longleftrightarrow> t = fst (terminal_response action) \<or> t = snd (terminal_response action)"

fun snoop_loop ::
    "('d, 'p) dir_ops \<Rightarrow> ('c, 'd, 'e) cmp_channels \<Rightarrow> cmp_config \<Rightarrow> PrimaryAction \<Rightarrow> bool \<Rightarrow> nat \<Rightarrow> 'p \<Rightarrow> u64 \<Rightarrow>
     nat list \<Rightarrow> MemoryMessage \<Rightarrow> snoop_state \<Rightarrow> ('c, 'd, 'e) cmp_world \<Rightarrow>
     (snoop_state \<times> ('c, 'd, 'e) cmp_world) result" where
  "snoop_loop dops chs cfg action multiple anIndex p addr [] msg ss w = Inr (ss, w)"
| "snoop_loop dops chs cfg action multiple anIndex p addr (i # is) msg ss w =
     (if i = anIndex then snoop_loop dops chs cfg action multiple anIndex p addr is msg ss w
      else rbind (snoop_cache chs cfg i (msg\<lparr>theType := snoop_type action\<rparr>) w) (\<lambda>(m, w).
           rbind (combineSnoopResponse (ss_response ss) (theType m)) (\<lambda>resp.
           let ss = (if resp \<noteq> fst (terminal_response action) \<and> resp = snd (terminal_response action)
                     then \<lparr>ss_response = resp, ss_our_response = snd (response action), ss_use_ns1 = True\<rparr>
                     else ss\<lparr>ss_response := resp\<rparr>) in
           rbind (on_dir (processSnoopResponse dops i (theType m) p addr) w) (\<lambda>w.
           if \<not> multicast action \<and> \<not> (AlwaysMulticast cfg \<and> multiple) \<and> terminal action resp then Inr (ss, w)
           else snoop_loop dops chs cfg action multiple anIndex p addr is m ss w))))"

definition perform_snoops ::
    "('d, 'p) dir_ops \<Rightarrow> ('c, 'd, 'e) cmp_channels \<Rightarrow> cmp_config \<Rightarrow> PrimaryAction \<Rightarrow> nat \<Rightarrow> 'p \<Rightarrow> u64 \<Rightarrow>
     SharingVector \<Rightarrow> MemoryMessage \<Rightarrow> ('c, 'd, 'e) cmp_world \<Rightarrow>
     (snoop_state \<times> bool \<times> ('c, 'd, 'e) cmp_world) result" where
  "perform_snoops dops chs cfg action anIndex p addr sharers msg = (\<lambda>(fc, d, e).
     let ss = \<lparr>ss_response = NoRequest, ss_our_response = fst (response action), ss_use_ns1 = False\<rparr> in
     if snoop_type action = NoRequest then Inr (ss, False, fc, d, e)
     else let (serial, e) = cmp_next_serial chs e; snoop_msg = fst (MemoryMessage_copy msg (serial - 1));
              snoop_list = toList sharers;
              multiple = (length snoop_list > 1 \<and> \<not> (length snoop_list = 2 \<and> anIndex \<in> set snoop_list)) in
          rbind (snoop_loop dops chs cfg action multiple anIndex p addr snoop_list snoop_msg ss (fc, d, e)) (\<lambda>(ss, w).
            Inr (ss, terminal action (ss_response ss), w)))"

definition update_cache ::
    "('c, 'r, 'd \<times> 'e) cache_ops \<Rightarrow> ('c, 'd, 'e) cmp_channels \<Rightarrow> PrimaryAction \<Rightarrow> CoherenceState_t \<Rightarrow> 'r \<Rightarrow>
     ('c, 'd, 'e) cmp_world \<Rightarrow> ('c, 'd, 'e) cmp_world result" where
  "update_cache ops chs action nstate r w =
     (if allocate action then op_allocate ops (cmp_evict chs) nstate r w
      else rbind (op_getState ops r (fc_cache (fst w))) (\<lambda>s.
        if nstate \<noteq> s then
          dbg_assert (s \<noteq> kInvalid) (on_cache (op_changeState ops nstate (update action) False r) w)
        else if update action \<and> s \<noteq> kInvalid then on_cache (op_updateLRU ops r) w
        else Inr w))"

text \<open>The classification of the request at the end; other types of requests fail there.\<close>

definition classify_request :: "bool \<Rightarrow> bool \<Rightarrow> MemoryMessageType \<Rightarrow> string result" where
  "classify_request accessed_memory snoop_success t =
     (let kind = (if t = ReadReq then ''Read'' else if t = FetchReq then ''Fetch''
                  else if t = WriteReq then ''Write'' else if t = NonAllocatingStoreReq then ''NAStore'' else []) in
      if kind \<noteq> [] then
        Inr ((if accessed_memory then ''Misses:Offchip:'' else if snoop_success then ''Misses:Onchip:''
              else ''Hits:'') @ kind)
      else if accessed_memory then Inl AssertFailed
      else if t = UpgradeReq then Inr []
      else if snoop_success then Inl AssertFailed
      else if t \<in> {EvictClean, EvictDirty, EvictWritable} then Inr [] else Inl AssertFailed)"

definition processRequest ::
    "('c, 'r, 'd \<times> 'e) cache_ops \<Rightarrow> ('d, 'p) dir_ops \<Rightarrow> ('c, 'd, 'e) cmp_channels \<Rightarrow> cmp_config \<Rightarrow> nat \<Rightarrow>
     ('c, 'd, 'e) cmp_port" where
  "processRequest ops dops chs cfg anIndex msg = (\<lambda>(fc, d, e).
     let addr = theAddress msg AND theCoherenceUnitMask cfg; orig_msg_type = theType msg in
     rbind (op_dlookup dops anIndex addr orig_msg_type d) (\<lambda>(d, sharers, state, p, extra).
     rbind (op_lookup ops addr (fc_cache fc)) (\<lambda>(c, r).
     rbind (op_getState ops r c) (\<lambda>s.
     rbind (getAction s state orig_msg_type) (\<lambda>action.
     rbind (perform_snoops dops chs cfg action anIndex p addr sharers msg (fc\<lparr>fc_cache := c\<rparr>, d, e)) (\<lambda>(ss, snoop_success, w).
     let accessed_memory = (\<not> snoop_success \<and> forward_request action) in
     rbind (if accessed_memory then cmp_RequestOut chs msg w else Inr (msg, w)) (\<lambda>(m, w).
     rbind (extra_actions chs cfg extra w) (\<lambda>w.
     rbind (on_dir (processRequestResponse dops anIndex orig_msg_type (ss_our_response ss) p addr) w) (\<lambda>w.
     rbind (update_cache ops chs action
              (if ss_use_ns1 ss then snd (next_state action) else fst (next_state action)) r w) (\<lambda>w.
     rbind (classify_request accessed_memory snoop_success orig_msg_type) (\<lambda>kind.
       Inr (m\<lparr>theType := ss_our_response ss\<rparr>,
            (if kind = [] then id else cmp_count kind) (cmp_count (stat action) w)))))))))))))"

definition cmp_push_RequestIn ::
    "('c, 'r, 'd \<times> 'e) cache_ops \<Rightarrow> ('d, 'p) dir_ops \<Rightarrow> ('c, 'd, 'e) cmp_channels \<Rightarrow> cmp_config \<Rightarrow> nat \<Rightarrow>
     ('c, 'd, 'e) cmp_port" where
  "cmp_push_RequestIn ops dops chs cfg anIndex msg =
     processRequest ops dops chs cfg (if SeparateID cfg then 2 * anIndex else anIndex) (msg\<lparr>theDstream := True\<rparr>)"

definition cmp_push_FetchRequestIn ::
    "('c, 'r, 'd \<times> 'e) cache_ops \<Rightarrow> ('d, 'p) dir_ops \<Rightarrow> ('c, 'd, 'e) cmp_channels \<Rightarrow> cmp_config \<Rightarrow> nat \<Rightarrow>
     ('c, 'd, 'e) cmp_port" where
  "cmp_push_FetchRequestIn ops dops chs cfg anIndex msg =
     processRequest ops dops chs cfg (if SeparateID cfg then 2 * anIndex + 1 else anIndex) (msg\<lparr>theDstream := False\<rparr>)"

text \<open>Snoops come from memory, for accesses of devices.\<close>

fun snoop_sharers ::
    "('d, 'p) dir_ops \<Rightarrow> ('c, 'd, 'e) cmp_channels \<Rightarrow> cmp_config \<Rightarrow> 'p \<Rightarrow> u64 \<Rightarrow> MemoryMessageType \<Rightarrow> nat list \<Rightarrow>
     MemoryMessage \<Rightarrow> ('c, 'd, 'e) cmp_world \<Rightarrow> ('c, 'd, 'e) cmp_world result" where
  "snoop_sharers dops chs cfg p addr t [] snoop_msg w = Inr w"
| "snoop_sharers dops chs cfg p addr t (i # is) snoop_msg w =
     rbind (snoop_cache chs cfg i (snoop_msg\<lparr>theType := t\<rparr>) w) (\<lambda>(m, w).
     rbind (on_dir (processSnoopResponse dops i (theType m) p addr) w)
       (snoop_sharers dops chs cfg p addr t is m))"

definition cmp_push_SnoopIn ::
    "('c, 'r, 'd \<times> 'e) cache_ops \<Rightarrow> ('d, 'p) dir_ops \<Rightarrow> ('c, 'd, 'e) cmp_channels \<Rightarrow> cmp_config \<Rightarrow>
     ('c, 'd, 'e) cmp_port" where
  "cmp_push_SnoopIn ops dops chs cfg msg = (\<lambda>(fc, d, e).
     let addr = theAddress msg AND theCoherenceUnitMask cfg in
     rbind (op_snoopLookup dops addr d) (\<lambda>(sharers, state, p, dir_valid).
     rbind (op_lookup ops addr (fc_cache fc)) (\<lambda>(c, r).
     rbind (op_getState ops r c) (\<lambda>s.
     rbind (if theType msg = Downgrade then
              (if s = kModified then on_cache (op_changeState ops kExclusive False False r) (fc\<lparr>fc_cache := c\<rparr>, d, e)
               else Inr (fc\<lparr>fc_cache := c\<rparr>, d, e))
            else dbg_assert (theType msg = Invalidate)
              (if s \<noteq> kInvalid then on_cache (op_changeState ops kInvalid False False r) (fc\<lparr>fc_cache := c\<rparr>, d, e)
               else Inr (fc\<lparr>fc_cache := c\<rparr>, d, e))) (\<lambda>(fc, d, e).
     if theType msg = Downgrade \<and> countSharers sharers > 1 \<or> \<not> dir_valid then Inr (msg, fc, d, e)
     else let (serial, e) = cmp_next_serial chs e in
       rbind (snoop_sharers dops chs cfg p addr (theType msg) (toList sharers)
                (fst (MemoryMessage_copy msg (serial - 1))) (fc, d, e)) (\<lambda>w. Inr (msg, w)))))))"

section \<open>Memory\<close>

definition memory_FromCache :: "MemoryMessage \<Rightarrow> (string \<Rightarrow> int) \<Rightarrow> (MemoryMessage \<times> (string \<Rightarrow> int)) result" where
  "memory_FromCache msg stats =
     (let t = theType msg; count = (\<lambda>s. stats(s := stats s + 1));
          reply = (\<lambda>ty. msg\<lparr>theType := ty, theFillLevel := eLocalMem\<rparr>) in
      if t \<in> {LoadReq, FetchReq, ReadReq, PrefetchReadNoAllocReq, PrefetchReadAllocReq}
      then Inr (reply MissReply, count ''ReadRequests'')
      else if t \<in> {StoreReq, StorePrefetchReq, RMWReq, CmpxReq, WriteReq, WriteAllocate}
      then Inr (msg, count ''WriteRequests'')
      else if t \<in> {UpgradeReq, UpgradeAllocate} then Inr (reply MissReplyWritable, count ''UpgradeRequests'')
      else if t = EvictDirty then Inr (msg, count ''EvictDirtys'')
      else if t = EvictWritable then Inr (msg, count ''EvictWritables'')
      else if t = EvictClean then Inr (msg, count ''EvictCleans'')
      else if t = NonAllocatingStoreReq then Inr (reply NonAllocatingStoreReply, count ''NonAllocatingStoreReq'')
      else Inl AssertFailed)"

text \<open>An access of a device is a snoop of the caches.\<close>

definition memory_DMA :: "(MemoryMessage \<Rightarrow> 'w \<Rightarrow> (MemoryMessage \<times> 'w) result) \<Rightarrow> MemoryMessage \<Rightarrow> 'w \<Rightarrow>
    (MemoryMessage \<times> 'w) result" where
  "memory_DMA ToCache msg w =
     (if theType msg = WriteReq then ToCache (msg\<lparr>theType := Invalidate\<rparr>) w
      else dbg_assert (theType msg = ReadReq) (ToCache (msg\<lparr>theType := Downgrade\<rparr>) w))"

end
