(* ===== verification/Cmp_Protocol.thy ===== *)
theory Cmp_Protocol
  imports Cmp_Cache Fast_Component
begin

text \<open>
  Why the protocol table of the trace mode shared cache is right. First the contract of a
  directory, a locale, with the infinite directory as its instance. Then, for a single
  block, what must hold of the first level caches, the shared cache and the directory
  entry, and that every row of \<open>SingleCMPProtocol.cpp\<close> that a request can reach keeps it, whatever
  caches answer the snoops and whether or not one of them answers with dirty data.
\<close>

section \<open>What the shared cache relies on from its directory\<close>

locale directory =
  fixes dops :: "('d, 'p) dir_ops" and dok :: "'d \<Rightarrow> bool" and sh :: "'d \<Rightarrow> u64 \<Rightarrow> nat set"
    and points :: "'d \<Rightarrow> 'p \<Rightarrow> u64 \<Rightarrow> bool"
  assumes dlookup: "dok d \<Longrightarrow> \<exists>p. op_dlookup dops i a t d = Inr (d, sh d a, sharing_state (sh d a), p, []) \<and> points d p a"
    and dsnoop: "dok d \<Longrightarrow> \<exists>p v. op_snoopLookup dops a d = Inr (sh d a, sharing_state (sh d a), p, v) \<and>
      points d p a \<and> (\<not> v \<longrightarrow> sh d a = {})"
    and dremove: "dok d \<Longrightarrow> points d p a \<Longrightarrow> i < MAX_NUM_SHARERS \<Longrightarrow>
      \<exists>d'. op_removeSharer dops i p a d = Inr d' \<and> dok d' \<and> points d' p a \<and> sh d' = (sh d)(a := sh d a - {i})"
    and dfailed: "dok d \<Longrightarrow> points d p a \<Longrightarrow> i < MAX_NUM_SHARERS \<Longrightarrow>
      \<exists>d'. op_failedSnoop dops i p a d = Inr d' \<and> dok d' \<and> points d' p a \<and> sh d' = (sh d)(a := sh d a - {i})"
    and dadd: "dok d \<Longrightarrow> points d p a \<Longrightarrow> i < MAX_NUM_SHARERS \<Longrightarrow>
      \<exists>d'. op_addSharer dops i p a d = Inr d' \<and> dok d' \<and> sh d' = (sh d)(a := insert i (sh d a))"
    and dadd_excl: "dok d \<Longrightarrow> points d p a \<Longrightarrow> i < MAX_NUM_SHARERS \<Longrightarrow> sh d a \<subseteq> {i} \<Longrightarrow>
      \<exists>d'. op_addExclusiveSharer dops i p a d = Inr d' \<and> dok d' \<and> sh d' = (sh d)(a := {i})"
    and dmake: "dok d \<Longrightarrow> points d p a \<Longrightarrow> i < MAX_NUM_SHARERS \<Longrightarrow> sh d a = {i} \<Longrightarrow>
      \<exists>d'. op_makeSharerExclusive dops i p a d = Inr d' \<and> dok d' \<and> sh d' = sh d"
    and derase: "dok d \<Longrightarrow> points d p a \<Longrightarrow> \<exists>d'. op_erase_unshared dops t p a d = Inr d' \<and> dok d' \<and> sh d' = sh d"
    and dkeep: "\<not> isEvictType t \<Longrightarrow> op_erase_unshared dops t p a d = Inr d"
    and dbound: "dok d \<Longrightarrow> sh d a \<subseteq> {..<MAX_NUM_SHARERS}"

section \<open>The infinite directory\<close>

definition inf_inv :: "inf_directory \<Rightarrow> bool" where
  "inf_inv d \<longleftrightarrow> (\<forall>a e. d a = Some e \<longrightarrow> de_address e = a \<and> de_state e = sharing_state (de_sharers e) \<and>
     de_sharers e \<subseteq> {..<MAX_NUM_SHARERS})"

definition inf_sharers :: "inf_directory \<Rightarrow> u64 \<Rightarrow> nat set" where
  "inf_sharers d a = (case d a of None \<Rightarrow> {} | Some e \<Rightarrow> de_sharers e)"

definition inf_points :: "inf_directory \<Rightarrow> u64 option \<Rightarrow> u64 \<Rightarrow> bool" where
  "inf_points d p a \<longleftrightarrow> p = (case d a of None \<Rightarrow> None | Some e \<Rightarrow> Some a)"

lemma sharing_state_simps [simp]:
  "sharing_state {} = ZeroSharers" "sharing_state {i} = OneSharer"
  by (simp_all add: sharing_state_def countSharers_def)

lemma sharing_state_iff:
  assumes "finite s"
  shows "sharing_state s = ZeroSharers \<longleftrightarrow> s = {}" "sharing_state s = OneSharer \<longleftrightarrow> (\<exists>i. s = {i})"
    "sharing_state s = ManySharers \<longleftrightarrow> (\<exists>i j. i \<in> s \<and> j \<in> s \<and> i \<noteq> j)"
proof -
  show "sharing_state s = ZeroSharers \<longleftrightarrow> s = {}" using assms by (auto simp: sharing_state_def countSharers_def)
  show "sharing_state s = OneSharer \<longleftrightarrow> (\<exists>i. s = {i})"
    using assms by (auto simp: sharing_state_def countSharers_def card_1_singleton_iff)
  have "card s \<le> 1 \<longleftrightarrow> \<not> (\<exists>i j. i \<in> s \<and> j \<in> s \<and> i \<noteq> j)" using card_le_Suc0_iff_eq [OF assms] by auto
  then show "sharing_state s = ManySharers \<longleftrightarrow> (\<exists>i j. i \<in> s \<and> j \<in> s \<and> i \<noteq> j)"
    by (auto simp: sharing_state_def countSharers_def)
qed

lemma entry_ops:
  assumes "de_state e = sharing_state (de_sharers e)" "de_sharers e \<subseteq> {..<MAX_NUM_SHARERS}" "i < MAX_NUM_SHARERS"
  shows "de_removeSharer i e = Inr (e\<lparr>de_sharers := de_sharers e - {i}, de_state := sharing_state (de_sharers e - {i})\<rparr>)"
    "de_addSharer i e = Inr (e\<lparr>de_sharers := insert i (de_sharers e), de_state := sharing_state (insert i (de_sharers e))\<rparr>)"
proof -
  have f: "finite (de_sharers e)" using assms(2) finite_subset by blast
  have "card (de_sharers e - {i}) > 1 \<Longrightarrow> card (de_sharers e) > 1"
    using card_Diff1_le [of "de_sharers e" i] by linarith
  then show "de_removeSharer i e = Inr (e\<lparr>de_sharers := de_sharers e - {i}, de_state := sharing_state (de_sharers e - {i})\<rparr>)"
    using assms(1,3) by (auto simp: de_removeSharer_def removeSharer_def sharing_state_def countSharers_def)
  have "card (insert i (de_sharers e)) \<noteq> 0" using f by simp
  then show "de_addSharer i e = Inr (e\<lparr>de_sharers := insert i (de_sharers e), de_state := sharing_state (insert i (de_sharers e))\<rparr>)"
    using assms(3) by (simp add: de_addSharer_def addSharer_def sharing_state_def countSharers_def)
qed

lemma inf_entry:
  assumes "inf_inv d" "d a = Some e"
  shows "de_address e = a" "de_state e = sharing_state (de_sharers e)" "de_sharers e \<subseteq> {..<MAX_NUM_SHARERS}"
  using assms by (auto simp: inf_inv_def)

lemma inf_sharers_upd: "inf_sharers (d(a \<mapsto> e)) = (inf_sharers d)(a := de_sharers e)"
  by (simp add: inf_sharers_def fun_eq_iff)

lemma inf_sharers_at: "d a = Some e \<Longrightarrow> inf_sharers d a = de_sharers e" "d a = None \<Longrightarrow> inf_sharers d a = {}"
  by (simp_all add: inf_sharers_def)

lemma inf_inv_upd:
  assumes "inf_inv d" "de_address e = a" "de_state e = sharing_state (de_sharers e)" "de_sharers e \<subseteq> {..<MAX_NUM_SHARERS}"
  shows "inf_inv (d(a \<mapsto> e))"
  using assms by (simp add: inf_inv_def)

lemma inf_remove:
  assumes "inf_inv d" "inf_points d p a" "i < MAX_NUM_SHARERS"
  shows "\<exists>d'. inf_removeSharer i p a d = Inr d' \<and> inf_inv d' \<and> inf_points d' p a \<and>
    inf_sharers d' = (inf_sharers d)(a := inf_sharers d a - {i})"
proof (cases "d a")
  case None
  then have "inf_sharers d = (inf_sharers d)(a := inf_sharers d a - {i})" by (simp add: inf_sharers_at fun_upd_idem)
  then show ?thesis using assms None by (simp add: inf_points_def inf_removeSharer_def)
next
  case (Some e)
  note e = inf_entry [OF assms(1) Some]
  let ?e = "e\<lparr>de_sharers := de_sharers e - {i}, de_state := sharing_state (de_sharers e - {i})\<rparr>"
  have "inf_removeSharer i p a d = Inr (d(a \<mapsto> ?e))"
    using assms(2) Some entry_ops(1) [OF e(2,3) assms(3)] by (simp add: inf_points_def inf_removeSharer_def inf_on_entry_def)
  moreover have "inf_inv (d(a \<mapsto> ?e))" using e by (intro inf_inv_upd [OF assms(1)]) auto
  moreover have "inf_points (d(a \<mapsto> ?e)) p a" using assms(2) Some by (simp add: inf_points_def)
  ultimately show ?thesis using Some by (simp add: inf_sharers_upd inf_sharers_at)
qed

lemma inf_ensure:
  assumes "inf_inv d" "inf_points d p a"
  obtains e d' where "(case p of None \<Rightarrow> inf_on_entry f a (inf_findOrCreateEntry a d) | Some key \<Rightarrow> inf_on_entry f key d) =
      rbind (f e) (\<lambda>e'. Inr (d'(a \<mapsto> e')))" "inf_inv d'" "d' a = Some e" "inf_sharers d' = inf_sharers d"
proof (cases "d a")
  case None
  let ?e = "BlockDirectoryEntry_new a"
  have "inf_inv (d(a \<mapsto> ?e))" by (rule inf_inv_upd [OF assms(1)]) (simp_all add: BlockDirectoryEntry_new_def)
  moreover have "inf_sharers (d(a \<mapsto> ?e)) = inf_sharers d"
    using None by (simp add: inf_sharers_upd BlockDirectoryEntry_new_def inf_sharers_at fun_upd_idem)
  ultimately show thesis
    using None assms(2) by (intro that [of ?e "d(a \<mapsto> ?e)"]) (simp_all add: inf_points_def inf_findOrCreateEntry_def inf_on_entry_def)
next
  case (Some e)
  show thesis
    using Some assms by (intro that [of e d]) (simp_all add: inf_points_def inf_on_entry_def)
qed

lemma inf_add:
  assumes "inf_inv d" "inf_points d p a" "i < MAX_NUM_SHARERS"
  shows "\<exists>d'. inf_addSharer i p a d = Inr d' \<and> inf_inv d' \<and> inf_sharers d' = (inf_sharers d)(a := insert i (inf_sharers d a))"
proof -
  obtain e d' where e: "inf_addSharer i p a d = rbind (de_addSharer i e) (\<lambda>e'. Inr (d'(a \<mapsto> e')))"
    "inf_inv d'" "d' a = Some e" "inf_sharers d' = inf_sharers d"
    unfolding inf_addSharer_def by (rule inf_ensure [OF assms(1,2)])
  note ie = inf_entry [OF e(2,3)]
  let ?e = "e\<lparr>de_sharers := insert i (de_sharers e), de_state := sharing_state (insert i (de_sharers e))\<rparr>"
  have "inf_addSharer i p a d = Inr (d'(a \<mapsto> ?e))" using e(1) entry_ops(2) [OF ie(2,3) assms(3)] by simp
  moreover have "inf_inv (d'(a \<mapsto> ?e))" using ie assms(3) by (intro inf_inv_upd [OF e(2)]) simp_all
  moreover have "inf_sharers (d'(a \<mapsto> ?e)) = (inf_sharers d)(a := insert i (inf_sharers d a))"
    using e(4) inf_sharers_at(1) [of d' a e] e(3) by (simp add: inf_sharers_upd)
  ultimately show ?thesis by blast
qed

lemma inf_add_excl:
  assumes "inf_inv d" "inf_points d p a" "i < MAX_NUM_SHARERS" "inf_sharers d a \<subseteq> {i}"
  shows "\<exists>d'. inf_addExclusiveSharer i p a d = Inr d' \<and> inf_inv d' \<and> inf_sharers d' = (inf_sharers d)(a := {i})"
proof -
  let ?f = "\<lambda>e. rbind (de_addSharer i e) (de_makeExclusive i)"
  obtain e d' where e: "inf_addExclusiveSharer i p a d = rbind (?f e) (\<lambda>e'. Inr (d'(a \<mapsto> e')))"
    "inf_inv d'" "d' a = Some e" "inf_sharers d' = inf_sharers d"
    unfolding inf_addExclusiveSharer_def Let_def by (rule inf_ensure [OF assms(1,2)])
  note ie = inf_entry [OF e(2,3)]
  have s: "insert i (de_sharers e) = {i}" using inf_sharers_at(1) [of d' a e] e(3) e(4) assms(4) by auto
  let ?e = "e\<lparr>de_sharers := {i}, de_state := OneSharer\<rparr>"
  have "?f e = Inr ?e"
    using entry_ops(2) [OF ie(2,3) assms(3)] assms(3)
    by (simp add: s de_makeExclusive_def isSharer_def countSharers_def)
  then have "inf_addExclusiveSharer i p a d = Inr (d'(a \<mapsto> ?e))" using e(1) by (simp del: rbind_eq_Inr)
  moreover have "inf_inv (d'(a \<mapsto> ?e))" using ie assms(3) by (intro inf_inv_upd [OF e(2)]) simp_all
  moreover have "inf_sharers (d'(a \<mapsto> ?e)) = (inf_sharers d)(a := {i})" using e(4) by (simp add: inf_sharers_upd)
  ultimately show ?thesis by blast
qed

lemma inf_make:
  assumes "inf_inv d" "inf_points d p a" "i < MAX_NUM_SHARERS" "inf_sharers d a = {i}"
  shows "\<exists>d'. inf_makeSharerExclusive i p a d = Inr d' \<and> inf_inv d' \<and> inf_sharers d' = inf_sharers d"
proof -
  obtain e where e: "d a = Some e" "de_sharers e = {i}"
    using assms(4) by (auto simp: inf_sharers_def split: option.splits)
  note ie = inf_entry [OF assms(1) e(1)]
  have "e\<lparr>de_state := OneSharer\<rparr> = e" using ie(2) e(2) by simp
  then have "de_makeExclusive i e = Inr e"
    using e(2) assms(3) by (simp add: de_makeExclusive_def isSharer_def countSharers_def)
  then show ?thesis using assms e by (simp add: inf_points_def inf_makeSharerExclusive_def inf_on_entry_def map_upd_triv)
qed

lemma inf_erase:
  assumes "inf_inv d" "inf_points d p a"
  shows "\<exists>d'. inf_erase_unshared t p a d = Inr d' \<and> inf_inv d' \<and> inf_sharers d' = inf_sharers d"
proof (cases "d a")
  case (Some e)
  note ie = inf_entry [OF assms(1) Some]
  have "finite (de_sharers e)" using ie(3) finite_subset by blast
  then have z: "de_state e = ZeroSharers \<Longrightarrow> de_sharers e = {}" using ie(2) sharing_state_iff(1) by simp
  have "inf_inv (d(a := None))" using assms(1) by (auto simp: inf_inv_def)
  moreover have "de_sharers e = {} \<Longrightarrow> inf_sharers (d(a := None)) = inf_sharers d"
    using Some by (auto simp: inf_sharers_def fun_eq_iff)
  ultimately show ?thesis using assms Some z
    by (cases "isEvictType t \<and> de_state e = ZeroSharers") (auto simp: inf_points_def inf_erase_unshared_def)
qed (use assms in \<open>auto simp: inf_points_def inf_erase_unshared_def\<close>)

lemma inf_looks:
  assumes "inf_inv d"
  shows "\<exists>p. inf_lookup i a t d = Inr (d, inf_sharers d a, sharing_state (inf_sharers d a), p, []) \<and> inf_points d p a"
    "\<exists>p v. inf_snoopLookup a d = Inr (inf_sharers d a, sharing_state (inf_sharers d a), p, v) \<and>
      inf_points d p a \<and> (\<not> v \<longrightarrow> inf_sharers d a = {})"
    "inf_sharers d a \<subseteq> {..<MAX_NUM_SHARERS}"
proof -
  show "\<exists>p. inf_lookup i a t d = Inr (d, inf_sharers d a, sharing_state (inf_sharers d a), p, []) \<and> inf_points d p a"
    using inf_entry(2) [OF assms, of a] by (cases "d a") (simp_all add: inf_lookup_def inf_points_def inf_sharers_def)
  show "\<exists>p v. inf_snoopLookup a d = Inr (inf_sharers d a, sharing_state (inf_sharers d a), p, v) \<and>
      inf_points d p a \<and> (\<not> v \<longrightarrow> inf_sharers d a = {})"
    using inf_entry(2) [OF assms, of a] by (cases "d a") (simp_all add: inf_snoopLookup_def inf_points_def inf_sharers_def, blast+)
  show "inf_sharers d a \<subseteq> {..<MAX_NUM_SHARERS}"
    using inf_entry(3) [OF assms, of a] by (cases "d a") (simp_all add: inf_sharers_def)
qed

interpretation inf: directory InfiniteDirectory inf_inv inf_sharers inf_points
proof (unfold_locales, unfold InfiniteDirectory_def dir_ops.simps)
qed (fact inf_looks inf_remove inf_add inf_add_excl inf_make inf_erase | simp add: inf_erase_unshared_def)+

section \<open>One block\<close>

text \<open>
  What must hold of one block: the states \<open>l\<close> of the first level caches, \<open>s\<close> of the shared
  one, and the sharers \<open>sv\<close> the directory knows. Every holder is known; a cache that may
  write is the only one known; and the shared cache is dirty or shared only if no cache may write.
\<close>

definition excl :: "CoherenceState_t \<Rightarrow> bool" where
  "excl s \<longleftrightarrow> s = kModified \<or> s = kExclusive"

definition block_ok :: "nat \<Rightarrow> (nat \<Rightarrow> CoherenceState_t) \<Rightarrow> CoherenceState_t \<Rightarrow> nat set \<Rightarrow> bool" where
  "block_ok n l s sv \<longleftrightarrow> (\<forall>i < n. mesi (l i) \<and> (l i \<noteq> kInvalid \<longrightarrow> i \<in> sv) \<and> (excl (l i) \<longrightarrow> sv \<subseteq> {i})) \<and>
     mesi s \<and> (s = kModified \<or> s = kShared \<longrightarrow> (\<forall>i < n. \<not> excl (l i))) \<and> sv \<subseteq> {..<n}"

definition granted :: "MemoryMessageType \<Rightarrow> MemoryMessageType \<Rightarrow> CoherenceState_t \<Rightarrow> bool" where
  "granted t reply s \<longleftrightarrow>
     (if t = ReadReq then (\<exists>is_load. read_grant is_load reply = Some s) \<and> reply \<noteq> FwdReplyOwned
      else if t = FetchReq then reply = MissReply \<and> s = kShared
      else if t \<in> {WriteReq, UpgradeReq} then excl s
      else s = kInvalid)"

definition answerable :: "MemoryMessageType \<Rightarrow> MemoryMessageType \<Rightarrow> bool" where
  "answerable t reply \<longleftrightarrow>
     (t \<in> {ReadReq, WriteReq} \<longrightarrow> reply \<in> {MissReply, MissReplyWritable, MissReplyDirty}) \<and>
     (t = FetchReq \<longrightarrow> reply = MissReply) \<and> (t = UpgradeReq \<longrightarrow> reply = UpgradeReply) \<and>
     (t = NonAllocatingStoreReq \<longrightarrow> reply = NonAllocatingStoreReply)"

definition asks :: "MemoryMessageType \<Rightarrow> CoherenceState_t \<Rightarrow> bool" where
  "asks t s \<longleftrightarrow> t \<in> {ReadReq, FetchReq, WriteReq, NonAllocatingStoreReq} \<and> s = kInvalid \<or>
     t = UpgradeReq \<and> s = kShared \<or> t = EvictDirty \<and> s = kModified \<or> t = EvictWritable \<and> s = kExclusive \<or>
     t = EvictClean \<and> s = kShared"

definition clean_reply :: "MemoryMessageType \<Rightarrow> MemoryMessageType" where
  "clean_reply t = (if t = Invalidate then InvalidateAck else ReturnReply)"

definition dirty_reply :: "MemoryMessageType \<Rightarrow> MemoryMessageType" where
  "dirty_reply t = (if t = Invalidate then InvUpdateAck else ReturnReplyDirty)"

definition act_shape :: "MemoryMessageType \<Rightarrow> CoherenceState_t \<Rightarrow> PrimaryAction \<Rightarrow> bool" where
  "act_shape t s act \<longleftrightarrow> snoop_type act \<in> {NoRequest, Invalidate, ReturnReq} \<and>
     (snoop_type act \<noteq> NoRequest \<longrightarrow> terminal_response act \<in> {(clean_reply (snoop_type act), dirty_reply (snoop_type act)), (NoRequest, NoRequest)}) \<and>
     (forward_request act \<longrightarrow> t \<in> {ReadReq, FetchReq, WriteReq, NonAllocatingStoreReq}) \<and>
     (t \<in> {EvictClean, EvictWritable, EvictDirty} \<longrightarrow> snoop_type act = NoRequest) \<and>
     (\<not> allocate act \<longrightarrow> s = kInvalid \<longrightarrow> next_state act = (kInvalid, kInvalid)) \<and>
     mesi (fst (next_state act)) \<and> mesi (snd (next_state act))"

definition pick :: "bool \<Rightarrow> 'a \<times> 'a \<Rightarrow> 'a" where
  "pick second p = (if second then snd p else fst p)"

definition snooped_states :: "MemoryMessageType \<Rightarrow> nat set \<Rightarrow> (nat \<Rightarrow> CoherenceState_t) \<Rightarrow> nat \<Rightarrow> CoherenceState_t" where
  "snooped_states t P l = (\<lambda>j. if j \<in> P then snd (mesi_snoop t (l j)) else l j)"

definition snooped_sharers :: "MemoryMessageType \<Rightarrow> nat set \<Rightarrow> (nat \<Rightarrow> CoherenceState_t) \<Rightarrow> nat set \<Rightarrow> nat set" where
  "snooped_sharers t P l sv = sv - {j \<in> P. snd (mesi_snoop t (l j)) = kInvalid}"

definition reply_sharers :: "MemoryMessageType \<Rightarrow> MemoryMessageType \<Rightarrow> nat \<Rightarrow> nat set \<Rightarrow> nat set" where
  "reply_sharers t reply i sv = (if t \<in> {EvictClean, EvictWritable, EvictDirty} then sv - {i}
     else if t = NonAllocatingStoreReq then sv else insert i sv)"

definition reply_pre :: "MemoryMessageType \<Rightarrow> MemoryMessageType \<Rightarrow> nat \<Rightarrow> nat set \<Rightarrow> bool" where
  "reply_pre t reply i sv \<longleftrightarrow> (t = UpgradeReq \<longrightarrow> sv = {i}) \<and> (reply \<noteq> MissReply \<longrightarrow> t \<in> {ReadReq, WriteReq} \<longrightarrow> sv \<subseteq> {i})"

definition snoop_choice :: "PrimaryAction \<Rightarrow> nat \<Rightarrow> (nat \<Rightarrow> CoherenceState_t) \<Rightarrow> nat set \<Rightarrow> nat set \<Rightarrow> bool \<Rightarrow> bool" where
  "snoop_choice act i l sv P dirty \<longleftrightarrow> P \<subseteq> sv - {i} \<and> (snoop_type act = NoRequest \<longrightarrow> P = {} \<and> \<not> dirty) \<and>
     (snoop_type act \<noteq> NoRequest \<and> (multicast act \<or> sharing_state sv \<noteq> ManySharers) \<longrightarrow> P = sv - {i}) \<and>
     (dirty \<longrightarrow> (\<exists>j \<in> sv. l j = kModified))"

definition act_ok :: "nat \<Rightarrow> nat \<Rightarrow> MemoryMessageType \<Rightarrow> (nat \<Rightarrow> CoherenceState_t) \<Rightarrow> CoherenceState_t \<Rightarrow> nat set \<Rightarrow> PrimaryAction \<Rightarrow> bool" where
  "act_ok n i t l s sv act \<longleftrightarrow> act_shape t s act \<and> (\<forall>P dirty. snoop_choice act i l sv P dirty \<longrightarrow>
     (let reply = pick dirty (response act); l' = snooped_states (snoop_type act) P l;
          sv' = snooped_sharers (snoop_type act) P l sv in
      answerable t reply \<and> reply_pre t reply i sv' \<and>
      (\<forall>g. granted t reply g \<longrightarrow>
         block_ok n (l'(i := g)) (pick dirty (next_state act)) (reply_sharers t reply i sv'))))"

lemmas act_defs = act_ok_def act_shape_def snoop_choice_def pick_def snooped_states_def snooped_sharers_def
  reply_sharers_def reply_pre_def answerable_def clean_reply_def dirty_reply_def

subsection \<open>The rows of the table\<close>

text \<open>
  The table lists its rows in the order of a numbering of the keys, so no key occurs twice and a
  row that occurs is the one that is found.
\<close>

definition key_code :: "CoherenceState_t \<times> SharingState \<times> MemoryMessageType \<Rightarrow> nat" where
  "key_code = (\<lambda>(c, d, t). 12 * (if t = ReadReq then 0 else if t = FetchReq then 1 else if t = UpgradeReq then 2
       else if t = WriteReq then 3 else if t = NonAllocatingStoreReq then 4 else if t = EvictClean then 5
       else if t = EvictWritable then 6 else 7) +
     3 * (if c = kModified then 0 else if c = kExclusive then 1 else if c = kShared then 2 else 3) +
     (case d of ZeroSharers \<Rightarrow> 0 | OneSharer \<Rightarrow> 1 | ManySharers \<Rightarrow> 2))"

lemma single_cmp_codes: "map (\<lambda>x. key_code (fst x)) single_cmp = [0..<96]"
  by (simp add: single_cmp_def key_code_def upt_rec)

lemma single_cmp_lookup:
  assumes "((c, d, t), act) \<in> set single_cmp" "\<not> poison act"
  shows "getAction c d t = Inr act"
proof -
  have "distinct (map key_code (map fst single_cmp))"
    using distinct_upt [of 0 96] unfolding single_cmp_codes [symmetric] by (simp add: comp_def)
  then have "distinct (map fst single_cmp)" using distinct_map by blast
  then show ?thesis using assms by (simp add: getAction_def)
qed

lemma mk_action_sel [simp]:
  "snoop_type (mk_action s t1 t2 r1 r2 ns1 ns2 m fwd a u c) = s"
  "terminal_response (mk_action s t1 t2 r1 r2 ns1 ns2 m fwd a u c) = (t1, t2)"
  "response (mk_action s t1 t2 r1 r2 ns1 ns2 m fwd a u c) = (r1, r2)"
  "next_state (mk_action s t1 t2 r1 r2 ns1 ns2 m fwd a u c) = (ns1, ns2)"
  "multicast (mk_action s t1 t2 r1 r2 ns1 ns2 m fwd a u c) = m"
  "forward_request (mk_action s t1 t2 r1 r2 ns1 ns2 m fwd a u c) = fwd"
  "allocate (mk_action s t1 t2 r1 r2 ns1 ns2 m fwd a u c) = a"
  "\<not> poison (mk_action s t1 t2 r1 r2 ns1 ns2 m fwd a u c)"
  by (simp_all add: mk_action_def)

lemma ReadReq_rows:
  "getAction kModified ZeroSharers ReadReq = Inr (mk_action NoRequest NoRequest NoRequest MissReplyDirty NoRequest kInvalid kInvalid False False False True ''ReadReq_kModified_ZeroSharers'')"
  "getAction kModified OneSharer ReadReq = Inr (mk_action NoRequest NoRequest NoRequest MissReply NoRequest kModified kModified False False False True ''ReadReq_kModified_OneSharer'')"
  "getAction kModified ManySharers ReadReq = Inr (mk_action NoRequest NoRequest NoRequest MissReply NoRequest kModified kModified False False False True ''ReadReq_kModified_ManySharers'')"
  "getAction kExclusive ZeroSharers ReadReq = Inr (mk_action NoRequest NoRequest NoRequest MissReplyWritable NoRequest kExclusive kExclusive False False False True ''ReadReq_kExclusive_ZeroSharers'')"
  "getAction kExclusive OneSharer ReadReq = Inr (mk_action ReturnReq ReturnReply ReturnReplyDirty MissReply MissReply kExclusive kModified False False False True ''ReadReq_kExclusive_OneSharer'')"
  "getAction kExclusive ManySharers ReadReq = Inr (mk_action NoRequest NoRequest NoRequest MissReply NoRequest kExclusive kExclusive False False False True ''ReadReq_kExclusive_ManySharers'')"
  "getAction kShared ZeroSharers ReadReq = Inr (mk_action NoRequest NoRequest NoRequest MissReply NoRequest kShared kShared False False False True ''ReadReq_kShared_ZeroSharers'')"
  "getAction kShared OneSharer ReadReq = Inr (mk_action NoRequest NoRequest NoRequest MissReply NoRequest kShared kShared False False False True ''ReadReq_kShared_OneSharer'')"
  "getAction kShared ManySharers ReadReq = Inr (mk_action NoRequest NoRequest NoRequest MissReply NoRequest kShared kShared False False False True ''ReadReq_kShared_ManySharers'')"
  "getAction kInvalid ZeroSharers ReadReq = Inr (mk_action NoRequest NoRequest NoRequest MissReplyWritable NoRequest kExclusive kExclusive False True True True ''ReadReq_kInvalid_ZeroSharers'')"
  "getAction kInvalid OneSharer ReadReq = Inr (mk_action ReturnReq ReturnReply ReturnReplyDirty MissReply MissReply kShared kModified False False True True ''ReadReq_kInvalid_OneSharer'')"
  "getAction kInvalid ManySharers ReadReq = Inr (mk_action ReturnReq ReturnReply ReturnReplyDirty MissReply MissReply kShared kModified False False True True ''ReadReq_kInvalid_ManySharers'')"
  by (rule single_cmp_lookup, unfold single_cmp_def, (rule list.set_intros(1) | rule list.set_intros(2))+, simp)+

lemma FetchReq_rows:
  "getAction kModified ZeroSharers FetchReq = Inr (mk_action NoRequest NoRequest NoRequest MissReply NoRequest kModified kModified False False False True ''FetchReq_kModified_ZeroSharers'')"
  "getAction kModified OneSharer FetchReq = Inr (mk_action ReturnReq ReturnReply ReturnReplyDirty MissReply MissReply kModified kModified False False False True ''FetchReq_kModified_OneSharer'')"
  "getAction kModified ManySharers FetchReq = Inr (mk_action NoRequest NoRequest NoRequest MissReply NoRequest kModified kModified False False False True ''FetchReq_kModified_ManySharers'')"
  "getAction kExclusive ZeroSharers FetchReq = Inr (mk_action NoRequest NoRequest NoRequest MissReply NoRequest kExclusive kExclusive False False False True ''FetchReq_kExclusive_ZeroSharers'')"
  "getAction kExclusive OneSharer FetchReq = Inr (mk_action ReturnReq ReturnReply ReturnReplyDirty MissReply MissReply kExclusive kModified False False False True ''FetchReq_kExclusive_OneSharer'')"
  "getAction kExclusive ManySharers FetchReq = Inr (mk_action NoRequest NoRequest NoRequest MissReply NoRequest kExclusive kExclusive False False False True ''FetchReq_kExclusive_ManySharers'')"
  "getAction kShared ZeroSharers FetchReq = Inr (mk_action NoRequest NoRequest NoRequest MissReply NoRequest kShared kShared False False False True ''FetchReq_kShared_ZeroSharers'')"
  "getAction kShared OneSharer FetchReq = Inr (mk_action NoRequest NoRequest NoRequest MissReply NoRequest kShared kShared False False False True ''FetchReq_kShared_OneSharer'')"
  "getAction kShared ManySharers FetchReq = Inr (mk_action NoRequest NoRequest NoRequest MissReply NoRequest kShared kShared False False False True ''FetchReq_kShared_ManySharers'')"
  "getAction kInvalid ZeroSharers FetchReq = Inr (mk_action NoRequest NoRequest NoRequest MissReply NoRequest kShared kShared False True True True ''FetchReq_kInvalid_ZeroSharers'')"
  "getAction kInvalid OneSharer FetchReq = Inr (mk_action ReturnReq ReturnReply ReturnReplyDirty MissReply MissReply kShared kModified False False True True ''FetchReq_kInvalid_OneSharer'')"
  "getAction kInvalid ManySharers FetchReq = Inr (mk_action ReturnReq ReturnReply ReturnReplyDirty MissReply NoRequest kShared kModified False False True True ''FetchReq_kInvalid_ManySharers'')"
  by (rule single_cmp_lookup, unfold single_cmp_def, (rule list.set_intros(1) | rule list.set_intros(2))+, simp)+

lemma UpgradeReq_rows:
  "getAction kModified OneSharer UpgradeReq = Inr (mk_action NoRequest NoRequest NoRequest UpgradeReply NoRequest kInvalid kInvalid False False False True ''UpgradeReq_kModified_OneSharer'')"
  "getAction kModified ManySharers UpgradeReq = Inr (mk_action Invalidate InvalidateAck InvUpdateAck UpgradeReply UpgradeReply kInvalid kInvalid True False False True ''UpgradeReq_kModified_ManySharers'')"
  "getAction kExclusive OneSharer UpgradeReq = Inr (mk_action NoRequest NoRequest NoRequest UpgradeReply NoRequest kInvalid kInvalid False False False True ''UpgradeReq_kExclusive_OneSharer'')"
  "getAction kExclusive ManySharers UpgradeReq = Inr (mk_action Invalidate InvalidateAck InvUpdateAck UpgradeReply UpgradeReply kInvalid kInvalid True False False True ''UpgradeReq_kExclusive_ManySharers'')"
  "getAction kShared OneSharer UpgradeReq = Inr (mk_action NoRequest NoRequest NoRequest UpgradeReply NoRequest kInvalid kInvalid False False False True ''UpgradeReq_kShared_OneSharer'')"
  "getAction kShared ManySharers UpgradeReq = Inr (mk_action Invalidate InvalidateAck InvUpdateAck UpgradeReply UpgradeReply kInvalid kInvalid True False False True ''UpgradeReq_kShared_ManySharers'')"
  "getAction kInvalid OneSharer UpgradeReq = Inr (mk_action NoRequest NoRequest NoRequest UpgradeReply NoRequest kInvalid kInvalid False False False True ''UpgradeReq_kInvalid_OneSharer'')"
  "getAction kInvalid ManySharers UpgradeReq = Inr (mk_action Invalidate InvalidateAck InvUpdateAck UpgradeReply UpgradeReply kInvalid kInvalid True False False True ''UpgradeReq_kInvalid_ManySharers'')"
  by (rule single_cmp_lookup, unfold single_cmp_def, (rule list.set_intros(1) | rule list.set_intros(2))+, simp)+

lemma WriteReq_rows:
  "getAction kModified ZeroSharers WriteReq = Inr (mk_action NoRequest NoRequest NoRequest MissReplyDirty NoRequest kInvalid kInvalid False False False True ''WriteReq_kModified_ZeroSharers'')"
  "getAction kModified OneSharer WriteReq = Inr (mk_action Invalidate InvalidateAck InvUpdateAck MissReplyDirty MissReplyDirty kInvalid kInvalid False False False True ''WriteReq_kModified_OneSharer'')"
  "getAction kModified ManySharers WriteReq = Inr (mk_action Invalidate InvalidateAck InvUpdateAck MissReplyDirty MissReplyDirty kInvalid kInvalid True False False True ''WriteReq_kModified_ManySharers'')"
  "getAction kExclusive ZeroSharers WriteReq = Inr (mk_action NoRequest NoRequest NoRequest MissReplyWritable NoRequest kInvalid kInvalid False False False True ''WriteReq_kExclusive_ZeroSharers'')"
  "getAction kExclusive OneSharer WriteReq = Inr (mk_action Invalidate InvalidateAck InvUpdateAck MissReply MissReplyDirty kInvalid kInvalid False False False True ''WriteReq_kExclusive_OneSharer'')"
  "getAction kExclusive ManySharers WriteReq = Inr (mk_action Invalidate InvalidateAck InvUpdateAck MissReply MissReplyDirty kInvalid kInvalid True False False True ''WriteReq_kExclusive_ManySharers'')"
  "getAction kShared ZeroSharers WriteReq = Inr (mk_action NoRequest NoRequest NoRequest MissReplyWritable NoRequest kInvalid kInvalid False False False True ''WriteReq_kShared_ZeroSharers'')"
  "getAction kShared OneSharer WriteReq = Inr (mk_action Invalidate InvalidateAck InvUpdateAck MissReply MissReply kInvalid kInvalid False False False True ''WriteReq_kShared_OneSharer'')"
  "getAction kShared ManySharers WriteReq = Inr (mk_action Invalidate InvalidateAck InvUpdateAck MissReply NoRequest kInvalid kInvalid True False False True ''WriteReq_kShared_ManySharers'')"
  "getAction kInvalid ZeroSharers WriteReq = Inr (mk_action NoRequest NoRequest NoRequest MissReplyWritable NoRequest kInvalid kInvalid False True False True ''WriteReq_kInvalid_ZeroSharers'')"
  "getAction kInvalid OneSharer WriteReq = Inr (mk_action Invalidate InvalidateAck InvUpdateAck MissReply MissReply kInvalid kInvalid False False False True ''WriteReq_kInvalid_OneSharer'')"
  "getAction kInvalid ManySharers WriteReq = Inr (mk_action Invalidate InvalidateAck InvUpdateAck MissReply NoRequest kInvalid kInvalid True False False True ''WriteReq_kInvalid_ManySharers'')"
  by (rule single_cmp_lookup, unfold single_cmp_def, (rule list.set_intros(1) | rule list.set_intros(2))+, simp)+

lemma NonAllocatingStoreReq_rows:
  "getAction kModified ZeroSharers NonAllocatingStoreReq = Inr (mk_action NoRequest NoRequest NoRequest NonAllocatingStoreReply NoRequest kModified kModified False False False True ''NonAllocatingStoreReq_kModified_ZeroSharers'')"
  "getAction kModified OneSharer NonAllocatingStoreReq = Inr (mk_action Invalidate InvalidateAck InvUpdateAck NonAllocatingStoreReply NonAllocatingStoreReply kModified kModified False False False True ''NonAllocatingStoreReq_kModified_OneSharer'')"
  "getAction kModified ManySharers NonAllocatingStoreReq = Inr (mk_action Invalidate InvalidateAck InvUpdateAck NonAllocatingStoreReply NonAllocatingStoreReply kModified kModified True False False True ''NonAllocatingStoreReq_kModified_ManySharers'')"
  "getAction kExclusive ZeroSharers NonAllocatingStoreReq = Inr (mk_action NoRequest NoRequest NoRequest NonAllocatingStoreReply NoRequest kModified kModified False False False True ''NonAllocatingStoreReq_kExclusive_ZeroSharers'')"
  "getAction kExclusive OneSharer NonAllocatingStoreReq = Inr (mk_action Invalidate InvalidateAck InvUpdateAck NonAllocatingStoreReply NonAllocatingStoreReply kModified kModified False False False True ''NonAllocatingStoreReq_kExclusive_OneSharer'')"
  "getAction kExclusive ManySharers NonAllocatingStoreReq = Inr (mk_action Invalidate InvalidateAck InvUpdateAck NonAllocatingStoreReply NonAllocatingStoreReply kModified kModified True False False True ''NonAllocatingStoreReq_kExclusive_ManySharers'')"
  "getAction kShared ZeroSharers NonAllocatingStoreReq = Inr (mk_action NoRequest NoRequest NoRequest NonAllocatingStoreReply NoRequest kModified kModified False False False True ''NonAllocatingStoreReq_kShared_ZeroSharers'')"
  "getAction kShared OneSharer NonAllocatingStoreReq = Inr (mk_action Invalidate InvalidateAck InvUpdateAck NonAllocatingStoreReply NonAllocatingStoreReply kModified kModified False False False True ''NonAllocatingStoreReq_kShared_OneSharer'')"
  "getAction kShared ManySharers NonAllocatingStoreReq = Inr (mk_action Invalidate InvalidateAck InvUpdateAck NonAllocatingStoreReply NoRequest kModified kModified True False False True ''NonAllocatingStoreReq_kShared_ManySharers'')"
  "getAction kInvalid ZeroSharers NonAllocatingStoreReq = Inr (mk_action NoRequest NoRequest NoRequest NonAllocatingStoreReply NoRequest kInvalid kInvalid False True False True ''NonAllocatingStoreReq_kInvalid_ZeroSharers'')"
  "getAction kInvalid OneSharer NonAllocatingStoreReq = Inr (mk_action Invalidate NoRequest NoRequest NonAllocatingStoreReply NonAllocatingStoreReply kInvalid kInvalid False True False True ''NonAllocatingStoreReq_kInvalid_OneSharer'')"
  "getAction kInvalid ManySharers NonAllocatingStoreReq = Inr (mk_action Invalidate NoRequest NoRequest NonAllocatingStoreReply NoRequest kInvalid kInvalid True True False True ''NonAllocatingStoreReq_kInvalid_ManySharers'')"
  by (rule single_cmp_lookup, unfold single_cmp_def, (rule list.set_intros(1) | rule list.set_intros(2))+, simp)+

lemma EvictClean_rows:
  "getAction kModified OneSharer EvictClean = Inr (mk_action NoRequest NoRequest NoRequest NoRequest NoRequest kModified kModified False False False False ''EvictClean_kModified_OneSharer'')"
  "getAction kModified ManySharers EvictClean = Inr (mk_action NoRequest NoRequest NoRequest NoRequest NoRequest kModified kModified False False False False ''EvictClean_kModified_ManySharers'')"
  "getAction kExclusive OneSharer EvictClean = Inr (mk_action NoRequest NoRequest NoRequest NoRequest NoRequest kExclusive kExclusive False False False False ''EvictClean_kExclusive_OneSharer'')"
  "getAction kExclusive ManySharers EvictClean = Inr (mk_action NoRequest NoRequest NoRequest NoRequest NoRequest kExclusive kExclusive False False False False ''EvictClean_kExclusive_ManySharers'')"
  "getAction kShared OneSharer EvictClean = Inr (mk_action NoRequest NoRequest NoRequest NoRequest NoRequest kShared kShared False False False False ''EvictClean_kShared_OneSharer'')"
  "getAction kShared ManySharers EvictClean = Inr (mk_action NoRequest NoRequest NoRequest NoRequest NoRequest kShared kShared False False False False ''EvictClean_kShared_ManySharers'')"
  "getAction kInvalid OneSharer EvictClean = Inr (mk_action NoRequest NoRequest NoRequest NoRequest NoRequest kInvalid kInvalid False False False False ''EvictClean_kInvalid_OneSharer'')"
  "getAction kInvalid ManySharers EvictClean = Inr (mk_action NoRequest NoRequest NoRequest NoRequest NoRequest kInvalid kInvalid False False False False ''EvictClean_kInvalid_ManySharers'')"
  by (rule single_cmp_lookup, unfold single_cmp_def, (rule list.set_intros(1) | rule list.set_intros(2))+, simp)+

lemma EvictWritable_rows:
  "getAction kModified OneSharer EvictWritable = Inr (mk_action NoRequest NoRequest NoRequest NoRequest NoRequest kModified kModified False False False False ''EvictWritable_kModified_OneSharer'')"
  "getAction kExclusive OneSharer EvictWritable = Inr (mk_action NoRequest NoRequest NoRequest NoRequest NoRequest kExclusive kExclusive False False False False ''EvictWritable_kExclusive_OneSharer'')"
  "getAction kInvalid OneSharer EvictWritable = Inr (mk_action NoRequest NoRequest NoRequest NoRequest NoRequest kExclusive kExclusive False False True False ''EvictWritable_kInvalid_OneSharer'')"
  by (rule single_cmp_lookup, unfold single_cmp_def, (rule list.set_intros(1) | rule list.set_intros(2))+, simp)+

lemma EvictDirty_rows:
  "getAction kExclusive OneSharer EvictDirty = Inr (mk_action NoRequest NoRequest NoRequest NoRequest NoRequest kModified kModified False False True False ''EvictDirty_kExclusive_OneSharer'')"
  "getAction kInvalid OneSharer EvictDirty = Inr (mk_action NoRequest NoRequest NoRequest NoRequest NoRequest kModified kModified False False True False ''EvictDirty_kInvalid_OneSharer'')"
  by (rule single_cmp_lookup, unfold single_cmp_def, (rule list.set_intros(1) | rule list.set_intros(2))+, simp)+

subsection \<open>Conditions on a block\<close>

lemma sharers_cases:
  assumes "sv \<subseteq> {..<n}"
  obtains "sv = {}" "sharing_state sv = ZeroSharers"
  | j where "sv = {j}" "j < n" "sharing_state sv = OneSharer"
  | "sharing_state sv = ManySharers" "\<And>j. \<not> sv \<subseteq> {j}"
proof -
  have f: "finite sv" using assms finite_subset by blast
  show thesis
  proof (cases "sharing_state sv")
    case ZeroSharers then show thesis using that(1) sharing_state_iff(1) [OF f] by blast
  next
    case OneSharer
    then obtain j where "sv = {j}" using sharing_state_iff(2) [OF f] by blast
    then show thesis using that(2) [of j] OneSharer assms by simp
  next
    case ManySharers
    then show thesis using that(3) sharing_state_iff(3) [OF f] by blast
  qed
qed

text \<open>Two weaker conditions on a block: every holder is known; and no cache may write.\<close>

definition covered :: "nat \<Rightarrow> (nat \<Rightarrow> CoherenceState_t) \<Rightarrow> nat set \<Rightarrow> bool" where
  "covered n l sv \<longleftrightarrow> (\<forall>j < n. mesi (l j) \<and> (l j \<noteq> kInvalid \<longrightarrow> j \<in> sv)) \<and> sv \<subseteq> {..<n}"

definition no_writer :: "nat \<Rightarrow> (nat \<Rightarrow> CoherenceState_t) \<Rightarrow> bool" where
  "no_writer n l \<longleftrightarrow> (\<forall>j < n. \<not> excl (l j))"

lemma block_ok_covered: "block_ok n l s sv \<Longrightarrow> covered n l sv"
  by (auto simp: block_ok_def covered_def)

lemma block_ok_quiet: "covered n l sv \<Longrightarrow> no_writer n l \<Longrightarrow> mesi s \<Longrightarrow> block_ok n l s sv"
  by (auto simp: block_ok_def covered_def no_writer_def)

lemma state_kinds [simp]:
  "mesi kModified" "mesi kExclusive" "mesi kShared" "mesi kInvalid"
  "excl kModified" "excl kExclusive" "\<not> excl kShared" "\<not> excl kInvalid"
  by (simp_all add: mesi_def excl_def)

lemma excl_mesi: "excl s \<Longrightarrow> mesi s"
  by (auto simp: excl_def mesi_def)

lemma quiet:
  assumes "block_ok n l s sv"
  shows "(\<And>j. \<not> sv \<subseteq> {j}) \<Longrightarrow> no_writer n l" "s = kModified \<or> s = kShared \<Longrightarrow> no_writer n l"
    "sv = {} \<Longrightarrow> no_writer n l" "i < n \<Longrightarrow> l i = kShared \<Longrightarrow> no_writer n l"
    "i < n \<Longrightarrow> l i \<noteq> kInvalid \<Longrightarrow> no_writer n (l(i := kInvalid))"
proof -
  have w: "sv = {j}" if "j < n" "excl (l j)" for j
    using assms that unfolding block_ok_def by (metis state_kinds(8) subset_singletonD empty_iff)
  show "(\<And>j. \<not> sv \<subseteq> {j}) \<Longrightarrow> no_writer n l" "sv = {} \<Longrightarrow> no_writer n l" using w by (auto simp: no_writer_def)
  show "s = kModified \<or> s = kShared \<Longrightarrow> no_writer n l" using assms by (auto simp: block_ok_def no_writer_def)
  have h: "i \<in> sv" if "i < n" "l i \<noteq> kInvalid" using assms that by (simp add: block_ok_def)
  show "i < n \<Longrightarrow> l i \<noteq> kInvalid \<Longrightarrow> no_writer n (l(i := kInvalid))" using w h by (auto simp: no_writer_def)
  show "no_writer n l" if "i < n" "l i = kShared"
    unfolding no_writer_def
  proof (intro allI impI notI)
    fix j assume "j < n" "excl (l j)"
    then show False using w [of j] h that by auto
  qed
qed

lemma snoop_covered:
  assumes "covered n l sv" "t = Invalidate \<or> t = ReturnReq \<or> P = {}"
  shows "covered n (snooped_states t P l) (snooped_sharers t P l sv)"
  using assms by (auto simp: covered_def snooped_states_def snooped_sharers_def mesi_snoop_def mesi_def)

lemma snoop_quiet:
  assumes "no_writer n l" "t = Invalidate \<or> t = ReturnReq \<or> P = {}"
  shows "no_writer n (snooped_states t P l)"
  using assms by (auto simp: no_writer_def snooped_states_def mesi_snoop_def excl_def)

lemma snoop_all_quiet:
  assumes "covered n l sv" "t = Invalidate \<or> t = ReturnReq" "\<not> excl (l i)" "P = sv - {i}"
  shows "no_writer n (snooped_states t P l)"
  using assms by (auto simp: covered_def no_writer_def snooped_states_def mesi_snoop_def excl_def)

lemma invalidate_all:
  assumes "P = sv - {i}"
  shows "snooped_sharers Invalidate P l sv = sv \<inter> {i}"
  using assms by (auto simp: snooped_sharers_def mesi_snoop_def)

lemma grant_shared:
  assumes "covered n l sv" "no_writer n l" "i < n" "mesi s"
  shows "block_ok n (l(i := kShared)) s (insert i sv)"
  using assms by (auto simp: block_ok_def covered_def no_writer_def)

lemma grant_sole:
  assumes "covered n l sv" "sv \<subseteq> {i}" "i < n" "mesi s" "mesi g" "s = kModified \<or> s = kShared \<longrightarrow> \<not> excl g"
  shows "block_ok n (l(i := g)) s (insert i sv)"
  using assms by (auto simp: block_ok_def covered_def excl_def)

lemma drop_own:
  assumes "covered n l sv" "no_writer n (l(i := kInvalid))" "mesi s"
  shows "block_ok n (l(i := kInvalid)) s (sv - {i})" "block_ok n (l(i := kInvalid)) s sv"
  using assms by (auto simp: block_ok_def covered_def no_writer_def)

lemma choice_dirty: "snoop_choice act i l sv P dirty \<Longrightarrow> sv \<subseteq> {..<n} \<Longrightarrow> no_writer n l \<Longrightarrow> \<not> dirty"
  by (auto simp: snoop_choice_def no_writer_def excl_def)

subsection \<open>Actions that keep a block in order\<close>

lemma share_act:
  assumes b: "block_ok n l s sv" "i < n" "l i = kInvalid" and t: "t = ReadReq \<or> t = FetchReq"
    and act: "act_shape t s act" "snoop_type act = NoRequest \<or> snoop_type act = ReturnReq"
      "fst (response act) = MissReply" "snd (response act) = MissReply \<or> no_writer n l"
      "no_writer n l \<or> snoop_type act = ReturnReq \<and> sharing_state sv \<noteq> ManySharers"
  shows "act_ok n i t l s sv act"
  unfolding act_ok_def Let_def
proof (intro conjI allI impI)
  fix P dirty assume c: "snoop_choice act i l sv P dirty"
  let ?t = "snoop_type act"
  have sv: "sv \<subseteq> {..<n}" using b(1) by (simp add: block_ok_def)
  have r: "pick dirty (response act) = MissReply" using act(3,4) choice_dirty [OF c sv] by (auto simp: pick_def)
  have "covered n (snooped_states ?t P l) (snooped_sharers ?t P l sv)"
    using snoop_covered [OF block_ok_covered [OF b(1)]] act(2) c by (auto simp: snoop_choice_def)
  moreover have "no_writer n (snooped_states ?t P l)"
    using act(5)
  proof
    assume "no_writer n l"
    then show ?thesis using snoop_quiet act(2) c by (auto simp: snoop_choice_def)
  next
    assume "?t = ReturnReq \<and> sharing_state sv \<noteq> ManySharers"
    then show ?thesis using snoop_all_quiet [OF block_ok_covered [OF b(1)], of ?t i P] b(3) c by (auto simp: snoop_choice_def excl_def)
  qed
  moreover have "mesi (pick dirty (next_state act))" using act(1) by (simp add: act_shape_def pick_def)
  moreover fix g assume "granted t (pick dirty (response act)) g"
  then have "g = kShared" using t r by (auto simp: granted_def read_grant_def split: if_splits)
  ultimately show "block_ok n ((snooped_states ?t P l)(i := g)) (pick dirty (next_state act))
      (reply_sharers t (pick dirty (response act)) i (snooped_sharers ?t P l sv))"
    using grant_shared [OF _ _ b(2)] t by (auto simp: reply_sharers_def)
qed (use act t choice_dirty [where n = n and act = act and l = l] b in \<open>auto simp: answerable_def reply_pre_def pick_def block_ok_def\<close>)

lemma sole_act:
  assumes b: "block_ok n l s sv" "i < n" "sv = {}" and t: "t = ReadReq \<or> t = WriteReq"
    and act: "act_shape t s act" "snoop_type act = NoRequest"
      "fst (response act) = MissReplyWritable \<or> fst (response act) = MissReplyDirty"
      "fst (next_state act) = kExclusive \<or> fst (next_state act) = kInvalid"
  shows "act_ok n i t l s sv act"
  unfolding act_ok_def Let_def
proof (intro conjI allI impI)
  fix P dirty g assume c: "snoop_choice act i l sv P dirty" and g: "granted t (pick dirty (response act)) g"
  have "P = {}" "\<not> dirty" using c act(2) by (auto simp: snoop_choice_def)
  moreover have "mesi g" using g t by (auto simp: granted_def read_grant_def mesi_def excl_def split: if_splits)
  moreover have "mesi (fst (next_state act))" using act(1) by (simp add: act_shape_def)
  ultimately show "block_ok n ((snooped_states (snoop_type act) P l)(i := g)) (pick dirty (next_state act))
      (reply_sharers t (pick dirty (response act)) i (snooped_sharers (snoop_type act) P l sv))"
    using grant_sole [OF block_ok_covered [OF b(1)], of i "fst (next_state act)" g] b(2,3) t act(4)
    by (auto simp: pick_def snooped_states_def snooped_sharers_def reply_sharers_def)
qed (use act t b in \<open>auto simp: answerable_def reply_pre_def pick_def snoop_choice_def snooped_sharers_def\<close>)

lemma invalidating_choice:
  assumes "snoop_choice act i l sv P dirty" "snoop_type act = Invalidate \<and> (multicast act \<or> sharing_state sv \<noteq> ManySharers) \<or>
      snoop_type act = NoRequest \<and> sv \<subseteq> {i}"
  shows "P = sv - {i}" "snooped_sharers (snoop_type act) P l sv = sv \<inter> {i}"
proof -
  show P: "P = sv - {i}" using assms by (auto simp: snoop_choice_def)
  show "snooped_sharers (snoop_type act) P l sv = sv \<inter> {i}"
    using assms(2)
  proof
    assume "snoop_type act = NoRequest \<and> sv \<subseteq> {i}"
    then have "P = {}" "sv \<inter> {i} = sv" using P by auto
    then show ?thesis by (simp add: snooped_sharers_def)
  qed (use invalidate_all [OF P] in simp)
qed

lemma own_act:
  assumes b: "block_ok n l s sv" "i < n" and t: "t = WriteReq \<or> t = UpgradeReq \<and> i \<in> sv"
    and act: "act_shape t s act" "next_state act = (kInvalid, kInvalid)"
      "snoop_type act = Invalidate \<and> (multicast act \<or> sharing_state sv \<noteq> ManySharers) \<or> snoop_type act = NoRequest \<and> sv \<subseteq> {i}"
      "answerable t (fst (response act))" "answerable t (snd (response act)) \<or> no_writer n l"
      "t = WriteReq \<longrightarrow> snoop_type act = NoRequest \<longrightarrow> sv = {}"
  shows "act_ok n i t l s sv act"
  unfolding act_ok_def Let_def
proof (intro conjI allI impI)
  fix P dirty assume c: "snoop_choice act i l sv P dirty"
  let ?t = "snoop_type act"
  have sv: "sv \<subseteq> {..<n}" using b(1) by (simp add: block_ok_def)
  note P = invalidating_choice [OF c act(3)]
  show an: "answerable t (pick dirty (response act))" using act(4,5) choice_dirty [OF c sv] by (auto simp: pick_def)
  show "reply_pre t (pick dirty (response act)) i (snooped_sharers ?t P l sv)"
    using P(2) t by (auto simp: reply_pre_def)
  fix g assume "granted t (pick dirty (response act)) g"
  then have "mesi g" using t by (auto simp: granted_def mesi_def excl_def)
  moreover have "covered n (snooped_states ?t P l) (sv \<inter> {i})"
    using snoop_covered [OF block_ok_covered [OF b(1)], of ?t P] act(3) P by auto
  ultimately show "block_ok n ((snooped_states ?t P l)(i := g)) (pick dirty (next_state act))
      (reply_sharers t (pick dirty (response act)) i (snooped_sharers ?t P l sv))"
    using grant_sole [of n "snooped_states ?t P l" "sv \<inter> {i}" i kInvalid g] P(2) t b(2) act(2)
    by (auto simp: reply_sharers_def pick_def mesi_def)
qed (use act in auto)

lemma store_act:
  assumes b: "block_ok n l s sv" "i < n" "l i = kInvalid"
    and act: "act_shape NonAllocatingStoreReq s act"
      "snoop_type act = Invalidate \<and> (multicast act \<or> sharing_state sv \<noteq> ManySharers) \<or> snoop_type act = NoRequest \<and> sv = {}"
      "fst (response act) = NonAllocatingStoreReply" "snd (response act) = NonAllocatingStoreReply \<or> no_writer n l"
  shows "act_ok n i NonAllocatingStoreReq l s sv act"
  unfolding act_ok_def Let_def
proof (intro conjI allI impI)
  fix P dirty assume c: "snoop_choice act i l sv P dirty"
  let ?t = "snoop_type act"
  have sv: "sv \<subseteq> {..<n}" using b(1) by (simp add: block_ok_def)
  have P: "P = sv - {i}" using invalidating_choice(1) [OF c] act(2) by auto
  show an: "answerable NonAllocatingStoreReq (pick dirty (response act))"
    using act(3,4) choice_dirty [OF c sv] by (auto simp: pick_def answerable_def)
  have cov: "covered n (snooped_states ?t P l) (snooped_sharers ?t P l sv)"
    using snoop_covered [OF block_ok_covered [OF b(1)], of ?t P] act(2) P by auto
  have "no_writer n (snooped_states ?t P l)"
    using act(2)
  proof
    assume "?t = Invalidate \<and> (multicast act \<or> sharing_state sv \<noteq> ManySharers)"
    then show ?thesis using snoop_all_quiet [OF block_ok_covered [OF b(1)] _ _ P] b(3) by (auto simp: excl_def)
  next
    assume "?t = NoRequest \<and> sv = {}"
    then show ?thesis using quiet(3) [OF b(1)] P by (auto simp: no_writer_def snooped_states_def)
  qed
  then have "no_writer n ((snooped_states ?t P l)(i := kInvalid))" by (auto simp: no_writer_def excl_def)
  moreover have "mesi (pick dirty (next_state act))" using act(1) by (simp add: act_shape_def pick_def)
  moreover fix g assume "granted NonAllocatingStoreReq (pick dirty (response act)) g"
  ultimately show "block_ok n ((snooped_states ?t P l)(i := g)) (pick dirty (next_state act))
      (reply_sharers NonAllocatingStoreReq (pick dirty (response act)) i (snooped_sharers ?t P l sv))"
    using drop_own(2) [OF cov] by (simp add: granted_def reply_sharers_def)
qed (use act in \<open>auto simp: reply_pre_def\<close>)

lemma evict_act:
  assumes b: "block_ok n l s sv" "i < n" "l i \<noteq> kInvalid" and t: "t = EvictClean \<or> t = EvictWritable \<or> t = EvictDirty"
    and act: "act_shape t s act"
  shows "act_ok n i t l s sv act"
  unfolding act_ok_def Let_def
proof (intro conjI allI impI)
  fix P dirty g assume c: "snoop_choice act i l sv P dirty" and g: "granted t (pick dirty (response act)) g"
  have "snoop_type act = NoRequest" using act t by (auto simp: act_shape_def)
  then have "P = {}" "\<not> dirty" using c by (auto simp: snoop_choice_def)
  then show "block_ok n ((snooped_states (snoop_type act) P l)(i := g)) (pick dirty (next_state act))
      (reply_sharers t (pick dirty (response act)) i (snooped_sharers (snoop_type act) P l sv))"
    using drop_own(1) [OF block_ok_covered [OF b(1)] quiet(5) [OF b], of "fst (next_state act)"] t g act
    by (auto simp: pick_def snooped_states_def snooped_sharers_def reply_sharers_def granted_def act_shape_def)
qed (use act t in \<open>auto simp: answerable_def reply_pre_def\<close>)

subsection \<open>Every reachable row is right\<close>

lemma mesi_cases:
  assumes "mesi s"
  obtains "s = kModified" | "s = kExclusive" | "s = kShared" | "s = kInvalid"
  using assms by (auto simp: mesi_def)

lemmas act_shapes = act_shape_def clean_reply_def dirty_reply_def

lemma read_act:
  assumes "block_ok n l s sv" "i < n" "l i = kInvalid"
  shows "\<exists>act. getAction s (sharing_state sv) ReadReq = Inr act \<and> act_ok n i ReadReq l s sv act"
proof -
  have "mesi s" "sv \<subseteq> {..<n}" using assms(1) by (simp_all add: block_ok_def)
  note acts = share_act sole_act
  from \<open>sv \<subseteq> {..<n}\<close> show ?thesis
  proof (cases rule: sharers_cases)
    case 1
    note q = quiet(3) [OF assms(1) 1(1)]
    from \<open>mesi s\<close> show ?thesis using assms
      by (cases rule: mesi_cases) (simp_all add: 1(2) ReadReq_rows acts 1(1) q act_shapes)
  next
    case (2 j)
    note q = quiet(2) [OF assms(1)]
    from \<open>mesi s\<close> show ?thesis using assms
      by (cases rule: mesi_cases) (simp_all add: 2(3) ReadReq_rows acts q act_shapes)
  next
    case 3
    note q = quiet(1) [OF assms(1) 3(2)]
    from \<open>mesi s\<close> show ?thesis using assms
      by (cases rule: mesi_cases) (simp_all add: 3(1) ReadReq_rows acts q act_shapes)
  qed
qed

lemma fetch_act:
  assumes "block_ok n l s sv" "i < n" "l i = kInvalid"
  shows "\<exists>act. getAction s (sharing_state sv) FetchReq = Inr act \<and> act_ok n i FetchReq l s sv act"
proof -
  have "mesi s" "sv \<subseteq> {..<n}" using assms(1) by (simp_all add: block_ok_def)
  note acts = share_act
  from \<open>sv \<subseteq> {..<n}\<close> show ?thesis
  proof (cases rule: sharers_cases)
    case 1
    note q = quiet(3) [OF assms(1) 1(1)]
    from \<open>mesi s\<close> show ?thesis using assms
      by (cases rule: mesi_cases) (simp_all add: 1(2) FetchReq_rows acts 1(1) q act_shapes)
  next
    case (2 j)
    note q = quiet(2) [OF assms(1)]
    from \<open>mesi s\<close> show ?thesis using assms
      by (cases rule: mesi_cases) (simp_all add: 2(3) FetchReq_rows acts q act_shapes)
  next
    case 3
    note q = quiet(1) [OF assms(1) 3(2)]
    from \<open>mesi s\<close> show ?thesis using assms
      by (cases rule: mesi_cases) (simp_all add: 3(1) FetchReq_rows acts q act_shapes)
  qed
qed

lemma write_act:
  assumes "block_ok n l s sv" "i < n" "l i = kInvalid"
  shows "\<exists>act. getAction s (sharing_state sv) WriteReq = Inr act \<and> act_ok n i WriteReq l s sv act"
proof -
  have "mesi s" "sv \<subseteq> {..<n}" using assms(1) by (simp_all add: block_ok_def)
  note acts = sole_act own_act
  from \<open>sv \<subseteq> {..<n}\<close> show ?thesis
  proof (cases rule: sharers_cases)
    case 1
    from \<open>mesi s\<close> show ?thesis using assms
      by (cases rule: mesi_cases) (simp_all add: 1(2) WriteReq_rows acts 1(1) act_shapes)
  next
    case (2 j)
    from \<open>mesi s\<close> show ?thesis using assms
      by (cases rule: mesi_cases) (simp_all add: 2(3) WriteReq_rows acts act_shapes answerable_def)
  next
    case 3
    note q = quiet(1) [OF assms(1) 3(2)]
    from \<open>mesi s\<close> show ?thesis using assms
      by (cases rule: mesi_cases) (simp_all add: 3(1) WriteReq_rows acts q act_shapes answerable_def)
  qed
qed

lemma upgrade_act:
  assumes "block_ok n l s sv" "i < n" "l i = kShared"
  shows "\<exists>act. getAction s (sharing_state sv) UpgradeReq = Inr act \<and> act_ok n i UpgradeReq l s sv act"
proof -
  have "mesi s" "sv \<subseteq> {..<n}" "i \<in> sv" using assms by (simp_all add: block_ok_def)
  note acts = own_act
  from \<open>sv \<subseteq> {..<n}\<close> show ?thesis
  proof (cases rule: sharers_cases)
    case 1
    then show ?thesis using \<open>i \<in> sv\<close> by simp
  next
    case (2 j)
    have "sv = {i}" using 2(1) \<open>i \<in> sv\<close> by simp
    from \<open>mesi s\<close> show ?thesis using assms
      by (cases rule: mesi_cases) (simp_all add: 2(3) UpgradeReq_rows acts \<open>sv = {i}\<close> quiet(4) [OF assms] act_shapes answerable_def)
  next
    case 3
    from \<open>mesi s\<close> show ?thesis using assms
      by (cases rule: mesi_cases) (simp_all add: 3(1) UpgradeReq_rows acts \<open>i \<in> sv\<close> act_shapes answerable_def)
  qed
qed

lemma store_bypass_act:
  assumes "block_ok n l s sv" "i < n" "l i = kInvalid"
  shows "\<exists>act. getAction s (sharing_state sv) NonAllocatingStoreReq = Inr act \<and> act_ok n i NonAllocatingStoreReq l s sv act"
proof -
  have "mesi s" "sv \<subseteq> {..<n}" using assms(1) by (simp_all add: block_ok_def)
  note acts = store_act
  from \<open>sv \<subseteq> {..<n}\<close> show ?thesis
  proof (cases rule: sharers_cases)
    case 1
    from \<open>mesi s\<close> show ?thesis using assms
      by (cases rule: mesi_cases) (simp_all add: 1(2) NonAllocatingStoreReq_rows acts 1(1) quiet(3) [OF assms(1) 1(1)] act_shapes)
  next
    case (2 j)
    from \<open>mesi s\<close> show ?thesis using assms
      by (cases rule: mesi_cases) (simp_all add: 2(3) NonAllocatingStoreReq_rows acts act_shapes)
  next
    case 3
    note q = quiet(1) [OF assms(1) 3(2)]
    from \<open>mesi s\<close> show ?thesis using assms
      by (cases rule: mesi_cases) (simp_all add: 3(1) NonAllocatingStoreReq_rows acts q act_shapes)
  qed
qed

lemma evictions_act:
  assumes "block_ok n l s sv" "i < n"
    "t = EvictClean \<and> l i = kShared \<or> t = EvictWritable \<and> l i = kExclusive \<or> t = EvictDirty \<and> l i = kModified"
  shows "\<exists>act. getAction s (sharing_state sv) t = Inr act \<and> act_ok n i t l s sv act"
proof -
  have li: "l i \<noteq> kInvalid" using assms(3) by auto
  have m: "mesi s" "sv \<subseteq> {..<n}" "i \<in> sv" using assms li by (auto simp: block_ok_def)
  have e: "s = kExclusive \<or> s = kInvalid" "sv \<subseteq> {i}" if "excl (l i)"
    using assms(1,2) that by (auto simp: block_ok_def mesi_def)
  note acts = evict_act
  from m(2) show ?thesis
  proof (cases rule: sharers_cases)
    case 1
    then show ?thesis using m(3) by simp
  next
    case (2 j)
    from m(1) show ?thesis
      by (cases rule: mesi_cases) (use assms li e in \<open>auto simp: 2(3) EvictClean_rows EvictWritable_rows EvictDirty_rows acts act_shapes\<close>)
  next
    case 3
    have "\<not> excl (l i)" using e(2) 3(2) by blast
    then have "t = EvictClean" using assms(3) by auto
    with m(1) show ?thesis using assms(1,2) li
      by (cases rule: mesi_cases) (simp_all add: 3(1) EvictClean_rows acts act_shapes)
  qed
qed

lemma table_ok:
  assumes "block_ok n l s sv" "i < n" "asks t (l i)"
  shows "\<exists>act. getAction s (sharing_state sv) t = Inr act \<and> act_ok n i t l s sv act"
  using assms(3) unfolding asks_def insert_iff empty_iff
  by (elim disjE conjE)
    (simp_all add: assms(1,2) read_act fetch_act write_act upgrade_act store_bypass_act evictions_act)

end
