(* ===== verification/Cmp_Shared.thy ===== *)
theory Cmp_Shared
  imports Cmp_Protocol
begin

text \<open>
  The shared cache of the trace mode among its neighbours. The locale lists what
  \<open>FastCMPCacheImpl.cpp\<close> relies on: the tag array, the directory, first level caches that answer
  snoops as MESI asks, a memory that answers. With these, a request of a first level cache is
  carried out without a failed assertion, leaves every other block alone, and the block it is
  about is in order once the requester takes the state the reply allows; the same holds of the
  accesses of devices.
\<close>

section \<open>The shared cache and its neighbours\<close>

locale shared_cache = tag_array ops ok st at k + directory dops dok sh points
  for ops :: "('c, 'r, 'd \<times> 'e) cache_ops" and ok and st and at and k
    and dops :: "('d, 'p) dir_ops" and dok and sh and points +
  fixes chs :: "('c, 'd, 'e) cmp_channels" and cfg :: cmp_config and n :: nat
    and eok :: "'e \<Rightarrow> bool" and ls :: "'e \<Rightarrow> nat \<Rightarrow> u64 \<Rightarrow> CoherenceState_t" and l1 :: "'e \<Rightarrow> nat \<Rightarrow> 'l"
  assumes blocks: "ok c \<Longrightarrow> block_state_fun k (st c)"
    and unit: "eok e \<Longrightarrow> theCoherenceUnitMask cfg = NOT (mask k)"
    and width: "eok e \<Longrightarrow> n \<le> MAX_NUM_SHARERS"
    and snooped: "eok e \<Longrightarrow> i < n \<Longrightarrow> theType msg \<in> {Invalidate, ReturnReq, Downgrade} \<Longrightarrow>
      block_of k (theAddress msg) = a \<Longrightarrow> mesi (ls e i a) \<Longrightarrow>
      \<exists>m e'. snoop_cache chs cfg i msg (fc, d, e) = Inr (m, fc, d, e') \<and> eok e' \<and> theAddress m = theAddress msg \<and>
        theType m = fst (mesi_snoop (theType msg) (ls e i a)) \<and>
        ls e' = (ls e)(i := set_state k a (snd (mesi_snoop (theType msg) (ls e i a))) (ls e i)) \<and>
        (\<forall>j. j \<noteq> i \<longrightarrow> l1 e' j = l1 e j)"
    and memory: "eok e \<Longrightarrow> theType msg \<in> {ReadReq, FetchReq, WriteReq, NonAllocatingStoreReq, EvictDirty, EvictClean} \<Longrightarrow>
      \<exists>m e'. cmp_RequestOut chs msg (fc, d, e) = Inr (m, fc, d, e') \<and> eok e' \<and> ls e' = ls e \<and> l1 e' = l1 e"
    and serial: "eok e \<Longrightarrow> eok (snd (cmp_next_serial chs e)) \<and> ls (snd (cmp_next_serial chs e)) = ls e \<and>
      l1 (snd (cmp_next_serial chs e)) = l1 e"

subsection \<open>Snoops\<close>

definition replies :: "MemoryMessageType \<Rightarrow> MemoryMessageType set" where
  "replies t = (if t = Invalidate then {NoRequest, Invalidate, InvalidateAck, InvUpdateAck}
     else {NoRequest, ReturnNAck, ReturnReply, ReturnReplyDirty})"

definition loop_ok :: "PrimaryAction \<Rightarrow> bool \<Rightarrow> snoop_state \<Rightarrow> bool" where
  "loop_ok act dirty ss \<longleftrightarrow> ss_response ss \<in> replies (snoop_type act) \<and>
     (ss_response ss = dirty_reply (snoop_type act) \<longrightarrow> dirty) \<and> (ss_use_ns1 ss \<longrightarrow> dirty) \<and>
     ss_our_response ss = (if ss_use_ns1 ss then snd (response act) else fst (response act))"

lemma combine_ok:
  assumes "t = Invalidate \<or> t = ReturnReq" "r \<in> replies t" "mesi s"
  shows "\<exists>r'. combineSnoopResponse r (fst (mesi_snoop t s)) = Inr r' \<and> r' \<in> replies t \<and>
    (r' = dirty_reply t \<longrightarrow> r = dirty_reply t \<or> s = kModified)"
  using assms by (auto simp: replies_def mesi_def mesi_snoop_def dirty_reply_def combineSnoopResponse_def)

context shared_cache
begin

lemma snoop_response_ok:
  assumes "dok d" "points d p a" "i < MAX_NUM_SHARERS" "t \<in> {Invalidate, ReturnReq, Downgrade}" "mesi s"
  shows "\<exists>d'. processSnoopResponse dops i (fst (mesi_snoop t s)) p a d = Inr d' \<and> dok d' \<and> points d' p a \<and>
    sh d' = (sh d)(a := if snd (mesi_snoop t s) = kInvalid \<and> t \<noteq> Downgrade then sh d a - {i} else sh d a)"
  using assms(4,5) dremove [OF assms(1-3)] dfailed [OF assms(1-3)] assms(1,2)
  by (auto simp: processSnoopResponse_def mesi_snoop_def mesi_def)

lemma snoops_ok:
  assumes "eok e" "dok d" "points d p a" "block_of k (theAddress msg) = a" "set is \<subseteq> {..<n}" "distinct is"
    "\<forall>j < n. mesi (ls e j a)" "snoop_type act = Invalidate \<or> snoop_type act = ReturnReq"
    "terminal_response act \<in> {(clean_reply (snoop_type act), dirty_reply (snoop_type act)), (NoRequest, NoRequest)}"
    "loop_ok act dirty ss" "\<forall>j \<in> set is. ls e j a = kModified \<longrightarrow> dirty"
  shows "\<exists>ss' d' e' P. snoop_loop dops chs cfg act multiple i p a is msg ss (fc, d, e) = Inr (ss', fc, d', e') \<and>
    eok e' \<and> l1 e' i = l1 e i \<and> dok d' \<and> points d' p a \<and> loop_ok act dirty ss' \<and> P \<subseteq> set is - {i} \<and>
    (multicast act \<or> length is \<le> 1 \<longrightarrow> P = set is - {i}) \<and>
    ls e' = (\<lambda>j. if j \<in> P then set_state k a (snd (mesi_snoop (snoop_type act) (ls e j a))) (ls e j) else ls e j) \<and>
    sh d' = (sh d)(a := sh d a - {j \<in> P. snd (mesi_snoop (snoop_type act) (ls e j a)) = kInvalid})"
  using assms(1-7,10,11)
proof (induction "is" arbitrary: msg ss d e)
  case Nil
  then show ?case by (intro exI [of _ ss] exI [of _ d] exI [of _ e] exI [of _ "{}"]) (auto simp: fun_eq_iff)
next
  case (Cons j js)
  let ?t = "snoop_type act"
  show ?case
  proof (cases "j = i")
    case True
    have ih: "set js \<subseteq> {..<n}" "distinct js" "\<forall>j \<in> set js. ls e j a = kModified \<longrightarrow> dirty"
      using Cons.prems(5,6,9) by auto
    obtain ss' d' e' P where "snoop_loop dops chs cfg act multiple i p a js msg ss (fc, d, e) = Inr (ss', fc, d', e')"
      "eok e'" "l1 e' i = l1 e i" "dok d'" "points d' p a" "loop_ok act dirty ss'" "P \<subseteq> set js - {i}"
      "multicast act \<or> length js \<le> 1 \<longrightarrow> P = set js - {i}"
      "ls e' = (\<lambda>j. if j \<in> P then set_state k a (snd (mesi_snoop ?t (ls e j a))) (ls e j) else ls e j)"
      "sh d' = (sh d)(a := sh d a - {j \<in> P. snd (mesi_snoop ?t (ls e j a)) = kInvalid})"
      using Cons.IH [OF Cons.prems(1-4) ih(1,2) Cons.prems(7,8) ih(3)] by blast
    then show ?thesis using True by (intro exI [of _ ss'] exI [of _ d'] exI [of _ e'] exI [of _ P]) auto
  next
    case False
    let ?msg = "msg\<lparr>theType := ?t\<rparr>" and ?r = "mesi_snoop ?t (ls e j a)"
    have j: "j < n" "mesi (ls e j a)" using Cons.prems(5,7) by auto
    obtain m e1 where sn: "snoop_cache chs cfg j ?msg (fc, d, e) = Inr (m, fc, d, e1)" "eok e1"
      "theAddress m = theAddress msg" "theType m = fst ?r" "ls e1 = (ls e)(j := set_state k a (snd ?r) (ls e j))"
      "l1 e1 i = l1 e i"
      using snooped [OF Cons.prems(1) j(1), of ?msg a fc d] assms(8) Cons.prems(4) j(2) False by auto
    obtain r' where r': "combineSnoopResponse (ss_response ss) (fst ?r) = Inr r'" "r' \<in> replies ?t"
      "r' = dirty_reply ?t \<longrightarrow> ss_response ss = dirty_reply ?t \<or> ls e j a = kModified"
      using combine_ok [OF assms(8) _ j(2)] Cons.prems(8) by (auto simp: loop_ok_def)
    obtain d1 where d1: "processSnoopResponse dops j (fst ?r) p a d = Inr d1" "dok d1" "points d1 p a"
      "sh d1 = (sh d)(a := if snd ?r = kInvalid then sh d a - {j} else sh d a)"
      using snoop_response_ok [OF Cons.prems(2,3) _ _ j(2), of j ?t] assms(8) width [OF Cons.prems(1)] j(1) by auto
    define ss1 where "ss1 = (if r' \<noteq> fst (terminal_response act) \<and> r' = snd (terminal_response act)
        then \<lparr>ss_response = r', ss_our_response = snd (response act), ss_use_ns1 = True\<rparr> else ss\<lparr>ss_response := r'\<rparr>)"
    have dj: "r' = dirty_reply ?t \<Longrightarrow> dirty" using r'(3) Cons.prems(8,9) by (auto simp: loop_ok_def)
    have ok1: "loop_ok act dirty ss1"
      using Cons.prems(8) r'(2) dj assms(9) by (auto simp: loop_ok_def ss1_def)
    have step: "snoop_loop dops chs cfg act multiple i p a (j # js) msg ss (fc, d, e) =
        (if \<not> multicast act \<and> \<not> (AlwaysMulticast cfg \<and> multiple) \<and> terminal act r' then Inr (ss1, fc, d1, e1)
         else snoop_loop dops chs cfg act multiple i p a js m ss1 (fc, d1, e1))"
      using False by (simp add: sn(1,4) r'(1) d1(1) on_dir_def ss1_def Let_def del: rbind_eq_Inr)
    show ?thesis
    proof (cases "\<not> multicast act \<and> \<not> (AlwaysMulticast cfg \<and> multiple) \<and> terminal act r'")
      case True
      then show ?thesis
        unfolding step using sn(2,5,6) d1 ok1 False j Cons.prems(6)
        by (intro exI [of _ ss1] exI [of _ d1] exI [of _ e1] exI [of _ "{j}"]) (auto simp: fun_eq_iff)
    next
      case go: False
      have js: "j \<notin> set js" using Cons.prems(6) by simp
      have lj: "l \<in> set js \<Longrightarrow> ls e1 l = ls e l" for l using sn(5) js by auto
      have m1: "\<forall>l < n. mesi (ls e1 l a)"
        using Cons.prems(7) sn(5) assms(8) by (auto simp: set_state_def mesi_snoop_def mesi_def)
      have ih: "set js \<subseteq> {..<n}" "distinct js" "\<forall>l \<in> set js. ls e1 l a = kModified \<longrightarrow> dirty"
        "block_of k (theAddress m) = a"
        using Cons.prems(4-6,9) lj sn(3) by auto
      obtain ss' d' e' P where tl: "snoop_loop dops chs cfg act multiple i p a js m ss1 (fc, d1, e1) = Inr (ss', fc, d', e')"
        "eok e'" "l1 e' i = l1 e1 i" "dok d'" "points d' p a" "loop_ok act dirty ss'" "P \<subseteq> set js - {i}"
        "multicast act \<or> length js \<le> 1 \<longrightarrow> P = set js - {i}"
        "ls e' = (\<lambda>l. if l \<in> P then set_state k a (snd (mesi_snoop ?t (ls e1 l a))) (ls e1 l) else ls e1 l)"
        "sh d' = (sh d1)(a := sh d1 a - {l \<in> P. snd (mesi_snoop ?t (ls e1 l a)) = kInvalid})"
        using Cons.IH [OF sn(2) d1(2,3) ih(4,1,2) m1 ok1 ih(3)] by blast
      have "ls e' = (\<lambda>l. if l \<in> insert j P then set_state k a (snd (mesi_snoop ?t (ls e l a))) (ls e l) else ls e l)"
      proof
        fix l
        show "ls e' l = (if l \<in> insert j P then set_state k a (snd (mesi_snoop ?t (ls e l a))) (ls e l) else ls e l)"
          using tl(7,9) lj [of l] js sn(5) by auto
      qed
      moreover have "sh d' = (sh d)(a := sh d a - {l \<in> insert j P. snd (mesi_snoop ?t (ls e l a)) = kInvalid})"
        using tl(7,10) lj d1(4) by (auto simp: fun_eq_iff)
      ultimately show ?thesis
        unfolding step using go tl(1-8) False sn(6)
        by (intro exI [of _ ss'] exI [of _ d'] exI [of _ e'] exI [of _ "insert j P"]) auto
    qed
  qed
qed

end

subsection \<open>Requests\<close>

lemma set_toList: "s \<subseteq> {..<MAX_NUM_SHARERS} \<Longrightarrow> set (toList s) = s"
  by (auto simp: toList_def)

lemma distinct_toList: "distinct (toList s)"
  by (simp add: toList_def)

lemma length_toList: "s \<subseteq> {..<MAX_NUM_SHARERS} \<Longrightarrow> sharing_state s \<noteq> ManySharers \<Longrightarrow> length (toList s) \<le> 1"
  using distinct_card [OF distinct_toList, of s] set_toList [of s]
  by (simp add: sharing_state_def countSharers_def split: if_splits)

lemma MemoryMessage_copy_fields [simp]:
  "theAddress (fst (MemoryMessage_copy msg x)) = theAddress msg" "theType (fst (MemoryMessage_copy msg x)) = theType msg"
  by (simp_all add: MemoryMessage_copy_def split: prod.split)

context shared_cache
begin

lemma perform_snoops_ok:
  assumes e: "eok e" "dok d" "points d p a" "block_of k (theAddress msg) = a" "sh d a \<subseteq> {..<n}" "\<forall>j < n. mesi (ls e j a)"
    and act: "act_shape t s act"
  shows "\<exists>ss succ d' e' P. perform_snoops dops chs cfg act i p a (sh d a) msg (fc, d, e) = Inr (ss, succ, fc, d', e') \<and>
    eok e' \<and> l1 e' i = l1 e i \<and> dok d' \<and> points d' p a \<and> snoop_choice act i (\<lambda>j. ls e j a) (sh d a) P (ss_use_ns1 ss) \<and>
    ss_our_response ss = pick (ss_use_ns1 ss) (response act) \<and> (snoop_type act = NoRequest \<longrightarrow> \<not> succ) \<and>
    ls e' = (\<lambda>j. if j \<in> P then set_state k a (snd (mesi_snoop (snoop_type act) (ls e j a))) (ls e j) else ls e j) \<and>
    sh d' = (sh d)(a := snooped_sharers (snoop_type act) P (\<lambda>j. ls e j a) (sh d a))"
proof (cases "snoop_type act = NoRequest")
  case True
  then show ?thesis using e(1-3)
    by (intro exI [of _ "\<lparr>ss_response = NoRequest, ss_our_response = fst (response act), ss_use_ns1 = False\<rparr>"]
          exI [of _ False] exI [of _ d] exI [of _ e] exI [of _ "{}"])
      (simp add: perform_snoops_def snoop_choice_def pick_def snooped_sharers_def)
next
  case False
  let ?t = "snoop_type act" and ?sv = "sh d a" and ?e = "snd (cmp_next_serial chs e)"
  define dirty where "dirty \<longleftrightarrow> (\<exists>j \<in> ?sv. ls e j a = kModified)"
  let ?ss = "\<lparr>ss_response = NoRequest, ss_our_response = fst (response act), ss_use_ns1 = False\<rparr>"
  let ?msg = "fst (MemoryMessage_copy msg (fst (cmp_next_serial chs e) - 1))"
  let ?mult = "length (toList ?sv) > 1 \<and> \<not> (length (toList ?sv) = 2 \<and> i \<in> ?sv)"
  have t: "?t = Invalidate \<or> ?t = ReturnReq"
    "terminal_response act \<in> {(clean_reply ?t, dirty_reply ?t), (NoRequest, NoRequest)}"
    using act False by (auto simp: act_shape_def)
  have w: "?sv \<subseteq> {..<MAX_NUM_SHARERS}" using e(5) width [OF e(1)] by auto
  note tl = set_toList [OF w]
  have l: "loop_ok act dirty ?ss" using t(1) by (auto simp: loop_ok_def replies_def dirty_reply_def)
  have dj: "\<forall>j \<in> ?sv. ls e j a = kModified \<longrightarrow> dirty" by (auto simp: dirty_def)
  have s: "eok ?e" "ls ?e = ls e" "l1 ?e = l1 e" using serial [OF e(1)] by auto
  obtain ss d' e' P where r: "snoop_loop dops chs cfg act ?mult i p a (toList ?sv) ?msg ?ss (fc, d, ?e) = Inr (ss, fc, d', e')"
    "eok e'" "l1 e' i = l1 e i" "dok d'" "points d' p a" "loop_ok act dirty ss" "P \<subseteq> ?sv - {i}"
    "multicast act \<or> length (toList ?sv) \<le> 1 \<longrightarrow> P = ?sv - {i}"
    "ls e' = (\<lambda>j. if j \<in> P then set_state k a (snd (mesi_snoop ?t (ls e j a))) (ls e j) else ls e j)"
    "sh d' = (sh d)(a := ?sv - {j \<in> P. snd (mesi_snoop ?t (ls e j a)) = kInvalid})"
    using snoops_ok [OF s(1) e(2,3) _ _ distinct_toList [of ?sv] _ t l, where msg = ?msg and multiple = ?mult and i = i and fc = fc,
        unfolded s(2,3) tl MemoryMessage_copy_fields, OF e(4-6)] dj by blast
  have "snoop_choice act i (\<lambda>j. ls e j a) ?sv P (ss_use_ns1 ss)"
    using r(6-8) length_toList [OF w] False by (auto simp: snoop_choice_def loop_ok_def dirty_def)
  moreover have "perform_snoops dops chs cfg act i p a ?sv msg (fc, d, e) = Inr (ss, terminal act (ss_response ss), fc, d', e')"
    using False r(1) by (simp add: perform_snoops_def Let_def case_prod_unfold tl del: rbind_eq_Inr)
  moreover have "ss_our_response ss = pick (ss_use_ns1 ss) (response act)" using r(6) by (simp add: loop_ok_def pick_def)
  ultimately show ?thesis using r(2-5,9,10) False
    by (intro exI [of _ ss] exI [of _ "terminal act (ss_response ss)"] exI [of _ d'] exI [of _ e'] exI [of _ P])
      (simp add: snooped_sharers_def)
qed

lemma cmp_evict_ok:
  assumes "eok e"
  shows "\<exists>m e'. cmp_evict chs v s (fc, d, e) = Inr (fc\<lparr>theEvictMessage := m\<rparr>, d, e') \<and> eok e' \<and> ls e' = ls e \<and> l1 e' = l1 e"
proof -
  let ?m = "(theEvictMessage fc)\<lparr>theAddress := v, theType := cmp_evict_type s\<rparr>"
  have "theType ?m \<in> {EvictDirty, EvictClean}" by (simp add: cmp_evict_type_def)
  then obtain m e' where "cmp_RequestOut chs ?m (fc, d, e) = Inr (m, fc, d, e')" "eok e'" "ls e' = ls e" "l1 e' = l1 e"
    using memory [OF assms, of ?m fc d] by blast
  then show ?thesis by (intro exI [of _ m] exI [of _ e']) (simp add: cmp_evict_def del: rbind_eq_Inr)
qed

lemma update_cache_ok:
  assumes c: "ok (fc_cache fc)" "at (fc_cache fc) r a" "mesi ns" "eok e"
    and act: "\<not> allocate act \<longrightarrow> st (fc_cache fc) a = kInvalid \<longrightarrow> ns = kInvalid"
  shows "\<exists>fc' e'. update_cache ops chs act ns r (fc, d, e) = Inr (fc', d, e') \<and> ok (fc_cache fc') \<and> eok e' \<and> ls e' = ls e \<and> l1 e' = l1 e \<and>
    st (fc_cache fc') a = ns \<and>
    (\<forall>x. block_of k x \<noteq> block_of k a \<longrightarrow> st (fc_cache fc') x \<in> {st (fc_cache fc) x, kInvalid})"
proof (cases "allocate act")
  case True
  obtain c1 v where v: "ok c1" "st c1 = st (fc_cache fc)"
    and al: "answers (cmp_evict chs) v (fc\<lparr>fc_cache := c1\<rparr>, d, e) (fc', x') \<Longrightarrow>
      \<exists>c2. op_allocate ops (cmp_evict chs) ns r (fc, d, e) = Inr (fc'\<lparr>fc_cache := c2\<rparr>, x') \<and> ok c2 \<and>
        st c2 = set_state k a ns (drop_victim k v (st (fc_cache fc)))" for fc' x'
    using fill [OF c(1,2) mesi_saveable [OF c(3)], of "cmp_evict chs" "(d, e)"] by blast
  obtain fc' e' where "answers (cmp_evict chs) v (fc\<lparr>fc_cache := c1\<rparr>, d, e) (fc', d, e')" "eok e'" "ls e' = ls e" "l1 e' = l1 e"
  proof (cases v)
    case None
    then show thesis using that [of "fc\<lparr>fc_cache := c1\<rparr>" e] c(4) by (simp add: answers_None)
  next
    case (Some q)
    obtain m e' where "cmp_evict chs (fst q) (snd q) (fc\<lparr>fc_cache := c1\<rparr>, d, e) =
        Inr (fc\<lparr>fc_cache := c1, theEvictMessage := m\<rparr>, d, e')" "eok e'" "ls e' = ls e" "l1 e' = l1 e"
      using cmp_evict_ok [OF c(4), of "fst q" "snd q" "fc\<lparr>fc_cache := c1\<rparr>" d] by auto
    then show thesis
      using Some by (intro that [of "fc\<lparr>fc_cache := c1, theEvictMessage := m\<rparr>" e']) (simp_all add: answers_def case_prod_unfold)
  qed
  note e' = this(2-4) al [OF this(1)]
  have "drop_victim k v f x \<in> {f x, kInvalid}" for f x by (auto simp: drop_victim_def set_state_def split: option.split)
  then show ?thesis using e' True by (auto simp: update_cache_def set_state_def)
next
  case False
  let ?s = "st (fc_cache fc) a"
  have g: "op_getState ops r (fc_cache fc) = Inr ?s" using getState [OF c(1,2)] .
  show ?thesis
  proof (cases "ns = ?s")
    case True
    show ?thesis
      using True False g c touch [OF c(1,2)] by (auto simp: update_cache_def on_cache_def)
  next
    case ne: False
    then have "?s \<noteq> kInvalid" using act False by auto
    then obtain c' where "op_changeState ops ns (update act) False r (fc_cache fc) = Inr c'" "ok c'" "st c' = set_state k a ns (st (fc_cache fc))"
      using change [OF c(1,2) _ mesi_saveable [OF c(3)]] by blast
    then show ?thesis using ne False g \<open>?s \<noteq> kInvalid\<close> c(4) by (auto simp: update_cache_def on_cache_def set_state_def)
  qed
qed

lemma request_response_ok:
  assumes d: "dok d" "points d p a" "i < MAX_NUM_SHARERS"
    and t: "t \<in> {ReadReq, FetchReq, WriteReq, UpgradeReq, NonAllocatingStoreReq, EvictClean, EvictWritable, EvictDirty}"
    and r: "answerable t reply" "reply_pre t reply i (sh d a)"
  shows "\<exists>d'. processRequestResponse dops i t reply p a d = Inr d' \<and> dok d' \<and> sh d' = (sh d)(a := reply_sharers t reply i (sh d a))"
proof (cases "isEvictType t")
  case True
  then have t': "t \<in> {EvictClean, EvictWritable, EvictDirty}" using t by (auto simp: isEvictType_def)
  obtain d1 where "op_removeSharer dops i p a d = Inr d1" "dok d1" "points d1 p a" "sh d1 = (sh d)(a := sh d a - {i})"
    using dremove [OF d] by blast
  moreover obtain d2 where "op_erase_unshared dops t p a d1 = Inr d2" "dok d2" "sh d2 = sh d1"
    using derase calculation by blast
  ultimately show ?thesis using t' by (auto simp: processRequestResponse_def reply_sharers_def)
next
  case False
  then have t': "t \<in> {ReadReq, FetchReq, WriteReq, UpgradeReq, NonAllocatingStoreReq}" using t by (auto simp: isEvictType_def)
  consider "t = UpgradeReq" | "t = NonAllocatingStoreReq" | "reply = MissReply" "t \<in> {ReadReq, FetchReq, WriteReq}"
    | "reply \<in> {MissReplyWritable, MissReplyDirty}" "t \<in> {ReadReq, WriteReq}"
    using t' r(1) by (auto simp: answerable_def)
  then show ?thesis
  proof cases
    case 1
    then have s: "sh d a = {i}" using r(2) by (simp add: reply_pre_def)
    then have "(sh d)(a := {i}) = sh d" by (simp add: fun_upd_idem)
    then show ?thesis using dmake [OF d s] 1 r(1) s
      by (auto simp: processRequestResponse_def dkeep isEvictType_def reply_sharers_def answerable_def)
  next
    case 2
    then show ?thesis using d(1) r(1) by (auto simp: processRequestResponse_def dkeep isEvictType_def reply_sharers_def answerable_def)
  next
    case 3
    then show ?thesis using dadd [OF d] by (auto simp: processRequestResponse_def dkeep isEvictType_def reply_sharers_def)
  next
    case 4
    then have s: "sh d a \<subseteq> {i}" using r(2) by (auto simp: reply_pre_def)
    then have ins: "insert i (sh d a) = {i}" by auto
    show ?thesis using dadd_excl [OF d s] 4 by (auto simp: ins processRequestResponse_def dkeep isEvictType_def reply_sharers_def)
  qed
qed

end

lemma classify_ok:
  assumes "asks t x" "act_shape t s act" "snoop_type act = NoRequest \<longrightarrow> \<not> succ"
  shows "\<exists>kind. classify_request (\<not> succ \<and> forward_request act) succ t = Inr kind"
  using assms(2,3) assms(1) [unfolded asks_def] by (auto simp: classify_request_def act_shape_def)

lemma set_state_at: "block_of k a = a \<Longrightarrow> set_state k a s f a = s" "block_of k x \<noteq> block_of k a \<Longrightarrow> set_state k a s f x = f x"
  by (simp_all add: set_state_def)

context shared_cache
begin

lemma processRequest_ok:
  assumes c: "ok (fc_cache fc)" "dok d" "eok e" "i < n" "block_of k (theAddress msg) = a"
    and q: "asks (theType msg) (ls e i a)" "block_ok n (\<lambda>j. ls e j a) (st (fc_cache fc) a) (sh d a)"
  shows "\<exists>m fc' d' e'. processRequest ops dops chs cfg i msg (fc, d, e) = Inr (m, fc', d', e') \<and>
    ok (fc_cache fc') \<and> dok d' \<and> eok e' \<and> answerable (theType msg) (theType m) \<and> ls e' i = ls e i \<and> l1 e' i = l1 e i \<and>
    (\<forall>j x. block_of k x \<noteq> a \<longrightarrow> ls e' j x = ls e j x) \<and> (\<forall>x. x \<noteq> a \<longrightarrow> sh d' x = sh d x) \<and>
    (\<forall>x. block_of k x \<noteq> a \<longrightarrow> st (fc_cache fc') x \<in> {st (fc_cache fc) x, kInvalid}) \<and>
    (\<forall>g. granted (theType msg) (theType m) g \<longrightarrow>
       block_ok n ((\<lambda>j. ls e' j a)(i := g)) (st (fc_cache fc') a) (sh d' a))"
proof -
  let ?t = "theType msg" and ?s = "st (fc_cache fc) a" and ?l = "\<lambda>j. ls e j a"
  have a: "theAddress msg AND theCoherenceUnitMask cfg = a" "block_of k a = a"
    using c(5) unit [OF c(3)] by (auto simp: block_of_def ac_simps)
  have sv: "sh d a \<subseteq> {..<n}" "\<forall>j < n. mesi (ls e j a)" using q(2) by (auto simp: block_ok_def)
  have iM: "i < MAX_NUM_SHARERS" using c(4) width [OF c(3)] by simp
  obtain p where p: "op_dlookup dops i a ?t d = Inr (d, sh d a, sharing_state (sh d a), p, [])" "points d p a"
    using dlookup [OF c(2)] by blast
  obtain c1 r where l: "op_lookup ops a (fc_cache fc) = Inr (c1, r)" "ok c1" "st c1 = st (fc_cache fc)" "at c1 r a"
    using lookup [OF c(1)] by blast
  have g: "op_getState ops r c1 = Inr ?s" using getState [OF l(2,4)] l(3) by simp
  obtain act where act: "getAction ?s (sharing_state (sh d a)) ?t = Inr act" "act_ok n i ?t ?l ?s (sh d a) act"
    using table_ok [OF q(2) c(4) q(1)] by blast
  have shape: "act_shape ?t ?s act" using act(2) by (simp add: act_ok_def)
  obtain ss succ d1 e1 P where sn: "perform_snoops dops chs cfg act i p a (sh d a) msg (fc\<lparr>fc_cache := c1\<rparr>, d, e) =
      Inr (ss, succ, fc\<lparr>fc_cache := c1\<rparr>, d1, e1)" "eok e1" "dok d1" "points d1 p a"
    "snoop_choice act i ?l (sh d a) P (ss_use_ns1 ss)" "ss_our_response ss = pick (ss_use_ns1 ss) (response act)"
    "snoop_type act = NoRequest \<longrightarrow> \<not> succ"
    "ls e1 = (\<lambda>j. if j \<in> P then set_state k a (snd (mesi_snoop (snoop_type act) (ls e j a))) (ls e j) else ls e j)"
    "sh d1 = (sh d)(a := snooped_sharers (snoop_type act) P ?l (sh d a))" "l1 e1 i = l1 e i"
    using perform_snoops_ok [OF c(3,2) p(2) c(5) sv shape] by blast
  let ?reply = "pick (ss_use_ns1 ss) (response act)" and ?ns = "pick (ss_use_ns1 ss) (next_state act)"
  let ?sv1 = "snooped_sharers (snoop_type act) P ?l (sh d a)"
  have ok: "answerable ?t ?reply" "reply_pre ?t ?reply i ?sv1"
    "\<And>g. granted ?t ?reply g \<Longrightarrow> block_ok n ((snooped_states (snoop_type act) P ?l)(i := g)) ?ns (reply_sharers ?t ?reply i ?sv1)"
    using act(2) sn(5) unfolding act_ok_def Let_def by blast+
  let ?acc = "\<not> succ \<and> forward_request act"
  have "\<exists>m e2. (if ?acc then cmp_RequestOut chs msg (fc\<lparr>fc_cache := c1\<rparr>, d1, e1) else Inr (msg, fc\<lparr>fc_cache := c1\<rparr>, d1, e1)) =
      Inr (m, fc\<lparr>fc_cache := c1\<rparr>, d1, e2) \<and> eok e2 \<and> ls e2 = ls e1 \<and> l1 e2 = l1 e1"
  proof (cases ?acc)
    case True
    then have "?t \<in> {ReadReq, FetchReq, WriteReq, NonAllocatingStoreReq}" using shape by (simp add: act_shape_def)
    then have "?t \<in> {ReadReq, FetchReq, WriteReq, NonAllocatingStoreReq, EvictDirty, EvictClean}" by blast
    from memory [OF sn(2) this] show ?thesis using True by simp
  qed (use sn(2) in auto)
  then obtain m e2 where mem: "(if ?acc then cmp_RequestOut chs msg (fc\<lparr>fc_cache := c1\<rparr>, d1, e1) else Inr (msg, fc\<lparr>fc_cache := c1\<rparr>, d1, e1)) =
      Inr (m, fc\<lparr>fc_cache := c1\<rparr>, d1, e2)" "eok e2" "ls e2 = ls e1" "l1 e2 = l1 e1" by blast
  have tt: "?t \<in> {ReadReq, FetchReq, WriteReq, UpgradeReq, NonAllocatingStoreReq, EvictClean, EvictWritable, EvictDirty}"
    using q(1) by (auto simp: asks_def)
  obtain d2 where d2: "processRequestResponse dops i ?t ?reply p a d1 = Inr d2" "dok d2"
    "sh d2 = (sh d1)(a := reply_sharers ?t ?reply i ?sv1)"
    using request_response_ok [OF sn(3,4) iM tt ok(1)] ok(2) sn(9) by auto
  have ns: "mesi ?ns" "\<not> allocate act \<longrightarrow> ?s = kInvalid \<longrightarrow> ?ns = kInvalid" using shape by (auto simp: act_shape_def pick_def)
  obtain fc' e3 where u: "update_cache ops chs act ?ns r (fc\<lparr>fc_cache := c1\<rparr>, d2, e2) = Inr (fc', d2, e3)" "ok (fc_cache fc')" "eok e3" "ls e3 = ls e2"
    "st (fc_cache fc') a = ?ns" "\<forall>x. block_of k x \<noteq> block_of k a \<longrightarrow> st (fc_cache fc') x \<in> {st c1 x, kInvalid}"
    "l1 e3 = l1 e2"
    using update_cache_ok [of "fc\<lparr>fc_cache := c1\<rparr>" r a ?ns e2 act d2] l(2-4) ns mem(2) by auto
  obtain kind where kind: "classify_request ?acc succ ?t = Inr kind" using classify_ok [OF q(1) shape sn(7)] by blast
  let ?w = "(if kind = [] then id else cmp_count kind) (cmp_count (stat act) (fc', d2, e3))"
  have run: "processRequest ops dops chs cfg i msg (fc, d, e) = Inr (m\<lparr>theType := ?reply\<rparr>, ?w)"
    using mem(1) kind u(1)
    by (simp add: processRequest_def a(1) p(1) l(1) g act(1) sn(1,6) on_dir_def d2(1) [unfolded pick_def] pick_def Let_def del: rbind_eq_Inr
        split del: if_split cong: if_cong)
  obtain fc'' where w: "?w = (fc'', d2, e3)" "fc_cache fc'' = fc_cache fc'" by (cases "kind = []") (auto simp: cmp_count_def)
  have i: "i \<notin> P" using sn(5) by (auto simp: snoop_choice_def)
  have "(\<lambda>j. ls e3 j a) = snooped_states (snoop_type act) P ?l"
    using a(2) by (simp add: u(4) mem(3) sn(8) snooped_states_def set_state_def fun_eq_iff)
  then have b: "granted ?t ?reply g \<Longrightarrow> block_ok n ((\<lambda>j. ls e3 j a)(i := g)) (st (fc_cache fc'') a) (sh d2 a)" for g
    using ok(3) [of g] w(2) u(5) d2(3) by simp
  have "\<forall>j x. block_of k x \<noteq> a \<longrightarrow> ls e3 j x = ls e j x"
    using a(2) by (simp add: u(4) mem(3) sn(8) set_state_def)
  moreover have "\<forall>x. block_of k x \<noteq> a \<longrightarrow> st (fc_cache fc'') x \<in> {st (fc_cache fc) x, kInvalid}"
    using u(6) w(2) l(3) a(2) by simp
  moreover have "l1 e3 i = l1 e i" using u(7) mem(4) sn(10) by simp
  ultimately show ?thesis using run w u(2,3,4) d2(2,3) ok(1) b i sn(9)
    by (intro exI [of _ "m\<lparr>theType := ?reply\<rparr>"] exI [of _ fc''] exI [of _ d2] exI [of _ e3]) (simp add: mem(3) sn(8))
qed

end

section \<open>Accesses of devices\<close>

definition device_sharers :: "MemoryMessageType \<Rightarrow> nat set \<Rightarrow> nat set \<Rightarrow> nat set" where
  "device_sharers t P sv = (if t = Invalidate then sv - P else sv)"

lemma device_none [simp]: "device_sharers t {} sv = sv" "snooped_states t {} l = l"
  by (simp_all add: device_sharers_def snooped_states_def)

lemma device_block_ok:
  assumes b: "block_ok n l s sv" and t: "t = Invalidate \<or> t = Downgrade"
    and P: "P = sv \<or> P = {} \<and> (t = Downgrade \<and> no_writer n l \<or> sv = {})"
    and s': "s' = (if t = Downgrade then if s = kModified then kExclusive else s else kInvalid)"
  shows "block_ok n (snooped_states t P l) s' (device_sharers t P sv)"
proof -
  have c: "covered n l sv" using block_ok_covered [OF b] .
  have "covered n (snooped_states t P l) (device_sharers t P sv)"
    using c t P by (auto simp: covered_def snooped_states_def device_sharers_def mesi_snoop_def mesi_def)
  moreover have "no_writer n (snooped_states t P l)"
    using P
  proof
    assume "P = sv"
    then show ?thesis using c t by (auto simp: no_writer_def snooped_states_def covered_def mesi_snoop_def excl_def)
  next
    assume "P = {} \<and> (t = Downgrade \<and> no_writer n l \<or> sv = {})"
    then show ?thesis using quiet(3) [OF b] by (auto simp: no_writer_def snooped_states_def)
  qed
  moreover have "mesi s'" using b s' by (auto simp: block_ok_def)
  ultimately show ?thesis by (rule block_ok_quiet)
qed

context shared_cache
begin

lemma snoop_sharers_ok:
  assumes "eok e" "dok d" "points d p a" "block_of k (theAddress msg) = a" "set is \<subseteq> {..<n}" "distinct is"
    "\<forall>j < n. mesi (ls e j a)" "t = Invalidate \<or> t = Downgrade"
  shows "\<exists>d' e'. snoop_sharers dops chs cfg p a t is msg (fc, d, e) = Inr (fc, d', e') \<and> eok e' \<and> dok d' \<and>
    ls e' = (\<lambda>j. if j \<in> set is then set_state k a (snd (mesi_snoop t (ls e j a))) (ls e j) else ls e j) \<and>
    sh d' = (sh d)(a := device_sharers t (set is) (sh d a))"
  using assms(1-7)
proof (induction "is" arbitrary: msg d e)
  case Nil
  then show ?case by (intro exI [of _ d] exI [of _ e]) simp
next
  case (Cons j js)
  let ?msg = "msg\<lparr>theType := t\<rparr>" and ?r = "mesi_snoop t (ls e j a)"
  have j: "j < n" "mesi (ls e j a)" "j < MAX_NUM_SHARERS" using Cons.prems(5,7) width [OF Cons.prems(1)] by auto
  obtain m e1 where sn: "snoop_cache chs cfg j ?msg (fc, d, e) = Inr (m, fc, d, e1)" "eok e1"
    "theAddress m = theAddress msg" "theType m = fst ?r" "ls e1 = (ls e)(j := set_state k a (snd ?r) (ls e j))"
    using snooped [OF Cons.prems(1) j(1), of ?msg a fc d] assms(8) Cons.prems(4) j(2) by auto
  obtain d1 where d1: "processSnoopResponse dops j (fst ?r) p a d = Inr d1" "dok d1" "points d1 p a"
    "sh d1 = (sh d)(a := if snd ?r = kInvalid \<and> t \<noteq> Downgrade then sh d a - {j} else sh d a)"
    using snoop_response_ok [OF Cons.prems(2,3) j(3) _ j(2), of t] assms(8) by auto
  have js: "j \<notin> set js" using Cons.prems(6) by simp
  have m1: "\<forall>l < n. mesi (ls e1 l a)"
    using Cons.prems(7) sn(5) assms(8) by (auto simp: set_state_def mesi_snoop_def mesi_def)
  have ih: "set js \<subseteq> {..<n}" "distinct js" "block_of k (theAddress m) = a" using Cons.prems(4-6) sn(3) by auto
  obtain d' e' where tl: "snoop_sharers dops chs cfg p a t js m (fc, d1, e1) = Inr (fc, d', e')" "eok e'" "dok d'"
    "ls e' = (\<lambda>l. if l \<in> set js then set_state k a (snd (mesi_snoop t (ls e1 l a))) (ls e1 l) else ls e1 l)"
    "sh d' = (sh d1)(a := device_sharers t (set js) (sh d1 a))"
    using Cons.IH [OF sn(2) d1(2,3) ih(3,1,2) m1] by blast
  have "ls e' = (\<lambda>l. if l \<in> set (j # js) then set_state k a (snd (mesi_snoop t (ls e l a))) (ls e l) else ls e l)"
  proof
    fix l
    show "ls e' l = (if l \<in> set (j # js) then set_state k a (snd (mesi_snoop t (ls e l a))) (ls e l) else ls e l)"
      using tl(4) js sn(5) by auto
  qed
  moreover have "sh d' = (sh d)(a := device_sharers t (set (j # js)) (sh d a))"
    using tl(5) d1(4) assms(8) by (auto simp: fun_eq_iff device_sharers_def mesi_snoop_def)
  moreover have "snoop_sharers dops chs cfg p a t (j # js) msg (fc, d, e) = Inr (fc, d', e')"
    by (simp add: sn(1,4) on_dir_def d1(1) tl(1) del: rbind_eq_Inr)
  ultimately show ?case using tl(2,3) by blast
qed

lemma snoopIn_ok:
  assumes c: "ok (fc_cache fc)" "dok d" "eok e" "block_of k (theAddress msg) = a" "theType msg = Invalidate \<or> theType msg = Downgrade"
    and b: "block_ok n (\<lambda>j. ls e j a) (st (fc_cache fc) a) (sh d a)"
  shows "\<exists>m fc' d' e'. cmp_push_SnoopIn ops dops chs cfg msg (fc, d, e) = Inr (m, fc', d', e') \<and>
    ok (fc_cache fc') \<and> dok d' \<and> eok e' \<and>
    (\<forall>j x. block_of k x \<noteq> a \<longrightarrow> ls e' j x = ls e j x) \<and> (\<forall>x. x \<noteq> a \<longrightarrow> sh d' x = sh d x) \<and>
    (\<forall>x. block_of k x \<noteq> a \<longrightarrow> st (fc_cache fc') x = st (fc_cache fc) x) \<and>
    block_ok n (\<lambda>j. ls e' j a) (st (fc_cache fc') a) (sh d' a)"
proof -
  let ?t = "theType msg" and ?s = "st (fc_cache fc) a" and ?sv = "sh d a" and ?l = "\<lambda>j. ls e j a"
  let ?s' = "if ?t = Downgrade then if ?s = kModified then kExclusive else ?s else kInvalid"
  have a: "theAddress msg AND theCoherenceUnitMask cfg = a" "block_of k a = a"
    using c(4) unit [OF c(3)] by (auto simp: block_of_def ac_simps)
  have sv: "?sv \<subseteq> {..<n}" "\<forall>j < n. mesi (ls e j a)" "?sv \<subseteq> {..<MAX_NUM_SHARERS}"
    using b dbound [OF c(2)] by (auto simp: block_ok_def)
  obtain p v where p: "op_snoopLookup dops a d = Inr (?sv, sharing_state ?sv, p, v)" "points d p a" "\<not> v \<longrightarrow> ?sv = {}"
    using dsnoop [OF c(2)] by blast
  obtain c1 r where l: "op_lookup ops a (fc_cache fc) = Inr (c1, r)" "ok c1" "st c1 = st (fc_cache fc)" "at c1 r a"
    using lookup [OF c(1)] by blast
  have g: "op_getState ops r c1 = Inr ?s" using getState [OF l(2,4)] l(3) by simp
  have "set_state k a ?s (st (fc_cache fc)) = st (fc_cache fc)"
    using blocks [OF c(1)] unfolding block_state_fun_def by (intro set_state_same) metis
  then have "\<exists>c2. (if ?t = Downgrade then
              (if ?s = kModified then on_cache (op_changeState ops kExclusive False False r) (fc\<lparr>fc_cache := c1\<rparr>, d, e)
               else Inr (fc\<lparr>fc_cache := c1\<rparr>, d, e))
            else dbg_assert (?t = Invalidate)
              (if ?s \<noteq> kInvalid then on_cache (op_changeState ops kInvalid False False r) (fc\<lparr>fc_cache := c1\<rparr>, d, e)
               else Inr (fc\<lparr>fc_cache := c1\<rparr>, d, e))) = Inr (fc\<lparr>fc_cache := c2\<rparr>, d, e) \<and> ok c2 \<and> st c2 = set_state k a ?s' (st (fc_cache fc))"
    using change [OF l(2,4), of kExclusive False False] change [OF l(2,4), of kInvalid False False] l(2,3) c(5)
    by (auto simp: on_cache_def)
  then obtain c2 where c2: "(if ?t = Downgrade then
              (if ?s = kModified then on_cache (op_changeState ops kExclusive False False r) (fc\<lparr>fc_cache := c1\<rparr>, d, e)
               else Inr (fc\<lparr>fc_cache := c1\<rparr>, d, e))
            else dbg_assert (?t = Invalidate)
              (if ?s \<noteq> kInvalid then on_cache (op_changeState ops kInvalid False False r) (fc\<lparr>fc_cache := c1\<rparr>, d, e)
               else Inr (fc\<lparr>fc_cache := c1\<rparr>, d, e))) = Inr (fc\<lparr>fc_cache := c2\<rparr>, d, e)" "ok c2" "st c2 = set_state k a ?s' (st (fc_cache fc))"
    by blast
  let ?fc = "fc\<lparr>fc_cache := c2\<rparr>"
  have start: "cmp_push_SnoopIn ops dops chs cfg msg (fc, d, e) =
      (if ?t = Downgrade \<and> countSharers ?sv > 1 \<or> \<not> v then Inr (msg, ?fc, d, e)
       else rbind (snoop_sharers dops chs cfg p a ?t (toList ?sv) (fst (MemoryMessage_copy msg (fst (cmp_next_serial chs e) - 1)))
              (?fc, d, snd (cmp_next_serial chs e))) (\<lambda>w. Inr (msg, w)))"
    using c2(1) by (simp add: cmp_push_SnoopIn_def a(1) p(1) l(1) g Let_def case_prod_unfold del: rbind_eq_Inr split del: if_split cong: if_cong)
  have st': "st (fc_cache ?fc) a = ?s'" "\<forall>x. block_of k x \<noteq> a \<longrightarrow> st (fc_cache ?fc) x = st (fc_cache fc) x"
    using c2(3) a(2) by (simp_all add: set_state_def)
  show ?thesis
  proof (cases "?t = Downgrade \<and> countSharers ?sv > 1 \<or> \<not> v")
    case True
    have "?t = Downgrade \<and> no_writer n ?l \<or> ?sv = {}"
    proof (cases v)
      case True
      then have "?t = Downgrade" "countSharers ?sv > 1" using \<open>?t = Downgrade \<and> countSharers ?sv > 1 \<or> \<not> v\<close> by auto
      moreover have "\<not> ?sv \<subseteq> {j}" for j using card_mono [of "{j}" ?sv] calculation(2) by (auto simp: countSharers_def)
      ultimately show ?thesis using quiet(1) [OF b] by blast
    qed (use p(3) in blast)
    from device_block_ok [OF b c(5) _ refl, of "{}"] this have "block_ok n ?l ?s' ?sv"
      by (simp split del: if_split)
    then show ?thesis using start True c2(2) c(2,3) st' by (simp split del: if_split)
  next
    case False
    note ser = serial [OF c(3)]
    obtain d' e' where sn: "snoop_sharers dops chs cfg p a ?t (toList ?sv) (fst (MemoryMessage_copy msg (fst (cmp_next_serial chs e) - 1)))
          (?fc, d, snd (cmp_next_serial chs e)) = Inr (?fc, d', e')" "eok e'" "dok d'"
      "ls e' = (\<lambda>j. if j \<in> ?sv then set_state k a (snd (mesi_snoop ?t (ls e j a))) (ls e j) else ls e j)"
      "sh d' = (sh d)(a := device_sharers ?t ?sv ?sv)"
      using snoop_sharers_ok [OF conjunct1 [OF ser] c(2) p(2) _ _ distinct_toList [of ?sv] _ c(5),
          where msg = "fst (MemoryMessage_copy msg (fst (cmp_next_serial chs e) - 1))" and fc = ?fc,
          unfolded conjunct1 [OF conjunct2 [OF ser]] set_toList [OF sv(3)] MemoryMessage_copy_fields, OF c(4) sv(1,2)]
      by blast
    have "block_ok n (snooped_states ?t ?sv ?l) ?s' (device_sharers ?t ?sv ?sv)"
      by (rule device_block_ok [OF b c(5) _ refl]) simp
    moreover have "(\<lambda>j. ls e' j a) = snooped_states ?t ?sv ?l"
      using a(2) by (simp add: sn(4) snooped_states_def set_state_def fun_eq_iff)
    moreover have "\<forall>j x. block_of k x \<noteq> a \<longrightarrow> ls e' j x = ls e j x" using a(2) by (simp add: sn(4) set_state_def)
    moreover have "cmp_push_SnoopIn ops dops chs cfg msg (fc, d, e) = Inr (msg, ?fc, d', e')"
      unfolding start if_not_P [OF False] sn(1) by simp
    ultimately show ?thesis using sn(2,3,5) c2(2) st'
      by (intro exI [of _ msg] exI [of _ ?fc] exI [of _ d'] exI [of _ e']) (simp split del: if_split)
  qed
qed

end

end
