(* ===== verification/Fast_System.thy ===== *)
theory Fast_System
  imports Cmp_Shared
begin

text \<open>
  The trace simulator \<open>simulators/UP.Trace/wiring.cpp\<close>: a data and an instruction cache
  (\<open>FastCache\<close>) for every core, the shared cache (\<open>FastCMPCache\<close>) with its directory, and
  the memory (\<open>FastMemoryLoopback\<close>), wired as the file says. The feeder that replays the
  accesses of the simulated processors and devices is outside: an execution is a list of
  accesses. The caches are created as \<open>initialize\<close> of the two components does, over the
  standard tag array, with the infinite directory.

  The last section says what the shared cache finds around it in this system: the first level
  caches answer its snoops as MESI asks and the memory answers its requests.
\<close>

section \<open>Components\<close>

record fc_params =
  p_Size :: nat
  p_Associativity :: nat
  p_BlockSize :: nat
  p_CleanEvictions :: bool
  p_Protocol :: protocol
  p_UsingTraces :: bool
  p_TextFlexpoints :: bool
  p_DowngradeLRU :: bool
  p_SnoopLRU :: bool

definition init_array :: "nat \<Rightarrow> nat \<Rightarrow> nat \<Rightarrow> bool \<Rightarrow> StdCache result" where
  "init_array asize bsize assoc text =
     dbg_assert (power_of_two bsize) (dbg_assert (bsize \<ge> 4)
     (let num_sets = asize div bsize div assoc in
      dbg_assert (power_of_two num_sets) (dbg_assert (bsize * num_sets * assoc = asize)
        (StdCache_new bsize num_sets assoc text))))"

definition FastCache_initialize :: "fc_params \<Rightarrow> (fc_config \<times> (nat \<Rightarrow> StdCache FastCache)) result" where
  "FastCache_initialize p =
     rbind (init_array (p_Size p) (p_BlockSize p) (p_Associativity p) (p_TextFlexpoints p)) (\<lambda>c.
       Inr (\<lparr>Protocol = p_Protocol p, UsingTraces = p_UsingTraces p, DowngradeLRU = p_DowngradeLRU p,
             SnoopLRU = p_SnoopLRU p, CleanEvictions = p_CleanEvictions p,
             theBlockMask = NOT (of_nat (p_BlockSize p - 1))\<rparr>,
            \<lambda>index. \<lparr>fc_cache = c, theStats = (\<lambda>_. 0),
              theEvictMessage = (fst (MemoryMessage_new EvictDirty 0 0 0 0))\<lparr>theCoreIdx := of_nat index\<rparr>,
              theInvalidateMessage = fst (MemoryMessage_new Invalidate 0 0 0 0)\<rparr>))"

record cmp_params =
  p_CMPWidth :: nat
  p_cmp_Size :: nat
  p_cmp_Associativity :: nat
  p_cmp_BlockSize :: nat
  p_AlwaysMulticast :: bool
  p_SeparateID :: bool
  p_CoherenceUnit :: nat

definition FastCMPCache_initialize :: "nat \<Rightarrow> cmp_params \<Rightarrow> (cmp_config \<times> StdCache FastCache \<times> inf_directory) result" where
  "FastCMPCache_initialize systemWidth p =
     (let width = if p_CMPWidth p \<noteq> 0 then p_CMPWidth p else systemWidth in
      dbg_assert (width \<le> MAX_NUM_SHARERS)
     (rbind (init_array (p_cmp_Size p) (p_cmp_BlockSize p) (p_cmp_Associativity p) False) (\<lambda>c.
       Inr (\<lparr>SeparateID = p_SeparateID p, AlwaysMulticast = p_AlwaysMulticast p,
             theCoherenceUnitMask = NOT (of_nat (p_CoherenceUnit p - 1)), theCMPWidth = width\<rparr>,
            \<lparr>fc_cache = c, theStats = (\<lambda>_. 0), theEvictMessage = fst (MemoryMessage_new EvictDirty 0 0 0 0),
             theInvalidateMessage = fst (MemoryMessage_new Invalidate 0 0 0 0)\<rparr>, Map.empty))))"

section \<open>Wiring\<close>

text \<open>
  What lies around the shared cache: the first level caches, data caches at the even indices and
  instruction caches at the odd ones, the counter that numbers messages and the statistics of the memory.
\<close>

record env =
  l1s :: "nat \<Rightarrow> StdCache FastCache"
  message_counter :: u32
  memory_stats :: "string \<Rightarrow> int"

record system =
  theL1DCfg :: fc_config
  theL1ICfg :: fc_config
  theL2Cfg :: cmp_config
  cores :: nat

type_synonym sys_state = "StdCache FastCache \<times> inf_directory \<times> env"

definition l1_cfg :: "system \<Rightarrow> nat \<Rightarrow> fc_config" where
  "l1_cfg C j = (if even j then theL1DCfg C else theL1ICfg C)"

definition env_serial :: "env \<Rightarrow> u32 \<times> env" where
  "env_serial e = (let (serial, counter) = memoryMessageSerial (message_counter e) in
     (serial, e\<lparr>message_counter := counter\<rparr>))"

text \<open>
  The wiring of the framework (\<open>core/component.hpp\<close>, \<open>core/component_interface.hpp\<close>,
  \<open>core/aux_/wiring/channels.hpp\<close>). An output port that is an array asserts its index to be
  below its width. A push into an input port that is an array finds the instance of the
  component and the index of the port by division with that width, which is an \<open>int32_t\<close>. Every
  access to an instance of a component asserts its index to be below the number of instances.
\<close>

definition instance_at :: "nat \<Rightarrow> nat \<Rightarrow> 'a result \<Rightarrow> 'a result" where
  "instance_at theWidth anIndex k = dbg_assert (anIndex < theWidth) k"

definition get_channel_array :: "nat \<Rightarrow> nat \<Rightarrow> 'a result \<Rightarrow> 'a result" where
  "get_channel_array aPortWidth aPortIndex k = dbg_assert (aPortIndex < aPortWidth) k"

definition resolve_array_channel :: "nat \<Rightarrow> nat \<Rightarrow> nat \<Rightarrow> (nat \<Rightarrow> 'a result) \<Rightarrow> 'a result" where
  "resolve_array_channel instances width anIndex push =
     (if width = 0 then Inl DivTrap
      else instance_at instances (anIndex div width) (push (anIndex mod width)))"

lemma instance_at_lt [simp]: "i < w \<Longrightarrow> instance_at w i k = k"
  by (simp add: instance_at_def)

lemma get_channel_array_lt [simp]: "i < w \<Longrightarrow> get_channel_array w i k = k"
  by (simp add: get_channel_array_def)

lemma resolve_array_channel_lt [simp]: "i < w \<Longrightarrow> resolve_array_channel (Suc n) w i push = push i"
  by (simp add: resolve_array_channel_def)

text \<open>Pushing into a port that is not wired does nothing.\<close>

definition unwired :: "('c, 'e) port" where
  "unwired m w = Inr (m, w)"

text \<open>
  The first level caches take snoops from the shared cache. The handler of a snoop has no use
  for \<open>RequestOut\<close>; here the port fails.
\<close>

definition snoop_channels :: "(StdCache, env) channels" where
  "snoop_channels = \<lparr>RequestOut = (\<lambda>m w. Inl AssertFailed), SnoopOutI = unwired, SnoopOutD = unwired,
     next_serial = env_serial\<rparr>"

definition l1_SnoopIn :: "system \<Rightarrow> nat \<Rightarrow> (StdCache, inf_directory, env) cmp_port" where
  "l1_SnoopIn C j msg = (\<lambda>(l2, d, e).
     rbind (push_SnoopIn StdCache_ops snoop_channels (l1_cfg C j) msg (l1s e j, e)) (\<lambda>(m, fc, e).
       Inr (m, l2, d, e\<lparr>l1s := (l1s e)(j := fc)\<rparr>)))"

definition l2_channels :: "system \<Rightarrow> (StdCache, inf_directory, env) cmp_channels" where
  "l2_channels C = \<lparr>
     cmp_RequestOut = (\<lambda>msg (l2, d, e). rbind (memory_FromCache msg (memory_stats e)) (\<lambda>(m, stats).
       Inr (m, l2, d, e\<lparr>memory_stats := stats\<rparr>))),
     cmp_SnoopOutI = (\<lambda>core msg w. get_channel_array (theCMPWidth (theL2Cfg C)) core
       (instance_at (cores C) core (l1_SnoopIn C (2 * core + 1) msg w))),
     cmp_SnoopOutD = (\<lambda>core msg w. get_channel_array (theCMPWidth (theL2Cfg C)) core
       (instance_at (cores C) core (l1_SnoopIn C (2 * core) msg w))),
     cmp_next_serial = env_serial\<rparr>"

definition l1_RequestOut :: "system \<Rightarrow> nat \<Rightarrow> (StdCache, sys_state) port" where
  "l1_RequestOut C j msg = (\<lambda>(fc, l2, d, e).
     rbind (resolve_array_channel 1 (theCMPWidth (theL2Cfg C)) (j div 2) (\<lambda>index.
              (if even j then cmp_push_RequestIn else cmp_push_FetchRequestIn)
                StdCache_ops InfiniteDirectory (l2_channels C) (theL2Cfg C) index msg
                (l2, d, e\<lparr>l1s := (l1s e)(j := fc)\<rparr>))) (\<lambda>(m, l2, d, e).
       Inr (m, l1s e j, l2, d, e)))"

definition l1_channels :: "system \<Rightarrow> nat \<Rightarrow> (StdCache, sys_state) channels" where
  "l1_channels C j = \<lparr>RequestOut = l1_RequestOut C j, SnoopOutI = unwired, SnoopOutD = unwired,
     next_serial = (\<lambda>(l2, d, e). let (serial, e) = env_serial e in (serial, l2, d, e))\<rparr>"

section \<open>Executions\<close>

datatype access = ToL1D nat MemoryMessage | ToL1I nat MemoryMessage | ToDMA MemoryMessage

definition l1_push :: "system \<Rightarrow> nat \<Rightarrow> MemoryMessage \<Rightarrow> sys_state \<Rightarrow> sys_state result" where
  "l1_push C j msg = (\<lambda>(l2, d, e).
     rbind ((if even j then push_RequestIn else push_FetchRequestIn)
              StdCache_ops (l1_channels C j) (l1_cfg C j) msg (l1s e j, l2, d, e)) (\<lambda>(m, fc, l2, d, e).
       Inr (l2, d, e\<lparr>l1s := (l1s e)(j := fc)\<rparr>)))"

fun sys_access :: "system \<Rightarrow> access \<Rightarrow> sys_state \<Rightarrow> sys_state result" where
  "sys_access C (ToL1D core msg) s = instance_at (cores C) core (l1_push C (2 * core) msg s)"
| "sys_access C (ToL1I core msg) s = instance_at (cores C) core (l1_push C (2 * core + 1) msg s)"
| "sys_access C (ToDMA msg) s =
     rbind (memory_DMA (cmp_push_SnoopIn StdCache_ops InfiniteDirectory (l2_channels C) (theL2Cfg C)) msg s) (\<lambda>(m, s). Inr s)"

fun sys_run :: "system \<Rightarrow> access list \<Rightarrow> sys_state \<Rightarrow> sys_state result" where
  "sys_run C [] s = Inr s"
| "sys_run C (x # xs) s = rbind (sys_access C x s) (sys_run C xs)"

definition sys_initialize :: "nat \<Rightarrow> fc_params \<Rightarrow> fc_params \<Rightarrow> cmp_params \<Rightarrow> (system \<times> sys_state) result" where
  "sys_initialize systemWidth l1d l1i l2 =
     rbind (FastCache_initialize l1d) (\<lambda>(dcfg, dc).
     rbind (FastCache_initialize l1i) (\<lambda>(icfg, ic).
     rbind (FastCMPCache_initialize systemWidth l2) (\<lambda>(cfg, fc, d).
       Inr (\<lparr>theL1DCfg = dcfg, theL1ICfg = icfg, theL2Cfg = cfg, cores = systemWidth\<rparr>, fc, d,
            \<lparr>l1s = (\<lambda>j. if even j then dc (j div 2) else ic (j div 2)), message_counter = 0, memory_stats = (\<lambda>_. 0)\<rparr>))))"

section \<open>The shared cache in this system\<close>

definition config_ok :: "nat \<Rightarrow> system \<Rightarrow> bool" where
  "config_ok k C \<longleftrightarrow> (\<forall>j. Protocol (l1_cfg C j) = InclusiveMESI \<and> theBlockMask (l1_cfg C j) = NOT (mask k)) \<and>
     SeparateID (theL2Cfg C) \<and> theCoherenceUnitMask (theL2Cfg C) = NOT (mask k) \<and> 2 * cores C \<le> MAX_NUM_SHARERS \<and>
     cores C \<le> theCMPWidth (theL2Cfg C)"

definition env_ok :: "nat \<Rightarrow> system \<Rightarrow> env \<Rightarrow> bool" where
  "env_ok k C e \<longleftrightarrow> config_ok k C \<and> (\<forall>j < 2 * cores C. array_inv k (fc_cache (l1s e j)))"

definition env_states :: "env \<Rightarrow> nat \<Rightarrow> u64 \<Rightarrow> CoherenceState_t" where
  "env_states e j = state_of (fc_cache (l1s e j))"

lemma std_blocks: "array_inv k c \<Longrightarrow> block_state_fun k (state_of c)"
  unfolding block_state_fun_def using state_of_block by blast

lemma env_serial_simps [simp]: "l1s (snd (env_serial e)) = l1s e" "memory_stats (snd (env_serial e)) = memory_stats e"
  by (simp_all add: env_serial_def split: prod.split)

lemma l1_SnoopIn_ok:
  assumes "env_ok k C e" "j < 2 * cores C" "theType msg \<in> {Invalidate, ReturnReq, Downgrade}"
    "block_of k (theAddress msg) = a" "mesi (env_states e j a)"
  shows "\<exists>m e'. l1_SnoopIn C j msg (fc, d, e) = Inr (m, fc, d, e') \<and> env_ok k C e' \<and> theAddress m = theAddress msg \<and>
    theType m = fst (mesi_snoop (theType msg) (env_states e j a)) \<and>
    env_states e' = (env_states e)(j := set_state k a (snd (mesi_snoop (theType msg) (env_states e j a))) (env_states e j)) \<and>
    (\<forall>i. i \<noteq> j \<longrightarrow> l1s e' i = l1s e i)"
proof -
  have c: "array_inv k (fc_cache (l1s e j))" "Protocol (l1_cfg C j) = InclusiveMESI" "theBlockMask (l1_cfg C j) = NOT (mask k)"
    using assms(1,2) by (auto simp: env_ok_def config_ok_def)
  have t: "top_level snoop_channels" by (simp add: top_level_def snoop_channels_def unwired_def fun_eq_iff)
  have a: "theAddress msg AND theBlockMask (l1_cfg C j) = a" using assms(4) c(3) by (simp add: block_of_def)
  obtain m fc' e' where r: "push_SnoopIn StdCache_ops snoop_channels (l1_cfg C j) msg (l1s e j, e) = Inr (m, fc', e')"
    "e' = e \<or> e' = snd (env_serial e)" "theAddress m = theAddress msg"
    "(theType m, state_of (fc_cache fc') a) = mesi_snoop (theType msg) (env_states e j a)" "array_inv k (fc_cache fc')"
    "state_of (fc_cache fc') = set_state k a (state_of (fc_cache fc') a) (env_states e j)"
    using std.snoop_as_planned [OF c(1) std_blocks [OF c(1)] t c(2) assms(3) a, of e] assms(5)
    by (auto simp: env_states_def snoop_channels_def)
  let ?e = "e'\<lparr>l1s := (l1s e')(j := fc')\<rparr>"
  have l: "l1s ?e = (l1s e)(j := fc')" using r(2) by auto
  have "l1_SnoopIn C j msg (fc, d, e) = Inr (m, fc, d, ?e)" by (simp add: l1_SnoopIn_def r(1) del: rbind_eq_Inr)
  moreover have "env_ok k C ?e" using assms(1) r(5) l by (simp add: env_ok_def)
  moreover have "env_states ?e = (env_states e)(j := set_state k a (snd (mesi_snoop (theType msg) (env_states e j a))) (env_states e j))"
  proof -
    have "state_of (fc_cache fc') = set_state k a (snd (mesi_snoop (theType msg) (env_states e j a))) (env_states e j)"
      using r(4,6) by (metis snd_conv)
    then show ?thesis by (simp add: env_states_def [abs_def] l fun_eq_iff)
  qed
  moreover have "theType m = fst (mesi_snoop (theType msg) (env_states e j a))" using r(4) by (metis fst_conv)
  ultimately show ?thesis using r(3) l by (intro exI [of _ m] exI [of _ ?e]) simp
qed

lemma l2_snoop_cache:
  assumes "env_ok k C e" "j < 2 * cores C"
  shows "snoop_cache (l2_channels C) (theL2Cfg C) j = l1_SnoopIn C j"
proof -
  have "SeparateID (theL2Cfg C)" "j div 2 < cores C" "j div 2 < theCMPWidth (theL2Cfg C)"
    using assms by (auto simp: env_ok_def config_ok_def)
  then show ?thesis by (cases "even j") (simp_all add: snoop_cache_def l2_channels_def fun_eq_iff)
qed

lemma l2_memory_ok:
  assumes "env_ok k C e" "theType msg \<in> {ReadReq, FetchReq, WriteReq, NonAllocatingStoreReq, EvictDirty, EvictClean}"
  shows "\<exists>m e'. cmp_RequestOut (l2_channels C) msg (fc, d, e) = Inr (m, fc, d, e') \<and> env_ok k C e' \<and>
    env_states e' = env_states e \<and> l1s e' = l1s e"
proof -
  obtain m stats where "memory_FromCache msg (memory_stats e) = Inr (m, stats)"
    using assms(2) by (auto simp: memory_FromCache_def Let_def)
  then show ?thesis using assms(1)
    by (intro exI [of _ m] exI [of _ "e\<lparr>memory_stats := stats\<rparr>"])
      (simp add: l2_channels_def env_ok_def env_states_def fun_eq_iff del: rbind_eq_Inr)
qed

interpretation l2: shared_cache StdCache_ops "array_inv k" state_of looked_up k
  InfiniteDirectory inf_inv inf_sharers inf_points "l2_channels C" "theL2Cfg C" "2 * cores C" "env_ok k C" env_states l1s
proof
  show "block_state_fun k (state_of c)" if "array_inv k c" for c using std_blocks [OF that] .
  show "theCoherenceUnitMask (theL2Cfg C) = NOT (mask k)" "2 * cores C \<le> MAX_NUM_SHARERS" if "env_ok k C e" for e
    using that by (simp_all add: env_ok_def config_ok_def)
  show "env_ok k C (snd (cmp_next_serial (l2_channels C) e)) \<and>
      env_states (snd (cmp_next_serial (l2_channels C) e)) = env_states e \<and>
      l1s (snd (cmp_next_serial (l2_channels C) e)) = l1s e" if "env_ok k C e" for e
    using that by (simp add: l2_channels_def env_ok_def env_states_def fun_eq_iff)
qed (auto simp only: l2_snoop_cache intro!: l1_SnoopIn_ok l2_memory_ok)

end
