(* ===== verification/Fast_Coherence.thy ===== *)
theory Fast_Coherence
  imports Fast_System
begin

text \<open>
  Coherence of the trace simulator. An invariant over the whole system says that for every block
  the first level caches, the shared cache and the directory entry are in order; every request
  of a first level cache, with the eviction of its victim in the middle of it, and every access
  of a device keeps it and succeeds. The properties at the end follow for every sequence of
  accesses from the start.
\<close>

section \<open>Requests of the first level caches\<close>

definition view_ok :: "nat \<Rightarrow> nat \<Rightarrow> (nat \<Rightarrow> u64 \<Rightarrow> CoherenceState_t) \<Rightarrow> (u64 \<Rightarrow> CoherenceState_t) \<Rightarrow> (u64 \<Rightarrow> nat set) \<Rightarrow> bool" where
  "view_ok k n L S D \<longleftrightarrow> (\<forall>x. block_of k x = x \<longrightarrow> block_ok n (\<lambda>i. L i x) (S x) (D x))"

definition parts_ok :: "nat \<Rightarrow> system \<Rightarrow> sys_state \<Rightarrow> bool" where
  "parts_ok k C = (\<lambda>(l2, d, e). array_inv k (fc_cache l2) \<and> inf_inv d \<and> env_ok k C e)"

definition sys_view :: "nat \<Rightarrow> system \<Rightarrow> nat \<Rightarrow> (u64 \<Rightarrow> CoherenceState_t) \<Rightarrow> sys_state \<Rightarrow> bool" where
  "sys_view k C j f = (\<lambda>(l2, d, e).
     view_ok k (2 * cores C) ((env_states e)(j := f)) (state_of (fc_cache l2)) (inf_sharers d))"

definition sys_ok :: "nat \<Rightarrow> system \<Rightarrow> sys_state \<Rightarrow> bool" where
  "sys_ok k C = (\<lambda>(l2, d, e). parts_ok k C (l2, d, e) \<and>
     view_ok k (2 * cores C) (env_states e) (state_of (fc_cache l2)) (inf_sharers d))"

lemma env_states_put: "env_states (e\<lparr>l1s := (l1s e)(j := fc)\<rparr>) = (env_states e)(j := state_of (fc_cache fc))"
  by (simp add: env_states_def fun_eq_iff)

lemma env_ok_put: "env_ok k C e \<Longrightarrow> array_inv k (fc_cache fc) \<Longrightarrow> env_ok k C (e\<lparr>l1s := (l1s e)(j := fc)\<rparr>)"
  by (simp add: env_ok_def)

lemma block_ok_drop: "block_ok n l s sv \<Longrightarrow> block_ok n l kInvalid sv"
  by (auto simp: block_ok_def)

lemma block_ok_own: "block_ok n l s sv \<Longrightarrow> block_ok n (l(j := kInvalid)) s sv"
  by (auto simp: block_ok_def)

lemma block_ok_swap: "block_ok n l s sv \<Longrightarrow> excl (l j) \<Longrightarrow> excl g \<Longrightarrow> j < n \<Longrightarrow> block_ok n (l(j := g)) s sv"
  by (auto simp: block_ok_def excl_mesi)

text \<open>
  A request while cache \<open>j\<close> is about to hold \<open>f\<close>: the block that is asked for is as \<open>f\<close> says, the
  others may still differ from it.
\<close>

lemma l1_RequestOut_ok:
  assumes p: "parts_ok k C (l2, d, e)" "array_inv k (fc_cache fc)" "j < 2 * cores C" "block_of k (theAddress msg) = a"
    and v: "sys_view k C j f (l2, d, e)" "f a = state_of (fc_cache fc) a" "asks (theType msg) (f a)"
  shows "\<exists>m l2' d' e'. l1_RequestOut C j msg (fc, l2, d, e) = Inr (m, fc, l2', d', e') \<and> parts_ok k C (l2', d', e') \<and>
    answerable (theType msg) (theType m) \<and>
    (\<forall>g. granted (theType msg) (theType m) g \<longrightarrow> sys_view k C j (f(a := g)) (l2', d', e'))"
proof -
  let ?n = "2 * cores C" and ?e = "e\<lparr>l1s := (l1s e)(j := fc)\<rparr>"
  let ?msg = "msg\<lparr>theDstream := even j\<rparr>"
  have a: "block_of k a = a" using p(4) by (metis block_of_idem)
  have e: "array_inv k (fc_cache l2)" "inf_inv d" "env_ok k C ?e" using p(1,2) env_ok_put by (auto simp: parts_ok_def)
  have L: "env_states ?e = (env_states e)(j := state_of (fc_cache fc))" by (rule env_states_put)
  have "(\<lambda>i. env_states ?e i a) = (\<lambda>i. ((env_states e)(j := f)) i a)" using v(2) by (simp add: L fun_eq_iff)
  then have b: "block_ok ?n (\<lambda>i. env_states ?e i a) (state_of (fc_cache l2) a) (inf_sharers d a)"
    using v(1) a by (simp add: sys_view_def view_ok_def)
  have q: "asks (theType ?msg) (env_states ?e j a)" using v(2,3) L by simp
  obtain m l2' d' e' where r: "processRequest StdCache_ops InfiniteDirectory (l2_channels C) (theL2Cfg C) j ?msg (l2, d, ?e) = Inr (m, l2', d', e')"
    "array_inv k (fc_cache l2')" "inf_inv d'" "env_ok k C e'" "answerable (theType msg) (theType m)" "l1s e' j = l1s ?e j"
    "\<forall>i x. block_of k x \<noteq> a \<longrightarrow> env_states e' i x = env_states ?e i x" "\<forall>x. x \<noteq> a \<longrightarrow> inf_sharers d' x = inf_sharers d x"
    "\<forall>x. block_of k x \<noteq> a \<longrightarrow> state_of (fc_cache l2') x \<in> {state_of (fc_cache l2) x, kInvalid}"
    "\<forall>g. granted (theType msg) (theType m) g \<longrightarrow>
       block_ok ?n ((\<lambda>i. env_states e' i a)(j := g)) (state_of (fc_cache l2') a) (inf_sharers d' a)"
    using l2.processRequest_ok [OF e(1-3) p(3), of ?msg a] p(4) q b by auto
  have "SeparateID (theL2Cfg C)" "j div 2 < theCMPWidth (theL2Cfg C)"
    using e(3) p(3) by (auto simp: env_ok_def config_ok_def)
  then have "l1_RequestOut C j msg (fc, l2, d, e) = Inr (m, fc, l2', d', e')"
    using r(1,6) by (cases "even j") (auto simp: l1_RequestOut_def cmp_push_RequestIn_def cmp_push_FetchRequestIn_def
        elim!: oddE evenE)
  moreover have "sys_view k C j (f(a := g)) (l2', d', e')" if g: "granted (theType msg) (theType m) g" for g
    unfolding sys_view_def view_ok_def prod.case
  proof (intro allI impI)
    fix x assume x: "block_of k x = x"
    show "block_ok ?n (\<lambda>i. ((env_states e')(j := f(a := g))) i x) (state_of (fc_cache l2') x) (inf_sharers d' x)"
    proof (cases "x = a")
      case True
      have "(\<lambda>i. ((env_states e')(j := f(a := g))) i a) = (\<lambda>i. env_states e' i a)(j := g)" by auto
      then show ?thesis using r(10) g True by simp
    next
      case False
      have "(\<lambda>i. ((env_states e')(j := f(a := g))) i x) = (\<lambda>i. ((env_states e)(j := f)) i x)"
        using r(7) False x by (simp add: L fun_eq_iff)
      moreover have "block_ok ?n (\<lambda>i. ((env_states e)(j := f)) i x) (state_of (fc_cache l2) x) (inf_sharers d x)"
        using v(1) x by (simp add: sys_view_def view_ok_def)
      moreover have "state_of (fc_cache l2') x \<in> {state_of (fc_cache l2) x, kInvalid}" using r(9) x False by simp
      moreover have "inf_sharers d' x = inf_sharers d x" using r(8) False by blast
      ultimately show ?thesis using block_ok_drop by (metis insertE singletonD)
    qed
  qed
  ultimately show ?thesis using r(2-5) by (auto simp: parts_ok_def)
qed


lemma sys_viewI:
  assumes "sys_view k C j f (l2, d, e)" "parts_ok k C (l2, d, e)" "array_inv k (fc_cache fc)"
    "\<And>x. block_of k x = x \<Longrightarrow> state_of (fc_cache fc) x = f x"
  shows "sys_ok k C (l2, d, e\<lparr>l1s := (l1s e)(j := fc)\<rparr>)"
proof -
  have "(\<lambda>i. ((env_states e)(j := state_of (fc_cache fc))) i x) = (\<lambda>i. ((env_states e)(j := f)) i x)" if "block_of k x = x" for x
    using assms(4) [OF that] by auto
  then have "view_ok k (2 * cores C) ((env_states e)(j := state_of (fc_cache fc))) (state_of (fc_cache l2)) (inf_sharers d)"
    using assms(1) unfolding sys_view_def view_ok_def prod.case by metis
  then show ?thesis using assms(2,3) env_ok_put unfolding sys_ok_def parts_ok_def prod.case env_states_put by blast
qed

lemma l1_channels_out: "RequestOut (l1_channels C j) = l1_RequestOut C j"
  by (simp add: l1_channels_def)

text \<open>A victim leaves the cache: dirty blocks are written back, clean ones only if the parameter says so.\<close>

lemma l1_evict_ok:
  assumes p: "parts_ok k C (l2, d, e)" "array_inv k (fc_cache fc)" "j < 2 * cores C"
    and t: "block_of k t = t" "state_of (fc_cache fc) t = s" "s \<noteq> kInvalid"
    and v: "sys_view k C j f (l2, d, e)" "f t = s"
  shows "\<exists>fc' l2' d' e'. evict (l1_channels C j) (l1_cfg C j) t s (fc, l2, d, e) = Inr (fc', l2', d', e') \<and>
    fc_cache fc' = fc_cache fc \<and> parts_ok k C (l2', d', e') \<and> sys_view k C j (f(t := kInvalid)) (l2', d', e')"
proof -
  have pr: "Protocol (l1_cfg C j) = InclusiveMESI" using p(1) by (simp add: parts_ok_def env_ok_def config_ok_def)
  let ?inv = "(theInvalidateMessage fc)\<lparr>theAddress := t, theType := Invalidate\<rparr>"
  let ?ty = "evict_type InclusiveMESI False s"
  let ?fc = "fc\<lparr>theInvalidateMessage := ?inv\<rparr>" and ?msg = "(theEvictMessage fc)\<lparr>theAddress := t, theType := ?ty\<rparr>"
  have si: "sendInvalidate (l1_channels C j) t True True (fc, l2, d, e) = Inr (False, ?fc, l2, d, e)"
    by (simp add: sendInvalidate_def l1_channels_def unwired_def Let_def del: rbind_eq_Inr)
  have b: "block_ok (2 * cores C) (\<lambda>i. ((env_states e)(j := f)) i t) (state_of (fc_cache l2) t) (inf_sharers d t)"
    using v(1) t(1) by (simp add: sys_view_def view_ok_def)
  then have "mesi s" using p(3) v(2) by (auto simp: block_ok_def)
  then have q: "asks ?ty s" using t(3) by (auto simp: mesi_def asks_def evict_type_def)
  show ?thesis
  proof (cases "?ty = EvictDirty \<or> CleanEvictions (l1_cfg C j)")
    case True
    obtain m l2' d' e' where r: "l1_RequestOut C j ?msg (?fc, l2, d, e) = Inr (m, ?fc, l2', d', e')" "parts_ok k C (l2', d', e')"
      "\<forall>g. granted ?ty (theType m) g \<longrightarrow> sys_view k C j (f(t := g)) (l2', d', e')"
      using l1_RequestOut_ok [OF p(1) _ p(3) _ v(1), of ?fc ?msg t] p(2) t(1,2) v(2) q by auto
    have "granted ?ty (theType m) kInvalid" by (simp add: granted_def evict_type_def)
    then have "sys_view k C j (f(t := kInvalid)) (l2', d', e')" using r(3) by blast
    moreover have "evict (l1_channels C j) (l1_cfg C j) t s (fc, l2, d, e) = Inr (?fc\<lparr>theEvictMessage := m\<rparr>, l2', d', e')"
      using True r(1) by (simp add: evict_def si pr l1_channels_out Let_def del: rbind_eq_Inr)
    ultimately show ?thesis using r(2) by (intro exI [of _ "?fc\<lparr>theEvictMessage := m\<rparr>"] exI [of _ l2'] exI [of _ d'] exI [of _ e']) simp
  next
    case False
    have "evict (l1_channels C j) (l1_cfg C j) t s (fc, l2, d, e) = Inr (?fc\<lparr>theEvictMessage := ?msg\<rparr>, l2, d, e)"
      using False by (simp add: evict_def si pr Let_def del: rbind_eq_Inr)
    moreover have "sys_view k C j (f(t := kInvalid)) (l2, d, e)"
      unfolding sys_view_def view_ok_def prod.case
    proof (intro allI impI)
      fix x assume "block_of k x = x"
      then have "block_ok (2 * cores C) (\<lambda>i. ((env_states e)(j := f)) i x) (state_of (fc_cache l2) x) (inf_sharers d x)"
        using v(1) by (simp add: sys_view_def view_ok_def)
      moreover have "(\<lambda>i. ((env_states e)(j := f(t := kInvalid))) i x) =
          (if x = t then (\<lambda>i. ((env_states e)(j := f)) i x)(j := kInvalid) else (\<lambda>i. ((env_states e)(j := f)) i x))" by auto
      ultimately show "block_ok (2 * cores C) (\<lambda>i. ((env_states e)(j := f(t := kInvalid))) i x) (state_of (fc_cache l2) x) (inf_sharers d x)"
        using block_ok_own [of _ "\<lambda>i. ((env_states e)(j := f)) i x"] by (simp only: split: if_split) blast
    qed
    ultimately show ?thesis using p(1)
      by (intro exI [of _ "?fc\<lparr>theEvictMessage := ?msg\<rparr>"] exI [of _ l2] exI [of _ d] exI [of _ e]) simp
  qed
qed


text \<open>The plans of the protocol fit the replies of the shared cache.\<close>

lemma plan_stay:
  assumes "mesi_plan t s = Stay s'" "mesi s" "t \<in> demand"
  shows "s' = s \<or> excl s \<and> excl s'"
  using assms by (auto simp: mesi_plan_def mesi_def excl_def split: if_splits)

lemma plan_ask:
  assumes "mesi_plan t s = Ask s'" "mesi s" "t \<in> demand"
  shows "s = kShared \<and> granted UpgradeReq r s'"
  using assms by (auto simp: mesi_plan_def mesi_def granted_def demand_def split: if_splits)

lemma plan_fill:
  assumes "mesi_plan t s = Fill q g" "mesi s" "t \<in> demand"
  shows "asks q s" "answerable q r \<Longrightarrow> \<exists>s'. g r = Some s' \<and> granted q r s'"
proof -
  have p: "s = kInvalid \<and> (q = ReadReq \<and> g = read_grant (t = LoadReq) \<or>
      q = FetchReq \<and> g = (\<lambda>m. Some (if m = FwdReplyOwned then kOwned else kShared)) \<or>
      q = WriteReq \<and> (g = (\<lambda>_. Some kExclusive) \<or> g = (\<lambda>_. Some kModified)))"
    using assms by (auto simp: mesi_plan_def mesi_def demand_def split: if_splits)
  then show "asks q s" by (auto simp: asks_def)
  show "\<exists>s'. g r = Some s' \<and> granted q r s'" if "answerable q r"
    using p that by (auto simp: answerable_def granted_def read_grant_def)
qed

lemma plan_bypass:
  assumes "mesi_plan t s = Bypass"
  shows "t = NonAllocatingStoreReq \<and> s = kInvalid"
  using assms by (auto simp: mesi_plan_def split: if_splits)

lemma sys_view_own:
  assumes "sys_ok k C (l2, d, e)"
  shows "sys_view k C j (env_states e j) (l2, d, e)" "parts_ok k C (l2, d, e)"
  using assms by (simp_all add: sys_ok_def sys_view_def)

lemma aligned_set: "block_of k a = a \<Longrightarrow> block_of k x = x \<Longrightarrow> set_state k a s f x = (f(a := s)) x"
  by (auto simp: set_state_def)

text \<open>What a request of cache \<open>j\<close> has to lead to.\<close>

definition served :: "nat \<Rightarrow> system \<Rightarrow> nat \<Rightarrow> (MemoryMessage \<times> (StdCache, sys_state) world) result \<Rightarrow> bool" where
  "served k C j out \<longleftrightarrow> (\<exists>m fc l2 d e. out = Inr (m, fc, l2, d, e) \<and> sys_ok k C (l2, d, e\<lparr>l1s := (l1s e)(j := fc)\<rparr>))"

lemma servedI:
  assumes "out = Inr (m, fc, l2, d, e)" "sys_view k C j f (l2, d, e)" "parts_ok k C (l2, d, e)" "array_inv k (fc_cache fc)"
    "\<And>x. block_of k x = x \<Longrightarrow> state_of (fc_cache fc) x = f x"
  shows "served k C j out"
  using sys_viewI [OF assms(2-5)] assms(1) unfolding served_def by blast

lemma own_request_ok:
  assumes "sys_ok k C (l2, d, e)" "j < 2 * cores C" "array_inv k c1" "state_of c1 = env_states e j"
    "block_of k (theAddress msg) = a" "asks (theType msg) (env_states e j a)"
  obtains m l2' d' e' where "RequestOut (l1_channels C j) msg ((l1s e j)\<lparr>fc_cache := c1\<rparr>, l2, d, e) =
      Inr (m, (l1s e j)\<lparr>fc_cache := c1\<rparr>, l2', d', e')" "parts_ok k C (l2', d', e')" "answerable (theType msg) (theType m)"
    "\<And>g. granted (theType msg) (theType m) g \<Longrightarrow> sys_view k C j ((env_states e j)(a := g)) (l2', d', e')"
  using l1_RequestOut_ok [OF sys_view_own(2) [OF assms(1)] _ assms(2,5) sys_view_own(1) [OF assms(1)],
      of "(l1s e j)\<lparr>fc_cache := c1\<rparr>"] assms(3,4,6)
  by (auto simp: l1_channels_out)

lemma stay_served:
  assumes s: "sys_ok k C (l2, d, e)" "j < 2 * cores C" "block_of k a = a"
    and p: "mesi_plan t (env_states e j a) = Stay s'" "mesi (env_states e j a)" "t \<in> demand"
    and r: "request_meets k (array_inv k) state_of (l1_channels C j) cfg (Stay s') a msg (l1s e j) (l2, d, e) out"
  shows "served k C j out"
proof -
  let ?f = "env_states e j"
  obtain m fc' where o: "out = Inr (m, fc', l2, d, e)" "array_inv k (fc_cache fc')" "state_of (fc_cache fc') = set_state k a s' ?f"
    using r by (auto simp: request_meets_def env_states_def)
  have "sys_view k C j (?f(a := s')) (l2, d, e)"
    unfolding sys_view_def view_ok_def prod.case
  proof (intro allI impI)
    fix x assume x: "block_of k x = x"
    let ?l = "\<lambda>i. env_states e i x"
    have b: "block_ok (2 * cores C) ?l (state_of (fc_cache l2) x) (inf_sharers d x)"
      using s(1) x by (simp add: sys_ok_def view_ok_def)
    have "(\<lambda>i. ((env_states e)(j := ?f(a := s'))) i x) = (if x = a then ?l(j := s') else ?l)" by auto
    moreover have "x = a \<Longrightarrow> block_ok (2 * cores C) (?l(j := s')) (state_of (fc_cache l2) x) (inf_sharers d x)"
      using plan_stay [OF p] block_ok_swap [OF b _ _ s(2)] b by (auto simp: fun_upd_idem)
    ultimately show "block_ok (2 * cores C) (\<lambda>i. ((env_states e)(j := ?f(a := s'))) i x) (state_of (fc_cache l2) x) (inf_sharers d x)"
      using b by simp
  qed
  then show ?thesis by (rule servedI [OF o(1)]) (use sys_view_own(2) [OF s(1)] o(2,3) aligned_set [OF s(3)] in auto)
qed

lemma ask_served:
  assumes s: "sys_ok k C (l2, d, e)" "j < 2 * cores C" "block_of k (theAddress msg) = a"
    and p: "mesi_plan (theType msg) (env_states e j a) = Ask s'" "mesi (env_states e j a)" "theType msg \<in> demand"
    and r: "request_meets k (array_inv k) state_of (l1_channels C j) cfg (Ask s') a msg (l1s e j) (l2, d, e) out"
  shows "served k C j out"
proof -
  let ?f = "env_states e j"
  have a: "block_of k a = a" using s(3) by (metis block_of_idem)
  obtain c1 where c1: "array_inv k c1" "state_of c1 = ?f"
    and o: "\<And>m1 fc1 e1. RequestOut (l1_channels C j) (msg\<lparr>theType := UpgradeReq\<rparr>) ((l1s e j)\<lparr>fc_cache := c1\<rparr>, l2, d, e) = Inr (m1, fc1, e1) \<Longrightarrow>
       fc_cache fc1 = c1 \<Longrightarrow> (\<exists>m fc'. out = Inr (m, fc', e1) \<and> array_inv k (fc_cache fc') \<and> state_of (fc_cache fc') = set_state k a s' ?f)"
    using r unfolding request_meets_def plan.case env_states_def by blast
  obtain m l2' d' e' where q: "RequestOut (l1_channels C j) (msg\<lparr>theType := UpgradeReq\<rparr>) ((l1s e j)\<lparr>fc_cache := c1\<rparr>, l2, d, e) =
      Inr (m, (l1s e j)\<lparr>fc_cache := c1\<rparr>, l2', d', e')" "parts_ok k C (l2', d', e')"
    "\<And>g. granted UpgradeReq (theType m) g \<Longrightarrow> sys_view k C j (?f(a := g)) (l2', d', e')"
    by (rule own_request_ok [OF s(1,2) c1, of "msg\<lparr>theType := UpgradeReq\<rparr>" a])
      (use s(3) plan_ask [OF p] in \<open>auto simp: asks_def\<close>)
  obtain m' fc' where "out = Inr (m', fc', l2', d', e')" "array_inv k (fc_cache fc')" "state_of (fc_cache fc') = set_state k a s' ?f"
    using o [OF q(1)] by auto
  then show ?thesis
    by (intro servedI [OF _ q(3) q(2)]) (use plan_ask [OF p] aligned_set [OF a] in auto)
qed

lemma bypass_served:
  assumes s: "sys_ok k C (l2, d, e)" "j < 2 * cores C" "block_of k (theAddress msg) = a"
    and p: "mesi_plan (theType msg) (env_states e j a) = Bypass"
    and r: "request_meets k (array_inv k) state_of (l1_channels C j) cfg Bypass a msg (l1s e j) (l2, d, e) out"
  shows "served k C j out"
proof -
  let ?f = "env_states e j"
  note p = plan_bypass [OF p]
  obtain c1 where c1: "array_inv k c1" "state_of c1 = ?f"
    and o: "\<And>m1 fc1 e1. RequestOut (l1_channels C j) msg ((l1s e j)\<lparr>fc_cache := c1\<rparr>, l2, d, e) = Inr (m1, fc1, e1) \<Longrightarrow>
       fc_cache fc1 = c1 \<Longrightarrow> (\<exists>fc'. out = Inr (m1, fc', e1) \<and> array_inv k (fc_cache fc') \<and> state_of (fc_cache fc') = ?f)"
    using r unfolding request_meets_def plan.case env_states_def by blast
  obtain m l2' d' e' where q: "RequestOut (l1_channels C j) msg ((l1s e j)\<lparr>fc_cache := c1\<rparr>, l2, d, e) =
      Inr (m, (l1s e j)\<lparr>fc_cache := c1\<rparr>, l2', d', e')" "parts_ok k C (l2', d', e')"
    "\<And>g. granted (theType msg) (theType m) g \<Longrightarrow> sys_view k C j (?f(a := g)) (l2', d', e')"
    by (rule own_request_ok [OF s(1,2) c1 s(3)]) (use p in \<open>auto simp: asks_def\<close>)
  obtain fc' where "out = Inr (m, fc', l2', d', e')" "array_inv k (fc_cache fc')" "state_of (fc_cache fc') = ?f"
    using o [OF q(1)] by auto
  moreover have "?f(a := kInvalid) = ?f" using p by (simp add: fun_upd_idem)
  moreover have "granted (theType msg) (theType m) kInvalid" using p by (simp add: granted_def)
  ultimately show ?thesis by (intro servedI [OF _ _ q(2), of _ _ _ _ ?f]) (use q(3) in \<open>metis | simp\<close>)+
qed

lemma fill_served:
  assumes s: "sys_ok k C (l2, d, e)" "j < 2 * cores C" "block_of k (theAddress msg) = a"
    and p: "mesi_plan (theType msg) (env_states e j a) = Fill t g" "mesi (env_states e j a)" "theType msg \<in> demand"
    and r: "request_meets k (array_inv k) state_of (l1_channels C j) (l1_cfg C j) (Fill t g) a msg (l1s e j) (l2, d, e) out"
  shows "served k C j out"
proof -
  let ?f = "env_states e j" and ?ev = "evict (l1_channels C j) (l1_cfg C j)"
  have a: "block_of k a = a" using s(3) by (metis block_of_idem)
  obtain c1 where c1: "array_inv k c1" "state_of c1 = ?f"
    and o: "\<And>m1 fc1 e1 s'. RequestOut (l1_channels C j) (msg\<lparr>theType := t\<rparr>) ((l1s e j)\<lparr>fc_cache := c1\<rparr>, l2, d, e) = Inr (m1, fc1, e1) \<Longrightarrow>
       fc_cache fc1 = c1 \<Longrightarrow> g (theType m1) = Some s' \<Longrightarrow>
       (\<exists>c2 v. array_inv k c2 \<and> state_of c2 = ?f \<and> valid_victim k ?f a v \<and>
         (\<forall>fc2 e2. answers ?ev v (fc1\<lparr>fc_cache := c2\<rparr>, e1) (fc2, e2) \<longrightarrow>
           (\<exists>m fc'. out = Inr (m, fc', e2) \<and> array_inv k (fc_cache fc') \<and>
             state_of (fc_cache fc') = set_state k a s' (drop_victim k v ?f))))"
    using r unfolding request_meets_def plan.case env_states_def by blast
  obtain m l2' d' e' where q: "RequestOut (l1_channels C j) (msg\<lparr>theType := t\<rparr>) ((l1s e j)\<lparr>fc_cache := c1\<rparr>, l2, d, e) =
      Inr (m, (l1s e j)\<lparr>fc_cache := c1\<rparr>, l2', d', e')" "parts_ok k C (l2', d', e')" "answerable t (theType m)"
    "\<And>g. granted t (theType m) g \<Longrightarrow> sys_view k C j (?f(a := g)) (l2', d', e')"
    by (rule own_request_ok [OF s(1,2) c1, of "msg\<lparr>theType := t\<rparr>" a]) (use s(3) plan_fill(1) [OF p] in auto)
  obtain s' where s': "g (theType m) = Some s'" "granted t (theType m) s'" using plan_fill(2) [OF p q(3)] by blast
  obtain c2 v where c2: "array_inv k c2" "state_of c2 = ?f" "valid_victim k ?f a v"
    and o2: "\<And>fc2 e2. answers ?ev v ((l1s e j)\<lparr>fc_cache := c2\<rparr>, l2', d', e') (fc2, e2) \<Longrightarrow>
      (\<exists>m fc'. out = Inr (m, fc', e2) \<and> array_inv k (fc_cache fc') \<and> state_of (fc_cache fc') = set_state k a s' (drop_victim k v ?f))"
    using o [OF q(1) _ s'(1)] by auto
  note w = q(4) [OF s'(2)]
  show ?thesis
  proof (cases v)
    case None
    obtain m' fc' where "out = Inr (m', fc', l2', d', e')" "array_inv k (fc_cache fc')" "state_of (fc_cache fc') = set_state k a s' ?f"
      using o2 None by (auto simp: answers_None drop_victim_def)
    then show ?thesis by (intro servedI [OF _ w q(2)]) (use aligned_set [OF a] in auto)
  next
    case (Some u)
    obtain vt vs where u: "u = (vt, vs)" by fastforce
    have vt: "block_of k vt = vt" "?f vt = vs" "vs \<noteq> kInvalid" "vt \<noteq> a"
      using c2(3) a by (auto simp: valid_victim_def Some u)
    obtain fc2 l3 d3 e3 where ev: "?ev vt vs ((l1s e j)\<lparr>fc_cache := c2\<rparr>, l2', d', e') = Inr (fc2, l3, d3, e3)"
      "fc_cache fc2 = c2" "parts_ok k C (l3, d3, e3)" "sys_view k C j (?f(a := s', vt := kInvalid)) (l3, d3, e3)"
      using l1_evict_ok [OF q(2) _ s(2) vt(1) _ vt(3) w, of "(l1s e j)\<lparr>fc_cache := c2\<rparr>"] c2(1,2) vt(2,4) by auto
    obtain m' fc' where "out = Inr (m', fc', l3, d3, e3)" "array_inv k (fc_cache fc')"
      "state_of (fc_cache fc') = set_state k a s' (set_state k vt kInvalid ?f)"
      using o2 [of fc2 "(l3, d3, e3)"] ev(1,2) by (auto simp: answers_def drop_victim_def Some u)
    then show ?thesis
      by (intro servedI [OF _ ev(4,3)]) (use aligned_set [OF a] aligned_set [OF vt(1)] vt(4) in auto)
  qed
qed

lemma l1_request_ok:
  assumes s: "sys_ok k C (l2, d, e)" "j < 2 * cores C" "theType msg \<in> demand"
  shows "served k C j (push_RequestIn StdCache_ops (l1_channels C j) (l1_cfg C j) msg (l1s e j, l2, d, e))"
proof -
  let ?f = "env_states e j" and ?a = "block_of k (theAddress msg)"
  let ?out = "push_RequestIn StdCache_ops (l1_channels C j) (l1_cfg C j) msg (l1s e j, l2, d, e)"
  have e: "env_ok k C e" "array_inv k (fc_cache (l1s e j))" using sys_view_own(2) [OF s(1)] s(2) by (auto simp: parts_ok_def env_ok_def)
  have c: "Protocol (l1_cfg C j) = InclusiveMESI" "theAddress msg AND theBlockMask (l1_cfg C j) = ?a"
    using e(1) by (auto simp: env_ok_def config_ok_def block_of_def)
  have "block_ok (2 * cores C) (\<lambda>i. env_states e i ?a) (state_of (fc_cache l2) ?a) (inf_sharers d ?a)"
    using s(1) by (simp add: sys_ok_def view_ok_def)
  then have m: "mesi (?f ?a)" using s(2) by (auto simp: block_ok_def)
  have r: "request_meets k (array_inv k) state_of (l1_channels C j) (l1_cfg C j) (mesi_plan (theType msg) (?f ?a)) ?a msg (l1s e j) (l2, d, e) ?out"
    using std.request_as_planned [OF e(2) std_blocks [OF e(2)] c(1) s(3) c(2)] m by (simp add: env_states_def)
  show ?thesis
    using stay_served [OF s(1,2) _ _ m s(3)] ask_served [OF s(1,2) refl _ m s(3)] bypass_served [OF s(1,2) refl]
      fill_served [OF s(1,2) refl _ m s(3)] r
    by (cases "mesi_plan (theType msg) (?f ?a)") auto
qed

section \<open>Accesses of devices\<close>

definition access_ok :: "nat \<Rightarrow> access \<Rightarrow> bool" where
  "access_ok n x = (case x of ToL1D core msg \<Rightarrow> core < n \<and> theType msg \<in> demand
     | ToL1I core msg \<Rightarrow> core < n \<and> theType msg \<in> demand
     | ToDMA msg \<Rightarrow> theType msg \<in> {WriteReq, ReadReq})"

lemma l1_push_ok:
  assumes "sys_ok k C s" "j < 2 * cores C" "theType msg \<in> demand"
  shows "\<exists>s'. l1_push C j msg s = Inr s' \<and> sys_ok k C s'"
proof -
  obtain l2 d e where s: "s = (l2, d, e)" by (cases s)
  have "served k C j ((if even j then push_RequestIn else push_FetchRequestIn)
              StdCache_ops (l1_channels C j) (l1_cfg C j) msg (l1s e j, l2, d, e))"
    using l1_request_ok [OF assms(1) [unfolded s] assms(2), of msg] l1_request_ok [OF assms(1) [unfolded s] assms(2), of "msg\<lparr>theDstream := False\<rparr>"] assms(3)
    by (auto simp: push_FetchRequestIn_def)
  then show ?thesis by (auto simp: served_def l1_push_def s)
qed

lemma dma_ok:
  assumes s: "sys_ok k C s" "theType msg = Invalidate \<or> theType msg = Downgrade"
  shows "\<exists>m s'. cmp_push_SnoopIn StdCache_ops InfiniteDirectory (l2_channels C) (theL2Cfg C) msg s = Inr (m, s') \<and> sys_ok k C s'"
proof -
  obtain l2 d e where s': "s = (l2, d, e)" by (cases s)
  let ?a = "block_of k (theAddress msg)" and ?n = "2 * cores C"
  have p: "array_inv k (fc_cache l2)" "inf_inv d" "env_ok k C e" and v: "view_ok k ?n (env_states e) (state_of (fc_cache l2)) (inf_sharers d)"
    using s(1) by (auto simp: s' sys_ok_def parts_ok_def)
  have "block_ok ?n (\<lambda>i. env_states e i ?a) (state_of (fc_cache l2) ?a) (inf_sharers d ?a)" using v by (simp add: view_ok_def)
  then obtain m l2' d' e' where r: "cmp_push_SnoopIn StdCache_ops InfiniteDirectory (l2_channels C) (theL2Cfg C) msg (l2, d, e) = Inr (m, l2', d', e')"
    "array_inv k (fc_cache l2')" "inf_inv d'" "env_ok k C e'"
    "\<forall>j x. block_of k x \<noteq> ?a \<longrightarrow> env_states e' j x = env_states e j x" "\<forall>x. x \<noteq> ?a \<longrightarrow> inf_sharers d' x = inf_sharers d x"
    "\<forall>x. block_of k x \<noteq> ?a \<longrightarrow> state_of (fc_cache l2') x = state_of (fc_cache l2) x"
    "block_ok ?n (\<lambda>j. env_states e' j ?a) (state_of (fc_cache l2') ?a) (inf_sharers d' ?a)"
    using l2.snoopIn_ok [OF p refl s(2)] by blast
  have "view_ok k ?n (env_states e') (state_of (fc_cache l2')) (inf_sharers d')"
    unfolding view_ok_def
  proof (intro allI impI)
    fix x assume "block_of k x = x"
    then show "block_ok ?n (\<lambda>i. env_states e' i x) (state_of (fc_cache l2') x) (inf_sharers d' x)"
      using r(5-8) v by (cases "x = ?a") (simp_all add: view_ok_def)
  qed
  then show ?thesis using r(1-4) by (auto simp: s' sys_ok_def parts_ok_def)
qed

lemma sys_access_ok:
  assumes "sys_ok k C s" "access_ok (cores C) x"
  shows "\<exists>s'. sys_access C x s = Inr s' \<and> sys_ok k C s'"
proof (cases x)
  case (ToDMA msg)
  obtain t where t: "memory_DMA (cmp_push_SnoopIn StdCache_ops InfiniteDirectory (l2_channels C) (theL2Cfg C)) msg s =
      cmp_push_SnoopIn StdCache_ops InfiniteDirectory (l2_channels C) (theL2Cfg C) (msg\<lparr>theType := t\<rparr>) s" "t = Invalidate \<or> t = Downgrade"
    using assms(2) by (auto simp: access_ok_def ToDMA memory_DMA_def)
  obtain m s' where "cmp_push_SnoopIn StdCache_ops InfiniteDirectory (l2_channels C) (theL2Cfg C) (msg\<lparr>theType := t\<rparr>) s = Inr (m, s')" "sys_ok k C s'"
    using dma_ok [OF assms(1), of "msg\<lparr>theType := t\<rparr>"] t(2) by auto
  then show ?thesis by (simp add: ToDMA t(1) del: rbind_eq_Inr)
qed (use assms l1_push_ok [OF assms(1)] in \<open>auto simp: access_ok_def\<close>)

lemma sys_run_ok:
  assumes "sys_ok k C s" "list_all (access_ok (cores C)) xs"
  shows "\<exists>s'. sys_run C xs s = Inr s' \<and> sys_ok k C s'"
  using assms
proof (induction xs arbitrary: s)
  case (Cons x xs)
  have "access_ok (cores C) x" using Cons.prems(2) by simp
  then obtain s1 where "sys_access C x s = Inr s1" "sys_ok k C s1" using sys_access_ok [OF Cons.prems(1)] by blast
  then show ?case using Cons.IH [of s1] Cons.prems(2) by simp
qed simp

section \<open>The start\<close>

definition geometry_fits :: "nat \<Rightarrow> nat \<Rightarrow> nat \<Rightarrow> bool" where
  "geometry_fits asize bsize assoc \<longleftrightarrow> power_of_two bsize \<and> 4 \<le> bsize \<and> bsize < 2 ^ 31 \<and> 0 < assoc \<and> assoc \<le> 65536 \<and>
     (let sets = asize div bsize div assoc in 0 < sets \<and> sets < 2 ^ 31 \<and> power_of_two sets \<and> bsize * sets * assoc = asize)"

definition params_fit :: "nat \<Rightarrow> fc_params \<Rightarrow> fc_params \<Rightarrow> cmp_params \<Rightarrow> bool" where
  "params_fit w l1d l1i l2 \<longleftrightarrow> p_Protocol l1d = InclusiveMESI \<and> p_Protocol l1i = InclusiveMESI \<and>
     geometry_fits (p_Size l1d) (p_BlockSize l1d) (p_Associativity l1d) \<and>
     geometry_fits (p_Size l1i) (p_BlockSize l1i) (p_Associativity l1i) \<and>
     geometry_fits (p_cmp_Size l2) (p_cmp_BlockSize l2) (p_cmp_Associativity l2) \<and>
     p_BlockSize l1d = p_cmp_BlockSize l2 \<and> p_BlockSize l1i = p_cmp_BlockSize l2 \<and> p_CoherenceUnit l2 = p_cmp_BlockSize l2 \<and>
     p_SeparateID l2 \<and> p_CMPWidth l2 \<le> MAX_NUM_SHARERS \<and> 2 * w \<le> MAX_NUM_SHARERS \<and>
     (p_CMPWidth l2 = 0 \<or> w \<le> p_CMPWidth l2)"

lemma init_array_ok:
  assumes "geometry_fits asize (2 ^ k) assoc"
  shows "\<exists>c. init_array asize (2 ^ k) assoc text = Inr c \<and> array_inv k c \<and> state_of c = (\<lambda>_. kInvalid)"
proof -
  let ?sets = "asize div 2 ^ k div assoc"
  have g: "power_of_two (2 ^ k)" "4 \<le> (2 :: nat) ^ k" "(2 :: nat) ^ k < 2 ^ 32" "0 < assoc" "0 < ?sets" "?sets < 2 ^ 32" "power_of_two ?sets"
    "2 ^ k * ?sets * assoc = asize" "assoc \<le> 65536"
    using assms by (simp_all add: geometry_fits_def Let_def)
  obtain c where c: "StdCache_new (2 ^ k) ?sets assoc text = Inr c" using g by (simp add: StdCache_new_def)
  have "(2 :: nat) ^ blockShift c = 2 ^ k" using StdCache_new_inv(4) [OF c g(6,3,9)] .
  then have "blockShift c = k" by simp
  then have "array_inv k c" "state_of c = (\<lambda>_. kInvalid)" using new_law [OF c g(6,3,9)] by auto
  then show ?thesis using c g by (simp add: init_array_def Let_def)
qed

lemma block_mask: "NOT (of_nat (2 ^ k - 1)) = (NOT (mask k) :: u64)"
  by (simp add: mask_eq_exp_minus_1 of_nat_diff)

lemma sys_initialize_ok:
  assumes "params_fit w l1d l1i l2"
  shows "\<exists>k C s. sys_initialize w l1d l1i l2 = Inr (C, s) \<and> cores C = w \<and> sys_ok k C s"
proof -
  note p = assms [unfolded params_fit_def]
  obtain k where k: "p_cmp_BlockSize l2 = 2 ^ k" using p power_of_two_iff [of "p_cmp_BlockSize l2"] by (auto simp: geometry_fits_def)
  obtain dc ic c where c: "init_array (p_Size l1d) (2 ^ k) (p_Associativity l1d) (p_TextFlexpoints l1d) = Inr dc" "array_inv k dc" "state_of dc = (\<lambda>_. kInvalid)"
    "init_array (p_Size l1i) (2 ^ k) (p_Associativity l1i) (p_TextFlexpoints l1i) = Inr ic" "array_inv k ic" "state_of ic = (\<lambda>_. kInvalid)"
    "init_array (p_cmp_Size l2) (2 ^ k) (p_cmp_Associativity l2) False = Inr c" "array_inv k c" "state_of c = (\<lambda>_. kInvalid)"
    using p k init_array_ok by metis
  have w: "w \<le> MAX_NUM_SHARERS" "0 < p_CMPWidth l2 \<longrightarrow> w \<le> p_CMPWidth l2" using p by auto
  show ?thesis
    using p w
    by (intro exI [of _ k]) (simp add: sys_initialize_def FastCache_initialize_def FastCMPCache_initialize_def k c block_mask
        sys_ok_def parts_ok_def inf_inv_def env_ok_def config_ok_def l1_cfg_def view_ok_def env_states_def block_ok_def inf_sharers_def
        del: of_nat_power of_nat_diff One_nat_def)
qed

section \<open>Coherence\<close>

text \<open>
  A cache that may write a block is the only one that holds it, and the directory knows every
  cache that holds a block.
\<close>

definition single_writer :: "system \<Rightarrow> sys_state \<Rightarrow> bool" where
  "single_writer C = (\<lambda>(l2, d, e). \<forall>i < 2 * cores C. \<forall>j < 2 * cores C. \<forall>a. i \<noteq> j \<longrightarrow>
     state_of (fc_cache (l1s e i)) a \<in> {kModified, kExclusive} \<longrightarrow> state_of (fc_cache (l1s e j)) a = kInvalid)"

definition directory_knows :: "system \<Rightarrow> sys_state \<Rightarrow> bool" where
  "directory_knows C = (\<lambda>(l2, d, e). \<forall>i < 2 * cores C. \<forall>a. state_of (fc_cache (l1s e i)) a \<noteq> kInvalid \<longrightarrow>
     i \<in> inf_sharers d (a AND theCoherenceUnitMask (theL2Cfg C)))"

lemma sys_ok_coherent:
  assumes "sys_ok k C s"
  shows "single_writer C s" "directory_knows C s"
proof -
  obtain l2 d e where s: "s = (l2, d, e)" by (cases s)
  have e: "env_ok k C e" using assms by (simp add: s sys_ok_def parts_ok_def)
  have b: "block_ok (2 * cores C) (\<lambda>i. env_states e i (block_of k a)) (state_of (fc_cache l2) (block_of k a)) (inf_sharers d (block_of k a))" for a
    using assms by (simp add: s sys_ok_def view_ok_def)
  have a: "state_of (fc_cache (l1s e i)) a = env_states e i (block_of k a)" if "i < 2 * cores C" for i a
    using state_of_block [of k "fc_cache (l1s e i)" a "block_of k a"] e that by (simp add: env_ok_def env_states_def)
  have m: "theCoherenceUnitMask (theL2Cfg C) = NOT (mask k)" using e by (simp add: env_ok_def config_ok_def)
  have h: "i \<in> inf_sharers d (block_of k a)" if "i < 2 * cores C" "env_states e i (block_of k a) \<noteq> kInvalid" for i a
    using b [of a] that by (simp add: block_ok_def)
  show "directory_knows C s"
    unfolding directory_knows_def s prod.case m using a h by (simp add: block_of_def)
  have "inf_sharers d (block_of k a) \<subseteq> {i}" if "i < 2 * cores C" "env_states e i (block_of k a) \<in> {kModified, kExclusive}" for i a
    using b [of a] that by (auto simp: block_ok_def excl_def)
  then show "single_writer C s"
    unfolding single_writer_def s prod.case using a h by (metis singletonD subsetD)
qed

lemma trace_from_start:
  assumes "params_fit w l1d l1i l2" "list_all (access_ok w) xs"
  shows "\<exists>C s0 s k. sys_initialize w l1d l1i l2 = Inr (C, s0) \<and> sys_run C xs s0 = Inr s \<and> sys_ok k C s"
proof -
  obtain k C s0 where "sys_initialize w l1d l1i l2 = Inr (C, s0)" "cores C = w" "sys_ok k C s0"
    using sys_initialize_ok [OF assms(1)] by blast
  then show ?thesis using sys_run_ok [of k C s0 xs] assms(2) by auto
qed

text \<open>
  C5: Every execution of a trace simulator of a supported configuration runs to its end. The
  configuration needs MESI in the first level caches (with the default protocol every store fails),
  \<open>SeparateID\<close> in the shared cache, one block size and coherence unit for all caches, sizes that
  are powers of two with at most 65536 ways, at most 256 cores, and a width of the port arrays of
  the shared cache that covers the cores. Then the components initialise, and no sequence of demand
  accesses of the cores and of accesses of devices fails an assertion of a cache, of the shared
  cache, of its directory, of the memory or of the wiring between them.
\<close>

theorem trace_runs:
  assumes "params_fit w l1d l1i l2" "list_all (access_ok w) xs"
  shows "\<exists>C s0 s. sys_initialize w l1d l1i l2 = Inr (C, s0) \<and> sys_run C xs s0 = Inr s"
  using trace_from_start [OF assms] by blast

definition small_l1 :: fc_params where
  "small_l1 = \<lparr>p_Size = 256, p_Associativity = 2, p_BlockSize = 64, p_CleanEvictions = False, p_Protocol = InclusiveMESI,
     p_UsingTraces = True, p_TextFlexpoints = False, p_DowngradeLRU = False, p_SnoopLRU = False\<rparr>"

definition small_l2 :: cmp_params where
  "small_l2 = \<lparr>p_CMPWidth = 2, p_cmp_Size = 512, p_cmp_Associativity = 4, p_cmp_BlockSize = 64, p_AlwaysMulticast = False,
     p_SeparateID = True, p_CoherenceUnit = 64\<rparr>"

definition small_trace :: "access list" where
  "small_trace = [
     ToL1D 0 (fst (MemoryMessage_new StoreReq 4096 0 0 0)),
     ToL1D 1 (fst (MemoryMessage_new LoadReq 4100 0 0 0)),
     ToL1I 1 (fst (MemoryMessage_new FetchReq 8192 0 0 0)),
     ToL1D 1 (fst (MemoryMessage_new RMWReq 4096 0 0 0)),
     ToDMA (fst (MemoryMessage_new WriteReq 8192 0 0 0))]"

lemma small_fits: "params_fit 2 small_l1 small_l1 small_l2" "list_all (access_ok 2) small_trace"
  by (simp_all add: params_fit_def geometry_fits_def power_of_two_def small_l1_def small_l2_def MAX_NUM_SHARERS_def
      small_trace_def access_ok_def MemoryMessage_new_def memoryMessageSerial_def demand_def)

theorem trace_runs_witness:
  "\<exists>C s0 s. sys_initialize 2 small_l1 small_l1 small_l2 = Inr (C, s0) \<and> sys_run C small_trace s0 = Inr s"
  by (rule trace_runs [OF small_fits])

text \<open>
  C1: Coherence of the trace simulator: after any sequence of accesses, a first level cache that
  holds a block in state Modified or Exclusive is the only first level cache that holds it,
  and the directory of the shared cache knows every first level cache that holds a block.
\<close>

theorem trace_coherent:
  assumes "params_fit w l1d l1i l2" "list_all (access_ok w) xs"
    "sys_initialize w l1d l1i l2 = Inr (C, s0)" "sys_run C xs s0 = Inr s"
  shows "single_writer C s \<and> directory_knows C s"
  using trace_from_start [OF assms(1,2)] assms(3,4) sys_ok_coherent by auto

theorem trace_coherent_witness:
  "\<exists>C s0 s. sys_initialize 2 small_l1 small_l1 small_l2 = Inr (C, s0) \<and> sys_run C small_trace s0 = Inr s \<and>
     single_writer C s \<and> directory_knows C s"
proof -
  obtain C s0 s where "sys_initialize 2 small_l1 small_l1 small_l2 = Inr (C, s0)" "sys_run C small_trace s0 = Inr s"
    using trace_from_start [OF small_fits] by blast
  then show ?thesis using trace_coherent [OF small_fits] by blast
qed

end
