(* ===== verification/Branch_Predictor.thy ===== *)
theory Branch_Predictor
  imports Prelude
begin

text \<open>
  The branch predictor of \<open>components/Common/BranchPredictor.cpp\<close>: a branch target buffer, a
  bimodal and a gshare table of two bit counters, and a table that chooses between them.
  \<open>CombiningImpl\<close> serves the timing model, \<open>FastCombiningImpl\<close> the trace model. Every
  operation returns a result because the vectors are indexed with computed indices; the
  statistics counters are kept as the list of their increments, in order.
\<close>

section \<open>Types\<close>

datatype eBranchType = kNonBranch | kConditional | kUnconditional | kCall | kReturn | kLastBranchType

datatype eDirection = kStronglyTaken | kTaken | kNotTaken | kStronglyNotTaken

fun dir_code :: "eDirection \<Rightarrow> nat" where
  "dir_code kStronglyTaken = 0"
| "dir_code kTaken = 1"
| "dir_code kNotTaken = 2"
| "dir_code kStronglyNotTaken = 3"

text \<open>The enumeration is compared by its values.\<close>

instantiation eDirection :: linorder
begin

definition less_eq_eDirection :: "eDirection \<Rightarrow> eDirection \<Rightarrow> bool" where
  "less_eq_eDirection a b \<longleftrightarrow> dir_code a \<le> dir_code b"

definition less_eDirection :: "eDirection \<Rightarrow> eDirection \<Rightarrow> bool" where
  "less_eDirection a b \<longleftrightarrow> dir_code a < dir_code b"

instance
proof
  fix a b c :: eDirection
  show "a < b \<longleftrightarrow> a \<le> b \<and> \<not> b \<le> a" by (auto simp: less_eq_eDirection_def less_eDirection_def)
  show "a \<le> a" by (simp add: less_eq_eDirection_def)
  show "a \<le> b \<Longrightarrow> b \<le> c \<Longrightarrow> a \<le> c" by (simp add: less_eq_eDirection_def)
  show "a \<le> b \<Longrightarrow> b \<le> a \<Longrightarrow> a = b" by (cases a; cases b) (simp_all add: less_eq_eDirection_def)
  show "a \<le> b \<or> b \<le> a" by (auto simp: less_eq_eDirection_def)
qed

end

definition moreTaken :: "eDirection \<Rightarrow> eDirection" where
  "moreTaken d = (case d of kStronglyTaken \<Rightarrow> kStronglyTaken | kTaken \<Rightarrow> kStronglyTaken
     | kNotTaken \<Rightarrow> kTaken | kStronglyNotTaken \<Rightarrow> kNotTaken)"

definition moreNotTaken :: "eDirection \<Rightarrow> eDirection" where
  "moreNotTaken d = (case d of kStronglyNotTaken \<Rightarrow> kStronglyNotTaken | kNotTaken \<Rightarrow> kStronglyNotTaken
     | kTaken \<Rightarrow> kNotTaken | kStronglyTaken \<Rightarrow> kTaken)"

definition apply_dir :: "eDirection \<Rightarrow> eDirection \<Rightarrow> eDirection" where
  "apply_dir d st = (if d \<le> kTaken then moreTaken st else moreNotTaken st)"

definition reverse_dir :: "eDirection \<Rightarrow> eDirection" where
  "reverse_dir d = (if d \<ge> kNotTaken then kTaken else kNotTaken)"

text \<open>The tables start with the two weak directions in turn.\<close>

fun alternate :: "nat \<Rightarrow> eDirection \<Rightarrow> eDirection list" where
  "alternate 0 d = []"
| "alternate (Suc n) d = d # alternate n (reverse_dir d)"

record BPredState =
  thePredictedType :: eBranchType
  thePredictedTarget :: u64
  thePrediction :: eDirection
  theBimodalPrediction :: eDirection
  theMetaPrediction :: eDirection
  theGSharePrediction :: eDirection
  theGShareShiftReg :: u32
  theBPSerial :: u32

section \<open>The gshare table\<close>

record gShare =
  thePatternTable :: "eDirection list"
  theShiftReg :: u32
  theShiftRegSize :: nat
  thePatternMask :: u32

definition gShare_reset :: "gShare \<Rightarrow> gShare" where
  "gShare_reset g = g\<lparr>theShiftReg := 0, thePatternTable := alternate (2 ^ theShiftRegSize g) kNotTaken\<rparr>"

definition gShare_new :: "nat \<Rightarrow> gShare" where
  "gShare_new aSize = gShare_reset
     \<lparr>thePatternTable = [], theShiftReg = 0, theShiftRegSize = aSize, thePatternMask = push_bit aSize 1 - 1\<rparr>"

definition gShare_index :: "u64 \<Rightarrow> u32 \<Rightarrow> gShare \<Rightarrow> nat" where
  "gShare_index addr sreg g = unat ((ucast sreg XOR drop_bit 2 addr) AND ucast (thePatternMask g))"

definition gShare_shiftIn :: "eDirection \<Rightarrow> gShare \<Rightarrow> gShare" where
  "gShare_shiftIn d g =
     (let r = push_bit 1 (theShiftReg g) AND thePatternMask g in
      g\<lparr>theShiftReg := if d \<ge> kNotTaken then r OR 1 else r\<rparr>)"

definition gShare_setShiftReg :: "u32 \<Rightarrow> gShare \<Rightarrow> gShare" where
  "gShare_setShiftReg r g = g\<lparr>theShiftReg := r AND thePatternMask g\<rparr>"

definition gShare_direction :: "u64 \<Rightarrow> u32 \<Rightarrow> gShare \<Rightarrow> eDirection result" where
  "gShare_direction addr sreg g = lookup_vec (thePatternTable g) (gShare_index addr sreg g)"

definition gShare_update :: "u64 \<Rightarrow> u32 \<Rightarrow> eDirection \<Rightarrow> gShare \<Rightarrow> gShare result" where
  "gShare_update addr sreg d g =
     (let i = gShare_index addr sreg g in
      if i < length (thePatternTable g) then Inr (g\<lparr>thePatternTable := (thePatternTable g)[i := d]\<rparr>)
      else Inl OutOfRange)"

text \<open>
  One function reads and writes the archive. The history register goes through a local
  variable: it is written, but what is read is dropped, and the register keeps its own value
  masked by the number of its bits, on writing too.
\<close>

definition gShare_save :: "gShare \<Rightarrow> (eDirection list \<times> nat \<times> u32 \<times> u32) \<times> gShare" where
  "gShare_save g = ((thePatternTable g, theShiftRegSize g, thePatternMask g, theShiftReg g),
     g\<lparr>theShiftReg := theShiftReg g AND of_nat (theShiftRegSize g)\<rparr>)"

definition gShare_load :: "eDirection list \<times> nat \<times> u32 \<times> u32 \<Rightarrow> gShare \<Rightarrow> gShare" where
  "gShare_load = (\<lambda>(tab, sz, msk, shift_reg) g.
     \<lparr>thePatternTable = tab, theShiftReg = theShiftReg g AND of_nat sz, theShiftRegSize = sz, thePatternMask = msk\<rparr>)"

section \<open>The bimodal table\<close>

record Bimodal =
  bm_Table :: "eDirection list"
  bm_Size :: nat
  bm_IndexMask :: u64

definition Bimodal_reset :: "Bimodal \<Rightarrow> Bimodal" where
  "Bimodal_reset b = b\<lparr>bm_Table := alternate (bm_Size b) kNotTaken\<rparr>"

definition Bimodal_new :: "nat \<Rightarrow> Bimodal result" where
  "Bimodal_new aSize = dbg_assert ((aSize - 1) AND aSize = 0)
     (Inr (Bimodal_reset \<lparr>bm_Table = [], bm_Size = aSize, bm_IndexMask = of_nat (aSize - 1)\<rparr>))"

definition Bimodal_index :: "u64 \<Rightarrow> Bimodal \<Rightarrow> nat" where
  "Bimodal_index addr b = unat ((drop_bit 19 addr XOR drop_bit 2 addr) AND bm_IndexMask b)"

definition Bimodal_direction :: "u64 \<Rightarrow> Bimodal \<Rightarrow> eDirection result" where
  "Bimodal_direction addr b = lookup_vec (bm_Table b) (Bimodal_index addr b)"

definition Bimodal_update :: "u64 \<Rightarrow> eDirection \<Rightarrow> Bimodal \<Rightarrow> Bimodal result" where
  "Bimodal_update addr d b =
     (let i = Bimodal_index addr b in
      if i < length (bm_Table b) then Inr (b\<lparr>bm_Table := (bm_Table b)[i := d]\<rparr>) else Inl OutOfRange)"

section \<open>The branch target buffer\<close>

record BTBEntry =
  btb_PC :: u64
  btb_Type :: eBranchType
  btb_Target :: u64

text \<open>A set is a sequence, least recently updated first, with a unique index on the address.\<close>

record BTB =
  theBTB :: "BTBEntry list list"
  theBTBSets :: nat
  theBTBAssoc :: nat
  btb_IndexMask :: u64

definition BTB_new :: "nat \<Rightarrow> nat \<Rightarrow> BTB result" where
  "BTB_new aBTBSets aBTBAssoc = dbg_assert ((aBTBSets - 1) AND aBTBSets = 0)
     (Inr \<lparr>theBTB = replicate aBTBSets [], theBTBSets = aBTBSets, theBTBAssoc = aBTBAssoc,
           btb_IndexMask = of_nat (aBTBSets - 1)\<rparr>)"

definition BTB_index :: "u64 \<Rightarrow> BTB \<Rightarrow> nat" where
  "BTB_index addr b = unat (drop_bit 2 addr AND btb_IndexMask b)"

definition BTB_find :: "u64 \<Rightarrow> BTB \<Rightarrow> BTBEntry option result" where
  "BTB_find addr b = rbind (lookup_vec (theBTB b) (BTB_index addr b)) (\<lambda>s. Inr (find (\<lambda>e. btb_PC e = addr) s))"

definition BTB_contains :: "u64 \<Rightarrow> BTB \<Rightarrow> bool result" where
  "BTB_contains addr b = rbind (BTB_find addr b) (\<lambda>e. Inr (e \<noteq> None))"

definition BTB_type :: "u64 \<Rightarrow> BTB \<Rightarrow> eBranchType result" where
  "BTB_type addr b = rbind (BTB_find addr b) (\<lambda>e. Inr (case e of None \<Rightarrow> kNonBranch | Some e \<Rightarrow> btb_Type e))"

definition BTB_target :: "u64 \<Rightarrow> BTB \<Rightarrow> u64 option result" where
  "BTB_target addr b = rbind (BTB_find addr b) (\<lambda>e. Inr (map_option btb_Target e))"

definition BTB_update :: "u64 \<Rightarrow> eBranchType \<Rightarrow> u64 \<Rightarrow> BTB \<Rightarrow> (bool \<times> BTB) result" where
  "BTB_update aPC aType aTarget b =
     (let idx = BTB_index aPC b; put = (\<lambda>s. b\<lparr>theBTB := (theBTB b)[idx := s]\<rparr>) in
      rbind (lookup_vec (theBTB b) idx) (\<lambda>s.
      let rest = filter (\<lambda>e. btb_PC e \<noteq> aPC) s in
      case find (\<lambda>e. btb_PC e = aPC) s of
        Some e \<Rightarrow>
          if aType = kNonBranch then Inr (False, put rest)
          else Inr (False, put (rest @ [e\<lparr>btb_Type := aType, btb_Target := if aTarget \<noteq> 0 then aTarget else btb_Target e\<rparr>]))
      | None \<Rightarrow>
          if aType \<noteq> kNonBranch then
            Inr (True, put ((if length s \<ge> theBTBAssoc b then tl s else s) @
              [\<lparr>btb_PC = aPC, btb_Type = aType, btb_Target = aTarget\<rparr>]))
          else Inr (False, b)))"

section \<open>The combining predictor\<close>

record Combining =
  cp_Serial :: u32
  cp_BTB :: BTB
  cp_Bimodal :: Bimodal
  cp_Meta :: Bimodal
  cp_GShare :: gShare
  cp_Stats :: "string list"

definition bp_count :: "string list \<Rightarrow> Combining \<Rightarrow> Combining" where
  "bp_count cs p = p\<lparr>cp_Stats := cp_Stats p @ cs\<rparr>"

definition Combining_make :: "nat \<Rightarrow> nat \<Rightarrow> nat \<Rightarrow> nat \<Rightarrow> nat \<Rightarrow> Combining result" where
  "Combining_make sets assoc bimodal meta gshare =
     rbind (BTB_new sets assoc) (\<lambda>btb. rbind (Bimodal_new bimodal) (\<lambda>bm. rbind (Bimodal_new meta) (\<lambda>mt.
       Inr \<lparr>cp_Serial = 0, cp_BTB = btb, cp_Bimodal = bm, cp_Meta = mt, cp_GShare = gShare_new gshare, cp_Stats = []\<rparr>)))"

definition CombiningImpl :: "Combining result" where
  "CombiningImpl = Combining_make 2048 16 16384 16384 13"

definition FastCombiningImpl :: "Combining result" where
  "FastCombiningImpl = Combining_make 1024 16 32768 8192 13"

definition isBranch :: "u64 \<Rightarrow> Combining \<Rightarrow> bool result" where
  "isBranch addr p = BTB_contains addr (cp_BTB p)"

definition predictConditional :: "u64 \<Rightarrow> BPredState \<Rightarrow> Combining \<Rightarrow> (u64 \<times> BPredState \<times> Combining) result" where
  "predictConditional addr st p =
     rbind (Bimodal_direction addr (cp_Bimodal p)) (\<lambda>bimodal.
     rbind (gShare_direction addr (theShiftReg (cp_GShare p)) (cp_GShare p)) (\<lambda>gshare.
     rbind (Bimodal_direction addr (cp_Meta p)) (\<lambda>meta.
     let prediction = (if meta \<ge> kNotTaken then gshare else bimodal);
         st = st\<lparr>thePrediction := prediction, theBimodalPrediction := bimodal, theMetaPrediction := meta,
                 theGSharePrediction := gshare, theGShareShiftReg := theShiftReg (cp_GShare p)\<rparr>;
         p = bp_count [''Predictions'', if meta \<ge> kNotTaken then ''Predictions_GShare'' else ''Predictions_Bimodal'']
               (p\<lparr>cp_GShare := gShare_shiftIn gshare (cp_GShare p)\<rparr>) in
     rbind (BTB_target addr (cp_BTB p)) (\<lambda>target.
       Inr (if prediction \<le> kTaken then (case target of Some t \<Rightarrow> t | None \<Rightarrow> 0) else 0, st, p)))))"

definition predict :: "u64 \<Rightarrow> Combining \<Rightarrow> (BPredState \<times> Combining) result" where
  "predict addr p =
     rbind (BTB_type addr (cp_BTB p)) (\<lambda>ty.
     let st = \<lparr>thePredictedType = ty, thePredictedTarget = 0, thePrediction = kStronglyTaken,
               theBimodalPrediction = kStronglyTaken, theMetaPrediction = kStronglyTaken,
               theGSharePrediction = kStronglyTaken, theGShareShiftReg = 0, theBPSerial = cp_Serial p\<rparr>;
         p = p\<lparr>cp_Serial := cp_Serial p + 1\<rparr> in
     if ty = kConditional then
       rbind (predictConditional addr st p) (\<lambda>(target, st, p). Inr (st\<lparr>thePredictedTarget := target\<rparr>, p))
     else if ty = kUnconditional \<or> ty = kCall then
       rbind (BTB_target addr (cp_BTB p)) (\<lambda>target.
         Inr (st\<lparr>thePredictedTarget := (case target of Some t \<Rightarrow> t | None \<Rightarrow> 0),
                 theGShareShiftReg := theShiftReg (cp_GShare p)\<rparr>,
              bp_count [''Predictions'', ''Predictions_Unconditional''] p))
     else Inr (st, p))"

record BranchFeedback =
  fb_PC :: u64
  fb_ActualType :: eBranchType
  fb_ActualDirection :: eDirection
  fb_ActualTarget :: u64
  fb_BPState :: "BPredState option"

text \<open>The update of the counters when the outcome of a predicted conditional branch is known.\<close>

definition train :: "u64 \<Rightarrow> eDirection \<Rightarrow> BPredState \<Rightarrow> Combining \<Rightarrow> Combining result" where
  "train pc dir st p =
     (let g = (if (theGSharePrediction st \<ge> kNotTaken) \<noteq> (dir \<ge> kNotTaken)
               then gShare_shiftIn dir (gShare_setShiftReg (theGShareShiftReg st) (cp_GShare p))
               else cp_GShare p) in
      rbind (Bimodal_direction pc (cp_Bimodal p)) (\<lambda>bimodal.
      rbind (gShare_direction pc (theGShareShiftReg st) g) (\<lambda>gshare.
      rbind (Bimodal_direction pc (cp_Meta p)) (\<lambda>meta.
      rbind (Bimodal_update pc (apply_dir dir bimodal) (cp_Bimodal p)) (\<lambda>bm.
      rbind (gShare_update pc (theGShareShiftReg st) (apply_dir dir gshare) g) (\<lambda>g.
      rbind (if (gshare \<ge> kNotTaken) \<noteq> (bimodal \<ge> kNotTaken) then
               Bimodal_update pc (if (dir \<ge> kNotTaken) = (gshare \<ge> kNotTaken) then moreNotTaken meta else moreTaken meta)
                 (cp_Meta p)
             else Inr (cp_Meta p)) (\<lambda>mt.
        Inr (p\<lparr>cp_Bimodal := bm, cp_GShare := g, cp_Meta := mt\<rparr>))))))))"

text \<open>The counters a call of \<open>stats\<close> increments.\<close>

definition resolution :: "eBranchType \<Rightarrow> eDirection \<Rightarrow> bool \<Rightarrow> BPredState \<Rightarrow> string list" where
  "resolution ty dir target_right st =
     (let chosen = (if theMetaPrediction st \<ge> kNotTaken then ''Correct_GShare'' else ''Correct_Bimodal'') in
      if ty = kConditional then
        (if thePrediction st \<ge> kNotTaken \<and> dir \<ge> kNotTaken then [''Correct'', chosen]
         else if thePrediction st \<le> kTaken \<and> dir \<le> kTaken then
           (if target_right then [''Correct'', chosen] else [''Mispredict'', ''Mispredict_Target''])
         else if (theBimodalPrediction st \<ge> kNotTaken) = (theGSharePrediction st \<ge> kNotTaken)
         then [''Mispredict'', ''Mispredict_Direction'']
         else [''Mispredict'', ''Mispredict_Meta'',
               if (thePrediction st \<ge> kNotTaken) = (theGSharePrediction st \<ge> kNotTaken)
               then ''Mispredict_MetaGShare'' else ''Mispredict_MetaBimod''])
      else if target_right then [''Correct'', ''Correct_Unconditional''] else [''Mispredict'', ''Mispredict_Target''])"

definition retired :: "eBranchType \<Rightarrow> string list" where
  "retired ty = (case ty of kConditional \<Rightarrow> [''Branches'', ''Branches_Conditional'']
     | kUnconditional \<Rightarrow> [''Branches'', ''Branches_Unconditional''] | kCall \<Rightarrow> [''Branches'', ''Branches_Call'']
     | kReturn \<Rightarrow> [''Branches'', ''Branches_Return''] | _ \<Rightarrow> [])"

definition stats :: "BranchFeedback \<Rightarrow> string list" where
  "stats f = (case fb_BPState f of
       None \<Rightarrow> [''Mispredict'', ''Mispredict_NewBranch'']
     | Some st \<Rightarrow>
         if fb_ActualType f \<noteq> thePredictedType st then [''Mispredict'', ''Mispredict_NewBranch'']
         else resolution (fb_ActualType f) (fb_ActualDirection f) (fb_ActualTarget f = thePredictedTarget st) st) @
     retired (fb_ActualType f)"

definition feedback :: "BranchFeedback \<Rightarrow> Combining \<Rightarrow> Combining result" where
  "feedback f p =
     rbind (BTB_update (fb_PC f) (fb_ActualType f) (fb_ActualTarget f) (cp_BTB p)) (\<lambda>(is_new, btb).
     let p = bp_count (stats f) (p\<lparr>cp_BTB := btb\<rparr>) in
     if fb_ActualType f = kConditional then
       (if is_new then
          rbind (Bimodal_update (fb_PC f) (fb_ActualDirection f) (cp_Bimodal p)) (\<lambda>bm.
            Inr (p\<lparr>cp_Bimodal := bm, cp_GShare := gShare_shiftIn (fb_ActualDirection f) (cp_GShare p)\<rparr>))
        else (case fb_BPState f of None \<Rightarrow> Inr p | Some st \<Rightarrow> train (fb_PC f) (fb_ActualDirection f) st p))
     else (case fb_BPState f of None \<Rightarrow> Inr p
       | Some st \<Rightarrow>
           if thePredictedTarget st \<noteq> fb_ActualTarget f \<and> \<not> is_new
           then Inr (p\<lparr>cp_GShare := gShare_setShiftReg (theGShareShiftReg st) (cp_GShare p)\<rparr>)
           else Inr p))"

section \<open>The predictor of the trace model\<close>

text \<open>
  \<open>FastCombiningImpl\<close> is a second copy of the code over a state that is always there; a prediction
  that was not made is one whose type is \<open>kNonBranch\<close>. Its statistics take the addresses as 32 bit
  numbers. The copy is translated on its own, from its own lines.
\<close>

definition fast_predictConditional :: "u64 \<Rightarrow> BPredState \<Rightarrow> Combining \<Rightarrow> (u64 \<times> BPredState \<times> Combining) result" where
  "fast_predictConditional anAddress aBPState p =
     rbind (Bimodal_direction anAddress (cp_Bimodal p)) (\<lambda>bimodal.
     rbind (gShare_direction anAddress (theShiftReg (cp_GShare p)) (cp_GShare p)) (\<lambda>gshare.
     rbind (Bimodal_direction anAddress (cp_Meta p)) (\<lambda>meta.
     let (prediction, p) =
           (if meta \<ge> kNotTaken then (gshare, bp_count [''Predictions'', ''Predictions_GShare''] p)
            else (bimodal, bp_count [''Predictions'', ''Predictions_Bimodal''] p));
         aBPState = aBPState\<lparr>thePrediction := prediction, theBimodalPrediction := bimodal, theMetaPrediction := meta,
           theGSharePrediction := gshare, theGShareShiftReg := theShiftReg (cp_GShare p)\<rparr>;
         p = p\<lparr>cp_GShare := gShare_shiftIn gshare (cp_GShare p)\<rparr> in
     if prediction \<le> kTaken then
       rbind (BTB_target anAddress (cp_BTB p)) (\<lambda>target. Inr (case target of Some t \<Rightarrow> t | None \<Rightarrow> 0, aBPState, p))
     else Inr (0, aBPState, p))))"

definition fast_predictTarget :: "u64 \<Rightarrow> BPredState \<Rightarrow> Combining \<Rightarrow> (BPredState \<times> Combining) result" where
  "fast_predictTarget anAddress aBPState p =
     (let p = bp_count [''Predictions'', ''Predictions_Unconditional''] p in
      rbind (BTB_target anAddress (cp_BTB p)) (\<lambda>target.
        Inr (aBPState\<lparr>thePredictedTarget := (case target of Some t \<Rightarrow> t | None \<Rightarrow> 0),
               theGShareShiftReg := theShiftReg (cp_GShare p)\<rparr>, p)))"

definition fast_predict :: "u64 \<Rightarrow> Combining \<Rightarrow> (BPredState \<times> Combining) result" where
  "fast_predict anAddress p =
     rbind (BTB_type anAddress (cp_BTB p)) (\<lambda>predicted_type.
     let aBPState = \<lparr>thePredictedType = predicted_type, thePredictedTarget = 0, thePrediction = kStronglyTaken,
           theBimodalPrediction = kStronglyTaken, theMetaPrediction = kStronglyTaken,
           theGSharePrediction = kStronglyTaken, theGShareShiftReg = 0, theBPSerial = cp_Serial p\<rparr>;
         p = p\<lparr>cp_Serial := cp_Serial p + 1\<rparr> in
     case predicted_type of
       kNonBranch \<Rightarrow> Inr (aBPState\<lparr>thePredictedTarget := 0\<rparr>, p)
     | kConditional \<Rightarrow> rbind (fast_predictConditional anAddress aBPState p) (\<lambda>(target, aBPState, p).
         Inr (aBPState\<lparr>thePredictedTarget := target\<rparr>, p))
     | kUnconditional \<Rightarrow> fast_predictTarget anAddress aBPState p
     | kCall \<Rightarrow> fast_predictTarget anAddress aBPState p
     | kReturn \<Rightarrow> Inr (aBPState, p)
     | kLastBranchType \<Rightarrow> Inr (aBPState\<lparr>thePredictedTarget := 0\<rparr>, p))"

definition fast_resolution :: "eBranchType \<Rightarrow> eDirection \<Rightarrow> u32 \<Rightarrow> BPredState \<Rightarrow> string list" where
  "fast_resolution anActualType anActualDirection anActualTarget aBPState =
     (let reached = (anActualTarget = ucast (thePredictedTarget aBPState)) in
      if anActualType \<noteq> kConditional then
        (if reached then [''Correct'', ''Correct_Unconditional''] else [''Mispredict'', ''Mispredict_Target''])
      else if thePrediction aBPState \<ge> kNotTaken \<and> anActualDirection \<ge> kNotTaken \<or>
              thePrediction aBPState \<le> kTaken \<and> anActualDirection \<le> kTaken \<and> reached then
        [''Correct'', if theMetaPrediction aBPState \<ge> kNotTaken then ''Correct_GShare'' else ''Correct_Bimodal'']
      else if thePrediction aBPState \<le> kTaken \<and> anActualDirection \<le> kTaken then [''Mispredict'', ''Mispredict_Target'']
      else ''Mispredict'' #
        (if (theBimodalPrediction aBPState \<ge> kNotTaken) = (theGSharePrediction aBPState \<ge> kNotTaken)
         then [''Mispredict_Direction'']
         else [''Mispredict_Meta'',
               if (thePrediction aBPState \<ge> kNotTaken) = (theGSharePrediction aBPState \<ge> kNotTaken)
               then ''Mispredict_MetaGShare'' else ''Mispredict_MetaBimod'']))"

definition fast_stats :: "eBranchType \<Rightarrow> eDirection \<Rightarrow> u32 \<Rightarrow> BPredState \<Rightarrow> string list" where
  "fast_stats anActualType anActualDirection anActualTarget aBPState =
     (if anActualType \<noteq> thePredictedType aBPState then [''Mispredict'', ''Mispredict_NewBranch'']
      else fast_resolution anActualType anActualDirection anActualTarget aBPState) @
     (if anActualType = kConditional then [''Branches'', ''Branches_Conditional'']
      else if anActualType = kUnconditional then [''Branches'', ''Branches_Unconditional'']
      else if anActualType = kCall then [''Branches'', ''Branches_Call'']
      else if anActualType = kReturn then [''Branches'', ''Branches_Return''] else [])"

definition fast_train :: "u64 \<Rightarrow> eDirection \<Rightarrow> BPredState \<Rightarrow> Combining \<Rightarrow> Combining result" where
  "fast_train anAddress anActualDirection aBPState p =
     (let history = theGShareShiftReg aBPState;
          p = (if (theGSharePrediction aBPState \<ge> kNotTaken) \<noteq> (anActualDirection \<ge> kNotTaken)
               then p\<lparr>cp_GShare := gShare_shiftIn anActualDirection (gShare_setShiftReg history (cp_GShare p))\<rparr> else p) in
      rbind (Bimodal_direction anAddress (cp_Bimodal p)) (\<lambda>bimodal.
      rbind (gShare_direction anAddress history (cp_GShare p)) (\<lambda>gshare.
      rbind (Bimodal_direction anAddress (cp_Meta p)) (\<lambda>meta.
      rbind (Bimodal_update anAddress (apply_dir anActualDirection bimodal) (cp_Bimodal p)) (\<lambda>bm.
      rbind (gShare_update anAddress history (apply_dir anActualDirection gshare) (cp_GShare p)) (\<lambda>g.
      let p = p\<lparr>cp_Bimodal := bm, cp_GShare := g\<rparr> in
      if (gshare \<ge> kNotTaken) \<noteq> (bimodal \<ge> kNotTaken) then
        if (anActualDirection \<ge> kNotTaken) = (gshare \<ge> kNotTaken)
        then rbind (Bimodal_update anAddress (moreNotTaken meta) (cp_Meta p)) (\<lambda>mt. Inr (p\<lparr>cp_Meta := mt\<rparr>))
        else rbind (Bimodal_update anAddress (moreTaken meta) (cp_Meta p)) (\<lambda>mt. Inr (p\<lparr>cp_Meta := mt\<rparr>))
      else Inr p))))))"

definition fast_feedback ::
    "u64 \<Rightarrow> eBranchType \<Rightarrow> eDirection \<Rightarrow> u64 \<Rightarrow> BPredState \<Rightarrow> Combining \<Rightarrow> Combining result" where
  "fast_feedback addr ty dir target st p =
     rbind (BTB_update addr ty target (cp_BTB p)) (\<lambda>(is_new, btb).
     let p = bp_count (fast_stats ty dir (ucast target) st) (p\<lparr>cp_BTB := btb\<rparr>) in
     if ty = kConditional then
       (if is_new then
          rbind (Bimodal_update addr dir (cp_Bimodal p)) (\<lambda>bm.
            Inr (p\<lparr>cp_Bimodal := bm, cp_GShare := gShare_shiftIn dir (cp_GShare p)\<rparr>))
        else if thePredictedType st \<noteq> kNonBranch then fast_train addr dir st p else Inr p)
     else if thePredictedType st \<noteq> kNonBranch \<and> thePredictedTarget st \<noteq> target \<and> \<not> is_new
     then Inr (p\<lparr>cp_GShare := gShare_setShiftReg (theGShareShiftReg st) (cp_GShare p)\<rparr>)
     else Inr p)"

section \<open>Saved state\<close>

type_synonym bp_image = "BTB \<times> Bimodal \<times> Bimodal \<times> (eDirection list \<times> nat \<times> u32 \<times> u32)"

definition bp_saveState :: "Combining \<Rightarrow> bp_image \<times> Combining" where
  "bp_saveState p = (let (g, gs) = gShare_save (cp_GShare p) in
     ((cp_BTB p, cp_Bimodal p, cp_Meta p, g), p\<lparr>cp_GShare := gs\<rparr>))"

definition bp_loadState :: "bp_image \<Rightarrow> Combining \<Rightarrow> Combining" where
  "bp_loadState = (\<lambda>(btb, bm, mt, g) p.
     p\<lparr>cp_BTB := btb, cp_Bimodal := bm, cp_Meta := mt, cp_GShare := gShare_load g (cp_GShare p)\<rparr>)"

end
