(* ===== verification/Branch_Correct.thy ===== *)
theory Branch_Correct
  imports Branch_Predictor
begin

text \<open>
  What the branch predictor promises. What its two kinds of counter tables have in common is
  the locale \<open>counter_table\<close>. The invariant gives the sizes of all tables and the shape of
  the branch target buffer; no sequence of predictions and outcomes indexes out of a table.
  Then the branch target buffer as a least recently updated map, the repair of the
  speculative history, and the training of the counters.
\<close>

section \<open>Tables of counters\<close>

lemma unat_and_mask: "unat (w AND mask k) < 2 ^ k" for w :: "'a::len word"
  by (simp add: unsigned_take_bit_eq take_bit_nat_less_exp flip: take_bit_eq_mask)

locale counter_table =
  fixes ok :: "'t \<Rightarrow> bool" and get :: "'k \<Rightarrow> 't \<Rightarrow> eDirection result" and put :: "'k \<Rightarrow> eDirection \<Rightarrow> 't \<Rightarrow> 't result"
  assumes get_ok: "ok t \<Longrightarrow> \<exists>d. get k t = Inr d"
    and put_ok: "ok t \<Longrightarrow> \<exists>t'. put k d t = Inr t' \<and> ok t' \<and> get k t' = Inr d"

text \<open>Two outcomes in the same direction move a counter to that side, whatever it was.\<close>

lemma apply_twice: "(apply_dir d (apply_dir d x) \<ge> kNotTaken) = (d \<ge> kNotTaken)"
  by (cases d; cases x) (simp_all add: apply_dir_def moreTaken_def moreNotTaken_def less_eq_eDirection_def)

definition bimodal_inv :: "Bimodal \<Rightarrow> bool" where
  "bimodal_inv b \<longleftrightarrow> (\<exists>k. bm_IndexMask b = mask k \<and> length (bm_Table b) = 2 ^ k)"

definition gshare_inv :: "gShare \<Rightarrow> bool" where
  "gshare_inv g \<longleftrightarrow> 0 < theShiftRegSize g \<and> theShiftRegSize g \<le> 32 \<and> thePatternMask g = mask (theShiftRegSize g) \<and>
     length (thePatternTable g) = 2 ^ theShiftRegSize g \<and> theShiftReg g AND thePatternMask g = theShiftReg g"

lemma bimodal_index: "bimodal_inv b \<Longrightarrow> Bimodal_index a b < length (bm_Table b)"
  using unat_and_mask by (auto simp: bimodal_inv_def Bimodal_index_def)

lemma gshare_index: "gshare_inv g \<Longrightarrow> gShare_index a r g < length (thePatternTable g)"
  using unat_and_mask [of "ucast r XOR drop_bit 2 a" "theShiftRegSize g"]
  by (simp add: gshare_inv_def gShare_index_def unsigned_ucast_eq ucast_mask_eq min_absorb2)

interpretation bm: counter_table bimodal_inv Bimodal_direction Bimodal_update
proof
  fix t :: Bimodal and k d
  assume t: "bimodal_inv t"
  show "\<exists>d. Bimodal_direction k t = Inr d" using bimodal_index [OF t] by (simp add: Bimodal_direction_def)
  show "\<exists>t'. Bimodal_update k d t = Inr t' \<and> bimodal_inv t' \<and> Bimodal_direction k t' = Inr d"
    using t bimodal_index [OF t, of k]
    by (auto simp: Bimodal_update_def Bimodal_direction_def Let_def bimodal_inv_def Bimodal_index_def)
qed

interpretation gs: counter_table gshare_inv "\<lambda>(a, r). gShare_direction a r" "\<lambda>(a, r). gShare_update a r"
proof
  fix t :: gShare and k :: "u64 \<times> u32" and d
  assume t: "gshare_inv t"
  show "\<exists>d. (case k of (a, r) \<Rightarrow> gShare_direction a r) t = Inr d"
    using gshare_index [OF t] by (simp add: gShare_direction_def split: prod.split)
  show "\<exists>t'. (case k of (a, r) \<Rightarrow> gShare_update a r) d t = Inr t' \<and> gshare_inv t' \<and>
      (case k of (a, r) \<Rightarrow> gShare_direction a r) t' = Inr d"
    using t gshare_index [OF t]
    by (auto simp: gShare_update_def gShare_direction_def Let_def gshare_inv_def gShare_index_def split: prod.split)
qed

lemma one_and_mask: "0 < k \<Longrightarrow> (1 :: u32) AND mask k = 1"
  by (rule bit_word_eqI) (auto simp: bit_simps)

lemma shiftIn_inv: "gshare_inv g \<Longrightarrow> gshare_inv (gShare_shiftIn d g)"
  by (simp add: gshare_inv_def gShare_shiftIn_def Let_def one_and_mask bit.conj_disj_distrib2 and.assoc)

lemma setShiftReg_inv: "gshare_inv g \<Longrightarrow> gshare_inv (gShare_setShiftReg r g)"
  by (simp add: gshare_inv_def gShare_setShiftReg_def)

section \<open>The branch target buffer\<close>

definition btb_set_inv :: "BTB \<Rightarrow> nat \<Rightarrow> BTBEntry list \<Rightarrow> bool" where
  "btb_set_inv b i s \<longleftrightarrow> distinct (map btb_PC s) \<and> length s \<le> theBTBAssoc b \<and>
     (\<forall>e \<in> set s. BTB_index (btb_PC e) b = i \<and> btb_Type e \<noteq> kNonBranch)"

definition btb_inv :: "BTB \<Rightarrow> bool" where
  "btb_inv b \<longleftrightarrow> (\<exists>k. btb_IndexMask b = mask k \<and> length (theBTB b) = 2 ^ k) \<and> 0 < theBTBAssoc b \<and>
     (\<forall>i < length (theBTB b). btb_set_inv b i (theBTB b ! i))"

lemma btb_index: "btb_inv b \<Longrightarrow> BTB_index a b < length (theBTB b)"
  using unat_and_mask by (auto simp: btb_inv_def BTB_index_def)

lemma btb_put_inv:
  assumes "btb_inv b" "i < length (theBTB b)" "btb_set_inv b i s"
  shows "btb_inv (b\<lparr>theBTB := (theBTB b)[i := s]\<rparr>)"
  using assms by (auto simp: btb_inv_def btb_set_inv_def BTB_index_def nth_list_update)

lemma BTB_find_eq:
  assumes "btb_inv b"
  shows "BTB_find a b = Inr (find (\<lambda>e. btb_PC e = a) (theBTB b ! BTB_index a b))"
  using btb_index [OF assms] by (simp add: BTB_find_def lookup_vec_lt)

lemma find_PC:
  assumes "distinct (map btb_PC s)"
  shows "find (\<lambda>e. btb_PC e = a) s = Some e \<longleftrightarrow> e \<in> set s \<and> btb_PC e = a"
  using assms by (induction s) (auto simp: image_iff)

lemma find_None: "find (\<lambda>e. btb_PC e = a) s = None \<longleftrightarrow> (\<forall>e \<in> set s. btb_PC e \<noteq> a)"
  by (induction s) auto

lemma find_other: "q \<noteq> a \<Longrightarrow> find (\<lambda>e. btb_PC e = q) (filter (\<lambda>e. btb_PC e \<noteq> a) s) = find (\<lambda>e. btb_PC e = q) s"
  by (induction s) auto

lemma find_append: "find P (xs @ ys) = (case find P xs of None \<Rightarrow> find P ys | Some x \<Rightarrow> Some x)"
  by (induction xs) auto

text \<open>The set of an address after an update: the entry goes to the end, at most the first one makes room.\<close>

definition btb_spec :: "nat \<Rightarrow> u64 \<Rightarrow> eBranchType \<Rightarrow> u64 \<Rightarrow> BTBEntry list \<Rightarrow> bool \<times> BTBEntry list" where
  "btb_spec assoc pc ty tgt s = (case find (\<lambda>e. btb_PC e = pc) s of
     Some e \<Rightarrow> (False, filter (\<lambda>e. btb_PC e \<noteq> pc) s @
       (if ty = kNonBranch then [] else [e\<lparr>btb_Type := ty, btb_Target := if tgt \<noteq> 0 then tgt else btb_Target e\<rparr>]))
   | None \<Rightarrow> if ty = kNonBranch then (False, s)
       else (True, (if assoc \<le> length s then tl s else s) @ [\<lparr>btb_PC = pc, btb_Type = ty, btb_Target = tgt\<rparr>]))"

lemma BTB_update_eq:
  assumes "btb_inv b"
  shows "BTB_update pc ty tgt b = Inr (let (n, s) = btb_spec (theBTBAssoc b) pc ty tgt (theBTB b ! BTB_index pc b)
     in (n, b\<lparr>theBTB := (theBTB b)[BTB_index pc b := s]\<rparr>))"
  using btb_index [OF assms(1), of pc]
  by (auto simp: BTB_update_def btb_spec_def Let_def lookup_vec_lt split: option.split)

lemma btb_spec_inv:
  assumes "btb_set_inv b (BTB_index pc b) s" "0 < theBTBAssoc b"
  shows "btb_set_inv b (BTB_index pc b) (snd (btb_spec (theBTBAssoc b) pc ty tgt s))"
proof (cases "find (\<lambda>e. btb_PC e = pc) s")
  case None
  have n: "\<forall>e \<in> set s. btb_PC e \<noteq> pc" using None by (simp add: find_None)
  let ?t = "if theBTBAssoc b \<le> length s then tl s else s"
  have "set ?t \<subseteq> set s" "distinct (map btb_PC ?t)" using assms(1) by (cases s; auto simp: btb_set_inv_def)+
  moreover have "length ?t < theBTBAssoc b" using assms by (auto simp: btb_set_inv_def)
  ultimately show ?thesis using assms(1) n None by (auto simp: btb_spec_def btb_set_inv_def)
next
  case (Some e)
  have e: "e \<in> set s" "btb_PC e = pc" using Some assms(1) by (auto simp: btb_set_inv_def find_PC)
  let ?r = "filter (\<lambda>e. btb_PC e \<noteq> pc) s"
  have "distinct (map btb_PC ?r)" using assms(1) by (simp add: btb_set_inv_def distinct_map_filter)
  moreover have "length ?r < length s" using e by (intro length_filter_less) auto
  ultimately show ?thesis using assms(1) e Some by (auto simp: btb_spec_def btb_set_inv_def)
qed

lemma BTB_update_inv:
  assumes "btb_inv b" "BTB_update pc ty tgt b = Inr (n, b')"
  shows "btb_inv b'"
proof -
  note i = btb_index [OF assms(1), of pc]
  have "btb_set_inv b (BTB_index pc b) (theBTB b ! BTB_index pc b)" "0 < theBTBAssoc b" using assms(1) i by (auto simp: btb_inv_def)
  from btb_put_inv [OF assms(1) i btb_spec_inv [OF this, of ty tgt]] show ?thesis
    using assms(2) by (auto simp: BTB_update_eq [OF assms(1)] Let_def split: prod.splits)
qed

text \<open>A lookup after an update: only the address itself and the entry that makes room change.\<close>

lemma find_spec_self:
  "find (\<lambda>e. btb_PC e = pc) (snd (btb_spec assoc pc ty tgt s)) =
     (if ty = kNonBranch then None
      else Some \<lparr>btb_PC = pc, btb_Type = ty, btb_Target =
        (case find (\<lambda>e. btb_PC e = pc) s of Some e \<Rightarrow> if tgt \<noteq> 0 then tgt else btb_Target e | None \<Rightarrow> tgt)\<rparr>)"
  (is "?l = ?r")
proof (cases "find (\<lambda>e. btb_PC e = pc) s")
  case None
  have "find (\<lambda>e. btb_PC e = pc) (if assoc \<le> length s then tl s else s) = None"
    using None unfolding find_None by (cases s) auto
  then show ?thesis using None by (simp add: btb_spec_def find_append)
next
  case (Some e)
  have "btb_PC e = pc" using Some by (auto simp: find_Some_iff)
  moreover have "find (\<lambda>e. btb_PC e = pc) (filter (\<lambda>e. btb_PC e \<noteq> pc) s) = None" by (auto simp: find_None)
  ultimately show ?thesis using Some by (cases e) (simp add: btb_spec_def find_append)
qed

lemma find_spec_other:
  assumes "q \<noteq> pc"
  shows "find (\<lambda>e. btb_PC e = q) (snd (btb_spec assoc pc ty tgt s)) =
     find (\<lambda>e. btb_PC e = q)
       (if ty \<noteq> kNonBranch \<and> find (\<lambda>e. btb_PC e = pc) s = None \<and> assoc \<le> length s then tl s else s)"
proof (cases "find (\<lambda>e. btb_PC e = pc) s")
  case None
  then show ?thesis using assms by (simp add: btb_spec_def find_append split: option.split)
next
  case (Some e)
  have "btb_PC e = pc" using Some by (auto simp: find_Some_iff)
  then show ?thesis using assms Some by (simp add: btb_spec_def find_append find_other split: option.split)
qed

section \<open>The combining predictor\<close>

definition bp_inv :: "Combining \<Rightarrow> bool" where
  "bp_inv p \<longleftrightarrow> btb_inv (cp_BTB p) \<and> bimodal_inv (cp_Bimodal p) \<and> bimodal_inv (cp_Meta p) \<and> gshare_inv (cp_GShare p)"

lemma alternate_length [simp]: "length (alternate n d) = n"
  by (induction n arbitrary: d) auto

lemma pow2_check: "(2 ^ k - Suc 0) AND 2 ^ k = 0"
proof -
  have "mask k AND 2 ^ k = (0 :: nat)" by (rule bit_eqI) (auto simp: bit_simps)
  then show ?thesis by (simp add: mask_eq_exp_minus_1)
qed

lemma BTB_new_inv: "0 < assoc \<Longrightarrow> \<exists>b. BTB_new (2 ^ k) assoc = Inr b \<and> btb_inv b"
  by (auto simp: BTB_new_def pow2_check dbg_assert_def btb_inv_def btb_set_inv_def of_nat_diff mask_eq_exp_minus_1 intro!: exI [of _ k])

lemma Bimodal_new_inv: "\<exists>b. Bimodal_new (2 ^ k) = Inr b \<and> bimodal_inv b"
  by (auto simp: Bimodal_new_def Bimodal_reset_def pow2_check dbg_assert_def bimodal_inv_def of_nat_diff mask_eq_exp_minus_1 intro!: exI [of _ k])

lemma gShare_new_inv: "0 < k \<Longrightarrow> k \<le> 32 \<Longrightarrow> gshare_inv (gShare_new k)"
  by (simp add: gShare_new_def gShare_reset_def gshare_inv_def mask_eq_exp_minus_1 push_bit_eq_mult)

lemma Combining_make_inv:
  assumes "0 < assoc" "0 < g" "g \<le> 32"
  shows "\<exists>p. Combining_make (2 ^ s) assoc (2 ^ b) (2 ^ m) g = Inr p \<and> bp_inv p \<and> cp_Stats p = []"
proof -
  obtain bt where "BTB_new (2 ^ s) assoc = Inr bt" "btb_inv bt" using BTB_new_inv [OF assms(1)] by blast
  moreover obtain bm where "Bimodal_new (2 ^ b) = Inr bm" "bimodal_inv bm" using Bimodal_new_inv by blast
  moreover obtain mt where "Bimodal_new (2 ^ m) = Inr mt" "bimodal_inv mt" using Bimodal_new_inv by blast
  ultimately show ?thesis using gShare_new_inv [OF assms(2,3)] by (simp add: Combining_make_def bp_inv_def)
qed

lemma CombiningImpl_inv: "\<exists>p. CombiningImpl = Inr p \<and> bp_inv p \<and> cp_Stats p = []"
  using Combining_make_inv [of 16 13 11 14 14] by (simp add: CombiningImpl_def)

lemma FastCombiningImpl_inv: "\<exists>p. FastCombiningImpl = Inr p \<and> bp_inv p \<and> cp_Stats p = []"
  using Combining_make_inv [of 16 13 10 15 13] by (simp add: FastCombiningImpl_def)

lemma bp_count_simps [simp]:
  "cp_Serial (bp_count cs p) = cp_Serial p" "cp_BTB (bp_count cs p) = cp_BTB p" "cp_Bimodal (bp_count cs p) = cp_Bimodal p"
  "cp_Meta (bp_count cs p) = cp_Meta p" "cp_GShare (bp_count cs p) = cp_GShare p" "cp_Stats (bp_count cs p) = cp_Stats p @ cs"
  by (simp_all add: bp_count_def)

lemma bp_inv_count [simp]: "bp_inv (bp_count cs p) = bp_inv p"
  by (simp add: bp_inv_def)

lemma BTB_type_eq: "btb_inv b \<Longrightarrow> BTB_type a b = Inr (case find (\<lambda>e. btb_PC e = a) (theBTB b ! BTB_index a b) of
    None \<Rightarrow> kNonBranch | Some e \<Rightarrow> btb_Type e)"
  by (simp add: BTB_type_def BTB_find_eq)

lemma BTB_target_eq: "btb_inv b \<Longrightarrow> BTB_target a b = Inr (map_option btb_Target (find (\<lambda>e. btb_PC e = a) (theBTB b ! BTB_index a b)))"
  by (simp add: BTB_target_def BTB_find_eq)

text \<open>What a prediction leaves behind: the tables as they were, the speculative history, its record.\<close>

definition predicted :: "u64 \<Rightarrow> Combining \<Rightarrow> BPredState \<Rightarrow> Combining \<Rightarrow> bool" where
  "predicted a p st p' \<longleftrightarrow> cp_BTB p' = cp_BTB p \<and> cp_Bimodal p' = cp_Bimodal p \<and> cp_Meta p' = cp_Meta p \<and>
     BTB_type a (cp_BTB p) = Inr (thePredictedType st) \<and>
     (\<exists>cs. cp_Stats p' = cp_Stats p @ cs \<and> ''Correct'' \<notin> set cs \<and> ''Mispredict'' \<notin> set cs) \<and>
     (if thePredictedType st = kConditional
      then theGShareShiftReg st = theShiftReg (cp_GShare p) \<and> cp_GShare p' = gShare_shiftIn (theGSharePrediction st) (cp_GShare p)
      else cp_GShare p' = cp_GShare p)"

lemma predict_ok:
  assumes "bp_inv p"
  shows "\<exists>st p'. predict a p = Inr (st, p') \<and> predicted a p st p' \<and> bp_inv p'"
proof -
  have b: "btb_inv (cp_BTB p)" and g: "gshare_inv (cp_GShare p)" using assms by (simp_all add: bp_inv_def)
  obtain bd where "Bimodal_direction a (cp_Bimodal p) = Inr bd" using bm.get_ok assms by (auto simp: bp_inv_def)
  moreover obtain md where "Bimodal_direction a (cp_Meta p) = Inr md" using bm.get_ok assms by (auto simp: bp_inv_def)
  moreover obtain gd where "gShare_direction a (theShiftReg (cp_GShare p)) (cp_GShare p) = Inr gd"
    using gs.get_ok [OF g, of "(a, theShiftReg (cp_GShare p))"] by auto
  ultimately show ?thesis using assms b shiftIn_inv [OF g, of gd]
    by (simp add: predict_def predictConditional_def predicted_def BTB_type_eq BTB_target_eq bp_inv_def Let_def)
qed

lemma train_ok:
  assumes "bp_inv p" "Bimodal_direction pc (cp_Bimodal p) = Inr x"
  shows "\<exists>p'. train pc d st p = Inr p' \<and> bp_inv p' \<and> cp_BTB p' = cp_BTB p \<and> cp_Stats p' = cp_Stats p \<and>
    Bimodal_direction pc (cp_Bimodal p') = Inr (apply_dir d x) \<and>
    theShiftReg (cp_GShare p') = theShiftReg
      (if (theGSharePrediction st \<ge> kNotTaken) \<noteq> (d \<ge> kNotTaken)
       then gShare_shiftIn d (gShare_setShiftReg (theGShareShiftReg st) (cp_GShare p)) else cp_GShare p)"
proof -
  let ?g = "if (theGSharePrediction st \<ge> kNotTaken) \<noteq> (d \<ge> kNotTaken)
    then gShare_shiftIn d (gShare_setShiftReg (theGShareShiftReg st) (cp_GShare p)) else cp_GShare p"
  have g: "gshare_inv ?g" and m: "bimodal_inv (cp_Meta p)" and b: "bimodal_inv (cp_Bimodal p)"
    using assms(1) by (simp_all add: bp_inv_def shiftIn_inv setShiftReg_inv)
  let ?r = "theGShareShiftReg st"
  obtain gd where gd: "gShare_direction pc ?r ?g = Inr gd" using gs.get_ok [OF g, of "(pc, ?r)"] by auto
  obtain md where md: "Bimodal_direction pc (cp_Meta p) = Inr md" using bm.get_ok [OF m] by blast
  obtain bt where bt: "Bimodal_update pc (apply_dir d x) (cp_Bimodal p) = Inr bt" "bimodal_inv bt"
      "Bimodal_direction pc bt = Inr (apply_dir d x)" using bm.put_ok [OF b] by blast
  obtain gt where gt: "gShare_update pc ?r (apply_dir d gd) ?g = Inr gt" "gshare_inv gt"
    using gs.put_ok [OF g, of "(pc, ?r)" "apply_dir d gd"] by auto
  have sr: "theShiftReg gt = theShiftReg ?g" using gt(1) by (auto simp: gShare_update_def Let_def split: if_splits)
  obtain mt where mt: "(if (gd \<ge> kNotTaken) \<noteq> (x \<ge> kNotTaken) then
               Bimodal_update pc (if (d \<ge> kNotTaken) = (gd \<ge> kNotTaken) then moreNotTaken md else moreTaken md)
                 (cp_Meta p) else Inr (cp_Meta p)) = Inr mt" "bimodal_inv mt"
    using bm.put_ok [OF m, of pc] m by (metis (full_types))
  have "train pc d st p = Inr (p\<lparr>cp_Bimodal := bt, cp_GShare := gt, cp_Meta := mt\<rparr>)"
    unfolding train_def Let_def assms(2) gd md bt(1) gt(1) rbind_Inr mt(1) ..
  then show ?thesis using assms(1) bt gt(2) mt(2) sr by (simp add: bp_inv_def)
qed

lemma BTB_update_ok: "btb_inv b \<Longrightarrow> \<exists>n b'. BTB_update pc ty tgt b = Inr (n, b') \<and> btb_inv b'"
  using BTB_update_eq [of b pc ty tgt] BTB_update_inv [of b pc ty tgt] by (auto simp: Let_def split: prod.splits)

text \<open>What both predictors do once the branch target buffer is updated.\<close>

definition resolve :: "u64 \<Rightarrow> eBranchType \<Rightarrow> eDirection \<Rightarrow> u64 \<Rightarrow> BPredState option \<Rightarrow> bool \<Rightarrow> Combining \<Rightarrow> Combining result" where
  "resolve pc ty d t made n p =
     (if ty = kConditional then
        (if n then rbind (Bimodal_update pc d (cp_Bimodal p)) (\<lambda>bm.
            Inr (p\<lparr>cp_Bimodal := bm, cp_GShare := gShare_shiftIn d (cp_GShare p)\<rparr>))
         else (case made of None \<Rightarrow> Inr p | Some st \<Rightarrow> train pc d st p))
      else (case made of None \<Rightarrow> Inr p
        | Some st \<Rightarrow> if thePredictedTarget st \<noteq> t \<and> \<not> n
            then Inr (p\<lparr>cp_GShare := gShare_setShiftReg (theGShareShiftReg st) (cp_GShare p)\<rparr>) else Inr p))"

definition made_prediction :: "BPredState \<Rightarrow> BPredState option" where
  "made_prediction st = (if thePredictedType st = kNonBranch then None else Some st)"

lemma feedback_resolve: "feedback f p =
   rbind (BTB_update (fb_PC f) (fb_ActualType f) (fb_ActualTarget f) (cp_BTB p)) (\<lambda>(n, btb).
     resolve (fb_PC f) (fb_ActualType f) (fb_ActualDirection f) (fb_ActualTarget f) (fb_BPState f) n
       (bp_count (stats f) (p\<lparr>cp_BTB := btb\<rparr>)))"
  by (simp add: feedback_def resolve_def Let_def)

text \<open>The copy of the training code in the predictor of the trace model does what the original does.\<close>

lemma rbind_cong: "(\<And>x. r = Inr x \<Longrightarrow> f x = g x) \<Longrightarrow> rbind r f = rbind r g"
  by (simp add: rbind_def split: sum.split)

lemma fast_train_eq: "fast_train a d st p = train a d st p"
proof (cases p)
  case (fields serial btb bimodal meta gshare ss)
  show ?thesis
  proof (cases "(theGSharePrediction st \<ge> kNotTaken) \<noteq> (d \<ge> kNotTaken)")
    case True
    show ?thesis unfolding fast_train_def train_def Let_def if_P [OF True] fields Combining.select_convs Combining.update_convs
      by (intro rbind_cong) auto
  next
    case False
    show ?thesis unfolding fast_train_def train_def Let_def if_not_P [OF False] fields Combining.select_convs Combining.update_convs
      by (intro rbind_cong) auto
  qed
qed

lemma fast_stats_eq: "fast_stats ty d tg st =
    (if ty \<noteq> thePredictedType st then [''Mispredict'', ''Mispredict_NewBranch'']
     else resolution ty d (tg = ucast (thePredictedTarget st)) st) @ retired ty"
proof -
  have "x \<le> kTaken \<longleftrightarrow> \<not> x \<ge> kNotTaken" for x by (cases x) (simp_all add: less_eq_eDirection_def)
  then show ?thesis
    by (cases ty) (auto simp: fast_stats_def fast_resolution_def resolution_def retired_def Let_def)
qed

lemma fast_predict_eq:
  assumes "bp_inv p"
  shows "fast_predict a p = predict a p"
proof -
  have b: "btb_inv (cp_BTB p)" using assms by (simp add: bp_inv_def)
  have c: "fast_predictConditional a st (p\<lparr>cp_Serial := n\<rparr>) = predictConditional a st (p\<lparr>cp_Serial := n\<rparr>)" for st n
    unfolding fast_predictConditional_def predictConditional_def Let_def
    using b by (cases p) (simp add: BTB_target_eq bp_count_def rbind_def split: sum.split if_splits)
  obtain ty where ty: "BTB_type a (cp_BTB p) = Inr ty" using BTB_type_eq [OF b] by blast
  show ?thesis
    unfolding fast_predict_def predict_def ty rbind_Inr Let_def c
    by (cases ty) (simp_all add: fast_predictTarget_def)
qed

lemma fast_feedback_resolve: "fast_feedback a ty d t st p =
   rbind (BTB_update a ty t (cp_BTB p)) (\<lambda>(n, btb).
     resolve a ty d t (made_prediction st) n (bp_count (fast_stats ty d (ucast t) st) (p\<lparr>cp_BTB := btb\<rparr>)))"
  unfolding fast_feedback_def fast_train_eq
  by (rule arg_cong [where f = "rbind _"]) (auto simp: resolve_def made_prediction_def Let_def fun_eq_iff)

lemma resolve_ok:
  assumes "bp_inv p"
  shows "\<exists>p'. resolve pc ty d t made n p = Inr p' \<and> bp_inv p' \<and> cp_Stats p' = cp_Stats p"
proof -
  have g: "gshare_inv (cp_GShare p)" and b: "bimodal_inv (cp_Bimodal p)" using assms by (simp_all add: bp_inv_def)
  obtain x where x: "Bimodal_direction pc (cp_Bimodal p) = Inr x" using bm.get_ok [OF b] by blast
  obtain bm where bm: "Bimodal_update pc d (cp_Bimodal p) = Inr bm" "bimodal_inv bm" using bm.put_ok [OF b] by blast
  show ?thesis
  proof (cases made)
    case None
    then show ?thesis using assms bm shiftIn_inv [OF g] by (simp add: resolve_def bp_inv_def)
  next
    case (Some st)
    obtain q where "train pc d st p = Inr q" "bp_inv q" "cp_Stats q = cp_Stats p" using train_ok [OF assms x, of d st] by blast
    then show ?thesis using Some assms bm shiftIn_inv [OF g] setShiftReg_inv [OF g] by (simp add: resolve_def bp_inv_def)
  qed
qed

lemma feedback_ok:
  assumes "bp_inv p"
  shows "\<exists>p'. feedback f p = Inr p' \<and> bp_inv p' \<and> cp_Stats p' = cp_Stats p @ stats f"
proof -
  obtain n btb where u: "BTB_update (fb_PC f) (fb_ActualType f) (fb_ActualTarget f) (cp_BTB p) = Inr (n, btb)" "btb_inv btb"
    using BTB_update_ok assms by (metis bp_inv_def)
  have "bp_inv (bp_count (stats f) (p\<lparr>cp_BTB := btb\<rparr>))" using assms u by (simp add: bp_inv_def)
  from resolve_ok [OF this] show ?thesis by (simp add: feedback_resolve u)
qed

text \<open>The two predictors keep the same tables: they differ in the statistics only.\<close>

definition tables :: "Combining \<Rightarrow> Combining" where
  "tables p = p\<lparr>cp_Stats := []\<rparr>"

lemma map_rbind: "map_sum id f (rbind r g) = rbind r (\<lambda>x. map_sum id f (g x))"
  by (cases r) simp_all

lemma train_count: "train pc d st (bp_count cs p) = map_sum id (bp_count cs) (train pc d st p)"
  unfolding train_def Let_def map_rbind by (cases p) (simp add: bp_count_def cong: if_cong)

lemma resolve_count: "resolve pc ty d t made n (bp_count cs p) = map_sum id (bp_count cs) (resolve pc ty d t made n p)"
  using train_count [of pc d _ cs p] by (simp add: resolve_def rbind_def bp_count_def split: sum.split option.split)

lemma fast_feedback_eq:
  assumes "bp_inv p"
  shows "\<exists>p' p''. feedback \<lparr>fb_PC = a, fb_ActualType = ty, fb_ActualDirection = d, fb_ActualTarget = t,
      fb_BPState = made_prediction st\<rparr> p = Inr p' \<and> fast_feedback a ty d t st p = Inr p'' \<and>
    tables p'' = tables p' \<and> bp_inv p'' \<and> cp_Stats p'' = cp_Stats p @ fast_stats ty d (ucast t) st"
proof -
  obtain n btb where u: "BTB_update a ty t (cp_BTB p) = Inr (n, btb)" "btb_inv btb"
    using BTB_update_ok assms by (metis bp_inv_def)
  have "bp_inv (p\<lparr>cp_BTB := btb\<rparr>)" using assms u by (simp add: bp_inv_def)
  then obtain q where q: "resolve a ty d t (made_prediction st) n (p\<lparr>cp_BTB := btb\<rparr>) = Inr q" "bp_inv q" "cp_Stats q = cp_Stats p"
    using resolve_ok by fastforce
  have "tables (bp_count cs q) = tables q" for cs by (simp add: tables_def bp_count_def)
  then show ?thesis using q by (simp add: feedback_resolve fast_feedback_resolve u resolve_count)
qed

lemma fast_feedback_ok:
  assumes "bp_inv p"
  shows "\<exists>p'. fast_feedback a ty d t st p = Inr p' \<and> bp_inv p' \<and> cp_Stats p' = cp_Stats p @ fast_stats ty d (ucast t) st"
  using fast_feedback_eq [OF assms] by blast

lemma resolution_resolved:
  "count_list (resolution ty d b st) ''Correct'' + count_list (resolution ty d b st) ''Mispredict'' = 1"
  by (simp add: resolution_def Let_def)

lemma retired_resolved: "count_list (retired ty) ''Correct'' = 0" "count_list (retired ty) ''Mispredict'' = 0"
  by (simp_all add: retired_def split: eBranchType.split)

lemma stats_resolved:
  "count_list (stats f) ''Correct'' + count_list (stats f) ''Mispredict'' = 1"
  "count_list (fast_stats ty d tg st) ''Correct'' + count_list (fast_stats ty d tg st) ''Mispredict'' = 1"
  using resolution_resolved by (simp_all add: stats_def fast_stats_eq retired_resolved split: option.split)

text \<open>What a predictor does depends on its tables and not on its statistics.\<close>

lemma tables_count: "p = bp_count (cp_Stats p) (tables p)" "tables (bp_count cs p) = tables p"
  by (simp_all add: tables_def bp_count_def)

lemma tables_map: "map_sum id tables (map_sum id (bp_count cs) x) = map_sum id tables x"
  by (cases x) (simp_all add: tables_count(2))

lemma tables_inv: "tables q = tables p \<Longrightarrow> bp_inv q = bp_inv p"
  by (metis bp_inv_count tables_count(1))

lemma feedback_tables:
  assumes "bp_inv p" "tables q = tables p"
  shows "\<exists>p' q'. feedback f p = Inr p' \<and> feedback f q = Inr q' \<and> tables q' = tables p' \<and> bp_inv p'"
proof -
  have "\<exists>p'. feedback f r = Inr p' \<and> bp_inv p' \<and>
      map_sum id tables (rbind (BTB_update (fb_PC f) (fb_ActualType f) (fb_ActualTarget f) (cp_BTB (tables p))) (\<lambda>(n, btb).
        resolve (fb_PC f) (fb_ActualType f) (fb_ActualDirection f) (fb_ActualTarget f) (fb_BPState f) n
          ((tables p)\<lparr>cp_BTB := btb\<rparr>))) = Inr (tables p')" if r: "bp_inv r" "tables r = tables p" for r
  proof -
    obtain p' where p': "feedback f r = Inr p'" "bp_inv p'" using feedback_ok [OF r(1)] by blast
    have e: "r = bp_count (cp_Stats r) (tables p)" using tables_count(1) [of r] r(2) by simp
    have c: "bp_count cs (p\<lparr>cp_BTB := btb\<rparr>) = (bp_count cs p)\<lparr>cp_BTB := btb\<rparr>" "bp_count ds (bp_count cs p) = bp_count (cs @ ds) p"
      for cs ds p btb by (simp_all add: bp_count_def)
    have "feedback f r = rbind (BTB_update (fb_PC f) (fb_ActualType f) (fb_ActualTarget f) (cp_BTB (tables p))) (\<lambda>(n, btb).
        map_sum id (bp_count (cp_Stats r @ stats f)) (resolve (fb_PC f) (fb_ActualType f) (fb_ActualDirection f)
          (fb_ActualTarget f) (fb_BPState f) n ((tables p)\<lparr>cp_BTB := btb\<rparr>)))"
      by (subst e) (simp add: feedback_resolve resolve_count [symmetric] c)
    then have "map_sum id tables (feedback f r) = map_sum id tables (rbind (BTB_update (fb_PC f) (fb_ActualType f) (fb_ActualTarget f)
        (cp_BTB (tables p))) (\<lambda>(n, btb). resolve (fb_PC f) (fb_ActualType f) (fb_ActualDirection f) (fb_ActualTarget f) (fb_BPState f) n
          ((tables p)\<lparr>cp_BTB := btb\<rparr>)))"
      by (simp add: map_rbind case_prod_unfold tables_map)
    then show ?thesis using p' by simp
  qed
  from this [OF assms(1) refl] this [of q] tables_inv [OF assms(2)] assms show ?thesis by auto
qed

lemma predict_tables:
  assumes "bp_inv p" "tables q = tables p"
  shows "\<exists>st p' q'. predict a p = Inr (st, p') \<and> predict a q = Inr (st, q') \<and> tables q' = tables p' \<and> bp_inv p'"
proof -
  obtain st p' where p': "predict a p = Inr (st, p')" "bp_inv p'" using predict_ok [OF assms(1)] by blast
  have "q = p\<lparr>cp_Stats := cp_Stats q\<rparr>" using assms(2) by (cases p; cases q) (simp add: tables_def)
  then obtain ss where q: "q = p\<lparr>cp_Stats := ss\<rparr>" by blast
  have "map_sum id (map_prod id tables) (predict a q) = map_sum id (map_prod id tables) (predict a p)"
    unfolding q predict_def predictConditional_def Let_def
    by (cases p) (simp add: rbind_def bp_count_def tables_def split: sum.split)
  then show ?thesis using p' by (cases "predict a q") auto
qed

end
