(* ===== verification/Branch_Properties.thy ===== *)
theory Branch_Properties
  imports Branch_Correct
begin

text \<open>
  The properties of the branch predictor: the branch target buffer as a bounded map, the
  repair of the speculative history, the training of the counters, the agreement of the two
  predictors, and what a checkpoint keeps of them.
\<close>

section \<open>Sequences of predictions\<close>

fun predicts :: "u64 list \<Rightarrow> Combining \<Rightarrow> Combining result" where
  "predicts [] p = Inr p"
| "predicts (a # as) p = rbind (predict a p) (\<lambda>(st, p). predicts as p)"

lemma predicted_mask: "predicted a p st p' \<Longrightarrow> thePatternMask (cp_GShare p') = thePatternMask (cp_GShare p)"
  by (auto simp: predicted_def gShare_shiftIn_def Let_def split: if_splits)

lemma predicts_ok:
  assumes "bp_inv p"
  shows "\<exists>p'. predicts as p = Inr p' \<and> bp_inv p' \<and> cp_BTB p' = cp_BTB p \<and> thePatternMask (cp_GShare p') = thePatternMask (cp_GShare p)"
  using assms
proof (induction "as" arbitrary: p)
  case Nil
  then show ?case by simp
next
  case (Cons a "as")
  obtain st p1 where p1: "predict a p = Inr (st, p1)" "predicted a p st p1" "bp_inv p1" using predict_ok [OF Cons.prems] by blast
  have "cp_BTB p1 = cp_BTB p" using p1(2) by (simp add: predicted_def)
  then show ?case using Cons.IH [OF p1(3)] p1(1) predicted_mask [OF p1(2)] by simp
qed

text \<open>A branch whose entry the branch target buffer has is not new to it.\<close>

lemma update_known:
  assumes "btb_inv b" "BTB_contains a b = Inr True"
  shows "\<exists>b'. BTB_update a ty t b = Inr (False, b') \<and> btb_inv b'"
proof -
  obtain e where e: "find (\<lambda>e. btb_PC e = a) (theBTB b ! BTB_index a b) = Some e"
    using assms by (auto simp: BTB_contains_def BTB_find_eq)
  obtain n b' where u: "BTB_update a ty t b = Inr (n, b')" "btb_inv b'" using BTB_update_ok [OF assms(1)] by blast
  have "\<not> n" using u(1) by (simp add: BTB_update_eq [OF assms(1)] btb_spec_def e)
  then show ?thesis using u by simp
qed

lemma type_contains: "btb_inv b \<Longrightarrow> BTB_type a b = Inr kConditional \<Longrightarrow> BTB_contains a b = Inr True"
  by (auto simp: BTB_type_eq BTB_contains_def BTB_find_eq split: option.splits)

text \<open>The register a repair leaves is the one the branch found, with the outcome shifted in.\<close>

lemma repair_register:
  assumes "gshare_inv g" "thePatternMask h = thePatternMask g"
  shows "theShiftReg (gShare_shiftIn d (gShare_setShiftReg (theShiftReg g) h)) = theShiftReg (gShare_shiftIn d g)"
proof -
  have "theShiftReg g AND thePatternMask g = theShiftReg g" using assms(1) unfolding gshare_inv_def by blast
  then show ?thesis by (simp add: gShare_shiftIn_def gShare_setShiftReg_def Let_def assms(2))
qed

lemma known_feedback:
  assumes "bp_inv p" "BTB_contains a (cp_BTB p) = Inr True" "Bimodal_direction a (cp_Bimodal p) = Inr x"
  shows "\<exists>p'. feedback \<lparr>fb_PC = a, fb_ActualType = kConditional, fb_ActualDirection = d, fb_ActualTarget = t, fb_BPState = Some st\<rparr> p = Inr p' \<and>
    bp_inv p' \<and> BTB_contains a (cp_BTB p') = Inr True \<and> Bimodal_direction a (cp_Bimodal p') = Inr (apply_dir d x) \<and>
    theShiftReg (cp_GShare p') = theShiftReg
      (if (theGSharePrediction st \<ge> kNotTaken) \<noteq> (d \<ge> kNotTaken)
       then gShare_shiftIn d (gShare_setShiftReg (theGShareShiftReg st) (cp_GShare p)) else cp_GShare p)"
proof -
  let ?f = "\<lparr>fb_PC = a, fb_ActualType = kConditional, fb_ActualDirection = d, fb_ActualTarget = t, fb_BPState = Some st\<rparr>"
  have b: "btb_inv (cp_BTB p)" using assms(1) by (simp add: bp_inv_def)
  obtain b' where b': "BTB_update a kConditional t (cp_BTB p) = Inr (False, b')" "btb_inv b'" using update_known [OF b assms(2)] by blast
  have e: "b' = (cp_BTB p)\<lparr>theBTB := (theBTB (cp_BTB p))[BTB_index a (cp_BTB p) :=
      snd (btb_spec (theBTBAssoc (cp_BTB p)) a kConditional t (theBTB (cp_BTB p) ! BTB_index a (cp_BTB p)))]\<rparr>"
    using BTB_update_eq [OF b, of a kConditional t] b'(1) by (auto simp: Let_def split: prod.splits)
  have ix: "BTB_index a b' = BTB_index a (cp_BTB p)" by (simp add: e BTB_index_def)
  have c: "BTB_contains a b' = Inr True"
    using find_spec_self [of a "theBTBAssoc (cp_BTB p)" kConditional t "theBTB (cp_BTB p) ! BTB_index a (cp_BTB p)"] btb_index [OF b, of a]
    by (simp add: BTB_contains_def BTB_find_eq [OF b'(2)] ix) (simp add: e)
  let ?p = "bp_count (stats ?f) (p\<lparr>cp_BTB := b'\<rparr>)"
  have "bp_inv ?p" using assms(1) b'(2) by (simp add: bp_inv_def)
  from train_ok [OF this, of a x d st] assms(3) show ?thesis using c b'(1) by (auto simp: feedback_def Let_def)
qed

section \<open>Properties\<close>

text \<open>
  C16: After an update the branch target buffer answers for the address with the new type and
  target (an update without a target keeps the old one), not at all when the instruction is
  not a branch, and for every other address as before, unless the update needed a new entry
  in a full set: then the entry of that set that was updated least recently is gone. Sets
  never exceed the associativity.
\<close>

theorem BTB_update_lookup:
  fixes b :: BTB and pc :: u64
  assumes "btb_inv b"
  defines "s \<equiv> theBTB b ! BTB_index pc b"
  shows "\<exists>n b'. BTB_update pc ty tgt b = Inr (n, b') \<and> btb_inv b' \<and>
    BTB_find pc b' = Inr (if ty = kNonBranch then None
      else Some \<lparr>btb_PC = pc, btb_Type = ty, btb_Target =
        (case find (\<lambda>e. btb_PC e = pc) s of Some e \<Rightarrow> if tgt \<noteq> 0 then tgt else btb_Target e | None \<Rightarrow> tgt)\<rparr>) \<and>
    (\<forall>q. q \<noteq> pc \<longrightarrow> BTB_find q b' =
      (if ty \<noteq> kNonBranch \<and> find (\<lambda>e. btb_PC e = pc) s = None \<and> theBTBAssoc b \<le> length s \<and> q = btb_PC (hd s)
       then Inr None else BTB_find q b))"
proof -
  let ?i = "BTB_index pc b" and ?s' = "snd (btb_spec (theBTBAssoc b) pc ty tgt s)"
  let ?b = "b\<lparr>theBTB := (theBTB b)[?i := ?s']\<rparr>"
  obtain n where u: "BTB_update pc ty tgt b = Inr (n, ?b)"
    using BTB_update_eq [OF assms(1), of pc ty tgt] by (auto simp: s_def Let_def split: prod.splits)
  have inv: "btb_inv ?b" by (rule BTB_update_inv [OF assms(1) u])
  have i: "?i < length (theBTB b)" by (rule btb_index [OF assms(1)])
  have ix: "BTB_index q ?b = BTB_index q b" for q by (simp add: BTB_index_def)
  have set: "distinct (map btb_PC s)" "\<forall>e \<in> set s. BTB_index (btb_PC e) b = ?i" and a: "0 < theBTBAssoc b"
    using assms(1) i by (auto simp: s_def btb_inv_def btb_set_inv_def)
  have self: "BTB_find pc ?b = Inr (find (\<lambda>e. btb_PC e = pc) ?s')"
    unfolding BTB_find_eq [OF inv] ix using i by simp
  have other: "BTB_find q ?b = (if ty \<noteq> kNonBranch \<and> find (\<lambda>e. btb_PC e = pc) s = None \<and> theBTBAssoc b \<le> length s \<and> q = btb_PC (hd s)
      then Inr None else BTB_find q b)" if q: "q \<noteq> pc" for q
  proof (cases "BTB_index q b = ?i")
    case False
    have "BTB_find q ?b = BTB_find q b" unfolding BTB_find_eq [OF inv] BTB_find_eq [OF assms(1)] ix using False by simp
    moreover have "theBTBAssoc b \<le> length s \<Longrightarrow> q \<noteq> btb_PC (hd s)" using False set(2) a by (cases s) auto
    ultimately show ?thesis by auto
  next
    case True
    have "BTB_find q ?b = Inr (find (\<lambda>e. btb_PC e = q)
        (if ty \<noteq> kNonBranch \<and> find (\<lambda>e. btb_PC e = pc) s = None \<and> theBTBAssoc b \<le> length s then tl s else s))"
      unfolding BTB_find_eq [OF inv] ix True using i by (simp add: find_spec_other [OF q])
    moreover have "find (\<lambda>e. btb_PC e = q) (tl s) = (if q = btb_PC (hd s) then None else find (\<lambda>e. btb_PC e = q) s)" if "s \<noteq> []"
      using that set(1) by (cases s) (auto simp: find_None intro: rev_image_eqI)
    moreover have "theBTBAssoc b \<le> length s \<Longrightarrow> s \<noteq> []" using a by auto
    ultimately show ?thesis unfolding BTB_find_eq [OF assms(1)] True s_def [symmetric] by auto
  qed
  show ?thesis using u inv self other find_spec_self [of pc "theBTBAssoc b" ty tgt s] by (intro exI [of _ n] exI [of _ ?b]) simp
qed

theorem BTB_update_lookup_witness:
  "\<exists>b n b'. BTB_new 4 2 = Inr b \<and> BTB_update 64 kCall 128 b = Inr (n, b') \<and>
    BTB_find 64 b' = Inr (Some \<lparr>btb_PC = 64, btb_Type = kCall, btb_Target = 128\<rparr>)"
proof -
  obtain b where b: "BTB_new 4 2 = Inr b" "btb_inv b" using BTB_new_inv [of 2 2] by auto
  have "find (\<lambda>e. btb_PC e = 64) (theBTB b ! BTB_index 64 b) = None"
    using b(1) unat_and_mask [of "16 :: u64" 2] by (auto simp: BTB_new_def BTB_index_def dbg_assert_def split: if_splits)
  then show ?thesis using BTB_update_lookup [OF b(2), of 64 kCall 128] b(1) by auto
qed

text \<open>
  C15: The speculative history is repaired. When a conditional branch resolves after any number of
  further predictions, the gshare history is the one of the time of the branch with the
  actual outcome shifted in, if gshare had predicted it wrongly; otherwise it is left as the
  later predictions made it, and without any that is the same register.
\<close>

theorem history_repaired:
  assumes "bp_inv p" "BTB_type a (cp_BTB p) = Inr kConditional"
  shows "\<exists>st p1 p2 p3. predict a p = Inr (st, p1) \<and> predicts as p1 = Inr p2 \<and>
    feedback \<lparr>fb_PC = a, fb_ActualType = kConditional, fb_ActualDirection = d, fb_ActualTarget = t, fb_BPState = Some st\<rparr> p2 = Inr p3 \<and>
    theShiftReg (cp_GShare p3) =
      (if (theGSharePrediction st \<ge> kNotTaken) \<noteq> (d \<ge> kNotTaken) \<or> as = []
       then theShiftReg (gShare_shiftIn d (cp_GShare p)) else theShiftReg (cp_GShare p2))"
proof -
  obtain st p1 where p1: "predict a p = Inr (st, p1)" "predicted a p st p1" "bp_inv p1" using predict_ok [OF assms(1)] by blast
  have st: "theGShareShiftReg st = theShiftReg (cp_GShare p)" "cp_GShare p1 = gShare_shiftIn (theGSharePrediction st) (cp_GShare p)"
    "cp_BTB p1 = cp_BTB p" using p1(2) assms(2) by (auto simp: predicted_def)
  obtain p2 where p2: "predicts as p1 = Inr p2" "bp_inv p2" "cp_BTB p2 = cp_BTB p1"
    "thePatternMask (cp_GShare p2) = thePatternMask (cp_GShare p1)" using predicts_ok [OF p1(3)] by blast
  have g: "gshare_inv (cp_GShare p)" and b: "btb_inv (cp_BTB p)" using assms(1) by (simp_all add: bp_inv_def)
  have c: "BTB_contains a (cp_BTB p2) = Inr True" using type_contains [OF b assms(2)] p2(3) st(3) by simp
  obtain x where x: "Bimodal_direction a (cp_Bimodal p2) = Inr x" using bm.get_ok p2(2) unfolding bp_inv_def by blast
  obtain p3 where p3: "feedback \<lparr>fb_PC = a, fb_ActualType = kConditional, fb_ActualDirection = d, fb_ActualTarget = t, fb_BPState = Some st\<rparr> p2 = Inr p3"
    "theShiftReg (cp_GShare p3) = theShiftReg
      (if (theGSharePrediction st \<ge> kNotTaken) \<noteq> (d \<ge> kNotTaken)
       then gShare_shiftIn d (gShare_setShiftReg (theGShareShiftReg st) (cp_GShare p2)) else cp_GShare p2)"
    using known_feedback [OF p2(2) c x] by blast
  have m: "thePatternMask (cp_GShare p2) = thePatternMask (cp_GShare p)" using p2(4) predicted_mask [OF p1(2)] by simp
  have "theShiftReg (cp_GShare p2) = theShiftReg (gShare_shiftIn d (cp_GShare p))"
    if "as = []" "(theGSharePrediction st \<ge> kNotTaken) = (d \<ge> kNotTaken)"
    using that p2(1) st(2) by (simp add: gShare_shiftIn_def)
  then show ?thesis using p1(1) p2(1) p3 repair_register [OF g m, of d] st(1)
    by (intro exI [of _ st] exI [of _ p1] exI [of _ p2] exI [of _ p3]) auto
qed

text \<open>A predictor that has seen one conditional branch.\<close>

lemma seen_conditional:
  "\<exists>p. bp_inv p \<and> BTB_type 64 (cp_BTB p) = Inr kConditional \<and> rbind CombiningImpl
     (feedback \<lparr>fb_PC = 64, fb_ActualType = kConditional, fb_ActualDirection = kTaken, fb_ActualTarget = 128, fb_BPState = None\<rparr>) = Inr p"
proof -
  let ?f = "\<lparr>fb_PC = 64, fb_ActualType = kConditional, fb_ActualDirection = kTaken, fb_ActualTarget = 128, fb_BPState = None\<rparr>"
  obtain p0 where p0: "CombiningImpl = Inr p0" "bp_inv p0" using CombiningImpl_inv by blast
  obtain p where p: "feedback ?f p0 = Inr p" "bp_inv p" using feedback_ok [OF p0(2)] by blast
  have b: "btb_inv (cp_BTB p0)" using p0(2) by (simp add: bp_inv_def)
  obtain n b' where u: "BTB_update 64 kConditional 128 (cp_BTB p0) = Inr (n, b')" "btb_inv b'" using BTB_update_ok [OF b] by blast
  have i: "BTB_index 64 b' = BTB_index 64 (cp_BTB p0)" and
    s: "theBTB b' ! BTB_index 64 (cp_BTB p0) = snd (btb_spec (theBTBAssoc (cp_BTB p0)) 64 kConditional 128 (theBTB (cp_BTB p0) ! BTB_index 64 (cp_BTB p0)))"
    using u(1) btb_index [OF b, of 64] by (auto simp: BTB_update_eq [OF b] BTB_index_def Let_def split: prod.splits)
  have "cp_BTB p = b'" using p(1) u(1) by (auto simp: feedback_def Let_def split: if_splits)
  then have "BTB_type 64 (cp_BTB p) = Inr kConditional" by (simp add: BTB_type_eq [OF u(2)] i s find_spec_self)
  then show ?thesis using p p0(1) by auto
qed

theorem history_repaired_witness:
  "\<exists>p st p1 p2 p3. rbind CombiningImpl (feedback \<lparr>fb_PC = 64, fb_ActualType = kConditional, fb_ActualDirection = kTaken,
      fb_ActualTarget = 128, fb_BPState = None\<rparr>) = Inr p \<and> predict 64 p = Inr (st, p1) \<and> predicts [64, 68] p1 = Inr p2 \<and>
    feedback \<lparr>fb_PC = 64, fb_ActualType = kConditional, fb_ActualDirection = kNotTaken, fb_ActualTarget = 0, fb_BPState = Some st\<rparr> p2 = Inr p3 \<and>
    (theGSharePrediction st \<le> kTaken \<longrightarrow> theShiftReg (cp_GShare p3) = theShiftReg (gShare_shiftIn kNotTaken (cp_GShare p)))"
proof -
  obtain p where p: "bp_inv p" "BTB_type 64 (cp_BTB p) = Inr kConditional" "rbind CombiningImpl (feedback \<lparr>fb_PC = 64,
      fb_ActualType = kConditional, fb_ActualDirection = kTaken, fb_ActualTarget = 128, fb_BPState = None\<rparr>) = Inr p"
    using seen_conditional by blast
  have k: "x \<le> kTaken \<Longrightarrow> \<not> kNotTaken \<le> x" for x by (cases x) (simp_all add: less_eq_eDirection_def)
  obtain st p1 p2 p3 where h: "predict 64 p = Inr (st, p1)" "predicts [64, 68] p1 = Inr p2"
    "feedback \<lparr>fb_PC = 64, fb_ActualType = kConditional, fb_ActualDirection = kNotTaken, fb_ActualTarget = 0, fb_BPState = Some st\<rparr> p2 = Inr p3"
    "theShiftReg (cp_GShare p3) = (if (theGSharePrediction st \<ge> kNotTaken) \<noteq> (kNotTaken \<ge> kNotTaken) \<or> [64, 68 :: u64] = []
       then theShiftReg (gShare_shiftIn kNotTaken (cp_GShare p)) else theShiftReg (cp_GShare p2))"
    using history_repaired [OF p(1,2), of "[64, 68]" kNotTaken 0] by blast
  show ?thesis using p(3) h(1-3) h(4) k by (intro exI [of _ p] exI [of _ st] exI [of _ p1] exI [of _ p2] exI [of _ p3]) simp
qed

text \<open>Two resolved outcomes in the same direction train the bimodal counter of a known
  conditional branch to that direction, whatever it was before.\<close>

theorem bimodal_learns:
  assumes "bp_inv p" "BTB_contains a (cp_BTB p) = Inr True"
  shows "\<exists>p1 p2 x. feedback \<lparr>fb_PC = a, fb_ActualType = kConditional, fb_ActualDirection = d, fb_ActualTarget = t, fb_BPState = Some st\<rparr> p = Inr p1 \<and>
    feedback \<lparr>fb_PC = a, fb_ActualType = kConditional, fb_ActualDirection = d, fb_ActualTarget = t, fb_BPState = Some st'\<rparr> p1 = Inr p2 \<and>
    Bimodal_direction a (cp_Bimodal p2) = Inr x \<and> (x \<ge> kNotTaken) = (d \<ge> kNotTaken)"
proof -
  obtain x where x: "Bimodal_direction a (cp_Bimodal p) = Inr x" using bm.get_ok assms(1) unfolding bp_inv_def by blast
  obtain p1 where p1: "feedback \<lparr>fb_PC = a, fb_ActualType = kConditional, fb_ActualDirection = d, fb_ActualTarget = t, fb_BPState = Some st\<rparr> p = Inr p1"
    "bp_inv p1" "BTB_contains a (cp_BTB p1) = Inr True" "Bimodal_direction a (cp_Bimodal p1) = Inr (apply_dir d x)"
    using known_feedback [OF assms x] by blast
  show ?thesis using known_feedback [OF p1(2-4), of d t st'] p1(1) apply_twice [of d x] by blast
qed

definition bp_state0 :: BPredState where
  "bp_state0 = \<lparr>thePredictedType = kConditional, thePredictedTarget = 128, thePrediction = kTaken, theBimodalPrediction = kTaken,
     theMetaPrediction = kTaken, theGSharePrediction = kTaken, theGShareShiftReg = 0, theBPSerial = 0\<rparr>"

theorem bimodal_learns_witness:
  "\<exists>p p1 p2 x. rbind CombiningImpl (feedback \<lparr>fb_PC = 64, fb_ActualType = kConditional, fb_ActualDirection = kTaken,
      fb_ActualTarget = 128, fb_BPState = None\<rparr>) = Inr p \<and>
    feedback \<lparr>fb_PC = 64, fb_ActualType = kConditional, fb_ActualDirection = kNotTaken, fb_ActualTarget = 0, fb_BPState = Some bp_state0\<rparr> p = Inr p1 \<and>
    feedback \<lparr>fb_PC = 64, fb_ActualType = kConditional, fb_ActualDirection = kNotTaken, fb_ActualTarget = 0, fb_BPState = Some bp_state0\<rparr> p1 = Inr p2 \<and>
    Bimodal_direction 64 (cp_Bimodal p2) = Inr x \<and> (x \<ge> kNotTaken) = (kNotTaken \<ge> kNotTaken)"
proof -
  obtain p where p: "bp_inv p" "BTB_type 64 (cp_BTB p) = Inr kConditional" "rbind CombiningImpl (feedback \<lparr>fb_PC = 64,
      fb_ActualType = kConditional, fb_ActualDirection = kTaken, fb_ActualTarget = 128, fb_BPState = None\<rparr>) = Inr p"
    using seen_conditional by blast
  have "BTB_contains 64 (cp_BTB p) = Inr True" using type_contains p unfolding bp_inv_def by blast
  from bimodal_learns [OF p(1) this, of kNotTaken 0 bp_state0 bp_state0] show ?thesis using p(3) by blast
qed







text \<open>A checkpoint keeps the branch target buffer, the counters and the sizes, but not the
  history: the register that was saved is not read back, and the predictor that loads it keeps
  its own, masked with the number of its bits; so does the one that saves it.\<close>

theorem checkpoint_loses_history:
  "let (img, p') = bp_saveState p; q' = bp_loadState img q in
     cp_BTB q' = cp_BTB p \<and> cp_Bimodal q' = cp_Bimodal p \<and> cp_Meta q' = cp_Meta p \<and>
     thePatternTable (cp_GShare q') = thePatternTable (cp_GShare p) \<and> theShiftRegSize (cp_GShare q') = theShiftRegSize (cp_GShare p) \<and>
     thePatternMask (cp_GShare q') = thePatternMask (cp_GShare p) \<and>
     theShiftReg (cp_GShare q') = theShiftReg (cp_GShare q) AND of_nat (theShiftRegSize (cp_GShare p)) \<and>
     theShiftReg (cp_GShare p') = theShiftReg (cp_GShare p) AND of_nat (theShiftRegSize (cp_GShare p))"
  by (simp add: bp_saveState_def bp_loadState_def gShare_save_def gShare_load_def Let_def)

section \<open>Statistics\<close>

fun bp_run :: "(u64 + BranchFeedback) list \<Rightarrow> Combining \<Rightarrow> Combining result" where
  "bp_run [] p = Inr p"
| "bp_run (Inl a # es) p = rbind (predict a p) (\<lambda>(st, p). bp_run es p)"
| "bp_run (Inr f # es) p = rbind (feedback f p) (bp_run es)"

lemma bp_run_ok:
  assumes "bp_inv p"
  shows "\<exists>p'. bp_run es p = Inr p' \<and> bp_inv p' \<and> count_list (cp_Stats p') ''Correct'' + count_list (cp_Stats p') ''Mispredict'' =
    count_list (cp_Stats p) ''Correct'' + count_list (cp_Stats p) ''Mispredict'' + length (filter (\<lambda>e. \<not> isl e) es)"
  using assms
proof (induction es arbitrary: p)
  case Nil
  then show ?case by simp
next
  case (Cons e es)
  show ?case
  proof (cases e)
    case (Inl a)
    obtain st p1 where p1: "predict a p = Inr (st, p1)" "predicted a p st p1" "bp_inv p1" using predict_ok [OF Cons.prems] by blast
    obtain cs where "cp_Stats p1 = cp_Stats p @ cs" "''Correct'' \<notin> set cs" "''Mispredict'' \<notin> set cs" using p1(2) unfolding predicted_def by blast
    then have "count_list (cp_Stats p1) ''Correct'' = count_list (cp_Stats p) ''Correct''"
      "count_list (cp_Stats p1) ''Mispredict'' = count_list (cp_Stats p) ''Mispredict''" by (simp_all add: count_list_0_iff)
    then show ?thesis using Cons.IH [OF p1(3)] p1(1) Inl by simp
  next
    case (Inr f)
    obtain p1 where p1: "feedback f p = Inr p1" "bp_inv p1" "cp_Stats p1 = cp_Stats p @ stats f" using feedback_ok [OF Cons.prems] by blast
    then show ?thesis using Cons.IH [OF p1(2)] stats_resolved(1) [of f] Inr by auto
  qed
qed

text \<open>
  C20: However predictions and outcomes interleave, the predictor never indexes out of a table,
  and its statistics count every outcome once, as predicted correctly or mispredicted.
\<close>

theorem outcomes_counted_once:
  "\<exists>p p'. CombiningImpl = Inr p \<and> bp_run es p = Inr p' \<and> bp_inv p' \<and>
    count_list (cp_Stats p') ''Correct'' + count_list (cp_Stats p') ''Mispredict'' = length (filter (\<lambda>e. \<not> isl e) es)"
proof -
  obtain p where p: "CombiningImpl = Inr p" "bp_inv p" "cp_Stats p = []" using CombiningImpl_inv by blast
  then show ?thesis using bp_run_ok [OF p(2), of es] by auto
qed

end
