(* ===== verification/Branch_Warm.thy ===== *)
theory Branch_Warm
  imports Branch_Correct
begin

text \<open>
  The component that trains the trace model's branch predictor with the instructions the
  processors execute (\<open>components/BPWarm/BPWarmImpl.cpp\<close>). A core keeps the last two
  instructions, in vectors of two that the bit \<open>theOne\<close> indexes: a branch is resolved when
  the instruction after its delay slot arrives. Then that it never fails, and what it
  teaches the predictor of a branch.
\<close>

section \<open>State\<close>

record BPWarm =
  bpw_Predictor :: Combining
  theFetchAddress :: "(bool \<Rightarrow> u64) list"
  theFetchState :: "(bool \<Rightarrow> BPredState) list"
  theFetchType :: "(bool \<Rightarrow> eBranchType) list"
  theFetchAnnul :: "(bool \<Rightarrow> bool) list"
  theOne :: "bool list"

definition BPredState_new :: BPredState where
  "BPredState_new = \<lparr>thePredictedType = kNonBranch, thePredictedTarget = 0, thePrediction = kStronglyTaken,
     theBimodalPrediction = kStronglyTaken, theMetaPrediction = kStronglyTaken, theGSharePrediction = kStronglyTaken,
     theGShareShiftReg = 0, theBPSerial = 0\<rparr>"

definition bpw_initialize :: "nat \<Rightarrow> BPWarm result" where
  "bpw_initialize cores = rbind FastCombiningImpl (\<lambda>bp. Inr
     \<lparr>bpw_Predictor = bp, theFetchAddress = replicate cores (\<lambda>b. 0), theFetchState = replicate cores (\<lambda>b. BPredState_new),
      theFetchType = replicate cores (\<lambda>b. kNonBranch), theFetchAnnul = replicate cores (\<lambda>b. False), theOne = replicate cores False\<rparr>)"

section \<open>Operations\<close>

definition decode :: "u32 \<Rightarrow> eBranchType \<times> bool" where
  "decode opcode =
     (let op = drop_bit 30 opcode AND 3 in
      if op = 0 then
        (let op2 = drop_bit 22 opcode AND 0x7 in
         if op2 \<in> {1, 2, 3, 5, 6} then (kConditional, opcode AND 0x20000000 \<noteq> 0) else (kNonBranch, False))
      else if op = 1 then (kUnconditional, False)
      else if op = 2 then
        (let op3 = drop_bit 19 opcode AND 0x3F in
         if op3 = 0x38 \<or> op3 = 0x39 then (kUnconditional, False) else (kNonBranch, False))
      else (kNonBranch, False))"

text \<open>The vectors have one element per core; an index outside of them is undefined.\<close>

definition valid_core :: "nat \<Rightarrow> BPWarm \<Rightarrow> 'a result \<Rightarrow> 'a result" where
  "valid_core i s k = (if i < length (theOne s) \<and> i < length (theFetchAddress s) \<and> i < length (theFetchState s) \<and>
     i < length (theFetchType s) \<and> i < length (theFetchAnnul s) then k else Inl OutOfRange)"

definition outcome :: "eBranchType \<Rightarrow> bool \<Rightarrow> u64 \<Rightarrow> u64 \<Rightarrow> u64 \<Rightarrow> eDirection \<times> u64" where
  "outcome ty annul pc slot actual =
     (if ty = kConditional then
        (if (if annul then slot else actual) = pc + 8 then (kNotTaken, 0) else (kTaken, actual))
      else if ty = kNonBranch then (kNotTaken, 0) else (kTaken, actual))"

definition doUpdate :: "u64 \<Rightarrow> nat \<Rightarrow> BPWarm \<Rightarrow> BPWarm result" where
  "doUpdate theActual i s = valid_core i s
     (let anOne = theOne s ! i;
          pc = (theFetchAddress s ! i) (\<not> anOne);
          ty = (theFetchType s ! i) (\<not> anOne);
          (dir, target) = outcome ty ((theFetchAnnul s ! i) (\<not> anOne)) pc ((theFetchAddress s ! i) anOne) theActual in
      rbind (fast_feedback pc ty dir target ((theFetchState s ! i) (\<not> anOne)) (bpw_Predictor s)) (\<lambda>bp.
        Inr (s\<lparr>bpw_Predictor := bp\<rparr>)))"

definition doPredict :: "nat \<Rightarrow> BPWarm \<Rightarrow> BPWarm result" where
  "doPredict i s = valid_core i s
     (let anOne = theOne s ! i in
      rbind (fast_predict ((theFetchAddress s ! i) anOne) (bpw_Predictor s)) (\<lambda>(st, bp).
        Inr (s\<lparr>theFetchState := (theFetchState s)[i := (theFetchState s ! i)(anOne := st)], bpw_Predictor := bp\<rparr>)))"

definition push_ITraceIn :: "nat \<Rightarrow> u64 \<times> u32 \<Rightarrow> BPWarm \<Rightarrow> BPWarm result" where
  "push_ITraceIn i ins s = valid_core i s
     (rbind (if (theFetchType s ! i) (\<not> theOne s ! i) \<noteq> kNonBranch then doUpdate (fst ins) i s else Inr s) (\<lambda>s.
      let anOne = (\<not> theOne s ! i);
          (ty, annul) = decode (snd ins);
          s = s\<lparr>theOne := (theOne s)[i := anOne],
                theFetchType := (theFetchType s)[i := (theFetchType s ! i)(anOne := ty)],
                theFetchAnnul := (theFetchAnnul s)[i := (theFetchAnnul s ! i)(anOne := annul)]\<rparr> in
      if ty \<noteq> kNonBranch then
        doPredict i (s\<lparr>theFetchAddress := (theFetchAddress s)[i := (theFetchAddress s ! i)(anOne := fst ins)],
          theFetchState := (theFetchState s)[i := (theFetchState s ! i)
            (anOne := (theFetchState s ! i) anOne\<lparr>thePredictedType := kNonBranch\<rparr>)]\<rparr>)
      else Inr s))"

text \<open>The port of the feeder does the same and passes the instruction on.\<close>

definition push_InsnIn :: "nat \<Rightarrow> u64 \<times> u32 \<Rightarrow> BPWarm \<Rightarrow> ((u64 \<times> u32) \<times> BPWarm) result" where
  "push_InsnIn i ins s = rbind (push_ITraceIn i ins s) (\<lambda>s. Inr (ins, s))"

section \<open>Invariant\<close>

definition bpw_inv :: "nat \<Rightarrow> BPWarm \<Rightarrow> bool" where
  "bpw_inv cores s \<longleftrightarrow> bp_inv (bpw_Predictor s) \<and> length (theOne s) = cores \<and> length (theFetchAddress s) = cores \<and>
     length (theFetchState s) = cores \<and> length (theFetchType s) = cores \<and> length (theFetchAnnul s) = cores"

lemma valid_core_ok: "bpw_inv cores s \<Longrightarrow> i < cores \<Longrightarrow> valid_core i s k = k"
  by (simp add: valid_core_def bpw_inv_def)

lemma bpw_initialize_ok: "\<exists>s. bpw_initialize cores = Inr s \<and> bpw_inv cores s"
  using FastCombiningImpl_inv by (auto simp: bpw_initialize_def bpw_inv_def)

text \<open>What a core teaches the predictor of its older instruction when the next one arrives.\<close>

definition lesson :: "u64 \<Rightarrow> nat \<Rightarrow> BPWarm \<Rightarrow> Combining \<Rightarrow> Combining result" where
  "lesson actual i s =
     (let old = (\<not> theOne s ! i); pc = (theFetchAddress s ! i) old; ty = (theFetchType s ! i) old;
          (dir, target) = outcome ty ((theFetchAnnul s ! i) old) pc ((theFetchAddress s ! i) (\<not> old)) actual in
      if ty = kNonBranch then Inr else fast_feedback pc ty dir target ((theFetchState s ! i) old))"

lemma lesson_ok:
  assumes "bp_inv bp"
  shows "\<exists>bp'. lesson a i s bp = Inr bp' \<and> bp_inv bp'"
proof (cases "(theFetchType s ! i) (\<not> theOne s ! i) = kNonBranch")
  case True
  then show ?thesis using assms by (simp add: lesson_def Let_def split: prod.split)
next
  case False
  let ?o = "outcome ((theFetchType s ! i) (\<not> theOne s ! i)) ((theFetchAnnul s ! i) (\<not> theOne s ! i))
    ((theFetchAddress s ! i) (\<not> theOne s ! i)) ((theFetchAddress s ! i) (theOne s ! i)) a"
  have "lesson a i s bp = fast_feedback ((theFetchAddress s ! i) (\<not> theOne s ! i)) ((theFetchType s ! i) (\<not> theOne s ! i))
      (fst ?o) (snd ?o) ((theFetchState s ! i) (\<not> theOne s ! i)) bp"
    using False by (simp add: lesson_def Let_def case_prod_unfold)
  then show ?thesis using fast_feedback_ok [OF assms] by metis
qed

lemma doUpdate_lesson:
  assumes "bpw_inv cores s" "i < cores" "(theFetchType s ! i) (\<not> theOne s ! i) \<noteq> kNonBranch"
  shows "doUpdate a i s = rbind (lesson a i s (bpw_Predictor s)) (\<lambda>bp. Inr (s\<lparr>bpw_Predictor := bp\<rparr>))"
  using assms by (simp add: doUpdate_def lesson_def valid_core_ok Let_def split: prod.split)

text \<open>The slots of the core after an instruction has arrived.\<close>

definition arrived :: "nat \<Rightarrow> u64 \<times> u32 \<Rightarrow> BPWarm \<Rightarrow> BPredState \<Rightarrow> BPWarm \<Rightarrow> bool" where
  "arrived i ins s st s' \<longleftrightarrow> (let new = (\<not> theOne s ! i); (ty, annul) = decode (snd ins) in
     theOne s' ! i = new \<and> theFetchType s' ! i = (theFetchType s ! i)(new := ty) \<and>
     theFetchAnnul s' ! i = (theFetchAnnul s ! i)(new := annul) \<and>
     (if ty = kNonBranch then theFetchAddress s' ! i = theFetchAddress s ! i \<and> theFetchState s' ! i = theFetchState s ! i
      else theFetchAddress s' ! i = (theFetchAddress s ! i)(new := fst ins) \<and> theFetchState s' ! i = (theFetchState s ! i)(new := st)))"

lemma push_ITraceIn_ok:
  assumes "bpw_inv cores s" "i < cores"
  shows "\<exists>bp st s'. lesson (fst ins) i s (bpw_Predictor s) = Inr bp \<and> push_ITraceIn i ins s = Inr s' \<and> bpw_inv cores s' \<and>
    arrived i ins s st s' \<and>
    (if fst (decode (snd ins)) = kNonBranch then bpw_Predictor s' = bp else predict (fst ins) bp = Inr (st, bpw_Predictor s'))"
proof -
  have inv: "bp_inv (bpw_Predictor s)" using assms(1) by (simp add: bpw_inv_def)
  obtain bp where bp: "lesson (fst ins) i s (bpw_Predictor s) = Inr bp" "bp_inv bp" using lesson_ok [OF inv] by blast
  obtain ty annul where d: "decode (snd ins) = (ty, annul)" by (cases "decode (snd ins)")
  obtain st bp2 where p: "predict (fst ins) bp = Inr (st, bp2)" "bp_inv bp2" using predict_ok [OF bp(2)] by blast
  let ?s = "s\<lparr>bpw_Predictor := bp\<rparr>"
  have u: "(if (theFetchType s ! i) (\<not> theOne s ! i) \<noteq> kNonBranch then doUpdate (fst ins) i s else Inr s) = Inr ?s"
    using doUpdate_lesson [OF assms, of "fst ins"] bp(1) by (auto simp: lesson_def split: prod.splits)
  have l: "i < length (theOne s)" "i < length (theFetchType s)" "i < length (theFetchAnnul s)" "i < length (theFetchAddress s)"
      "i < length (theFetchState s)" using assms by (simp_all add: bpw_inv_def)
  let ?n = "\<not> theOne s ! i"
  let ?t = "?s\<lparr>theOne := (theOne s)[i := ?n], theFetchType := (theFetchType s)[i := (theFetchType s ! i)(?n := ty)],
      theFetchAnnul := (theFetchAnnul s)[i := (theFetchAnnul s ! i)(?n := annul)]\<rparr>"
  show ?thesis
  proof (cases "ty = kNonBranch")
    case True
    have "push_ITraceIn i ins s = Inr ?t" using True by (simp add: push_ITraceIn_def valid_core_ok [OF assms] u d Let_def)
    then show ?thesis using True bp assms(1) l d
      by (intro exI [of _ bp] exI [of _ st] exI [of _ ?t]) (simp add: arrived_def Let_def bpw_inv_def)
  next
    case False
    let ?r = "?t\<lparr>theFetchAddress := (theFetchAddress s)[i := (theFetchAddress s ! i)(?n := fst ins)],
        theFetchState := (theFetchState s)[i := (theFetchState s ! i)(?n := st)], bpw_Predictor := bp2\<rparr>"
    have "push_ITraceIn i ins s = Inr ?r"
      using False l p(1) by (simp add: fast_predict_eq [OF bp(2)] push_ITraceIn_def valid_core_ok [OF assms] u d Let_def doPredict_def valid_core_def)
    then show ?thesis using False bp(1) p assms(1) l d
      by (intro exI [of _ bp] exI [of _ st] exI [of _ ?r]) (simp add: arrived_def Let_def bpw_inv_def)
  qed
qed

section \<open>Runs\<close>

fun bpw_run :: "(nat \<times> u64 \<times> u32) list \<Rightarrow> BPWarm \<Rightarrow> BPWarm result" where
  "bpw_run [] s = Inr s"
| "bpw_run (x # xs) s = rbind (push_ITraceIn (fst x) (snd x) s) (bpw_run xs)"

lemma bpw_run_ok:
  assumes "bpw_inv cores s" "list_all (\<lambda>x. fst x < cores) xs"
  shows "\<exists>s'. bpw_run xs s = Inr s' \<and> bpw_inv cores s'"
  using assms
proof (induction xs arbitrary: s)
  case Nil
  then show ?case by simp
next
  case (Cons x xs)
  obtain s1 where "push_ITraceIn (fst x) (snd x) s = Inr s1" "bpw_inv cores s1"
    using push_ITraceIn_ok [OF Cons.prems(1), of "fst x" "snd x"] Cons.prems(2) by auto
  then show ?case using Cons.IH Cons.prems(2) by simp
qed

text \<open>A branch, the instruction after it and the one that resolves it, on one core.\<close>

lemma third_push:
  fixes d :: "u64 \<times> u32"
  assumes inv: "bpw_inv cores s" "i < cores" and b: "decode op = (ty, annul)" "ty \<noteq> kNonBranch"
  defines "slot \<equiv> (if fst (decode (snd d)) = kNonBranch then (theFetchAddress s ! i) (theOne s ! i) else fst d)"
  shows "\<exists>s1 s2 s3 bp0 st bp bp'. push_ITraceIn i (pc, op) s = Inr s1 \<and> push_ITraceIn i d s1 = Inr s2 \<and> push_ITraceIn i a s2 = Inr s3 \<and>
    predict pc bp0 = Inr (st, bpw_Predictor s1) \<and>
    fast_feedback pc ty (fst (outcome ty annul pc slot (fst a))) (snd (outcome ty annul pc slot (fst a))) st (bpw_Predictor s2) = Inr bp \<and>
    bpw_Predictor s3 = (if fst (decode (snd a)) = kNonBranch then bp else bp') \<and>
    (fst (decode (snd a)) \<noteq> kNonBranch \<longrightarrow> (\<exists>st'. predict (fst a) bp = Inr (st', bp')))"
proof -
  obtain bp0 st s1 where s1: "push_ITraceIn i (pc, op) s = Inr s1" "bpw_inv cores s1" "arrived i (pc, op) s st s1"
    "predict pc bp0 = Inr (st, bpw_Predictor s1)" 
    using push_ITraceIn_ok [OF inv, of "(pc, op)", unfolded snd_conv fst_conv b(1), unfolded if_not_P [OF b(2)]] by blast
  obtain st2 s2 where s2: "push_ITraceIn i d s1 = Inr s2" "bpw_inv cores s2" "arrived i d s1 st2 s2"
    using push_ITraceIn_ok [OF s1(2) inv(2), of d] by blast
  obtain bp st3 s3 where s3: "lesson (fst a) i s2 (bpw_Predictor s2) = Inr bp" "push_ITraceIn i a s2 = Inr s3"
    "if fst (decode (snd a)) = kNonBranch then bpw_Predictor s3 = bp else predict (fst a) bp = Inr (st3, bpw_Predictor s3)"
    using push_ITraceIn_ok [OF s2(2) inv(2), of a] by blast
  have a1: "theOne s1 ! i = (\<not> theOne s ! i)" "theFetchType s1 ! i = (theFetchType s ! i)(\<not> theOne s ! i := ty)"
    "theFetchAnnul s1 ! i = (theFetchAnnul s ! i)(\<not> theOne s ! i := annul)"
    "theFetchAddress s1 ! i = (theFetchAddress s ! i)(\<not> theOne s ! i := pc)"
    "theFetchState s1 ! i = (theFetchState s ! i)(\<not> theOne s ! i := st)"
    using s1(3) b by (simp_all add: arrived_def Let_def)
  obtain ty2 an2 where d2: "decode (snd d) = (ty2, an2)" by (cases "decode (snd d)")
  have a2: "theOne s2 ! i = theOne s ! i" "(theFetchType s2 ! i) (\<not> theOne s ! i) = ty" "(theFetchAnnul s2 ! i) (\<not> theOne s ! i) = annul"
    using s2(3) a1(1-3) by (simp_all add: arrived_def Let_def d2)
  have a3: "(theFetchAddress s2 ! i) (\<not> theOne s ! i) = pc" "(theFetchState s2 ! i) (\<not> theOne s ! i) = st"
    "(theFetchAddress s2 ! i) (theOne s ! i) = slot"
    using s2(3) a1(1,4,5) unfolding slot_def by (cases "ty2 = kNonBranch"; simp add: arrived_def Let_def d2)+
  have "lesson (fst a) i s2 = fast_feedback pc ty (fst (outcome ty annul pc slot (fst a))) (snd (outcome ty annul pc slot (fst a))) st"
    using b(2) by (simp add: lesson_def Let_def a2 a3 case_prod_unfold)
  from s3(1) [unfolded this] s3(3) show ?thesis using s1(1,4) s2(1) s3(2)
    by (cases "fst (decode (snd a)) = kNonBranch") (simp only: if_True if_False simp_thms, blast)+
qed

section \<open>Properties\<close>

text \<open>Whatever instructions the cores execute, in any order of the cores, the component never
  indexes out of a vector or of a table of its predictor, and no assertion fails.\<close>

theorem warm_never_fails:
  assumes "list_all (\<lambda>x. fst x < cores) xs"
  shows "\<exists>s s'. bpw_initialize cores = Inr s \<and> bpw_run xs s = Inr s' \<and> bpw_inv cores s'"
  using bpw_initialize_ok [of cores] bpw_run_ok assms by blast

theorem warm_never_fails_witness:
  "\<exists>s s'. bpw_initialize 2 = Inr s \<and> bpw_run [(0, 256, 0x02800004), (1, 512, 0x40000010), (0, 260, 0x01000000), (0, 272, 0x01000000)] s = Inr s' \<and>
    bpw_inv 2 s'"
  using warm_never_fails [of 2 "[(0, 256, 0x02800004), (1, 512, 0x40000010), (0, 260, 0x01000000), (0, 272, 0x01000000)]"]
  by (simp del: bpw_run.simps)

text \<open>
  C18: A branch without the annul bit is learnt from the instruction after its delay slot: when
  that one is at the address behind the delay slot a conditional branch was not taken,
  otherwise the branch was taken to that address. The predictor is told so together with
  the prediction that was made for the branch.
\<close>

theorem warm_learns_outcome:
  assumes "bpw_inv cores s" "i < cores" "decode op = (ty, False)" "ty \<noteq> kNonBranch"
  shows "\<exists>s1 s2 s3 bp0 st bp bp'. push_ITraceIn i (pc, op) s = Inr s1 \<and> push_ITraceIn i d s1 = Inr s2 \<and> push_ITraceIn i a s2 = Inr s3 \<and>
    predict pc bp0 = Inr (st, bpw_Predictor s1) \<and>
    (if ty = kConditional \<and> fst a = pc + 8 then fast_feedback pc ty kNotTaken 0 st (bpw_Predictor s2)
     else fast_feedback pc ty kTaken (fst a) st (bpw_Predictor s2)) = Inr bp \<and>
    bpw_Predictor s3 = (if fst (decode (snd a)) = kNonBranch then bp else bp') \<and>
    (fst (decode (snd a)) \<noteq> kNonBranch \<longrightarrow> (\<exists>st'. predict (fst a) bp = Inr (st', bp')))"
proof -
  have o: "outcome ty False pc sl (fst a) = (if ty = kConditional \<and> fst a = pc + 8 then (kNotTaken, 0) else (kTaken, fst a))" for sl
    using assms(4) by (simp add: outcome_def)
  show ?thesis using third_push [OF assms, of pc d a] unfolding o
    by (cases "ty = kConditional \<and> fst a = pc + 8") (simp_all only: if_True if_False fst_conv snd_conv simp_thms)
qed

theorem warm_learns_outcome_witness:
  "\<exists>s s1 s2 s3 st bp. bpw_initialize 1 = Inr s \<and> push_ITraceIn 0 (256, 0x02800004) s = Inr s1 \<and> push_ITraceIn 0 (260, 0x01000000) s1 = Inr s2 \<and>
    push_ITraceIn 0 (272, 0x01000000) s2 = Inr s3 \<and> fast_feedback 256 kConditional kTaken 272 st (bpw_Predictor s2) = Inr bp \<and> bpw_Predictor s3 = bp"
proof -
  obtain s where s: "bpw_initialize 1 = Inr s" "bpw_inv 1 s" using bpw_initialize_ok by blast
  have d: "decode 0x02800004 = (kConditional, False)" "decode 0x01000000 = (kNonBranch, False)" by (simp_all add: decode_def Let_def)
  show ?thesis using warm_learns_outcome [OF s(2) _ d(1), of 0 256 "(260, 0x01000000)" "(272, 0x01000000)"] s(1) d(2) by auto
qed

text \<open>
  C30: An annulled branch that is not taken is learnt as taken: its delay slot is not executed,
  so the next instruction is at the address behind it, but the address the code compares is
  only stored for branches. Unless the slot happens to hold that very address, the predictor
  is told that the branch was taken to the instruction after that.
\<close>

theorem annulled_learnt_taken:
  assumes "bpw_inv cores s" "i < cores" "decode op = (kConditional, True)" "fst (decode nop) = kNonBranch"
    "(theFetchAddress s ! i) (theOne s ! i) \<noteq> pc + 8"
  shows "\<exists>s1 s2 s3 bp0 st bp bp'. push_ITraceIn i (pc, op) s = Inr s1 \<and> push_ITraceIn i (pc + 8, nop) s1 = Inr s2 \<and>
    push_ITraceIn i (pc + 12, aop) s2 = Inr s3 \<and> predict pc bp0 = Inr (st, bpw_Predictor s1) \<and>
    fast_feedback pc kConditional kTaken (pc + 12) st (bpw_Predictor s2) = Inr bp \<and>
    bpw_Predictor s3 = (if fst (decode aop) = kNonBranch then bp else bp') \<and>
    (fst (decode aop) \<noteq> kNonBranch \<longrightarrow> (\<exists>st'. predict (pc + 12) bp = Inr (st', bp')))"
  using third_push [OF assms(1,2,3), of pc "(pc + 8, nop)" "(pc + 12, aop)"] assms(4,5) by (simp add: outcome_def)

theorem annulled_learnt_taken_witness:
  "\<exists>s s1 s2 s3 st bp. bpw_initialize 1 = Inr s \<and> push_ITraceIn 0 (256, 0x22800004) s = Inr s1 \<and> push_ITraceIn 0 (264, 0x01000000) s1 = Inr s2 \<and>
    push_ITraceIn 0 (268, 0x01000000) s2 = Inr s3 \<and> fast_feedback 256 kConditional kTaken 268 st (bpw_Predictor s2) = Inr bp \<and> bpw_Predictor s3 = bp"
proof -
  obtain bp where bp: "FastCombiningImpl = Inr bp" using FastCombiningImpl_inv by blast
  obtain s where s: "bpw_initialize 1 = Inr s" "bpw_inv 1 s" using bpw_initialize_ok by blast
  have n: "(theFetchAddress s ! 0) (theOne s ! 0) \<noteq> 256 + 8" using s(1) bp by (auto simp: bpw_initialize_def)
  have d: "decode 0x22800004 = (kConditional, True)" "decode 0x01000000 = (kNonBranch, False)" by (simp_all add: decode_def Let_def)
  show ?thesis using annulled_learnt_taken [where nop = "0x01000000" and aop = "0x01000000", OF s(2) _ d(1) _ n] s(1) d(2) by auto
qed

end
