(* ===== verification/MT_Manager.thy ===== *)
theory MT_Manager
  imports Prelude
begin

text \<open>
  The thread scheduler of \<open>components/MTManager/MTManagerComponentImpl.cpp\<close>: which thread of a
  core uses a stage of its pipeline in a cycle. What the component pulls from its channels in
  a cycle is the record \<open>MT_in\<close>; a channel is numbered by core and thread as the wiring does.
  Then that the policies choose what they say: the least loaded thread that is not stalled,
  the next thread that is not stalled, and every thread once in a round.
\<close>

section \<open>State, parameters and channels\<close>

record ScheduleState =
  theRoundRobinPtr :: nat
  theThreadThisCycle :: nat
  theLastScheduledCycle :: u64

record MTManager =
  theFAGSchedules :: "ScheduleState list"
  theFSchedules :: "ScheduleState list"
  theDSchedules :: "ScheduleState list"
  theEXSchedules :: "ScheduleState list"

record MT_cfg =
  mt_Cores :: nat
  mt_Threads :: nat
  FrontEndPolicy :: int
  BackEndPolicy :: int

definition kFE_StrictRoundRobin :: int where "kFE_StrictRoundRobin = 0"

definition kFE_ICount :: int where "kFE_ICount = 1"

definition kBE_StrictRoundRobin :: int where "kBE_StrictRoundRobin = 0"

definition kBE_SmartRoundRobin :: int where "kBE_SmartRoundRobin = 1"

record MT_in =
  EXStalled :: "nat \<Rightarrow> bool"
  FAGStalled :: "nat \<Rightarrow> bool"
  FStalled :: "nat \<Rightarrow> bool"
  DStalled :: "nat \<Rightarrow> bool"
  FAQ_ICount :: "nat \<Rightarrow> u32"
  FIQ_ICount :: "nat \<Rightarrow> u32"
  ROB_ICount :: "nat \<Rightarrow> u32"
  cycleCount :: u64

definition ScheduleState_init :: ScheduleState where
  "ScheduleState_init = \<lparr>theRoundRobinPtr = 0, theThreadThisCycle = 0, theLastScheduledCycle = 0\<rparr>"

definition mt_initialize :: "MT_cfg \<Rightarrow> MTManager" where
  "mt_initialize cfg = (let s = replicate (mt_Cores cfg) ScheduleState_init in
     \<lparr>theFAGSchedules = s, theFSchedules = s, theDSchedules = s, theEXSchedules = s\<rparr>)"

section \<open>Operations\<close>

definition mt_channel :: "MT_cfg \<Rightarrow> nat \<Rightarrow> nat \<Rightarrow> nat" where
  "mt_channel cfg aCore aThread = aCore * mt_Threads cfg + aThread"

definition getICount :: "MT_cfg \<Rightarrow> MT_in \<Rightarrow> nat \<Rightarrow> nat \<Rightarrow> u32" where
  "getICount cfg inp aCore aThread = (let i = mt_channel cfg aCore aThread in
     FAQ_ICount inp i + FIQ_ICount inp i + ROB_ICount inp i)"

definition isFAGStalled :: "MT_cfg \<Rightarrow> MT_in \<Rightarrow> nat \<Rightarrow> nat \<Rightarrow> bool" where
  "isFAGStalled cfg inp aCore aThread = FAGStalled inp (mt_channel cfg aCore aThread)"

definition isFStalled :: "MT_cfg \<Rightarrow> MT_in \<Rightarrow> nat \<Rightarrow> nat \<Rightarrow> bool" where
  "isFStalled cfg inp aCore aThread = FStalled inp (mt_channel cfg aCore aThread)"

definition isDStalled :: "MT_cfg \<Rightarrow> MT_in \<Rightarrow> nat \<Rightarrow> nat \<Rightarrow> bool" where
  "isDStalled cfg inp aCore aThread = DStalled inp (mt_channel cfg aCore aThread)"

definition isEXStalled :: "MT_cfg \<Rightarrow> MT_in \<Rightarrow> nat \<Rightarrow> nat \<Rightarrow> bool" where
  "isEXStalled cfg inp aCore aThread = EXStalled inp (mt_channel cfg aCore aThread)"

text \<open>The remainder of a division by zero traps.\<close>

definition umod :: "nat \<Rightarrow> nat \<Rightarrow> nat result" where
  "umod a b = (if b = 0 then Inl DivTrap else Inr (a mod b))"

text \<open>The loop over the threads, in round robin order; the first argument counts the iterations left.\<close>

fun icount_loop :: "nat \<Rightarrow> nat \<Rightarrow> u32 list \<Rightarrow> (nat \<Rightarrow> bool) \<Rightarrow> nat \<Rightarrow> nat \<Rightarrow> u32 \<Rightarrow> nat result" where
  "icount_loop 0 threads icount stalled td selected_td min_icount = Inr selected_td"
| "icount_loop (Suc n) threads icount stalled td selected_td min_icount =
     rbind (lookup_vec icount td) (\<lambda>c.
       if c < min_icount \<and> \<not> stalled td then icount_loop n threads icount stalled ((td + 1) mod threads) td c
       else icount_loop n threads icount stalled ((td + 1) mod threads) selected_td min_icount)"

definition scheduleICount :: "MT_cfg \<Rightarrow> MT_in \<Rightarrow> nat \<Rightarrow> (nat \<Rightarrow> bool) \<Rightarrow> ScheduleState \<Rightarrow> ScheduleState result" where
  "scheduleICount cfg inp aCore stalled s =
     (let icount = map (getICount cfg inp aCore) [0..<mt_Threads cfg] in
      rbind (icount_loop (mt_Threads cfg) (mt_Threads cfg) icount stalled (theRoundRobinPtr s) (theRoundRobinPtr s) (- 1)) (\<lambda>td.
      rbind (umod (theRoundRobinPtr s + 1) (mt_Threads cfg)) (\<lambda>ptr.
        Inr \<lparr>theRoundRobinPtr = ptr, theThreadThisCycle = td, theLastScheduledCycle = cycleCount inp\<rparr>)))"

fun smart_loop :: "nat \<Rightarrow> nat \<Rightarrow> (nat \<Rightarrow> bool) \<Rightarrow> nat \<Rightarrow> nat" where
  "smart_loop 0 threads stalled selected_td = selected_td"
| "smart_loop (Suc n) threads stalled selected_td =
     (if stalled selected_td then smart_loop n threads stalled ((selected_td + 1) mod threads) else selected_td)"

definition scheduleExecuteRoundRobin :: "MT_cfg \<Rightarrow> MT_in \<Rightarrow> nat \<Rightarrow> ScheduleState \<Rightarrow> ScheduleState result" where
  "scheduleExecuteRoundRobin cfg inp aCore s =
     (let td = smart_loop (mt_Threads cfg) (mt_Threads cfg) (isEXStalled cfg inp aCore) (theRoundRobinPtr s) in
      rbind (umod (theRoundRobinPtr s + 1) (mt_Threads cfg)) (\<lambda>ptr.
        Inr \<lparr>theRoundRobinPtr = ptr, theThreadThisCycle = td, theLastScheduledCycle = cycleCount inp\<rparr>))"

definition scheduleDispatchRoundRobin :: "MT_cfg \<Rightarrow> MT_in \<Rightarrow> nat \<Rightarrow> ScheduleState \<Rightarrow> ScheduleState result" where
  "scheduleDispatchRoundRobin cfg inp aCore s =
     (let td = smart_loop (mt_Threads cfg) (mt_Threads cfg) (isDStalled cfg inp aCore) (theRoundRobinPtr s) in
      rbind (umod (theRoundRobinPtr s + 1) (mt_Threads cfg)) (\<lambda>ptr.
        Inr \<lparr>theRoundRobinPtr = ptr, theThreadThisCycle = td, theLastScheduledCycle = cycleCount inp\<rparr>))"

definition scheduleStrictRoundRobin :: "MT_cfg \<Rightarrow> MT_in \<Rightarrow> ScheduleState \<Rightarrow> ScheduleState" where
  "scheduleStrictRoundRobin cfg inp s =
     (let ptr = theRoundRobinPtr s + 1 in
      \<lparr>theRoundRobinPtr = if ptr = mt_Threads cfg then 0 else ptr, theThreadThisCycle = theRoundRobinPtr s,
       theLastScheduledCycle = cycleCount inp\<rparr>)"

definition scheduleThread ::
    "MT_cfg \<Rightarrow> MT_in \<Rightarrow> ScheduleState list \<Rightarrow> (nat \<Rightarrow> nat \<Rightarrow> bool) \<Rightarrow> nat \<Rightarrow> (nat \<times> ScheduleState list) result" where
  "scheduleThread cfg inp aSchedules isStalled aCoreIndex =
     dbg_assert (aCoreIndex < mt_Cores cfg)
     (rbind (lookup_vec aSchedules aCoreIndex) (\<lambda>s.
      rbind (if FrontEndPolicy cfg = kFE_ICount then scheduleICount cfg inp aCoreIndex (isStalled aCoreIndex) s
             else Inr (scheduleStrictRoundRobin cfg inp s)) (\<lambda>s.
        Inr (theThreadThisCycle s, aSchedules[aCoreIndex := s]))))"

definition scheduleFAGThread :: "MT_cfg \<Rightarrow> MT_in \<Rightarrow> nat \<Rightarrow> MTManager \<Rightarrow> (nat \<times> MTManager) result" where
  "scheduleFAGThread cfg inp aCoreIndex m =
     rbind (scheduleThread cfg inp (theFAGSchedules m) (isFAGStalled cfg inp) aCoreIndex) (\<lambda>(td, ss).
       Inr (td, m\<lparr>theFAGSchedules := ss\<rparr>))"

definition scheduleFThread :: "MT_cfg \<Rightarrow> MT_in \<Rightarrow> nat \<Rightarrow> MTManager \<Rightarrow> (nat \<times> MTManager) result" where
  "scheduleFThread cfg inp aCoreIndex m =
     rbind (scheduleThread cfg inp (theFSchedules m) (isFStalled cfg inp) aCoreIndex) (\<lambda>(td, ss).
       Inr (td, m\<lparr>theFSchedules := ss\<rparr>))"

definition runThisEX :: "MT_cfg \<Rightarrow> MT_in \<Rightarrow> nat \<Rightarrow> MTManager \<Rightarrow> (bool \<times> MTManager) result" where
  "runThisEX cfg inp anIndex m =
     rbind (if mt_Threads cfg = 0 then Inl DivTrap else Inr (anIndex div mt_Threads cfg)) (\<lambda>core_index.
     rbind (umod anIndex (mt_Threads cfg)) (\<lambda>thread_index.
     dbg_assert (core_index < mt_Cores cfg)
     (rbind (lookup_vec (theEXSchedules m) core_index) (\<lambda>sched.
      rbind (if theLastScheduledCycle sched \<noteq> cycleCount inp then
               if BackEndPolicy cfg = kBE_SmartRoundRobin then scheduleExecuteRoundRobin cfg inp core_index sched
               else Inr (scheduleStrictRoundRobin cfg inp sched)
             else Inr sched) (\<lambda>sched.
        Inr (theThreadThisCycle sched = thread_index, m\<lparr>theEXSchedules := (theEXSchedules m)[core_index := sched]\<rparr>))))))"

definition runThisD :: "MT_cfg \<Rightarrow> MT_in \<Rightarrow> nat \<Rightarrow> MTManager \<Rightarrow> (bool \<times> MTManager) result" where
  "runThisD cfg inp anIndex m =
     rbind (if mt_Threads cfg = 0 then Inl DivTrap else Inr (anIndex div mt_Threads cfg)) (\<lambda>core_index.
     rbind (umod anIndex (mt_Threads cfg)) (\<lambda>thread_index.
     dbg_assert (core_index < mt_Cores cfg)
     (rbind (lookup_vec (theDSchedules m) core_index) (\<lambda>sched.
      rbind (if theLastScheduledCycle sched \<noteq> cycleCount inp then
               if BackEndPolicy cfg = kBE_SmartRoundRobin then scheduleDispatchRoundRobin cfg inp core_index sched
               else Inr (scheduleStrictRoundRobin cfg inp sched)
             else Inr sched) (\<lambda>sched.
        Inr (theThreadThisCycle sched = thread_index, m\<lparr>theDSchedules := (theDSchedules m)[core_index := sched]\<rparr>))))))"

section \<open>The round\<close>

text \<open>The threads in the order the loops visit them.\<close>

definition round_of :: "nat \<Rightarrow> nat \<Rightarrow> nat \<Rightarrow> nat list" where
  "round_of N td n = map (\<lambda>j. (td + j) mod N) [0..<n]"

lemma round_of_Suc: "td < N \<Longrightarrow> round_of N td (Suc n) = td # round_of N ((td + 1) mod N) n"
  by (simp add: round_of_def upt_conv_Cons map_Suc_upt [symmetric] mod_simps del: upt_Suc)

lemma round_position:
  fixes t N ptr :: nat
  assumes "t < N" "ptr < N"
  shows "\<exists>j < N. (ptr + j) mod N = t"
proof (cases "ptr \<le> t")
  case True
  then show ?thesis using assms by (intro exI [of _ "t - ptr"]) auto
next
  case False
  then show ?thesis using assms by (intro exI [of _ "t + N - ptr"]) auto
qed

fun pick_thread :: "u32 list \<Rightarrow> (nat \<Rightarrow> bool) \<Rightarrow> nat list \<Rightarrow> nat \<Rightarrow> u32 \<Rightarrow> nat" where
  "pick_thread ic stalled [] sel m = sel"
| "pick_thread ic stalled (t # ts) sel m =
     (if ic ! t < m \<and> \<not> stalled t then pick_thread ic stalled ts t (ic ! t) else pick_thread ic stalled ts sel m)"

lemma icount_loop_pick:
  assumes "td < N" "length ic = N"
  shows "icount_loop n N ic stalled td sel m = Inr (pick_thread ic stalled (round_of N td n) sel m)"
  using assms
proof (induction n arbitrary: td sel m)
  case 0
  show ?case by (simp add: round_of_def)
next
  case (Suc n)
  have "(td + 1) mod N < N" using Suc.prems by simp
  then show ?case using Suc by (simp add: round_of_Suc lookup_vec_lt)
qed

lemma pick_sel: "(\<forall>u \<in> set ts. stalled u \<or> m \<le> ic ! u) \<Longrightarrow> pick_thread ic stalled ts sel m = sel"
  by (induction ts) auto

lemma pick_least:
  assumes "\<exists>u \<in> set ts. \<not> stalled u \<and> ic ! u < m"
  shows "\<exists>i < length ts. pick_thread ic stalled ts sel m = ts ! i \<and> \<not> stalled (ts ! i) \<and> ic ! (ts ! i) < m \<and>
    (\<forall>u \<in> set ts. \<not> stalled u \<longrightarrow> ic ! (ts ! i) \<le> ic ! u) \<and>
    (\<forall>j < i. \<not> stalled (ts ! j) \<longrightarrow> ic ! (ts ! i) < ic ! (ts ! j))"
  using assms
proof (induction ts arbitrary: sel m)
  case Nil
  then show ?case by simp
next
  case (Cons t ts)
  define hit where "hit \<longleftrightarrow> ic ! t < m \<and> \<not> stalled t"
  define m' where "m' = (if hit then ic ! t else m)"
  have r: "pick_thread ic stalled (t # ts) sel m = pick_thread ic stalled ts (if hit then t else sel) m'"
    by (simp add: hit_def m'_def)
  show ?case
  proof (cases "\<exists>u \<in> set ts. \<not> stalled u \<and> ic ! u < m'")
    case True
    obtain i where i: "i < length ts" "pick_thread ic stalled ts (if hit then t else sel) m' = ts ! i" "\<not> stalled (ts ! i)"
      "ic ! (ts ! i) < m'" "\<forall>u \<in> set ts. \<not> stalled u \<longrightarrow> ic ! (ts ! i) \<le> ic ! u"
      "\<forall>j < i. \<not> stalled (ts ! j) \<longrightarrow> ic ! (ts ! i) < ic ! (ts ! j)"
      using Cons.IH [OF True] by blast
    have t: "\<not> stalled t \<Longrightarrow> ic ! (ts ! i) < ic ! t" using i(4) by (auto simp: m'_def hit_def split: if_splits)
    have "ic ! (ts ! i) < m" using i(4) by (auto simp: m'_def hit_def split: if_splits)
    then show ?thesis unfolding r using i t by (intro exI [of _ "Suc i"]) (auto simp: less_Suc_eq_0_disj)
  next
    case False
    then have "hit" using Cons.prems by (auto simp: m'_def hit_def split: if_splits)
    moreover have "\<forall>u \<in> set ts. stalled u \<or> m' \<le> ic ! u" using False by (meson not_le)
    ultimately show ?thesis unfolding r
      using pick_sel [of ts stalled m' ic] by (intro exI [of _ 0]) (auto simp: m'_def hit_def)
  qed
qed

lemma smart_loop_first:
  assumes "td < N" "\<exists>j < n. \<not> stalled ((td + j) mod N)"
  shows "\<exists>i < n. smart_loop n N stalled td = (td + i) mod N \<and> \<not> stalled ((td + i) mod N) \<and> (\<forall>j < i. stalled ((td + j) mod N))"
  using assms
proof (induction n arbitrary: td)
  case 0
  then show ?case by simp
next
  case (Suc n)
  show ?case
  proof (cases "stalled td")
    case True
    have m: "((td + 1) mod N + j) mod N = (td + Suc j) mod N" for j by (simp add: mod_simps)
    have "\<exists>j < n. \<not> stalled ((td + Suc j) mod N)"
      using Suc.prems True by (auto simp: less_Suc_eq_0_disj)
    then have "\<exists>i < n. smart_loop n N stalled ((td + 1) mod N) = (td + Suc i) mod N \<and> \<not> stalled ((td + Suc i) mod N) \<and>
        (\<forall>j < i. stalled ((td + Suc j) mod N))"
      using Suc.IH [of "(td + 1) mod N"] Suc.prems(1) unfolding m by simp
    then obtain i where "i < n" "smart_loop n N stalled ((td + 1) mod N) = (td + Suc i) mod N" "\<not> stalled ((td + Suc i) mod N)"
        "\<forall>j < i. stalled ((td + Suc j) mod N)" by blast
    then show ?thesis using True Suc.prems(1) by (intro exI [of _ "Suc i"]) (auto simp: less_Suc_eq_0_disj)
  next
    case False
    then show ?thesis using Suc.prems(1) by (intro exI [of _ 0]) simp
  qed
qed

lemma smart_loop_bound: "td < N \<Longrightarrow> smart_loop n N stalled td < N"
  by (induction n arbitrary: td) auto

section \<open>Policies\<close>

text \<open>
  What the component relies on of a policy: it chooses a thread of the core, moves the pointer
  to the next one and notes the cycle. A round robin policy takes the thread at the pointer
  when that one is free.
\<close>

locale policy =
  fixes N :: nat and sched :: "MT_in \<Rightarrow> ScheduleState \<Rightarrow> ScheduleState result"
  assumes sched_ok: "theRoundRobinPtr s < N \<Longrightarrow> \<exists>td < N. sched inp s = Inr
    \<lparr>theRoundRobinPtr = (theRoundRobinPtr s + 1) mod N, theThreadThisCycle = td, theLastScheduledCycle = cycleCount inp\<rparr>"

locale round_robin = policy +
  fixes is_free :: "MT_in \<Rightarrow> nat \<Rightarrow> bool"
  assumes free_first: "theRoundRobinPtr s < N \<Longrightarrow> is_free inp (theRoundRobinPtr s) \<Longrightarrow> sched inp s = Inr s' \<Longrightarrow>
    theThreadThisCycle s' = theRoundRobinPtr s"

fun sched_run :: "(MT_in \<Rightarrow> ScheduleState \<Rightarrow> ScheduleState result) \<Rightarrow> MT_in list \<Rightarrow> ScheduleState \<Rightarrow> (nat list \<times> ScheduleState) result" where
  "sched_run sched [] s = Inr ([], s)"
| "sched_run sched (inp # inps) s = rbind (sched inp s) (\<lambda>s. rbind (sched_run sched inps s) (\<lambda>(tds, s').
     Inr (theThreadThisCycle s # tds, s')))"

context policy
begin

lemma run_ok:
  assumes "theRoundRobinPtr s < N"
  shows "\<exists>tds s'. sched_run sched inps s = Inr (tds, s') \<and> length tds = length inps \<and> set tds \<subseteq> {..<N} \<and>
    theRoundRobinPtr s' = (theRoundRobinPtr s + length inps) mod N"
  using assms
proof (induction inps arbitrary: s)
  case Nil
  then show ?case by simp
next
  case (Cons inp inps)
  obtain s1 where s1: "sched inp s = Inr s1" "theRoundRobinPtr s1 = (theRoundRobinPtr s + 1) mod N" "theThreadThisCycle s1 < N"
    using sched_ok [OF Cons.prems, of inp] by auto
  have "theRoundRobinPtr s1 < N" using s1(2) Cons.prems by simp
  from Cons.IH [OF this] show ?case using s1 by (auto simp: mod_simps)
qed

end

context round_robin
begin

lemma run_nth:
  assumes "theRoundRobinPtr s < N" "sched_run sched inps s = Inr (tds, s')" "k < length inps"
    "is_free (inps ! k) ((theRoundRobinPtr s + k) mod N)"
  shows "k < length tds \<and> tds ! k = (theRoundRobinPtr s + k) mod N"
  using assms
proof (induction inps arbitrary: s tds k)
  case Nil
  then show ?case by simp
next
  case (Cons inp inps)
  obtain s1 where s1: "sched inp s = Inr s1" "theRoundRobinPtr s1 = (theRoundRobinPtr s + 1) mod N"
    using sched_ok [OF Cons.prems(1), of inp] by auto
  obtain tds1 where t: "sched_run sched inps s1 = Inr (tds1, s')" "tds = theThreadThisCycle s1 # tds1"
    using Cons.prems(2) s1(1) by auto
  have lt: "theRoundRobinPtr s1 < N" using s1(2) Cons.prems(1) by simp
  show ?case
  proof (cases k)
    case 0
    then show ?thesis using t(2) free_first [OF Cons.prems(1) _ s1(1)] Cons.prems(1,4) by simp
  next
    case (Suc j)
    have "(theRoundRobinPtr s1 + j) mod N = (theRoundRobinPtr s + k) mod N" using s1(2) Suc by (simp add: mod_simps)
    then show ?thesis using Cons.IH [OF lt t(1), of j] Cons.prems(3,4) t(2) Suc by simp
  qed
qed

lemma fair:
  assumes "theRoundRobinPtr s < N" "t < N" "length inps = N" "\<forall>inp \<in> set inps. is_free inp t"
  shows "\<exists>tds s'. sched_run sched inps s = Inr (tds, s') \<and> t \<in> set tds"
proof -
  obtain tds s' where r: "sched_run sched inps s = Inr (tds, s')" using run_ok [OF assms(1)] by blast
  obtain k where k: "k < N" "(theRoundRobinPtr s + k) mod N = t" using round_position [OF assms(2,1)] by blast
  have "k < length tds \<and> tds ! k = t" using run_nth [OF assms(1) r, of k] k assms(3,4) by simp
  then show ?thesis using r nth_mem by blast
qed

end

interpretation strict: round_robin "mt_Threads cfg" "\<lambda>inp s. Inr (scheduleStrictRoundRobin cfg inp s)" "\<lambda>inp t. True" for cfg
  by unfold_locales (auto simp: scheduleStrictRoundRobin_def Let_def intro: mod_less mod_self)

lemma smart_at_pointer: "\<not> stalled td \<Longrightarrow> 0 < n \<Longrightarrow> smart_loop n N stalled td = td"
  by (cases n) auto

interpretation exec: round_robin "mt_Threads cfg" "\<lambda>inp. scheduleExecuteRoundRobin cfg inp core" "\<lambda>inp t. \<not> isEXStalled cfg inp core t" for cfg core
  by unfold_locales (auto simp: scheduleExecuteRoundRobin_def Let_def umod_def smart_loop_bound smart_at_pointer)

interpretation dispatch: round_robin "mt_Threads cfg" "\<lambda>inp. scheduleDispatchRoundRobin cfg inp core" "\<lambda>inp t. \<not> isDStalled cfg inp core t" for cfg core
  by unfold_locales (auto simp: scheduleDispatchRoundRobin_def Let_def umod_def smart_loop_bound smart_at_pointer)

lemma pick_bound: "set ts \<subseteq> {..<N} \<Longrightarrow> sel < N \<Longrightarrow> pick_thread ic stalled ts sel m < N"
  by (induction ts arbitrary: sel m) auto

lemma round_of_bound: "0 < N \<Longrightarrow> set (round_of N td n) \<subseteq> {..<N}"
  by (auto simp: round_of_def)

lemma scheduleICount_eq:
  assumes "theRoundRobinPtr s < mt_Threads cfg"
  shows "scheduleICount cfg inp core stalled s = Inr
    \<lparr>theRoundRobinPtr = (theRoundRobinPtr s + 1) mod mt_Threads cfg,
     theThreadThisCycle = pick_thread (map (getICount cfg inp core) [0..<mt_Threads cfg]) stalled
       (round_of (mt_Threads cfg) (theRoundRobinPtr s) (mt_Threads cfg)) (theRoundRobinPtr s) (- 1),
     theLastScheduledCycle = cycleCount inp\<rparr>"
  using assms by (simp add: scheduleICount_def Let_def umod_def icount_loop_pick)

interpretation icount: policy "mt_Threads cfg" "\<lambda>inp. scheduleICount cfg inp core (stalled inp)" for cfg core stalled
proof
  fix s :: ScheduleState and inp
  assume p: "theRoundRobinPtr s < mt_Threads cfg"
  then have "0 < mt_Threads cfg" by simp
  from pick_bound [OF round_of_bound [OF this] p]
  show "\<exists>td<mt_Threads cfg. scheduleICount cfg inp core (stalled inp) s = Inr
    \<lparr>theRoundRobinPtr = (theRoundRobinPtr s + 1) mod mt_Threads cfg, theThreadThisCycle = td, theLastScheduledCycle = cycleCount inp\<rparr>"
    unfolding scheduleICount_eq [OF p] by blast
qed

section \<open>Properties\<close>

text \<open>
  The instruction count policy chooses, among the threads that are not stalled, one with
  the fewest instructions in flight, and of those with equally many the first one after the
  round robin pointer.
\<close>

theorem icount_chooses_least:
  assumes "theRoundRobinPtr s < mt_Threads cfg"
    and "t < mt_Threads cfg" "\<not> stalled t" "getICount cfg inp core t \<noteq> - 1"
  shows "\<exists>s' i. scheduleICount cfg inp core stalled s = Inr s' \<and> i < mt_Threads cfg \<and>
    theThreadThisCycle s' = (theRoundRobinPtr s + i) mod mt_Threads cfg \<and> \<not> stalled (theThreadThisCycle s') \<and>
    (\<forall>u < mt_Threads cfg. \<not> stalled u \<longrightarrow> getICount cfg inp core (theThreadThisCycle s') \<le> getICount cfg inp core u) \<and>
    (\<forall>j < i. \<not> stalled ((theRoundRobinPtr s + j) mod mt_Threads cfg) \<longrightarrow>
      getICount cfg inp core (theThreadThisCycle s') < getICount cfg inp core ((theRoundRobinPtr s + j) mod mt_Threads cfg))"
proof -
  let ?N = "mt_Threads cfg" and ?p = "theRoundRobinPtr s"
  let ?ic = "map (getICount cfg inp core) [0..<?N]" and ?r = "round_of ?N ?p ?N"
  have ic: "u < ?N \<Longrightarrow> ?ic ! u = getICount cfg inp core u" for u by simp
  have lt: "(?p + j) mod ?N < ?N" for j using assms(2) by simp
  have r: "length ?r = ?N" "j < ?N \<Longrightarrow> ?r ! j = (?p + j) mod ?N" for j by (simp_all add: round_of_def)
  have mem: "u < ?N \<Longrightarrow> u \<in> set ?r" for u
    using round_position [OF _ assms(1), of u] by (auto simp: round_of_def image_iff)
  have "getICount cfg inp core t < - 1" using assms(4) word_order.extremum_strict [of "getICount cfg inp core t"]
    by (simp add: word_order.not_eq_extremum)
  then have "\<exists>u \<in> set ?r. \<not> stalled u \<and> ?ic ! u < - 1" using mem [OF assms(2)] assms(2,3) ic by auto
  from pick_least [OF this, of ?p] obtain i where i: "i < ?N" "pick_thread ?ic stalled ?r ?p (- 1) = (?p + i) mod ?N"
    "\<not> stalled ((?p + i) mod ?N)" "\<forall>u \<in> set ?r. \<not> stalled u \<longrightarrow> ?ic ! ((?p + i) mod ?N) \<le> ?ic ! u"
    "\<forall>j < i. \<not> stalled (?r ! j) \<longrightarrow> ?ic ! ((?p + i) mod ?N) < ?ic ! (?r ! j)" unfolding r(1) using r(2) by metis
  let ?s = "(?p + i) mod ?N"
  have le: "\<forall>u < ?N. \<not> stalled u \<longrightarrow> getICount cfg inp core ?s \<le> getICount cfg inp core u"
    using i(4) mem ic [OF lt] ic by metis
  have first: "\<forall>j < i. \<not> stalled ((?p + j) mod ?N) \<longrightarrow> getICount cfg inp core ?s < getICount cfg inp core ((?p + j) mod ?N)"
  proof (intro allI impI)
    fix j assume j: "j < i" "\<not> stalled ((?p + j) mod ?N)"
    have "?r ! j = (?p + j) mod ?N" using j(1) i(1) r(2) by simp
    then show "getICount cfg inp core ?s < getICount cfg inp core ((?p + j) mod ?N)" using i(5) j ic [OF lt] by metis
  qed
  obtain s' where "scheduleICount cfg inp core stalled s = Inr s'" "theThreadThisCycle s' = ?s"
    unfolding scheduleICount_eq [OF assms(1)] i(2) by simp
  then show ?thesis using i(1,3) le first by (intro exI [of _ s'] exI [of _ i]) simp
qed

text \<open>Three threads: the first is stalled and the other two have equally many instructions.\<close>

definition mt_cfg3 :: MT_cfg where
  "mt_cfg3 = \<lparr>mt_Cores = 1, mt_Threads = 3, FrontEndPolicy = kFE_ICount, BackEndPolicy = kBE_SmartRoundRobin\<rparr>"

definition mt_in3 :: MT_in where
  "mt_in3 = \<lparr>EXStalled = (\<lambda>i. i = 0), FAGStalled = (\<lambda>i. i = 0), FStalled = (\<lambda>i. i = 0), DStalled = (\<lambda>i. i = 0),
     FAQ_ICount = (\<lambda>i. of_nat i), FIQ_ICount = (\<lambda>i. 2 - of_nat i), ROB_ICount = (\<lambda>i. 1), cycleCount = 7\<rparr>"

theorem icount_chooses_least_witness:
  "\<exists>s' i. scheduleICount mt_cfg3 mt_in3 0 (isFAGStalled mt_cfg3 mt_in3 0) ScheduleState_init = Inr s' \<and> i < 3 \<and>
    theThreadThisCycle s' = i mod 3 \<and> \<not> isFAGStalled mt_cfg3 mt_in3 0 (theThreadThisCycle s')"
  using icount_chooses_least [of ScheduleState_init mt_cfg3 1 "isFAGStalled mt_cfg3 mt_in3 0" mt_in3 0]
  by (auto simp: ScheduleState_init_def mt_cfg3_def mt_in3_def isFAGStalled_def mt_channel_def getICount_def)

text \<open>
  With a round robin back end no thread starves: a thread that is not stalled in as
  many consecutive schedules as its core has threads is chosen in one of them.
\<close>

theorem execute_round_robin_fair:
  assumes "theRoundRobinPtr s < mt_Threads cfg" "t < mt_Threads cfg" "length inps = mt_Threads cfg"
    "\<forall>inp \<in> set inps. \<not> isEXStalled cfg inp core t"
  shows "\<exists>tds s'. sched_run (\<lambda>inp. scheduleExecuteRoundRobin cfg inp core) inps s = Inr (tds, s') \<and> t \<in> set tds"
  by (rule exec.fair [OF assms])

theorem execute_round_robin_fair_witness:
  "\<exists>tds s'. sched_run (\<lambda>inp. scheduleExecuteRoundRobin mt_cfg3 inp 0) [mt_in3, mt_in3, mt_in3] ScheduleState_init = Inr (tds, s') \<and> 2 \<in> set tds"
  using execute_round_robin_fair [of ScheduleState_init mt_cfg3 2 "[mt_in3, mt_in3, mt_in3]" 0]
  by (simp add: ScheduleState_init_def mt_cfg3_def mt_in3_def isEXStalled_def mt_channel_def)

section \<open>One thread per cycle\<close>

definition sched_inv :: "MT_cfg \<Rightarrow> ScheduleState list \<Rightarrow> bool" where
  "sched_inv cfg ss \<longleftrightarrow> length ss = mt_Cores cfg \<and>
     (\<forall>s \<in> set ss. theRoundRobinPtr s < mt_Threads cfg \<and> theThreadThisCycle s < mt_Threads cfg)"

lemma sched_inv_put:
  "sched_inv cfg ss \<Longrightarrow> theRoundRobinPtr s < mt_Threads cfg \<Longrightarrow> theThreadThisCycle s < mt_Threads cfg \<Longrightarrow> sched_inv cfg (ss[c := s])"
  by (auto simp: sched_inv_def dest!: set_update_subset_insert [THEN subsetD])

lemma sched_inv_init: "0 < mt_Threads cfg \<Longrightarrow> sched_inv cfg (theEXSchedules (mt_initialize cfg))"
  by (simp add: sched_inv_def mt_initialize_def Let_def ScheduleState_init_def)

lemma scheduleFAGThread_ok:
  assumes "sched_inv cfg (theFAGSchedules m)" "core < mt_Cores cfg"
  shows "\<exists>td m'. scheduleFAGThread cfg inp core m = Inr (td, m') \<and> td < mt_Threads cfg \<and> sched_inv cfg (theFAGSchedules m')"
proof -
  let ?s = "theFAGSchedules m ! core"
  have s: "core < length (theFAGSchedules m)" "theRoundRobinPtr ?s < mt_Threads cfg"
    using assms nth_mem [of core "theFAGSchedules m"] by (auto simp: sched_inv_def)
  obtain s' where s': "(if FrontEndPolicy cfg = kFE_ICount then scheduleICount cfg inp core (isFAGStalled cfg inp core) ?s
      else Inr (scheduleStrictRoundRobin cfg inp ?s)) = Inr s'" "theRoundRobinPtr s' < mt_Threads cfg" "theThreadThisCycle s' < mt_Threads cfg"
    using icount.sched_ok [OF s(2), of inp core "\<lambda>inp. isFAGStalled cfg inp core"] strict.sched_ok [OF s(2), of inp] s(2)
    by (cases "FrontEndPolicy cfg = kFE_ICount") auto
  have "scheduleFAGThread cfg inp core m = Inr (theThreadThisCycle s', m\<lparr>theFAGSchedules := (theFAGSchedules m)[core := s']\<rparr>)"
    unfolding scheduleFAGThread_def scheduleThread_def lookup_vec_lt [OF s(1)] rbind_Inr s'(1) using assms(2) by simp
  then show ?thesis using s'(3) sched_inv_put [OF assms(1) s'(2,3)] by simp
qed

text \<open>The execute stages of the threads ask one after the other in a cycle.\<close>

fun ask_EX :: "MT_cfg \<Rightarrow> MT_in \<Rightarrow> nat list \<Rightarrow> MTManager \<Rightarrow> (bool list \<times> MTManager) result" where
  "ask_EX cfg inp [] m = Inr ([], m)"
| "ask_EX cfg inp (i # is) m = rbind (runThisEX cfg inp i m) (\<lambda>(b, m). rbind (ask_EX cfg inp is m) (\<lambda>(bs, m). Inr (b # bs, m)))"

lemma ask_scheduled:
  assumes "sched_inv cfg (theEXSchedules m)" "core < mt_Cores cfg" "0 < mt_Threads cfg" "\<forall>i \<in> set is. i div mt_Threads cfg = core"
    "theLastScheduledCycle (theEXSchedules m ! core) = cycleCount inp"
  shows "ask_EX cfg inp is m = Inr (map (\<lambda>i. i mod mt_Threads cfg = theThreadThisCycle (theEXSchedules m ! core)) is, m)"
  using assms(4)
proof (induction "is")
  case Nil
  show ?case by simp
next
  case (Cons i "is")
  have "runThisEX cfg inp i m = Inr (i mod mt_Threads cfg = theThreadThisCycle (theEXSchedules m ! core), m)"
    using assms(1,2,3,5) Cons.prems by (auto simp: runThisEX_def umod_def sched_inv_def lookup_vec_lt)
  then show ?case using Cons by simp
qed

lemma schedule_EX:
  assumes "theRoundRobinPtr s < mt_Threads cfg"
  shows "\<exists>s'. (if BackEndPolicy cfg = kBE_SmartRoundRobin then scheduleExecuteRoundRobin cfg inp core s
      else Inr (scheduleStrictRoundRobin cfg inp s)) = Inr s' \<and> theRoundRobinPtr s' < mt_Threads cfg \<and>
    theThreadThisCycle s' < mt_Threads cfg \<and> theLastScheduledCycle s' = cycleCount inp \<and>
    (BackEndPolicy cfg = kBE_SmartRoundRobin \<longrightarrow> (\<exists>t < mt_Threads cfg. \<not> isEXStalled cfg inp core t) \<longrightarrow>
      \<not> isEXStalled cfg inp core (theThreadThisCycle s'))"
proof (cases "BackEndPolicy cfg = kBE_SmartRoundRobin")
  case True
  let ?td = "smart_loop (mt_Threads cfg) (mt_Threads cfg) (isEXStalled cfg inp core) (theRoundRobinPtr s)"
  have n: "\<not> isEXStalled cfg inp core ?td" if t: "t < mt_Threads cfg" "\<not> isEXStalled cfg inp core t" for t
    using smart_loop_first [OF assms, of "mt_Threads cfg" "isEXStalled cfg inp core"] round_position [OF t(1) assms] t(2) by metis
  have "scheduleExecuteRoundRobin cfg inp core s = Inr \<lparr>theRoundRobinPtr = (theRoundRobinPtr s + 1) mod mt_Threads cfg,
      theThreadThisCycle = ?td, theLastScheduledCycle = cycleCount inp\<rparr>"
    using assms by (simp add: scheduleExecuteRoundRobin_def Let_def umod_def)
  then show ?thesis using True n assms smart_loop_bound [OF assms] by auto
next
  case False
  then show ?thesis using strict.sched_ok [OF assms, of inp] assms by auto
qed

text \<open>
  C17: However often the execute stages of a core ask in a cycle, the manager lets one
  thread run, the same one, and no other; with the smart round robin policy that thread is
  not stalled unless all are.
\<close>

theorem one_thread_per_cycle:
  assumes "sched_inv cfg (theEXSchedules m)" "core < mt_Cores cfg" "\<forall>i \<in> set is. i div mt_Threads cfg = core"
  shows "\<exists>td m'. ask_EX cfg inp is m = Inr (map (\<lambda>i. i mod mt_Threads cfg = td) is, m') \<and> td < mt_Threads cfg \<and>
    sched_inv cfg (theEXSchedules m') \<and>
    (BackEndPolicy cfg = kBE_SmartRoundRobin \<longrightarrow> theLastScheduledCycle (theEXSchedules m ! core) \<noteq> cycleCount inp \<longrightarrow>
     (\<exists>t < mt_Threads cfg. \<not> isEXStalled cfg inp core t) \<longrightarrow> \<not> isEXStalled cfg inp core td)"
proof -
  let ?s = "theEXSchedules m ! core"
  have s: "core < length (theEXSchedules m)" "theRoundRobinPtr ?s < mt_Threads cfg" "theThreadThisCycle ?s < mt_Threads cfg"
    using assms(1,2) nth_mem [of core "theEXSchedules m"] by (auto simp: sched_inv_def)
  have pos: "0 < mt_Threads cfg" using s(2) by simp
  show ?thesis
  proof (cases "theLastScheduledCycle ?s = cycleCount inp")
    case True
    then show ?thesis using ask_scheduled [OF assms(1,2) pos assms(3) True] s assms(1) by blast
  next
    case False
    obtain s' where s': "(if BackEndPolicy cfg = kBE_SmartRoundRobin then scheduleExecuteRoundRobin cfg inp core ?s
      else Inr (scheduleStrictRoundRobin cfg inp ?s)) = Inr s'" "theRoundRobinPtr s' < mt_Threads cfg"
      "theThreadThisCycle s' < mt_Threads cfg" "theLastScheduledCycle s' = cycleCount inp"
      and smart: "BackEndPolicy cfg = kBE_SmartRoundRobin \<longrightarrow> (\<exists>t < mt_Threads cfg. \<not> isEXStalled cfg inp core t) \<longrightarrow>
      \<not> isEXStalled cfg inp core (theThreadThisCycle s')"
      using schedule_EX [OF s(2), of inp core] by blast
    let ?m = "m\<lparr>theEXSchedules := (theEXSchedules m)[core := s']\<rparr>"
    have inv: "sched_inv cfg (theEXSchedules ?m)" using sched_inv_put [OF assms(1) s'(2,3)] by simp
    have td: "theEXSchedules ?m ! core = s'" using s(1) by simp
    show ?thesis
    proof (cases "is")
      case Nil
      then show ?thesis using s'(3) smart assms(1) by (intro exI [of _ "theThreadThisCycle s'"] exI [of _ m]) simp
    next
      case (Cons i js)
      have "runThisEX cfg inp i m = Inr (i mod mt_Threads cfg = theThreadThisCycle s', ?m)"
        using Cons assms s pos False s'(1) by (auto simp: runThisEX_def umod_def lookup_vec_lt)
      moreover have "ask_EX cfg inp js ?m = Inr (map (\<lambda>i. i mod mt_Threads cfg = theThreadThisCycle s') js, ?m)"
        using ask_scheduled [OF inv assms(2) pos, of js inp] assms(3) Cons td s'(4) by simp
      ultimately have "ask_EX cfg inp is m = Inr (map (\<lambda>i. i mod mt_Threads cfg = theThreadThisCycle s') is, ?m)"
        using Cons by simp
      then show ?thesis using s'(3) smart inv by blast
    qed
  qed
qed

theorem one_thread_per_cycle_witness:
  "\<exists>(td :: nat) m'. ask_EX mt_cfg3 mt_in3 [0, 1, 2] (mt_initialize mt_cfg3) = Inr ([0 = td, 1 = td, 2 = td], m') \<and>
    td < 3 \<and> td \<noteq> 0"
proof -
  have c: "mt_Threads mt_cfg3 = 3" "mt_Cores mt_cfg3 = 1" "BackEndPolicy mt_cfg3 = kBE_SmartRoundRobin" by (simp_all add: mt_cfg3_def)
  have st: "isEXStalled mt_cfg3 mt_in3 0 t \<longleftrightarrow> t = 0" for t by (simp add: isEXStalled_def mt_channel_def mt_in3_def)
  have l: "theLastScheduledCycle (theEXSchedules (mt_initialize mt_cfg3) ! 0) \<noteq> cycleCount mt_in3"
    by (simp add: mt_initialize_def c ScheduleState_init_def mt_in3_def Let_def)
  have "\<exists>t < 3. t \<noteq> (0 :: nat)" by (intro exI [of _ 1]) simp
  then show ?thesis
    using one_thread_per_cycle [of mt_cfg3 "mt_initialize mt_cfg3" 0 "[0, 1, 2]" mt_in3] sched_inv_init [of mt_cfg3]
    unfolding c st using l by (auto simp del: ask_EX.simps)
qed

end
