(* ===== verification/Fetch_Address.thy ===== *)
theory Fetch_Address
  imports Branch_Correct MT_Manager
begin

text \<open>
  The fetch address generator of \<open>components/FetchAddressGenerate/FetchAddressGenerateImpl.cpp\<close>,
  which follows the predicted path and hands the addresses to the fetch unit, with the
  branch predictor and the thread scheduler it uses. What it pulls in a cycle is the record
  \<open>FAG_in\<close>. Then that the addresses it sends form one path, within its limits, and exactly
  when one of its operations fails.
\<close>

section \<open>State\<close>

record FetchAddr =
  theAddress :: u64
  theBPState :: "BPredState option"

record FAG =
  thePC :: "u64 list"
  theNextPC :: "u64 list"
  theRedirectPC :: "u64 list"
  theRedirectNextPC :: "u64 list"
  theRedirect :: "bool list"
  theBranchPredictor :: Combining
  theCurrentThread :: nat

record FAG_cfg =
  MaxFetchAddress :: u32
  MaxBPred :: u32
  fag_Threads :: nat

record FAG_in =
  quiescing :: bool
  FetchAddrOut_available :: "nat \<Rightarrow> bool"
  AvailableFAQ_available :: "nat \<Rightarrow> bool"
  AvailableFAQ :: "nat \<Rightarrow> int"

text \<open>The registers of the simulated processors at the start are given by \<open>cpu\<close>.\<close>

definition fag_initialize :: "FAG_cfg \<Rightarrow> nat \<Rightarrow> (nat \<Rightarrow> u64 \<times> u64) \<Rightarrow> FAG result" where
  "fag_initialize cfg flexusIndex cpu =
     (let n = fag_Threads cfg; regs = map (\<lambda>i. cpu (flexusIndex * n + i)) [0..<n] in
      rbind CombiningImpl (\<lambda>bp. Inr
        \<lparr>thePC = map fst regs, theNextPC = map snd regs, theRedirectPC = replicate n 0, theRedirectNextPC = replicate n 0,
         theRedirect = replicate n False, theBranchPredictor = bp, theCurrentThread = n\<rparr>))"

section \<open>Operations\<close>

definition store_vec :: "'a list \<Rightarrow> nat \<Rightarrow> 'a \<Rightarrow> 'a list result" where
  "store_vec xs i x = (if i < length xs then Inr (xs[i := x]) else Inl OutOfRange)"



text \<open>The loop of \<open>doAddressGen\<close> over the addresses of a thread; the first argument is \<open>max_addrs\<close>.\<close>

fun fag_loop :: "nat \<Rightarrow> int \<Rightarrow> u64 \<Rightarrow> u64 \<Rightarrow> Combining \<Rightarrow> FetchAddr list \<Rightarrow> (FetchAddr list \<times> u64 \<times> u64 \<times> Combining) result" where
  "fag_loop 0 max_predicts pc npc bp fetch = Inr (fetch, pc, npc, bp)"
| "fag_loop (Suc n) max_predicts pc npc bp fetch =
     rbind (isBranch pc bp) (\<lambda>branch.
       if branch then
         if max_predicts = 0 then Inr (fetch, pc, npc, bp)
         else rbind (predict pc bp) (\<lambda>(st, bp).
           fag_loop n (max_predicts - 1) npc (if thePredictedTarget st = 0 then npc + 4 else thePredictedTarget st) bp
             (fetch @ [\<lparr>theAddress = pc, theBPState = Some st\<rparr>]))
       else fag_loop n max_predicts npc (npc + 4) bp (fetch @ [\<lparr>theAddress = pc, theBPState = None\<rparr>]))"

definition take_redirect :: "nat \<Rightarrow> FAG \<Rightarrow> FAG result" where
  "take_redirect anIndex s =
     rbind (lookup_vec (theRedirect s) anIndex) (\<lambda>r.
       if r then
         rbind (lookup_vec (theRedirectPC s) anIndex) (\<lambda>pc.
         rbind (lookup_vec (theRedirectNextPC s) anIndex) (\<lambda>npc.
         rbind (store_vec (thePC s) anIndex pc) (\<lambda>a.
         rbind (store_vec (theNextPC s) anIndex npc) (\<lambda>b.
         rbind (store_vec (theRedirect s) anIndex False) (\<lambda>c.
           Inr (s\<lparr>thePC := a, theNextPC := b, theRedirect := c\<rparr>))))))
       else Inr s)"

text \<open>The command that is sent, if any, and the new state.\<close>

definition doAddressGen :: "FAG_cfg \<Rightarrow> FAG_in \<Rightarrow> nat \<Rightarrow> FAG \<Rightarrow> (FetchAddr list option \<times> FAG) result" where
  "doAddressGen cfg inp anIndex s =
     (if quiescing inp then Inr (None, s)
      else rbind (take_redirect anIndex s) (\<lambda>s.
        dbg_assert (FetchAddrOut_available inp anIndex)
        (dbg_assert (AvailableFAQ_available inp anIndex)
        (rbind (lookup_vec (thePC s) anIndex) (\<lambda>pc.
         rbind (lookup_vec (theNextPC s) anIndex) (\<lambda>npc.
         let max_addrs = min (sint (MaxFetchAddress cfg)) (AvailableFAQ inp anIndex) in
         rbind (fag_loop (nat max_addrs) (sint (MaxBPred cfg)) pc npc (theBranchPredictor s) []) (\<lambda>(fetch, pc, npc, bp).
         rbind (store_vec (thePC s) anIndex pc) (\<lambda>a.
         rbind (store_vec (theNextPC s) anIndex npc) (\<lambda>b.
           Inr (if fetch = [] then None else Some fetch, s\<lparr>thePC := a, theNextPC := b, theBranchPredictor := bp\<rparr>))))))))))"


definition pull_Stalled :: "FAG_in \<Rightarrow> nat \<Rightarrow> bool result" where
  "pull_Stalled inp anIndex = dbg_assert (AvailableFAQ_available inp anIndex) (Inr (AvailableFAQ inp anIndex = 0))"

section \<open>The path\<close>

text \<open>The address after the delay slot of a fetch: its predicted target, or the next instruction.\<close>

definition after :: "FetchAddr \<Rightarrow> u64 \<Rightarrow> u64" where
  "after f npc = (case theBPState f of None \<Rightarrow> npc + 4
     | Some st \<Rightarrow> if thePredictedTarget st = 0 then npc + 4 else thePredictedTarget st)"

fun path :: "BTB \<Rightarrow> FetchAddr list \<Rightarrow> u64 \<times> u64 \<Rightarrow> u64 \<times> u64 \<Rightarrow> bool" where
  "path btb [] from to = (to = from)"
| "path btb (f # fs) from to = (theAddress f = fst from \<and> (BTB_contains (fst from) btb = Inr (theBPState f \<noteq> None)) \<and>
     path btb fs (snd from, after f (snd from)) to)"

definition predictions :: "FetchAddr list \<Rightarrow> nat" where
  "predictions fs = length (filter (\<lambda>f. theBPState f \<noteq> None) fs)"

lemma predictions_simps [simp]:
  "predictions [] = 0" "predictions (f # fs) = (if theBPState f \<noteq> None then 1 else 0) + predictions fs"
  by (simp_all add: predictions_def)

lemma fag_loop_ok:
  assumes "bp_inv bp"
  shows "\<exists>fs to bp'. fag_loop n mp pc npc bp acc = Inr (acc @ fs, fst to, snd to, bp') \<and> bp_inv bp' \<and> cp_BTB bp' = cp_BTB bp \<and>
    path (cp_BTB bp) fs (pc, npc) to \<and> length fs \<le> n \<and> (0 \<le> mp \<longrightarrow> int (predictions fs) \<le> mp) \<and>
    (length fs < n \<longrightarrow> BTB_contains (fst to) (cp_BTB bp) = Inr True \<and> int (predictions fs) = mp)"
  using assms
proof (induction n arbitrary: mp pc npc bp acc)
  case 0
  then show ?case by (intro exI [of _ "[]"] exI [of _ "(pc, npc)"]) simp
next
  case (Suc n)
  have "btb_inv (cp_BTB bp)" using Suc.prems by (simp add: bp_inv_def)
  then obtain b where b: "BTB_contains pc (cp_BTB bp) = Inr b" by (simp add: BTB_contains_def BTB_find_eq)
  consider (stop) "b" "mp = 0" | (pred) "b" "mp \<noteq> 0" | (seq) "\<not> b" by blast
  then show ?case
  proof cases
    case stop
    then show ?thesis using b Suc.prems by (intro exI [of _ "[]"] exI [of _ "(pc, npc)"]) (simp add: isBranch_def)
  next
    case pred
    obtain st bp1 where p: "predict pc bp = Inr (st, bp1)" "bp_inv bp1" "cp_BTB bp1 = cp_BTB bp"
      using predict_ok [OF Suc.prems, of pc] by (auto simp: predicted_def)
    let ?f = "\<lparr>theAddress = pc, theBPState = Some st\<rparr>"
    obtain fs to bp2 where r: "fag_loop n (mp - 1) npc (after ?f npc) bp1 (acc @ [?f]) = Inr ((acc @ [?f]) @ fs, fst to, snd to, bp2)"
      "bp_inv bp2" "cp_BTB bp2 = cp_BTB bp" "path (cp_BTB bp) fs (npc, after ?f npc) to" "length fs \<le> n"
      "0 \<le> mp - 1 \<longrightarrow> int (predictions fs) \<le> mp - 1"
      "length fs < n \<longrightarrow> BTB_contains (fst to) (cp_BTB bp) = Inr True \<and> int (predictions fs) = mp - 1"
      using Suc.IH [OF p(2), of "mp - 1" npc "after ?f npc" "acc @ [?f]"] unfolding p(3) by blast
    have "fag_loop (Suc n) mp pc npc bp acc = Inr (acc @ (?f # fs), fst to, snd to, bp2)"
      using b pred p(1) r(1) by (simp add: isBranch_def after_def)
    then show ?thesis using r(2-7) b pred by (intro exI [of _ "?f # fs"] exI [of _ to] exI [of _ bp2]) auto
  next
    case seq
    let ?f = "\<lparr>theAddress = pc, theBPState = None\<rparr>"
    obtain fs to bp2 where r: "fag_loop n mp npc (after ?f npc) bp (acc @ [?f]) = Inr ((acc @ [?f]) @ fs, fst to, snd to, bp2)"
      "bp_inv bp2" "cp_BTB bp2 = cp_BTB bp" "path (cp_BTB bp) fs (npc, after ?f npc) to" "length fs \<le> n"
      "0 \<le> mp \<longrightarrow> int (predictions fs) \<le> mp"
      "length fs < n \<longrightarrow> BTB_contains (fst to) (cp_BTB bp) = Inr True \<and> int (predictions fs) = mp"
      using Suc.IH [OF Suc.prems, of mp npc "after ?f npc" "acc @ [?f]"] by blast
    have "fag_loop (Suc n) mp pc npc bp acc = Inr (acc @ (?f # fs), fst to, snd to, bp2)"
      using b seq r(1) by (simp add: isBranch_def after_def)
    then show ?thesis using r(2-7) b seq by (intro exI [of _ "?f # fs"] exI [of _ to] exI [of _ bp2]) auto
  qed
qed

section \<open>Invariant\<close>

definition fag_inv :: "FAG_cfg \<Rightarrow> FAG \<Rightarrow> bool" where
  "fag_inv cfg s \<longleftrightarrow> length (thePC s) = fag_Threads cfg \<and> length (theNextPC s) = fag_Threads cfg \<and>
     length (theRedirectPC s) = fag_Threads cfg \<and> length (theRedirectNextPC s) = fag_Threads cfg \<and>
     length (theRedirect s) = fag_Threads cfg \<and> bp_inv (theBranchPredictor s)"

lemma store_vec_lt: "i < length xs \<Longrightarrow> store_vec xs i x = Inr (xs[i := x])"
  by (simp add: store_vec_def)

lemma fag_initialize_ok: "\<exists>s. fag_initialize cfg idx cpu = Inr s \<and> fag_inv cfg s"
  using CombiningImpl_inv by (auto simp: fag_initialize_def fag_inv_def Let_def)



text \<open>Where a thread starts in a cycle: at the address it is redirected to, if it is.\<close>

definition start :: "nat \<Rightarrow> FAG \<Rightarrow> u64 \<times> u64" where
  "start i s = (if theRedirect s ! i then (theRedirectPC s ! i, theRedirectNextPC s ! i) else (thePC s ! i, theNextPC s ! i))"

lemma take_redirect_eq:
  assumes "fag_inv cfg s" "i < fag_Threads cfg"
  shows "take_redirect i s = Inr (s\<lparr>thePC := (thePC s)[i := fst (start i s)], theNextPC := (theNextPC s)[i := snd (start i s)],
     theRedirect := (theRedirect s)[i := False]\<rparr>)"
proof -
  have l: "i < length (theRedirect s)" "i < length (theRedirectPC s)" "i < length (theRedirectNextPC s)"
     "i < length (thePC s)" "i < length (theNextPC s)" using assms by (simp_all add: fag_inv_def)
  have u: "\<not> theRedirect s ! i \<Longrightarrow> (theRedirect s)[i := False] = theRedirect s" by (metis list_update_id)
  show ?thesis using u by (simp add: take_redirect_def start_def l lookup_vec_lt store_vec_lt)
qed

definition channels_ready :: "FAG_in \<Rightarrow> nat \<Rightarrow> bool" where
  "channels_ready inp i \<longleftrightarrow> quiescing inp \<or> FetchAddrOut_available inp i \<and> AvailableFAQ_available inp i"

lemma doAddressGen_ok:
  assumes "fag_inv cfg s" "i < fag_Threads cfg" "\<not> quiescing inp" "channels_ready inp i"
  shows "\<exists>fs to s'. doAddressGen cfg inp i s = Inr (if fs = [] then None else Some fs, s') \<and> fag_inv cfg s' \<and>
    path (cp_BTB (theBranchPredictor s)) fs (start i s) to \<and> (thePC s' ! i, theNextPC s' ! i) = to \<and>
    (\<forall>j. j \<noteq> i \<longrightarrow> thePC s' ! j = thePC s ! j \<and> theNextPC s' ! j = theNextPC s ! j) \<and>
    theRedirect s' = (theRedirect s)[i := False] \<and>
    length fs \<le> nat (min (sint (MaxFetchAddress cfg)) (AvailableFAQ inp i)) \<and>
    (0 \<le> sint (MaxBPred cfg) \<longrightarrow> int (predictions fs) \<le> sint (MaxBPred cfg)) \<and>
    (length fs < nat (min (sint (MaxFetchAddress cfg)) (AvailableFAQ inp i)) \<longrightarrow>
       BTB_contains (fst to) (cp_BTB (theBranchPredictor s)) = Inr True \<and> int (predictions fs) = sint (MaxBPred cfg))"
proof -
  let ?n = "nat (min (sint (MaxFetchAddress cfg)) (AvailableFAQ inp i))" and ?mp = "sint (MaxBPred cfg)"
  have bp: "bp_inv (theBranchPredictor s)" and l: "i < length (thePC s)" "i < length (theNextPC s)"
    using assms(1,2) by (simp_all add: fag_inv_def)
  obtain fs to bp' where r: "fag_loop ?n ?mp (fst (start i s)) (snd (start i s)) (theBranchPredictor s) [] = Inr (fs, fst to, snd to, bp')"
    "bp_inv bp'" "path (cp_BTB (theBranchPredictor s)) fs (start i s) to"
    and b: "length fs \<le> ?n" "0 \<le> ?mp \<longrightarrow> int (predictions fs) \<le> ?mp"
    "length fs < ?n \<longrightarrow> BTB_contains (fst to) (cp_BTB (theBranchPredictor s)) = Inr True \<and> int (predictions fs) = ?mp"
    using fag_loop_ok [OF bp, of ?n ?mp "fst (start i s)" "snd (start i s)" "[]"] unfolding append_Nil prod.collapse by blast
  let ?s = "s\<lparr>thePC := (thePC s)[i := fst to], theNextPC := (theNextPC s)[i := snd to],
     theRedirect := (theRedirect s)[i := False], theBranchPredictor := bp'\<rparr>"
  have "doAddressGen cfg inp i s = Inr (if fs = [] then None else Some fs, ?s)"
    using assms(3,4) r(1) l by (simp add: doAddressGen_def take_redirect_eq [OF assms(1,2)] channels_ready_def lookup_vec_lt store_vec_lt)
  moreover have "fag_inv cfg ?s" using assms(1) r(2) by (simp add: fag_inv_def)
  ultimately show ?thesis using r(3) b l
    by (intro exI [of _ fs] exI [of _ to] exI [of _ ?s] conjI) simp_all
qed

section \<open>Runs\<close>











section \<open>Properties\<close>

text \<open>
  C14: In a cycle the generator sends one path: it starts where the thread was redirected to, or
  where it stopped, every address is followed after one more instruction by the predicted
  target of a branch or by the next instruction, and exactly the addresses the branch target
  buffer knows are predicted. It sends at most the configured number of addresses and at
  most as many as the fetch queue takes, makes at most the configured number of predictions,
  and stops early only at a branch it may not predict any more; other threads are not touched.
\<close>

theorem fetch_path:
  assumes "fag_inv cfg s" "i < fag_Threads cfg" "\<not> quiescing inp" "channels_ready inp i"
  shows "\<exists>fs to s'. doAddressGen cfg inp i s = Inr (if fs = [] then None else Some fs, s') \<and> fag_inv cfg s' \<and>
    path (cp_BTB (theBranchPredictor s)) fs (start i s) to \<and> (thePC s' ! i, theNextPC s' ! i) = to \<and>
    (\<forall>j. j \<noteq> i \<longrightarrow> thePC s' ! j = thePC s ! j \<and> theNextPC s' ! j = theNextPC s ! j) \<and>
    theRedirect s' = (theRedirect s)[i := False] \<and>
    length fs \<le> nat (min (sint (MaxFetchAddress cfg)) (AvailableFAQ inp i)) \<and>
    (0 \<le> sint (MaxBPred cfg) \<longrightarrow> int (predictions fs) \<le> sint (MaxBPred cfg)) \<and>
    (length fs < nat (min (sint (MaxFetchAddress cfg)) (AvailableFAQ inp i)) \<longrightarrow>
       BTB_contains (fst to) (cp_BTB (theBranchPredictor s)) = Inr True \<and> int (predictions fs) = sint (MaxBPred cfg))"
  by (rule doAddressGen_ok [OF assms])

definition fag_cfg1 :: FAG_cfg where
  "fag_cfg1 = \<lparr>MaxFetchAddress = 10, MaxBPred = 2, fag_Threads = 1\<rparr>"

definition fag_in1 :: FAG_in where
  "fag_in1 = \<lparr>quiescing = False, FetchAddrOut_available = (\<lambda>i. True), AvailableFAQ_available = (\<lambda>i. True), AvailableFAQ = (\<lambda>i. 3)\<rparr>"

theorem fetch_path_witness:
  "\<exists>s fs to s'. fag_initialize fag_cfg1 0 (\<lambda>i. (4096, 4100)) = Inr s \<and> doAddressGen fag_cfg1 fag_in1 0 s = Inr (if fs = [] then None else Some fs, s') \<and>
    path (cp_BTB (theBranchPredictor s)) fs (start 0 s) to \<and> length fs \<le> 3 \<and> predictions fs \<le> 2"
proof -
  obtain s where s: "fag_initialize fag_cfg1 0 (\<lambda>i. (4096, 4100)) = Inr s" "fag_inv fag_cfg1 s" using fag_initialize_ok by blast
  have n: "nat (min (sint (MaxFetchAddress fag_cfg1)) (AvailableFAQ fag_in1 0)) = 3" "sint (MaxBPred fag_cfg1) = 2"
    and h: "0 < fag_Threads fag_cfg1" "\<not> quiescing fag_in1" "channels_ready fag_in1 0"
    by (simp_all add: fag_cfg1_def fag_in1_def channels_ready_def)
  obtain fs to s' where "doAddressGen fag_cfg1 fag_in1 0 s = Inr (if fs = [] then None else Some fs, s')"
    "path (cp_BTB (theBranchPredictor s)) fs (start 0 s) to" "length fs \<le> 3" "0 \<le> (2 :: int) \<longrightarrow> int (predictions fs) \<le> 2"
    using fetch_path [OF s(2) h] unfolding n by blast
  then show ?thesis using s(1) by (intro exI [of _ s] exI [of _ fs] exI [of _ to] exI [of _ s']) simp
qed



end
