(* ===== verification/Timing_Queues.thy ===== *)
theory Timing_Queues
  imports Prelude
begin

text \<open>
  The queues between the stages of the timing caches (\<open>components/Common/MessageQueues.hpp\<close>):
  message queues whose places can be reserved, queues with a delay, and queues in front of a
  pipelined resource. The current cycle, which the code asks the simulator for, is an argument;
  taking the head of an empty queue without an assertion is undefined. Then that a message
  queue implements a bounded queue with reservations, and the throughput of a pipeline.
\<close>

section \<open>Message queues\<close>

record 'm MessageQueue =
  mq_Queue :: "('m \<times> int) list"
  mq_Size :: u32
  mq_CurrentUsage :: u32
  mq_CurrentReserve :: u32

definition mq_new :: "u32 \<Rightarrow> 'm MessageQueue" where
  "mq_new aSize = \<lparr>mq_Queue = [], mq_Size = aSize, mq_CurrentUsage = 0, mq_CurrentReserve = 0\<rparr>"

definition mq_setSize :: "u32 \<Rightarrow> 'm MessageQueue \<Rightarrow> 'm MessageQueue" where
  "mq_setSize aSize q = q\<lparr>mq_Size := aSize\<rparr>"

definition mq_enqueue :: "int \<Rightarrow> 'm \<Rightarrow> 'm MessageQueue \<Rightarrow> 'm MessageQueue result" where
  "mq_enqueue now aMessage q =
     (let q = q\<lparr>mq_Queue := mq_Queue q @ [(aMessage, now)], mq_CurrentUsage := mq_CurrentUsage q + 1,
                mq_CurrentReserve := mq_CurrentReserve q + 1\<rparr> in
      dbg_assert (mq_CurrentReserve q \<ge> mq_CurrentUsage q) (dbg_assert (mq_CurrentReserve q \<le> mq_Size q) (Inr q)))"

definition mq_dequeue :: "'m MessageQueue \<Rightarrow> ('m \<times> 'm MessageQueue) result" where
  "mq_dequeue q = (case mq_Queue q of [] \<Rightarrow> Inl AssertFailed
     | (m, t) # rest \<Rightarrow>
        let q = q\<lparr>mq_Queue := rest, mq_CurrentUsage := mq_CurrentUsage q - 1, mq_CurrentReserve := mq_CurrentReserve q - 1\<rparr> in
        dbg_assert (mq_CurrentReserve q \<ge> mq_CurrentUsage q) (dbg_assert (mq_CurrentUsage q \<ge> 0) (Inr (m, q))))"

definition mq_peek :: "'m MessageQueue \<Rightarrow> 'm result" where
  "mq_peek q = (case mq_Queue q of [] \<Rightarrow> Inl OutOfRange | (m, t) # rest \<Rightarrow> Inr m)"

definition mq_hasSpace :: "u32 \<Rightarrow> 'm MessageQueue \<Rightarrow> bool" where
  "mq_hasSpace msgs q \<longleftrightarrow> mq_CurrentReserve q + msgs \<le> mq_Size q"

definition mq_headTimestamp :: "'m MessageQueue \<Rightarrow> int result" where
  "mq_headTimestamp q = (case mq_Queue q of [] \<Rightarrow> Inl AssertFailed | (m, t) # rest \<Rightarrow> Inr t)"

definition mq_empty :: "'m MessageQueue \<Rightarrow> bool" where
  "mq_empty q \<longleftrightarrow> mq_Queue q = []"

definition mq_full :: "u32 \<Rightarrow> 'm MessageQueue \<Rightarrow> bool" where
  "mq_full anAdditionalReserve q \<longleftrightarrow> mq_CurrentReserve q + anAdditionalReserve \<ge> mq_Size q"

definition mq_reserve :: "int \<Rightarrow> 'm MessageQueue \<Rightarrow> 'm MessageQueue result" where
  "mq_reserve n q = (let q = q\<lparr>mq_CurrentReserve := mq_CurrentReserve q + of_int n\<rparr> in
     dbg_assert (mq_CurrentReserve q \<ge> mq_CurrentUsage q) (dbg_assert (mq_CurrentReserve q \<le> mq_Size q) (Inr q)))"

definition mq_unreserve :: "int \<Rightarrow> 'm MessageQueue \<Rightarrow> 'm MessageQueue result" where
  "mq_unreserve n q = (let q = q\<lparr>mq_CurrentReserve := mq_CurrentReserve q - of_int n\<rparr> in
     dbg_assert (mq_CurrentReserve q \<ge> mq_CurrentUsage q) (dbg_assert (mq_CurrentReserve q \<ge> 0) (Inr q)))"

definition mq_getReserve :: "'m MessageQueue \<Rightarrow> int" where
  "mq_getReserve q = sint (mq_CurrentReserve q - mq_CurrentUsage q)"

definition mq_getSize :: "'m MessageQueue \<Rightarrow> int" where
  "mq_getSize q = sint (mq_CurrentUsage q)"

definition mq_getFreeSpace :: "'m MessageQueue \<Rightarrow> int" where
  "mq_getFreeSpace q = sint (mq_Size q - mq_CurrentReserve q)"

section \<open>Queues with a delay\<close>

record 'm DelayFifo =
  df_Queue :: "('m \<times> u64) list"
  df_Size :: u32
  df_CurrentSize :: u32

definition df_new :: "u32 \<Rightarrow> 'm DelayFifo" where
  "df_new aSize = \<lparr>df_Queue = [], df_Size = aSize, df_CurrentSize = 0\<rparr>"

definition df_setSize :: "u32 \<Rightarrow> 'm DelayFifo \<Rightarrow> 'm DelayFifo" where
  "df_setSize aSize q = q\<lparr>df_Size := aSize\<rparr>"

definition df_enqueue :: "u64 \<Rightarrow> 'm \<Rightarrow> u32 \<Rightarrow> 'm DelayFifo \<Rightarrow> 'm DelayFifo" where
  "df_enqueue now anItem delay q =
     q\<lparr>df_Queue := df_Queue q @ [(anItem, now + ucast delay)], df_CurrentSize := df_CurrentSize q + 1\<rparr>"

definition df_ready :: "u64 \<Rightarrow> 'm DelayFifo \<Rightarrow> bool result" where
  "df_ready now q = (if df_CurrentSize q = 0 then Inr False
     else case df_Queue q of [] \<Rightarrow> Inl OutOfRange | (i, t) # rest \<Rightarrow> Inr (now \<ge> t))"

definition df_dequeue :: "'m DelayFifo \<Rightarrow> ('m \<times> 'm DelayFifo) result" where
  "df_dequeue q = (case df_Queue q of [] \<Rightarrow> Inl OutOfRange
     | (i, t) # rest \<Rightarrow> Inr (i, q\<lparr>df_Queue := rest, df_CurrentSize := df_CurrentSize q - 1\<rparr>))"

definition df_peek :: "'m DelayFifo \<Rightarrow> 'm result" where
  "df_peek q = (case df_Queue q of [] \<Rightarrow> Inl OutOfRange | (i, t) # rest \<Rightarrow> Inr i)"

definition df_empty :: "'m DelayFifo \<Rightarrow> bool" where
  "df_empty q \<longleftrightarrow> df_CurrentSize q = 0"

definition df_full :: "'m DelayFifo \<Rightarrow> bool" where
  "df_full q \<longleftrightarrow> df_CurrentSize q \<ge> df_Size q"

section \<open>Queues in front of a pipeline\<close>

text \<open>
  The histogram of arrival times is a statistic and is left out. Times are \<open>uint64_t\<close>; the
  latencies are \<open>int64_t\<close> and are kept as the words they are added as, so that sums and products wrap.
\<close>

record 'm PipelineFifo =
  pf_Queue :: "('m \<times> u64) list"
  theServerReadyTimes :: "u64 list"
  pf_CurrentSize :: u32
  theIssueLatency :: u64
  theLatency :: u64
  theLastArrival :: u64

definition pf_new :: "nat \<Rightarrow> u64 \<Rightarrow> u64 \<Rightarrow> 'm PipelineFifo result" where
  "pf_new aNumPipelines anIssueLatency aLatency =
     dbg_assert (aNumPipelines > 0) (dbg_assert (sint anIssueLatency \<ge> 1)
     (Inr \<lparr>pf_Queue = [], theServerReadyTimes = replicate aNumPipelines 0, pf_CurrentSize = 0,
           theIssueLatency = anIssueLatency, theLatency = aLatency, theLastArrival = 0\<rparr>))"

text \<open>The loop over the repetitions of an access; the second argument is \<open>i\<close>.\<close>

fun pf_issue :: "nat \<Rightarrow> nat \<Rightarrow> u64 \<Rightarrow> u64 \<Rightarrow> u64 list \<Rightarrow> u64 list" where
  "pf_issue 0 i now lat servers = servers"
| "pf_issue (Suc n) i now lat servers = pf_issue n (i + 1) now lat (tl servers @ [now + lat * of_nat (i + 1)])"

definition pf_enqueue :: "u64 \<Rightarrow> 'm \<Rightarrow> nat \<Rightarrow> 'm PipelineFifo \<Rightarrow> 'm PipelineFifo result" where
  "pf_enqueue now anItem aRepeatCount q = (case theServerReadyTimes q of [] \<Rightarrow> Inl OutOfRange
     | s # ss \<Rightarrow> dbg_assert (s \<le> now)
        (Inr (q\<lparr>theServerReadyTimes := pf_issue aRepeatCount 0 now (theIssueLatency q) (s # ss),
                pf_Queue := pf_Queue q @ [(anItem, now + theLatency q * of_nat aRepeatCount)],
                pf_CurrentSize := pf_CurrentSize q + 1, theLastArrival := now\<rparr>)))"

definition pf_ready :: "u64 \<Rightarrow> 'm PipelineFifo \<Rightarrow> bool result" where
  "pf_ready now q = (if pf_CurrentSize q = 0 then Inr False
     else case pf_Queue q of [] \<Rightarrow> Inl OutOfRange | (i, t) # rest \<Rightarrow> Inr (now \<ge> t))"

definition pf_dequeue :: "'m PipelineFifo \<Rightarrow> ('m \<times> 'm PipelineFifo) result" where
  "pf_dequeue q = dbg_assert (pf_CurrentSize q - 1 \<ge> 0) (case pf_Queue q of [] \<Rightarrow> Inl OutOfRange
     | (i, t) # rest \<Rightarrow> Inr (i, q\<lparr>pf_Queue := rest, pf_CurrentSize := pf_CurrentSize q - 1\<rparr>))"

definition pf_peek :: "'m PipelineFifo \<Rightarrow> 'm result" where
  "pf_peek q = (case pf_Queue q of [] \<Rightarrow> Inl OutOfRange | (i, t) # rest \<Rightarrow> Inr i)"

definition pf_stall :: "'m PipelineFifo \<Rightarrow> 'm PipelineFifo" where
  "pf_stall q = q\<lparr>theServerReadyTimes := map (\<lambda>t. t + 1) (theServerReadyTimes q)\<rparr>"

definition pf_serverAvail :: "u64 \<Rightarrow> 'm PipelineFifo \<Rightarrow> bool result" where
  "pf_serverAvail now q = (case theServerReadyTimes q of [] \<Rightarrow> Inl OutOfRange | s # ss \<Rightarrow> Inr (s \<le> now))"

definition pf_empty :: "'m PipelineFifo \<Rightarrow> bool" where
  "pf_empty q \<longleftrightarrow> pf_CurrentSize q = 0"

section \<open>The bounded queue with reservations\<close>

text \<open>
  What a message queue promises: the messages in order, the number of reserved places, and
  the capacity that the two never exceed. A step that does not fit is not allowed.
\<close>

datatype 'm mq_op = Enqueue 'm | Dequeue | Reserve nat | Unreserve nat

fun spec_step :: "nat \<Rightarrow> 'm mq_op \<Rightarrow> 'm list \<times> nat \<Rightarrow> ('m option \<times> 'm list \<times> nat) option" where
  "spec_step cap (Enqueue m) (ms, r) = (if length ms + r < cap then Some (None, ms @ [m], r) else None)"
| "spec_step cap Dequeue (ms, r) = (case ms of [] \<Rightarrow> None | m # rest \<Rightarrow> Some (Some m, rest, r))"
| "spec_step cap (Reserve n) (ms, r) = (if length ms + r + n \<le> cap then Some (None, ms, r + n) else None)"
| "spec_step cap (Unreserve n) (ms, r) = (if n \<le> r then Some (None, ms, r - n) else None)"

definition mq_step :: "int \<Rightarrow> 'm mq_op \<Rightarrow> 'm MessageQueue \<Rightarrow> ('m option \<times> 'm MessageQueue) result" where
  "mq_step now op q = (case op of Enqueue m \<Rightarrow> rbind (mq_enqueue now m q) (\<lambda>q. Inr (None, q))
     | Dequeue \<Rightarrow> rbind (mq_dequeue q) (\<lambda>(m, q). Inr (Some m, q))
     | Reserve n \<Rightarrow> rbind (mq_reserve (int n) q) (\<lambda>q. Inr (None, q))
     | Unreserve n \<Rightarrow> rbind (mq_unreserve (int n) q) (\<lambda>q. Inr (None, q)))"

definition mq_abs :: "'m MessageQueue \<Rightarrow> 'm list \<times> nat" where
  "mq_abs q = (map fst (mq_Queue q), unat (mq_CurrentReserve q) - length (mq_Queue q))"

definition mq_inv :: "'m MessageQueue \<Rightarrow> bool" where
  "mq_inv q \<longleftrightarrow> unat (mq_CurrentUsage q) = length (mq_Queue q) \<and> mq_CurrentUsage q \<le> mq_CurrentReserve q \<and> mq_CurrentReserve q \<le> mq_Size q"

text \<open>The counters do not wrap: what a step adds fits, and no more is taken back than is counted.\<close>

definition no_wrap :: "'m mq_op \<Rightarrow> 'm MessageQueue \<Rightarrow> bool" where
  "no_wrap op q = (case op of Enqueue m \<Rightarrow> unat (mq_Size q) + 1 < 2 ^ 32 | Dequeue \<Rightarrow> True
     | Reserve n \<Rightarrow> unat (mq_Size q) + n < 2 ^ 32 | Unreserve n \<Rightarrow> n \<le> unat (mq_CurrentReserve q))"

text \<open>
  C21: A message queue implements the bounded queue with reservations: a step the bounded queue
  allows succeeds with the same messages in the same order, and a step it does not allow
  fails an assertion, as long as the counters do not wrap.
\<close>

theorem message_queue_refines:
  assumes "mq_inv q" "no_wrap op q"
  shows "case spec_step (unat (mq_Size q)) op (mq_abs q) of
      Some (out, a) \<Rightarrow> \<exists>q'. mq_step now op q = Inr (out, q') \<and> mq_abs q' = a \<and> mq_inv q' \<and> mq_Size q' = mq_Size q
    | None \<Rightarrow> mq_step now op q = Inl AssertFailed"
proof -
  let ?u = "length (mq_Queue q)" and ?r = "unat (mq_CurrentReserve q)" and ?c = "unat (mq_Size q)"
  have u: "unat (mq_CurrentUsage q) = ?u" and ur: "?u \<le> ?r" and rc: "?r \<le> ?c"
    using assms(1) by (simp_all add: mq_inv_def word_le_nat_alt)
  show ?thesis
  proof (cases op)
    case (Enqueue m)
    have "?c + 1 < 2 ^ 32" using assms(2) Enqueue by (simp add: no_wrap_def)
    then have "unat (mq_CurrentReserve q + 1) = ?r + 1" "unat (mq_CurrentUsage q + 1) = ?u + 1"
      using unat_add_small [of "mq_CurrentReserve q" 1] unat_add_small [of "mq_CurrentUsage q" 1] u ur rc by simp_all
    then show ?thesis using Enqueue u ur rc
      by (auto simp: mq_step_def mq_abs_def mq_enqueue_def mq_inv_def word_le_nat_alt Let_def dbg_assert_def)
  next
    case Dequeue
    show ?thesis
    proof (cases "mq_Queue q")
      case Nil
      then show ?thesis using Dequeue by (simp add: mq_step_def mq_abs_def mq_dequeue_def)
    next
      case (Cons x rest)
      have "unat (mq_CurrentReserve q - 1) = ?r - 1" "unat (mq_CurrentUsage q - 1) = ?u - 1"
        using unat_sub_small [of 1 "mq_CurrentReserve q"] unat_sub_small [of 1 "mq_CurrentUsage q"] u ur Cons by simp_all
      then show ?thesis using Dequeue Cons u ur rc
        by (cases x) (auto simp: mq_step_def mq_abs_def mq_dequeue_def mq_inv_def word_le_nat_alt Let_def dbg_assert_def)
    qed
  next
    case (Reserve n)
    have "?c + n < 2 ^ 32" using assms(2) Reserve by (simp add: no_wrap_def)
    then have "unat (mq_CurrentReserve q + of_nat n) = ?r + n" using unat_add_small [of "mq_CurrentReserve q" n] rc by simp
    then show ?thesis using Reserve u ur rc
      by (auto simp: mq_step_def mq_abs_def mq_reserve_def mq_inv_def word_le_nat_alt Let_def dbg_assert_def)
  next
    case (Unreserve n)
    have n: "n \<le> ?r" using assms(2) Unreserve by (simp add: no_wrap_def)
    then have "unat (mq_CurrentReserve q - of_nat n) = ?r - n" by (rule unat_sub_small)
    then show ?thesis using Unreserve u ur rc n
      by (auto simp: mq_step_def mq_abs_def mq_unreserve_def mq_inv_def word_le_nat_alt Let_def dbg_assert_def)
  qed
qed

theorem message_queue_refines_witness:
  "\<exists>q'. mq_step 7 (Enqueue (5 :: nat)) (mq_new 4) = Inr (None, q') \<and> mq_abs q' = ([5], 0)"
  using message_queue_refines [of "mq_new 4 :: nat MessageQueue" "Enqueue 5" 7]
  by (auto simp: mq_inv_def no_wrap_def mq_new_def mq_abs_def)

text \<open>The exception: returning a place that nobody reserved is not noticed, and the queue is full from then on.\<close>

lemma unreserve_wraps:
  "mq_unreserve 1 (mq_new aSize) = Inr (mq_new aSize\<lparr>mq_CurrentReserve := - 1\<rparr>)"
  by (simp add: mq_unreserve_def mq_new_def Let_def)

section \<open>Throughput of a pipeline\<close>

fun pf_run :: "(u64 \<times> 'm) list \<Rightarrow> 'm PipelineFifo \<Rightarrow> 'm PipelineFifo result" where
  "pf_run [] q = Inr q"
| "pf_run ((t, m) # xs) q = rbind (pf_enqueue t m 1 q) (pf_run xs)"

text \<open>The ready times of the servers are those of the last accesses, as many as there are servers.\<close>

lemma pf_enqueue_one:
  assumes "theServerReadyTimes q = s # ss"
  shows "pf_enqueue t m (Suc 0) q = (if s \<le> t then Inr (q\<lparr>theServerReadyTimes := ss @ [t + theIssueLatency q],
      pf_Queue := pf_Queue q @ [(m, t + theLatency q)], pf_CurrentSize := pf_CurrentSize q + 1, theLastArrival := t\<rparr>) else Inl AssertFailed)"
  using assms by (simp add: pf_enqueue_def dbg_assert_def)

lemma pf_run_ok:
  assumes "theServerReadyTimes q \<noteq> []"
  shows "if \<forall>k < length xs. (theServerReadyTimes q @ map (\<lambda>x. fst x + theIssueLatency q) xs) ! k \<le> fst (xs ! k)
    then \<exists>q'. pf_run xs q = Inr q' \<and>
      pf_Queue q' = pf_Queue q @ map (\<lambda>x. (snd x, fst x + theLatency q)) xs
    else pf_run xs q = Inl AssertFailed"
  using assms
proof (induction xs arbitrary: q)
  case Nil
  then show ?case by simp
next
  case (Cons x xs)
  obtain t m where x: "x = (t, m)" by (cases x)
  obtain s ss where s: "theServerReadyTimes q = s # ss" using Cons.prems by (cases "theServerReadyTimes q") auto
  show ?case
  proof (cases "s \<le> t")
    case False
    have h: "\<not> (\<forall>k < length (x # xs). (theServerReadyTimes q @ map (\<lambda>x. fst x + theIssueLatency q) (x # xs)) ! k \<le> fst ((x # xs) ! k))"
      using False s x by (auto intro!: exI [of _ 0])
    show ?thesis unfolding if_not_P [OF h] using False s x by (simp add: pf_enqueue_one)
  next
    case True
    let ?q = "q\<lparr>theServerReadyTimes := ss @ [t + theIssueLatency q],
      pf_Queue := pf_Queue q @ [(m, t + theLatency q)], pf_CurrentSize := pf_CurrentSize q + 1, theLastArrival := t\<rparr>"
    have e: "pf_run (x # xs) q = pf_run xs ?q" using True s x by (simp add: pf_enqueue_one)
    have all: "(\<forall>k < length (x # xs). (theServerReadyTimes q @ map (\<lambda>x. fst x + theIssueLatency q) (x # xs)) ! k \<le> fst ((x # xs) ! k)) \<longleftrightarrow>
        (\<forall>k < length xs. (theServerReadyTimes ?q @ map (\<lambda>x. fst x + theIssueLatency ?q) xs) ! k \<le> fst (xs ! k))"
      using True s x by (simp add: All_less_Suc2)
    have "theServerReadyTimes ?q \<noteq> []" by simp
    from Cons.IH [OF this] show ?thesis unfolding e all by (simp add: s x split: if_splits)
  qed
qed

lemma unat_of_nat64: "n < 2 ^ 64 \<Longrightarrow> unat (of_nat n :: u64) = n"
  by (simp add: unat_of_nat)

lemma word_le_of_nat64: "m < 2 ^ 64 \<Longrightarrow> n < 2 ^ 64 \<Longrightarrow> (of_nat m :: u64) \<le> of_nat n \<longleftrightarrow> m \<le> n"
  by (simp add: word_le_nat_alt unat_of_nat64)

lemma sint_of_nat64:
  assumes "n < 2 ^ 63"
  shows "sint (of_nat n :: u64) = int n"
proof -
  have "sint (of_nat n :: u64) = signed_take_bit 63 (int n)" by (simp add: signed_of_nat)
  also have "\<dots> = int n" using assms by (intro signed_take_bit_int_eq_self) simp_all
  finally show ?thesis .
qed

text \<open>The condition on the ready times of the servers is the one on the distances of the accesses.\<close>

lemma distances:
  fixes xs :: "(nat \<times> 'm) list"
  shows "(\<forall>k < length xs. (replicate N 0 @ map (\<lambda>x. fst x + L) xs) ! k \<le> fst (xs ! k)) \<longleftrightarrow>
    (\<forall>k. k + N < length xs \<longrightarrow> fst (xs ! k) + L \<le> fst (xs ! (k + N)))"
proof (intro iffI allI impI)
  let ?r = "replicate N 0 @ map (\<lambda>x. fst x + L) xs"
  fix k assume "\<forall>k < length xs. ?r ! k \<le> fst (xs ! k)" "k + N < length xs"
  moreover from this have "?r ! (k + N) = fst (xs ! k) + L" by (simp add: nth_append)
  ultimately show "fst (xs ! k) + L \<le> fst (xs ! (k + N))" by metis
next
  let ?r = "replicate N 0 @ map (\<lambda>x. fst x + L) xs"
  fix k assume a: "\<forall>k. k + N < length xs \<longrightarrow> fst (xs ! k) + L \<le> fst (xs ! (k + N))" and k: "k < length xs"
  show "?r ! k \<le> fst (xs ! k)"
  proof (cases "k < N")
    case True
    then show ?thesis using k by (simp add: nth_append)
  next
    case False
    then show ?thesis using a [rule_format, of "k - N"] k by (simp add: nth_append)
  qed
qed

text \<open>
  C22: A pipeline with N servers and issue latency L takes N accesses in any L cycles and no more: a
  sequence of accesses succeeds exactly when each comes at least L cycles after the one N
  places before it, and then the results come in the order of the accesses, each after the
  latency D. An access that comes earlier fails the assertion. The latencies are those of an
  \<open>int64_t\<close> that are not negative, with L at least 1, and no time of an access plus a
  latency reaches 2 ^ 64, where the \<open>uint64_t\<close> times of the code would wrap.
\<close>

theorem pipeline_throughput:
  fixes xs :: "(nat \<times> 'm) list"
  assumes "0 < N" "1 \<le> L" "L < 2 ^ 63" "D < 2 ^ 63" "\<forall>x \<in> set xs. fst x + L < 2 ^ 64 \<and> fst x + D < 2 ^ 64"
  shows "if \<forall>k. k + N < length xs \<longrightarrow> fst (xs ! k) + L \<le> fst (xs ! (k + N))
    then \<exists>q. rbind (pf_new N (of_nat L) (of_nat D)) (pf_run (map (apfst of_nat) xs)) = Inr q \<and>
      map (apsnd unat) (pf_Queue q) = map (\<lambda>x. (snd x, fst x + D)) xs
    else rbind (pf_new N (of_nat L) (of_nat D)) (pf_run (map (apfst of_nat) xs)) = Inl AssertFailed"
proof -
  let ?q = "\<lparr>pf_Queue = [], theServerReadyTimes = replicate N 0, pf_CurrentSize = 0, theIssueLatency = of_nat L,
    theLatency = of_nat D, theLastArrival = 0\<rparr> :: 'm PipelineFifo"
  let ?xs = "map (apfst of_nat) xs :: (u64 \<times> 'm) list"
  have n: "pf_new N (of_nat L) (of_nat D) = Inr ?q"
    using assms(1,2) sint_of_nat64 [OF assms(3)] by (simp add: pf_new_def)
  have le: "(theServerReadyTimes ?q @ map (\<lambda>x. fst x + theIssueLatency ?q) ?xs) ! k \<le> fst (?xs ! k) \<longleftrightarrow>
      (replicate N 0 @ map (\<lambda>x. fst x + L) xs) ! k \<le> fst (xs ! k)" if k: "k < length xs" for k
  proof (cases "k < N")
    case True
    then show ?thesis using k by (simp add: nth_append)
  next
    case False
    have b: "fst (xs ! k) + L < 2 ^ 64" "fst (xs ! (k - N)) + L < 2 ^ 64" using assms(5) k by (simp_all add: nth_mem)
    then have "(of_nat (fst (xs ! (k - N)) + L) :: u64) \<le> of_nat (fst (xs ! k)) \<longleftrightarrow> fst (xs ! (k - N)) + L \<le> fst (xs ! k)"
      by (intro word_le_of_nat64) simp_all
    then show ?thesis using False k by (simp add: nth_append)
  qed
  have u: "map (apsnd unat) (map (\<lambda>x. (snd x, fst x + theLatency ?q)) ?xs) = map (\<lambda>x. (snd x, fst x + D)) xs"
  proof -
    have "unat (of_nat (fst x) + of_nat D :: u64) = fst x + D" if "x \<in> set xs" for x
      using unat_of_nat64 [of "fst x + D"] assms(5) that by simp
    then show ?thesis by simp
  qed
  have ne: "theServerReadyTimes ?q \<noteq> []" using assms(1) by simp
  have iff: "(\<forall>k < length ?xs. (theServerReadyTimes ?q @ map (\<lambda>x. fst x + theIssueLatency ?q) ?xs) ! k \<le> fst (?xs ! k)) \<longleftrightarrow>
      (\<forall>k. k + N < length xs \<longrightarrow> fst (xs ! k) + L \<le> fst (xs ! (k + N)))"
    unfolding distances [symmetric] using le by simp
  note r = pf_run_ok [OF ne, of ?xs, unfolded iff]
  show ?thesis
  proof (cases "\<forall>k. k + N < length xs \<longrightarrow> fst (xs ! k) + L \<le> fst (xs ! (k + N))")
    case True
    then obtain q where "pf_run ?xs ?q = Inr q" "pf_Queue q = map (\<lambda>x. (snd x, fst x + theLatency ?q)) ?xs"
      using r by auto
    then have "\<exists>q. pf_run ?xs ?q = Inr q \<and> map (apsnd unat) (pf_Queue q) = map (\<lambda>x. (snd x, fst x + D)) xs"
      using u by (intro exI [of _ q]) simp
    then show ?thesis unfolding n rbind_Inr if_P [OF True] .
  next
    case False
    show ?thesis using r unfolding n rbind_Inr if_not_P [OF False] .
  qed
qed

theorem pipeline_throughput_witness:
  "(\<exists>q. rbind (pf_new 2 3 10) (pf_run [(0, ''a''), (1, ''b''), (3, ''c''), (4, ''d'')]) = Inr q \<and>
     map (apsnd unat) (pf_Queue q) = [(''a'', 10), (''b'', 11), (''c'', 13), (''d'', 14)]) \<and>
   rbind (pf_new 2 3 10) (pf_run [(0, ''a''), (1, ''b''), (2, ''c'')]) = Inl AssertFailed"
proof
  let ?xs = "[(0, ''a''), (1, ''b''), (3, ''c''), (4, ''d'')] :: (nat \<times> string) list"
  have "\<forall>k. k + 2 < length ?xs \<longrightarrow> fst (?xs ! k) + 3 \<le> fst (?xs ! (k + 2))"
    by (simp add: less_Suc_eq numeral_eq_Suc)
  then show "\<exists>q. rbind (pf_new 2 3 10) (pf_run [(0, ''a''), (1, ''b''), (3, ''c''), (4, ''d'')]) = Inr q \<and>
     map (apsnd unat) (pf_Queue q) = [(''a'', 10), (''b'', 11), (''c'', 13), (''d'', 14)]"
    using pipeline_throughput [of 2 3 10 ?xs] by simp
  let ?ys = "[(0, ''a''), (1, ''b''), (2, ''c'')] :: (nat \<times> string) list"
  have "\<not> (\<forall>k. k + 2 < length ?ys \<longrightarrow> fst (?ys ! k) + 3 \<le> fst (?ys ! (k + 2)))"
    by (auto intro!: exI [of _ 0])
  note early = if_not_P [OF this]
  show "rbind (pf_new 2 3 10) (pf_run [(0, ''a''), (1, ''b''), (2, ''c'')]) = Inl AssertFailed"
    using pipeline_throughput [of 2 3 10 ?ys, unfolded early] by simp
qed

end
