(* ===== verification/Dir_State.thy ===== *)
theory Dir_State
  imports Prelude
begin

text \<open>
  The sharers of a block as the directories of the timing caches keep them: the exact bit
  vector of \<open>components/CMPCache/SimpleDirectoryState.hpp\<close> and the limited pointers of
  \<open>LimitedDirectoryState.hpp\<close>, which fall back to a coarse vector when a block has more
  sharers than pointers. A bit set is a list of booleans; an index outside of it is undefined.
  What a directory relies on is the locale \<open>sharer_set\<close>: no operation forgets a sharer.
\<close>

section \<open>Bit sets\<close>

definition bits_of :: "bool list \<Rightarrow> nat list" where
  "bits_of xs = filter (\<lambda>i. xs ! i) [0..<length xs]"

definition bit_count :: "bool list \<Rightarrow> nat" where
  "bit_count xs = length (filter id xs)"

definition no_bits :: "bool list \<Rightarrow> bool" where
  "no_bits xs = list_all Not xs"

definition set_bit_at :: "nat \<Rightarrow> bool \<Rightarrow> bool list \<Rightarrow> bool list result" where
  "set_bit_at i v xs = (if i < length xs then Inr (xs[i := v]) else Inl OutOfRange)"

definition zero_bits :: "bool list \<Rightarrow> bool list" where
  "zero_bits xs = map (\<lambda>_. False) xs"

section \<open>SimpleDirectoryState\<close>

record SimpleDirectoryState =
  sd_Sharers :: "bool list"
  sd_NumSharers :: nat

definition sd_new :: "nat \<Rightarrow> SimpleDirectoryState" where
  "sd_new aNumSharers = \<lparr>sd_Sharers = replicate aNumSharers False, sd_NumSharers = aNumSharers\<rparr>"

definition sd_isSharer :: "nat \<Rightarrow> SimpleDirectoryState \<Rightarrow> bool result" where
  "sd_isSharer sharer s = lookup_vec (sd_Sharers s) sharer"

definition sd_noSharers :: "SimpleDirectoryState \<Rightarrow> bool" where
  "sd_noSharers s = no_bits (sd_Sharers s)"

definition sd_oneSharer :: "SimpleDirectoryState \<Rightarrow> bool" where
  "sd_oneSharer s \<longleftrightarrow> bit_count (sd_Sharers s) = 1"

definition sd_manySharers :: "SimpleDirectoryState \<Rightarrow> bool" where
  "sd_manySharers s \<longleftrightarrow> bit_count (sd_Sharers s) > 1"

definition sd_countSharers :: "SimpleDirectoryState \<Rightarrow> nat" where
  "sd_countSharers s = bit_count (sd_Sharers s)"

definition sd_getOtherSharers :: "nat \<Rightarrow> SimpleDirectoryState \<Rightarrow> nat list" where
  "sd_getOtherSharers exclude s = filter (\<lambda>n. n \<noteq> exclude) (bits_of (sd_Sharers s))"

definition sd_getSharerList :: "SimpleDirectoryState \<Rightarrow> nat list" where
  "sd_getSharerList s = bits_of (sd_Sharers s)"

definition sd_getFirstSharer :: "SimpleDirectoryState \<Rightarrow> int" where
  "sd_getFirstSharer s = (case bits_of (sd_Sharers s) of [] \<Rightarrow> - 1 | n # _ \<Rightarrow> int n)"

definition sd_getNextSharer :: "nat \<Rightarrow> SimpleDirectoryState \<Rightarrow> int" where
  "sd_getNextSharer sharer s = (case filter (\<lambda>n. n > sharer) (bits_of (sd_Sharers s)) of [] \<Rightarrow> - 1 | n # _ \<Rightarrow> int n)"

definition sd_removeSharer :: "nat \<Rightarrow> SimpleDirectoryState \<Rightarrow> SimpleDirectoryState result" where
  "sd_removeSharer sharer s = dbg_assert (sharer < length (sd_Sharers s))
     (rbind (set_bit_at sharer False (sd_Sharers s)) (\<lambda>b. Inr (s\<lparr>sd_Sharers := b\<rparr>)))"

definition sd_addSharer :: "nat \<Rightarrow> SimpleDirectoryState \<Rightarrow> SimpleDirectoryState result" where
  "sd_addSharer sharer s = dbg_assert (sharer < length (sd_Sharers s))
     (rbind (set_bit_at sharer True (sd_Sharers s)) (\<lambda>b. Inr (s\<lparr>sd_Sharers := b\<rparr>)))"

definition sd_setSharer :: "nat \<Rightarrow> SimpleDirectoryState \<Rightarrow> SimpleDirectoryState result" where
  "sd_setSharer sharer s = rbind (set_bit_at sharer True (zero_bits (sd_Sharers s))) (\<lambda>b. Inr (s\<lparr>sd_Sharers := b\<rparr>))"

definition sd_reset :: "SimpleDirectoryState \<Rightarrow> SimpleDirectoryState" where
  "sd_reset s = s\<lparr>sd_Sharers := zero_bits (sd_Sharers s)\<rparr>"

definition sd_resize :: "nat \<Rightarrow> SimpleDirectoryState \<Rightarrow> SimpleDirectoryState" where
  "sd_resize numSharers s = \<lparr>sd_Sharers = replicate numSharers False, sd_NumSharers = numSharers\<rparr>"

text \<open>The assignments write the first \<open>theNumSharers\<close> bits.\<close>

definition write_bits :: "nat \<Rightarrow> (nat \<Rightarrow> bool \<Rightarrow> bool) \<Rightarrow> bool list \<Rightarrow> bool list result" where
  "write_bits n f xs = (if n \<le> length xs then Inr (map (\<lambda>i. if i < n then f i (xs ! i) else xs ! i) [0..<length xs]) else Inl OutOfRange)"

definition sd_assign_u64 :: "u64 \<Rightarrow> SimpleDirectoryState \<Rightarrow> SimpleDirectoryState result" where
  "sd_assign_u64 v s = rbind (write_bits (sd_NumSharers s) (\<lambda>i old. bit v i) (sd_Sharers s)) (\<lambda>b. Inr (s\<lparr>sd_Sharers := b\<rparr>))"

definition sd_assign_bits :: "bool list \<Rightarrow> SimpleDirectoryState \<Rightarrow> SimpleDirectoryState result" where
  "sd_assign_bits v s = (if sd_NumSharers s \<le> length v
     then rbind (write_bits (sd_NumSharers s) (\<lambda>i old. v ! i) (sd_Sharers s)) (\<lambda>b. Inr (s\<lparr>sd_Sharers := b\<rparr>)) else Inl OutOfRange)"

definition sd_or_bits :: "bool list \<Rightarrow> SimpleDirectoryState \<Rightarrow> SimpleDirectoryState result" where
  "sd_or_bits v s = (if sd_NumSharers s \<le> length v
     then rbind (write_bits (sd_NumSharers s) (\<lambda>i old. old \<or> v ! i) (sd_Sharers s)) (\<lambda>b. Inr (s\<lparr>sd_Sharers := b\<rparr>)) else Inl OutOfRange)"

definition sd_or_u64 :: "u64 \<Rightarrow> SimpleDirectoryState \<Rightarrow> SimpleDirectoryState result" where
  "sd_or_u64 v s = rbind (write_bits (sd_NumSharers s) (\<lambda>i old. old \<or> bit v i) (sd_Sharers s)) (\<lambda>b. Inr (s\<lparr>sd_Sharers := b\<rparr>))"

text \<open>The bit sets of an intersection or union have to be of the same size.\<close>

definition zip_bits :: "(bool \<Rightarrow> bool \<Rightarrow> bool) \<Rightarrow> bool list \<Rightarrow> bool list \<Rightarrow> bool list result" where
  "zip_bits f xs ys = (if length xs = length ys then Inr (map2 f xs ys) else Inl AssertFailed)"

definition sd_and :: "SimpleDirectoryState \<Rightarrow> SimpleDirectoryState \<Rightarrow> SimpleDirectoryState result" where
  "sd_and a s = rbind (zip_bits (\<and>) (sd_Sharers s) (sd_Sharers a)) (\<lambda>b. Inr (s\<lparr>sd_Sharers := b\<rparr>))"

fun or_all :: "bool list \<Rightarrow> bool list list \<Rightarrow> bool list result" where
  "or_all acc [] = Inr acc"
| "or_all acc (x # xs) = rbind (zip_bits (\<or>) acc x) (\<lambda>acc. or_all acc xs)"

definition isNonShared :: "bool list list \<Rightarrow> nat \<Rightarrow> bool result" where
  "isNonShared state requester = (case state of [] \<Rightarrow> Inr True
     | x # xs \<Rightarrow> rbind (or_all x xs) (\<lambda>sharers.
         if no_bits sharers then Inr True
         else rbind (lookup_vec sharers requester) (\<lambda>b. Inr (b \<and> bit_count sharers = 1))))"

definition getPresenceVector :: "SimpleDirectoryState list \<Rightarrow> bool list" where
  "getPresenceVector state = map (\<lambda>s. \<not> sd_noSharers s) state"

fun presence2State :: "bool list \<Rightarrow> SimpleDirectoryState \<Rightarrow> nat \<Rightarrow> SimpleDirectoryState list result" where
  "presence2State [] defaultState sharer = Inr []"
| "presence2State (p # ps) defaultState sharer =
     rbind (if p then sd_setSharer sharer defaultState else Inr defaultState) (\<lambda>s.
     rbind (presence2State ps defaultState sharer) (\<lambda>ss. Inr (s # ss)))"

definition bits2State :: "bool list \<Rightarrow> SimpleDirectoryState \<Rightarrow> SimpleDirectoryState" where
  "bits2State aState aDefaultState = \<lparr>sd_Sharers = aState, sd_NumSharers = sd_NumSharers aDefaultState\<rparr>"

fun setPresence :: "nat \<Rightarrow> bool list \<Rightarrow> bool list \<Rightarrow> SimpleDirectoryState list \<Rightarrow> SimpleDirectoryState list result" where
  "setPresence sharer [] exclusive state = Inr state"
| "setPresence sharer (p # ps) (e # es) (s # ss) =
     rbind (if p then if e then sd_setSharer sharer s else sd_addSharer sharer s else sd_removeSharer sharer s) (\<lambda>s.
     rbind (setPresence sharer ps es ss) (\<lambda>ss. Inr (s # ss)))"
| "setPresence sharer (p # ps) [] state = Inl OutOfRange"
| "setPresence sharer (p # ps) (e # es) [] = Inl OutOfRange"

section \<open>LimitedDirectoryState\<close>

record LimitedDirectoryState =
  ld_Sharers :: "bool list"
  ld_NumSharers :: nat
  theNumPointers :: nat
  theGranularity :: nat
  coarse_vector :: bool

definition ld_new :: "nat \<Rightarrow> nat \<Rightarrow> nat \<Rightarrow> LimitedDirectoryState result" where
  "ld_new aNumSharers aNumPointers aGranularity = dbg_assert (aNumPointers > 0)
     (Inr \<lparr>ld_Sharers = replicate aNumSharers False, ld_NumSharers = aNumSharers, theNumPointers = aNumPointers,
           theGranularity = aGranularity, coarse_vector = False\<rparr>)"

text \<open>Setting the bits of the group of a sharer, and of the groups of a list of sharers.\<close>

fun set_group :: "nat \<Rightarrow> nat \<Rightarrow> bool list \<Rightarrow> bool list result" where
  "set_group 0 base xs = Inr xs"
| "set_group (Suc g) base xs = rbind (set_bit_at base True xs) (set_group g (base + 1))"

definition add_group :: "nat \<Rightarrow> nat \<Rightarrow> bool list \<Rightarrow> bool list result" where
  "add_group g n xs = rbind (lookup_vec xs n) (\<lambda>b.
     if \<not> b then (if g = 0 then Inl DivTrap else set_group g (n div g * g) xs) else Inr xs)"

fun coarsen :: "nat \<Rightarrow> nat list \<Rightarrow> bool list \<Rightarrow> bool list result" where
  "coarsen g [] xs = Inr xs"
| "coarsen g (n # ns) xs = rbind (add_group g n xs) (coarsen g ns)"

definition go_coarse :: "LimitedDirectoryState \<Rightarrow> LimitedDirectoryState result" where
  "go_coarse s = rbind (coarsen (theGranularity s) (bits_of (ld_Sharers s)) (zero_bits (ld_Sharers s))) (\<lambda>b.
     Inr (s\<lparr>ld_Sharers := b, coarse_vector := True\<rparr>))"

definition ld_removeSharer :: "nat \<Rightarrow> LimitedDirectoryState \<Rightarrow> LimitedDirectoryState result" where
  "ld_removeSharer sharer s = dbg_assert (sharer < length (ld_Sharers s))
     (if \<not> coarse_vector s then rbind (set_bit_at sharer False (ld_Sharers s)) (\<lambda>b. Inr (s\<lparr>ld_Sharers := b\<rparr>)) else Inr s)"

definition ld_addSharer :: "nat \<Rightarrow> LimitedDirectoryState \<Rightarrow> LimitedDirectoryState result" where
  "ld_addSharer sharer s = dbg_assert (sharer < length (ld_Sharers s))
     (if \<not> coarse_vector s then
        rbind (set_bit_at sharer True (ld_Sharers s)) (\<lambda>b.
          let s = s\<lparr>ld_Sharers := b\<rparr> in
          if bit_count b > theNumPointers s then go_coarse s else Inr s)
      else rbind (add_group (theGranularity s) sharer (ld_Sharers s)) (\<lambda>b. Inr (s\<lparr>ld_Sharers := b\<rparr>)))"

definition ld_setSharer :: "nat \<Rightarrow> LimitedDirectoryState \<Rightarrow> LimitedDirectoryState result" where
  "ld_setSharer sharer s = rbind (set_bit_at sharer True (zero_bits (ld_Sharers s))) (\<lambda>b.
     Inr (s\<lparr>ld_Sharers := b, coarse_vector := False\<rparr>))"

definition ld_reset :: "LimitedDirectoryState \<Rightarrow> LimitedDirectoryState" where
  "ld_reset s = s\<lparr>ld_Sharers := zero_bits (ld_Sharers s), coarse_vector := False\<rparr>"

definition ld_resize :: "nat \<Rightarrow> LimitedDirectoryState \<Rightarrow> LimitedDirectoryState" where
  "ld_resize numSharers s = s\<lparr>ld_Sharers := replicate numSharers False, coarse_vector := False\<rparr>"

definition recoarsen :: "LimitedDirectoryState \<Rightarrow> LimitedDirectoryState result" where
  "recoarsen s = (if bit_count (ld_Sharers s) > theNumPointers s then go_coarse s else Inr (s\<lparr>coarse_vector := False\<rparr>))"

definition ld_assign_u64 :: "u64 \<Rightarrow> LimitedDirectoryState \<Rightarrow> LimitedDirectoryState result" where
  "ld_assign_u64 v s = rbind (write_bits (ld_NumSharers s) (\<lambda>i old. bit v i) (ld_Sharers s)) (\<lambda>b. recoarsen (s\<lparr>ld_Sharers := b\<rparr>))"

definition ld_or_u64 :: "u64 \<Rightarrow> LimitedDirectoryState \<Rightarrow> LimitedDirectoryState result" where
  "ld_or_u64 v s = rbind (write_bits (ld_NumSharers s) (\<lambda>i old. old \<or> bit v i) (ld_Sharers s)) (\<lambda>b. recoarsen (s\<lparr>ld_Sharers := b\<rparr>))"

definition ld_assign_simple :: "SimpleDirectoryState \<Rightarrow> LimitedDirectoryState \<Rightarrow> LimitedDirectoryState result" where
  "ld_assign_simple a s =
     (if bit_count (sd_Sharers a) > theNumPointers s then
        rbind (coarsen (theGranularity s) (bits_of (sd_Sharers a)) (zero_bits (ld_Sharers s))) (\<lambda>b.
          Inr (s\<lparr>ld_Sharers := b, coarse_vector := True\<rparr>))
      else Inr (s\<lparr>ld_Sharers := sd_Sharers a, coarse_vector := False\<rparr>))"

definition ld_and :: "LimitedDirectoryState \<Rightarrow> LimitedDirectoryState \<Rightarrow> LimitedDirectoryState result" where
  "ld_and a s = rbind (zip_bits (\<and>) (ld_Sharers s) (ld_Sharers a)) (\<lambda>b. recoarsen (s\<lparr>ld_Sharers := b\<rparr>))"

definition ld_to_simple :: "LimitedDirectoryState \<Rightarrow> SimpleDirectoryState" where
  "ld_to_simple s = \<lparr>sd_Sharers = ld_Sharers s, sd_NumSharers = ld_NumSharers s\<rparr>"

definition ld_of_simple :: "SimpleDirectoryState \<Rightarrow> nat \<Rightarrow> nat \<Rightarrow> LimitedDirectoryState result" where
  "ld_of_simple aState aNumPointers aGranularity = dbg_assert (aNumPointers > 0)
     (let s = \<lparr>ld_Sharers = sd_Sharers aState, ld_NumSharers = sd_NumSharers aState, theNumPointers = aNumPointers,
               theGranularity = aGranularity, coarse_vector = False\<rparr> in
      if bit_count (ld_Sharers s) > aNumPointers then go_coarse s else Inr s)"

section \<open>Bit sets as sets\<close>

definition sset :: "bool list \<Rightarrow> nat set" where
  "sset xs = {i. i < length xs \<and> xs ! i}"

lemma set_bits_of: "set (bits_of xs) = sset xs"
  by (auto simp: bits_of_def sset_def)

lemma sset_finite [simp]: "finite (sset xs)"
  by (simp add: sset_def)

lemma sset_zero [simp]: "sset (zero_bits xs) = {}" "length (zero_bits xs) = length xs"
  by (auto simp: sset_def zero_bits_def)

lemma sset_update: "i < length xs \<Longrightarrow> sset (xs[i := v]) = (if v then insert i (sset xs) else sset xs - {i})"
  by (auto simp: sset_def nth_list_update)

lemma sset_replicate [simp]: "sset (replicate n False) = {}"
  by (simp add: sset_def)

lemma bit_count_card: "bit_count xs = card (sset xs)"
proof -
  have "bit_count xs = length (filter (\<lambda>i. xs ! i) [0..<length xs])"
    unfolding bit_count_def by (metis (no_types, lifting) filter_map id_comp length_map map_nth)
  also have "\<dots> = card (set (filter (\<lambda>i. xs ! i) [0..<length xs]))" by (rule distinct_card [symmetric]) simp
  finally show ?thesis by (simp add: set_bits_of [symmetric] bits_of_def)
qed

lemma no_bits_iff: "no_bits xs \<longleftrightarrow> sset xs = {}"
  by (auto simp: no_bits_def sset_def list_all_length)

lemma set_group_ok:
  assumes "base + g \<le> length xs"
  shows "\<exists>ys. set_group g base xs = Inr ys \<and> length ys = length xs \<and> sset ys = sset xs \<union> {base..<base + g}"
  using assms
proof (induction g arbitrary: base xs)
  case 0
  then show ?case by simp
next
  case (Suc g)
  have "base + 1 + g \<le> length (xs[base := True])" using Suc.prems by simp
  from Suc.IH [OF this] obtain ys where "set_group g (base + 1) (xs[base := True]) = Inr ys" "length ys = length xs"
    "sset ys = insert base (sset xs) \<union> {base + 1..<base + 1 + g}" using Suc.prems by (auto simp: sset_update)
  moreover have "{base..<base + Suc g} = insert base {base + 1..<base + 1 + g}" by auto
  ultimately show ?case using Suc.prems by (simp add: set_bit_at_def)
qed

lemma add_group_ok:
  assumes "0 < g" "g dvd length xs" "n < length xs"
  shows "\<exists>ys. add_group g n xs = Inr ys \<and> length ys = length xs \<and> insert n (sset xs) \<subseteq> sset ys"
proof (cases "xs ! n")
  case True
  then show ?thesis using assms(3) by (auto simp: add_group_def lookup_vec_lt sset_def)
next
  case False
  obtain k where k: "length xs = g * k" using assms(2) by (auto simp: dvd_def)
  have "n div g < k" using assms(1,3) k by (simp add: div_less_iff_less_mult mult.commute)
  then have "(n div g + 1) * g \<le> k * g" by (intro mult_le_mono1) simp
  then have "n div g * g + g \<le> length xs" using k by (simp add: algebra_simps)
  from set_group_ok [OF this] obtain ys where ys: "set_group g (n div g * g) xs = Inr ys" "length ys = length xs"
    "sset ys = sset xs \<union> {n div g * g..<n div g * g + g}" by blast
  have "n div g * g \<le> n" "n < n div g * g + g" using assms(1) div_mult_mod_eq [of n g] mod_less_divisor [of g n] by linarith+
  then show ?thesis using ys False assms(1,3) by (auto simp: add_group_def lookup_vec_lt)
qed

lemma coarsen_ok:
  assumes "0 < g" "g dvd length xs" "\<forall>n \<in> set ns. n < length xs"
  shows "\<exists>ys. coarsen g ns xs = Inr ys \<and> length ys = length xs \<and> sset xs \<union> set ns \<subseteq> sset ys"
  using assms
proof (induction ns arbitrary: xs)
  case Nil
  then show ?case by simp
next
  case (Cons n ns)
  obtain ys where ys: "add_group g n xs = Inr ys" "length ys = length xs" "insert n (sset xs) \<subseteq> sset ys"
    using add_group_ok [OF Cons.prems(1,2), of n] Cons.prems(3) by auto
  have "\<exists>zs. coarsen g ns ys = Inr zs \<and> length zs = length ys \<and> sset ys \<union> set ns \<subseteq> sset zs"
    using Cons.IH [of ys] Cons.prems ys(2) by simp
  then show ?case using ys by auto
qed

section \<open>What a directory relies on\<close>

locale sharer_set =
  fixes inv :: "nat \<Rightarrow> 's \<Rightarrow> bool" and sharers :: "'s \<Rightarrow> nat set" and exact :: "'s \<Rightarrow> bool"
    and add :: "nat \<Rightarrow> 's \<Rightarrow> 's result" and remove :: "nat \<Rightarrow> 's \<Rightarrow> 's result" and set_only :: "nat \<Rightarrow> 's \<Rightarrow> 's result"
    and clear :: "'s \<Rightarrow> 's"
  assumes add_ok: "inv w s \<Longrightarrow> i < w \<Longrightarrow> \<exists>s'. add i s = Inr s' \<and> inv w s' \<and> insert i (sharers s) \<subseteq> sharers s' \<and>
      (exact s' \<longrightarrow> exact s \<and> sharers s' = insert i (sharers s))"
    and remove_ok: "inv w s \<Longrightarrow> i < w \<Longrightarrow> \<exists>s'. remove i s = Inr s' \<and> inv w s' \<and> sharers s - {i} \<subseteq> sharers s' \<and>
      (exact s' \<longrightarrow> exact s \<and> sharers s' = sharers s - {i})"
    and set_only_ok: "inv w s \<Longrightarrow> i < w \<Longrightarrow> \<exists>s'. set_only i s = Inr s' \<and> inv w s' \<and> sharers s' = {i}"
    and clear_ok: "inv w s \<Longrightarrow> inv w (clear s) \<and> sharers (clear s) = {}"

datatype dir_op = Add nat | Remove nat | SetOnly nat | Clear

fun dir_step :: "(nat \<Rightarrow> 's \<Rightarrow> 's result) \<Rightarrow> (nat \<Rightarrow> 's \<Rightarrow> 's result) \<Rightarrow> (nat \<Rightarrow> 's \<Rightarrow> 's result) \<Rightarrow> ('s \<Rightarrow> 's) \<Rightarrow> dir_op \<Rightarrow> 's \<Rightarrow> 's result" where
  "dir_step add remove set_only clear (Add i) s = add i s"
| "dir_step add remove set_only clear (Remove i) s = remove i s"
| "dir_step add remove set_only clear (SetOnly i) s = set_only i s"
| "dir_step add remove set_only clear Clear s = Inr (clear s)"

fun dir_run :: "(dir_op \<Rightarrow> 's \<Rightarrow> 's result) \<Rightarrow> dir_op list \<Rightarrow> 's \<Rightarrow> 's result" where
  "dir_run step [] s = Inr s"
| "dir_run step (op # ops) s = rbind (step op s) (dir_run step ops)"

text \<open>The caches that really share the block.\<close>

fun true_step :: "dir_op \<Rightarrow> nat set \<Rightarrow> nat set" where
  "true_step (Add i) S = insert i S"
| "true_step (Remove i) S = S - {i}"
| "true_step (SetOnly i) S = {i}"
| "true_step Clear S = {}"

fun op_ok :: "nat \<Rightarrow> dir_op \<Rightarrow> bool" where
  "op_ok w (Add i) = (i < w)"
| "op_ok w (Remove i) = (i < w)"
| "op_ok w (SetOnly i) = (i < w)"
| "op_ok w Clear = True"

context sharer_set
begin

lemma step_ok:
  assumes "inv w s" "op_ok w op" "S \<subseteq> sharers s" "exact s \<longrightarrow> sharers s = S"
  shows "\<exists>s'. dir_step add remove set_only clear op s = Inr s' \<and> inv w s' \<and> true_step op S \<subseteq> sharers s' \<and>
    (exact s' \<longrightarrow> sharers s' = true_step op S)"
proof (cases op)
  case (Add i)
  then show ?thesis using add_ok [OF assms(1), of i] assms by fastforce
next
  case (Remove i)
  then show ?thesis using remove_ok [OF assms(1), of i] assms by fastforce
next
  case (SetOnly i)
  then show ?thesis using set_only_ok [OF assms(1), of i] assms by fastforce
next
  case Clear
  then show ?thesis using clear_ok [OF assms(1)] by simp
qed

lemma run_keeps:
  assumes "inv w s" "list_all (op_ok w) ops" "S \<subseteq> sharers s" "exact s \<longrightarrow> sharers s = S"
  shows "\<exists>s'. dir_run (dir_step add remove set_only clear) ops s = Inr s' \<and> inv w s' \<and> fold true_step ops S \<subseteq> sharers s' \<and>
    (exact s' \<longrightarrow> sharers s' = fold true_step ops S)"
  using assms
proof (induction ops arbitrary: s S)
  case Nil
  then show ?case by simp
next
  case (Cons op ops)
  obtain s1 where s1: "dir_step add remove set_only clear op s = Inr s1" "inv w s1" "true_step op S \<subseteq> sharers s1"
    "exact s1 \<longrightarrow> sharers s1 = true_step op S" using step_ok [OF Cons.prems(1) _ Cons.prems(3,4), of op] Cons.prems(2) by auto
  show ?case using Cons.IH [OF s1(2) _ s1(3,4)] Cons.prems(2) s1(1) by simp
qed

end

definition simple_inv :: "nat \<Rightarrow> SimpleDirectoryState \<Rightarrow> bool" where
  "simple_inv w s \<longleftrightarrow> length (sd_Sharers s) = w"

interpretation simple: sharer_set simple_inv "\<lambda>s. sset (sd_Sharers s)" "\<lambda>s. True" sd_addSharer sd_removeSharer sd_setSharer sd_reset
  by unfold_locales
    (auto simp: simple_inv_def sd_addSharer_def sd_removeSharer_def sd_setSharer_def sd_reset_def set_bit_at_def sset_update)

definition limited_inv :: "nat \<Rightarrow> nat \<Rightarrow> LimitedDirectoryState \<Rightarrow> bool" where
  "limited_inv p w s \<longleftrightarrow> length (ld_Sharers s) = w \<and> 0 < theGranularity s \<and> theGranularity s dvd w \<and> 0 < p \<and> theNumPointers s = p \<and>
     (\<not> coarse_vector s \<longrightarrow> card (sset (ld_Sharers s)) \<le> p)"

lemma go_coarse_ok:
  assumes "length (ld_Sharers s) = w" "0 < theGranularity s" "theGranularity s dvd w" "0 < p" "theNumPointers s = p"
  shows "\<exists>s'. go_coarse s = Inr s' \<and> limited_inv p w s' \<and> sset (ld_Sharers s) \<subseteq> sset (ld_Sharers s') \<and> coarse_vector s'"
  using coarsen_ok [of "theGranularity s" "zero_bits (ld_Sharers s)" "bits_of (ld_Sharers s)"] assms
  by (auto simp: go_coarse_def limited_inv_def set_bits_of) (auto simp: sset_def)

lemma ld_addSharer_ok:
  assumes "limited_inv p w s" "i < w"
  shows "\<exists>s'. ld_addSharer i s = Inr s' \<and> limited_inv p w s' \<and> insert i (sset (ld_Sharers s)) \<subseteq> sset (ld_Sharers s') \<and>
    (\<not> coarse_vector s' \<longrightarrow> \<not> coarse_vector s \<and> sset (ld_Sharers s') = insert i (sset (ld_Sharers s)))"
proof (cases "coarse_vector s")
  case True
  then show ?thesis using add_group_ok [of "theGranularity s" "ld_Sharers s" i] assms
    by (auto simp: ld_addSharer_def limited_inv_def)
next
  case False
  let ?s = "s\<lparr>ld_Sharers := (ld_Sharers s)[i := True]\<rparr>"
  have u: "sset (ld_Sharers ?s) = insert i (sset (ld_Sharers s))" using assms by (simp add: limited_inv_def sset_update)
  show ?thesis
  proof (cases "bit_count (ld_Sharers ?s) > theNumPointers s")
    case True
    then show ?thesis using go_coarse_ok [of ?s w p] False assms u
      by (auto simp: ld_addSharer_def limited_inv_def set_bit_at_def)
  next
    case le: False
    then show ?thesis using False assms u by (auto simp: ld_addSharer_def limited_inv_def set_bit_at_def bit_count_card)
  qed
qed

lemma ld_removeSharer_ok:
  assumes "limited_inv p w s" "i < w"
  shows "\<exists>s'. ld_removeSharer i s = Inr s' \<and> limited_inv p w s' \<and> sset (ld_Sharers s) - {i} \<subseteq> sset (ld_Sharers s') \<and>
    (\<not> coarse_vector s' \<longrightarrow> \<not> coarse_vector s \<and> sset (ld_Sharers s') = sset (ld_Sharers s) - {i})"
  using assms card_mono [of "sset (ld_Sharers s)" "sset (ld_Sharers s) - {i}"]
  by (cases "coarse_vector s") (auto simp: ld_removeSharer_def limited_inv_def set_bit_at_def sset_update)

interpretation limited: sharer_set "limited_inv p" "\<lambda>s. sset (ld_Sharers s)" "\<lambda>s. \<not> coarse_vector s" ld_addSharer ld_removeSharer ld_setSharer ld_reset for p
proof
  fix w i and s :: LimitedDirectoryState
  assume s: "limited_inv p w s"
  show "limited_inv p w (ld_reset s) \<and> sset (ld_Sharers (ld_reset s)) = {}"
    using s by (simp add: limited_inv_def ld_reset_def)
  assume i: "i < w"
  show "\<exists>s'. ld_addSharer i s = Inr s' \<and> limited_inv p w s' \<and> insert i (sset (ld_Sharers s)) \<subseteq> sset (ld_Sharers s') \<and>
      (\<not> coarse_vector s' \<longrightarrow> \<not> coarse_vector s \<and> sset (ld_Sharers s') = insert i (sset (ld_Sharers s)))"
    by (rule ld_addSharer_ok [OF s i])
  show "\<exists>s'. ld_removeSharer i s = Inr s' \<and> limited_inv p w s' \<and> sset (ld_Sharers s) - {i} \<subseteq> sset (ld_Sharers s') \<and>
      (\<not> coarse_vector s' \<longrightarrow> \<not> coarse_vector s \<and> sset (ld_Sharers s') = sset (ld_Sharers s) - {i})"
    by (rule ld_removeSharer_ok [OF s i])
  show "\<exists>s'. ld_setSharer i s = Inr s' \<and> limited_inv p w s' \<and> sset (ld_Sharers s') = {i}"
    using s i by (auto simp: limited_inv_def ld_setSharer_def set_bit_at_def sset_update)
qed

section \<open>Properties\<close>

text \<open>
  C23: A limited directory never forgets a sharer: after any sequence of operations on a directory
  state whose groups divide the caches evenly, every cache that shares the block is a sharer,
  so the list of the other sharers of a request has everyone to be invalidated; and while the
  state has not gone over to the coarse vector it is exact and uses no more pointers than it has.
\<close>

theorem limited_never_forgets:
  assumes "0 < p" "0 < g" "g dvd w" "list_all (op_ok w) ops"
  shows "\<exists>s s'. ld_new w p g = Inr s \<and> dir_run (dir_step ld_addSharer ld_removeSharer ld_setSharer ld_reset) ops s = Inr s' \<and>
    (\<forall>x. fold true_step ops {} - {x} \<subseteq> set (sd_getOtherSharers x (ld_to_simple s'))) \<and>
    (\<not> coarse_vector s' \<longrightarrow> set (sd_getSharerList (ld_to_simple s')) = fold true_step ops {} \<and> card (fold true_step ops {}) \<le> p)"
proof -
  let ?s = "\<lparr>ld_Sharers = replicate w False, ld_NumSharers = w, theNumPointers = p, theGranularity = g, coarse_vector = False\<rparr>"
  have n: "ld_new w p g = Inr ?s" using assms(1) by (simp add: ld_new_def)
  have i: "limited_inv p w ?s" using assms by (simp add: limited_inv_def)
  obtain s' where s': "dir_run (dir_step ld_addSharer ld_removeSharer ld_setSharer ld_reset) ops ?s = Inr s'" "limited_inv p w s'"
    "fold true_step ops {} \<subseteq> sset (ld_Sharers s')" "\<not> coarse_vector s' \<longrightarrow> sset (ld_Sharers s') = fold true_step ops {}"
    using limited.run_keeps [OF i assms(4), of "{}"] by auto
  show ?thesis using n s' by (auto simp: sd_getOtherSharers_def sd_getSharerList_def ld_to_simple_def set_bits_of limited_inv_def)
qed

theorem limited_never_forgets_witness:
  "\<exists>s s'. ld_new 8 2 4 = Inr s \<and> dir_run (dir_step ld_addSharer ld_removeSharer ld_setSharer ld_reset) [Add 1, Add 2, Add 7, Remove 2] s = Inr s' \<and>
    {1, 7} - {1} \<subseteq> set (sd_getOtherSharers 1 (ld_to_simple s'))"
proof -
  have t: "fold true_step [Add 1, Add 2, Add 7, Remove 2] {} = {1, 7}" by auto
  have h: "0 < (2 :: nat)" "0 < (4 :: nat)" "4 dvd (8 :: nat)" "list_all (op_ok 8) [Add 1, Add 2, Add 7, Remove 2]" by simp_all
  show ?thesis using limited_never_forgets [OF h] unfolding t by blast
qed

text \<open>
  The block of a request is not shared by others exactly when no cache but the requester
  shares any of the blocks of the region.
\<close>

theorem isNonShared_correct:
  assumes "\<forall>x \<in> set state. length x = w" "requester < w"
  shows "isNonShared state requester = Inr (\<forall>x \<in> set state. sset x \<subseteq> {requester})"
proof -
  have or_all: "\<exists>ys. or_all acc xs = Inr ys \<and> length ys = w \<and> sset ys = sset acc \<union> (\<Union>x \<in> set xs. sset x)"
    if "length acc = w" "\<forall>x \<in> set xs. length x = w" for acc xs
    using that
  proof (induction xs arbitrary: acc)
    case Nil
    then show ?case by simp
  next
    case (Cons x xs)
    have "sset (map2 (\<or>) acc x) = sset acc \<union> sset x" using Cons.prems by (auto simp: sset_def)
    then show ?case using Cons.IH [of "map2 (\<or>) acc x"] Cons.prems by (auto simp: zip_bits_def)
  qed
  show ?thesis
  proof (cases state)
    case Nil
    then show ?thesis by (simp add: isNonShared_def)
  next
    case (Cons x xs)
    obtain ys where ys: "or_all x xs = Inr ys" "length ys = w" "sset ys = (\<Union>x \<in> set state. sset x)"
      using or_all [of x xs] assms(1) Cons by auto
    have "ys ! requester \<longleftrightarrow> requester \<in> sset ys" using ys(2) assms(2) by (simp add: sset_def)
    moreover have "requester \<in> sset ys \<and> card (sset ys) = 1 \<longleftrightarrow> sset ys = {requester}" by (auto simp: card_1_singleton_iff)
    ultimately have "isNonShared state requester = Inr (sset ys \<subseteq> {requester})"
      using Cons ys(1,2) assms(2) by (auto simp: isNonShared_def lookup_vec_lt no_bits_iff bit_count_card)
    then show ?thesis using ys(3) by auto
  qed
qed

theorem isNonShared_correct_witness:
  "isNonShared [[False, True, False], [False, False, False]] 1 = Inr (\<forall>x \<in> set [[False, True, False], [False, False, False]]. sset x \<subseteq> {1})"
  using isNonShared_correct [of "[[False, True, False], [False, False, False]]" 3 1] by simp

text \<open>Groups that do not divide the caches evenly write past the end of the vector.\<close>

lemma uneven_groups_fail:
  "rbind (ld_new 6 1 4) (dir_run (dir_step ld_addSharer ld_removeSharer ld_setSharer ld_reset) [Add 0, Add 5]) = Inl OutOfRange"
  by code_simp

end
