(* ===== verification/Miss_File.thy ===== *)
theory Miss_File
  imports Dir_State Memory_Message "HOL-Library.AList" "HOL-Library.Multiset"
begin

text \<open>
  The miss address file of the shared timing cache (\<open>components/CMPCache/MissAddressFile.hpp\<close>):
  the requests that wait for an answer, indexed by address and state, by state and by age, and
  a recorder that counts them by region and requester. The container is a list in the order of
  its first index, address and state; the age of an entry is its serial number, which also
  stands for an iterator to it. The boost container inserts behind the entries with an equal
  key, and a modification leaves an entry where it is when the order allows it.
\<close>

section \<open>Entries\<close>

datatype MAFState = eWaitSet | eWaitRequest | eWaitEvict | eWaitAck | eWaking | eInPipeline | eWaitRevoke | eFinishing

fun maf_code :: "MAFState \<Rightarrow> nat" where
  "maf_code eWaitSet = 0"
| "maf_code eWaitRequest = 1"
| "maf_code eWaitEvict = 2"
| "maf_code eWaitAck = 3"
| "maf_code eWaking = 4"
| "maf_code eInPipeline = 5"
| "maf_code eWaitRevoke = 6"
| "maf_code eFinishing = 7"

instantiation MAFState :: linorder
begin

definition less_eq_MAFState :: "MAFState \<Rightarrow> MAFState \<Rightarrow> bool" where
  "less_eq_MAFState a b \<longleftrightarrow> maf_code a \<le> maf_code b"

definition less_MAFState :: "MAFState \<Rightarrow> MAFState \<Rightarrow> bool" where
  "less_MAFState a b \<longleftrightarrow> maf_code a < maf_code b"

lemma maf_code_inject: "maf_code a = maf_code b \<Longrightarrow> a = b"
  by (cases a; cases b; simp)

instance
  by standard (auto simp: less_eq_MAFState_def less_MAFState_def maf_code_inject)

end

text \<open>Of a transport the file looks at the message and at the requester in its destination slice.\<close>

record MafTransport =
  tr_Message :: "MemoryMessage option"
  tr_Requester :: "int option"

record MAFEntry =
  me_id :: nat
  me_Address :: u64
  me_State :: MAFState
  me_CacheEBReserved :: int
  me_Transport :: MafTransport
  me_BlockState :: SimpleDirectoryState

definition MAFEntry_new :: "nat \<Rightarrow> MafTransport \<Rightarrow> u64 \<Rightarrow> MAFState \<Rightarrow> SimpleDirectoryState \<Rightarrow> MAFEntry" where
  "MAFEntry_new serial aTransport anAddress aState aBState =
     \<lparr>me_id = serial, me_Address = anAddress, me_State = aState, me_CacheEBReserved = 0, me_Transport = aTransport, me_BlockState = aBState\<rparr>"

definition me_key :: "MAFEntry \<Rightarrow> u64 \<times> MAFState" where
  "me_key e = (me_Address e, me_State e)"

definition key_le :: "u64 \<times> MAFState \<Rightarrow> u64 \<times> MAFState \<Rightarrow> bool" where
  "key_le k l \<longleftrightarrow> fst k < fst l \<or> (fst k = fst l \<and> snd k \<le> snd l)"

record MissAddressFile =
  theMAF :: "MAFEntry list"
  maf_next :: nat
  maf_Size :: int
  maf_Reserve :: int
  maf_CurSize :: int
  regionFunc :: "u64 \<Rightarrow> u64"
  theRegionRecorder :: "(u64 \<times> (int \<times> int) list) list"

definition maf_new :: "int \<Rightarrow> MissAddressFile" where
  "maf_new aSize = \<lparr>theMAF = [], maf_next = 0, maf_Size = aSize, maf_Reserve = 0, maf_CurSize = 0,
     regionFunc = (\<lambda>addr. addr), theRegionRecorder = []\<rparr>"

definition registerRegionFunc :: "(u64 \<Rightarrow> u64) \<Rightarrow> MissAddressFile \<Rightarrow> MissAddressFile" where
  "registerRegionFunc func f = f\<lparr>regionFunc := func\<rparr>"

section \<open>The container\<close>

definition insert_after :: "('e \<Rightarrow> 'e \<Rightarrow> bool) \<Rightarrow> 'e \<Rightarrow> 'e list \<Rightarrow> 'e list" where
  "insert_after le e es = takeWhile (\<lambda>x. le x e) es @ e # dropWhile (\<lambda>x. le x e) es"

definition insert_upper :: "MAFEntry \<Rightarrow> MAFEntry list \<Rightarrow> MAFEntry list" where
  "insert_upper e es = insert_after (\<lambda>x y. key_le (me_key x) (me_key y)) e es"

definition modify_entry :: "nat \<Rightarrow> (MAFEntry \<Rightarrow> MAFEntry) \<Rightarrow> MAFEntry list \<Rightarrow> MAFEntry list result" where
  "modify_entry i g es =
     (let xs = takeWhile (\<lambda>e. me_id e \<noteq> i) es in
      case dropWhile (\<lambda>e. me_id e \<noteq> i) es of [] \<Rightarrow> Inl OutOfRange
      | e # ys \<Rightarrow>
          if (xs = [] \<or> key_le (me_key (last xs)) (me_key (g e))) \<and> (ys = [] \<or> key_le (me_key (g e)) (me_key (hd ys)))
          then Inr (xs @ g e # ys) else Inr (insert_upper (g e) (xs @ ys)))"

definition maf_ordered :: "MissAddressFile \<Rightarrow> MAFEntry list" where
  "maf_ordered f = sort_key me_id (theMAF f)"

fun deref :: "nat option \<Rightarrow> MAFEntry list \<Rightarrow> MAFEntry result" where
  "deref it [] = Inl OutOfRange"
| "deref it (e # es) = (if it = Some (me_id e) then Inr e else deref it es)"

section \<open>Operations\<close>

definition maf_find :: "u64 \<Rightarrow> MissAddressFile \<Rightarrow> nat option" where
  "maf_find address f = map_option me_id (find (\<lambda>e. me_Address e = address) (theMAF f))"

definition findFirst :: "u64 \<Rightarrow> MAFState \<Rightarrow> MissAddressFile \<Rightarrow> nat option" where
  "findFirst address state f = map_option me_id (find (\<lambda>e. me_Address e = address \<and> me_State e = state) (theMAF f))"

definition findAll :: "u64 \<Rightarrow> MAFState \<Rightarrow> MissAddressFile \<Rightarrow> MAFEntry list" where
  "findAll address state f = filter (\<lambda>e. me_Address e = address \<and> me_State e = state) (theMAF f)"

definition maf_reserve :: "MissAddressFile \<Rightarrow> MissAddressFile result" where
  "maf_reserve f = dbg_assert (maf_CurSize f + maf_Reserve f < maf_Size f) (Inr (f\<lparr>maf_Reserve := maf_Reserve f + 1\<rparr>))"

definition maf_unreserve :: "MissAddressFile \<Rightarrow> MissAddressFile result" where
  "maf_unreserve f = dbg_assert (maf_Reserve f > 0) (Inr (f\<lparr>maf_Reserve := maf_Reserve f - 1\<rparr>))"

definition maf_full :: "MissAddressFile \<Rightarrow> bool" where
  "maf_full f \<longleftrightarrow> maf_CurSize f + maf_Reserve f \<ge> maf_Size f"

definition maf_empty :: "MissAddressFile \<Rightarrow> bool" where
  "maf_empty f \<longleftrightarrow> maf_CurSize f + maf_Reserve f = 0"

text \<open>The recorder: \<open>theRegionRecorder[region][requester]++\<close> creates what is missing.\<close>

definition region_count :: "(u64 \<times> (int \<times> int) list) list \<Rightarrow> u64 \<Rightarrow> int \<Rightarrow> int" where
  "region_count rec region requester = (case map_of rec region of None \<Rightarrow> 0
     | Some m \<Rightarrow> (case map_of m requester of None \<Rightarrow> 0 | Some n \<Rightarrow> n))"

definition record_request :: "u64 \<Rightarrow> int \<Rightarrow> (u64 \<times> (int \<times> int) list) list \<Rightarrow> (u64 \<times> (int \<times> int) list) list" where
  "record_request region requester rec =
     (let m = (case map_of rec region of None \<Rightarrow> [] | Some m \<Rightarrow> m) in
      let n = (case map_of m requester of None \<Rightarrow> 0 | Some n \<Rightarrow> n) in
      AList.update region (AList.update requester (n + 1) m) rec)"

definition unrecord_request :: "u64 \<Rightarrow> int \<Rightarrow> (u64 \<times> (int \<times> int) list) list \<Rightarrow> (u64 \<times> (int \<times> int) list) list result" where
  "unrecord_request region requester rec =
     (case map_of rec region of None \<Rightarrow> Inl AssertFailed
      | Some m \<Rightarrow> (case map_of m requester of None \<Rightarrow> Inl AssertFailed
        | Some n \<Rightarrow>
            if n - 1 = 0 then
              let m' = AList.delete requester m in
              Inr (if m' = [] then AList.delete region rec else AList.update region m' rec)
            else Inr (AList.update region (AList.update requester (n - 1) m) rec)))"

text \<open>The request has to have a destination slice.\<close>

definition maf_insert :: "MafTransport \<Rightarrow> u64 \<Rightarrow> MAFState \<Rightarrow> SimpleDirectoryState \<Rightarrow> MissAddressFile \<Rightarrow> (nat \<times> MissAddressFile) result" where
  "maf_insert transport address state bstate f =
     (case tr_Requester transport of None \<Rightarrow> Inl BadGet
      | Some requester \<Rightarrow> Inr (maf_next f,
          f\<lparr>theMAF := insert_upper (MAFEntry_new (maf_next f) transport address state bstate) (theMAF f),
            maf_next := maf_next f + 1, maf_CurSize := maf_CurSize f + 1,
            theRegionRecorder := record_request (regionFunc f address) requester (theRegionRecorder f)\<rparr>))"

definition maf_modify :: "nat \<Rightarrow> (MAFEntry \<Rightarrow> MAFEntry) \<Rightarrow> MissAddressFile \<Rightarrow> MissAddressFile result" where
  "maf_modify i g f = rbind (modify_entry i g (theMAF f)) (\<lambda>es. Inr (f\<lparr>theMAF := es\<rparr>))"

definition maf_setState :: "nat \<Rightarrow> MAFState \<Rightarrow> MissAddressFile \<Rightarrow> MissAddressFile result" where
  "maf_setState entry state f = maf_modify entry (me_State_update (\<lambda>_. state)) f"

definition setCacheEBReserved :: "nat \<Rightarrow> int \<Rightarrow> MissAddressFile \<Rightarrow> MissAddressFile result" where
  "setCacheEBReserved entry reserved f = maf_modify entry (me_CacheEBReserved_update (\<lambda>_. reserved)) f"

definition maf_remove :: "nat \<Rightarrow> MissAddressFile \<Rightarrow> MissAddressFile result" where
  "maf_remove entry f = rbind (deref (Some entry) (theMAF f)) (\<lambda>e.
     dbg_assert (tr_Message (me_Transport e) \<noteq> None)
     (case tr_Requester (me_Transport e) of None \<Rightarrow> Inl AssertFailed
      | Some requester \<Rightarrow> rbind (unrecord_request (regionFunc f (me_Address e)) requester (theRegionRecorder f)) (\<lambda>rec.
          Inr (f\<lparr>theRegionRecorder := rec, theMAF := filter (\<lambda>x. me_id x \<noteq> entry) (theMAF f), maf_CurSize := maf_CurSize f - 1\<rparr>))))"

text \<open>The search for the entry of a requester reads the destination slice of every entry it passes.\<close>

fun first_of_requester :: "int \<Rightarrow> MAFEntry list \<Rightarrow> MAFEntry result" where
  "first_of_requester requester [] = Inl AssertFailed"
| "first_of_requester requester (e # es) = (case tr_Requester (me_Transport e) of None \<Rightarrow> Inl BadGet
     | Some r \<Rightarrow> if r = requester then Inr e else first_of_requester requester es)"

definition removeFirst :: "u64 \<Rightarrow> int \<Rightarrow> MissAddressFile \<Rightarrow> MissAddressFile result" where
  "removeFirst addr requester f = rbind (first_of_requester requester (findAll addr eWaitAck f)) (\<lambda>e. maf_remove (me_id e) f)"

definition maf_wake :: "nat \<Rightarrow> MissAddressFile \<Rightarrow> MissAddressFile result" where
  "maf_wake entry f = maf_modify entry (me_State_update (\<lambda>_. eWaking)) f"

text \<open>
  The loop of \<open>wakeAfterEvict\<close> takes the successor of an entry before it modifies the entry, and
  entries that start waking move behind the entry that was woken first, which is not in front
  of the end of the range: it passes the range as it was before the loop.
\<close>

fun wake_all :: "nat list \<Rightarrow> MissAddressFile \<Rightarrow> MissAddressFile result" where
  "wake_all [] f = Inr f"
| "wake_all (i # is) f = rbind (maf_wake i f) (wake_all is)"

definition wakeAfterEvict :: "nat \<Rightarrow> MissAddressFile \<Rightarrow> MissAddressFile result" where
  "wakeAfterEvict entry f = rbind (maf_wake entry f) (\<lambda>f.
     rbind (deref (Some entry) (theMAF f)) (\<lambda>e. wake_all (map me_id (findAll (me_Address e) eWaitRequest f)) f))"

definition hasWakingEntry :: "MissAddressFile \<Rightarrow> bool" where
  "hasWakingEntry f = list_ex (\<lambda>e. me_State e = eWaking) (theMAF f)"

definition peekWakingMAF :: "MissAddressFile \<Rightarrow> nat result" where
  "peekWakingMAF f = (case find (\<lambda>e. me_State e = eWaking) (maf_ordered f) of None \<Rightarrow> Inl AssertFailed | Some e \<Rightarrow> Inr (me_id e))"

definition getWakingMAF :: "MissAddressFile \<Rightarrow> (nat \<times> MissAddressFile) result" where
  "getWakingMAF f = (case find (\<lambda>e. me_State e = eWaking) (maf_ordered f) of None \<Rightarrow> Inl AssertFailed
     | Some e \<Rightarrow> rbind (maf_setState (me_id e) eInPipeline f) (\<lambda>f. Inr (me_id e, f)))"

text \<open>The region is computed, but the recorder is asked for the address.\<close>

definition otherRegionRequesters :: "u64 \<Rightarrow> int \<Rightarrow> MissAddressFile \<Rightarrow> bool" where
  "otherRegionRequesters addr requester f = (case map_of (theRegionRecorder f) addr of None \<Rightarrow> False
     | Some m \<Rightarrow> if length m < 1 then False else if length m = 1 \<and> fst (hd m) = requester then False else True)"

section \<open>The container keeps its order\<close>

lemma key_le_refl [simp]: "key_le k k"
  by (simp add: key_le_def)

lemma key_le_trans: "key_le a b \<Longrightarrow> key_le b c \<Longrightarrow> key_le a c"
  by (auto simp: key_le_def)

lemma key_le_total: "\<not> key_le a b \<Longrightarrow> key_le b a"
  by (auto simp: key_le_def)

text \<open>What an ordered index of the container relies on, and what insertion keeps.\<close>

locale ordered_index =
  fixes le :: "'e \<Rightarrow> 'e \<Rightarrow> bool"
  assumes trans: "le x y \<Longrightarrow> le y z \<Longrightarrow> le x z" and total: "\<not> le x y \<Longrightarrow> le y x"
begin

lemma mset_insert: "mset (insert_after le e es) = add_mset e (mset es)"
proof -
  have "mset (takeWhile P es) + mset (dropWhile P es) = mset es" for P :: "'e \<Rightarrow> bool"
    by (metis mset_append takeWhile_dropWhile_id)
  then show ?thesis by (simp add: insert_after_def)
qed

lemma insert_sorted: "sorted_wrt le es \<Longrightarrow> sorted_wrt le (insert_after le e es)"
proof (induction es)
  case Nil
  then show ?case by (simp add: insert_after_def)
next
  case (Cons x es)
  show ?case
  proof (cases "le x e")
    case True
    have i: "insert_after le e (x # es) = x # insert_after le e es" using True by (simp add: insert_after_def)
    have "set (insert_after le e es) = insert e (set es)" by (metis mset_insert set_mset_mset set_mset_add_mset_insert)
    then show ?thesis using Cons True unfolding i by simp
  next
    case False
    have i: "insert_after le e (x # es) = e # x # es" using False by (simp add: insert_after_def)
    show ?thesis using Cons.prems total [OF False] unfolding i by (auto intro: trans)
  qed
qed

lemma insert_last:
  assumes "sorted_wrt le es" "\<And>x. P e \<Longrightarrow> P x \<Longrightarrow> le x e"
  shows "filter P (insert_after le e es) = filter P es @ (if P e then [e] else [])"
  using assms(1)
proof (induction es)
  case Nil
  then show ?case by (simp add: insert_after_def)
next
  case (Cons x es)
  show ?case
  proof (cases "le x e")
    case True
    then have "insert_after le e (x # es) = x # insert_after le e es" by (simp add: insert_after_def)
    then show ?thesis using Cons by simp
  next
    case False
    then have i: "insert_after le e (x # es) = e # x # es" by (simp add: insert_after_def)
    have "\<not> P y" if "P e" "y \<in> set (x # es)" for y
      using assms(2) [OF that(1), of y] that(2) Cons.prems False trans [of x y e] by auto
    then show ?thesis unfolding i by (auto simp: filter_empty_conv)
  qed
qed

end

interpretation by_address: ordered_index "\<lambda>x y. key_le (me_key x) (me_key y)"
  by unfold_locales (auto intro: key_le_trans key_le_total)

definition by_key :: "MAFEntry list \<Rightarrow> bool" where
  "by_key = sorted_wrt (\<lambda>x y. key_le (me_key x) (me_key y))"

lemma mset_insert_upper: "mset (insert_upper e es) = add_mset e (mset es)"
  unfolding insert_upper_def by (rule by_address.mset_insert)

lemma insert_upper_sorted: "by_key es \<Longrightarrow> by_key (insert_upper e es)"
  unfolding insert_upper_def by_key_def by (rule by_address.insert_sorted)

lemma by_key_in_place:
  assumes "by_key (xs @ ys)" "xs = [] \<or> key_le (me_key (last xs)) (me_key e)" "ys = [] \<or> key_le (me_key e) (me_key (hd ys))"
  shows "by_key (xs @ e # ys)"
proof -
  have "key_le (me_key x) (me_key e)" if "x \<in> set xs" for x
  proof -
    obtain bs b where x: "xs = bs @ [b]" using \<open>x \<in> set xs\<close> by (cases xs rule: rev_cases) auto
    have "x = b \<or> key_le (me_key x) (me_key b)" using that assms(1) x by (auto simp: by_key_def sorted_wrt_append)
    then show ?thesis using assms(2) x by (auto intro: key_le_trans)
  qed
  moreover have "key_le (me_key e) (me_key y)" if "y \<in> set ys" for y
    using that assms(1,3) by (cases ys) (auto simp: by_key_def sorted_wrt_append intro: key_le_trans)
  ultimately show ?thesis using assms(1) by (auto simp: by_key_def sorted_wrt_append)
qed

definition upd :: "nat \<Rightarrow> (MAFEntry \<Rightarrow> MAFEntry) \<Rightarrow> MAFEntry \<Rightarrow> MAFEntry" where
  "upd i g e = (if me_id e = i then g e else e)"

lemma modify_entry_ok:
  assumes "distinct (map me_id es)" "i \<in> me_id ` set es" "by_key es"
  shows "\<exists>es'. modify_entry i g es = Inr es' \<and> mset es' = mset (map (upd i g) es) \<and> by_key es'"
proof -
  let ?xs = "takeWhile (\<lambda>e. me_id e \<noteq> i) es" and ?rest = "dropWhile (\<lambda>e. me_id e \<noteq> i) es"
  have split: "es = ?xs @ ?rest" by simp
  obtain e ys where r: "?rest = e # ys" using assms(2) by (cases ?rest) (auto simp: dropWhile_eq_Nil_conv)
  have i: "me_id e = i" using hd_dropWhile [of "\<lambda>e. me_id e \<noteq> i" es] r by auto
  have es: "es = ?xs @ e # ys" using split r by metis
  have xs: "\<forall>x \<in> set ?xs. me_id x \<noteq> i" by (auto dest: set_takeWhileD)
  have ys: "\<forall>y \<in> set ys. me_id y \<noteq> i" using assms(1) es i by (metis distinct.simps(2) distinct_append imageI list.set_map list.simps(9) map_append)
  have m: "mset (map (upd i g) es) = mset (?xs @ g e # ys)"
  proof -
    have "map (upd i g) (?xs @ e # ys) = ?xs @ g e # ys" using xs ys i by (auto simp: upd_def intro: map_idI)
    then show ?thesis using es by metis
  qed
  have k: "by_key (?xs @ ys)" using assms(3) es by (metis by_key_def sorted_wrt_append sorted_wrt.simps(2) list.set_intros(2))
  show ?thesis
  proof (cases "(?xs = [] \<or> key_le (me_key (last ?xs)) (me_key (g e))) \<and> (ys = [] \<or> key_le (me_key (g e)) (me_key (hd ys)))")
    case True
    then have "modify_entry i g es = Inr (?xs @ g e # ys)" using r by (simp only: modify_entry_def Let_def list.case if_True if_False simp_thms)
    then show ?thesis using m by_key_in_place [OF k conjunct1 [OF True] conjunct2 [OF True]] by simp
  next
    case False
    then have "modify_entry i g es = Inr (insert_upper (g e) (?xs @ ys))" using r by (simp only: modify_entry_def Let_def list.case if_True if_False simp_thms)
    then show ?thesis using m insert_upper_sorted [OF k] by (simp add: mset_insert_upper)
  qed
qed

lemma modify_entry_absent: "i \<notin> me_id ` set es \<Longrightarrow> modify_entry i g es = Inl OutOfRange"
proof -
  assume "i \<notin> me_id ` set es"
  then have "dropWhile (\<lambda>e. me_id e \<noteq> i) es = []" by (auto simp: dropWhile_eq_Nil_conv)
  then show ?thesis unfolding modify_entry_def Let_def by (simp only: list.case)
qed

section \<open>The recorder\<close>

definition rec_ok :: "(u64 \<times> (int \<times> int) list) list \<Rightarrow> bool" where
  "rec_ok rec \<longleftrightarrow> distinct (map fst rec) \<and>
     (\<forall>region m. map_of rec region = Some m \<longrightarrow> m \<noteq> [] \<and> distinct (map fst m) \<and> (\<forall>r n. map_of m r = Some n \<longrightarrow> n > 0))"

lemma rec_okD:
  assumes "rec_ok rec" "map_of rec region = Some m"
  shows "m \<noteq> []" "distinct (map fst m)" "map_of m r = Some n \<Longrightarrow> n > 0"
  using assms by (auto simp: rec_ok_def)

lemma update_not_Nil [simp]: "AList.update k v al \<noteq> []"
  by (cases al) (auto split: if_splits)

lemma rec_ok_update:
  assumes "rec_ok rec" "m \<noteq> []" "distinct (map fst m)" "\<And>r n. map_of m r = Some n \<Longrightarrow> n > 0"
  shows "rec_ok (AList.update region m rec)"
  using assms by (auto simp: rec_ok_def update_conv' distinct_update)

lemma record_request_ok:
  assumes "rec_ok rec"
  shows "rec_ok (record_request region requester rec)"
    "region_count (record_request region requester rec) x y = region_count rec x y + (if x = region \<and> y = requester then 1 else 0)"
proof -
  define m where "m = (case map_of rec region of None \<Rightarrow> [] | Some m \<Rightarrow> m)"
  define n where "n = (case map_of m requester of None \<Rightarrow> 0 | Some n \<Rightarrow> n)"
  have m: "distinct (map fst m)" "\<And>r n. map_of m r = Some n \<Longrightarrow> n > 0"
    using rec_okD [OF assms, of region] by (cases "map_of rec region"; force simp: m_def)+
  have n: "n \<ge> 0" using m(2) by (force simp: n_def split: option.splits)
  have r: "record_request region requester rec = AList.update region (AList.update requester (n + 1) m) rec"
    by (simp add: record_request_def m_def n_def Let_def)
  show "rec_ok (record_request region requester rec)" unfolding r
    by (rule rec_ok_update [OF assms]) (use m n in \<open>auto simp: update_conv' distinct_update split: if_splits\<close>)
  show "region_count (record_request region requester rec) x y = region_count rec x y + (if x = region \<and> y = requester then 1 else 0)"
    unfolding r by (auto simp: region_count_def update_conv' m_def n_def split: option.splits)
qed

lemma unrecord_request_ok:
  assumes "rec_ok rec" "region_count rec region requester > 0"
  shows "\<exists>rec'. unrecord_request region requester rec = Inr rec' \<and> rec_ok rec' \<and>
    (\<forall>x y. region_count rec' x y = region_count rec x y - (if x = region \<and> y = requester then 1 else 0))"
proof -
  obtain m n where m: "map_of rec region = Some m" and n: "map_of m requester = Some n"
    using assms(2) by (auto simp: region_count_def split: option.splits)
  note ok = rec_okD [OF assms(1) m]
  have c: "region_count rec region y = (case map_of m y of None \<Rightarrow> 0 | Some n \<Rightarrow> n)" for y by (simp add: region_count_def m)
  show ?thesis
  proof (cases "n = 1")
    case one: True
    let ?m = "AList.delete requester m"
    show ?thesis
    proof (cases "?m = []")
      case True
      have "map_of m y = None" if "y \<noteq> requester" for y using True that by (metis delete_conv' fun_upd_other map_of.simps(1))
      then have "region_count (AList.delete region rec) x y = region_count rec x y - (if x = region \<and> y = requester then 1 else 0)" for x y
        using m n one by (auto simp: region_count_def delete_conv')
      moreover have "rec_ok (AList.delete region rec)" using assms(1) by (auto simp: rec_ok_def delete_conv' distinct_delete split: if_splits)
      ultimately show ?thesis using m n one True by (simp add: unrecord_request_def)
    next
      case False
      have "rec_ok (AList.update region ?m rec)" using ok False
        by (intro rec_ok_update [OF assms(1)]) (auto simp: delete_conv' distinct_delete split: if_splits)
      moreover have "region_count (AList.update region ?m rec) x y = region_count rec x y - (if x = region \<and> y = requester then 1 else 0)" for x y
        using m n one by (auto simp: region_count_def update_conv' delete_conv')
      ultimately show ?thesis using m n one False by (simp add: unrecord_request_def Let_def)
    qed
  next
    case False
    have "n > 1" using ok(3) [OF n] False by simp
    then have "rec_ok (AList.update region (AList.update requester (n - 1) m) rec)" using ok
      by (intro rec_ok_update [OF assms(1)]) (auto simp: update_conv' distinct_update split: if_splits)
    moreover have "region_count (AList.update region (AList.update requester (n - 1) m) rec) x y = region_count rec x y - (if x = region \<and> y = requester then 1 else 0)" for x y
      using m n by (auto simp: region_count_def update_conv')
    ultimately show ?thesis using m n False by (simp add: unrecord_request_def)
  qed
qed

section \<open>The invariant\<close>

definition req_count :: "(u64 \<Rightarrow> u64) \<Rightarrow> MAFEntry list \<Rightarrow> u64 \<Rightarrow> int \<Rightarrow> nat" where
  "req_count rf es region r = length (filter (\<lambda>e. rf (me_Address e) = region \<and> tr_Requester (me_Transport e) = Some r) es)"

definition maf_inv :: "MissAddressFile \<Rightarrow> bool" where
  "maf_inv f \<longleftrightarrow> distinct (map me_id (theMAF f)) \<and>
     (\<forall>e \<in> set (theMAF f). me_id e < maf_next f \<and> tr_Requester (me_Transport e) \<noteq> None) \<and>
     by_key (theMAF f) \<and> maf_CurSize f = int (length (theMAF f)) \<and> rec_ok (theRegionRecorder f) \<and>
     (\<forall>x y. region_count (theRegionRecorder f) x y = int (req_count (regionFunc f) (theMAF f) x y))"

lemma maf_invD:
  assumes "maf_inv f"
  shows "distinct (map me_id (theMAF f))" "e \<in> set (theMAF f) \<Longrightarrow> me_id e < maf_next f"
    "e \<in> set (theMAF f) \<Longrightarrow> tr_Requester (me_Transport e) \<noteq> None" "by_key (theMAF f)"
    "maf_CurSize f = int (length (theMAF f))" "rec_ok (theRegionRecorder f)"
    "region_count (theRegionRecorder f) x y = int (req_count (regionFunc f) (theMAF f) x y)"
  using assms by (auto simp: maf_inv_def)

lemma maf_inv_new: "maf_inv (maf_new n)"
  by (simp add: maf_inv_def maf_new_def by_key_def rec_ok_def region_count_def req_count_def)

lemma ordered_unique:
  assumes "distinct (map me_id es)" "mset zs = mset es" "sorted (map me_id zs)"
  shows "sort_key me_id es = zs"
proof -
  have d: "distinct (map me_id zs)" using assms(1,2) by (metis mset_eq_imp_distinct_iff mset_map)
  have "distinct (map me_id (sort_key me_id es))" using assms(1) by (metis mset_eq_imp_distinct_iff mset_map mset_sort)
  moreover have "set (sort_key me_id es) = set zs" using assms(2) by (metis mset_eq_setD set_sort)
  moreover have "inj_on me_id (set (sort_key me_id es) \<union> set zs)" using d calculation(2) by (simp add: distinct_map)
  ultimately show ?thesis using assms(3) d by (intro map_sorted_distinct_set_unique [of me_id]) simp_all
qed

lemma set_ordered [simp]: "set (maf_ordered f) = set (theMAF f)"
  by (simp add: maf_ordered_def)

lemma req_count_mset: "req_count rf es x y = size (filter_mset (\<lambda>e. rf (me_Address e) = x \<and> tr_Requester (me_Transport e) = Some y) (mset es))"
  by (simp add: req_count_def flip: mset_filter)

text \<open>A modification that leaves the address and the request alone.\<close>

definition keeps_request :: "(MAFEntry \<Rightarrow> MAFEntry) \<Rightarrow> bool" where
  "keeps_request g \<longleftrightarrow> (\<forall>e. me_id (g e) = me_id e \<and> me_Address (g e) = me_Address e \<and> me_Transport (g e) = me_Transport e)"

lemma keeps_request_update [simp]: "keeps_request (me_State_update h)" "keeps_request (me_CacheEBReserved_update k)"
  by (simp_all add: keeps_request_def)

lemma upd_keeps:
  assumes "keeps_request g"
  shows "me_id (upd i g e) = me_id e" "me_Address (upd i g e) = me_Address e" "me_Transport (upd i g e) = me_Transport e"
  using assms by (simp_all add: upd_def keeps_request_def)

lemma maf_modify_ok:
  assumes "maf_inv f" "i \<in> me_id ` set (theMAF f)" "keeps_request g"
  shows "\<exists>es. maf_modify i g f = Inr (f\<lparr>theMAF := es\<rparr>) \<and> maf_inv (f\<lparr>theMAF := es\<rparr>) \<and>
    maf_ordered (f\<lparr>theMAF := es\<rparr>) = map (upd i g) (maf_ordered f)"
proof -
  note inv = maf_invD [OF assms(1)] and q = upd_keeps [OF assms(3)]
  obtain es where es: "modify_entry i g (theMAF f) = Inr es" "mset es = mset (map (upd i g) (theMAF f))" "by_key es"
    using modify_entry_ok [OF inv(1) assms(2) inv(4)] by blast
  have ids: "map me_id (map (upd i g) xs) = map me_id xs" for xs using q by simp
  have d: "distinct (map me_id es)" using inv(1) ids es(2) by (metis mset_eq_imp_distinct_iff mset_map)
  have "set es = upd i g ` set (theMAF f)" using es(2) by (metis list.set_map mset_eq_setD)
  then have el: "\<forall>e \<in> set es. me_id e < maf_next f \<and> tr_Requester (me_Transport e) \<noteq> None" using inv(2,3) q by auto
  have l: "length es = length (theMAF f)" using es(2) by (metis length_map mset_eq_length)
  have c: "req_count rf es x y = req_count rf (theMAF f) x y" for rf x y
    unfolding req_count_mset es(2) by (simp add: filter_mset_image_mset q)
  have "maf_inv (f\<lparr>theMAF := es\<rparr>)" using inv d el l c es(3) by (simp add: maf_inv_def)
  moreover have "maf_ordered (f\<lparr>theMAF := es\<rparr>) = map (upd i g) (maf_ordered f)"
  proof -
    have "sort_key me_id es = map (upd i g) (sort_key me_id (theMAF f))"
      by (intro ordered_unique [OF d]) (simp_all only: ids es(2) mset_map mset_sort sorted_sort_key)
    then show ?thesis by (simp add: maf_ordered_def)
  qed
  ultimately show ?thesis using es(1) by (auto simp: maf_modify_def)
qed

lemma maf_modify_absent: "i \<notin> me_id ` set (theMAF f) \<Longrightarrow> maf_modify i g f = Inl OutOfRange"
  by (simp add: maf_modify_def modify_entry_absent)

lemma maf_insert_ok:
  assumes "maf_inv f" "tr_Requester transport = Some r"
  shows "\<exists>f'. maf_insert transport address state bstate f = Inr (maf_next f, f') \<and> maf_inv f' \<and>
    maf_ordered f' = maf_ordered f @ [MAFEntry_new (maf_next f) transport address state bstate]"
proof -
  note inv = maf_invD [OF assms(1)]
  let ?e = "MAFEntry_new (maf_next f) transport address state bstate"
  let ?es = "insert_upper ?e (theMAF f)"
  let ?f = "f\<lparr>theMAF := ?es, maf_next := maf_next f + 1, maf_CurSize := maf_CurSize f + 1,
      theRegionRecorder := record_request (regionFunc f address) r (theRegionRecorder f)\<rparr>"
  have i: "maf_insert transport address state bstate f = Inr (maf_next f, ?f)" using assms(2) by (simp add: maf_insert_def)
  have m: "mset ?es = mset (theMAF f @ [?e])" by (simp add: mset_insert_upper)
  have new: "me_id ?e = maf_next f" "me_Address ?e = address" "me_Transport ?e = transport" by (simp_all add: MAFEntry_new_def)
  have "distinct (map me_id (theMAF f @ [?e]))" using inv(1,2) new by force
  then have d: "distinct (map me_id ?es)" using m by (metis mset_eq_imp_distinct_iff mset_map)
  have st: "set ?es = insert ?e (set (theMAF f))" using mset_eq_setD [OF m] by simp
  have el: "\<forall>e \<in> set ?es. me_id e < maf_next f + 1 \<and> tr_Requester (me_Transport e) \<noteq> None"
    using inv(2,3) new assms(2) unfolding st by (auto simp: less_SucI)
  have l: "length ?es = length (theMAF f) + 1" using mset_eq_length [OF m] by simp
  have c: "req_count rf ?es x y = req_count rf (theMAF f) x y + (if x = rf address \<and> y = r then 1 else 0)" for rf x y
    unfolding req_count_mset m using new assms(2) by auto
  have "maf_inv ?f" using inv(5,7) d el l c insert_upper_sorted [OF inv(4), of ?e] record_request_ok [OF inv(6)]
    by (simp add: maf_inv_def)
  moreover have "maf_ordered ?f = maf_ordered f @ [?e]"
    using m inv(2) new by (simp add: maf_ordered_def) (intro ordered_unique [OF d], auto simp: sorted_append less_imp_le)
  ultimately show ?thesis using i by blast
qed

lemma mset_remove_id:
  assumes "distinct (map me_id es)" "e \<in> set es"
  shows "mset es = add_mset e (mset (filter (\<lambda>x. me_id x \<noteq> me_id e) es))"
  using assms
proof (induction es)
  case Nil
  then show ?case by simp
next
  case (Cons x es)
  show ?case
  proof (cases "x = e")
    case True
    then have "filter (\<lambda>x. me_id x \<noteq> me_id e) es = es" using Cons.prems(1) by (auto intro!: filter_True simp: image_iff)
    then show ?thesis using True by simp
  next
    case False
    then have "e \<in> set es" using Cons.prems(2) by simp
    moreover from this have "me_id x \<noteq> me_id e" using Cons.prems(1) by auto
    ultimately show ?thesis using Cons by simp
  qed
qed

lemma deref_iff:
  assumes "distinct (map me_id es)"
  shows "deref (Some i) es = Inr e \<longleftrightarrow> e \<in> set es \<and> me_id e = i"
  using assms by (induction es) (auto simp: image_iff)

lemma deref_absent: "i \<notin> me_id ` set es \<Longrightarrow> deref (Some i) es = Inl OutOfRange"
  by (induction es) auto

lemma maf_remove_ok:
  assumes "maf_inv f" "e \<in> set (theMAF f)" "tr_Message (me_Transport e) \<noteq> None"
  shows "\<exists>f'. maf_remove (me_id e) f = Inr f' \<and> maf_inv f' \<and> maf_ordered f' = filter (\<lambda>x. me_id x \<noteq> me_id e) (maf_ordered f)"
proof -
  note inv = maf_invD [OF assms(1)]
  obtain r where r: "tr_Requester (me_Transport e) = Some r" using inv(3) [OF assms(2)] by auto
  let ?es = "filter (\<lambda>x. me_id x \<noteq> me_id e) (theMAF f)" and ?x = "regionFunc f (me_Address e)"
  have m: "mset (theMAF f) = add_mset e (mset ?es)" by (rule mset_remove_id [OF inv(1) assms(2)])
  have c: "req_count rf (theMAF f) x y = req_count rf ?es x y + (if x = rf (me_Address e) \<and> y = r then 1 else 0)" for rf x y
    unfolding req_count_mset m using r by auto
  have "region_count (theRegionRecorder f) ?x r > 0" using inv(7) c by simp
  from unrecord_request_ok [OF inv(6) this] obtain rec where rec: "unrecord_request ?x r (theRegionRecorder f) = Inr rec" "rec_ok rec"
    "\<And>x y. region_count rec x y = region_count (theRegionRecorder f) x y - (if x = ?x \<and> y = r then 1 else 0)" by blast
  let ?f = "f\<lparr>theRegionRecorder := rec, theMAF := ?es, maf_CurSize := maf_CurSize f - 1\<rparr>"
  have "deref (Some (me_id e)) (theMAF f) = Inr e" using deref_iff [OF inv(1)] assms(2) by blast
  then have s: "maf_remove (me_id e) f = Inr ?f" using assms(3) r rec(1) by (simp add: maf_remove_def)
  have d: "distinct (map me_id ?es)" using inv(1) by (simp add: distinct_map_filter)
  have l: "length (theMAF f) = length ?es + 1" using arg_cong [OF m, of size] by (simp flip: mset_filter)
  have k: "by_key ?es" using inv(4) by (simp add: by_key_def sorted_wrt_filter)
  have "maf_inv ?f" using inv(2,3,5,7) d l k c rec(2,3) by (simp add: maf_inv_def)
  moreover have "maf_ordered ?f = filter (\<lambda>x. me_id x \<noteq> me_id e) (maf_ordered f)"
    by (simp add: maf_ordered_def) (intro ordered_unique [OF d], simp_all add: sorted_filter)
  ultimately show ?thesis using s by blast
qed

lemma wake_all_ok:
  assumes "maf_inv f" "set is \<subseteq> me_id ` set (theMAF f)"
  shows "\<exists>es. wake_all is f = Inr (f\<lparr>theMAF := es\<rparr>) \<and> maf_inv (f\<lparr>theMAF := es\<rparr>) \<and>
    maf_ordered (f\<lparr>theMAF := es\<rparr>) = map (\<lambda>e. if me_id e \<in> set is then e\<lparr>me_State := eWaking\<rparr> else e) (maf_ordered f)"
  using assms
proof (induction "is" arbitrary: f)
  case Nil
  have "f\<lparr>theMAF := theMAF f\<rparr> = f" by simp
  then show ?case using Nil.prems(1) by (intro exI [of _ "theMAF f"]) simp
next
  case (Cons i "is")
  let ?g = "me_State_update (\<lambda>_. eWaking)"
  obtain es where es: "maf_modify i ?g f = Inr (f\<lparr>theMAF := es\<rparr>)" "maf_inv (f\<lparr>theMAF := es\<rparr>)"
    "maf_ordered (f\<lparr>theMAF := es\<rparr>) = map (upd i ?g) (maf_ordered f)"
    using maf_modify_ok [OF Cons.prems(1), of i ?g] Cons.prems(2) by auto
  have "set (theMAF (f\<lparr>theMAF := es\<rparr>)) = upd i ?g ` set (theMAF f)" using arg_cong [OF es(3), of set] by simp
  then have "me_id ` set (theMAF (f\<lparr>theMAF := es\<rparr>)) = me_id ` set (theMAF f)" by (simp add: image_image upd_keeps)
  then have "set is \<subseteq> me_id ` set (theMAF (f\<lparr>theMAF := es\<rparr>))" using Cons.prems(2) by simp
  from Cons.IH [OF es(2) this] obtain es' where es': "wake_all is (f\<lparr>theMAF := es\<rparr>) = Inr (f\<lparr>theMAF := es'\<rparr>)" "maf_inv (f\<lparr>theMAF := es'\<rparr>)"
    "maf_ordered (f\<lparr>theMAF := es'\<rparr>) = map (\<lambda>e. if me_id e \<in> set is then e\<lparr>me_State := eWaking\<rparr> else e) (map (upd i ?g) (maf_ordered f))"
    unfolding es(3) by auto
  have "maf_ordered (f\<lparr>theMAF := es'\<rparr>) = map (\<lambda>e. if me_id e \<in> set (i # is) then e\<lparr>me_State := eWaking\<rparr> else e) (maf_ordered f)"
    unfolding es'(3) by (auto simp: upd_def)
  then show ?case using es(1) es'(1,2) by (auto simp: maf_wake_def)
qed

section \<open>A list in the order of age\<close>

text \<open>
  What the file promises, over the list of its entries from the oldest to the youngest: the
  entry an operation answers with and the list afterwards, or nothing if the operation is not
  allowed.
\<close>

datatype maf_op = MInsert MafTransport u64 MAFState SimpleDirectoryState | MSetState nat MAFState | MSetEB nat int | MRemove nat
  | MWake nat | MWakeAfterEvict nat | MGetWaking

definition age_modify :: "nat \<Rightarrow> (MAFEntry \<Rightarrow> MAFEntry) \<Rightarrow> MAFEntry list \<Rightarrow> (nat option \<times> MAFEntry list) option" where
  "age_modify i g l = (if i \<in> set (map me_id l) then Some (None, map (upd i g) l) else None)"

fun age_step :: "maf_op \<Rightarrow> nat \<Rightarrow> MAFEntry list \<Rightarrow> (nat option \<times> MAFEntry list) option" where
  "age_step (MInsert transport address state bstate) n l =
     (if tr_Requester transport = None then None else Some (Some n, l @ [MAFEntry_new n transport address state bstate]))"
| "age_step (MSetState i state) n l = age_modify i (me_State_update (\<lambda>_. state)) l"
| "age_step (MSetEB i reserved) n l = age_modify i (me_CacheEBReserved_update (\<lambda>_. reserved)) l"
| "age_step (MRemove i) n l =
     (if list_ex (\<lambda>e. me_id e = i \<and> tr_Message (me_Transport e) \<noteq> None) l then Some (None, filter (\<lambda>e. me_id e \<noteq> i) l) else None)"
| "age_step (MWake i) n l = age_modify i (me_State_update (\<lambda>_. eWaking)) l"
| "age_step (MWakeAfterEvict i) n l = (case find (\<lambda>e. me_id e = i) l of None \<Rightarrow> None
     | Some x \<Rightarrow> Some (None, map (\<lambda>e. if me_id e = i \<or> me_Address e = me_Address x \<and> me_State e = eWaitRequest
         then e\<lparr>me_State := eWaking\<rparr> else e) l))"
| "age_step MGetWaking n l = (case find (\<lambda>e. me_State e = eWaking) l of None \<Rightarrow> None
     | Some x \<Rightarrow> Some (Some (me_id x), map (upd (me_id x) (me_State_update (\<lambda>_. eInPipeline))) l))"

fun maf_step :: "maf_op \<Rightarrow> MissAddressFile \<Rightarrow> (nat option \<times> MissAddressFile) result" where
  "maf_step (MInsert transport address state bstate) f = rbind (maf_insert transport address state bstate f) (\<lambda>(i, f). Inr (Some i, f))"
| "maf_step (MSetState i state) f = rbind (maf_setState i state f) (\<lambda>f. Inr (None, f))"
| "maf_step (MSetEB i reserved) f = rbind (setCacheEBReserved i reserved f) (\<lambda>f. Inr (None, f))"
| "maf_step (MRemove i) f = rbind (maf_remove i f) (\<lambda>f. Inr (None, f))"
| "maf_step (MWake i) f = rbind (maf_wake i f) (\<lambda>f. Inr (None, f))"
| "maf_step (MWakeAfterEvict i) f = rbind (wakeAfterEvict i f) (\<lambda>f. Inr (None, f))"
| "maf_step MGetWaking f = rbind (getWakingMAF f) (\<lambda>(i, f). Inr (Some i, f))"

definition refines_op :: "maf_op \<Rightarrow> MissAddressFile \<Rightarrow> bool" where
  "refines_op op f \<longleftrightarrow> (case age_step op (maf_next f) (maf_ordered f) of
      Some (out, l) \<Rightarrow> \<exists>f'. maf_step op f = Inr (out, f') \<and> maf_ordered f' = l \<and> maf_inv f'
    | None \<Rightarrow> \<exists>err. maf_step op f = Inl err)"

lemma refines_modify:
  assumes "maf_inv f" "keeps_request g" "age_step op (maf_next f) (maf_ordered f) = age_modify i g (maf_ordered f)"
    "maf_step op f = rbind (maf_modify i g f) (\<lambda>f. Inr (None, f))"
  shows "refines_op op f"
proof (cases "i \<in> me_id ` set (theMAF f)")
  case True
  from maf_modify_ok [OF assms(1) this assms(2)] obtain es where "maf_modify i g f = Inr (f\<lparr>theMAF := es\<rparr>)"
    "maf_inv (f\<lparr>theMAF := es\<rparr>)" "maf_ordered (f\<lparr>theMAF := es\<rparr>) = map (upd i g) (maf_ordered f)" by blast
  then show ?thesis using assms(3,4) True by (simp add: refines_op_def age_modify_def)
next
  case False
  then show ?thesis using assms(3,4) by (simp add: refines_op_def age_modify_def maf_modify_absent)
qed

lemma refines_remove:
  assumes "maf_inv f"
  shows "refines_op (MRemove i) f"
proof (cases "list_ex (\<lambda>e. me_id e = i \<and> tr_Message (me_Transport e) \<noteq> None) (maf_ordered f)")
  case True
  then obtain e where e: "e \<in> set (theMAF f)" "me_id e = i" "tr_Message (me_Transport e) \<noteq> None" by (auto simp: list_ex_iff)
  from maf_remove_ok [OF assms e(1,3)] e(2) show ?thesis using True by (auto simp: refines_op_def)
next
  case False
  have "\<exists>err. maf_remove i f = Inl err"
  proof (cases "deref (Some i) (theMAF f)")
    case (Inl a)
    then show ?thesis by (simp add: maf_remove_def)
  next
    case (Inr e)
    then have "e \<in> set (theMAF f)" "me_id e = i" using deref_iff [OF maf_invD(1) [OF assms]] by blast+
    then have "tr_Message (me_Transport e) = None" using False by (auto simp: list_ex_iff)
    then show ?thesis using Inr by (simp add: maf_remove_def)
  qed
  then show ?thesis using False by (auto simp: refines_op_def)
qed

lemma refines_wakeAfterEvict:
  assumes "maf_inv f"
  shows "refines_op (MWakeAfterEvict i) f"
proof (cases "find (\<lambda>e. me_id e = i) (maf_ordered f)")
  case None
  then have "i \<notin> me_id ` set (theMAF f)" by (auto simp: find_None_iff)
  then show ?thesis using None by (simp add: refines_op_def wakeAfterEvict_def maf_wake_def maf_modify_absent)
next
  case (Some x)
  let ?g = "me_State_update (\<lambda>_. eWaking)"
  have x: "x \<in> set (theMAF f)" "me_id x = i" using Some by (auto simp: find_Some_iff dest: nth_mem)
  from maf_modify_ok [OF assms, of i ?g] x obtain es where es: "maf_modify i ?g f = Inr (f\<lparr>theMAF := es\<rparr>)"
    "maf_inv (f\<lparr>theMAF := es\<rparr>)" "maf_ordered (f\<lparr>theMAF := es\<rparr>) = map (upd i ?g) (maf_ordered f)" by auto
  let ?f = "f\<lparr>theMAF := es\<rparr>"
  have st: "set es = upd i ?g ` set (theMAF f)" using arg_cong [OF es(3), of set] by simp
  have "upd i ?g x \<in> set es" using st x(1) by simp
  then have d: "deref (Some i) es = Inr (upd i ?g x)"
    using deref_iff [of es i] maf_invD(1) [OF es(2)] x(2) by (simp add: upd_keeps)
  let ?is = "map me_id (findAll (me_Address x) eWaitRequest ?f)"
  have "set ?is \<subseteq> me_id ` set (theMAF ?f)" by (auto simp: findAll_def)
  from wake_all_ok [OF es(2) this] obtain es' where es': "wake_all ?is ?f = Inr (f\<lparr>theMAF := es'\<rparr>)" "maf_inv (f\<lparr>theMAF := es'\<rparr>)"
    "maf_ordered (f\<lparr>theMAF := es'\<rparr>) = map (\<lambda>e. if me_id e \<in> set ?is then e\<lparr>me_State := eWaking\<rparr> else e) (map (upd i ?g) (maf_ordered f))"
    unfolding es(3) by auto
  have inj: "e = e'" if "e \<in> set (theMAF f)" "e' \<in> set (theMAF f)" "me_id e = me_id e'" for e e'
    using that maf_invD(1) [OF assms] by (metis distinct_map inj_onD)
  have mem: "me_id e \<in> set ?is \<longleftrightarrow> me_id e \<noteq> i \<and> me_Address e = me_Address x \<and> me_State e = eWaitRequest" if e: "e \<in> set (theMAF f)" for e
  proof
    assume "me_id e \<in> set ?is"
    then obtain e' where e': "e' \<in> set (theMAF f)" "me_id (upd i ?g e') = me_id e" "me_Address (upd i ?g e') = me_Address x" "me_State (upd i ?g e') = eWaitRequest"
      by (auto simp: findAll_def st)
    then have "e' = e" using inj e by (simp add: upd_keeps)
    then show "me_id e \<noteq> i \<and> me_Address e = me_Address x \<and> me_State e = eWaitRequest" using e' by (auto simp: upd_def split: if_splits)
  next
    assume "me_id e \<noteq> i \<and> me_Address e = me_Address x \<and> me_State e = eWaitRequest"
    moreover from this have "e \<in> set es" using st e by (force simp: upd_def)
    ultimately show "me_id e \<in> set ?is" by (auto simp: findAll_def)
  qed
  have "maf_ordered (f\<lparr>theMAF := es'\<rparr>) = map (\<lambda>e. if me_id e = i \<or> me_Address e = me_Address x \<and> me_State e = eWaitRequest
      then e\<lparr>me_State := eWaking\<rparr> else e) (maf_ordered f)"
    unfolding es'(3) map_map o_def by (intro map_cong refl) (use mem in \<open>auto simp: upd_def\<close>)
  moreover have "wakeAfterEvict i f = Inr (f\<lparr>theMAF := es'\<rparr>)"
    using es(1) d es'(1) by (simp add: wakeAfterEvict_def maf_wake_def upd_keeps)
  ultimately show ?thesis using Some es'(2) by (simp add: refines_op_def)
qed

lemma refines_getWaking:
  assumes "maf_inv f"
  shows "refines_op MGetWaking f"
proof (cases "find (\<lambda>e. me_State e = eWaking) (maf_ordered f)")
  case None
  then show ?thesis by (simp add: refines_op_def getWakingMAF_def)
next
  case (Some x)
  then have x: "x \<in> set (theMAF f)" by (auto simp: find_Some_iff simp flip: set_ordered)
  let ?g = "me_State_update (\<lambda>_. eInPipeline)"
  from maf_modify_ok [OF assms, of "me_id x" ?g] x obtain es where "maf_modify (me_id x) ?g f = Inr (f\<lparr>theMAF := es\<rparr>)"
    "maf_inv (f\<lparr>theMAF := es\<rparr>)" "maf_ordered (f\<lparr>theMAF := es\<rparr>) = map (upd (me_id x) ?g) (maf_ordered f)" by auto
  then show ?thesis using Some by (simp add: refines_op_def getWakingMAF_def maf_setState_def)
qed

lemma refines_insert:
  assumes "maf_inv f"
  shows "refines_op (MInsert transport address state bstate) f"
proof (cases "tr_Requester transport")
  case None
  then show ?thesis by (simp add: refines_op_def maf_insert_def)
next
  case (Some r)
  then show ?thesis using maf_insert_ok [OF assms Some, of address state bstate] by (auto simp: refines_op_def)
qed

section \<open>Properties\<close>

text \<open>
  C24: The miss address file implements a list of requests in the order of their age, whatever its
  three indices and the counters do: an operation the list allows succeeds with the same answer
  and the same list, keeps the indices sorted and the counters right, and any other fails. In
  particular the waking entry that is taken is the oldest one, and after an eviction exactly
  the requests that wait for the block wake up.
\<close>

theorem miss_file_refines:
  assumes "maf_inv f"
  shows "case age_step op (maf_next f) (maf_ordered f) of
      Some (out, l) \<Rightarrow> \<exists>f'. maf_step op f = Inr (out, f') \<and> maf_ordered f' = l \<and> maf_inv f'
    | None \<Rightarrow> \<exists>err. maf_step op f = Inl err"
proof -
  have "refines_op op f"
  proof (cases op)
    case (MInsert transport address state bstate)
    then show ?thesis using refines_insert [OF assms] by simp
  next
    case (MSetState i state)
    show ?thesis by (rule refines_modify [OF assms keeps_request_update(1)]) (simp_all add: MSetState maf_setState_def)
  next
    case (MSetEB i n)
    show ?thesis by (rule refines_modify [OF assms keeps_request_update(2)]) (simp_all add: MSetEB setCacheEBReserved_def)
  next
    case (MRemove i)
    then show ?thesis using refines_remove [OF assms] by simp
  next
    case (MWake i)
    show ?thesis by (rule refines_modify [OF assms keeps_request_update(1)]) (simp_all add: MWake maf_wake_def)
  next
    case (MWakeAfterEvict i)
    then show ?thesis using refines_wakeAfterEvict [OF assms] by simp
  next
    case MGetWaking
    then show ?thesis using refines_getWaking [OF assms] by simp
  qed
  then show ?thesis by (simp only: refines_op_def)
qed

theorem miss_file_refines_witness:
  "\<exists>f'. maf_step (MInsert \<lparr>tr_Message = None, tr_Requester = Some 3\<rparr> 64 eWaking (sd_new 4)) (maf_new 8) = Inr (Some 0, f') \<and>
     map me_Address (maf_ordered f') = [64] \<and> maf_inv f'"
  using miss_file_refines [OF maf_inv_new, of "MInsert \<lparr>tr_Message = None, tr_Requester = Some 3\<rparr> 64 eWaking (sd_new 4)" 8]
  by (auto simp: maf_ordered_def maf_new_def MAFEntry_new_def)

text \<open>
  The recorder always knows the requesters of a region: \<open>otherRegionRequesters\<close> answers whether
  somebody else waits for a block of the region, when it is asked with the address that stands
  for the region. Asked with any other address it answers for a region nobody uses.
\<close>

theorem otherRegionRequesters_correct:
  assumes "maf_inv f"
  shows "otherRegionRequesters addr r f \<longleftrightarrow>
    (\<exists>e \<in> set (maf_ordered f). regionFunc f (me_Address e) = addr \<and> tr_Requester (me_Transport e) \<noteq> Some r)"
proof -
  note inv = maf_invD [OF assms]
  let ?rec = "theRegionRecorder f"
  have waits: "region_count ?rec addr y > 0 \<longleftrightarrow>
      (\<exists>e \<in> set (theMAF f). regionFunc f (me_Address e) = addr \<and> tr_Requester (me_Transport e) = Some y)" for y
    by (auto simp: inv(7) req_count_def filter_empty_conv)
  have "(\<exists>e \<in> set (theMAF f). regionFunc f (me_Address e) = addr \<and> tr_Requester (me_Transport e) \<noteq> Some r) \<longleftrightarrow>
      (\<exists>y. y \<noteq> r \<and> region_count ?rec addr y > 0)" unfolding waits using inv(3) by fastforce
  also have "\<dots> \<longleftrightarrow> otherRegionRequesters addr r f"
  proof (cases "map_of ?rec addr")
    case None
    then show ?thesis by (simp add: otherRegionRequesters_def region_count_def)
  next
    case (Some m)
    note ok = rec_okD [OF inv(6) Some]
    have c: "region_count ?rec addr y > 0 \<longleftrightarrow> y \<in> fst ` set m" for y
    proof (cases "map_of m y")
      case None
      moreover from this have "y \<notin> fst ` set m" by (simp add: map_of_eq_None_iff)
      ultimately show ?thesis by (simp add: region_count_def \<open>map_of ?rec addr = Some m\<close>)
    next
      case (Some n)
      moreover from this have "y \<in> fst ` set m" by (metis map_of_eq_None_iff option.distinct(1))
      ultimately show ?thesis using ok(3) \<open>map_of ?rec addr = Some m\<close> by (simp add: region_count_def)
    qed
    obtain k n m' where m: "m = (k, n) # m'" using ok(1) by (cases m) auto
    show ?thesis
    proof (cases m')
      case Nil
      then show ?thesis using m by (auto simp: otherRegionRequesters_def Some c)
    next
      case (Cons p m'')
      then have "fst p \<noteq> k" using ok(2) m by auto
      then have "\<exists>y. y \<noteq> r \<and> y \<in> fst ` set m" using m Cons by (cases "k = r") auto
      then show ?thesis using m Cons by (simp add: otherRegionRequesters_def Some c)
    qed
  qed
  finally show ?thesis by simp
qed

theorem otherRegionRequesters_correct_witness:
  "\<exists>f'. maf_insert \<lparr>tr_Message = None, tr_Requester = Some 1\<rparr> 64 eWaitAck (sd_new 4) (maf_new 8) = Inr (0, f') \<and> otherRegionRequesters 64 3 f'"
proof -
  let ?t = "\<lparr>tr_Message = None, tr_Requester = Some 1\<rparr>"
  obtain f' where f': "maf_insert ?t 64 eWaitAck (sd_new 4) (maf_new 8) = Inr (maf_next (maf_new 8), f')" "maf_inv f'"
    "maf_ordered f' = maf_ordered (maf_new 8) @ [MAFEntry_new (maf_next (maf_new 8)) ?t 64 eWaitAck (sd_new 4)]"
    using maf_insert_ok [OF maf_inv_new, of ?t 1 64 eWaitAck "sd_new 4" 8] by auto
  have n: "maf_next (maf_new 8) = 0" by (simp add: maf_new_def)
  have "regionFunc f' = (\<lambda>a. a)" using f'(1) by (auto simp: maf_insert_def maf_new_def)
  then have "otherRegionRequesters 64 3 f'" unfolding otherRegionRequesters_correct [OF f'(2)] f'(3) by (simp add: MAFEntry_new_def)
  then show ?thesis using f'(1) unfolding n by blast
qed

text \<open>A request of another core for the same region is not seen when the address is not that of the region.\<close>

lemma otherRegionRequesters_misses:
  "\<exists>f'. maf_insert \<lparr>tr_Message = None, tr_Requester = Some 1\<rparr> 1088 eWaitAck (sd_new 4) (registerRegionFunc (\<lambda>a. a div 1024 * 1024) (maf_new 8)) = Inr (0, f') \<and>
     regionFunc f' 1088 = regionFunc f' 1152 \<and> \<not> otherRegionRequesters 1152 2 f'"
  by (simp add: maf_insert_def registerRegionFunc_def maf_new_def otherRegionRequesters_def record_request_def)

end
