(* ===== verification/Evict_Buffers.thy ===== *)
theory Evict_Buffers
  imports Miss_File
begin

text \<open>
  The evict buffers of the shared timing cache: the one of its directory
  (\<open>components/CMPCache/EvictBuffer.hpp\<close>), the one of its data array and the buffer of the
  outstanding snoops (\<open>components/CMPCache/CacheBuffers.hpp\<close>). The containers of the evict
  buffers are sequences with unique addresses, and an address stands for an iterator to its
  entry. What the controllers rely on when they take places is the locale \<open>slot_buffer\<close>.
\<close>

section \<open>The evict buffer of the directory\<close>

record 's DirEvictEntry =
  de_Address :: u64
  de_State :: 's
  de_InvalidatesSent :: int
  de_CacheEBReserved :: int

definition DirEvictEntry_new :: "u64 \<Rightarrow> 's \<Rightarrow> 's DirEvictEntry" where
  "DirEvictEntry_new anAddress aState = \<lparr>de_Address = anAddress, de_State = aState, de_InvalidatesSent = 0, de_CacheEBReserved = 0\<rparr>"

definition invalidatesRequired :: "'s DirEvictEntry \<Rightarrow> bool" where
  "invalidatesRequired e \<longleftrightarrow> de_InvalidatesSent e = 0"

definition invalidatesPending :: "'s DirEvictEntry \<Rightarrow> int" where
  "invalidatesPending e = de_InvalidatesSent e"

record 's DirEvictBuffer =
  db_Entries :: "'s DirEvictEntry list"
  db_Size :: int
  db_Reserve :: int
  db_CurSize :: int
  db_PendingInvalidates :: int

definition db_new :: "int \<Rightarrow> 's DirEvictBuffer" where
  "db_new aSize = \<lparr>db_Entries = [], db_Size = aSize, db_Reserve = 0, db_CurSize = 0, db_PendingInvalidates = 0\<rparr>"

definition db_find :: "u64 \<Rightarrow> 's DirEvictBuffer \<Rightarrow> 's DirEvictEntry option" where
  "db_find anAddress b = find (\<lambda>e. de_Address e = anAddress) (db_Entries b)"

definition db_remove :: "u64 \<Rightarrow> 's DirEvictBuffer \<Rightarrow> 's DirEvictBuffer result" where
  "db_remove anAddress b = (case db_find anAddress b of None \<Rightarrow> Inl AssertFailed
     | Some entry \<Rightarrow> Inr (b\<lparr>db_PendingInvalidates := (if invalidatesPending entry \<noteq> 0 then db_PendingInvalidates b - 1 else db_PendingInvalidates b),
         db_Entries := filter (\<lambda>e. de_Address e \<noteq> anAddress) (db_Entries b), db_CurSize := db_CurSize b - 1\<rparr>))"

definition db_empty :: "'s DirEvictBuffer \<Rightarrow> bool" where
  "db_empty b \<longleftrightarrow> db_Entries b = []"

definition db_full :: "'s DirEvictBuffer \<Rightarrow> bool" where
  "db_full b \<longleftrightarrow> db_CurSize b + db_Reserve b \<ge> db_Size b"

definition db_freeSlotsPending :: "'s DirEvictBuffer \<Rightarrow> bool" where
  "db_freeSlotsPending b \<longleftrightarrow> db_PendingInvalidates b > 0 \<or> db_CurSize b + db_Reserve b < db_Size b"

definition listInvalidates :: "'s DirEvictBuffer \<Rightarrow> u64 list" where
  "listInvalidates b = map de_Address (filter (\<lambda>e. invalidatesPending e \<noteq> 0) (db_Entries b))"

definition db_idleWorkReady :: "'s DirEvictBuffer \<Rightarrow> bool" where
  "db_idleWorkReady b = (if db_Entries b \<noteq> [] then invalidatesRequired (last (db_Entries b)) else False)"

definition db_reserve :: "int \<Rightarrow> 's DirEvictBuffer \<Rightarrow> 's DirEvictBuffer result" where
  "db_reserve n b = dbg_assert (db_Reserve b + db_CurSize b + n \<le> db_Size b) (Inr (b\<lparr>db_Reserve := db_Reserve b + n\<rparr>))"

definition db_unreserve :: "int \<Rightarrow> 's DirEvictBuffer \<Rightarrow> 's DirEvictBuffer result" where
  "db_unreserve n b = dbg_assert (db_Reserve b \<ge> n) (Inr (b\<lparr>db_Reserve := db_Reserve b - n\<rparr>))"

definition oldestRequiringInvalidates :: "'s DirEvictBuffer \<Rightarrow> 's DirEvictEntry option" where
  "oldestRequiringInvalidates b = find invalidatesRequired (db_Entries b)"

text \<open>A second entry for an address is not inserted, but counted.\<close>

definition db_insert :: "u64 \<Rightarrow> 's \<Rightarrow> 's DirEvictBuffer \<Rightarrow> 's DirEvictBuffer" where
  "db_insert addr state b =
     b\<lparr>db_CurSize := db_CurSize b + 1,
       db_Entries := (if addr \<in> set (map de_Address (db_Entries b)) then db_Entries b else db_Entries b @ [DirEvictEntry_new addr state])\<rparr>"

text \<open>The operations of an entry change the counter of its buffer.\<close>

definition setInvalidatesPending :: "u64 \<Rightarrow> int \<Rightarrow> 's DirEvictBuffer \<Rightarrow> 's DirEvictBuffer result" where
  "setInvalidatesPending addr n b = (case db_find addr b of None \<Rightarrow> Inl OutOfRange
     | Some entry \<Rightarrow> Inr (b\<lparr>
         db_Entries := map (\<lambda>e. if de_Address e = addr then e\<lparr>de_InvalidatesSent := n\<rparr> else e) (db_Entries b),
         db_PendingInvalidates := db_PendingInvalidates b + 1\<rparr>))"

definition completeInvalidate :: "u64 \<Rightarrow> 's DirEvictBuffer \<Rightarrow> 's DirEvictBuffer result" where
  "completeInvalidate addr b = (case db_find addr b of None \<Rightarrow> Inl OutOfRange
     | Some entry \<Rightarrow> Inr (b\<lparr>
         db_Entries := map (\<lambda>e. if de_Address e = addr then e\<lparr>de_InvalidatesSent := de_InvalidatesSent e - 1\<rparr> else e) (db_Entries b),
         db_PendingInvalidates := (if de_InvalidatesSent entry - 1 = 0 then db_PendingInvalidates b - 1 else db_PendingInvalidates b)\<rparr>))"

section \<open>The evict buffer of the cache\<close>

record 's EvictEntry =
  ev_BlockAddress :: u64
  ev_Type :: MemoryMessageType
  ev_Evictable :: bool
  ev_Pending :: bool
  ev_State :: 's
  ev_SnoopRequired :: bool
  ev_SnoopScheduled :: bool

definition EvictEntry_new :: "u64 \<Rightarrow> MemoryMessageType \<Rightarrow> 's \<Rightarrow> bool \<Rightarrow> bool \<Rightarrow> 's EvictEntry" where
  "EvictEntry_new anAddress aType aState anEvictable aPending =
     \<lparr>ev_BlockAddress = anAddress, ev_Type = aType, ev_Evictable = anEvictable, ev_Pending = aPending, ev_State = aState,
      ev_SnoopRequired = (\<not> anEvictable), ev_SnoopScheduled = False\<rparr>"

record 's CacheEvictBuffer =
  cb_Evictions :: "'s EvictEntry list"
  cb_Size :: int
  cb_Reserve :: int
  cb_PendingEvicts :: u32
  cb_CurSize :: int

definition cb_new :: "int \<Rightarrow> 's CacheEvictBuffer" where
  "cb_new aSize = \<lparr>cb_Evictions = [], cb_Size = aSize, cb_Reserve = 0, cb_PendingEvicts = 0, cb_CurSize = 0\<rparr>"

definition cb_empty :: "'s CacheEvictBuffer \<Rightarrow> bool" where
  "cb_empty b \<longleftrightarrow> cb_CurSize b = 0"

definition cb_full :: "'s CacheEvictBuffer \<Rightarrow> bool" where
  "cb_full b \<longleftrightarrow> cb_CurSize b + cb_Reserve b \<ge> cb_Size b"

definition cb_reserve :: "int \<Rightarrow> 's CacheEvictBuffer \<Rightarrow> 's CacheEvictBuffer result" where
  "cb_reserve n b = (let b = b\<lparr>cb_Reserve := cb_Reserve b + n\<rparr> in dbg_assert (cb_CurSize b + cb_Reserve b \<le> cb_Size b) (Inr b))"

definition cb_unreserve :: "int \<Rightarrow> 's CacheEvictBuffer \<Rightarrow> 's CacheEvictBuffer result" where
  "cb_unreserve n b = (let b = b\<lparr>cb_Reserve := cb_Reserve b - n\<rparr> in dbg_assert (cb_Reserve b \<ge> 0) (Inr b))"

definition cb_freeSlotsPending :: "'s CacheEvictBuffer \<Rightarrow> bool" where
  "cb_freeSlotsPending b \<longleftrightarrow> cb_PendingEvicts b > 0 \<or> cb_CurSize b + cb_Reserve b < cb_Size b"

definition cb_freeEntries :: "'s CacheEvictBuffer \<Rightarrow> u32" where
  "cb_freeEntries b = word_of_int (cb_Size b - cb_CurSize b - cb_Reserve b)"

text \<open>Loading a checkpoint clears the container and nothing else.\<close>

definition cb_loadState :: "'s CacheEvictBuffer \<Rightarrow> 's CacheEvictBuffer" where
  "cb_loadState b = b\<lparr>cb_Evictions := []\<rparr>"

definition headEvictable :: "int \<Rightarrow> 's CacheEvictBuffer \<Rightarrow> bool" where
  "headEvictable anOffset b =
     (if cb_empty b then False else if nat anOffset < length (cb_Evictions b) then ev_Evictable (cb_Evictions b ! nat anOffset) else False)"

definition is_ready :: "'s EvictEntry \<Rightarrow> bool" where
  "is_ready e \<longleftrightarrow> \<not> (ev_Pending e \<or> \<not> ev_Evictable e)"

text \<open>The loops for the first entry that is ready look at the entry before they look whether it is the end.\<close>

fun first_ready :: "'s EvictEntry list \<Rightarrow> 's EvictEntry result" where
  "first_ready [] = Inl OutOfRange"
| "first_ready (e # es) = (if is_ready e then Inr e else first_ready es)"

definition evictableReady :: "'s CacheEvictBuffer \<Rightarrow> bool result" where
  "evictableReady b = (if cb_empty b then Inr False else rbind (first_ready (cb_Evictions b)) (\<lambda>e. Inr True))"

definition getOldestRequiringSnoops :: "'s CacheEvictBuffer \<Rightarrow> u64 option" where
  "getOldestRequiringSnoops b = map_option ev_BlockAddress (find ev_SnoopRequired (cb_Evictions b))"

definition cb_find :: "u64 \<Rightarrow> 's CacheEvictBuffer \<Rightarrow> 's EvictEntry option" where
  "cb_find anAddress b = find (\<lambda>e. ev_BlockAddress e = anAddress) (cb_Evictions b)"

definition cb_update :: "u64 \<Rightarrow> ('s EvictEntry \<Rightarrow> 's EvictEntry) \<Rightarrow> 's CacheEvictBuffer \<Rightarrow> 's CacheEvictBuffer" where
  "cb_update anAddress g b = b\<lparr>cb_Evictions := map (\<lambda>e. if ev_BlockAddress e = anAddress then g e else e) (cb_Evictions b)\<rparr>"

definition setEvictable :: "u64 \<Rightarrow> bool \<Rightarrow> 's CacheEvictBuffer \<Rightarrow> 's CacheEvictBuffer" where
  "setEvictable anAddress val b = (if cb_find anAddress b = None then b else cb_update anAddress (ev_Evictable_update (\<lambda>_. val)) b)"

definition getEvictType :: "u64 \<Rightarrow> 's CacheEvictBuffer \<Rightarrow> MemoryMessageType" where
  "getEvictType anAddress b = (case cb_find anAddress b of None \<Rightarrow> EvictClean | Some e \<Rightarrow> ev_Type e)"

definition setEvictType :: "u64 \<Rightarrow> MemoryMessageType \<Rightarrow> 's CacheEvictBuffer \<Rightarrow> 's CacheEvictBuffer" where
  "setEvictType anAddress val b = (if cb_find anAddress b = None then b else cb_update anAddress (ev_Type_update (\<lambda>_. val)) b)"

definition cb_allocEntry :: "u64 \<Rightarrow> MemoryMessageType \<Rightarrow> 's \<Rightarrow> bool \<Rightarrow> 's CacheEvictBuffer \<Rightarrow> 's CacheEvictBuffer" where
  "cb_allocEntry anAddress aType aState evictable b =
     (if cb_find anAddress b \<noteq> None then cb_update anAddress (\<lambda>e. e\<lparr>ev_Type := aType, ev_State := aState\<rparr>) b
      else b\<lparr>cb_Evictions := cb_Evictions b @ [EvictEntry_new anAddress aType aState evictable False], cb_CurSize := cb_CurSize b + 1\<rparr>)"

definition cb_pop :: "u32 \<Rightarrow> 's CacheEvictBuffer \<Rightarrow> ((MemoryMessage \<times> u32) \<times> 's CacheEvictBuffer) result" where
  "cb_pop counter b = (case cb_Evictions b of [] \<Rightarrow> Inl AssertFailed
     | e # es \<Rightarrow> dbg_assert (ev_Evictable e)
         (Inr (MemoryMessage_new (ev_Type e) (ev_BlockAddress e) 0 0 counter, b\<lparr>cb_Evictions := es, cb_CurSize := cb_CurSize b - 1\<rparr>)))"

definition cb_pop_index :: "u32 \<Rightarrow> int \<Rightarrow> 's CacheEvictBuffer \<Rightarrow> ((MemoryMessage \<times> u32) \<times> 's CacheEvictBuffer) result" where
  "cb_pop_index counter i b = dbg_assert (cb_CurSize b > i)
     (rbind (lookup_vec (cb_Evictions b) (nat i)) (\<lambda>e. dbg_assert (ev_Evictable e)
       (Inr (MemoryMessage_new (ev_Type e) (ev_BlockAddress e) 0 0 counter, cb_update (ev_BlockAddress e) (ev_Pending_update (\<lambda>_. True)) b))))"

definition firstNonPending :: "u32 \<Rightarrow> 's CacheEvictBuffer \<Rightarrow> ((MemoryMessage \<times> u32) \<times> 's CacheEvictBuffer) result" where
  "firstNonPending counter b = rbind (first_ready (cb_Evictions b)) (\<lambda>e.
     Inr (MemoryMessage_new (ev_Type e) (ev_BlockAddress e) 0 0 counter,
       (cb_update (ev_BlockAddress e) (ev_Pending_update (\<lambda>_. True)) b)\<lparr>cb_PendingEvicts := cb_PendingEvicts b + 1\<rparr>))"

definition cb_erase :: "'s EvictEntry \<Rightarrow> 's CacheEvictBuffer \<Rightarrow> 's CacheEvictBuffer" where
  "cb_erase e b = b\<lparr>cb_PendingEvicts := (if ev_Pending e then cb_PendingEvicts b - 1 else cb_PendingEvicts b),
     cb_Evictions := filter (\<lambda>x. ev_BlockAddress x \<noteq> ev_BlockAddress e) (cb_Evictions b), cb_CurSize := cb_CurSize b - 1\<rparr>"

definition cb_remove_index :: "int \<Rightarrow> 's CacheEvictBuffer \<Rightarrow> 's CacheEvictBuffer result" where
  "cb_remove_index i b = dbg_assert (cb_CurSize b > i)
     (rbind (lookup_vec (cb_Evictions b) (nat i)) (\<lambda>e. dbg_assert (ev_Evictable e) (Inr (cb_erase e b))))"

definition cb_remove :: "u64 option \<Rightarrow> 's CacheEvictBuffer \<Rightarrow> 's CacheEvictBuffer result" where
  "cb_remove iter b = (case iter of None \<Rightarrow> Inr b
     | Some a \<Rightarrow> (case cb_find a b of None \<Rightarrow> Inl OutOfRange | Some e \<Rightarrow> Inr (cb_erase e b)))"

section \<open>The snoop buffer\<close>

datatype SnoopStates = kSnoopOutstanding | kSnoopWaking | kSnoopWaiting

fun snoop_code :: "SnoopStates \<Rightarrow> nat" where
  "snoop_code kSnoopOutstanding = 0"
| "snoop_code kSnoopWaking = 1"
| "snoop_code kSnoopWaiting = 2"

record SnoopEntry =
  sn_transport :: MafTransport
  sn_state :: SnoopStates
  sn_BlockAddress :: u64
  snoop_state :: MemoryMessageType
  i_snoop_outstanding :: bool
  d_snoop_outstanding :: bool

definition SnoopEntry_new :: "MafTransport \<Rightarrow> SnoopStates \<Rightarrow> SnoopEntry result" where
  "SnoopEntry_new aTransport s = (case tr_Message aTransport of None \<Rightarrow> Inl BadGet
     | Some msg \<Rightarrow> Inr \<lparr>sn_transport = aTransport, sn_state = s, sn_BlockAddress = theAddress msg, snoop_state = ProbedNotPresent,
         i_snoop_outstanding = False, d_snoop_outstanding = True\<rparr>)"

record SnoopBuffer =
  theSnoops :: "SnoopEntry list"
  theWakeList :: "SnoopEntry list"
  sb_Size :: int
  sb_Reserve :: int
  sb_CurSize :: int

definition sb_new :: "int \<Rightarrow> SnoopBuffer" where
  "sb_new aSize = \<lparr>theSnoops = [], theWakeList = [], sb_Size = aSize, sb_Reserve = 0, sb_CurSize = 0\<rparr>"

definition sb_empty :: "SnoopBuffer \<Rightarrow> bool" where
  "sb_empty b \<longleftrightarrow> sb_CurSize b = 0"

definition sb_full :: "SnoopBuffer \<Rightarrow> bool" where
  "sb_full b \<longleftrightarrow> sb_CurSize b + sb_Reserve b \<ge> sb_Size b"

definition sb_reserve :: "SnoopBuffer \<Rightarrow> SnoopBuffer result" where
  "sb_reserve b = dbg_assert (sb_CurSize b + sb_Reserve b < sb_Size b) (Inr (b\<lparr>sb_Reserve := sb_Reserve b + 1\<rparr>))"

definition sb_unreserve :: "SnoopBuffer \<Rightarrow> SnoopBuffer result" where
  "sb_unreserve b = dbg_assert (sb_Reserve b > 0) (Inr (b\<lparr>sb_Reserve := sb_Reserve b - 1\<rparr>))"

definition sb_freeEntries :: "SnoopBuffer \<Rightarrow> int" where
  "sb_freeEntries b = sb_Size b - sb_CurSize b"

text \<open>An entry is found by address and state, the first of the equal ones.\<close>

definition has_key :: "u64 \<Rightarrow> SnoopStates \<Rightarrow> SnoopEntry \<Rightarrow> bool" where
  "has_key a s e \<longleftrightarrow> sn_BlockAddress e = a \<and> sn_state e = s"

definition getActiveEntry :: "u64 \<Rightarrow> SnoopBuffer \<Rightarrow> SnoopEntry option" where
  "getActiveEntry anAddress b = find (has_key anAddress kSnoopOutstanding) (theSnoops b)"

definition getWaitingEntries :: "u64 \<Rightarrow> SnoopBuffer \<Rightarrow> SnoopEntry list" where
  "getWaitingEntries anAddress b = filter (has_key anAddress kSnoopWaiting) (theSnoops b)"

definition sb_findEntry :: "u64 \<Rightarrow> SnoopBuffer \<Rightarrow> SnoopEntry option" where
  "sb_findEntry anAddress b = find (has_key anAddress kSnoopOutstanding) (theSnoops b)"

definition sb_hasEntry :: "u64 \<Rightarrow> SnoopBuffer \<Rightarrow> bool" where
  "sb_hasEntry anAddress b =
     (if find (has_key anAddress kSnoopOutstanding) (theSnoops b) \<noteq> None then True
      else if find (has_key anAddress kSnoopWaiting) (theSnoops b) \<noteq> None then True
      else list_ex (\<lambda>e. sn_BlockAddress e = anAddress) (theWakeList b))"

definition hasSnoopsOutstanding :: "u64 \<Rightarrow> SnoopBuffer \<Rightarrow> bool" where
  "hasSnoopsOutstanding anAddress b \<longleftrightarrow> find (has_key anAddress kSnoopOutstanding) (theSnoops b) \<noteq> None"

definition snoop_le :: "SnoopEntry \<Rightarrow> SnoopEntry \<Rightarrow> bool" where
  "snoop_le x y \<longleftrightarrow> sn_BlockAddress x < sn_BlockAddress y \<or>
     (sn_BlockAddress x = sn_BlockAddress y \<and> snoop_code (sn_state x) \<le> snoop_code (sn_state y))"

definition insert_snoop :: "SnoopEntry \<Rightarrow> SnoopEntry list \<Rightarrow> SnoopEntry list" where
  "insert_snoop e es = insert_after snoop_le e es"

definition add_snoop :: "SnoopStates \<Rightarrow> MafTransport \<Rightarrow> SnoopBuffer \<Rightarrow> SnoopBuffer result" where
  "add_snoop st newTransport b = dbg_assert (sb_CurSize b < sb_Size b)
     (rbind (SnoopEntry_new newTransport st) (\<lambda>e. Inr (b\<lparr>sb_CurSize := sb_CurSize b + 1, theSnoops := insert_snoop e (theSnoops b)\<rparr>)))"

definition sb_allocEntry :: "MafTransport \<Rightarrow> SnoopBuffer \<Rightarrow> SnoopBuffer result" where
  "sb_allocEntry newTransport b = add_snoop kSnoopOutstanding newTransport b"

definition addWaitingEntry :: "MafTransport \<Rightarrow> SnoopBuffer \<Rightarrow> SnoopBuffer result" where
  "addWaitingEntry newTransport b = add_snoop kSnoopWaiting newTransport b"

definition wakeWaitingEntries :: "u64 \<Rightarrow> SnoopBuffer \<Rightarrow> bool \<times> SnoopBuffer" where
  "wakeWaitingEntries anAddress b =
     (let es = getWaitingEntries anAddress b in
      if es \<noteq> [] then (True, b\<lparr>theWakeList := theWakeList b @ es, theSnoops := filter (\<lambda>e. \<not> has_key anAddress kSnoopWaiting e) (theSnoops b)\<rparr>)
      else (False, b))"

text \<open>The iterator of an entry to remove is its place in the container.\<close>

definition sb_remove :: "nat \<Rightarrow> SnoopBuffer \<Rightarrow> SnoopBuffer result" where
  "sb_remove i b = (if i < length (theSnoops b)
     then Inr (b\<lparr>theSnoops := take i (theSnoops b) @ drop (i + 1) (theSnoops b), sb_CurSize := sb_CurSize b - 1\<rparr>) else Inl OutOfRange)"

definition wakeListEmpty :: "SnoopBuffer \<Rightarrow> bool" where
  "wakeListEmpty b \<longleftrightarrow> theWakeList b = []"

definition wakeSnoop :: "SnoopBuffer \<Rightarrow> (MafTransport \<times> SnoopBuffer) result" where
  "wakeSnoop b = (case theWakeList b of [] \<Rightarrow> Inl OutOfRange
     | e # es \<Rightarrow> Inr (sn_transport e, b\<lparr>theWakeList := es, sb_CurSize := sb_CurSize b - 1\<rparr>))"

section \<open>Taking places\<close>

locale slot_buffer =
  fixes taken :: "'b \<Rightarrow> int" and capacity :: "'b \<Rightarrow> int" and held :: "'b \<Rightarrow> int" and is_full :: "'b \<Rightarrow> bool"
    and reserve :: "'b \<Rightarrow> 'b result" and unreserve :: "'b \<Rightarrow> 'b result"
  assumes full_iff: "is_full b \<longleftrightarrow> capacity b \<le> taken b + held b"
    and reserve_full: "is_full b \<Longrightarrow> reserve b = Inl AssertFailed"
    and reserve_ok: "\<not> is_full b \<Longrightarrow> \<exists>b'. reserve b = Inr b' \<and> taken b' = taken b \<and> capacity b' = capacity b \<and> held b' = held b + 1"
    and unreserve_none: "held b \<le> 0 \<Longrightarrow> unreserve b = Inl AssertFailed"
    and unreserve_ok: "held b > 0 \<Longrightarrow> \<exists>b'. unreserve b = Inr b' \<and> taken b' = taken b \<and> capacity b' = capacity b \<and> held b' = held b - 1"

fun iterate :: "nat \<Rightarrow> ('b \<Rightarrow> 'b result) \<Rightarrow> 'b \<Rightarrow> 'b result" where
  "iterate 0 op b = Inr b"
| "iterate (Suc n) op b = rbind (op b) (iterate n op)"

context slot_buffer
begin

lemma reserve_many:
  "if n = 0 \<or> taken b + held b + int n \<le> capacity b
   then \<exists>b'. iterate n reserve b = Inr b' \<and> taken b' = taken b \<and> capacity b' = capacity b \<and> held b' = held b + int n
   else iterate n reserve b = Inl AssertFailed"
proof (induction n arbitrary: b)
  case 0
  then show ?case by simp
next
  case (Suc n)
  show ?case
  proof (cases "is_full b")
    case True
    then show ?thesis using reserve_full full_iff by simp
  next
    case False
    then obtain b1 where b1: "reserve b = Inr b1" "taken b1 = taken b" "capacity b1 = capacity b" "held b1 = held b + 1"
      using reserve_ok by blast
    show ?thesis using Suc [of b1] b1 False full_iff [of b] by (auto split: if_splits)
  qed
qed

lemma unreserve_many:
  "if int n \<le> held b \<or> n = 0 then \<exists>b'. iterate n unreserve b = Inr b' \<and> taken b' = taken b \<and> capacity b' = capacity b \<and> held b' = held b - int n
   else iterate n unreserve b = Inl AssertFailed"
proof (induction n arbitrary: b)
  case 0
  then show ?case by simp
next
  case (Suc n)
  show ?case
  proof (cases "held b > 0")
    case True
    then obtain b1 where b1: "unreserve b = Inr b1" "taken b1 = taken b" "capacity b1 = capacity b" "held b1 = held b - 1"
      using unreserve_ok by blast
    show ?thesis using Suc [of b1] b1 True by (auto split: if_splits)
  next
    case False
    then show ?thesis using unreserve_none by simp
  qed
qed

end

interpretation maf_slots: slot_buffer maf_CurSize maf_Size maf_Reserve maf_full maf_reserve maf_unreserve
  by unfold_locales (auto simp: maf_full_def maf_reserve_def maf_unreserve_def dbg_assert_def)

interpretation dir_slots: slot_buffer db_CurSize db_Size db_Reserve db_full "db_reserve 1" "db_unreserve 1"
  by unfold_locales (auto simp: db_full_def db_reserve_def db_unreserve_def dbg_assert_def)

interpretation evict_slots: slot_buffer cb_CurSize cb_Size cb_Reserve cb_full "cb_reserve 1" "cb_unreserve 1"
  by unfold_locales (auto simp: cb_full_def cb_reserve_def cb_unreserve_def dbg_assert_def Let_def)

interpretation snoop_slots: slot_buffer sb_CurSize sb_Size sb_Reserve sb_full sb_reserve sb_unreserve
  by unfold_locales (auto simp: sb_full_def sb_reserve_def sb_unreserve_def dbg_assert_def)

section \<open>Writebacks\<close>

definition cb_ready :: "'s CacheEvictBuffer \<Rightarrow> 's EvictEntry list" where
  "cb_ready b = filter is_ready (cb_Evictions b)"

definition cb_inv :: "'s CacheEvictBuffer \<Rightarrow> bool" where
  "cb_inv b \<longleftrightarrow> distinct (map ev_BlockAddress (cb_Evictions b)) \<and> cb_CurSize b = int (length (cb_Evictions b)) \<and>
     length (cb_Evictions b) < 2 ^ 32 \<and> unat (cb_PendingEvicts b) = length (filter ev_Pending (cb_Evictions b))"

lemma first_ready_eq: "first_ready es = (case filter is_ready es of [] \<Rightarrow> Inl OutOfRange | e # _ \<Rightarrow> Inr e)"
  by (induction es) auto

definition mark :: "u64 \<Rightarrow> 's EvictEntry \<Rightarrow> 's EvictEntry" where
  "mark a e = (if ev_BlockAddress e = a then e\<lparr>ev_Pending := True\<rparr> else e)"

lemma mark_address [simp]: "ev_BlockAddress (mark a e) = ev_BlockAddress e"
  by (simp add: mark_def)

lemma mark_ready:
  assumes "distinct (map ev_BlockAddress es)" "filter is_ready es = e # rest"
  shows "filter is_ready (map (mark (ev_BlockAddress e)) es) = rest"
    "length (filter ev_Pending (map (mark (ev_BlockAddress e)) es)) = length (filter ev_Pending es) + 1"
proof -
  obtain us vs where es: "es = us @ e # vs" "\<forall>u \<in> set us. \<not> is_ready u" "is_ready e" "rest = filter is_ready vs"
    using assms(2) by (auto simp: filter_eq_Cons_iff)
  have "map (mark (ev_BlockAddress e)) us = us" "map (mark (ev_BlockAddress e)) vs = vs"
    using assms(1) es(1) by (auto simp: mark_def image_iff intro!: map_idI)
  moreover have "filter is_ready us = []" using es(2) by (simp add: filter_empty_conv)
  ultimately show "filter is_ready (map (mark (ev_BlockAddress e)) es) = rest"
    "length (filter ev_Pending (map (mark (ev_BlockAddress e)) es)) = length (filter ev_Pending es) + 1"
    using es(1,3,4) by (simp_all add: mark_def is_ready_def)
qed

lemma firstNonPending_ok:
  assumes "cb_inv b" "cb_ready b = e # rest"
  shows "\<exists>b'. firstNonPending counter b = Inr (MemoryMessage_new (ev_Type e) (ev_BlockAddress e) 0 0 counter, b') \<and>
    cb_inv b' \<and> cb_ready b' = rest \<and> map ev_BlockAddress (cb_Evictions b') = map ev_BlockAddress (cb_Evictions b)"
proof -
  let ?es = "cb_Evictions b" and ?m = "mark (ev_BlockAddress e)"
  let ?b = "b\<lparr>cb_Evictions := map ?m ?es, cb_PendingEvicts := cb_PendingEvicts b + 1\<rparr>"
  have inv: "distinct (map ev_BlockAddress ?es)" "cb_CurSize b = int (length ?es)" "length ?es < 2 ^ 32"
    "unat (cb_PendingEvicts b) = length (filter ev_Pending ?es)" using assms(1) by (simp_all add: cb_inv_def)
  note mr = mark_ready [OF inv(1) assms(2) [unfolded cb_ready_def]]
  have "length (filter ev_Pending (map ?m ?es)) \<le> length ?es" by (metis length_filter_le length_map)
  then have "unat (cb_PendingEvicts b) + 1 < 2 ^ 32" using inv(3,4) mr(2) by linarith
  then have "unat (cb_PendingEvicts b + 1) = length (filter ev_Pending (map ?m ?es))"
    using unat_add_small [of "cb_PendingEvicts b" 1] inv(4) mr(2) by simp
  then have i: "cb_inv ?b" using inv by (simp add: cb_inv_def o_def)
  have "firstNonPending counter b = Inr (MemoryMessage_new (ev_Type e) (ev_BlockAddress e) 0 0 counter, ?b)"
    using assms(2) by (simp add: firstNonPending_def first_ready_eq cb_ready_def cb_update_def mark_def [abs_def] fun_eq_iff cong: if_cong)
  then show ?thesis using i mr(1) by (intro exI [of _ ?b]) (simp add: cb_ready_def o_def)
qed

fun take_evicts :: "nat \<Rightarrow> u32 \<Rightarrow> 's CacheEvictBuffer \<Rightarrow> (MemoryMessage list \<times> 's CacheEvictBuffer) result" where
  "take_evicts 0 counter b = Inr ([], b)"
| "take_evicts (Suc k) counter b = rbind (firstNonPending counter b) (\<lambda>((m, counter), b).
     rbind (take_evicts k counter b) (\<lambda>(ms, b). Inr (m # ms, b)))"

lemma MemoryMessage_new_fields:
  "theType (fst (MemoryMessage_new t a pc d n)) = t" "theAddress (fst (MemoryMessage_new t a pc d n)) = a"
  by (simp_all add: MemoryMessage_new_def memoryMessageSerial_def Let_def)

text \<open>
  C26: The evict buffer hands out the writebacks in the order the blocks were evicted, each once,
  past the blocks that still wait for snoops: that many calls as there are blocks ready give
  exactly these, and the blocks stay in the buffer until they are removed. One call more reads
  past the end of the buffer.
\<close>

theorem writebacks_in_order:
  assumes "cb_inv b"
  shows "if k \<le> length (cb_ready b)
    then \<exists>ms b'. take_evicts k counter b = Inr (ms, b') \<and>
      map (\<lambda>m. (theType m, theAddress m)) ms = map (\<lambda>e. (ev_Type e, ev_BlockAddress e)) (take k (cb_ready b)) \<and>
      cb_ready b' = drop k (cb_ready b) \<and> map ev_BlockAddress (cb_Evictions b') = map ev_BlockAddress (cb_Evictions b) \<and> cb_inv b'
    else take_evicts k counter b = Inl OutOfRange"
  using assms
proof (induction k arbitrary: b counter)
  case 0
  then show ?case by simp
next
  case (Suc k)
  show ?case
  proof (cases "cb_ready b")
    case Nil
    then show ?thesis by (simp add: firstNonPending_def first_ready_eq cb_ready_def)
  next
    case (Cons e rest)
    obtain m c where mc: "MemoryMessage_new (ev_Type e) (ev_BlockAddress e) 0 0 counter = (m, c)" by fastforce
    have f: "theType m = ev_Type e" "theAddress m = ev_BlockAddress e" using MemoryMessage_new_fields [of "ev_Type e" "ev_BlockAddress e" 0 0 counter] mc by simp_all
    obtain b1 where b1: "firstNonPending counter b = Inr ((m, c), b1)" "cb_inv b1" "cb_ready b1 = rest"
      "map ev_BlockAddress (cb_Evictions b1) = map ev_BlockAddress (cb_Evictions b)"
      using firstNonPending_ok [OF Suc.prems Cons, of counter] mc by auto
    show ?thesis
    proof (cases "k \<le> length rest")
      case True
      then obtain ms b' where "take_evicts k c b1 = Inr (ms, b')"
        "map (\<lambda>m. (theType m, theAddress m)) ms = map (\<lambda>e. (ev_Type e, ev_BlockAddress e)) (take k rest)" "cb_ready b' = drop k rest"
        "map ev_BlockAddress (cb_Evictions b') = map ev_BlockAddress (cb_Evictions b)" "cb_inv b'"
        using Suc.IH [OF b1(2), of c] b1(3,4) by auto
      then show ?thesis using b1(1) f True Cons by simp
    next
      case False
      then show ?thesis using Suc.IH [OF b1(2), of c] b1(1,3) Cons by simp
    qed
  qed
qed

theorem writebacks_in_order_witness:
  "\<exists>ms b'. take_evicts 1 7 (cb_allocEntry 64 EvictDirty ''M'' True (cb_allocEntry 128 EvictClean ''S'' False (cb_new 4))) = Inr (ms, b') \<and>
     map (\<lambda>m. (theType m, theAddress m)) ms = [(EvictDirty, 64)]"
proof -
  let ?b = "cb_allocEntry 64 EvictDirty ''M'' True (cb_allocEntry 128 EvictClean ''S'' False (cb_new 4))"
  have b: "cb_inv ?b" "cb_ready ?b = [EvictEntry_new 64 EvictDirty ''M'' True False]"
    by (simp_all add: cb_inv_def cb_ready_def cb_allocEntry_def cb_find_def cb_new_def EvictEntry_new_def is_ready_def)
  show ?thesis using writebacks_in_order [OF b(1), of 1 7] unfolding b(2) by (auto simp: EvictEntry_new_def)
qed

text \<open>Asking whether a block is ready while none is reads past the end of the buffer.\<close>

lemma evictableReady_reads_past_end:
  "cb_inv b \<Longrightarrow> evictableReady b = (if cb_Evictions b = [] then Inr False else if cb_ready b = [] then Inl OutOfRange else Inr True)"
  by (auto simp: evictableReady_def cb_empty_def cb_inv_def cb_ready_def first_ready_eq split: list.splits)

section \<open>Invalidations\<close>

text \<open>
  The life of the directory's evict buffer as the policy drives it: an evicted entry is put in
  once, the invalidations of an entry are sent while it requires them, to at least one sharer,
  and their answers come back; an entry may be taken out at any time.
\<close>

inductive db_reach :: "'s DirEvictBuffer \<Rightarrow> bool" where
  start: "db_reach (db_new n)"
| reserve: "db_reach b \<Longrightarrow> db_reserve n b = Inr b' \<Longrightarrow> db_reach b'"
| unreserve: "db_reach b \<Longrightarrow> db_unreserve n b = Inr b' \<Longrightarrow> db_reach b'"
| insert: "db_reach b \<Longrightarrow> db_find addr b = None \<Longrightarrow> db_reach (db_insert addr state b)"
| sent: "db_reach b \<Longrightarrow> db_find addr b = Some e \<Longrightarrow> invalidatesRequired e \<Longrightarrow> n > 0 \<Longrightarrow>
    setInvalidatesPending addr n b = Inr b' \<Longrightarrow> db_reach b'"
| answered: "db_reach b \<Longrightarrow> db_find addr b = Some e \<Longrightarrow> invalidatesPending e > 0 \<Longrightarrow> completeInvalidate addr b = Inr b' \<Longrightarrow> db_reach b'"
| remove: "db_reach b \<Longrightarrow> db_remove addr b = Inr b' \<Longrightarrow> db_reach b'"

definition db_inv :: "'s DirEvictBuffer \<Rightarrow> bool" where
  "db_inv b \<longleftrightarrow> distinct (map de_Address (db_Entries b)) \<and> db_CurSize b = int (length (db_Entries b)) \<and>
     db_PendingInvalidates b = int (length (filter (\<lambda>e. de_InvalidatesSent e \<noteq> 0) (db_Entries b))) \<and>
     (\<forall>e \<in> set (db_Entries b). 0 \<le> de_InvalidatesSent e)"

lemma db_split:
  assumes "distinct (map de_Address (db_Entries b))" "db_find addr b = Some e"
  shows "\<exists>us vs. db_Entries b = us @ e # vs \<and> de_Address e = addr \<and> (\<forall>x \<in> set us \<union> set vs. de_Address x \<noteq> addr)"
proof -
  have e: "e \<in> set (db_Entries b)" "de_Address e = addr" using assms(2) by (auto simp: db_find_def find_Some_iff)
  then obtain us vs where es: "db_Entries b = us @ e # vs" by (meson split_list)
  then have "\<forall>x \<in> set us \<union> set vs. de_Address x \<noteq> addr" using assms(1) e(2) by (auto simp: image_iff)
  then show ?thesis using es e(2) by blast
qed

lemma db_map_split:
  assumes "\<forall>x \<in> set us \<union> set vs. de_Address x \<noteq> addr" "de_Address e = addr"
  shows "map (\<lambda>e. if de_Address e = addr then g e else e) (us @ e # vs) = us @ g e # vs"
    "filter (\<lambda>e. de_Address e \<noteq> addr) (us @ e # vs) = us @ vs"
  using assms by (auto intro!: map_idI filter_True)

lemma db_reach_inv: "db_reach b \<Longrightarrow> db_inv b"
proof (induction rule: db_reach.induct)
  case (start n)
  then show ?case by (simp add: db_inv_def db_new_def)
next
  case (reserve b n b')
  then show ?case by (auto simp: db_inv_def db_reserve_def)
next
  case (unreserve b n b')
  then show ?case by (auto simp: db_inv_def db_unreserve_def)
next
  case (insert b addr state)
  then have "addr \<notin> de_Address ` set (db_Entries b)" by (auto simp: db_find_def find_None_iff)
  then show ?case using insert(3) by (simp add: db_inv_def db_insert_def DirEvictEntry_new_def)
next
  case (sent b addr e n b')
  then obtain us vs where s: "db_Entries b = us @ e # vs" "de_Address e = addr" "\<forall>x \<in> set us \<union> set vs. de_Address x \<noteq> addr"
    using db_split [of b addr e] by (auto simp: db_inv_def)
  have b': "b' = b\<lparr>db_Entries := us @ e\<lparr>de_InvalidatesSent := n\<rparr> # vs, db_PendingInvalidates := db_PendingInvalidates b + 1\<rparr>"
    using sent(2,5) s(1) db_map_split(1) [OF s(3,2), of "de_InvalidatesSent_update (\<lambda>_. n)"] by (simp add: setInvalidatesPending_def)
  show ?case using sent(3,4,6) s unfolding b' by (simp add: db_inv_def invalidatesRequired_def)
next
  case (answered b addr e b')
  then obtain us vs where s: "db_Entries b = us @ e # vs" "de_Address e = addr" "\<forall>x \<in> set us \<union> set vs. de_Address x \<noteq> addr"
    using db_split [of b addr e] by (auto simp: db_inv_def)
  have b': "b' = b\<lparr>db_Entries := us @ e\<lparr>de_InvalidatesSent := de_InvalidatesSent e - 1\<rparr> # vs,
      db_PendingInvalidates := (if de_InvalidatesSent e - 1 = 0 then db_PendingInvalidates b - 1 else db_PendingInvalidates b)\<rparr>"
    using answered(2,4) s(1) db_map_split(1) [OF s(3,2), of "\<lambda>e. e\<lparr>de_InvalidatesSent := de_InvalidatesSent e - 1\<rparr>"] by (simp add: completeInvalidate_def)
  show ?case using answered(3,5) s unfolding b' by (auto simp: db_inv_def invalidatesPending_def)
next
  case (remove b addr b')
  then obtain e where e: "db_find addr b = Some e" by (auto simp: db_remove_def split: option.splits)
  then obtain us vs where s: "db_Entries b = us @ e # vs" "de_Address e = addr" "\<forall>x \<in> set us \<union> set vs. de_Address x \<noteq> addr"
    using db_split [of b addr e] remove(3) by (auto simp: db_inv_def)
  have b': "b' = b\<lparr>db_PendingInvalidates := (if invalidatesPending e \<noteq> 0 then db_PendingInvalidates b - 1 else db_PendingInvalidates b),
      db_Entries := us @ vs, db_CurSize := db_CurSize b - 1\<rparr>"
    using remove(2) e s(1) db_map_split(2) [OF s(3,2)] by (simp add: db_remove_def)
  show ?case using remove(3) s(1) unfolding b' by (auto simp: db_inv_def invalidatesPending_def)
qed

text \<open>
  C29: As long as the directory puts in an address only while it has no entry, sets the number of
  invalidations of an entry once and to at least one, and reports only answers that are
  outstanding, its evict buffer counts its entries and the entries with unanswered invalidations
  exactly, and no entry has a negative number of them: places become free without further work
  exactly when there is room now or some entry waits for the answers to its invalidations, and
  an entry that still requires invalidations is found whenever there is one.
\<close>

theorem invalidates_counted:
  assumes "db_reach b"
  shows "db_CurSize b = int (length (db_Entries b)) \<and>
    db_PendingInvalidates b = int (length (filter (\<lambda>e. invalidatesPending e \<noteq> 0) (db_Entries b))) \<and>
    (\<forall>e \<in> set (db_Entries b). 0 \<le> invalidatesPending e) \<and> (db_freeSlotsPending b \<longleftrightarrow> listInvalidates b \<noteq> [] \<or> \<not> db_full b) \<and>
    (oldestRequiringInvalidates b = None \<longleftrightarrow> length (listInvalidates b) = length (db_Entries b))"
proof -
  have inv: "db_inv b" by (rule db_reach_inv [OF assms])
  have l: "length (filter P xs) = length xs \<longleftrightarrow> (\<forall>x \<in> set xs. P x)" for P and xs :: "'a DirEvictEntry list"
    by (metis filter_id_conv length_filter_less less_irrefl)
  have "oldestRequiringInvalidates b = None \<longleftrightarrow> length (listInvalidates b) = length (db_Entries b)"
    unfolding listInvalidates_def length_map l by (auto simp: oldestRequiringInvalidates_def find_None_iff invalidatesRequired_def invalidatesPending_def)
  moreover have "db_freeSlotsPending b \<longleftrightarrow> listInvalidates b \<noteq> [] \<or> \<not> db_full b"
    using inv by (auto simp: db_freeSlotsPending_def db_inv_def listInvalidates_def db_full_def invalidatesPending_def)
  ultimately show ?thesis using inv by (simp add: db_inv_def invalidatesPending_def)
qed

theorem invalidates_counted_witness:
  "\<exists>b. setInvalidatesPending 64 2 (db_insert 64 ''M'' (db_new 1)) = Inr b \<and> db_full b \<and> db_freeSlotsPending b"
proof -
  let ?b = "db_insert 64 ''M'' (db_new 1)"
  have f: "db_find 64 ?b = Some (DirEvictEntry_new 64 ''M'')" by (simp add: db_find_def db_insert_def db_new_def DirEvictEntry_new_def)
  have r: "db_reach ?b" by (rule db_reach.insert [OF db_reach.start]) (simp add: db_find_def db_new_def)
  obtain b where b: "setInvalidatesPending 64 2 ?b = Inr b" using f by (simp add: setInvalidatesPending_def)
  have "db_reach b" by (rule db_reach.sent [OF r f _ _ b]) (simp_all add: DirEvictEntry_new_def invalidatesRequired_def)
  from invalidates_counted [OF this] have "db_freeSlotsPending b \<longleftrightarrow> listInvalidates b \<noteq> [] \<or> \<not> db_full b" by blast
  moreover have "listInvalidates b = [64]" "db_full b" using b f
    by (auto simp: setInvalidatesPending_def listInvalidates_def db_full_def db_insert_def db_new_def DirEvictEntry_new_def invalidatesPending_def)
  ultimately show ?thesis using b by simp
qed

text \<open>A second entry for an address is counted, although it is not put in.\<close>

lemma double_insert_drifts:
  "db_CurSize (db_insert 64 s (db_insert 64 s (db_new 4))) = 2" "length (db_Entries (db_insert 64 s (db_insert 64 s (db_new 4)))) = 1"
  by (simp_all add: db_insert_def db_new_def DirEvictEntry_new_def)

section \<open>Snoops\<close>

interpretation snoop_index: ordered_index snoop_le
  by unfold_locales (auto simp: snoop_le_def)

text \<open>What the buffer promises: a queue for every address and state, and a queue of the woken snoops.\<close>

datatype snoop_op = SAlloc MafTransport | SWait MafTransport | SWake u64 | SPop | SDone u64

type_synonym snoop_spec = "(u64 \<Rightarrow> SnoopStates \<Rightarrow> MafTransport list) \<times> MafTransport list"

fun snoop_spec_step :: "snoop_op \<Rightarrow> snoop_spec \<Rightarrow> (MafTransport option \<times> snoop_spec) option" where
  "snoop_spec_step (SAlloc t) (q, w) = (case tr_Message t of None \<Rightarrow> None
     | Some m \<Rightarrow> Some (None, (\<lambda>a s. if a = theAddress m \<and> s = kSnoopOutstanding then q a s @ [t] else q a s), w))"
| "snoop_spec_step (SWait t) (q, w) = (case tr_Message t of None \<Rightarrow> None
     | Some m \<Rightarrow> Some (None, (\<lambda>a s. if a = theAddress m \<and> s = kSnoopWaiting then q a s @ [t] else q a s), w))"
| "snoop_spec_step (SWake x) (q, w) = Some (None, (\<lambda>a s. if a = x \<and> s = kSnoopWaiting then [] else q a s), w @ q x kSnoopWaiting)"
| "snoop_spec_step SPop (q, w) = (case w of [] \<Rightarrow> None | t # w \<Rightarrow> Some (Some t, q, w))"
| "snoop_spec_step (SDone x) (q, w) = (case q x kSnoopOutstanding of [] \<Rightarrow> None
     | t # ts \<Rightarrow> Some (None, (\<lambda>a s. if a = x \<and> s = kSnoopOutstanding then ts else q a s), w))"

text \<open>The entry of the answered snoop is the one \<open>findEntry\<close> gives.\<close>

fun snoop_step :: "snoop_op \<Rightarrow> SnoopBuffer \<Rightarrow> (MafTransport option \<times> SnoopBuffer) result" where
  "snoop_step (SAlloc t) b = rbind (sb_allocEntry t b) (\<lambda>b. Inr (None, b))"
| "snoop_step (SWait t) b = rbind (addWaitingEntry t b) (\<lambda>b. Inr (None, b))"
| "snoop_step (SWake x) b = Inr (None, snd (wakeWaitingEntries x b))"
| "snoop_step SPop b = rbind (wakeSnoop b) (\<lambda>(t, b). Inr (Some t, b))"
| "snoop_step (SDone x) b = rbind (sb_remove (length (takeWhile (\<lambda>e. \<not> has_key x kSnoopOutstanding e) (theSnoops b))) b) (\<lambda>b. Inr (None, b))"

definition snoop_abs :: "SnoopBuffer \<Rightarrow> snoop_spec" where
  "snoop_abs b = (\<lambda>a s. map sn_transport (filter (has_key a s) (theSnoops b)), map sn_transport (theWakeList b))"

definition sb_inv :: "SnoopBuffer \<Rightarrow> bool" where
  "sb_inv b \<longleftrightarrow> sorted_wrt snoop_le (theSnoops b) \<and> sb_CurSize b = int (length (theSnoops b) + length (theWakeList b))"

lemma filter_insert_snoop:
  "sorted_wrt snoop_le es \<Longrightarrow> filter (has_key a s) (insert_snoop e es) = filter (has_key a s) es @ (if has_key a s e then [e] else [])"
  unfolding insert_snoop_def by (rule snoop_index.insert_last) (auto simp: has_key_def snoop_le_def)

lemma add_snoop_ok:
  assumes "sb_inv b" "sb_CurSize b < sb_Size b" "tr_Message t = Some m"
  shows "\<exists>b'. add_snoop st t b = Inr b' \<and> sb_inv b' \<and> sb_Size b' = sb_Size b \<and>
    snoop_abs b' = (\<lambda>a s. if a = theAddress m \<and> s = st then fst (snoop_abs b) a s @ [t] else fst (snoop_abs b) a s, snd (snoop_abs b))"
proof -
  obtain e where e: "SnoopEntry_new t st = Inr e" "sn_transport e = t" "sn_state e = st" "sn_BlockAddress e = theAddress m"
    using assms(3) by (simp add: SnoopEntry_new_def)
  let ?b = "b\<lparr>sb_CurSize := sb_CurSize b + 1, theSnoops := insert_snoop e (theSnoops b)\<rparr>"
  have inv: "sorted_wrt snoop_le (theSnoops b)" "sb_CurSize b = int (length (theSnoops b) + length (theWakeList b))" using assms(1) by (simp_all add: sb_inv_def)
  have "length (insert_snoop e (theSnoops b)) = length (theSnoops b) + 1"
    unfolding insert_snoop_def using arg_cong [OF snoop_index.mset_insert, of size] by simp
  then have "sb_inv ?b" using inv snoop_index.insert_sorted [OF inv(1), of e] by (simp add: sb_inv_def insert_snoop_def)
  moreover have "snoop_abs ?b = (\<lambda>a s. if a = theAddress m \<and> s = st then fst (snoop_abs b) a s @ [t] else fst (snoop_abs b) a s, snd (snoop_abs b))"
    using e by (auto simp: snoop_abs_def fun_eq_iff filter_insert_snoop [OF inv(1)] has_key_def)
  ultimately show ?thesis using e(1) assms(2) by (simp add: add_snoop_def)
qed

lemma remove_first:
  assumes "filter P xs = y # ys"
  shows "let i = length (takeWhile (\<lambda>x. \<not> P x) xs) in i < length xs \<and>
    filter P (take i xs @ drop (i + 1) xs) = ys \<and> (\<forall>Q. (\<forall>x. P x \<longrightarrow> \<not> Q x) \<longrightarrow> filter Q (take i xs @ drop (i + 1) xs) = filter Q xs)"
proof -
  obtain us vs where xs: "xs = us @ y # vs" "\<forall>u \<in> set us. \<not> P u" "P y" "ys = filter P vs" using assms by (auto simp: filter_eq_Cons_iff)
  then have "takeWhile (\<lambda>x. \<not> P x) xs = us" by (simp add: takeWhile_append)
  then show ?thesis using xs by (auto simp: Let_def filter_empty_conv)
qed

lemma done_ok:
  assumes "sb_inv b" "fst (snoop_abs b) x kSnoopOutstanding = t # ts"
  shows "\<exists>b'. sb_remove (length (takeWhile (\<lambda>e. \<not> has_key x kSnoopOutstanding e) (theSnoops b))) b = Inr b' \<and> sb_inv b' \<and> sb_Size b' = sb_Size b \<and>
    snoop_abs b' = (\<lambda>a s. if a = x \<and> s = kSnoopOutstanding then ts else fst (snoop_abs b) a s, snd (snoop_abs b))"
proof -
  let ?es = "theSnoops b" and ?P = "has_key x kSnoopOutstanding"
  let ?i = "length (takeWhile (\<lambda>e. \<not> ?P e) ?es)"
  let ?r = "take ?i ?es @ drop (?i + 1) ?es"
  let ?b = "b\<lparr>theSnoops := ?r, sb_CurSize := sb_CurSize b - 1\<rparr>"
  obtain y ys where y: "filter ?P ?es = y # ys" "ts = map sn_transport ys" using assms(2) by (auto simp: snoop_abs_def)
  have i: "?i < length ?es" and same: "filter ?P ?r = ys" and other: "(\<forall>x. ?P x \<longrightarrow> \<not> Q x) \<Longrightarrow> filter Q ?r = filter Q ?es" for Q
    using remove_first [OF y(1)] by (simp_all add: Let_def)
  have "?es = take ?i ?es @ ?es ! ?i # drop (?i + 1) ?es" using id_take_nth_drop [OF i] by simp
  then have "sorted_wrt snoop_le (take ?i ?es @ ?es ! ?i # drop (?i + 1) ?es)" using assms(1) by (simp add: sb_inv_def)
  then have "sorted_wrt snoop_le ?r" by (simp add: sorted_wrt_append)
  then have "sb_inv ?b" using assms(1) i by (simp add: sb_inv_def)
  moreover have "snoop_abs ?b = (\<lambda>a s. if a = x \<and> s = kSnoopOutstanding then ts else fst (snoop_abs b) a s, snd (snoop_abs b))"
  proof -
    have "filter (has_key a s) ?r = (if a = x \<and> s = kSnoopOutstanding then ys else filter (has_key a s) ?es)" for a s
      using same other [of "has_key a s"] by (auto simp: has_key_def)
    then show ?thesis using y(2) by (simp add: snoop_abs_def fun_eq_iff)
  qed
  ultimately show ?thesis using i by (intro exI [of _ ?b]) (simp add: sb_remove_def)
qed

text \<open>
  C25: The snoop buffer keeps the snoops of every block in the order they came: while there is room
  a snoop is queued behind the waiting ones for its block, a finished snoop wakes all waiting
  ones for its block in this order behind those woken before, and they are taken out in this
  order. What the queues do not allow fails.
\<close>

theorem snoop_buffer_refines:
  assumes "sb_inv b" "sb_CurSize b < sb_Size b"
  shows "case snoop_spec_step op (snoop_abs b) of
      Some (out, q) \<Rightarrow> \<exists>b'. snoop_step op b = Inr (out, b') \<and> snoop_abs b' = q \<and> sb_inv b'
    | None \<Rightarrow> \<exists>err. snoop_step op b = Inl err"
proof (cases op)
  case (SAlloc t)
  show ?thesis
  proof (cases "tr_Message t")
    case None
    then show ?thesis using SAlloc assms(2) by (cases "snoop_abs b") (simp add: sb_allocEntry_def add_snoop_def SnoopEntry_new_def)
  next
    case (Some m)
    then show ?thesis using add_snoop_ok [OF assms Some, of kSnoopOutstanding] SAlloc by (cases "snoop_abs b") (auto simp: sb_allocEntry_def cong: if_cong)
  qed
next
  case (SWait t)
  show ?thesis
  proof (cases "tr_Message t")
    case None
    then show ?thesis using SWait assms(2) by (cases "snoop_abs b") (simp add: addWaitingEntry_def add_snoop_def SnoopEntry_new_def)
  next
    case (Some m)
    then show ?thesis using add_snoop_ok [OF assms Some, of kSnoopWaiting] SWait by (cases "snoop_abs b") (auto simp: addWaitingEntry_def cong: if_cong)
  qed
next
  case (SWake x)
  let ?b = "snd (wakeWaitingEntries x b)"
  have n: "length (filter (has_key x kSnoopWaiting) es) + length (filter (\<lambda>e. \<not> has_key x kSnoopWaiting e) es) = length es" for es
    by (rule sum_length_filter_compl)
  have "sb_inv ?b" using assms(1) n [of "theSnoops b"]
    by (simp add: wakeWaitingEntries_def Let_def sb_inv_def getWaitingEntries_def sorted_wrt_filter)
  moreover have "filter (has_key a s) (filter (\<lambda>e. \<not> has_key x kSnoopWaiting e) es) = (if a = x \<and> s = kSnoopWaiting then [] else filter (has_key a s) es)" for a s es
    by (auto simp: has_key_def filter_empty_conv intro!: filter_cong)
  then have "snoop_abs ?b = (\<lambda>a s. if a = x \<and> s = kSnoopWaiting then [] else fst (snoop_abs b) a s, snd (snoop_abs b) @ fst (snoop_abs b) x kSnoopWaiting)"
    by (auto simp: wakeWaitingEntries_def Let_def snoop_abs_def fun_eq_iff getWaitingEntries_def filter_empty_conv)
  ultimately show ?thesis using SWake by (cases "snoop_abs b") (simp cong: if_cong)
next
  case SPop
  then show ?thesis using assms(1) by (cases "theWakeList b") (auto simp: snoop_abs_def wakeSnoop_def sb_inv_def)
next
  case (SDone x)
  show ?thesis
  proof (cases "fst (snoop_abs b) x kSnoopOutstanding")
    case Nil
    then have "\<forall>e \<in> set (theSnoops b). \<not> has_key x kSnoopOutstanding e" by (simp add: snoop_abs_def filter_empty_conv)
    then have w: "takeWhile (\<lambda>e. \<not> has_key x kSnoopOutstanding e) (theSnoops b) = theSnoops b" by (simp add: takeWhile_eq_all_conv)
    have "snoop_step op b = Inl OutOfRange" unfolding SDone snoop_step.simps w by (simp add: sb_remove_def)
    then show ?thesis using SDone Nil by (cases "snoop_abs b") simp
  next
    case (Cons t ts)
    then show ?thesis using done_ok [OF assms(1) Cons] SDone by (cases "snoop_abs b") (auto cong: if_cong)
  qed
qed

theorem snoop_buffer_refines_witness:
  "\<exists>b'. snoop_step (SWait \<lparr>tr_Message = Some (fst (MemoryMessage_new Invalidate 64 0 0 0)), tr_Requester = None\<rparr>) (sb_new 2) = Inr (None, b') \<and>
    fst (snoop_abs b') 64 kSnoopWaiting = [\<lparr>tr_Message = Some (fst (MemoryMessage_new Invalidate 64 0 0 0)), tr_Requester = None\<rparr>] \<and> sb_inv b'"
proof -
  let ?t = "\<lparr>tr_Message = Some (fst (MemoryMessage_new Invalidate 64 0 0 0)), tr_Requester = None\<rparr>"
  have h: "sb_inv (sb_new 2)" "sb_CurSize (sb_new 2) < sb_Size (sb_new 2)" "snoop_abs (sb_new 2) = (\<lambda>a s. [], [])"
    by (simp_all add: sb_new_def sb_inv_def snoop_abs_def)
  show ?thesis using snoop_buffer_refines [OF h(1,2), of "SWait ?t"] unfolding h(3) by (auto simp: MemoryMessage_new_fields)
qed

end
