(* ===== verification/Timing_Array.thy ===== *)
theory Timing_Array
  imports Fast_Array
begin

unbundle bit_operations_syntax

text \<open>
  The block states and the set associative array of the shared timing cache
  (\<open>components/CMPCache/CacheState.hpp\<close>, \<open>CacheState.cpp\<close> and \<open>StdArray.hpp\<close>). A state is the byte
  of the code, four bits of state and three flags. A set is a record of its blocks and of the
  order or the bits of its replacement policy; a pointer to a block is its way, and a lookup
  result names its set. The state that stands for an invalid block is a parameter of the
  template, and the argument \<open>d\<close> here.
\<close>

section \<open>Block states\<close>

type_synonym cstate = "8 word"

definition STATE_MASK :: cstate where "STATE_MASK = 0x0F"
definition PREFETCH_MASK :: cstate where "PREFETCH_MASK = 0x10"
definition PROTECT_MASK :: cstate where "PROTECT_MASK = 0x20"
definition LOCKED_MASK :: cstate where "LOCKED_MASK = 0x40"

definition cs_Modified :: cstate where "cs_Modified = 0"
definition cs_Owned :: cstate where "cs_Owned = 1"
definition cs_Exclusive :: cstate where "cs_Exclusive = 2"
definition cs_Shared :: cstate where "cs_Shared = 3"
definition cs_Invalid :: cstate where "cs_Invalid = 4"
definition cs_InvalidPresent :: cstate where "cs_InvalidPresent = 5"
definition cs_Forward :: cstate where "cs_Forward = 6"

definition cs_eq :: "cstate \<Rightarrow> cstate \<Rightarrow> bool" where
  "cs_eq v a \<longleftrightarrow> (a XOR v) AND STATE_MASK = 0"

text \<open>The assignment of states keeps the flags of the left hand side.\<close>

definition cs_assign :: "cstate \<Rightarrow> cstate \<Rightarrow> cstate" where
  "cs_assign v a = (v AND NOT STATE_MASK) OR (a AND STATE_MASK)"

definition cs_prefetched :: "cstate \<Rightarrow> bool" where
  "cs_prefetched v \<longleftrightarrow> v AND PREFETCH_MASK \<noteq> 0"

definition cs_isProtected :: "cstate \<Rightarrow> bool" where
  "cs_isProtected v \<longleftrightarrow> v AND PROTECT_MASK \<noteq> 0"

definition cs_isLocked :: "cstate \<Rightarrow> bool" where
  "cs_isLocked v \<longleftrightarrow> v AND LOCKED_MASK \<noteq> 0"

definition cs_isValid :: "cstate \<Rightarrow> bool" where
  "cs_isValid v \<longleftrightarrow> \<not> cs_eq v cs_Invalid \<and> \<not> cs_eq v cs_InvalidPresent"

definition cs_setPrefetched :: "bool \<Rightarrow> cstate \<Rightarrow> cstate" where
  "cs_setPrefetched p v = (if p then v OR PREFETCH_MASK else v AND NOT PREFETCH_MASK)"

definition cs_setProtected :: "bool \<Rightarrow> cstate \<Rightarrow> cstate" where
  "cs_setProtected p v = (if p then v OR PROTECT_MASK else v AND NOT PROTECT_MASK)"

definition cs_setLocked :: "bool \<Rightarrow> cstate \<Rightarrow> cstate" where
  "cs_setLocked p v = (if p then v OR LOCKED_MASK else v AND NOT LOCKED_MASK)"

definition char2State :: "char \<Rightarrow> cstate result" where
  "char2State c =
     (if c = CHR ''M'' then Inr cs_Modified else if c = CHR ''O'' then Inr cs_Owned
      else if c = CHR ''E'' then Inr cs_Exclusive else if c = CHR ''S'' then Inr cs_Shared
      else if c = CHR ''I'' then Inr cs_Invalid else if c = CHR ''P'' then Inr cs_InvalidPresent
      else if c = CHR ''F'' then Inr cs_Forward else Inl AssertFailed)"

section \<open>Sets\<close>

record TABlock =
  tb_tag :: u64
  tb_state :: cstate

definition tb_valid :: "cstate \<Rightarrow> TABlock \<Rightarrow> bool" where
  "tb_valid d b \<longleftrightarrow> \<not> cs_eq (tb_state b) d"

datatype ta_policy = MRUOrder "nat list" | MRUBits "bool list"

record TASet =
  ts_blocks :: "TABlock list"
  ts_policy :: ta_policy

definition SetLRU_new :: "cstate \<Rightarrow> nat \<Rightarrow> TASet" where
  "SetLRU_new d aAssociativity = \<lparr>ts_blocks = replicate aAssociativity \<lparr>tb_tag = 0, tb_state = d\<rparr>, ts_policy = MRUOrder [0..<aAssociativity]\<rparr>"

definition SetPseudoLRU_new :: "cstate \<Rightarrow> nat \<Rightarrow> TASet" where
  "SetPseudoLRU_new d anAssociativity =
     \<lparr>ts_blocks = replicate anAssociativity \<lparr>tb_tag = 0, tb_state = d\<rparr>, ts_policy = MRUBits (replicate anAssociativity True)\<rparr>"

record TALookup =
  tl_set :: nat
  tl_block :: "nat option"
  tl_address :: u64
  tl_isHit :: bool
  tl_origState :: cstate

text \<open>The constructor of a result asserts that its block has the address.\<close>

definition TALookup_new :: "cstate \<Rightarrow> nat \<Rightarrow> TASet \<Rightarrow> nat option \<Rightarrow> u64 \<Rightarrow> bool \<Rightarrow> TALookup result" where
  "TALookup_new d n s blk a hit = (case blk of
       None \<Rightarrow> Inr \<lparr>tl_set = n, tl_block = None, tl_address = a, tl_isHit = hit, tl_origState = d\<rparr>
     | Some i \<Rightarrow> rbind (lookup_vec (ts_blocks s) i) (\<lambda>b. dbg_assert (tb_tag b = a)
         (Inr \<lparr>tl_set = n, tl_block = Some i, tl_address = a, tl_isHit = hit, tl_origState = (if hit then tb_state b else d)\<rparr>)))"

text \<open>The search stops at a valid block with the tag and remembers the last invalid one.\<close>

fun find_block :: "cstate \<Rightarrow> u64 \<Rightarrow> nat \<Rightarrow> nat option \<Rightarrow> TABlock list \<Rightarrow> nat option \<times> bool" where
  "find_block d a i t [] = (t, False)"
| "find_block d a i t (b # bs) =
     (if tb_tag b = a then if tb_valid d b then (Some i, True) else find_block d a (i + 1) (Some i) bs
      else find_block d a (i + 1) t bs)"

definition lookupBlock :: "cstate \<Rightarrow> nat \<Rightarrow> u64 \<Rightarrow> TASet \<Rightarrow> TALookup result" where
  "lookupBlock d n anAddress s = (let (blk, hit) = find_block d anAddress 0 None (ts_blocks s) in TALookup_new d n s blk anAddress hit)"

definition moveToHead :: "nat \<Rightarrow> nat list \<Rightarrow> nat list result" where
  "moveToHead w xs = (if w \<in> set xs then Inr (w # takeWhile (\<lambda>x. x \<noteq> w) xs @ tl (dropWhile (\<lambda>x. x \<noteq> w) xs)) else Inl OutOfRange)"

definition moveToTail :: "nat \<Rightarrow> nat list \<Rightarrow> nat list result" where
  "moveToTail w xs = (if w \<in> set xs then Inr (takeWhile (\<lambda>x. x \<noteq> w) xs @ tl (dropWhile (\<lambda>x. x \<noteq> w) xs) @ [w]) else Inl OutOfRange)"

definition set_recordAccess :: "nat \<Rightarrow> TASet \<Rightarrow> (bool \<times> TASet) result" where
  "set_recordAccess w s = (case ts_policy s of
       MRUOrder xs \<Rightarrow> rbind (lookup_vec xs 0) (\<lambda>h. if h = w then Inr (False, s)
         else rbind (moveToHead w xs) (\<lambda>xs. Inr (True, s\<lparr>ts_policy := MRUOrder xs\<rparr>)))
     | MRUBits bs \<Rightarrow> rbind (lookup_vec bs w) (\<lambda>b. if \<not> b then Inr (False, s)
         else let bs = bs[w := False] in
           Inr (True, s\<lparr>ts_policy := MRUBits (if list_all Not bs then (map Not bs)[w := False] else bs)\<rparr>)))"

definition set_invalidateBlock :: "nat \<Rightarrow> TASet \<Rightarrow> TASet result" where
  "set_invalidateBlock w s = (case ts_policy s of
       MRUOrder xs \<Rightarrow> rbind (moveToTail w xs) (\<lambda>xs. Inr (s\<lparr>ts_policy := MRUOrder xs\<rparr>))
     | MRUBits bs \<Rightarrow> if w < length bs then Inr (s\<lparr>ts_policy := MRUBits (bs[w := True])\<rparr>) else Inl OutOfRange)"

text \<open>The loops over the ways from the least recently used one; at their end an assertion fails.\<close>

fun first_way :: "(cstate \<Rightarrow> bool) \<Rightarrow> nat list \<Rightarrow> TABlock list \<Rightarrow> nat option result" where
  "first_way P [] bs = Inr None"
| "first_way P (w # ws) bs = rbind (lookup_vec bs w) (\<lambda>b. if P (tb_state b) then Inr (Some w) else first_way P ws bs)"

definition evictable_state :: "cstate \<Rightarrow> bool" where
  "evictable_state v \<longleftrightarrow> \<not> cs_isProtected v \<and> \<not> cs_isLocked v"

definition locked_victim_state :: "cstate \<Rightarrow> bool" where
  "locked_victim_state v \<longleftrightarrow> \<not> cs_isProtected v \<and> cs_isLocked v"

definition pick_way :: "(cstate \<Rightarrow> bool) \<Rightarrow> TASet \<Rightarrow> nat result" where
  "pick_way P s = (case ts_policy s of
       MRUOrder xs \<Rightarrow> rbind (first_way P (rev xs) (ts_blocks s)) (\<lambda>w. case w of None \<Rightarrow> Inl AssertFailed | Some w \<Rightarrow> Inr w)
     | MRUBits bs \<Rightarrow> Inl AssertFailed)"

definition pickVictim :: "TASet \<Rightarrow> nat result" where
  "pickVictim s = pick_way evictable_state s"

definition pickLockedVictim :: "TASet \<Rightarrow> nat result" where
  "pickLockedVictim s = pick_way locked_victim_state s"

definition set_victimAvailable :: "TASet \<Rightarrow> bool result" where
  "set_victimAvailable s = (case ts_policy s of
       MRUOrder xs \<Rightarrow> rbind (first_way evictable_state (rev xs) (ts_blocks s)) (\<lambda>w. Inr (w \<noteq> None))
     | MRUBits bs \<Rightarrow> Inl AssertFailed)"

definition replace_block :: "cstate \<Rightarrow> nat \<Rightarrow> u64 \<Rightarrow> TASet \<Rightarrow> TASet" where
  "replace_block d w anAddress s = s\<lparr>ts_blocks := (ts_blocks s)[w := \<lparr>tb_tag = anAddress, tb_state = cs_assign (tb_state (ts_blocks s ! w)) d\<rparr>]\<rparr>"

text \<open>Allocation gives the result for the victim, the changed result for the block, and the set.\<close>

definition set_allocate :: "cstate \<Rightarrow> TALookup \<Rightarrow> u64 \<Rightarrow> TASet \<Rightarrow> (TALookup \<times> TALookup \<times> TASet) result" where
  "set_allocate d lookup anAddress s = (case tl_block lookup of
       Some w \<Rightarrow> rbind (lookup_vec (ts_blocks s) w) (\<lambda>b. dbg_assert (tb_tag b = anAddress)
         (rbind (set_recordAccess w s) (\<lambda>(_, s).
          rbind (TALookup_new d (tl_set lookup) s None anAddress False) (\<lambda>v. Inr (v, lookup\<lparr>tl_isHit := True\<rparr>, s)))))
     | None \<Rightarrow> rbind (pickVictim s) (\<lambda>w.
         rbind (lookup_vec (ts_blocks s) w) (\<lambda>b.
         rbind (TALookup_new d (tl_set lookup) s (Some w) (tb_tag b) True) (\<lambda>v.
         rbind (set_recordAccess w (replace_block d w anAddress s)) (\<lambda>(_, s).
           Inr (v\<lparr>tl_isHit := False\<rparr>, lookup\<lparr>tl_isHit := True, tl_origState := cs_assign (tl_origState lookup) d, tl_block := Some w\<rparr>, s))))))"

text \<open>An unlocked block with the address gets the address of the locked victim.\<close>

definition take_locked :: "cstate \<Rightarrow> TALookup \<Rightarrow> u64 \<Rightarrow> TASet \<Rightarrow> (TALookup \<times> TALookup \<times> TASet) result" where
  "take_locked d lookup anAddress s =
     rbind (pickLockedVictim s) (\<lambda>w.
     rbind (lookup_vec (ts_blocks s) w) (\<lambda>b.
     rbind (TALookup_new d (tl_set lookup) s (Some w) (tb_tag b) True) (\<lambda>v.
     let s = (case tl_block lookup of None \<Rightarrow> s
                | Some u \<Rightarrow> s\<lparr>ts_blocks := (ts_blocks s)[u := (ts_blocks s ! u)\<lparr>tb_tag := tb_tag b\<rparr>]\<rparr>) in
     rbind (set_recordAccess w (replace_block d w anAddress s)) (\<lambda>(_, s).
       Inr (v\<lparr>tl_isHit := False\<rparr>, lookup\<lparr>tl_isHit := True, tl_origState := cs_assign (tl_origState lookup) d, tl_block := Some w\<rparr>, s)))))"

definition set_replaceLocked :: "cstate \<Rightarrow> TALookup \<Rightarrow> u64 \<Rightarrow> TASet \<Rightarrow> (TALookup \<times> TALookup \<times> TASet) result" where
  "set_replaceLocked d lookup anAddress s = (case tl_block lookup of
       None \<Rightarrow> take_locked d lookup anAddress s
     | Some w \<Rightarrow> rbind (lookup_vec (ts_blocks s) w) (\<lambda>b.
         if cs_isLocked (tb_state b) then dbg_assert (tb_tag b = anAddress)
           (rbind (set_recordAccess w s) (\<lambda>(_, s).
            rbind (TALookup_new d (tl_set lookup) s None anAddress False) (\<lambda>v. Inr (v, lookup\<lparr>tl_isHit := True\<rparr>, s))))
         else take_locked d lookup anAddress s))"

definition count_tag :: "u64 \<Rightarrow> TASet \<Rightarrow> nat" where
  "count_tag aTag s = length (filter (\<lambda>b. tb_tag b = aTag) (ts_blocks s))"

definition getTags :: "TASet \<Rightarrow> u64 list" where
  "getTags s = map tb_tag (filter (\<lambda>b. cs_isValid (tb_state b)) (ts_blocks s))"

fun almost_full_loop :: "int \<Rightarrow> int \<Rightarrow> int \<Rightarrow> int \<Rightarrow> TABlock list \<Rightarrow> bool" where
  "almost_full_loop max_locked thresh locked unlocked [] = False"
| "almost_full_loop max_locked thresh locked unlocked (b # bs) =
     (if cs_isLocked (tb_state b) then if locked + 1 \<ge> max_locked then True else almost_full_loop max_locked thresh (locked + 1) unlocked bs
      else if unlocked + 1 > thresh then False else almost_full_loop max_locked thresh locked (unlocked + 1) bs)"

definition almostFull :: "int \<Rightarrow> TASet \<Rightarrow> bool" where
  "almostFull max_locked s = almost_full_loop max_locked (int (length (ts_blocks s)) - max_locked) 0 0 (ts_blocks s)"

definition set_lockedVictimAvailable :: "TASet \<Rightarrow> bool" where
  "set_lockedVictimAvailable s = list_ex (\<lambda>b. cs_isLocked (tb_state b) \<and> \<not> cs_isProtected (tb_state b)) (ts_blocks s)"

text \<open>What a lookup result says and does to its block.\<close>

definition tl_state :: "TALookup \<Rightarrow> TASet \<Rightarrow> cstate result" where
  "tl_state l s = (if tl_isHit l then (case tl_block l of None \<Rightarrow> Inl OutOfRange | Some w \<Rightarrow> rbind (lookup_vec (ts_blocks s) w) (\<lambda>b. Inr (tb_state b)))
     else Inr (tl_origState l))"

definition tl_modify :: "(cstate \<Rightarrow> cstate) \<Rightarrow> TALookup \<Rightarrow> TASet \<Rightarrow> TASet result" where
  "tl_modify g l s = (case tl_block l of None \<Rightarrow> Inl OutOfRange
     | Some w \<Rightarrow> rbind (lookup_vec (ts_blocks s) w) (\<lambda>b. Inr (s\<lparr>ts_blocks := (ts_blocks s)[w := b\<lparr>tb_state := g (tb_state b)\<rparr>]\<rparr>)))"

definition tl_setState :: "cstate \<Rightarrow> TALookup \<Rightarrow> TASet \<Rightarrow> (bool \<times> TASet) result" where
  "tl_setState aNewState l s = (case tl_block l of None \<Rightarrow> Inl OutOfRange
     | Some w \<Rightarrow> rbind (lookup_vec (ts_blocks s) w) (\<lambda>b.
         if \<not> cs_eq (tb_state b) aNewState then rbind (tl_modify (\<lambda>v. cs_assign v aNewState) l s) (\<lambda>s. Inr (True, s)) else Inr (False, s)))"

definition tl_isProtected :: "TALookup \<Rightarrow> TASet \<Rightarrow> bool result" where
  "tl_isProtected l s = (if tl_isHit l then rbind (tl_state l s) (\<lambda>v. Inr (cs_isProtected v)) else Inr False)"

definition tl_setProtected :: "bool \<Rightarrow> TALookup \<Rightarrow> TASet \<Rightarrow> TASet result" where
  "tl_setProtected val l s = tl_modify (cs_setProtected val) l s"

definition tl_setPrefetched :: "bool \<Rightarrow> TALookup \<Rightarrow> TASet \<Rightarrow> TASet result" where
  "tl_setPrefetched val l s = tl_modify (cs_setPrefetched val) l s"

definition tl_setLocked :: "bool \<Rightarrow> TALookup \<Rightarrow> TASet \<Rightarrow> TASet result" where
  "tl_setLocked val l s = tl_modify (cs_setLocked val) l s"

text \<open>A set is loaded from its last way to its first; the pseudo LRU sets are not loaded.\<close>

fun load_ways :: "nat \<Rightarrow> BlockSerializer list \<Rightarrow> TABlock list \<Rightarrow> (BlockSerializer list \<times> TABlock list) result" where
  "load_ways 0 ia bs = Inr (ia, bs)"
| "load_ways (Suc i) [] bs = Inl Thrown"
| "load_ways (Suc i) (x # ia) bs = rbind (char2State (bs_state x)) (\<lambda>st. rbind (lookup_vec bs i) (\<lambda>b.
     load_ways i ia (bs[i := \<lparr>tb_tag = bs_tag x, tb_state = cs_assign (tb_state b) st\<rparr>])))"

definition set_loadState :: "BlockSerializer list \<Rightarrow> TASet \<Rightarrow> (BlockSerializer list \<times> TASet) result" where
  "set_loadState ia s = (case ts_policy s of
       MRUOrder xs \<Rightarrow> rbind (load_ways (length (ts_blocks s)) ia (ts_blocks s)) (\<lambda>(ia, bs).
         Inr (ia, s\<lparr>ts_blocks := bs, ts_policy := MRUOrder [0..<length (ts_blocks s)]\<rparr>))
     | MRUBits bits \<Rightarrow> Inr (ia, s))"

section \<open>The array\<close>

datatype ReplacementPolicy = REPLACEMENT_LRU | REPLACEMENT_PLRU

record TAArray =
  ta_Associativity :: nat
  ta_BlockSize :: nat
  ta_Banks :: nat
  ta_TotalBanks :: nat
  ta_LocalBankIndex :: nat
  ta_Groups :: nat
  ta_GroupIndex :: nat
  ta_NumSets :: nat
  ta_tagMask :: u64
  ta_setLowShift :: nat
  ta_setMidShift :: nat
  ta_setHighShift :: nat
  ta_setLowMask :: u64
  ta_setMidMask :: u64
  ta_setHighMask :: u64
  ta_bankMask :: u64
  ta_bankShift :: nat
  ta_groupMask :: u64
  ta_groupShift :: nat
  ta_LockedThreshold :: int
  ta_Sets :: "TASet list"

text \<open>
  A left shift of an \<open>int\<close>. C++ defines it for counts within the 32 bits and results that fit; what
  the machine gives for any other operands is the argument \<open>ub\<close>, on which nothing is assumed.
\<close>

definition int_shl :: "(int \<Rightarrow> int \<Rightarrow> int) \<Rightarrow> int \<Rightarrow> int \<Rightarrow> int" where
  "int_shl ub x n = (if 0 \<le> x \<and> 0 \<le> n \<and> n < 32 \<and> push_bit (nat n) x < 2 ^ 31 then push_bit (nat n) x else ub x n)"

text \<open>The masks of the three parts of a set index.\<close>

definition set_masks :: "(int \<Rightarrow> int \<Rightarrow> int) \<Rightarrow> int \<Rightarrow> int \<Rightarrow> int \<Rightarrow> u64 \<times> u64 \<times> u64" where
  "set_masks ub lowBits midBits highBits =
     (word_of_int (int_shl ub 1 lowBits - 1), word_of_int (int_shl ub (int_shl ub 1 midBits - 1) lowBits),
      word_of_int (int_shl ub (int_shl ub 1 highBits - 1) (midBits + lowBits)))"

text \<open>
  The number of sets and ways and the policy come from the configuration string; the threshold
  for locked blocks has an unknown value \<open>threshold\<close> until it is set.
\<close>

definition ta_init :: "(int \<Rightarrow> int \<Rightarrow> int) \<Rightarrow> cstate \<Rightarrow> nat \<Rightarrow> nat \<Rightarrow> nat \<Rightarrow> nat \<Rightarrow> nat \<Rightarrow> nat \<Rightarrow> nat \<Rightarrow> nat \<Rightarrow> ReplacementPolicy \<Rightarrow> int \<Rightarrow> TAArray result" where
  "ta_init ub d blockSize banks bankInterleaving groups groupInterleaving nodeId numSets assoc policy threshold =
     (if banks = 0 then Inl DivTrap else
      dbg_assert (numSets > 0) (dbg_assert (assoc > 0) (dbg_assert (blockSize > 0)
      (dbg_assert (power_of_two numSets) (dbg_assert (power_of_two blockSize) (dbg_assert (power_of_two bankInterleaving) (dbg_assert (power_of_two groupInterleaving)
      (dbg_assert (bankInterleaving * banks \<le> groupInterleaving)
      (let blockOffsetBits = int (log_base2 blockSize); indexBits = int (log_base2 numSets); bankBits = int (log_base2 banks);
           bankInterleavingBits = int (log_base2 bankInterleaving); groupBits = int (log_base2 groups);
           groupInterleavingBits = int (log_base2 groupInterleaving);
           lowBits = bankInterleavingBits - blockOffsetBits;
           midBits0 = groupInterleavingBits - bankInterleavingBits - bankBits;
           over = midBits0 + lowBits > indexBits;
           midBits = (if over then indexBits - lowBits else midBits0);
           highBits = (if over then 0 else indexBits - midBits0 - lowBits);
           (low, mid, high) = set_masks ub lowBits midBits highBits in
       Inr \<lparr>ta_Associativity = assoc, ta_BlockSize = blockSize, ta_Banks = banks, ta_TotalBanks = banks * groups,
         ta_LocalBankIndex = nodeId mod banks, ta_Groups = groups, ta_GroupIndex = nodeId div banks, ta_NumSets = numSets,
         ta_tagMask = NOT (of_nat (blockSize - 1)),
         ta_setLowShift = nat blockOffsetBits, ta_setMidShift = nat (bankBits + blockOffsetBits), ta_setHighShift = nat (groupBits + bankBits + blockOffsetBits),
         ta_setLowMask = low, ta_setMidMask = mid, ta_setHighMask = high,
         ta_bankMask = of_nat banks - 1, ta_bankShift = nat bankInterleavingBits,
         ta_groupMask = of_nat groups - 1, ta_groupShift = nat groupInterleavingBits, ta_LockedThreshold = threshold,
         ta_Sets = replicate numSets (case policy of REPLACEMENT_LRU \<Rightarrow> SetLRU_new d assoc | REPLACEMENT_PLRU \<Rightarrow> SetPseudoLRU_new d assoc)\<rparr>)))))))))"

definition ta_blockAddress :: "TAArray \<Rightarrow> u64 \<Rightarrow> u64" where
  "ta_blockAddress t anAddress = anAddress AND ta_tagMask t"

text \<open>Indices and numbers of banks and groups are narrowed to 32 bit integers.\<close>

definition to_int32 :: "u64 \<Rightarrow> int" where
  "to_int32 v = sint (ucast v :: 32 word)"

definition makeSet :: "TAArray \<Rightarrow> u64 \<Rightarrow> int" where
  "makeSet t anAddress = to_int32 ((drop_bit (ta_setLowShift t) anAddress AND ta_setLowMask t) OR
     (drop_bit (ta_setMidShift t) anAddress AND ta_setMidMask t) OR (drop_bit (ta_setHighShift t) anAddress AND ta_setHighMask t))"

definition getBank :: "TAArray \<Rightarrow> u64 \<Rightarrow> int" where
  "getBank t anAddress = to_int32 (drop_bit (ta_bankShift t) anAddress AND ta_bankMask t)"

definition getGroup :: "TAArray \<Rightarrow> u64 \<Rightarrow> int" where
  "getGroup t anAddress = to_int32 (drop_bit (ta_groupShift t) anAddress AND ta_groupMask t)"

definition sameSet :: "TAArray \<Rightarrow> u64 \<Rightarrow> u64 \<Rightarrow> bool" where
  "sameSet t a b \<longleftrightarrow> makeSet t a = makeSet t b"

definition set_at :: "TAArray \<Rightarrow> u64 \<Rightarrow> TASet result" where
  "set_at t anAddress = (if makeSet t anAddress < 0 then Inl OutOfRange else lookup_vec (ta_Sets t) (nat (makeSet t anAddress)))"

definition ta_lookup :: "cstate \<Rightarrow> u64 \<Rightarrow> TAArray \<Rightarrow> TALookup result" where
  "ta_lookup d anAddress t = rbind (set_at t anAddress) (lookupBlock d (nat (makeSet t anAddress)) (ta_blockAddress t anAddress))"

definition ta_allocate :: "cstate \<Rightarrow> TALookup \<Rightarrow> u64 \<Rightarrow> TAArray \<Rightarrow> (TALookup \<times> TALookup \<times> TAArray) result" where
  "ta_allocate d lookup anAddress t = rbind (lookup_vec (ta_Sets t) (tl_set lookup)) (\<lambda>s.
     rbind (set_allocate d lookup (ta_blockAddress t anAddress) s) (\<lambda>(v, l, s). Inr (v, l, t\<lparr>ta_Sets := (ta_Sets t)[tl_set lookup := s]\<rparr>)))"

definition ta_recordAccess :: "TALookup \<Rightarrow> TAArray \<Rightarrow> (bool \<times> TAArray) result" where
  "ta_recordAccess lookup t = (case tl_block lookup of None \<Rightarrow> Inl AssertFailed
     | Some w \<Rightarrow> rbind (lookup_vec (ta_Sets t) (tl_set lookup)) (\<lambda>s.
         rbind (set_recordAccess w s) (\<lambda>(r, s). Inr (r, t\<lparr>ta_Sets := (ta_Sets t)[tl_set lookup := s]\<rparr>))))"

definition ta_invalidateBlock :: "TALookup \<Rightarrow> TAArray \<Rightarrow> TAArray result" where
  "ta_invalidateBlock lookup t = (case tl_block lookup of None \<Rightarrow> Inl AssertFailed
     | Some w \<Rightarrow> rbind (lookup_vec (ta_Sets t) (tl_set lookup)) (\<lambda>s.
         rbind (set_invalidateBlock w s) (\<lambda>s. Inr (t\<lparr>ta_Sets := (ta_Sets t)[tl_set lookup := s]\<rparr>))))"

definition ta_replaceLockedBlock :: "cstate \<Rightarrow> TALookup \<Rightarrow> u64 \<Rightarrow> TAArray \<Rightarrow> (TALookup \<times> TALookup \<times> TAArray) result" where
  "ta_replaceLockedBlock d lookup anAddress t = rbind (lookup_vec (ta_Sets t) (tl_set lookup)) (\<lambda>s.
     rbind (set_replaceLocked d lookup (ta_blockAddress t anAddress) s) (\<lambda>(v, l, s). Inr (v, l, t\<lparr>ta_Sets := (ta_Sets t)[tl_set lookup := s]\<rparr>)))"

definition ta_getSetTags :: "u64 \<Rightarrow> TAArray \<Rightarrow> u64 list result" where
  "ta_getSetTags addr t = rbind (set_at t addr) (\<lambda>s. Inr (getTags s))"

definition setAlmostFull :: "u64 \<Rightarrow> TAArray \<Rightarrow> bool result" where
  "setAlmostFull anAddress t = rbind (set_at t anAddress) (\<lambda>s. Inr (almostFull (ta_LockedThreshold t) s))"

definition ta_lockedVictimAvailable :: "u64 \<Rightarrow> TAArray \<Rightarrow> bool result" where
  "ta_lockedVictimAvailable anAddress t = rbind (set_at t anAddress) (\<lambda>s. Inr (set_lockedVictimAvailable s))"

definition ta_victimAvailable :: "u64 \<Rightarrow> TAArray \<Rightarrow> bool result" where
  "ta_victimAvailable anAddress t = rbind (set_at t anAddress) set_victimAvailable"

definition setLockedThreshold :: "int \<Rightarrow> TAArray \<Rightarrow> TAArray result" where
  "setLockedThreshold threshold t = dbg_assert (threshold > 0 \<and> threshold < int (ta_Associativity t)) (Inr (t\<lparr>ta_LockedThreshold := threshold\<rparr>))"

definition globalCacheSets :: "TAArray \<Rightarrow> nat" where
  "globalCacheSets t = ta_NumSets t * ta_TotalBanks t"

fun load_global :: "nat \<Rightarrow> u64 \<Rightarrow> nat \<Rightarrow> BlockSerializer list \<Rightarrow> TAArray \<Rightarrow> TAArray result" where
  "load_global 0 addr local ia t = Inr t"
| "load_global (Suc n) addr local ia t =
     (if getBank t addr = int (ta_LocalBankIndex t) \<and> getGroup t addr = int (ta_GroupIndex t) then
        rbind (lookup_vec (ta_Sets t) local) (\<lambda>s. rbind (set_loadState ia s) (\<lambda>(ia, s).
          load_global n (addr + of_nat (ta_BlockSize t)) (local + 1) ia (t\<lparr>ta_Sets := (ta_Sets t)[local := s]\<rparr>)))
      else if length ia < ta_Associativity t then Inl Thrown
      else load_global n (addr + of_nat (ta_BlockSize t)) local (drop (ta_Associativity t) ia) t)"

definition ta_loadState :: "nat \<times> nat \<times> BlockSerializer list \<Rightarrow> TAArray \<Rightarrow> TAArray result" where
  "ta_loadState img t = (case img of (set_count, associativity, ia) \<Rightarrow>
     let totalSets = ta_NumSets t * ta_Banks t * ta_Groups t in
     dbg_assert (set_count = totalSets) (dbg_assert (associativity = ta_Associativity t) (load_global totalSets 0 0 ia t)))"

section \<open>States and flags\<close>

lemma flag_bits:
  "cs_prefetched v \<longleftrightarrow> bit v 4" "cs_isProtected v \<longleftrightarrow> bit v 5" "cs_isLocked v \<longleftrightarrow> bit v 6"
  using bit_iff_and_push_bit_not_eq_0 [of v 4] bit_iff_and_push_bit_not_eq_0 [of v 5] bit_iff_and_push_bit_not_eq_0 [of v 6]
  by (simp_all add: cs_prefetched_def cs_isProtected_def cs_isLocked_def PREFETCH_MASK_def PROTECT_MASK_def LOCKED_MASK_def)

lemma STATE_MASK_mask: "STATE_MASK = mask 4"
  by (simp add: STATE_MASK_def mask_eq_exp_minus_1)

lemma cs_eq_iff: "cs_eq v a \<longleftrightarrow> take_bit 4 v = take_bit 4 a"
proof -
  have "cs_eq v a \<longleftrightarrow> take_bit 4 a XOR take_bit 4 v = 0" by (simp add: cs_eq_def STATE_MASK_mask flip: take_bit_eq_mask take_bit_xor)
  then show ?thesis by (auto simp: bit_eq_iff bit_simps)
qed

lemma bit_cs_assign: "bit (cs_assign v a) i \<longleftrightarrow> (if i < 4 then bit a i else bit v i)"
  by (auto simp: cs_assign_def STATE_MASK_mask bit_simps dest: bit_imp_le_length)

lemma take_bit_cs_assign [simp]: "take_bit 4 (cs_assign v a) = take_bit 4 a"
  by (rule bit_eqI) (auto simp: bit_simps bit_cs_assign)

lemma evictable_assign [simp]: "evictable_state (cs_assign v a) = evictable_state v"
  by (simp add: evictable_state_def flag_bits bit_cs_assign)

section \<open>Lookup\<close>

definition holds :: "cstate \<Rightarrow> u64 \<Rightarrow> TABlock \<Rightarrow> bool" where
  "holds d a b \<longleftrightarrow> tb_tag b = a \<and> tb_valid d b"

lemma find_block_hit:
  "\<exists>b \<in> set bs. holds d a b \<Longrightarrow> \<exists>w < length bs. find_block d a i t bs = (Some (i + w), True) \<and> holds d a (bs ! w)"
proof (induction bs arbitrary: i t)
  case Nil
  then show ?case by simp
next
  case (Cons b bs)
  show ?case
  proof (cases "holds d a b")
    case True
    then show ?thesis by (intro exI [of _ 0]) (simp add: holds_def)
  next
    case False
    then have "\<exists>b \<in> set bs. holds d a b" using Cons.prems by auto
    then obtain w where "w < length bs" "find_block d a (i + 1) (if tb_tag b = a then Some i else t) bs = (Some (i + 1 + w), True)" "holds d a (bs ! w)"
      using Cons.IH by blast
    then show ?thesis using False by (intro exI [of _ "Suc w"]) (auto simp: holds_def)
  qed
qed

lemma find_block_miss:
  assumes "\<forall>b \<in> set bs. \<not> holds d a b"
  shows "\<exists>t'. find_block d a i t bs = (t', False) \<and> (t' = t \<and> (\<forall>b \<in> set bs. tb_tag b \<noteq> a) \<or> (\<exists>w < length bs. t' = Some (i + w) \<and> tb_tag (bs ! w) = a))"
  using assms
proof (induction bs arbitrary: i t)
  case Nil
  then show ?case by simp
next
  case (Cons b bs)
  let ?t = "if tb_tag b = a then Some i else t"
  have nb: "\<forall>b \<in> set bs. \<not> holds d a b" "\<not> holds d a b" using Cons.prems by auto
  obtain t' where t': "find_block d a (i + 1) ?t bs = (t', False)"
    "t' = ?t \<and> (\<forall>b \<in> set bs. tb_tag b \<noteq> a) \<or> (\<exists>w < length bs. t' = Some (i + 1 + w) \<and> tb_tag (bs ! w) = a)"
    using Cons.IH [OF nb(1)] by blast
  have e: "find_block d a i t (b # bs) = (t', False)" using t'(1) nb(2) by (auto simp: holds_def)
  from t'(2) show ?case
  proof
    assume l: "t' = ?t \<and> (\<forall>b \<in> set bs. tb_tag b \<noteq> a)"
    show ?thesis
    proof (cases "tb_tag b = a")
      case True
      then show ?thesis using e l by (intro exI [of _ t'] conjI disjI2 exI [of _ 0]) simp_all
    next
      case False
      then show ?thesis using e l by simp
    qed
  next
    assume "\<exists>w < length bs. t' = Some (i + 1 + w) \<and> tb_tag (bs ! w) = a"
    then obtain w where "w < length bs" "t' = Some (i + 1 + w)" "tb_tag (bs ! w) = a" by blast
    then show ?thesis using e by (intro exI [of _ t'] conjI disjI2 exI [of _ "Suc w"]) simp_all
  qed
qed

text \<open>What a lookup answers: the state of the block, without its flags, if the block is valid.\<close>

definition set_answer :: "cstate \<Rightarrow> nat \<Rightarrow> u64 \<Rightarrow> TASet \<Rightarrow> cstate option result" where
  "set_answer d n a s = rbind (lookupBlock d n a s) (\<lambda>l. rbind (tl_state l s) (\<lambda>v. Inr (if tl_isHit l then Some (take_bit 4 v) else None)))"

definition unique_tags :: "cstate \<Rightarrow> TABlock list \<Rightarrow> bool" where
  "unique_tags d bs \<longleftrightarrow> (\<forall>i < length bs. \<forall>j < length bs. tb_tag (bs ! i) = tb_tag (bs ! j) \<and> tb_valid d (bs ! i) \<and> tb_valid d (bs ! j) \<longrightarrow> i = j)"

lemma set_answer_hit:
  assumes "unique_tags d (ts_blocks s)" "w < length (ts_blocks s)" "holds d a (ts_blocks s ! w)"
  shows "set_answer d n a s = Inr (Some (take_bit 4 (tb_state (ts_blocks s ! w))))"
proof -
  have "\<exists>b \<in> set (ts_blocks s). holds d a b" using assms(2,3) nth_mem by blast
  from find_block_hit [OF this, of 0 None] obtain u where u: "u < length (ts_blocks s)"
    "find_block d a 0 None (ts_blocks s) = (Some u, True)" "holds d a (ts_blocks s ! u)" by auto
  have "u = w" using assms u(1,3) by (auto simp: unique_tags_def holds_def)
  then show ?thesis using u by (simp add: set_answer_def lookupBlock_def TALookup_new_def lookup_vec_lt holds_def tl_state_def)
qed

lemma set_answer_miss:
  assumes "\<forall>b \<in> set (ts_blocks s). \<not> holds d a b"
  shows "set_answer d n a s = Inr None"
proof -
  obtain t where t: "find_block d a 0 None (ts_blocks s) = (t, False)"
    "t = None \<or> (\<exists>w < length (ts_blocks s). t = Some w \<and> tb_tag (ts_blocks s ! w) = a)"
    using find_block_miss [OF assms, of 0 None] by auto
  then show ?thesis by (auto simp: set_answer_def lookupBlock_def TALookup_new_def lookup_vec_lt tl_state_def simp del: rbind_eq_Inr)
qed

section \<open>Replacement\<close>

definition ts_inv :: "cstate \<Rightarrow> TASet \<Rightarrow> bool" where
  "ts_inv d s \<longleftrightarrow> (\<exists>xs. ts_policy s = MRUOrder xs \<and> distinct xs \<and> set xs = {..<length (ts_blocks s)}) \<and> unique_tags d (ts_blocks s)"

lemma ts_inv_new: "ts_inv d (SetLRU_new d n)"
  by (auto simp: ts_inv_def SetLRU_new_def unique_tags_def tb_valid_def cs_eq_iff)

lemma first_way_find: "set ws \<subseteq> {..<length bs} \<Longrightarrow> first_way P ws bs = Inr (find (\<lambda>w. P (tb_state (bs ! w))) ws)"
  by (induction ws) (auto simp: lookup_vec_lt simp del: rbind_eq_Inr)

lemma find_split: "find P xs = Some w \<Longrightarrow> \<exists>ys zs. xs = ys @ w # zs \<and> P w \<and> (\<forall>y \<in> set ys. \<not> P y)"
proof (induction xs)
  case Nil
  then show ?case by simp
next
  case (Cons x xs)
  show ?case
  proof (cases "P x")
    case True
    then show ?thesis using Cons.prems by (intro exI [of _ "[]"] exI [of _ xs]) simp
  next
    case False
    then obtain ys zs where "xs = ys @ w # zs" "P w" "\<forall>y \<in> set ys. \<not> P y" using Cons by auto
    then show ?thesis using False by (intro exI [of _ "x # ys"] exI [of _ zs]) simp
  qed
qed

lemma find_rev_split:
  assumes "find P (rev xs) = Some w"
  shows "\<exists>us vs. xs = us @ w # vs \<and> P w \<and> (\<forall>x \<in> set vs. \<not> P x)"
proof -
  obtain ys zs where "rev xs = ys @ w # zs" "P w" "\<forall>y \<in> set ys. \<not> P y"
    using find_split [OF assms] by blast
  then show ?thesis by (metis append.assoc append_Cons append_Nil rev_append rev_rev_ident rev.simps(2) set_rev)
qed

lemma recordAccess_order:
  assumes "ts_policy s = MRUOrder (us @ w # vs)" "distinct (us @ w # vs)"
  shows "\<exists>r. set_recordAccess w s = Inr (r, s\<lparr>ts_policy := MRUOrder (w # us @ vs)\<rparr>)"
proof (cases us)
  case Nil
  then have "s\<lparr>ts_policy := MRUOrder (w # us @ vs)\<rparr> = s" using assms(1) by simp
  then show ?thesis using Nil assms(1) by (intro exI [of _ False]) (simp add: set_recordAccess_def lookup_vec_lt del: rbind_eq_Inr)
next
  case (Cons u us')
  have "takeWhile (\<lambda>x. x \<noteq> w) (us @ w # vs) = us" "dropWhile (\<lambda>x. x \<noteq> w) (us @ w # vs) = w # vs"
    using assms(2) by (auto simp: takeWhile_append dropWhile_append dropWhile_eq_Nil_conv)
  then have "moveToHead w (us @ w # vs) = Inr (w # us @ vs)" by (simp add: moveToHead_def)
  then show ?thesis using assms Cons by (intro exI [of _ True]) (simp add: set_recordAccess_def lookup_vec_lt del: rbind_eq_Inr)
qed

lemma unique_tags_update:
  assumes "unique_tags d bs" "w < length bs" "\<forall>b \<in> set bs. tb_tag b \<noteq> tb_tag x"
  shows "unique_tags d (bs[w := x])"
proof -
  have n: "tb_tag (bs ! i) \<noteq> tb_tag x" if "i < length bs" for i using that assms(3) nth_mem by blast
  show ?thesis using assms(1,2) n n [THEN not_sym] by (auto simp: unique_tags_def nth_list_update)
qed

lemma set_answer_update:
  assumes "unique_tags d (ts_blocks s)" "w < length (ts_blocks s)" "\<forall>b \<in> set (ts_blocks s). tb_tag b \<noteq> a" "tb_tag x = a" "tb_valid d x"
    "ts_blocks s' = (ts_blocks s)[w := x]"
  shows "set_answer d n y s' = (if y = a then Inr (Some (take_bit 4 (tb_state x)))
    else if holds d y (ts_blocks s ! w) then Inr None else set_answer d n y s)"
proof -
  let ?bs = "ts_blocks s"
  have u: "unique_tags d (ts_blocks s')" using unique_tags_update [OF assms(1,2), of x] assms(3,4,6) by simp
  have l: "length (ts_blocks s') = length ?bs" using assms(6) by simp
  consider "y = a" | "y \<noteq> a" "holds d y (?bs ! w)" | "y \<noteq> a" "\<not> holds d y (?bs ! w)" "\<exists>i < length ?bs. holds d y (?bs ! i)"
    | "y \<noteq> a" "\<forall>i < length ?bs. \<not> holds d y (?bs ! i)" by blast
  then show ?thesis
  proof cases
    case 1
    then show ?thesis using set_answer_hit [OF u, of w a n] assms(2,4,5,6) l by (simp add: holds_def)
  next
    case 2
    have "\<not> holds d y (ts_blocks s' ! i)" if "i < length ?bs" for i
      using that 2 assms(1,2,4,6) by (auto simp: holds_def nth_list_update unique_tags_def)
    then have "\<forall>b \<in> set (ts_blocks s'). \<not> holds d y b" using l by (metis in_set_conv_nth)
    then show ?thesis using 2 set_answer_miss by simp
  next
    case 3
    then obtain i where i: "i < length ?bs" "holds d y (?bs ! i)" by blast
    then have "ts_blocks s' ! i = ?bs ! i" using 3(2) assms(6) by (metis nth_list_update_neq)
    then show ?thesis using 3(1,2) i set_answer_hit [OF u, of i y n] set_answer_hit [OF assms(1) i, of n] l by simp
  next
    case 4
    have "\<not> holds d y (ts_blocks s' ! i)" if "i < length ?bs" for i
      using that 4 assms(2,4,6) by (auto simp: holds_def nth_list_update)
    then have "\<forall>b \<in> set (ts_blocks s'). \<not> holds d y b" "\<forall>b \<in> set ?bs. \<not> holds d y b" using l 4(2) by (metis in_set_conv_nth)+
    then show ?thesis using 4 assms(2) set_answer_miss by simp
  qed
qed

lemma allocate_miss:
  assumes "ts_inv d s" "\<forall>b \<in> set (ts_blocks s). tb_tag b \<noteq> a" "set_victimAvailable s = Inr True" "\<not> cs_eq st d" "lookupBlock d n a s = Inr l"
  shows "\<exists>us w vs v l' s1 s2. ts_policy s = MRUOrder (us @ w # vs) \<and> w < length (ts_blocks s) \<and>
    evictable_state (tb_state (ts_blocks s ! w)) \<and> (\<forall>x \<in> set vs. \<not> evictable_state (tb_state (ts_blocks s ! x))) \<and>
    set_allocate d l a s = Inr (v, l', s1) \<and> tl_address v = tb_tag (ts_blocks s ! w) \<and> tl_state v s1 = Inr (tb_state (ts_blocks s ! w)) \<and>
    tl_setState st l' s1 = Inr (True, s2) \<and> ts_policy s2 = MRUOrder (w # us @ vs) \<and>
    ts_blocks s2 = (ts_blocks s)[w := \<lparr>tb_tag = a, tb_state = cs_assign (tb_state (ts_blocks s ! w)) st\<rparr>]"
proof -
  let ?bs = "ts_blocks s"
  obtain xs where xs: "ts_policy s = MRUOrder xs" "distinct xs" "set xs = {..<length ?bs}" using assms(1) by (auto simp: ts_inv_def)
  have fw: "first_way evictable_state (rev xs) ?bs = Inr (find (\<lambda>w. evictable_state (tb_state (?bs ! w))) (rev xs))"
    by (rule first_way_find) (simp add: xs(3))
  obtain w where w: "find (\<lambda>w. evictable_state (tb_state (?bs ! w))) (rev xs) = Some w"
    using assms(3) xs(1) fw by (auto simp: set_victimAvailable_def)
  obtain us vs where o1: "xs = us @ w # vs" "evictable_state (tb_state (?bs ! w))" "\<forall>x \<in> set vs. \<not> evictable_state (tb_state (?bs ! x))"
    using find_rev_split [OF w] by blast
  have wl: "w < length ?bs" using xs(3) o1(1) by auto
  have pv: "pickVictim s = Inr w" using xs(1) fw w by (simp add: pickVictim_def pick_way_def)
  have "find_block d a 0 None ?bs = (None, False)"
    using find_block_miss [of ?bs d a 0 None] assms(2) nth_mem by (fastforce simp: holds_def)
  then have l: "l = \<lparr>tl_set = n, tl_block = None, tl_address = a, tl_isHit = False, tl_origState = d\<rparr>"
    using assms(5) by (simp add: lookupBlock_def TALookup_new_def)
  let ?s = "replace_block d w a s"
  have "ts_policy ?s = MRUOrder (us @ w # vs)" using xs(1) o1(1) by (simp add: replace_block_def)
  from recordAccess_order [OF this] xs(2) o1(1) obtain r where ra: "set_recordAccess w ?s = Inr (r, ?s\<lparr>ts_policy := MRUOrder (w # us @ vs)\<rparr>)" by auto
  let ?s1 = "?s\<lparr>ts_policy := MRUOrder (w # us @ vs)\<rparr>"
  let ?v = "\<lparr>tl_set = n, tl_block = Some w, tl_address = tb_tag (?bs ! w), tl_isHit = False, tl_origState = tb_state (?bs ! w)\<rparr>"
  let ?l = "l\<lparr>tl_isHit := True, tl_origState := cs_assign d d, tl_block := Some w\<rparr>"
  have al: "set_allocate d l a s = Inr (?v, ?l, ?s1)"
    using pv wl ra by (simp add: set_allocate_def l lookup_vec_lt TALookup_new_def del: rbind_eq_Inr)
  let ?x = "\<lparr>tb_tag = a, tb_state = cs_assign (tb_state (?bs ! w)) st\<rparr>"
  have b1: "ts_blocks ?s1 ! w = \<lparr>tb_tag = a, tb_state = cs_assign (tb_state (?bs ! w)) d\<rparr>" "w < length (ts_blocks ?s1)" using wl by (simp_all add: replace_block_def)
  have aa: "cs_assign (cs_assign v d) st = cs_assign v st" for v by (rule bit_eqI) (simp add: bit_cs_assign)
  have ne: "\<not> cs_eq (cs_assign (tb_state (?bs ! w)) d) st" using assms(4) by (auto simp: cs_eq_iff)
  have "tl_setState st ?l ?s1 = Inr (True, ?s1\<lparr>ts_blocks := (ts_blocks ?s1)[w := ?x]\<rparr>)"
    using b1 ne aa by (simp add: tl_setState_def tl_modify_def lookup_vec_lt del: rbind_eq_Inr)
  moreover have "(ts_blocks ?s1)[w := ?x] = ?bs[w := ?x]" by (simp add: replace_block_def)
  moreover have "tl_state ?v ?s1 = Inr (tb_state (?bs ! w))" by (simp add: tl_state_def)
  ultimately show ?thesis using xs(1) o1 wl al
    by (intro exI [of _ us] exI [of _ w] exI [of _ vs] exI [of _ ?v] exI [of _ ?l] exI [of _ ?s1] exI [of _ "?s1\<lparr>ts_blocks := (ts_blocks ?s1)[w := ?x]\<rparr>"]) simp
qed

section \<open>Locked blocks\<close>

lemma almost_full_count:
  assumes "locked < max_locked" "unlocked \<le> thresh" "thresh + max_locked = locked + unlocked + int (length bs)"
  shows "almost_full_loop max_locked thresh locked unlocked bs \<longleftrightarrow> max_locked \<le> locked + int (length (filter (\<lambda>b. cs_isLocked (tb_state b)) bs))"
  using assms
proof (induction bs arbitrary: locked unlocked)
  case Nil
  then show ?case by simp
next
  case (Cons b bs)
  define c where "c = int (length (filter (\<lambda>b. cs_isLocked (tb_state b)) bs))"
  have "0 \<le> c" "c \<le> int (length bs)" by (simp_all add: c_def)
  then show ?case using Cons.IH [of "locked + 1" unlocked] Cons.IH [of locked "unlocked + 1"] Cons.prems
    by (cases "cs_isLocked (tb_state b)") (auto simp: c_def [symmetric])
qed

section \<open>The index of a set\<close>

lemma and_lt_bits: "(\<And>i. bit m i \<Longrightarrow> i < k) \<Longrightarrow> k \<le> 64 \<Longrightarrow> \<forall>i. bit (x AND m) i \<longrightarrow> i < k" for x m :: u64
  by (auto simp: bit_simps)

lemma unat_lt_bits: "\<forall>i. bit v i \<longrightarrow> i < k \<Longrightarrow> unat v < 2 ^ k" for v :: u64
proof -
  assume b: "\<forall>i. bit v i \<longrightarrow> i < k"
  have "take_bit k v = v" by (rule bit_eqI) (use b in \<open>auto simp: bit_simps\<close>)
  then have "unat v = take_bit k (unat v)" by (metis unsigned_take_bit_eq)
  then show ?thesis by (metis take_bit_nat_less_exp)
qed

lemma int_shl_one: "0 \<le> n \<Longrightarrow> n \<le> 30 \<Longrightarrow> int_shl ub 1 n - 1 = mask (nat n)"
proof -
  assume n: "0 \<le> n" "n \<le> 30"
  have "(2 :: int) ^ nat n \<le> 2 ^ 30" by (rule power_increasing) (use n in simp_all)
  then show ?thesis using n by (simp add: int_shl_def push_bit_eq_mult mask_eq_exp_minus_1)
qed

lemma int_shl_mask: "0 \<le> n \<Longrightarrow> 0 \<le> m \<Longrightarrow> m + n \<le> 30 \<Longrightarrow> int_shl ub (mask (nat m)) n = push_bit (nat n) (mask (nat m))"
proof -
  assume n: "0 \<le> n" "0 \<le> m" "m + n \<le> 30"
  have "(2 :: int) ^ (nat m + nat n) \<le> 2 ^ 30" by (rule power_increasing) (use n in simp_all)
  then have "push_bit (nat n) (mask (nat m)) < (2 :: int) ^ 31"
    by (simp add: push_bit_eq_mult mask_eq_exp_minus_1 power_add left_diff_distrib) (smt (verit) zero_less_power)
  then show ?thesis using n by (simp add: int_shl_def)
qed

lemma set_masks_fit:
  assumes "0 \<le> low" "0 \<le> mid" "0 \<le> high" "low + mid + high \<le> 30"
  shows "set_masks ub low mid high = (mask (nat low), push_bit (nat low) (mask (nat mid)), push_bit (nat (mid + low)) (mask (nat high)))"
  using assms int_shl_one [of low ub] int_shl_one [of mid ub] int_shl_one [of high ub] int_shl_mask [of low mid ub] int_shl_mask [of "mid + low" high ub]
  by (simp add: set_masks_def of_int_push_bit of_int_mask_eq)

lemma log_base2_le: "0 < n \<Longrightarrow> 2 ^ log_base2 n \<le> n"
proof -
  have "2 ^ log_base2_loop v r \<le> (if v = 0 then 2 ^ r else v * 2 ^ (r + 1))" for v r
  proof (induction v r rule: log_base2_loop.induct)
    case (1 v r)
    show ?case
    proof (cases "v = 0")
      case True
      then show ?thesis by (subst log_base2_loop.simps) simp
    next
      case False
      then have "2 ^ log_base2_loop v r = (2 :: nat) ^ log_base2_loop (v div 2) (r + 1)" by (subst log_base2_loop.simps) simp
      also have "\<dots> \<le> (if v div 2 = 0 then 2 ^ (r + 1) else v div 2 * 2 ^ (r + 1 + 1))" by (rule 1 [OF False])
      also have "\<dots> \<le> v * 2 ^ (r + 1)" using False by auto
      finally show ?thesis using False by simp
    qed
  qed
  from this [of "n div 2" 0] show "0 < n \<Longrightarrow> ?thesis" by (auto simp: log_base2_def split: if_splits)
qed

text \<open>The index has the bits of the number of sets when its three parts add up to them.\<close>

lemma masked_index:
  assumes "0 \<le> low" "0 \<le> mid" "0 \<le> high" "low + mid + high = int k" "k \<le> 30"
    and "set_masks ub low mid high = (ta_setLowMask t, ta_setMidMask t, ta_setHighMask t)"
  shows "0 \<le> makeSet t a" "makeSet t a < 2 ^ k"
proof -
  let ?v = "(drop_bit (ta_setLowShift t) a AND ta_setLowMask t) OR (drop_bit (ta_setMidShift t) a AND ta_setMidMask t) OR (drop_bit (ta_setHighShift t) a AND ta_setHighMask t)"
  have m: "ta_setLowMask t = mask (nat low)" "ta_setMidMask t = push_bit (nat low) (mask (nat mid))" "ta_setHighMask t = push_bit (nat (mid + low)) (mask (nat high))"
    using set_masks_fit [of low mid high ub] assms by simp_all
  have "\<forall>i. bit ?v i \<longrightarrow> i < k" using assms(1-4) by (auto simp: m bit_simps)
  then have v: "unat ?v < 2 ^ k" by (rule unat_lt_bits)
  have p: "(2 :: nat) ^ k \<le> 2 ^ 30" by (rule power_increasing) (use assms(5) in simp_all)
  have u: "ucast ?v = (word_of_int (int (unat ?v)) :: 32 word)" by (simp only: of_nat_unat ucast_eq)
  have "unat ?v < 2 ^ 31" using v p by simp
  then have "int (unat ?v) < int (2 ^ 31)" by (simp only: of_nat_less_iff)
  then have "makeSet t a = int (unat ?v)" unfolding makeSet_def to_int32_def u by (intro sint_of_int32 order_trans [OF _ of_nat_0_le_iff]) simp_all
  moreover have "int (unat ?v) < int (2 ^ k)" using v by (simp only: of_nat_less_iff)
  ultimately show "0 \<le> makeSet t a" "makeSet t a < 2 ^ k" by simp_all
qed

section \<open>Runs of the array\<close>

text \<open>
  One operation of the array that returns, with any lookup result as its argument: the operations
  of the array, and the changes a lookup result makes to the state of its block.
\<close>

inductive ta_step :: "cstate \<Rightarrow> TAArray \<Rightarrow> TAArray \<Rightarrow> bool" for d where
  step_allocate: "ta_allocate d l a t = Inr (v, l', t') \<Longrightarrow> ta_step d t t'"
| step_replace: "ta_replaceLockedBlock d l a t = Inr (v, l', t') \<Longrightarrow> ta_step d t t'"
| step_access: "ta_recordAccess l t = Inr (r, t') \<Longrightarrow> ta_step d t t'"
| step_invalidate: "ta_invalidateBlock l t = Inr t' \<Longrightarrow> ta_step d t t'"
| step_threshold: "setLockedThreshold n t = Inr t' \<Longrightarrow> ta_step d t t'"
| step_load: "ta_loadState img t = Inr t' \<Longrightarrow> ta_step d t t'"
| step_setState: "lookup_vec (ta_Sets t) (tl_set l) = Inr s \<Longrightarrow> tl_setState st l s = Inr (r, s') \<Longrightarrow> ta_step d t (t\<lparr>ta_Sets := (ta_Sets t)[tl_set l := s']\<rparr>)"
| step_setFlags: "lookup_vec (ta_Sets t) (tl_set l) = Inr s \<Longrightarrow> tl_setProtected p l s = Inr s' \<or> tl_setPrefetched p l s = Inr s' \<or> tl_setLocked p l s = Inr s' \<Longrightarrow>
    ta_step d t (t\<lparr>ta_Sets := (ta_Sets t)[tl_set l := s']\<rparr>)"

definition same_geometry :: "TAArray \<Rightarrow> TAArray \<Rightarrow> bool" where
  "same_geometry t t' \<longleftrightarrow> length (ta_Sets t') = length (ta_Sets t) \<and> (\<forall>a. makeSet t' a = makeSet t a)"

lemma same_geometry_refl [simp]: "same_geometry t t"
  by (simp add: same_geometry_def)

lemma same_geometry_sets [simp]: "length ss = length (ta_Sets t) \<Longrightarrow> same_geometry t (t\<lparr>ta_Sets := ss\<rparr>)"
  by (simp add: same_geometry_def makeSet_def)

lemma same_geometry_threshold [simp]: "same_geometry t (t\<lparr>ta_LockedThreshold := n\<rparr>)"
  by (simp add: same_geometry_def makeSet_def)

lemma same_geometry_trans: "same_geometry t u \<Longrightarrow> same_geometry u v \<Longrightarrow> same_geometry t v"
  by (simp add: same_geometry_def)

lemma load_global_geometry: "load_global n addr k ia t = Inr t' \<Longrightarrow> same_geometry t t'"
proof (induction n addr k ia t arbitrary: t' rule: load_global.induct)
  case (2 n addr k ia t)
  show ?case
  proof (cases "getBank t addr = int (ta_LocalBankIndex t) \<and> getGroup t addr = int (ta_GroupIndex t)")
    case True
    then obtain ia' s' where "load_global n (addr + of_nat (ta_BlockSize t)) (k + 1) ia' (t\<lparr>ta_Sets := (ta_Sets t)[k := s']\<rparr>) = Inr t'"
      "lookup_vec (ta_Sets t) k = Inr (ta_Sets t ! k)" "set_loadState ia (ta_Sets t ! k) = Inr (ia', s')"
      using "2.prems" by auto
    then have "same_geometry (t\<lparr>ta_Sets := (ta_Sets t)[k := s']\<rparr>) t'" using "2.IH"(1) [OF True] by blast
    then show ?thesis by (rule same_geometry_trans [rotated]) simp
  next
    case False
    then show ?thesis using 2 by (auto split: if_splits)
  qed
qed simp

lemma ta_step_geometry: "ta_step d t t' \<Longrightarrow> same_geometry t t'"
proof (induction rule: ta_step.induct)
  case (step_load img t t')
  then show ?case using load_global_geometry by (auto simp: ta_loadState_def dbg_assert_def Let_def split: prod.splits if_splits)
qed (auto simp: ta_allocate_def ta_replaceLockedBlock_def ta_recordAccess_def ta_invalidateBlock_def setLockedThreshold_def dbg_assert_def
  split: option.splits prod.splits if_splits)

lemma ta_run_geometry: "(ta_step d)\<^sup>*\<^sup>* t t' \<Longrightarrow> same_geometry t t'"
  by (induction rule: rtranclp_induct) (auto intro: same_geometry_trans ta_step_geometry)

text \<open>The assertion of the constructor of a lookup result never fails for a block the search found.\<close>

lemma lookupBlock_total: "\<exists>l. lookupBlock d n a s = Inr l \<and> tl_set l = n \<and> tl_address l = a"
proof (cases "\<exists>b \<in> set (ts_blocks s). holds d a b")
  case True
  from find_block_hit [OF this, of 0 None] show ?thesis
    by (auto simp: lookupBlock_def TALookup_new_def lookup_vec_lt holds_def simp del: rbind_eq_Inr)
next
  case False
  then have "\<forall>b \<in> set (ts_blocks s). \<not> holds d a b" by blast
  from find_block_miss [OF this, of 0 None] show ?thesis
    by (auto simp: lookupBlock_def TALookup_new_def lookup_vec_lt simp del: rbind_eq_Inr)
qed

lemma ta_lookup_total:
  assumes "0 \<le> makeSet t a" "makeSet t a < int (length (ta_Sets t))"
  shows "\<exists>l. ta_lookup d a t = Inr l \<and> int (tl_set l) = makeSet t a \<and> tl_address l = ta_blockAddress t a"
  using assms lookupBlock_total [of d "nat (makeSet t a)" "ta_blockAddress t a" "ta_Sets t ! nat (makeSet t a)"]
  by (auto simp: ta_lookup_def set_at_def lookup_vec_lt nat_less_iff simp del: rbind_eq_Inr)

text \<open>The parts of the index when an interleaved stretch is at least a block and at most the blocks of a bank.\<close>

lemma ta_init_fits:
  assumes "power_of_two numSets" "power_of_two blockSize" "power_of_two bankInterleaving" "power_of_two groupInterleaving"
    and "0 < numSets" "numSets < 2 ^ 31" "0 < assoc" "0 < banks" "0 < blockSize" "blockSize \<le> bankInterleaving"
    and "bankInterleaving \<le> blockSize * numSets" "bankInterleaving * banks \<le> groupInterleaving"
  shows "\<exists>t. ta_init ub d blockSize banks bankInterleaving groups groupInterleaving nodeId numSets assoc policy threshold = Inr t \<and>
    length (ta_Sets t) = numSets \<and> (\<forall>a. 0 \<le> makeSet t a \<and> makeSet t a < int numSets)"
proof -
  have pos: "0 < bankInterleaving" "0 < groupInterleaving" using assms by (auto intro!: Nat.gr0I)
  obtain k b i g where e: "numSets = 2 ^ k" "blockSize = 2 ^ b" "bankInterleaving = 2 ^ i" "groupInterleaving = 2 ^ g"
    using power_of_two_iff assms pos by meson
  define c where "c = log_base2 banks"
  have "2 ^ (i + c) \<le> bankInterleaving * banks" using log_base2_le [OF assms(8)] by (simp add: e c_def power_add)
  then have "(2 :: nat) ^ (i + c) \<le> 2 ^ g" using assms(12) e(4) by linarith
  then have g: "i + c \<le> g" by simp
  have bi: "b \<le> i" using assms(10) by (simp add: e)
  have "(2 :: nat) ^ i \<le> 2 ^ (b + k)" using assms(11) by (simp add: e power_add)
  then have ik: "i \<le> b + k" by simp
  have "(2 :: nat) ^ k < 2 ^ 31" using assms(6) by (simp add: e)
  then have "k < 31" by (rule power_less_imp_less_exp [rotated]) simp
  then have k: "k \<le> 30" by simp
  define low mid0 where "low = int i - int b" and "mid0 = int g - int i - int c"
  define mid high where "mid = (if mid0 + low > int k then int k - low else mid0)"
    and "high = (if mid0 + low > int k then 0 else int k - mid0 - low)"
  have sum: "low + mid + high = int k" "0 \<le> low" "0 \<le> mid" "0 \<le> high" using g bi ik by (auto simp: mid_def high_def low_def mid0_def)
  obtain l m h where lmh: "set_masks ub low mid high = (l, m, h)" by (metis prod_cases3)
  have lg: "log_base2 (2 ^ n) = n" for n by (rule log_base2_power)
  obtain t where t: "ta_init ub d blockSize banks bankInterleaving groups groupInterleaving nodeId numSets assoc policy threshold = Inr t"
    "length (ta_Sets t) = numSets" "ta_setLowMask t = l" "ta_setMidMask t = m" "ta_setHighMask t = h"
    using assms lmh unfolding ta_init_def e lg c_def [symmetric] Let_def low_def [symmetric] mid0_def [symmetric] mid_def [symmetric] high_def [symmetric]
    by (simp add: dbg_assert_def del: rbind_eq_Inr)
  have "0 \<le> makeSet t a" "makeSet t a < 2 ^ k" for a
    using masked_index [OF sum(2-4,1) k, of ub t a] lmh t by simp_all
  then show ?thesis using t(1,2) e(1) by (intro exI [of _ t]) simp
qed

section \<open>Properties\<close>

text \<open>
  C27: Bringing a block into a set evicts the least recently used block that is neither protected
  nor locked and reports its address and state: afterwards a lookup finds the new block with
  its state, no longer the victim, and every other block as before, and the new block is the
  most recently used one while the others keep their order.
\<close>

theorem array_fill:
  assumes "ts_inv d s" "\<forall>b \<in> set (ts_blocks s). tb_tag b \<noteq> a" "set_victimAvailable s = Inr True" "\<not> cs_eq st d" "lookupBlock d n a s = Inr l"
  shows "\<exists>us w vs v l' s1 s2. ts_policy s = MRUOrder (us @ w # vs) \<and> evictable_state (tb_state (ts_blocks s ! w)) \<and>
    (\<forall>x \<in> set vs. \<not> evictable_state (tb_state (ts_blocks s ! x))) \<and>
    set_allocate d l a s = Inr (v, l', s1) \<and> tl_address v = tb_tag (ts_blocks s ! w) \<and> tl_state v s1 = Inr (tb_state (ts_blocks s ! w)) \<and>
    tl_setState st l' s1 = Inr (True, s2) \<and> ts_inv d s2 \<and> ts_policy s2 = MRUOrder (w # us @ vs) \<and>
    (\<forall>y. set_answer d n y s2 = (if y = a then Inr (Some (take_bit 4 st))
       else if holds d y (ts_blocks s ! w) then Inr None else set_answer d n y s))"
proof -
  let ?bs = "ts_blocks s"
  from allocate_miss [OF assms] obtain us w vs v l' s1 s2 where p: "ts_policy s = MRUOrder (us @ w # vs)" "w < length ?bs"
    "evictable_state (tb_state (?bs ! w))" "\<forall>x \<in> set vs. \<not> evictable_state (tb_state (?bs ! x))"
    and q: "set_allocate d l a s = Inr (v, l', s1)" "tl_address v = tb_tag (?bs ! w)" "tl_state v s1 = Inr (tb_state (?bs ! w))"
    "tl_setState st l' s1 = Inr (True, s2)" "ts_policy s2 = MRUOrder (w # us @ vs)"
    and b: "ts_blocks s2 = ?bs[w := \<lparr>tb_tag = a, tb_state = cs_assign (tb_state (?bs ! w)) st\<rparr>]" by blast
  let ?x = "\<lparr>tb_tag = a, tb_state = cs_assign (tb_state (?bs ! w)) st\<rparr>"
  have u: "unique_tags d ?bs" and d: "distinct (us @ w # vs)" "set (us @ w # vs) = {..<length ?bs}" using assms(1) p(1) by (auto simp: ts_inv_def)
  have v: "tb_valid d ?x" using assms(4) by (simp add: tb_valid_def cs_eq_iff)
  have "unique_tags d (?bs[w := ?x])" using unique_tags_update [OF u p(2), of ?x] assms(2) by simp
  moreover have "distinct (w # us @ vs)" "set (w # us @ vs) = {..<length ?bs}" using d by auto
  ultimately have i: "ts_inv d s2" using q(5) b by (auto simp: ts_inv_def)
  have lk: "set_answer d n y s2 = (if y = a then Inr (Some (take_bit 4 st)) else if holds d y (?bs ! w) then Inr None else set_answer d n y s)" for y
    using set_answer_update [OF u p(2) assms(2) _ v b, of n y] by simp
  show ?thesis using p(1,3,4) q i lk by blast
qed

theorem array_fill_witness:
  "\<exists>l v l' s1 s2. lookupBlock cs_Invalid 0 64 (SetLRU_new cs_Invalid 2) = Inr l \<and> set_allocate cs_Invalid l 64 (SetLRU_new cs_Invalid 2) = Inr (v, l', s1) \<and>
     tl_setState cs_Shared l' s1 = Inr (True, s2) \<and> set_answer cs_Invalid 0 64 s2 = Inr (Some 3)"
proof -
  let ?s = "SetLRU_new cs_Invalid 2"
  let ?b = "\<lparr>tb_tag = 0, tb_state = cs_Invalid\<rparr>"
  have s: "?s = \<lparr>ts_blocks = [?b, ?b], ts_policy = MRUOrder [0, 1]\<rparr>" by (simp add: SetLRU_new_def numeral_2_eq_2)
  obtain l where l: "lookupBlock cs_Invalid 0 64 ?s = Inr l" unfolding s by (simp add: lookupBlock_def TALookup_new_def)
  have "evictable_state cs_Invalid" by (simp add: evictable_state_def cs_isProtected_def cs_isLocked_def cs_Invalid_def PROTECT_MASK_def LOCKED_MASK_def)
  then have h: "\<forall>b \<in> set (ts_blocks ?s). tb_tag b \<noteq> 64" "set_victimAvailable ?s = Inr True" "\<not> cs_eq cs_Shared cs_Invalid"
    unfolding s by (simp_all add: set_victimAvailable_def lookup_vec_def cs_eq_def cs_Shared_def cs_Invalid_def STATE_MASK_def)
  have "take_bit 4 cs_Shared = 3" by (simp add: cs_Shared_def take_bit_eq_mask mask_eq_exp_minus_1)
  then show ?thesis using array_fill [OF ts_inv_new h l] l by metis
qed

text \<open>
  C28: With powers of two for the sets, the block size and the interleavings, fewer than
  \<open>2\<^sup>3\<^sup>1\<close> sets, and a bank interleaving between one block and all blocks of a bank that
  leaves room for the banks in the group interleaving, the constructor succeeds, and after any
  sequence of operations that return (allocations, replacements of locked blocks, accesses,
  invalidations, changes of states and flags, a new threshold, the loading of a flexpoint) every
  address has the same set as at first, within the sets of the array, and its lookup succeeds
  with the block address in that set. The fields of the array are 32 bit integers, and the
  product of banks and groups and that of the bank interleaving and the banks have to fit.
\<close>

theorem array_lookup_total:
  assumes "power_of_two numSets" "power_of_two blockSize" "power_of_two bankInterleaving" "power_of_two groupInterleaving"
    and "0 < numSets" "numSets < 2 ^ 31" "0 < assoc" "0 < banks" "0 < blockSize" "groupInterleaving < 2 ^ 31" "banks * groups < 2 ^ 31"
    and "blockSize \<le> bankInterleaving" "bankInterleaving \<le> blockSize * numSets" "bankInterleaving * banks \<le> groupInterleaving"
  shows "\<exists>t. ta_init ub d blockSize banks bankInterleaving groups groupInterleaving nodeId numSets assoc policy threshold = Inr t \<and>
    (\<forall>t' a. (ta_step d)\<^sup>*\<^sup>* t t' \<longrightarrow> makeSet t' a = makeSet t a \<and> 0 \<le> makeSet t' a \<and> makeSet t' a < int numSets \<and>
       (\<exists>l. ta_lookup d a t' = Inr l \<and> int (tl_set l) = makeSet t' a \<and> tl_address l = ta_blockAddress t' a))"
proof -
  obtain t where t: "ta_init ub d blockSize banks bankInterleaving groups groupInterleaving nodeId numSets assoc policy threshold = Inr t"
    "length (ta_Sets t) = numSets" "\<forall>a. 0 \<le> makeSet t a \<and> makeSet t a < int numSets"
    using ta_init_fits [OF assms(1-9,12-14)] by blast
  have "makeSet t' a = makeSet t a \<and> 0 \<le> makeSet t' a \<and> makeSet t' a < int numSets \<and>
       (\<exists>l. ta_lookup d a t' = Inr l \<and> int (tl_set l) = makeSet t' a \<and> tl_address l = ta_blockAddress t' a)"
    if "(ta_step d)\<^sup>*\<^sup>* t t'" for t' a
    using ta_run_geometry [OF that] t(2,3) ta_lookup_total [of t' a d] by (auto simp: same_geometry_def)
  then show ?thesis using t(1) by blast
qed

theorem array_lookup_total_witness:
  "\<forall>ub. \<exists>t l. ta_init ub cs_Invalid 64 2 64 1 4096 0 16 4 REPLACEMENT_LRU 1 = Inr t \<and> makeSet t 12345 < 16 \<and> ta_lookup cs_Invalid 12345 t = Inr l"
proof
  fix ub
  have p: "power_of_two 64" "power_of_two 16" "power_of_two 4096" by (simp_all add: power_of_two_def)
  have "\<exists>t. ta_init ub cs_Invalid 64 2 64 1 4096 0 16 4 REPLACEMENT_LRU 1 = Inr t \<and>
    (\<forall>t' a. (ta_step cs_Invalid)\<^sup>*\<^sup>* t t' \<longrightarrow> makeSet t' a = makeSet t a \<and> 0 \<le> makeSet t' a \<and> makeSet t' a < int 16 \<and>
       (\<exists>l. ta_lookup cs_Invalid a t' = Inr l \<and> int (tl_set l) = makeSet t' a \<and> tl_address l = ta_blockAddress t' a))"
    by (rule array_lookup_total) (simp_all add: p)
  then obtain t where t: "ta_init ub cs_Invalid 64 2 64 1 4096 0 16 4 REPLACEMENT_LRU 1 = Inr t"
    "\<forall>t' a. (ta_step cs_Invalid)\<^sup>*\<^sup>* t t' \<longrightarrow> makeSet t' a = makeSet t a \<and> 0 \<le> makeSet t' a \<and> makeSet t' a < int 16 \<and>
       (\<exists>l. ta_lookup cs_Invalid a t' = Inr l \<and> int (tl_set l) = makeSet t' a \<and> tl_address l = ta_blockAddress t' a)" by blast
  have "makeSet t 12345 < 16 \<and> (\<exists>l. ta_lookup cs_Invalid 12345 t = Inr l)" using t(2) [THEN spec, THEN spec, of t 12345] by auto
  then show "\<exists>t l. ta_init ub cs_Invalid 64 2 64 1 4096 0 16 4 REPLACEMENT_LRU 1 = Inr t \<and> makeSet t 12345 < 16 \<and> ta_lookup cs_Invalid 12345 t = Inr l"
    using t(1) by blast
qed

text \<open>
  The bound on the bank interleaving is needed and not asserted: the constructor accepts 16 sets of
  64 byte blocks interleaved at 4096 bytes, computes a mask of six bits for the low part of the
  index and shifts by a negative number, whose result \<open>ub\<close> gives; whatever it is, there is an
  address whose index is none of the 16 sets.
\<close>

lemma to_int32_bits: "to_int32 v = r \<Longrightarrow> 0 \<le> r \<Longrightarrow> r < 16 \<Longrightarrow> \<not> bit v 5"
proof
  assume a: "to_int32 v = r" "0 \<le> r" "r < 16" "bit v 5"
  have "bit (sint (ucast v :: 32 word)) 5" using a(4) by (simp add: bit_simps)
  then have "bit r 5" using a(1) by (simp add: to_int32_def)
  moreover have "take_bit 4 r = r" using a(2,3) by (simp add: take_bit_int_eq_self_iff)
  ultimately have "bit (take_bit 4 r) 5" by simp
  then show False by (simp add: bit_take_bit_iff)
qed

theorem interleaving_leaves_sets:
  "\<exists>t. ta_init ub d 64 1 4096 1 4096 0 16 4 REPLACEMENT_LRU 1 = Inr t \<and> ta_NumSets t = 16 \<and>
    (makeSet t 4032 < 0 \<or> 16 \<le> makeSet t 4032) \<and> ta_lookup d 4032 t = Inl OutOfRange"
proof -
  have lg: "log_base2 64 = 6" "log_base2 16 = 4" "log_base2 4096 = 12" "log_base2 1 = 0"
    using log_base2_power [of 6] log_base2_power [of 4] log_base2_power [of 12] log_base2_power [of 0] by simp_all
  have p: "power_of_two 64" "power_of_two 16" "power_of_two 4096" by (simp_all add: power_of_two_def)
  obtain l m h where lmh: "set_masks ub 6 (- 2) 0 = (l, m, h)" by (metis prod_cases3)
  then have l: "l = mask 6" using int_shl_one [of 6 ub] by (auto simp: set_masks_def of_int_mask_eq)
  obtain t where t: "ta_init ub d 64 1 4096 1 4096 0 16 4 REPLACEMENT_LRU 1 = Inr t" "ta_NumSets t = 16" "length (ta_Sets t) = 16"
    "ta_setLowShift t = 6" "ta_setLowMask t = mask 6"
    by (simp add: ta_init_def lg p Let_def lmh l del: One_nat_def)
  have "bit (drop_bit 6 4032 AND mask 6 :: u64) 5" by (simp add: bit_and_iff bit_mask_iff bit_drop_bit_eq)
  then have "bit ((drop_bit 6 4032 AND mask 6) OR y OR z) 5" for y z :: u64 by (simp only: bit_or_iff simp_thms)
  then have "\<not> (0 \<le> makeSet t 4032 \<and> makeSet t 4032 < 16)"
    using to_int32_bits unfolding makeSet_def t(4,5) by blast
  then have "makeSet t 4032 < 0 \<or> 16 \<le> makeSet t 4032" by linarith
  then show ?thesis using t by (intro exI [of _ t]) (auto simp: ta_lookup_def set_at_def lookup_vec_def)
qed

text \<open>A set is almost full exactly when at least the given number of its blocks are locked.\<close>

lemma almostFull_correct:
  assumes "0 < max_locked" "max_locked \<le> int (length (ts_blocks s))"
  shows "almostFull max_locked s \<longleftrightarrow> max_locked \<le> int (length (filter (\<lambda>b. cs_isLocked (tb_state b)) (ts_blocks s)))"
  unfolding almostFull_def using almost_full_count [of 0 max_locked 0 _ "ts_blocks s"] assms by simp

end
