(* ===== verification/Spec2Isabelle.thy ===== *)
theory Spec2Isabelle
  imports V9_Fpu_Correct Core_Registers Net_Build Fast_Properties Fast_Coherence Branch_Properties
    Branch_Warm Fetch_Address Timing_Queues Evict_Buffers
    Timing_Array
begin

text \<open>
  A verification development for the Flexus full-system simulator: the execution units and the
  register renaming of its out-of-order SPARC v9 core, the front end with its branch predictor
  and thread scheduler, the interconnection network model between its nodes, the coherent
  caches of its trace driven mode, and building blocks of the timing caches.

  \<^bold>\<open>The program.\<close> Flexus builds a simulator out of components that are wired together and driven
  once per cycle. Four subsystems carry most of its own logic and are modelled here.

  The first is the core. The decoder (\<^verbatim>\<open>src/components/v9Decoder\<close>) turns an opcode into a
  sequence of effects and semantic actions. The actions evaluate \<^verbatim>\<open>Operation\<close> objects
  (\<^verbatim>\<open>Operations.cpp\<close>) on operand vectors and test condition codes (\<^verbatim>\<open>Conditions.cpp\<close>). The
  effects rename destination registers through the core (\<^verbatim>\<open>src/components/uArch\<close>), which first
  rotates a register number through the current window (\<^verbatim>\<open>RegisterWindowMap\<close>), then maps the
  name to a physical register (\<^verbatim>\<open>PhysicalMap\<close>), whose value, status and waiting instructions
  are in the register file (\<^verbatim>\<open>RegisterFile.hpp\<close>, \<^verbatim>\<open>BypassNetwork.hpp\<close>). \<^verbatim>\<open>CoreModel/registers.cpp\<close>
  puts these together.

  The second is the network (\<^verbatim>\<open>src/components/NetShim\<close>): channels move messages from the output
  port of a switch or node to the input port of the next, and switches route messages from
  their input ports and internal buffers to their output ports. Nodes inject and take messages,
  and the container reads a description of the network, builds it and drives a cycle.

  The third is the trace mode (\<^verbatim>\<open>src/simulators/UP.Trace\<close>): accesses of the simulated processors go
  to a data and an instruction cache for every core (\<^verbatim>\<open>src/components/FastCache\<close>), whose misses go to
  a shared cache with a directory (\<^verbatim>\<open>src/components/FastCMPCache\<close>) that snoops the first level
  caches, and from there to the memory (\<^verbatim>\<open>src/components/FastMemoryLoopback\<close>). A request is carried
  out at once, by calls through the ports that change the message and may come back to the
  caches they started from.

  The fourth is the front end. In a cycle the fetch address generator
  (\<^verbatim>\<open>src/components/FetchAddressGenerate\<close>) asks the thread scheduler (\<^verbatim>\<open>src/components/MTManager\<close>) for
  a thread and follows the path that the branch predictor (\<^verbatim>\<open>Common/BranchPredictor.cpp\<close>) predicts
  for it; the core sends the outcomes of branches back. In the trace mode \<^verbatim>\<open>src/components/BPWarm\<close>
  trains the same predictor with the executed instructions.

  Of the timing caches (\<^verbatim>\<open>src/components/CMPCache\<close>) the parts the controllers are built of are
  modelled: the queues and pipelines between their stages, the sharers their directories keep,
  the array of the blocks, the file of the outstanding misses, and the buffers of evictions and
  snoops.

  \<^bold>\<open>The theories.\<close>

  \<^item> \<^verbatim>\<open>Prelude\<close>: the error type (a failed \<^verbatim>\<open>DBG_Assert\<close> or \<^verbatim>\<open>assert\<close>, a wrong \<^verbatim>\<open>boost::get\<close>, an
    index out of range, an iterator that does not belong to its container, a trapping host
    division, a reported error), the result type with its sequencing, and the lemmas on words the
    components share.

  \<^item> \<^verbatim>\<open>V9_Conditions\<close> and \<^verbatim>\<open>V9_Alu\<close> (\<^verbatim>\<open>Conditions.cpp\<close>, \<^verbatim>\<open>Operations.cpp\<close> lines 59 to 907): one
    definition per operation object, on 64 bit words and 8 bit condition code sets, and the
    three tables \<^verbatim>\<open>operation\<close>, \<^verbatim>\<open>ccCalc\<close> and \<^verbatim>\<open>shift\<close> that select them by opcode.
    \<^verbatim>\<open>V9_Alu_Correct\<close> relates them to integer arithmetic: the flags of additions and
    subtractions, the branches taken after a comparison, products and clamped quotients, shifts,
    the agreement of values and flags for the logical operations (through the locale
    \<^verbatim>\<open>u64_operation\<close>), and three places where flags and values differ.

  \<^item> \<^verbatim>\<open>V9_Fpu\<close> (\<^verbatim>\<open>Operations.cpp\<close> lines 909 to 1943): the floating point operations. Their inline
    assembly runs on the host's x87 unit, which is a parameter (the record \<^verbatim>\<open>x87\<close>: load, store,
    arithmetic, conversion and comparison under a control word); the control words, the packing
    of operands and results and the selection tables are the code's. \<^verbatim>\<open>V9_Fpu_Correct\<close> has the
    control word's fields, the branches after a comparison, on a host with the documented
    comparison, and the unaligned load built of \<^verbatim>\<open>Align\<close> and \<^verbatim>\<open>FALIGNDATA\<close>.

  \<^item> \<^verbatim>\<open>Reg_Window\<close> (\<^verbatim>\<open>MapTable.hpp\<close>, \<^verbatim>\<open>RegisterWindowMap\<close>): the window rotation and its counters;
    windows overlap in a ring and the registers of one window are distinct.

  \<^item> \<^verbatim>\<open>Phys_Map\<close> (\<^verbatim>\<open>MapTable.hpp\<close>, \<^verbatim>\<open>PhysicalMap\<close>, and the mapping effects of \<^verbatim>\<open>Effects.cpp\<close>): the
    map table, and a step relation in which instructions are dispatched, retired oldest first
    and squashed youngest first. By rule induction every reachable state keeps the physical
    registers partitioned and the code's own \<^verbatim>\<open>checkInvariants\<close> holds in it. \<^verbatim>\<open>free\<close> indexes the
    lists of assigned registers by the physical register instead of its name, which is defined
    only for a register that has the number of its name: the relation has the steps that C++
    defines, and a theorem gives the outcome of every step, the undefined ones included.

  \<^item> \<^verbatim>\<open>Register_File\<close> (\<^verbatim>\<open>RegisterFile.hpp\<close>, \<^verbatim>\<open>BypassNetwork.hpp\<close>): values, status, waiting
    dependences with their collection counters. Whether an instruction is complete, and what a
    bypass function answers, belong to instructions and are arguments.

  \<^item> \<^verbatim>\<open>Core_Registers\<close> (\<^verbatim>\<open>CoreModel/registers.cpp\<close>): the core's register interface over the
    three components above, its consistency invariant across map table and register file, the
    window counters of SAVE and RESTORE, and the floating point status register.

  \<^item> \<^verbatim>\<open>Net_Channel\<close> (\<^verbatim>\<open>channel.cpp\<close>, \<^verbatim>\<open>channel.hpp\<close>, \<^verbatim>\<open>netcommon.hpp\<close>): messages, ports with their
    per virtual channel queues and delay line, and the channel's state machine. What a buffered
    port promises is the locale \<^verbatim>\<open>vc_buffer\<close>, extended by \<^verbatim>\<open>vc_queue\<close> for ports that hand
    messages out in order; both port classes interpret \<^verbatim>\<open>vc_queue\<close>. A channel neither loses,
    duplicates nor reorders messages, serves virtual channels by priority, and is occupied for
    exactly the message's transmission time, as long as its 32 bit sum does not overflow.

  \<^item> \<^verbatim>\<open>Net_Switch\<close> (\<^verbatim>\<open>netswitch.cpp\<close>, \<^verbatim>\<open>netswitch.hpp\<close>): internal buffers (an interpretation of
    \<^verbatim>\<open>vc_buffer\<close>), routing tables and the arbitration of one cycle. A cycle conserves messages
    and fails no assertion; routing follows the table; two theorems show where arbitration does
    not do what its comment says.

  \<^item> \<^verbatim>\<open>Net_Container\<close> (\<^verbatim>\<open>netnode.cpp\<close>, \<^verbatim>\<open>netcontainer.cpp\<close>): nodes, the statements of a description and the
    structures they build, injection and delivery, and the drive of a cycle. \<^verbatim>\<open>Net_Flow\<close>,
    \<^verbatim>\<open>Net_Network\<close> and \<^verbatim>\<open>Net_Cycle\<close> show that a consistent network neither loses, duplicates nor
    misdelivers messages over any number of cycles, and what is let in; \<^verbatim>\<open>Net_Build\<close> that an accepted
    description gives a well-formed network and that late parameters are reported.

  \<^item> \<^verbatim>\<open>Memory_Message\<close> (\<^verbatim>\<open>Common/Slices/MemoryMessage.hpp\<close>): message types, constructors and the
    classification predicates.

  \<^item> \<^verbatim>\<open>Fast_Cache\<close> (\<^verbatim>\<open>FastCache/StdCache.hpp\<close>) and \<^verbatim>\<open>Fast_Protocol\<close> (\<^verbatim>\<open>CoherenceProtocol.hpp\<close>, the tables of
    \<^verbatim>\<open>InclusiveMESI.hpp\<close> and \<^verbatim>\<open>InclusiveMOESI.hpp\<close>, \<^verbatim>\<open>FastCacheImpl.cpp\<close>): the tag array with its
    16 bit ways, its replacement and its checkpoints in both formats, the actions on requests and snoops, and the ports of the
    component. The channels to the other components are arguments that work on the whole state.
    \<^verbatim>\<open>Fast_Array\<close> abstracts a set to a list in recency order and shows that allocation is least recently
    used replacement, up to 65536 ways, and that a checkpoint is read back. \<^verbatim>\<open>Fast_Component\<close> states what a protocol
    relies on as the locale \<^verbatim>\<open>tag_array\<close>, interpreted on the tag array of the code, and shows
    inside it that demand requests are carried out as a short plan says and snoops are
    answered as MESI asks. \<^verbatim>\<open>Fast_Properties\<close> has the properties of a cache alone.

  \<^item> \<^verbatim>\<open>Cmp_Directory\<close> (\<^verbatim>\<open>SharingVector.hpp\<close>, \<^verbatim>\<open>BlockDirectoryEntry.hpp\<close>, \<^verbatim>\<open>InfiniteDirectory.cpp\<close>,
    \<^verbatim>\<open>StandardDirectory.cpp\<close>, \<^verbatim>\<open>AbstractFactory.hpp\<close>) and \<^verbatim>\<open>Cmp_Cache\<close> (\<^verbatim>\<open>SingleCMPProtocol.cpp\<close>,
    \<^verbatim>\<open>FastCMPCacheImpl.cpp\<close>, \<^verbatim>\<open>FastMemoryLoopbackImpl.cpp\<close>): the directories, the 96 rows of the protocol
    table, the handling of a request with its snoops, and the memory. \<^verbatim>\<open>Cmp_Protocol\<close> has the contract
    of a directory as the locale \<^verbatim>\<open>directory\<close>, interpreted on the infinite directory, and shows for a
    single block that every row a request can reach keeps it coherent. \<^verbatim>\<open>Cmp_Shared\<close> has the locale
    \<^verbatim>\<open>shared_cache\<close>, which extends both and adds what the shared cache relies on from the caches above
    it and the memory below, and the lemmas on whole requests and device accesses.

  \<^item> \<^verbatim>\<open>Fast_System\<close> (\<^verbatim>\<open>simulators/UP.Trace/wiring.cpp\<close>) wires the components, with the checks of the framework on the
    widths of the port arrays, and interprets \<^verbatim>\<open>shared_cache\<close> on them; \<^verbatim>\<open>Fast_Coherence\<close> carries an invariant through every access: for parameters that fit
    (\<^verbatim>\<open>params_fit\<close>) all executions run to their end without a failed assertion, a cache that may write a block is the only one that holds
    it, and the directory knows every holder.

  \<^item> \<^verbatim>\<open>Branch_Predictor\<close> (\<^verbatim>\<open>Common/BranchPredictor.cpp\<close>, \<^verbatim>\<open>uFetch/uFetchTypes.hpp\<close>): branch target buffer,
    bimodal and gshare tables, the combining predictors of the timing and of the trace model,
    two classes of the code with definitions of their own, and their checkpoints. \<^verbatim>\<open>Branch_Correct\<close> has the contract of a table of counters as the locale
    \<^verbatim>\<open>counter_table\<close>, interpreted on both kinds, the invariant of the tables and what a prediction
    and an outcome do to them. \<^verbatim>\<open>Branch_Properties\<close>: the branch target buffer is a bounded map, the
    speculative history is repaired, the counters learn, every outcome is counted once, and
    the two predictors agree on every sequence of branches.

  \<^item> \<^verbatim>\<open>MT_Manager\<close> (\<^verbatim>\<open>MTManagerComponentImpl.cpp\<close>): the scheduling policies, with the locales \<^verbatim>\<open>policy\<close> and
    \<^verbatim>\<open>round_robin\<close>, interpreted on all of them; the choices are the ones the policies name, fair,
    and one thread of a core runs in a cycle.

  \<^item> \<^verbatim>\<open>Fetch_Address\<close> (\<^verbatim>\<open>FetchAddressGenerateImpl.cpp\<close>): the generator over predictor and scheduler; what
    it sends is a path within its limits, and in a sequence of redirects, outcomes and cycles
    exactly a redirect of a thread that does not exist fails and a cycle for a core the scheduler
    does not have or for a thread whose channels are not ready. \<^verbatim>\<open>Branch_Warm\<close> (\<^verbatim>\<open>BPWarmImpl.cpp\<close>): what the trace mode teaches the predictor of a
    branch, and what it teaches wrongly of annulled ones.

  \<^item> \<^verbatim>\<open>Timing_Queues\<close> (\<^verbatim>\<open>Common/MessageQueues.hpp\<close>): the message queue refines a bounded queue with
    reservations, and a pipeline takes accesses at exactly the rate of its servers. Times
    are 64 bit words.

  \<^item> \<^verbatim>\<open>Dir_State\<close> (\<^verbatim>\<open>CMPCache/SimpleDirectoryState.hpp\<close>, \<^verbatim>\<open>LimitedDirectoryState.hpp\<close>): the locale
    \<^verbatim>\<open>sharer_set\<close> says what a directory relies on, and is interpreted on the exact bit vector and on
    the limited pointers, which never forget a sharer.

  \<^item> \<^verbatim>\<open>Miss_File\<close> (\<^verbatim>\<open>CMPCache/MissAddressFile.hpp\<close>): the miss address file, with the locale
    \<^verbatim>\<open>ordered_index\<close> for the indices of its container; it refines a list of requests in the order of
    their age, and its region recorder is exact. \<^verbatim>\<open>Evict_Buffers\<close> (\<^verbatim>\<open>CMPCache/EvictBuffer.hpp\<close>,
    \<^verbatim>\<open>CacheBuffers.hpp\<close>): the evict buffers and the snoop buffer, with the locale \<^verbatim>\<open>slot_buffer\<close> for the
    places that controllers reserve, interpreted on all four; writebacks and snoops are served
    in order, and the counters of the directory's buffer are exact while it is driven as its
    policy drives it.

  \<^item> \<^verbatim>\<open>Timing_Array\<close> (\<^verbatim>\<open>CMPCache/CacheState.hpp\<close>, \<^verbatim>\<open>StdArray.hpp\<close>): block states with their flags and the set
    associative array. A fill evicts the least recently used block that is neither protected nor
    locked and changes the answer of no other lookup, and with a bank interleaving between a block
    and the blocks of a bank no address is looked up outside of the sets, after any sequence of
    operations; a theorem shows an accepted configuration beyond it where one is.

  \<^bold>\<open>Conventions.\<close> A C++ class is a record and a method a function that returns the updated
  record in a result, with \<^verbatim>\<open>Inl\<close> for a failed assertion or a reported error. Arithmetic whose
  overflow matters is on words, or on integers with the wrap-around written out (\<^verbatim>\<open>wrap32\<close>, \<^verbatim>\<open>way16\<close>,
  \<^verbatim>\<open>to_int32\<close>), and the theorems state the bounds they need; the network's cycle numbers and the
  counters of entries in a buffer are integers, whose values stay far below the 32 and 64 bit
  limits. An access C++ does not define is an error of the result where the program would be
  lost (an index past a container, a foreign iterator), and an argument on which nothing is
  assumed where it goes on with a value (the shifts of \<^verbatim>\<open>StdArray::init\<close>). Linked lists of messages are lists, in order from head to tail.
  Debug output and statistics counters that nothing reads are left out. The loop over a
  switch's internal buffer has fuel, the length of the list it walks; the theorem on its
  termination shows that this is enough and that more changes nothing. All other loops are
  structural recursions.

  \<^bold>\<open>Not modelled.\<close> The character level of the reader of network descriptions; in the trace mode the
  region tracking cache and the tagless directory, histograms of sharers, and the feeder, whose
  accesses are the input of the model; the decoder tables, semantic actions and dependence
  machinery; the reorder buffer, load-store queue, memory and cycle code of the core; the
  directories, region tracking arrays and protocol engines of the timing caches (\<^verbatim>\<open>Cache\<close>,
  \<^verbatim>\<open>CMPCache\<close>); the fetch unit; trace trackers; the component framework, the statistics manager, the Simics bindings, and the
  vendored DRAM simulator and Boost extensions. The coherence theorems are for MESI first level
  caches, the standard tag array, the infinite directory and separate tracking of instruction
  and data caches; the standard directory is modelled but not part of them. The order of further
  work: the directories and controllers of the timing caches, the reorder buffer.
\<close>

end
